(* ===== verification/LS_Prelude.thy ===== *)
theory LS_Prelude
  imports Main "HOL-Library.AList" "HOL-Library.Multiset" "HOL-Library.Word"
begin

text \<open>
  Shared vocabulary of the development: the types that name Go's values, Go maps as
  association lists with the interface locale \<open>go_map\<close>, time arithmetic with the
  saturation of \<open>time.Time.Sub\<close>, 64-bit wrap-around, and the generic lemmas the
  components share.

  A Go \<open>map\<close> is an association list. The list order stands for one order in which a
  \<open>range\<close> statement may visit the entries; Go leaves that order open, so a loop whose
  result could depend on it takes the visited entries as an argument (\<open>visits\<close>).
\<close>

named_theorems gomap_simps \<open>rewrite rules for Go maps\<close>
named_theorems time_simps \<open>unfolding of time arithmetic\<close>

subsection \<open>Values\<close>

type_synonym bytes = string
type_synonym time = int
type_synonym duration = int
type_synonym ('k, 'v) gomap = "('k \<times> 'v) list"

subsection \<open>Integers and time\<close>

text \<open>
  Times are nanoseconds on one axis; a \<open>time.Duration\<close> is a signed 64-bit count of
  nanoseconds and \<open>Sub\<close> saturates at its ends.
\<close>

definition second :: duration where
  "second = 1000000000"

definition min_duration :: duration where
  "min_duration = - (2 ^ 63)"

definition max_duration :: duration where
  "max_duration = 2 ^ 63 - 1"

definition time_sub :: "time \<Rightarrow> time \<Rightarrow> duration" where
  "time_sub a b = max min_duration (min max_duration (a - b))"

text \<open>The zero \<open>time.Time\<close>: year 1, in nanoseconds before the Unix epoch.\<close>

definition zero_time :: time where
  "zero_time = - (62135596800 * 1000000000)"

text \<open>Reading an integer back as a signed 64-bit one: the wrap-around of \<open>int64\<close>.\<close>

definition wrap64 :: "int \<Rightarrow> int" where
  "wrap64 x = (x + 2 ^ 63) mod 2 ^ 64 - 2 ^ 63"

definition int64_range :: "int \<Rightarrow> bool" where
  "int64_range x \<longleftrightarrow> - (2 ^ 63) \<le> x \<and> x < 2 ^ 63"

lemma wrap64_in_range [simp]: "int64_range (wrap64 x)"
  by (simp add: wrap64_def int64_range_def)

lemma wrap64_id: "int64_range x \<Longrightarrow> wrap64 x = x"
  by (simp add: wrap64_def int64_range_def)

lemma time_sub_gt_iff [time_simps]:
  "min_duration \<le> d \<Longrightarrow> d < max_duration \<Longrightarrow> d < time_sub a b \<longleftrightarrow> d < a - b"
  by (auto simp: time_sub_def max_def min_def min_duration_def max_duration_def)

lemma time_sub_mono: "a \<le> b \<Longrightarrow> time_sub a c \<le> time_sub b c"
  by (auto simp: time_sub_def)

lemma time_sub_antimono: "c \<le> d \<Longrightarrow> time_sub a d \<le> time_sub a c"
  by (auto simp: time_sub_def)

text \<open>A duration that a configured limit may take: no saturation can hide it.\<close>

definition plain_duration :: "duration \<Rightarrow> bool" where
  "plain_duration d \<longleftrightarrow> 0 \<le> d \<and> d < max_duration"

lemma plain_duration_gt_iff [time_simps]:
  "plain_duration d \<Longrightarrow> d < time_sub a b \<longleftrightarrow> d < a - b"
  by (auto simp: plain_duration_def min_duration_def intro!: time_sub_gt_iff)

subsection \<open>Go maps\<close>

declare map_of_eq_Some_iff [simp del]

abbreviation gm_wf :: "('k, 'v) gomap \<Rightarrow> bool" where
  "gm_wf m \<equiv> distinct (map fst m)"

definition visits :: "('k \<times> 'v) list \<Rightarrow> ('k, 'v) gomap \<Rightarrow> bool" where
  "visits vis m \<longleftrightarrow> mset vis = mset m"

text \<open>
  The interface the components use. \<open>len\<close> is Go's \<open>len(m)\<close>; the laws are those of a
  finite map together with how \<open>len\<close> moves.
\<close>

locale go_map =
  fixes empty :: "'m"
    and get :: "'m \<Rightarrow> 'k \<Rightarrow> 'v option"
    and put :: "'k \<Rightarrow> 'v \<Rightarrow> 'm \<Rightarrow> 'm"
    and del :: "'k \<Rightarrow> 'm \<Rightarrow> 'm"
    and len :: "'m \<Rightarrow> nat"
    and wf :: "'m \<Rightarrow> bool"
  assumes get_empty: "get empty k = None"
    and len_empty: "len empty = 0"
    and wf_empty: "wf empty"
    and get_put: "get (put k v m) k' = (if k' = k then Some v else get m k')"
    and get_del: "get (del k m) k' = (if k' = k then None else get m k')"
    and len_put: "len (put k v m) = (if get m k = None then Suc (len m) else len m)"
    and len_del: "wf m \<Longrightarrow> len (del k m) = (if get m k = None then len m else len m - 1)"
    and len_pos: "get m k = Some v \<Longrightarrow> 0 < len m"
    and wf_put: "wf m \<Longrightarrow> wf (put k v m)"
    and wf_del: "wf m \<Longrightarrow> wf (del k m)"
begin

lemma put_within:
  "len m \<le> n \<Longrightarrow> get m k \<noteq> None \<or> len m < n \<Longrightarrow> len (put k v m) \<le> n"
  by (auto simp: len_put)

lemma del_len_le: "wf m \<Longrightarrow> len (del k m) \<le> len m"
  by (simp add: len_del)

lemma evict_put_within:
  assumes "wf m" "get m j \<noteq> None" "len m \<le> n"
  shows "len (put k v (del j m)) \<le> n"
proof -
  from assms obtain w where w: "get m j = Some w" by auto
  then have "len (del j m) = len m - 1" "0 < len m"
    using assms len_pos by (auto simp: len_del)
  then show ?thesis using assms(3) by (auto simp: len_put)
qed

lemma put_del_get:
  "j \<noteq> k \<Longrightarrow> get (put k v (del j m)) j = None"
  by (simp add: get_put get_del)

end

lemma length_alist_update:
  "length (AList.update k v m) = (if map_of m k = None then Suc (length m) else length m)"
  by (induction m) (auto split: if_splits)

lemma length_alist_delete:
  assumes "gm_wf m"
  shows "length (AList.delete k m) = (if map_of m k = None then length m else length m - 1)"
  using assms
proof (induction m)
  case Nil
  then show ?case by simp
next
  case (Cons p m)
  obtain j w where p: "p = (j, w)" by fastforce
  show ?case
  proof (cases "j = k")
    case True
    with Cons.prems p have "k \<notin> fst ` set m" by auto
    then have "AList.delete k m = m" by simp
    with True p show ?thesis by simp
  next
    case False
    with Cons p show ?thesis by (cases m) auto
  qed
qed

interpretation gm: go_map "[]" map_of AList.update AList.delete length gm_wf
proof (unfold_locales, goal_cases)
  case (5 k m k')
  then show ?case by (simp add: delete_conv')
next
  case (7 m k)
  then show ?case by (simp add: length_alist_delete)
next
  case (8 m k v)
  then show ?case by (cases m) auto
qed (auto simp: update_conv' length_alist_update distinct_update distinct_delete)

lemmas gomap_laws [gomap_simps] =
  gm.get_put gm.get_del gm.len_put gm.len_del gm.wf_put gm.wf_del

text \<open>
  Deleting, in a \<open>range\<close> loop, the entries that fail a test leaves the others: Go allows
  the deletion of the current entry and never produces a removed one.
\<close>

definition gm_keep :: "('k \<Rightarrow> 'v \<Rightarrow> bool) \<Rightarrow> ('k, 'v) gomap \<Rightarrow> ('k, 'v) gomap" where
  "gm_keep P m = filter (\<lambda>(k, v). P k v) m"

lemma get_keep [gomap_simps]:
  "gm_wf m \<Longrightarrow> map_of (gm_keep P m) k =
     (case map_of m k of None \<Rightarrow> None | Some v \<Rightarrow> if P k v then Some v else None)"
proof (induction m)
  case Nil
  then show ?case by (simp add: gm_keep_def)
next
  case (Cons p m)
  obtain j w where p: "p = (j, w)" by fastforce
  from Cons have IH: "map_of (gm_keep P m) k =
      (case map_of m k of None \<Rightarrow> None | Some v \<Rightarrow> if P k v then Some v else None)"
    by simp
  have "map_of m j = None"
    using Cons.prems p by (auto simp: map_of_eq_None_iff)
  with IH p show ?case by (auto simp: gm_keep_def)
qed

lemma wf_keep [gomap_simps]: "gm_wf m \<Longrightarrow> gm_wf (gm_keep P m)"
  unfolding gm_keep_def by (rule distinct_map_filter)

lemma len_keep: "length (gm_keep P m) \<le> length m"
  by (simp add: gm_keep_def)

lemma get_of_visits:
  assumes "visits vis m" "gm_wf m"
  shows "map_of vis = map_of m"
proof -
  from assms(1) have eq: "mset vis = mset m" by (simp add: visits_def)
  then have "mset (map fst vis) = mset (map fst m)" by simp
  with assms(2) have "distinct (map fst vis)"
    using mset_eq_imp_distinct_iff by blast
  moreover from eq have "set vis = set m" by (rule mset_eq_setD)
  ultimately show ?thesis
    using assms(2) by (simp add: map_of_inject_set)
qed

lemma visits_refl [simp]: "visits m m"
  by (simp add: visits_def)

lemma alist_update_keys: "fst ` set (AList.update k v m) = insert k (fst ` set m)"
  using dom_update [of k v m] by simp

lemma alist_update_values: "snd ` set (AList.update k v m) \<subseteq> insert v (snd ` set m)"
  by (induction m) auto

lemma visits_set: "visits vis m \<Longrightarrow> set vis = set m"
  unfolding visits_def by (rule mset_eq_setD)

subsection \<open>Lists\<close>

lemma filter_le_one_update:
  "i < length xs \<Longrightarrow> \<not> P (xs ! i) \<Longrightarrow> P y \<Longrightarrow>
     length (filter P (xs[i := y])) = Suc (length (filter P xs))"
proof (induction xs arbitrary: i)
  case Nil
  then show ?case by simp
next
  case (Cons x xs)
  then show ?case by (cases i) auto
qed

lemma filter_less_one_update:
  "i < length xs \<Longrightarrow> P (xs ! i) \<Longrightarrow> \<not> P y \<Longrightarrow>
     Suc (length (filter P (xs[i := y]))) = length (filter P xs)"
proof (induction xs arbitrary: i)
  case Nil
  then show ?case by simp
next
  case (Cons x xs)
  then show ?case by (cases i) auto
qed

lemma filter_same_update:
  "i < length xs \<Longrightarrow> P (xs ! i) = P y \<Longrightarrow>
     length (filter P (xs[i := y])) = length (filter P xs)"
proof (induction xs arbitrary: i)
  case Nil
  then show ?case by simp
next
  case (Cons x xs)
  then show ?case by (cases i) auto
qed

subsection \<open>Counting entries of a map\<close>

definition count_vals :: "('v \<Rightarrow> bool) \<Rightarrow> ('k, 'v) gomap \<Rightarrow> nat" where
  "count_vals P m = length (filter (\<lambda>p. P (snd p)) m)"

lemma count_vals_update:
  "gm_wf m \<Longrightarrow> map_of m k = Some old \<Longrightarrow>
     int (count_vals P (AList.update k new m)) =
     int (count_vals P m) - (if P old then 1 else 0) + (if P new then 1 else 0)"
proof (induction m)
  case Nil
  then show ?case by simp
next
  case (Cons p m)
  obtain j w where p: "p = (j, w)" by fastforce
  show ?case
  proof (cases "j = k")
    case True
    with Cons.prems p show ?thesis by (simp add: count_vals_def)
  next
    case False
    with Cons p show ?thesis by (auto simp: count_vals_def split: if_splits)
  qed
qed

lemma count_vals_new:
  "map_of m k = None \<Longrightarrow> count_vals P (AList.update k v m) = count_vals P m + (if P v then 1 else 0)"
  by (induction m) (auto simp: count_vals_def split: if_splits)

lemma count_vals_pos_iff:
  "gm_wf m \<Longrightarrow> 0 < count_vals P m \<longleftrightarrow> (\<exists>k v. map_of m k = Some v \<and> P v)"
  unfolding count_vals_def by (auto simp: filter_empty_conv map_of_eq_Some_iff) force+

subsection \<open>Bounded stores\<close>

text \<open>
  A store of bounded size that may drop old entries when a new one comes. \<open>put\<close> must keep the
  entry it adds and may only forget others; then nothing that is read was never put, and a
  value that is read is the last one put.
\<close>

locale bounded_store =
  fixes peek :: "'s \<Rightarrow> 'k \<Rightarrow> 'v option"
    and put :: "'k \<Rightarrow> 'v \<Rightarrow> 's \<Rightarrow> 's"
    and size :: "'s \<Rightarrow> nat"
    and cap :: nat
    and ok :: "'s \<Rightarrow> bool"
    and fit :: "'k \<Rightarrow> 'v \<Rightarrow> bool"
  assumes ok_put: "ok s \<Longrightarrow> fit k v \<Longrightarrow> ok (put k v s)"
    and size_le: "ok s \<Longrightarrow> size s \<le> cap"
    and peek_put: "ok s \<Longrightarrow> fit k v \<Longrightarrow> peek (put k v s) k = Some v"
    and peek_other:
      "ok s \<Longrightarrow> fit k v \<Longrightarrow> k' \<noteq> k \<Longrightarrow> peek (put k v s) k' = None \<or> peek (put k v s) k' = peek s k'"
begin

definition puts :: "('k \<times> 'v) list \<Rightarrow> 's \<Rightarrow> 's" where
  "puts kvs s = fold (\<lambda>p. put (fst p) (snd p)) kvs s"

lemma puts_snoc: "puts (kvs @ [p]) s = put (fst p) (snd p) (puts kvs s)"
  by (simp add: puts_def)

lemma ok_puts: "ok s \<Longrightarrow> \<forall>(k, v)\<in>set kvs. fit k v \<Longrightarrow> ok (puts kvs s)"
proof (induction kvs rule: rev_induct)
  case Nil
  then show ?case by (simp add: puts_def)
next
  case (snoc p kvs)
  then show ?case by (cases p) (auto simp: puts_snoc intro: ok_put)
qed

lemma puts_size: "ok s \<Longrightarrow> \<forall>(k, v)\<in>set kvs. fit k v \<Longrightarrow> size (puts kvs s) \<le> cap"
  by (intro size_le ok_puts)

lemma peek_puts:
  "ok s \<Longrightarrow> \<forall>(k, v)\<in>set kvs. fit k v \<Longrightarrow> peek (puts kvs s) k = Some v \<Longrightarrow>
     map_of (rev kvs) k = Some v \<or> (map_of (rev kvs) k = None \<and> peek s k = Some v)"
proof (induction kvs rule: rev_induct)
  case Nil
  then show ?case by (simp add: puts_def)
next
  case (snoc p kvs)
  obtain j w where p: "p = (j, w)" by fastforce
  from snoc.prems(2) p have f: "fit j w" "\<forall>(k, v)\<in>set kvs. fit k v" by auto
  note ok = ok_puts [OF snoc.prems(1) f(2)]
  show ?case
  proof (cases "k = j")
    case True
    with snoc.prems p peek_put [OF ok f(1)] show ?thesis by (simp add: puts_snoc)
  next
    case False
    with snoc.prems p peek_other [OF ok f(1) False]
    have "peek (puts kvs s) k = Some v" by (auto simp: puts_snoc)
    with snoc.IH [OF snoc.prems(1) f(2)] False p show ?thesis by simp
  qed
qed

end

end
