(* ===== verification/Conn_Limit.thy ===== *)
theory Conn_Limit
  imports LS_Prelude
begin

text \<open>
  \<open>internal/localsend/utils/connlimit.go\<close>: the listener that bounds simultaneous
  connections in total and per peer. The limiter is a record; \<open>acquire\<close> returns the data
  its release closure captures; a connection frees its slot once, on the first \<open>Close\<close>.
  The locale \<open>slot_limiter\<close> is the contract the listener relies on.
\<close>

subsection \<open>Peer addresses (\<open>net/netip\<close>)\<close>

datatype netaddr = NoAddr | V4 "32 word" | V6 "128 word" string

definition is_4in6 :: "128 word \<Rightarrow> bool" where
  "is_4in6 w \<longleftrightarrow> drop_bit 32 w = 0xffff"

fun addr_unmap :: "netaddr \<Rightarrow> netaddr" where
  "addr_unmap (V6 w z) = (if is_4in6 w then V4 (ucast w) else V6 w z)"
| "addr_unmap a = a"

fun addr_without_zone :: "netaddr \<Rightarrow> netaddr" where
  "addr_without_zone (V6 w z) = V6 w []"
| "addr_without_zone a = a"

fun addr_is_loopback :: "netaddr \<Rightarrow> bool" where
  "addr_is_loopback NoAddr = False"
| "addr_is_loopback (V4 w) = (drop_bit 24 w = 127)"
| "addr_is_loopback (V6 w z) =
     (if is_4in6 w then drop_bit 24 (ucast w :: 32 word) = 127 else w = 1)"

subsection \<open>The limiter\<close>

datatype conn_error = ErrConnectionLimit | ErrPerIPConnectionLimit

record conn_limiter =
  max_total :: int
  max_per_ip :: int
  conn_total :: int
  per_ip :: "(netaddr, int) gomap"

text \<open>What the closure returned by \<open>acquire\<close> captures: the address and \<open>limited\<close>.\<close>

datatype slot = Slot netaddr bool

definition max_connections :: int where
  "max_connections = 64"

definition max_connections_per_ip :: int where
  "max_connections_per_ip = 8"

definition new_conn_limiter :: "int \<Rightarrow> int \<Rightarrow> conn_limiter" where
  "new_conn_limiter t p = \<lparr>max_total = t, max_per_ip = p, conn_total = 0, per_ip = []\<rparr>"

definition ip_count :: "conn_limiter \<Rightarrow> netaddr \<Rightarrow> int" where
  "ip_count l ip = (case map_of (per_ip l) ip of None \<Rightarrow> 0 | Some n \<Rightarrow> n)"

definition acquire :: "netaddr \<Rightarrow> conn_limiter \<Rightarrow> (conn_error + slot) \<times> conn_limiter" where
  "acquire addr l =
     (let ip = addr_without_zone (addr_unmap addr);
          limited = (\<not> addr_is_loopback ip)
      in if max_total l \<le> conn_total l then (Inl ErrConnectionLimit, l)
         else if limited \<and> max_per_ip l \<le> ip_count l ip then (Inl ErrPerIPConnectionLimit, l)
         else
           (Inr (Slot ip limited),
            l\<lparr>per_ip := (if limited then AList.update ip (ip_count l ip + 1) (per_ip l) else per_ip l),
              conn_total := conn_total l + 1\<rparr>))"

fun release_slot :: "slot \<Rightarrow> conn_limiter \<Rightarrow> conn_limiter" where
  "release_slot (Slot ip limited) l =
     l\<lparr>conn_total := conn_total l - 1,
       per_ip := (if limited then
                    (if ip_count l ip \<le> 1 then AList.delete ip (per_ip l)
                     else AList.update ip (ip_count l ip - 1) (per_ip l))
                  else per_ip l)\<rparr>"

subsection \<open>The listener\<close>

datatype tcp_event = Incoming netaddr | AcceptError string

datatype accept_result = Accepted slot | AcceptFailed string | Waiting

record limited_listener =
  ln_limiter :: conn_limiter
  at_limit :: bool

definition new_limited_listener :: "int \<Rightarrow> int \<Rightarrow> limited_listener" where
  "new_limited_listener t p = \<lparr>ln_limiter = new_conn_limiter t p, at_limit = False\<rparr>"

text \<open>
  \<open>Accept\<close> loops over what \<open>AcceptTCP\<close> yields until a connection is admitted or the socket
  fails; \<open>Waiting\<close> is a call still blocked when no more event has come. The third component
  counts the warnings it logs.
\<close>

fun accept :: "tcp_event list \<Rightarrow> limited_listener \<Rightarrow> accept_result \<times> limited_listener \<times> nat" where
  "accept [] ln = (Waiting, ln, 0)"
| "accept (AcceptError e # evs) ln = (AcceptFailed e, ln, 0)"
| "accept (Incoming addr # evs) ln =
     (case acquire addr (ln_limiter ln) of
        (Inr s, l') \<Rightarrow> (Accepted s, ln\<lparr>ln_limiter := l', at_limit := False\<rparr>, 0)
      | (Inl err, l') \<Rightarrow>
          (if err = ErrConnectionLimit then
             (if at_limit ln then accept evs (ln\<lparr>ln_limiter := l'\<rparr>)
              else (case accept evs (ln\<lparr>ln_limiter := l', at_limit := True\<rparr>) of
                      (r, ln', w) \<Rightarrow> (r, ln', Suc w)))
           else accept evs (ln\<lparr>ln_limiter := l'\<rparr>)))"

text \<open>
  The connections handed out so far, each with its slot and whether its \<open>releaseOnce\<close> has
  fired; a connection is named by its position.
\<close>

record conn_sys =
  listener :: limited_listener
  conns :: "(slot \<times> bool) list"

definition close_conn :: "nat \<Rightarrow> conn_sys \<Rightarrow> conn_sys" where
  "close_conn i s =
     (if snd (conns s ! i) then s
      else s\<lparr>listener := (listener s)\<lparr>ln_limiter :=
                 release_slot (fst (conns s ! i)) (ln_limiter (listener s))\<rparr>,
             conns := (conns s)[i := (fst (conns s ! i), True)]\<rparr>)"

inductive conn_step :: "conn_sys \<Rightarrow> conn_sys \<Rightarrow> bool" where
  accept_ok:
    "accept evs (listener s) = (Accepted sl, ln', w) \<Longrightarrow>
     conn_step s (s\<lparr>listener := ln', conns := conns s @ [(sl, False)]\<rparr>)"
| accept_none:
    "accept evs (listener s) = (r, ln', w) \<Longrightarrow> \<nexists>sl. r = Accepted sl \<Longrightarrow>
     conn_step s (s\<lparr>listener := ln'\<rparr>)"
| close:
    "i < length (conns s) \<Longrightarrow> conn_step s (close_conn i s)"

inductive conn_reachable :: "int \<Rightarrow> int \<Rightarrow> conn_sys \<Rightarrow> bool" for t p where
  start: "conn_reachable t p \<lparr>listener = new_limited_listener t p, conns = []\<rparr>"
| step: "conn_reachable t p s \<Longrightarrow> conn_step s s' \<Longrightarrow> conn_reachable t p s'"

inductive_cases conn_stepE: "conn_step s s'"

subsection \<open>The contract of a limiter\<close>

definition live_handles :: "('r \<times> bool) list \<Rightarrow> 'r multiset" where
  "live_handles cs = mset (map fst (filter (\<lambda>c. \<not> snd c) cs))"

text \<open>
  \<open>inv s H\<close>: the limiter's state \<open>s\<close> accounts for exactly the handles \<open>H\<close>. A refused
  request changes nothing, an admitted one adds its handle, a release takes one away.
\<close>

locale slot_limiter =
  fixes acq :: "'a \<Rightarrow> 's \<Rightarrow> ('e + 'r) \<times> 's"
    and rel :: "'r \<Rightarrow> 's \<Rightarrow> 's"
    and inv :: "'s \<Rightarrow> 'r multiset \<Rightarrow> bool"
  assumes acq_admits: "inv s H \<Longrightarrow> acq a s = (Inr r, s') \<Longrightarrow> inv s' (add_mset r H)"
    and acq_refuses: "acq a s = (Inl e, s') \<Longrightarrow> s' = s"
    and rel_frees: "inv s (add_mset r H) \<Longrightarrow> inv (rel r s) H"
begin

lemma open_keeps:
  "inv s (live_handles cs) \<Longrightarrow> acq a s = (Inr r, s') \<Longrightarrow> inv s' (live_handles (cs @ [(r, False)]))"
  using acq_admits by (simp add: live_handles_def)

lemma close_keeps:
  assumes "inv s (live_handles cs)" "i < length cs" "\<not> snd (cs ! i)"
  shows "inv (rel (fst (cs ! i)) s) (live_handles (cs[i := (fst (cs ! i), True)]))"
proof -
  have cs: "cs = take i cs @ cs ! i # drop (Suc i) cs"
    using assms(2) by (rule id_take_nth_drop)
  have "live_handles cs = live_handles (take i cs @ cs ! i # drop (Suc i) cs)"
    using cs by simp
  also have "\<dots> = add_mset (fst (cs ! i)) (live_handles (take i cs @ drop (Suc i) cs))"
    using assms(3) by (simp add: live_handles_def)
  finally have "inv (rel (fst (cs ! i)) s) (live_handles (take i cs @ drop (Suc i) cs))"
    using assms(1) rel_frees by metis
  moreover have "live_handles (take i cs @ drop (Suc i) cs)
      = live_handles (cs[i := (fst (cs ! i), True)])"
    using assms(2) by (simp add: live_handles_def upd_conv_take_nth_drop)
  ultimately show ?thesis by simp
qed

end

subsection \<open>The limiter meets the contract\<close>

definition slots_of :: "netaddr \<Rightarrow> slot multiset \<Rightarrow> nat" where
  "slots_of ip H = count H (Slot ip True)"

definition limiter_inv :: "conn_limiter \<Rightarrow> slot multiset \<Rightarrow> bool" where
  "limiter_inv l H \<longleftrightarrow>
     gm_wf (per_ip l) \<and>
     conn_total l = int (size H) \<and> int (size H) \<le> max 0 (max_total l) \<and>
     (\<forall>ip. map_of (per_ip l) ip =
        (if slots_of ip H = 0 then None else Some (int (slots_of ip H)))) \<and>
     (\<forall>ip. int (slots_of ip H) \<le> max 0 (max_per_ip l)) \<and>
     (\<forall>ip b. Slot ip b \<in># H \<longrightarrow> b = (\<not> addr_is_loopback ip))"

lemma limiter_inv_new: "limiter_inv (new_conn_limiter t p) {#}"
  by (simp add: limiter_inv_def new_conn_limiter_def slots_of_def)

lemma ip_count_slots: "limiter_inv l H \<Longrightarrow> ip_count l ip = int (slots_of ip H)"
  by (simp add: ip_count_def limiter_inv_def)

lemma acquire_refuses: "acquire a l = (Inl e, l') \<Longrightarrow> l' = l"
  by (auto simp: acquire_def Let_def split: if_splits)

lemma slots_of_add [simp]:
  "slots_of ip (add_mset (Slot ip' b) H) = (if ip = ip' \<and> b then Suc (slots_of ip H) else slots_of ip H)"
  by (auto simp: slots_of_def)

lemma acquire_admits:
  assumes inv: "limiter_inv l H" and ok: "acquire a l = (Inr s, l')"
  shows "limiter_inv l' (add_mset s H)"
proof -
  define ip where "ip = addr_without_zone (addr_unmap a)"
  define lim where "lim = (\<not> addr_is_loopback ip)"
  from ok have room: "conn_total l < max_total l" "\<not> (lim \<and> max_per_ip l \<le> ip_count l ip)"
    and s: "s = Slot ip lim"
    and l': "l' = l\<lparr>per_ip := (if lim then AList.update ip (ip_count l ip + 1) (per_ip l) else per_ip l),
              conn_total := conn_total l + 1\<rparr>"
    by (auto simp: acquire_def Let_def ip_def [symmetric] lim_def [symmetric] split: if_splits)
  note inv' = inv [unfolded limiter_inv_def]
  have cnt: "ip_count l ip = int (slots_of ip H)" by (rule ip_count_slots [OF inv])
  show ?thesis
    unfolding limiter_inv_def
  proof (intro conjI allI impI)
    show "gm_wf (per_ip l')" using inv' l' by (simp add: distinct_update)
    show "conn_total l' = int (size (add_mset s H))" using inv' l' by simp
    show "int (size (add_mset s H)) \<le> max 0 (max_total l')" using inv' l' room(1) by simp
  next
    fix j
    show "map_of (per_ip l') j = (if slots_of j (add_mset s H) = 0 then None
        else Some (int (slots_of j (add_mset s H))))"
      using inv' l' s cnt by (auto simp: update_conv')
    show "int (slots_of j (add_mset s H)) \<le> max 0 (max_per_ip l')"
      using inv' l' s cnt room(2) by auto
  next
    fix j b
    assume "Slot j b \<in># add_mset s H"
    then show "b = (\<not> addr_is_loopback j)" using inv' s lim_def by auto
  qed
qed

lemma release_frees:
  assumes inv: "limiter_inv l (add_mset s H)"
  shows "limiter_inv (release_slot s l) H"
proof (cases s)
  case (Slot ip lim)
  note inv' = inv [unfolded limiter_inv_def Slot]
  have cnt: "ip_count l ip = int (slots_of ip (add_mset s H))" by (rule ip_count_slots [OF inv])
  have m: "map_of (per_ip l) j = (if slots_of j (add_mset s H) = 0 then None
      else Some (int (slots_of j (add_mset s H))))" for j
    using inv by (simp add: limiter_inv_def)
  have b: "int (slots_of j (add_mset s H)) \<le> max 0 (max_per_ip l)" for j
    using inv by (simp add: limiter_inv_def)
  show ?thesis
    unfolding limiter_inv_def
  proof (intro conjI allI impI)
    show "gm_wf (per_ip (release_slot s l))"
      using inv' Slot by (simp add: distinct_update distinct_delete)
    show "conn_total (release_slot s l) = int (size H)" using inv' Slot by simp
    show "int (size H) \<le> max 0 (max_total (release_slot s l))" using inv' Slot by simp
  next
    fix j
    show "map_of (per_ip (release_slot s l)) j =
        (if slots_of j H = 0 then None else Some (int (slots_of j H)))"
      using m [of j] cnt Slot by (auto simp: update_conv' delete_conv' split: if_splits)
    show "int (slots_of j H) \<le> max 0 (max_per_ip (release_slot s l))"
      using b [of j] Slot by (auto split: if_splits)
  next
    fix j b'
    assume "Slot j b' \<in># H"
    then show "b' = (\<not> addr_is_loopback j)" using inv' by auto
  qed
qed

interpretation cl: slot_limiter acquire release_slot limiter_inv
  by unfold_locales (rule acquire_admits acquire_refuses release_frees; assumption)+

lemma limiter_caps:
  assumes "limiter_inv l H" "0 \<le> max_total l" "0 \<le> max_per_ip l"
  shows "int (size H) \<le> max_total l" "int (slots_of ip H) \<le> max_per_ip l"
  using assms by (auto simp: limiter_inv_def dest: spec [of _ ip])

lemma limiter_caps_const [simp]:
  "max_total (release_slot s l) = max_total l" "max_per_ip (release_slot s l) = max_per_ip l"
  by (cases s; simp)+

lemma acquire_const:
  "acquire a l = (r, l') \<Longrightarrow> max_total l' = max_total l \<and> max_per_ip l' = max_per_ip l"
  by (auto simp: acquire_def Let_def split: if_splits)

lemma limiter_empty:
  "limiter_inv l {#} \<Longrightarrow> conn_total l = 0 \<and> per_ip l = []"
  by (cases "per_ip l") (auto simp: limiter_inv_def slots_of_def split: if_splits dest: spec)

subsection \<open>The listener keeps the contract\<close>

definition note_refusal :: "conn_error \<Rightarrow> limited_listener \<Rightarrow> limited_listener" where
  "note_refusal err ln = (if err = ErrConnectionLimit then ln\<lparr>at_limit := True\<rparr> else ln)"

lemma note_refusal_limiter [simp]: "ln_limiter (note_refusal err ln) = ln_limiter ln"
  by (simp add: note_refusal_def)

lemma at_limit_same [simp]: "at_limit ln \<Longrightarrow> ln\<lparr>at_limit := True\<rparr> = ln"
  by simp

lemma accept_refused:
  assumes "acquire addr (ln_limiter ln) = (Inl err, l')"
    and "accept (Incoming addr # evs) ln = (r, ln', w)"
  shows "\<exists>w'. accept evs (note_refusal err ln) = (r, ln', w')"
proof -
  from assms(1) have "l' = ln_limiter ln" by (rule acquire_refuses)
  then have "ln\<lparr>ln_limiter := l'\<rparr> = ln" by simp
  then show ?thesis
    using assms by (auto simp: note_refusal_def split: if_splits prod.splits)
qed

lemma accept_refused_unchanged:
  "accept evs ln = (r, ln', w) \<Longrightarrow> (\<nexists>sl. r = Accepted sl) \<Longrightarrow> ln_limiter ln' = ln_limiter ln"
proof (induction evs arbitrary: ln w)
  case Nil
  then show ?case by simp
next
  case (Cons ev evs)
  show ?case
  proof (cases ev)
    case (AcceptError e)
    with Cons.prems show ?thesis by simp
  next
    case (Incoming addr)
    show ?thesis
    proof (cases "acquire addr (ln_limiter ln)")
      case (Pair res l')
      show ?thesis
      proof (cases res)
        case (Inl err)
        with Pair Incoming Cons.prems(1) obtain w' where
          "accept evs (note_refusal err ln) = (r, ln', w')" using accept_refused by blast
        from Cons.IH [OF this Cons.prems(2)] show ?thesis by simp
      next
        case (Inr sl)
        with Pair Incoming Cons.prems show ?thesis by auto
      qed
    qed
  qed
qed

lemma accept_ok_acquires:
  "accept evs ln = (Accepted sl, ln', w) \<Longrightarrow>
     \<exists>addr. Incoming addr \<in> set evs \<and> acquire addr (ln_limiter ln) = (Inr sl, ln_limiter ln')
       \<and> \<not> at_limit ln'"
proof (induction evs arbitrary: ln w)
  case Nil
  then show ?case by simp
next
  case (Cons ev evs)
  show ?case
  proof (cases ev)
    case (AcceptError e)
    with Cons.prems show ?thesis by simp
  next
    case (Incoming addr)
    show ?thesis
    proof (cases "acquire addr (ln_limiter ln)")
      case (Pair res l')
      show ?thesis
      proof (cases res)
        case (Inl err)
        with Pair Incoming Cons.prems obtain w' where
          "accept evs (note_refusal err ln) = (Accepted sl, ln', w')" using accept_refused by blast
        from Cons.IH [OF this] show ?thesis by auto
      next
        case (Inr sl')
        with Pair Incoming Cons.prems show ?thesis by auto
      qed
    qed
  qed
qed

definition conn_inv :: "int \<Rightarrow> int \<Rightarrow> conn_sys \<Rightarrow> bool" where
  "conn_inv t p s \<longleftrightarrow>
     limiter_inv (ln_limiter (listener s)) (live_handles (conns s)) \<and>
     max_total (ln_limiter (listener s)) = t \<and> max_per_ip (ln_limiter (listener s)) = p"

lemma conn_step_inv: "conn_step s s' \<Longrightarrow> conn_inv t p s \<Longrightarrow> conn_inv t p s'"
proof (induction rule: conn_step.induct)
  case (accept_ok evs s sl ln' w)
  then obtain addr where "acquire addr (ln_limiter (listener s)) = (Inr sl, ln_limiter ln')"
    using accept_ok_acquires by blast
  with accept_ok(2) show ?case
    using cl.open_keeps acquire_const by (fastforce simp: conn_inv_def)
next
  case (accept_none evs s r ln' w)
  then show ?case using accept_refused_unchanged by (fastforce simp: conn_inv_def)
next
  case (close i s)
  then show ?case
    using cl.close_keeps [of "ln_limiter (listener s)" "conns s" i]
    by (auto simp: conn_inv_def close_conn_def)
qed

lemma conn_reachable_inv: "conn_reachable t p s \<Longrightarrow> conn_inv t p s"
proof (induction rule: conn_reachable.induct)
  case start
  then show ?case
    using limiter_inv_new [of t p]
    by (simp add: conn_inv_def new_limited_listener_def live_handles_def new_conn_limiter_def)
next
  case (step s s')
  then show ?case using conn_step_inv by blast
qed

fun slot_addr :: "slot \<Rightarrow> netaddr" where
  "slot_addr (Slot ip b) = ip"

definition live_total :: "conn_sys \<Rightarrow> nat" where
  "live_total s = length (filter (\<lambda>c. \<not> snd c) (conns s))"

definition live_from :: "netaddr \<Rightarrow> conn_sys \<Rightarrow> nat" where
  "live_from ip s = length (filter (\<lambda>c. \<not> snd c \<and> slot_addr (fst c) = ip) (conns s))"

lemma live_total_handles: "live_total s = size (live_handles (conns s))"
  unfolding live_total_def live_handles_def by (simp only: size_mset length_map)

lemma live_from_handles:
  "live_from ip s = size (filter_mset (\<lambda>h. slot_addr h = ip) (live_handles (conns s)))"
  unfolding live_from_def live_handles_def
  by (simp only: mset_filter [symmetric] size_mset filter_map length_map filter_filter o_def)

lemma filter_slots_count:
  assumes "\<forall>ip b. Slot ip b \<in># H \<longrightarrow> b = (\<not> addr_is_loopback ip)" "\<not> addr_is_loopback ip"
  shows "size (filter_mset (\<lambda>h. slot_addr h = ip) H) = slots_of ip H"
proof -
  have "filter_mset (\<lambda>h. slot_addr h = ip) H = filter_mset (\<lambda>h. h = Slot ip True) H"
  proof (rule filter_mset_cong)
    fix h
    assume "h \<in># H"
    with assms show "(slot_addr h = ip) = (h = Slot ip True)" by (cases h) auto
  qed simp
  then show ?thesis by (simp add: slots_of_def count_conv_size_mset)
qed

subsection \<open>Properties\<close>

text \<open>
  C21: In every reachable state of the listener at most \<open>maxTotal\<close> connections are open, and at
  most \<open>maxPerIP\<close> of them come from one non-loopback address, whatever the order of arrivals,
  refusals, closes and repeated closes.
\<close>

theorem connection_limits_hold:
  assumes "conn_reachable t p s" "0 \<le> t" "0 \<le> p"
  shows "int (live_total s) \<le> t \<and>
    (\<forall>ip. \<not> addr_is_loopback ip \<longrightarrow> int (live_from ip s) \<le> p)"
proof -
  from assms(1) have "conn_inv t p s" by (rule conn_reachable_inv)
  then have inv: "limiter_inv (ln_limiter (listener s)) (live_handles (conns s))"
    and c: "max_total (ln_limiter (listener s)) = t" "max_per_ip (ln_limiter (listener s)) = p"
    by (auto simp: conn_inv_def)
  note caps = limiter_caps [OF inv, unfolded c, OF assms(2,3)]
  have "\<forall>ip b. Slot ip b \<in># live_handles (conns s) \<longrightarrow> b = (\<not> addr_is_loopback ip)"
    using inv by (simp add: limiter_inv_def)
  with caps show ?thesis
    by (simp add: live_total_handles live_from_handles filter_slots_count)
qed

text \<open>
  No slot leaks: once every accepted connection has been closed, the limiter is back in
  its initial state, with no per-peer entry left, and closing a closed connection again
  changes nothing.
\<close>

theorem closed_connections_free_all:
  assumes "conn_reachable t p s" "\<forall>c\<in>set (conns s). snd c"
  shows "ln_limiter (listener s) = new_conn_limiter t p \<and>
    (\<forall>i < length (conns s). close_conn i s = s)"
proof -
  from assms(1) have inv: "conn_inv t p s" by (rule conn_reachable_inv)
  from assms(2) have "live_handles (conns s) = {#}"
    by (simp add: live_handles_def filter_empty_conv)
  with inv have "conn_total (ln_limiter (listener s)) = 0" "per_ip (ln_limiter (listener s)) = []"
    using limiter_empty by (auto simp: conn_inv_def)
  with inv have "ln_limiter (listener s) = new_conn_limiter t p"
    by (simp add: conn_inv_def new_conn_limiter_def)
  moreover have "\<forall>i < length (conns s). close_conn i s = s"
    using assms(2) by (simp add: close_conn_def)
  ultimately show ?thesis by blast
qed

definition one_conn_sys :: conn_sys where
  "one_conn_sys =
     \<lparr>listener = \<lparr>ln_limiter = \<lparr>max_total = 1, max_per_ip = 1, conn_total = 1,
                     per_ip = [(V4 167772161, 1)]\<rparr>, at_limit = False\<rparr>,
      conns = [(Slot (V4 167772161) True, False)]\<rparr>"

lemma one_conn_reachable: "conn_reachable 1 1 one_conn_sys"
proof -
  let ?s0 = "\<lparr>listener = new_limited_listener 1 1, conns = []\<rparr>"
  have "accept [Incoming (V6 0xffff0a000001 ''wlan0'')] (listener ?s0) =
      (Accepted (Slot (V4 167772161) True), listener one_conn_sys, 0)"
    by (simp add: acquire_def new_limited_listener_def new_conn_limiter_def is_4in6_def ip_count_def
        one_conn_sys_def Let_def)
  from conn_step.accept_ok [OF this] have "conn_step ?s0 one_conn_sys"
    by (simp add: one_conn_sys_def)
  with conn_reachable.start show ?thesis by (rule conn_reachable.step)
qed

theorem connection_limits_hold_witness:
  "int (live_total one_conn_sys) \<le> 1 \<and>
   (\<forall>ip. addr_is_loopback ip \<or> int (live_from ip one_conn_sys) \<le> 1)"
  using connection_limits_hold [OF one_conn_reachable] by auto

theorem closed_connections_free_all_witness:
  "ln_limiter (listener (close_conn 0 one_conn_sys)) = new_conn_limiter 1 1"
proof -
  have "conn_step one_conn_sys (close_conn 0 one_conn_sys)"
    by (rule conn_step.close) (simp add: one_conn_sys_def)
  with one_conn_reachable have r: "conn_reachable 1 1 (close_conn 0 one_conn_sys)"
    by (rule conn_reachable.step)
  have "\<forall>c\<in>set (conns (close_conn 0 one_conn_sys)). snd c"
    by (simp add: close_conn_def one_conn_sys_def)
  from closed_connections_free_all [OF r this] show ?thesis by blast
qed

end
