(* ===== verification/Go_Strings.thy ===== *)
theory Go_Strings
  imports LS_Prelude
begin

text \<open>
  The part of Go's \<open>strings\<close>, \<open>strconv\<close> and \<open>path/filepath\<close> packages (Unix build)
  that the program calls. A Go string is a byte string; a \<open>char\<close> is one byte.
  \<open>filepath.ToSlash\<close> and \<open>filepath.FromSlash\<close> are the identity on Unix. Case mapping
  of non-ASCII letters needs the Unicode tables, so functions that call
  \<open>strings.ToLower\<close> or \<open>strings.TrimSpace\<close> take them as arguments; \<open>ascii_lower\<close>
  and \<open>ascii_trim\<close> are their values on ASCII strings.
\<close>

named_theorems path_simps \<open>facts on splitting and cleaning paths\<close>

subsection \<open>Splitting and joining\<close>

fun split_on :: "char \<Rightarrow> string \<Rightarrow> string list" where
  "split_on c [] = [[]]"
| "split_on c (x # xs) =
     (if x = c then [] # split_on c xs
      else (case split_on c xs of [] \<Rightarrow> [[x]] | y # ys \<Rightarrow> (x # y) # ys))"

fun join_with :: "char \<Rightarrow> string list \<Rightarrow> string" where
  "join_with c [] = []"
| "join_with c [x] = x"
| "join_with c (x # y # ys) = x @ c # join_with c (y # ys)"

lemma split_on_neq_Nil [simp]: "split_on c s \<noteq> []"
  by (cases s) (auto split: list.splits)

lemma join_split [path_simps]: "join_with c (split_on c s) = s"
proof (induction s)
  case Nil
  then show ?case by simp
next
  case (Cons x xs)
  obtain y ys where yys: "split_on c xs = y # ys"
    by (cases "split_on c xs") auto
  with Cons show ?case by (cases ys) auto
qed

lemma split_no_sep: "p \<in> set (split_on c s) \<Longrightarrow> c \<notin> set p"
proof (induction s arbitrary: p)
  case Nil
  then show ?case by simp
next
  case (Cons x xs)
  then show ?case by (auto split: if_splits list.splits)
qed

lemma split_plain: "c \<notin> set s \<Longrightarrow> split_on c s = [s]"
  by (induction s) auto

lemma split_append: "c \<notin> set p \<Longrightarrow> split_on c (p @ c # s) = p # split_on c s"
  by (induction p) auto

lemma split_join [path_simps]:
  "ps \<noteq> [] \<Longrightarrow> (\<forall>p\<in>set ps. c \<notin> set p) \<Longrightarrow> split_on c (join_with c ps) = ps"
  by (induction c ps rule: join_with.induct) (auto simp: split_plain split_append)

lemma split_on_append_any:
  "split_on c (s @ c # t) = split_on c s @ split_on c t"
proof (induction s)
  case Nil
  then show ?case by simp
next
  case (Cons x xs)
  then show ?case by (cases "split_on c xs") (auto split: list.splits)
qed

lemma join_append:
  "ps \<noteq> [] \<Longrightarrow> qs \<noteq> [] \<Longrightarrow> join_with c (ps @ qs) = join_with c ps @ c # join_with c qs"
proof (induction c ps rule: join_with.induct)
  case (2 c x)
  then show ?case by (cases qs) auto
qed auto

lemma join_eq_Nil: "join_with c ps = [] \<longleftrightarrow> ps = [] \<or> ps = [[]]"
  by (induction c ps rule: join_with.induct) auto

lemma set_join_sep: "c \<in> set (join_with c ps) \<longleftrightarrow> 1 < length ps \<or> (\<exists>p\<in>set ps. c \<in> set p)"
  by (induction c ps rule: join_with.induct) auto

text \<open>\<open>strings.SplitN(s, sep, 2)\<close>: at most two parts, cut at the first separator.\<close>

fun split_first :: "char \<Rightarrow> string \<Rightarrow> string \<times> string option" where
  "split_first c [] = ([], None)"
| "split_first c (x # xs) =
     (if x = c then ([], Some xs)
      else (case split_first c xs of (a, r) \<Rightarrow> (x # a, r)))"

lemma split_first_None: "snd (split_first c s) = None \<longleftrightarrow> c \<notin> set s"
  by (induction s) (auto split: prod.splits)

lemma split_first_Some:
  "split_first c s = (a, Some r) \<Longrightarrow> s = a @ c # r \<and> c \<notin> set a"
  by (induction s arbitrary: a r) (auto split: if_splits prod.splits)

lemma split_first_append: "c \<notin> set a \<Longrightarrow> split_first c (a @ c # r) = (a, Some r)"
  by (induction a) auto

lemma split_first_plain: "c \<notin> set a \<Longrightarrow> split_first c a = (a, None)"
  by (induction a) auto

subsection \<open>Prefixes, suffixes, substrings\<close>

definition has_prefix :: "string \<Rightarrow> string \<Rightarrow> bool" where
  "has_prefix p s \<longleftrightarrow> take (length p) s = p"

definition has_suffix :: "string \<Rightarrow> string \<Rightarrow> bool" where
  "has_suffix p s \<longleftrightarrow> drop (length s - length p) s = p \<and> length p \<le> length s"

definition trim_prefix :: "string \<Rightarrow> string \<Rightarrow> string" where
  "trim_prefix p s = (if has_prefix p s then drop (length p) s else s)"

definition trim_suffix :: "string \<Rightarrow> string \<Rightarrow> string" where
  "trim_suffix p s = (if has_suffix p s then take (length s - length p) s else s)"

fun contains_str :: "string \<Rightarrow> string \<Rightarrow> bool" where
  "contains_str p [] = (p = [])"
| "contains_str p (x # xs) = (has_prefix p (x # xs) \<or> contains_str p xs)"

lemma has_prefix_iff: "has_prefix p s \<longleftrightarrow> (\<exists>b. s = p @ b)"
proof
  assume "has_prefix p s"
  then have "s = p @ drop (length p) s"
    unfolding has_prefix_def using append_take_drop_id [of "length p" s] by simp
  then show "\<exists>b. s = p @ b" by blast
next
  assume "\<exists>b. s = p @ b"
  then show "has_prefix p s" by (auto simp: has_prefix_def)
qed

lemma has_suffix_iff: "has_suffix p s \<longleftrightarrow> (\<exists>a. s = a @ p)"
proof
  assume h: "has_suffix p s"
  then have "s = take (length s - length p) s @ p"
    unfolding has_suffix_def using append_take_drop_id [of "length s - length p" s] by simp
  then show "\<exists>a. s = a @ p" by blast
next
  assume "\<exists>a. s = a @ p"
  then show "has_suffix p s" by (auto simp: has_suffix_def)
qed

lemma trim_suffix_append [simp]: "trim_suffix p (a @ p) = a"
  using has_suffix_iff [of p "a @ p"] by (simp add: trim_suffix_def)

lemma contains_str_iff: "contains_str p s \<longleftrightarrow> (\<exists>a b. s = a @ p @ b)"
proof (induction s)
  case Nil
  then show ?case by simp
next
  case (Cons x xs)
  have "(\<exists>a b. x # xs = a @ p @ b) \<longleftrightarrow> (\<exists>b. x # xs = p @ b) \<or> (\<exists>a b. xs = a @ p @ b)"
    (is "?l = ?r")
  proof
    assume ?l
    then obtain a b where ab: "x # xs = a @ p @ b" by blast
    then show ?r by (cases a) auto
  next
    assume ?r
    then show ?l by (metis append_Cons append_Nil)
  qed
  with Cons show ?case by (simp add: has_prefix_iff)
qed

lemma contains_sep: "contains_str [c] s \<longleftrightarrow> c \<in> set s"
  by (induction s) (auto simp: has_prefix_def)

text \<open>\<open>filepath.Ext\<close>: from the last dot of the last path element, or empty.\<close>

fun path_ext :: "string \<Rightarrow> string" where
  "path_ext [] = []"
| "path_ext (x # xs) =
     (if x = CHR ''.'' \<and> CHR ''.'' \<notin> set xs \<and> CHR ''/'' \<notin> set xs then x # xs
      else path_ext xs)"

lemma path_ext_suffix: "\<exists>a. s = a @ path_ext s"
proof (induction s)
  case Nil
  then show ?case by simp
next
  case (Cons x xs)
  show ?case
  proof (cases "x = CHR ''.'' \<and> CHR ''.'' \<notin> set xs \<and> CHR ''/'' \<notin> set xs")
    case True
    then show ?thesis by simp
  next
    case False
    from Cons obtain a where "xs = a @ path_ext xs" by blast
    then have "x # xs = (x # a) @ path_ext xs" by simp
    moreover from False have "path_ext (x # xs) = path_ext xs" by auto
    ultimately show ?thesis by metis
  qed
qed

lemma trim_suffix_ext: "trim_suffix (path_ext s) s @ path_ext s = s"
proof -
  obtain a where "s = a @ path_ext s" using path_ext_suffix by blast
  then show ?thesis by (metis trim_suffix_append)
qed

subsection \<open>Case and space on ASCII\<close>

definition ascii_lower_char :: "char \<Rightarrow> char" where
  "ascii_lower_char c =
     (if 65 \<le> (of_char c :: nat) \<and> (of_char c :: nat) \<le> 90
      then char_of ((of_char c :: nat) + 32) else c)"

definition ascii_lower :: "string \<Rightarrow> string" where
  "ascii_lower s = map ascii_lower_char s"

definition ascii_space :: "char \<Rightarrow> bool" where
  "ascii_space c \<longleftrightarrow> (of_char c :: nat) \<in> {9, 10, 11, 12, 13, 32}"

definition ascii_trim :: "string \<Rightarrow> string" where
  "ascii_trim s = rev (dropWhile ascii_space (rev (dropWhile ascii_space s)))"

subsection \<open>Decimal numbers\<close>

definition digit_char :: "nat \<Rightarrow> char" where
  "digit_char d = char_of (48 + d)"

fun nat_dec :: "nat \<Rightarrow> string" where
  "nat_dec n = (if n < 10 then [digit_char n] else nat_dec (n div 10) @ [digit_char (n mod 10)])"

declare nat_dec.simps [simp del]

definition undec :: "string \<Rightarrow> nat" where
  "undec s = foldl (\<lambda>a c. 10 * a + (of_char c - 48)) 0 s"

lemma of_digit_char: "d < 10 \<Longrightarrow> (of_char (digit_char d) :: nat) = 48 + d"
  by (simp add: digit_char_def)

lemma undec_nat_dec: "undec (nat_dec n) = n"
proof (induction n rule: nat_dec.induct)
  case (1 n)
  show ?case
  proof (cases "n < 10")
    case True
    then show ?thesis
      by (subst nat_dec.simps) (simp add: undec_def of_digit_char)
  next
    case False
    with 1 have "undec (nat_dec (n div 10)) = n div 10" by simp
    with False show ?thesis
      by (subst nat_dec.simps) (simp add: undec_def of_digit_char)
  qed
qed

lemma nat_dec_inj [simp]: "nat_dec m = nat_dec n \<longleftrightarrow> m = n"
  by (metis undec_nat_dec)

lemma nat_dec_digits: "c \<in> set (nat_dec n) \<Longrightarrow> 48 \<le> (of_char c :: nat) \<and> (of_char c :: nat) \<le> 57"
proof (induction n rule: nat_dec.induct)
  case (1 n)
  show ?case
  proof (cases "n < 10")
    case True
    with 1(2) show ?thesis
      by (subst (asm) nat_dec.simps) (auto simp: of_digit_char)
  next
    case False
    have "n mod 10 < 10" by simp
    from of_digit_char [OF this] have
      d: "(of_char (digit_char (n mod 10)) :: nat) \<le> 57" "48 \<le> (of_char (digit_char (n mod 10)) :: nat)"
      by simp_all
    from 1(2) False have "c \<in> set (nat_dec (n div 10)) \<or> c = digit_char (n mod 10)"
      by (subst (asm) nat_dec.simps) auto
    with 1(1) False d show ?thesis by blast
  qed
qed

lemma nat_dec_no_slash [simp]: "CHR ''/'' \<notin> set (nat_dec n)"
  using nat_dec_digits [of "CHR ''/''" n] by auto

subsection \<open>Path components\<close>

definition sep :: char where
  "sep = CHR ''/''"

definition is_abs :: "string \<Rightarrow> bool" where
  "is_abs p \<longleftrightarrow> has_prefix ''/'' p"

text \<open>
  \<open>filepath.Clean\<close>: components are processed left to right against the output built so far
  (kept reversed); empty and \<open>.\<close> components vanish, \<open>..\<close> removes a real component,
  vanishes at the root, and is kept at the start of a relative path.
\<close>

fun clean_comps :: "bool \<Rightarrow> string list \<Rightarrow> string list \<Rightarrow> string list" where
  "clean_comps rooted out [] = rev out"
| "clean_comps rooted out (c # cs) =
     (if c = [] \<or> c = ''.'' then clean_comps rooted out cs
      else if c = ''..'' then
        (case out of
           [] \<Rightarrow> clean_comps rooted (if rooted then [] else [''..'']) cs
         | o1 # os \<Rightarrow>
             if o1 = ''..'' then clean_comps rooted (''..'' # out) cs
             else clean_comps rooted os cs)
      else clean_comps rooted (c # out) cs)"

definition path_clean :: "string \<Rightarrow> string" where
  "path_clean p =
     (let rooted = is_abs p; cs = clean_comps rooted [] (split_on sep p)
      in if rooted then sep # join_with sep cs
         else if cs = [] then ''.'' else join_with sep cs)"

text \<open>\<open>filepath.Base\<close>, \<open>filepath.Dir\<close> and \<open>filepath.Join\<close> of two elements.\<close>

definition path_base :: "string \<Rightarrow> string" where
  "path_base p =
     (if p = [] then ''.''
      else let q = rev (dropWhile (\<lambda>c. c = sep) (rev p))
           in if q = [] then ''/'' else last (split_on sep q))"

definition path_dir :: "string \<Rightarrow> string" where
  "path_dir p =
     (let cs = split_on sep p
      in path_clean (if length cs = 1 then [] else join_with sep (butlast cs) @ [sep]))"

definition path_join :: "string \<Rightarrow> string \<Rightarrow> string" where
  "path_join a b =
     (if a = [] \<and> b = [] then []
      else if a = [] then path_clean b
      else path_clean (a @ sep # b))"

definition plain_comp :: "string \<Rightarrow> bool" where
  "plain_comp c \<longleftrightarrow> c \<noteq> [] \<and> c \<noteq> ''.'' \<and> c \<noteq> ''..'' \<and> sep \<notin> set c"

end
