(* ===== verification/Models.thy ===== *)
theory Models
  imports Go_Strings LS_Prelude
begin

text \<open>
  The data of \<open>internal/models\<close> that the receivers work on: file metadata as a sender
  announces it and the maps keyed by file id.
\<close>

record file_metadata =
  md_modified :: string
  md_accessed :: string

record file_meta =
  fm_id :: string
  fm_name :: string
  fm_size :: int
  fm_type :: string
  fm_checksum :: string
  fm_preview :: string
  fm_metadata :: "file_metadata option"

type_synonym file_metas = "(string, file_meta) gomap"
type_synonym file_tokens = "(string, string) gomap"

definition metas_folder_transfer :: "file_metas \<Rightarrow> bool" where
  "metas_folder_transfer m \<longleftrightarrow> (\<exists>p\<in>set m. contains_str ''/'' (fm_name (snd p)))"

definition is_message :: "file_metas \<Rightarrow> bool" where
  "is_message m =
     (if length m \<noteq> 1 then False else (case m of (i, meta) # _ \<Rightarrow> fm_preview meta \<noteq> [] | [] \<Rightarrow> False))"

record pre_upload_resp =
  pr_session :: string
  pr_tokens :: file_tokens

text \<open>\<open>strings.EqualFold\<close> against hexadecimal text, where only ASCII letters fold.\<close>

definition hex_equal_fold :: "string \<Rightarrow> string \<Rightarrow> bool" where
  "hex_equal_fold a b \<longleftrightarrow> ascii_lower a = ascii_lower b"

subsection \<open>Devices\<close>

record device_info =
  dv_ip :: string
  dv_alias :: string
  dv_version :: string
  dv_model :: string
  dv_type :: string
  dv_fingerprint :: string
  dv_token :: string
  dv_download :: bool
  dv_web :: bool

record announcement = device_info +
  an_protocol :: string
  an_port :: int
  an_announce :: bool

record sender_info = device_info +
  si_port :: int
  si_protocol :: string

definition new_device_info :: "string \<Rightarrow> string \<Rightarrow> device_info" where
  "new_device_info alias fingerprint =
     \<lparr>dv_ip = [], dv_alias = alias, dv_version = ''2.2'', dv_model = ''LocalSend-CLI'', dv_type = ''headless'',
      dv_fingerprint = fingerprint, dv_token = [], dv_download = False, dv_web = False\<rparr>"

definition get_device_info :: "announcement \<Rightarrow> device_info" where
  "get_device_info a = device_info.truncate a"

record pre_upload_req =
  pu_info :: "sender_info option"
  pu_files :: file_metas

record nonce_msg =
  nm_nonce :: string

record register_response =
  rr_alias :: string
  rr_version :: string
  rr_model :: string
  rr_type :: string
  rr_token :: string
  rr_web :: bool

end
