(* ===== verification/LS_Errors.thy ===== *)
theory LS_Errors
  imports LS_Prelude
begin

text \<open>
  The sentinel errors of \<open>internal/localsend/constants/errors.go\<close>, their HTTP status codes
  in both directions, and the numeric limits of \<open>security.go\<close>. Go's \<open>nil\<close> error is
  \<^const>\<open>None\<close>; an error value that is none of the sentinels is \<open>ErrOther\<close>.
\<close>

datatype ls_error =
    ErrFinished
  | ErrInvalidBody
  | ErrRejected
  | ErrInvalidPIN
  | ErrBlockedByOthers
  | ErrUnknown
  | ErrTooManyReq
  | ErrTooManyFiles
  | ErrFileIO
  | ErrChecksum
  | ErrFingerprint
  | ErrNotFound
  | ErrTooManySessions
  | ErrOther string

definition parse_error :: "int \<Rightarrow> ls_error option" where
  "parse_error st =
     (if st = 200 then None
      else if st = 204 then Some ErrFinished
      else if st = 400 then Some ErrInvalidBody
      else if st = 401 then Some ErrInvalidPIN
      else if st = 404 then Some ErrNotFound
      else if st = 403 then Some ErrRejected
      else if st = 409 then Some ErrBlockedByOthers
      else if st = 429 then Some ErrTooManyReq
      else if st = 422 then Some ErrChecksum
      else Some ErrUnknown)"

fun http_status :: "ls_error option \<Rightarrow> int" where
  "http_status None = 200"
| "http_status (Some ErrFinished) = 204"
| "http_status (Some ErrInvalidBody) = 400"
| "http_status (Some ErrInvalidPIN) = 401"
| "http_status (Some ErrRejected) = 403"
| "http_status (Some ErrNotFound) = 404"
| "http_status (Some ErrBlockedByOthers) = 409"
| "http_status (Some ErrTooManyReq) = 429"
| "http_status (Some ErrChecksum) = 422"
| "http_status (Some _) = 500"

text \<open>The errors that have a status code of their own.\<close>

definition has_own_status :: "ls_error option \<Rightarrow> bool" where
  "has_own_status e \<longleftrightarrow> http_status e \<noteq> 500"

definition max_pin_attempts :: int where
  "max_pin_attempts = 3"

definition pin_block_duration :: duration where
  "pin_block_duration = 30 * second"

definition max_files_per_session :: nat where
  "max_files_per_session = 10000"

lemma http_status_range: "http_status e \<in> {200, 204, 400, 401, 403, 404, 409, 422, 429, 500}"
  by (cases e rule: http_status.cases) auto

lemma own_status_parse: "has_own_status e \<Longrightarrow> parse_error (http_status e) = e"
  by (cases e rule: http_status.cases) (simp_all add: has_own_status_def parse_error_def)

lemma parse_error_ok: "parse_error st = None \<longleftrightarrow> st = 200"
  by (simp add: parse_error_def)

lemma http_status_ok: "http_status e = 200 \<longleftrightarrow> e = None"
  by (cases e rule: http_status.cases) simp_all

lemma pin_block_plain: "plain_duration pin_block_duration"
  by (simp add: plain_duration_def pin_block_duration_def second_def max_duration_def)

end
