(* ===== verification/Paths.thy ===== *)
theory Paths
  imports Go_Strings
begin

text \<open>
  \<open>internal/utils/paths.go\<close>: validation of the relative paths a peer names. The theory
  gives \<open>filepath.Clean\<close> its component view (\<open>path_comps\<close>), shows that an accepted path
  has only plain components, and that joining such a path to a directory stays below it.
\<close>

datatype path_error = ErrAbsolutePath | ErrPathTraversal | ErrEmptyPath

definition sanitize_relative_path :: "string \<Rightarrow> path_error + string" where
  "sanitize_relative_path filename =
     (if filename = [] then Inl ErrEmptyPath
      else
        (let cleaned = path_clean filename in
         if cleaned = [] \<or> cleaned = ''.'' then Inl ErrEmptyPath
         else if is_abs cleaned then Inl ErrAbsolutePath
         else if has_prefix (''..'' @ [sep]) cleaned \<or> cleaned = ''..'' then Inl ErrPathTraversal
         else if ''..'' \<in> set (split_on sep cleaned) then Inl ErrPathTraversal
         else Inr cleaned))"

definition sanitize_path_with_fallback :: "string \<Rightarrow> path_error + string" where
  "sanitize_path_with_fallback filename =
     (let sanitized = (case sanitize_relative_path filename of
                         Inl _ \<Rightarrow> path_base filename
                       | Inr p \<Rightarrow> p)
      in if sanitized = ''.'' \<or> sanitized = ''/'' \<or> sanitized = [] \<or> sanitized = ''..''
         then Inl ErrEmptyPath
         else Inr sanitized)"

text \<open>\<open>IsFolderTransfer\<close> of a list of file names.\<close>

definition is_folder_transfer :: "string list \<Rightarrow> bool" where
  "is_folder_transfer filenames \<longleftrightarrow> (\<exists>f\<in>set filenames. contains_str ''/'' f)"

subsection \<open>Components of a path\<close>

definition path_comps :: "string \<Rightarrow> string list" where
  "path_comps p = clean_comps (is_abs p) [] (split_on sep p)"

definition safe_rel :: "string \<Rightarrow> bool" where
  "safe_rel p \<longleftrightarrow> (\<forall>c\<in>set (split_on sep p). plain_comp c)"

text \<open>A path strictly below a directory: same root, and more, plain, components.\<close>

definition below :: "string \<Rightarrow> string \<Rightarrow> bool" where
  "below d p \<longleftrightarrow>
     is_abs p = is_abs d \<and>
     (\<exists>cs. cs \<noteq> [] \<and> (\<forall>c\<in>set cs. plain_comp c) \<and> path_comps p = path_comps d @ cs)"

lemma is_abs_Nil [simp]: "\<not> is_abs []"
  by (simp add: is_abs_def has_prefix_def)

lemma is_abs_Cons [simp]: "is_abs (c # cs) \<longleftrightarrow> c = sep"
  by (auto simp: is_abs_def has_prefix_def sep_def)

lemma clean_comps_append:
  "clean_comps r out (xs @ ys) = clean_comps r (rev (clean_comps r out xs)) ys"
  by (induction r out xs rule: clean_comps.induct) (auto split: list.splits)

lemma clean_comps_plain:
  "\<forall>c\<in>set cs. plain_comp c \<Longrightarrow> clean_comps r out cs = rev out @ cs"
  by (induction cs arbitrary: out) (auto simp: plain_comp_def)

definition comps_shape :: "bool \<Rightarrow> string list \<Rightarrow> bool" where
  "comps_shape r cs \<longleftrightarrow>
     (\<exists>k ps. cs = replicate k ''..'' @ ps \<and> (\<forall>c\<in>set ps. plain_comp c) \<and> (r \<longrightarrow> k = 0))"

lemma comps_shape_push:
  "comps_shape r cs \<Longrightarrow> plain_comp c \<Longrightarrow> comps_shape r (cs @ [c])"
proof -
  assume "comps_shape r cs" and c: "plain_comp c"
  then obtain k ps where *: "cs = replicate k ''..'' @ ps" "\<forall>c\<in>set ps. plain_comp c" "r \<longrightarrow> k = 0"
    by (auto simp: comps_shape_def)
  have "cs @ [c] = replicate k ''..'' @ (ps @ [c])" "\<forall>c\<in>set (ps @ [c]). plain_comp c"
    using * c by auto
  with *(3) show ?thesis unfolding comps_shape_def by blast
qed

lemma comps_shape_pop:
  "comps_shape r (cs @ [c]) \<Longrightarrow> c \<noteq> ''..'' \<Longrightarrow> comps_shape r cs"
proof -
  assume "comps_shape r (cs @ [c])" and c: "c \<noteq> ''..''"
  then obtain k ps where *: "cs @ [c] = replicate k ''..'' @ ps" "\<forall>c\<in>set ps. plain_comp c"
      "r \<longrightarrow> k = 0"
    by (auto simp: comps_shape_def)
  have "ps \<noteq> []"
  proof
    assume "ps = []"
    with *(1) have "c \<in> set (replicate k ''..'')" by (metis append.right_neutral in_set_conv_decomp)
    with c show False by simp
  qed
  then obtain qs q where ps: "ps = qs @ [q]" by (metis rev_exhaust)
  with *(1) have "cs = replicate k ''..'' @ qs" by auto
  moreover have "\<forall>c\<in>set qs. plain_comp c" using *(2) ps by auto
  ultimately show ?thesis using *(3) unfolding comps_shape_def by blast
qed

lemma comps_shape_dots:
  "comps_shape r (cs @ [''..'']) \<Longrightarrow> comps_shape r (cs @ [''..'', ''..''])"
proof -
  assume "comps_shape r (cs @ [''..''])"
  then obtain k ps where *: "cs @ [''..''] = replicate k ''..'' @ ps" "\<forall>c\<in>set ps. plain_comp c"
      "r \<longrightarrow> k = 0"
    by (auto simp: comps_shape_def)
  have "ps = []"
  proof (rule ccontr)
    assume "ps \<noteq> []"
    with *(1) have "last ps = ''..''" by (metis last_appendR last_snoc)
    with *(2) \<open>ps \<noteq> []\<close> show False by (metis last_in_set plain_comp_def)
  qed
  with * have k: "cs @ [''..''] = replicate k ''..''" by simp
  then have "k \<noteq> 0" by (cases k) auto
  from k have "cs @ [''..'', ''..''] = replicate (Suc k) ''..''"
    by (metis append.assoc append_Cons append_Nil replicate_Suc replicate_append_same)
  with *(3) \<open>k \<noteq> 0\<close> show ?thesis unfolding comps_shape_def
    by (metis append.right_neutral empty_iff empty_set)
qed

lemma clean_comps_shape:
  "\<forall>c\<in>set cs. sep \<notin> set c \<Longrightarrow> comps_shape r (rev out) \<Longrightarrow> comps_shape r (clean_comps r out cs)"
proof (induction r out cs rule: clean_comps.induct)
  case (1 r out)
  then show ?case by simp
next
  case (2 r out c cs)
  consider (skip) "c = [] \<or> c = ''.''" | (up) "c = ''..''" | (name) "c \<noteq> []" "c \<noteq> ''.''" "c \<noteq> ''..''"
    by blast
  then show ?case
  proof cases
    case skip
    with 2 show ?thesis by auto
  next
    case up
    show ?thesis
    proof (cases out)
      case Nil
      have "comps_shape r (rev (if r then [] else [''..'']))"
        unfolding comps_shape_def
        by (cases r) (auto intro: exI [of _ 0] exI [of _ 1])
      with 2 up Nil show ?thesis by auto
    next
      case (Cons o1 os)
      show ?thesis
      proof (cases "o1 = ''..''")
        case True
        with "2.prems"(2) Cons have "comps_shape r (rev (''..'' # out))"
          using comps_shape_dots [of r "rev os"] by auto
        with 2 up Cons True show ?thesis by auto
      next
        case False
        with "2.prems"(2) Cons have "comps_shape r (rev os)"
          using comps_shape_pop by auto
        with 2 up Cons False show ?thesis by auto
      qed
    qed
  next
    case name
    with "2.prems"(1) have "plain_comp c" by (simp add: plain_comp_def)
    with "2.prems"(2) have "comps_shape r (rev (c # out))" by (simp add: comps_shape_push)
    with 2 name show ?thesis by auto
  qed
qed

lemma path_comps_shape: "comps_shape (is_abs p) (path_comps p)"
proof -
  have "comps_shape (is_abs p) (rev [])"
    unfolding comps_shape_def by (auto intro: exI [of _ 0])
  then show ?thesis
    unfolding path_comps_def by (intro clean_comps_shape ballI split_no_sep)
qed

lemma comps_shape_no_sep:
  assumes "comps_shape r cs" "c \<in> set cs"
  shows "sep \<notin> set c \<and> c \<noteq> []"
proof -
  from assms have "c = ''..'' \<or> plain_comp c"
    by (auto simp: comps_shape_def)
  then show ?thesis
  proof
    assume "c = ''..''"
    then show ?thesis by (simp add: sep_def)
  next
    assume "plain_comp c"
    then show ?thesis by (simp add: plain_comp_def)
  qed
qed

lemma path_clean_eq:
  "path_clean p = (if is_abs p then sep # join_with sep (path_comps p)
                   else if path_comps p = [] then ''.'' else join_with sep (path_comps p))"
  by (simp add: path_clean_def path_comps_def Let_def)

lemma join_comps_not_abs:
  "comps_shape r cs \<Longrightarrow> \<not> is_abs (join_with sep cs)"
proof (cases cs rule: list.exhaust)
  case (Cons c cs')
  assume "comps_shape r cs"
  with Cons have c: "sep \<notin> set c" "c \<noteq> []"
    using comps_shape_no_sep by auto
  have "\<exists>t. join_with sep (c # cs') = c @ t" by (cases cs') auto
  with c Cons show ?thesis by (cases c) auto
qed auto

lemma is_abs_clean: "is_abs (path_clean p) = is_abs p"
  using join_comps_not_abs [OF path_comps_shape [of p]]
  by (auto simp: path_clean_eq sep_def)

lemma clean_comps_shaped:
  assumes "comps_shape r cs"
  shows "clean_comps r [] cs = cs"
proof -
  from assms obtain k ps where *: "cs = replicate k ''..'' @ ps" "\<forall>c\<in>set ps. plain_comp c"
      "r \<longrightarrow> k = 0"
    by (auto simp: comps_shape_def)
  have dots: "clean_comps False (replicate j ''..'') (replicate k ''..'') = replicate (j + k) ''..''"
    for j k
  proof (induction k arbitrary: j)
    case 0
    then show ?case by simp
  next
    case (Suc k)
    then show ?case using Suc.IH [of "Suc j"] by (cases j) auto
  qed
  show ?thesis
  proof (cases r)
    case True
    with * show ?thesis by (simp add: clean_comps_plain)
  next
    case False
    with * dots [of 0 k] show ?thesis
      by (simp add: clean_comps_append clean_comps_plain)
  qed
qed

lemma split_shaped:
  assumes "comps_shape r cs" "cs \<noteq> []"
  shows "split_on sep (join_with sep cs) = cs"
  using assms comps_shape_no_sep by (intro split_join) auto

text \<open>Cleaning changes no component, and a second cleaning changes nothing.\<close>

lemma path_comps_clean [path_simps]: "path_comps (path_clean p) = path_comps p"
proof -
  note sh = path_comps_shape [of p]
  show ?thesis
  proof (cases "path_comps p = []")
    case True
    then show ?thesis
      by (auto simp: path_comps_def path_clean_eq is_abs_clean [unfolded path_clean_eq]
          sep_def split: if_splits)
  next
    case False
    from clean_comps_shaped [OF sh] split_shaped [OF sh False]
    have "clean_comps (is_abs p) [] (split_on sep (join_with sep (path_comps p))) = path_comps p"
      by simp
    with False show ?thesis
      using is_abs_clean [of p] by (auto simp: path_comps_def path_clean_eq split: if_splits)
  qed
qed

lemma path_clean_idem: "path_clean (path_clean p) = path_clean p"
  by (simp add: path_clean_eq [of "path_clean p"] path_simps is_abs_clean)
     (simp add: path_clean_eq)

subsection \<open>Accepted paths\<close>

lemma safe_rel_comps: "safe_rel p \<Longrightarrow> path_comps p = split_on sep p"
  by (simp add: safe_rel_def path_comps_def clean_comps_plain)

lemma safe_rel_not_abs: "safe_rel p \<Longrightarrow> \<not> is_abs p"
proof
  assume s: "safe_rel p" and "is_abs p"
  then obtain q where "p = sep # q" by (cases p) simp_all
  with s have "plain_comp []" by (simp add: safe_rel_def)
  then show False by (simp add: plain_comp_def)
qed

lemma safe_rel_clean: "safe_rel p \<Longrightarrow> path_clean p = p"
  by (simp add: path_clean_eq safe_rel_not_abs safe_rel_comps join_split)

lemma safe_rel_join: "cs \<noteq> [] \<Longrightarrow> \<forall>c\<in>set cs. plain_comp c \<Longrightarrow> safe_rel (join_with sep cs)"
  by (simp add: safe_rel_def split_join plain_comp_def)

lemma safe_rel_neq:
  assumes "safe_rel p"
  shows "p \<noteq> []" "p \<noteq> ''.''" "p \<noteq> ''..''" "p \<noteq> ''/''"
proof -
  have "\<not> safe_rel []" "\<not> safe_rel ''.''" "\<not> safe_rel ''..''" "\<not> safe_rel ''/''"
    by (simp_all add: safe_rel_def plain_comp_def sep_def)
  with assms show "p \<noteq> []" "p \<noteq> ''.''" "p \<noteq> ''..''" "p \<noteq> ''/''" by metis+
qed

lemma dotdot_prefix_comps:
  assumes "has_prefix (''..'' @ [sep]) p"
  shows "''..'' \<in> set (split_on sep p)"
proof -
  from assms obtain b where "p = ''..'' @ sep # b" by (auto simp: has_prefix_iff)
  then show ?thesis using split_append [of sep "''..''" b] by (simp add: sep_def)
qed

lemma sanitize_ok_iff:
  "sanitize_relative_path f = Inr p \<longleftrightarrow>
     \<not> is_abs f \<and> path_comps f \<noteq> [] \<and> (\<forall>c\<in>set (path_comps f). plain_comp c)
       \<and> p = join_with sep (path_comps f)"
  (is "?l \<longleftrightarrow> ?r")
proof
  assume ?l
  then have *: "f \<noteq> []" "p = path_clean f" "\<not> is_abs f" "path_clean f \<noteq> ''.''"
      "''..'' \<notin> set (split_on sep (path_clean f))"
    by (auto simp: sanitize_relative_path_def Let_def is_abs_clean split: if_splits)
  then have ne: "path_comps f \<noteq> []" and p: "p = join_with sep (path_comps f)"
    by (auto simp: path_clean_eq)
  note sh = path_comps_shape [of f]
  have "split_on sep (path_clean f) = path_comps f"
    using split_shaped [OF sh ne] *(3) ne by (simp add: path_clean_eq)
  with *(5) have nd: "''..'' \<notin> set (path_comps f)" by simp
  from sh obtain k ps where "path_comps f = replicate k ''..'' @ ps" "\<forall>c\<in>set ps. plain_comp c"
    by (auto simp: comps_shape_def)
  with nd have "\<forall>c\<in>set (path_comps f). plain_comp c" by (cases k) auto
  with ne p *(3) show ?r by blast
next
  assume r: ?r
  then have s: "safe_rel p" by (simp add: safe_rel_join)
  from r have pc: "path_clean f = p" by (simp add: path_clean_eq)
  from r have "f \<noteq> []" by (auto simp: path_comps_def)
  moreover have "''..'' \<notin> set (split_on sep p)"
    using s by (auto simp: safe_rel_def plain_comp_def)
  moreover have "\<not> has_prefix (''..'' @ [sep]) p"
    using calculation(2) dotdot_prefix_comps by blast
  ultimately show ?l
    using s r pc safe_rel_neq [OF s] safe_rel_not_abs [OF s]
    by (simp add: sanitize_relative_path_def Let_def)
qed

lemma sanitize_ok_safe: "sanitize_relative_path f = Inr p \<Longrightarrow> safe_rel p"
  by (auto simp: sanitize_ok_iff safe_rel_join)

lemma sanitize_safe_id: "safe_rel p \<Longrightarrow> sanitize_relative_path p = Inr p"
  by (subst sanitize_ok_iff)
     (simp add: safe_rel_comps safe_rel_not_abs path_simps, simp add: safe_rel_def)

lemma path_base_no_sep: "path_base p = ''/'' \<or> sep \<notin> set (path_base p)"
proof -
  let ?q = "rev (dropWhile (\<lambda>c. c = sep) (rev p))"
  have "sep \<notin> set (last (split_on sep ?q))"
    using split_no_sep [of "last (split_on sep ?q)" sep ?q] by simp
  then show ?thesis by (auto simp: path_base_def sep_def)
qed

lemma fallback_ok_safe:
  assumes "sanitize_path_with_fallback f = Inr p"
  shows "safe_rel p"
proof (cases "sanitize_relative_path f")
  case (Inr q)
  with assms have "p = q"
    by (auto simp: sanitize_path_with_fallback_def Let_def split: if_splits)
  with Inr show ?thesis by (auto intro: sanitize_ok_safe)
next
  case (Inl e)
  with assms have p: "p = path_base f" "p \<noteq> ''.''" "p \<noteq> ''/''" "p \<noteq> []" "p \<noteq> ''..''"
    by (auto simp: sanitize_path_with_fallback_def Let_def split: if_splits)
  with path_base_no_sep [of f] have "sep \<notin> set p" by auto
  with p show ?thesis by (simp add: safe_rel_def split_plain plain_comp_def)
qed

lemma fallback_of_ok:
  "sanitize_relative_path f = Inr p \<Longrightarrow> sanitize_path_with_fallback f = Inr p"
  using safe_rel_neq [OF sanitize_ok_safe]
  by (auto simp: sanitize_path_with_fallback_def Let_def)

subsection \<open>Joining an accepted path to a directory\<close>

lemma path_comps_append:
  assumes "a \<noteq> []"
  shows "path_comps (a @ sep # b) = clean_comps (is_abs a) (rev (path_comps a)) (split_on sep b)"
proof -
  from assms have "is_abs (a @ sep # b) = is_abs a" by (cases a) auto
  then show ?thesis
    by (simp add: path_comps_def split_on_append_any clean_comps_append)
qed

lemma path_join_comps:
  assumes "d \<noteq> []" "safe_rel r"
  shows "path_comps (path_join d r) = path_comps d @ split_on sep r"
    and "is_abs (path_join d r) = is_abs d"
proof -
  show "path_comps (path_join d r) = path_comps d @ split_on sep r"
    using assms
    by (simp add: path_join_def path_simps path_comps_append clean_comps_plain safe_rel_def)
  show "is_abs (path_join d r) = is_abs d"
    using assms(1) by (cases d) (simp_all add: path_join_def is_abs_clean)
qed

lemma path_join_below: "d \<noteq> [] \<Longrightarrow> safe_rel r \<Longrightarrow> below d (path_join d r)"
  unfolding below_def using path_join_comps [of d r]
  by (intro conjI exI [of _ "split_on sep r"]) (auto simp: safe_rel_def)

lemma path_join_neq_Nil: "d \<noteq> [] \<Longrightarrow> path_join d r \<noteq> []"
  using path_comps_shape [of "d @ sep # r"]
  by (auto simp: path_join_def path_clean_eq join_eq_Nil dest: comps_shape_no_sep)

lemma below_trans_join: "below d e \<Longrightarrow> e \<noteq> [] \<Longrightarrow> safe_rel r \<Longrightarrow> below d (path_join e r)"
proof -
  assume b: "below d e" and e: "e \<noteq> []" and r: "safe_rel r"
  from b obtain cs where cs: "cs \<noteq> []" "\<forall>c\<in>set cs. plain_comp c" "path_comps e = path_comps d @ cs"
      "is_abs e = is_abs d"
    by (auto simp: below_def)
  have "path_comps (path_join e r) = path_comps d @ (cs @ split_on sep r)"
    using path_join_comps(1) [OF e r] cs(3) by simp
  moreover have "\<forall>c\<in>set (cs @ split_on sep r). plain_comp c"
    using cs(2) r by (auto simp: safe_rel_def)
  ultimately show ?thesis
    unfolding below_def using path_join_comps(2) [OF e r] cs by blast
qed

text \<open>The directory and the base name of an accepted path.\<close>

lemma safe_rel_snoc:
  assumes "safe_rel p"
  obtains cs b where "split_on sep p = cs @ [b]" "\<forall>c\<in>set cs. plain_comp c" "plain_comp b"
proof -
  obtain cs b where "split_on sep p = cs @ [b]"
    by (metis rev_exhaust split_on_neq_Nil)
  with assms that show thesis by (auto simp: safe_rel_def)
qed

lemma path_base_safe:
  assumes "safe_rel p"
  shows "path_base p = last (split_on sep p)" "plain_comp (path_base p)"
proof -
  obtain cs b where p: "split_on sep p = cs @ [b]" "plain_comp b"
    using safe_rel_snoc [OF assms] by metis
  have join: "p = join_with sep (cs @ [b])" using p(1) join_split [of sep p] by simp
  have "\<exists>a. p = a @ b"
  proof (cases "cs = []")
    case True
    with join show ?thesis by auto
  next
    case False
    with join show ?thesis using join_append [of cs "[b]" sep] by auto
  qed
  then obtain a where ab: "p = a @ b" by blast
  have "dropWhile (\<lambda>c. c = sep) (rev p) = rev p"
    using ab p(2) by (cases b rule: rev_exhaust) (auto simp: plain_comp_def)
  then show "path_base p = last (split_on sep p)"
    using safe_rel_neq [OF assms] by (simp add: path_base_def)
  with p show "plain_comp (path_base p)" by simp
qed

lemma path_dir_safe:
  assumes "safe_rel p"
  shows "path_dir p = (if length (split_on sep p) = 1 then ''.''
                       else join_with sep (butlast (split_on sep p)))"
proof -
  obtain cs b where p: "split_on sep p = cs @ [b]" "\<forall>c\<in>set cs. plain_comp c"
    using safe_rel_snoc [OF assms] by metis
  show ?thesis
  proof (cases "cs = []")
    case True
    with p show ?thesis by (simp add: path_dir_def path_clean_def sep_def)
  next
    case False
    let ?j = "join_with sep cs"
    have s: "safe_rel ?j" using False p(2) by (rule safe_rel_join)
    have "path_comps (?j @ sep # []) = split_on sep ?j"
      using safe_rel_neq(1) [OF s] safe_rel_comps [OF s] by (simp add: path_comps_append)
    moreover have "\<not> is_abs (?j @ [sep])"
      using safe_rel_not_abs [OF s] safe_rel_neq(1) [OF s] by (cases ?j) auto
    ultimately have "path_clean (?j @ [sep]) = ?j"
      by (simp add: path_clean_eq path_simps)
    with False p show ?thesis by (simp add: path_dir_def)
  qed
qed

lemma safe_rel_dir:
  "safe_rel p \<Longrightarrow> path_dir p \<noteq> ''.'' \<Longrightarrow> safe_rel (path_dir p)"
proof -
  assume s: "safe_rel p" and d: "path_dir p \<noteq> ''.''"
  obtain cs b where p: "split_on sep p = cs @ [b]" "\<forall>c\<in>set cs. plain_comp c"
    using safe_rel_snoc [OF s] by metis
  with d s have "cs \<noteq> []" "path_dir p = join_with sep cs"
    by (auto simp: path_dir_safe split: if_splits)
  with p(2) show "safe_rel (path_dir p)" by (simp add: safe_rel_join)
qed

lemma safe_rel_single: "plain_comp c \<Longrightarrow> safe_rel c"
  by (simp add: safe_rel_def split_plain plain_comp_def)

subsection \<open>A second reading of the check\<close>

text \<open>
  Walking a path from a directory: the depth below it after each component, \<^const>\<open>None\<close>
  as soon as the walk leaves it.
\<close>

fun walk :: "string list \<Rightarrow> nat \<Rightarrow> nat option" where
  "walk [] n = Some n"
| "walk (c # cs) n =
     (if c = [] \<or> c = ''.'' then walk cs n
      else if c = ''..'' then (case n of 0 \<Rightarrow> None | Suc m \<Rightarrow> walk cs m)
      else walk cs (Suc n))"

lemma clean_comps_escaped:
  "''..'' \<in> set out \<Longrightarrow> ''..'' \<in> set (clean_comps False out cs)"
  by (induction "False" out cs rule: clean_comps.induct) (auto split: list.splits)

lemma clean_comps_walk:
  "\<forall>c\<in>set cs. sep \<notin> set c \<Longrightarrow> \<forall>c\<in>set out. plain_comp c \<Longrightarrow>
     (case walk cs (length out) of
        None \<Rightarrow> ''..'' \<in> set (clean_comps False out cs)
      | Some n \<Rightarrow> length (clean_comps False out cs) = n \<and>
                  (\<forall>c\<in>set (clean_comps False out cs). plain_comp c))"
proof (induction cs arbitrary: out)
  case Nil
  then show ?case by simp
next
  case (Cons c cs)
  consider (skip) "c = [] \<or> c = ''.''" | (up) "c = ''..''" | (name) "c \<noteq> []" "c \<noteq> ''.''" "c \<noteq> ''..''"
    by blast
  then show ?case
  proof cases
    case skip
    with Cons.IH [OF _ Cons.prems(2)] Cons.prems(1) show ?thesis by (auto split: option.splits)
  next
    case up
    show ?thesis
    proof (cases out)
      case Nil
      with up show ?thesis by (simp add: clean_comps_escaped)
    next
      case (Cons o1 os)
      with Cons.prems(2) have "o1 \<noteq> ''..''" by (auto simp: plain_comp_def)
      with up Cons Cons.IH [of os] Cons.prems show ?thesis by (simp split: option.splits)
    qed
  next
    case name
    with Cons.prems have "plain_comp c" by (simp add: plain_comp_def)
    with name Cons.prems Cons.IH [of "c # out"] show ?thesis by (simp split: option.splits)
  qed
qed

lemma path_comps_walk:
  "\<not> is_abs f \<Longrightarrow>
     (case walk (split_on sep f) 0 of
        None \<Rightarrow> ''..'' \<in> set (path_comps f)
      | Some n \<Rightarrow> length (path_comps f) = n \<and> (\<forall>c\<in>set (path_comps f). plain_comp c))"
  using clean_comps_walk [of "split_on sep f" "[]"] split_no_sep
  by (auto simp: path_comps_def split: option.splits)

subsection \<open>Properties\<close>

text \<open>
  C19: Containment. Whatever file name a peer sends, when \<open>SanitizePathWithFallback\<close> accepts it
  the result is a clean relative path, and joined to any save directory it names something
  strictly below that directory, reached through plain names only.
\<close>

theorem accepted_path_stays_below:
  assumes "sanitize_path_with_fallback f = Inr p" "d \<noteq> []"
  shows "below d (path_join d p) \<and> path_clean p = p \<and> \<not> is_abs p \<and> ''..'' \<notin> set (split_on sep p)"
proof -
  from assms(1) have s: "safe_rel p" by (rule fallback_ok_safe)
  then have "''..'' \<notin> set (split_on sep p)" by (auto simp: safe_rel_def plain_comp_def)
  with s assms(2) show ?thesis
    by (simp add: path_join_below safe_rel_clean safe_rel_not_abs)
qed

theorem accepted_path_stays_below_witness:
  "below ''/mnt/us'' (path_join ''/mnt/us'' ''passwd'')"
proof -
  have "sanitize_path_with_fallback ''../../etc/passwd'' = Inr ''passwd''"
    by code_simp
  from accepted_path_stays_below [OF this, of "''/mnt/us''"] show ?thesis by simp
qed

text \<open>
  C22: \<open>SanitizeRelativePath\<close> accepts exactly the relative paths that never leave the directory
  they are resolved in and end strictly inside it, and it keeps the depth: the check on the
  cleaned text is equivalent to walking the components one by one.
\<close>

theorem sanitize_accepts_iff_walk_stays:
  "(\<exists>p. sanitize_relative_path f = Inr p \<and> length (split_on sep p) = n) \<longleftrightarrow>
     \<not> is_abs f \<and> n \<noteq> 0 \<and> walk (split_on sep f) 0 = Some n"
proof (cases "is_abs f")
  case True
  then show ?thesis by (simp add: sanitize_ok_iff)
next
  case False
  note w = path_comps_walk [OF False]
  show ?thesis
  proof (cases "walk (split_on sep f) 0")
    case None
    with w have "\<not> (\<forall>c\<in>set (path_comps f). plain_comp c)" by (auto simp: plain_comp_def)
    with None show ?thesis by (auto simp: sanitize_ok_iff)
  next
    case (Some m)
    with w have m: "length (path_comps f) = m" "\<forall>c\<in>set (path_comps f). plain_comp c" by auto
    then have "path_comps f \<noteq> [] \<Longrightarrow> split_on sep (join_with sep (path_comps f)) = path_comps f"
      using split_shaped [OF path_comps_shape] by blast
    with m False Some show ?thesis by (auto simp: sanitize_ok_iff)
  qed
qed

text \<open>
  The final scan of \<open>SanitizeRelativePath\<close> for a \<open>..\<close> component, which its comment calls a
  double check, never fires: the tests before it already decide the answer.
\<close>

theorem double_check_is_redundant:
  "sanitize_relative_path f =
     (let cleaned = path_clean f in
      if f = [] \<or> cleaned = [] \<or> cleaned = ''.'' then Inl ErrEmptyPath
      else if is_abs cleaned then Inl ErrAbsolutePath
      else if has_prefix (''..'' @ [sep]) cleaned \<or> cleaned = ''..'' then Inl ErrPathTraversal
      else Inr cleaned)"
proof -
  have "has_prefix (''..'' @ [sep]) (path_clean f) \<or> path_clean f = ''..''"
    if d: "''..'' \<in> set (split_on sep (path_clean f))" and a: "\<not> is_abs f"
      and n: "path_clean f \<noteq> ''.''"
  proof -
    note sh = path_comps_shape [of f]
    from a n have ne: "path_comps f \<noteq> []" by (auto simp: path_clean_eq)
    with a have pc: "path_clean f = join_with sep (path_comps f)" by (simp add: path_clean_eq)
    with split_shaped [OF sh ne] d have "''..'' \<in> set (path_comps f)" by simp
    with sh obtain k ps where k: "path_comps f = replicate (Suc k) ''..'' @ ps"
      unfolding comps_shape_def
      by (metis Un_iff plain_comp_def in_set_replicate not0_implies_Suc set_append)
    then have "\<exists>r. path_clean f = ''..'' @ r \<and> (r = [] \<or> (\<exists>t. r = sep # t))"
      using pc by (cases "replicate k ''..'' @ ps") auto
    then show ?thesis by (auto simp: has_prefix_iff)
  qed
  then show ?thesis
    by (auto simp: sanitize_relative_path_def Let_def is_abs_clean)
qed

end
