(* ===== verification/File_System.thy ===== *)
theory File_System
  imports Paths
begin

text \<open>
  What the receivers use of the operating system's files: exclusive creation, \<open>MkdirAll\<close>,
  \<open>Stat\<close>, \<open>Remove\<close>, appending to an open file and \<open>Chtimes\<close>. A file system maps clean paths
  to nodes. Everything that may fail for a reason outside the program (permissions, a full
  disk) is a predicate of the record \<open>io_env\<close>, so that a statement holds for every such
  failure; \<open>partial_write\<close> is how much of a body had reached the disk when an upload failed. Symbolic links and other processes that write the same directories are left out.
\<close>

datatype fnode = Dir | File bytes "(time \<times> time) option"

type_synonym filesys = "string \<rightharpoonup> fnode"

record io_env =
  open_fails :: "string \<Rightarrow> bool"
  mkdir_fails :: "string \<Rightarrow> bool"
  write_fails :: bool
  partial_write :: nat
  flush_fails :: bool
  remove_fails :: bool
  chtimes_fails :: bool

definition no_faults :: io_env where
  "no_faults = \<lparr>open_fails = \<lambda>_. False, mkdir_fails = \<lambda>_. False, write_fails = False, partial_write = 0,
     flush_fails = False, remove_fails = False, chtimes_fails = False\<rparr>"

datatype io_error = EExist | EOther

text \<open>\<open>os.OpenFile\<close> with \<open>O_WRONLY|O_CREATE|O_EXCL\<close>.\<close>

definition open_excl :: "io_env \<Rightarrow> string \<Rightarrow> filesys \<Rightarrow> io_error + filesys" where
  "open_excl env p fs =
     (if fs p \<noteq> None then Inl EExist
      else if fs (path_dir p) \<noteq> Some Dir \<or> open_fails env p then Inl EOther
      else Inr (fs(p \<mapsto> File [] None)))"

text \<open>
  \<open>os.IsNotExist\<close> of the error of \<open>os.Stat\<close>: nothing there, and no ancestor that is a file
  (that would be \<open>ENOTDIR\<close>). The ancestors are the prefixes of the component list.
\<close>

definition comps_path :: "bool \<Rightarrow> string list \<Rightarrow> string" where
  "comps_path rooted cs =
     (if rooted then sep # join_with sep cs else if cs = [] then ''.'' else join_with sep cs)"

definition path_prefixes :: "string \<Rightarrow> string list" where
  "path_prefixes p =
     map (\<lambda>k. comps_path (is_abs p) (take k (path_comps p))) [1..<Suc (length (path_comps p))]"

fun is_file :: "fnode option \<Rightarrow> bool" where
  "is_file (Some (File b t)) = True"
| "is_file _ = False"

definition stat_not_exist :: "string \<Rightarrow> filesys \<Rightarrow> bool" where
  "stat_not_exist p fs \<longleftrightarrow> fs p = None \<and> (\<forall>q\<in>set (path_prefixes p). \<not> is_file (fs q))"

text \<open>\<open>os.MkdirAll\<close>: the missing ancestors are created from the top; an obstacle stops it.\<close>

fun mkdir_list :: "io_env \<Rightarrow> string list \<Rightarrow> filesys \<Rightarrow> bool \<times> filesys" where
  "mkdir_list env [] fs = (True, fs)"
| "mkdir_list env (p # ps) fs =
     (case fs p of
        Some Dir \<Rightarrow> mkdir_list env ps fs
      | Some (File b t) \<Rightarrow> (False, fs)
      | None \<Rightarrow> if mkdir_fails env p then (False, fs) else mkdir_list env ps (fs(p \<mapsto> Dir)))"

definition mkdir_all :: "io_env \<Rightarrow> string \<Rightarrow> filesys \<Rightarrow> bool \<times> filesys" where
  "mkdir_all env d fs = mkdir_list env (path_prefixes d) fs"

definition remove_file :: "io_env \<Rightarrow> string \<Rightarrow> filesys \<Rightarrow> filesys" where
  "remove_file env p fs = (if remove_fails env then fs else fs(p := None))"

fun set_content :: "bytes \<Rightarrow> fnode option \<Rightarrow> fnode option" where
  "set_content b (Some (File b' t)) = Some (File b t)"
| "set_content b n = n"

definition write_file :: "string \<Rightarrow> bytes \<Rightarrow> filesys \<Rightarrow> filesys" where
  "write_file p b fs = fs(p := set_content b (fs p))"

fun set_times :: "time \<times> time \<Rightarrow> fnode option \<Rightarrow> fnode option" where
  "set_times ts (Some (File b t)) = Some (File b (Some ts))"
| "set_times ts n = n"

definition chtimes :: "io_env \<Rightarrow> string \<Rightarrow> time \<times> time \<Rightarrow> filesys \<Rightarrow> filesys" where
  "chtimes env p ts fs = (if chtimes_fails env then fs else fs(p := set_times ts (fs p)))"

subsection \<open>What they leave alone\<close>

text \<open>\<open>fs'\<close> keeps every node of \<open>fs\<close> and adds directories only.\<close>

definition only_dirs_added :: "filesys \<Rightarrow> filesys \<Rightarrow> bool" where
  "only_dirs_added fs fs' \<longleftrightarrow> (\<forall>q. fs' q = fs q \<or> (fs q = None \<and> fs' q = Some Dir))"

lemma only_dirs_refl [simp]: "only_dirs_added fs fs"
  by (simp add: only_dirs_added_def)

lemma only_dirs_trans: "only_dirs_added fs fs' \<Longrightarrow> only_dirs_added fs' fs'' \<Longrightarrow> only_dirs_added fs fs''"
  unfolding only_dirs_added_def by metis

lemma only_dirs_file:
  "only_dirs_added fs fs' \<Longrightarrow> fs' q = Some (File b t) \<longleftrightarrow> fs q = Some (File b t)"
  unfolding only_dirs_added_def by (metis fnode.distinct(1) option.distinct(1) option.inject)

lemma only_dirs_keeps: "only_dirs_added fs fs' \<Longrightarrow> fs q = Some n \<Longrightarrow> fs' q = Some n"
  unfolding only_dirs_added_def by (metis option.distinct(1))

lemma only_dirs_None: "only_dirs_added fs fs' \<Longrightarrow> fs' q = None \<Longrightarrow> fs q = None"
  unfolding only_dirs_added_def by metis

lemma mkdir_list_dirs: "mkdir_list env ps fs = (ok, fs') \<Longrightarrow> only_dirs_added fs fs'"
proof (induction ps arbitrary: fs)
  case Nil
  then show ?case by simp
next
  case (Cons p ps)
  show ?case
  proof (cases "fs p")
    case None
    show ?thesis
    proof (cases "mkdir_fails env p")
      case False
      with None Cons.prems have "mkdir_list env ps (fs(p \<mapsto> Dir)) = (ok, fs')" by simp
      then have "only_dirs_added (fs(p \<mapsto> Dir)) fs'" by (rule Cons.IH)
      moreover have "only_dirs_added fs (fs(p \<mapsto> Dir))"
        using None by (simp add: only_dirs_added_def)
      ultimately show ?thesis using only_dirs_trans by blast
    qed (use None Cons.prems in simp)
  next
    case (Some n)
    with Cons show ?thesis by (cases n) auto
  qed
qed

lemma mkdir_list_made:
  "mkdir_list env ps fs = (True, fs') \<Longrightarrow> p \<in> set ps \<Longrightarrow> fs' p = Some Dir"
proof (induction ps arbitrary: fs)
  case Nil
  then show ?case by simp
next
  case (Cons q ps)
  then obtain fs1 where 1: "mkdir_list env ps fs1 = (True, fs')" "fs1 q = Some Dir"
    by (auto split: option.splits fnode.splits if_splits)
  with only_dirs_keeps [OF mkdir_list_dirs [OF 1(1)] 1(2)] Cons show ?case by auto
qed

lemma mkdir_all_dirs: "mkdir_all env d fs = (ok, fs') \<Longrightarrow> only_dirs_added fs fs'"
  unfolding mkdir_all_def by (rule mkdir_list_dirs)

lemma path_prefixes_self:
  "path_clean d = d \<Longrightarrow> path_comps d \<noteq> [] \<Longrightarrow> d \<in> set (path_prefixes d)"
proof -
  assume c: "path_clean d = d" and n: "path_comps d \<noteq> []"
  have "d = comps_path (is_abs d) (take (length (path_comps d)) (path_comps d))"
    using c path_clean_eq [of d] by (auto simp: comps_path_def)
  moreover have "length (path_comps d) \<in> set [1..<Suc (length (path_comps d))]"
    using n by (cases "path_comps d") auto
  ultimately show ?thesis unfolding path_prefixes_def by (metis (no_types, lifting) image_eqI set_map)
qed

lemma mkdir_all_made:
  "mkdir_all env d fs = (True, fs') \<Longrightarrow> path_clean d = d \<Longrightarrow> path_comps d \<noteq> [] \<Longrightarrow> fs' d = Some Dir"
  unfolding mkdir_all_def using mkdir_list_made path_prefixes_self by metis

lemma open_excl_new:
  "open_excl env p fs = Inr fs' \<Longrightarrow> fs p = None \<and> fs' = fs(p \<mapsto> File [] None)"
  by (simp add: open_excl_def split: if_splits)

lemma remove_created: "fs p = None \<Longrightarrow> \<not> remove_fails env \<Longrightarrow> remove_file env p (fs(p \<mapsto> n)) = fs"
  by (auto simp: remove_file_def fun_eq_iff)

end
