(* ===== verification/Unique_Files.thy ===== *)
theory Unique_Files
  imports File_System
begin

text \<open>
  \<open>internal/utils/files.go\<close> and \<open>internal/utils/folderremap.go\<close>: names that do not collide
  with what is already in a save directory. \<open>UniqueFileAllocator\<close> keeps a hint per name, which
  is shown to change no result. The locale \<open>fresh_creator\<close> is what the two receivers need of
  whatever gives them a file to write to; it is interpreted on the allocator, on
  \<open>CreateUniqueFile\<close> and on the exclusive reopening of a retried target.
\<close>

definition max_unique_attempts :: nat where
  "max_unique_attempts = 10000"

text \<open>\<open>fmt.Sprintf("%s (%d)", ...)\<close> and the same before an extension.\<close>

definition numbered_folder :: "string \<Rightarrow> nat \<Rightarrow> string" where
  "numbered_folder f i = f @ '' ('' @ nat_dec i @ '')''"

definition numbered_file :: "string \<Rightarrow> nat \<Rightarrow> string" where
  "numbered_file f i =
     (let ext = path_ext f; name = trim_suffix ext f
      in name @ '' ('' @ nat_dec i @ '')'' @ ext)"

subsection \<open>Folders\<close>

function folder_loop :: "string \<Rightarrow> string \<Rightarrow> filesys \<Rightarrow> nat \<Rightarrow> string option" where
  "folder_loop dir f fs i =
     (if max_unique_attempts < i then None
      else if stat_not_exist (path_join dir (numbered_folder f i)) fs then Some (numbered_folder f i)
      else folder_loop dir f fs (Suc i))"
  by pat_completeness auto

termination
  by (relation "measure (\<lambda>(dir, f, fs, i). Suc max_unique_attempts - i)") auto

declare folder_loop.simps [simp del]

definition find_unique_folder_name :: "string \<Rightarrow> string \<Rightarrow> filesys \<Rightarrow> string option" where
  "find_unique_folder_name dir f fs =
     (if stat_not_exist (path_join dir f) fs then Some f else folder_loop dir f fs 1)"

subsection \<open>Files\<close>

text \<open>
  \<open>createUniqueFileFrom\<close>: the path, the suffix used and the file system, or \<^const>\<open>None\<close> with
  an error that is not a collision.
\<close>

function create_loop ::
    "io_env \<Rightarrow> string \<Rightarrow> string \<Rightarrow> nat \<Rightarrow> filesys \<Rightarrow> (string \<times> nat \<times> filesys) option" where
  "create_loop env dir f i fs =
     (if max_unique_attempts < i then None
      else (case open_excl env (path_join dir (numbered_file f i)) fs of
              Inr fs' \<Rightarrow> Some (path_join dir (numbered_file f i), i, fs')
            | Inl EOther \<Rightarrow> None
            | Inl EExist \<Rightarrow> create_loop env dir f (Suc i) fs))"
  by pat_completeness auto

termination
  by (relation "measure (\<lambda>(env, dir, f, i, fs). Suc max_unique_attempts - i)") auto

declare create_loop.simps [simp del]

definition create_unique_file_from ::
    "io_env \<Rightarrow> string \<Rightarrow> string \<Rightarrow> nat \<Rightarrow> filesys \<Rightarrow> (string \<times> nat \<times> filesys) option" where
  "create_unique_file_from env dir f start fs =
     (if start = 0 then
        (case open_excl env (path_join dir f) fs of
           Inr fs' \<Rightarrow> Some (path_join dir f, 0, fs')
         | Inl EOther \<Rightarrow> None
         | Inl EExist \<Rightarrow> create_loop env dir f 1 fs)
      else create_loop env dir f start fs)"

definition create_unique_file ::
    "io_env \<Rightarrow> string \<Rightarrow> string \<Rightarrow> filesys \<Rightarrow> (string \<times> filesys) option" where
  "create_unique_file env dir f fs =
     (case create_unique_file_from env dir f 0 fs of
        None \<Rightarrow> None | Some (p, i, fs') \<Rightarrow> Some (p, fs'))"

text \<open>The allocator: \<open>next\<close> maps a directory and a name to the first suffix worth trying.\<close>

type_synonym allocator = "(string \<times> string, nat) gomap"

definition next_suffix :: "allocator \<Rightarrow> string \<Rightarrow> string \<Rightarrow> nat" where
  "next_suffix a dir f = (case map_of a (dir, f) of None \<Rightarrow> 0 | Some n \<Rightarrow> n)"

definition alloc_reset :: "allocator \<Rightarrow> allocator" where
  "alloc_reset a = []"

definition alloc_create ::
    "io_env \<Rightarrow> string \<Rightarrow> string \<Rightarrow> allocator \<Rightarrow> filesys \<Rightarrow> (string \<times> filesys) option \<times> allocator" where
  "alloc_create env dir f a fs =
     (case create_unique_file_from env dir f (next_suffix a dir f) fs of
        None \<Rightarrow> (None, a)
      | Some (p, used, fs') \<Rightarrow>
          (let nxt = (if used = 0 then 1 else used + 1)
           in (Some (p, fs'),
               if next_suffix a dir f < nxt then AList.update (dir, f) nxt a else a)))"

subsection \<open>Folder remapping\<close>

record folder_remapper =
  remap :: "(string, string) gomap"
  remap_dir :: string

text \<open>The root folder of a file name, when it has one; names that are refused are skipped.\<close>

definition root_folder :: "string \<Rightarrow> string option" where
  "root_folder filename =
     (case sanitize_relative_path filename of
        Inl _ \<Rightarrow> None
      | Inr p \<Rightarrow> (case split_first sep p of (r, Some _) \<Rightarrow> Some r | (r, None) \<Rightarrow> None))"

definition root_folders :: "string list \<Rightarrow> string list" where
  "root_folders filenames = remdups (List.map_filter root_folder filenames)"

text \<open>The second loop, in the order in which the roots are visited.\<close>

fun remap_roots :: "string \<Rightarrow> filesys \<Rightarrow> string list \<Rightarrow> (string, string) gomap \<Rightarrow> (string, string) gomap option" where
  "remap_roots dir fs [] m = Some m"
| "remap_roots dir fs (r # rs) m =
     (case find_unique_folder_name dir r fs of
        None \<Rightarrow> None
      | Some u \<Rightarrow> remap_roots dir fs rs (if u \<noteq> r then AList.update r u m else m))"

definition new_folder_remapper :: "string \<Rightarrow> string list \<Rightarrow> filesys \<Rightarrow> folder_remapper option" where
  "new_folder_remapper dir filenames fs =
     (case remap_roots dir fs (root_folders filenames) [] of
        None \<Rightarrow> None
      | Some m \<Rightarrow> Some \<lparr>remap = m, remap_dir = dir\<rparr>)"

definition remap_apply :: "folder_remapper \<Rightarrow> string \<Rightarrow> string" where
  "remap_apply r p =
     (if remap r = [] then p
      else (case split_first sep p of
              (root, Some rest) \<Rightarrow>
                (case map_of (remap r) root of
                   Some new \<Rightarrow> new @ ''/'' @ rest
                 | None \<Rightarrow> p)
            | (root, None) \<Rightarrow> p))"

definition has_remap :: "folder_remapper \<Rightarrow> bool" where
  "has_remap r \<longleftrightarrow> remap r \<noteq> []"

subsection \<open>Candidate names\<close>

lemma numbered_file_split: "numbered_file f i = trim_suffix (path_ext f) f @ '' ('' @ nat_dec i @ '')'' @ path_ext f"
  by (simp add: numbered_file_def Let_def)

lemma numbered_file_inj: "numbered_file f i = numbered_file f j \<longleftrightarrow> i = j"
  by (simp add: numbered_file_split)

lemma numbered_folder_inj: "numbered_folder f i = numbered_folder f j \<longleftrightarrow> i = j"
  by (simp add: numbered_folder_def)

lemma numbered_longer: "length f < length (numbered_file f i)"
  using arg_cong [OF trim_suffix_ext [of f], of length] by (simp add: numbered_file_split)

lemma numbered_file_plain: "plain_comp f \<Longrightarrow> plain_comp (numbered_file f i)"
proof -
  assume f: "plain_comp f"
  have "set f = set (trim_suffix (path_ext f) f) \<union> set (path_ext f)"
    by (metis set_append trim_suffix_ext)
  with f have "sep \<notin> set (numbered_file f i)"
    by (auto simp: numbered_file_split plain_comp_def sep_def)
  moreover have "3 < length (numbered_file f i)"
    by (simp add: numbered_file_split nat_dec.simps [of i])
  ultimately show ?thesis by (auto simp: plain_comp_def)
qed

lemma numbered_folder_plain: "plain_comp f \<Longrightarrow> plain_comp (numbered_folder f i)"
proof -
  assume f: "plain_comp f"
  have "3 < length (numbered_folder f i)"
    by (simp add: numbered_folder_def nat_dec.simps [of i])
  moreover from f have "sep \<notin> set (numbered_folder f i)"
    by (simp add: numbered_folder_def plain_comp_def sep_def)
  ultimately show ?thesis by (auto simp: plain_comp_def)
qed

text \<open>The candidate with suffix \<open>i\<close>; suffix 0 is the name itself.\<close>

definition candidate :: "string \<Rightarrow> string \<Rightarrow> nat \<Rightarrow> string" where
  "candidate dir f i = path_join dir (if i = 0 then f else numbered_file f i)"

lemma path_join_inj:
  assumes "d \<noteq> []" "plain_comp a" "plain_comp b" "path_join d a = path_join d b"
  shows "a = b"
proof -
  have n: "sep \<notin> set a" "sep \<notin> set b" using assms(2,3) by (simp_all add: plain_comp_def)
  have c: "path_comps (path_join d a) = path_comps d @ [a]" "path_comps (path_join d b) = path_comps d @ [b]"
    using path_join_comps(1) [OF assms(1) safe_rel_single [OF assms(2)]]
      path_join_comps(1) [OF assms(1) safe_rel_single [OF assms(3)]]
    by (simp_all only: split_plain [OF n(1)] split_plain [OF n(2)])
  have "path_comps d @ [a] = path_comps d @ [b]"
    using assms(4) unfolding c [symmetric] by (rule arg_cong)
  then show ?thesis by simp
qed

lemma candidate_inj:
  assumes "dir \<noteq> []" "plain_comp f" "candidate dir f i = candidate dir f j"
  shows "i = j"
proof -
  have "plain_comp (if k = 0 then f else numbered_file f k)" for k
    using assms(2) by (simp add: numbered_file_plain)
  from path_join_inj [OF assms(1) this this, of i j] assms(3)
  have "(if i = 0 then f else numbered_file f i) = (if j = 0 then f else numbered_file f j)"
    by (simp only: candidate_def)
  then show ?thesis
    using numbered_longer [of f i] numbered_longer [of f j]
    by (cases "i = 0"; cases "j = 0") (simp_all add: numbered_file_inj)
qed

lemma candidate_below: "dir \<noteq> [] \<Longrightarrow> plain_comp f \<Longrightarrow> below dir (candidate dir f i)"
  unfolding candidate_def
  by (intro path_join_below safe_rel_single) (auto simp: numbered_file_plain)

subsection \<open>The search for a free name\<close>

lemma create_loop_eq:
  "create_loop env dir f (Suc i) fs =
     (if max_unique_attempts < Suc i then None
      else (case open_excl env (candidate dir f (Suc i)) fs of
              Inr fs' \<Rightarrow> Some (candidate dir f (Suc i), Suc i, fs')
            | Inl EOther \<Rightarrow> None
            | Inl EExist \<Rightarrow> create_loop env dir f (Suc (Suc i)) fs))"
  by (subst create_loop.simps) (simp add: candidate_def split: sum.split io_error.split)

lemma create_from_eq:
  "create_unique_file_from env dir f i fs =
     (if max_unique_attempts < i then None
      else (case open_excl env (candidate dir f i) fs of
              Inr fs' \<Rightarrow> Some (candidate dir f i, i, fs')
            | Inl EOther \<Rightarrow> None
            | Inl EExist \<Rightarrow> create_unique_file_from env dir f (Suc i) fs))"
proof (cases i)
  case 0
  then show ?thesis
    by (simp add: create_unique_file_from_def candidate_def max_unique_attempts_def
        split: sum.split io_error.split)
next
  case (Suc j)
  then show ?thesis
    using create_loop_eq [of env dir f j fs]
    by (simp add: create_unique_file_from_def split: sum.split io_error.split)
qed

lemma open_excl_exists: "open_excl env p fs = Inl EExist \<longleftrightarrow> fs p \<noteq> None"
  by (simp add: open_excl_def)

text \<open>What the search returns: the first free candidate from the start on.\<close>

lemma create_from_finds:
  "create_unique_file_from env dir f s fs = Some (p, i, fs') \<longleftrightarrow>
     s \<le> i \<and> i \<le> max_unique_attempts \<and> p = candidate dir f i \<and>
     open_excl env p fs = Inr fs' \<and> (\<forall>j. s \<le> j \<and> j < i \<longrightarrow> fs (candidate dir f j) \<noteq> None)"
proof (induction "Suc max_unique_attempts - s" arbitrary: s)
  case 0
  then show ?case by (simp add: create_from_eq [of env dir f s])
next
  case (Suc n)
  then have le: "s \<le> max_unique_attempts" by simp
  from Suc have IH: "create_unique_file_from env dir f (Suc s) fs = Some (p, i, fs') \<longleftrightarrow>
     Suc s \<le> i \<and> i \<le> max_unique_attempts \<and> p = candidate dir f i \<and>
     open_excl env p fs = Inr fs' \<and> (\<forall>j. Suc s \<le> j \<and> j < i \<longrightarrow> fs (candidate dir f j) \<noteq> None)"
    by simp
  show ?case
  proof (cases "open_excl env (candidate dir f s) fs")
    case (Inr fs1)
    then have "fs (candidate dir f s) = None" by (simp add: open_excl_new)
    with Inr le show ?thesis
      by (subst create_from_eq) (auto simp: le_less dest: spec [of _ s])
  next
    case (Inl e)
    show ?thesis
    proof (cases e)
      case EExist
      with Inl have ex: "fs (candidate dir f s) \<noteq> None" using open_excl_exists by blast
      have "(\<forall>j. s \<le> j \<and> j < i \<longrightarrow> fs (candidate dir f j) \<noteq> None) \<longleftrightarrow>
          (\<forall>j. Suc s \<le> j \<and> j < i \<longrightarrow> fs (candidate dir f j) \<noteq> None)"
        using ex by (metis Suc_leD Suc_leI le_neq_implies_less)
      moreover have "s \<noteq> i \<or> p \<noteq> candidate dir f i \<or> open_excl env p fs \<noteq> Inr fs'"
        using Inl by auto
      ultimately show ?thesis
        using Inl EExist le IH by (subst create_from_eq) (auto simp: Suc_le_eq)
    next
      case EOther
      with Inl have ne: "fs (candidate dir f s) = None"
        using open_excl_exists [of env "candidate dir f s" fs] by auto
      with Inl EOther le show ?thesis
        by (subst create_from_eq) (auto simp: le_less dest: spec [of _ s])
    qed
  qed
qed

lemma create_from_later:
  assumes "s \<le> t" "\<forall>j. s \<le> j \<and> j < t \<longrightarrow> fs (candidate dir f j) \<noteq> None" "t \<le> Suc max_unique_attempts"
  shows "create_unique_file_from env dir f s fs = create_unique_file_from env dir f t fs"
  using assms
proof (induction "t - s" arbitrary: s)
  case 0
  then show ?case by simp
next
  case (Suc n)
  then have "s < t" by simp
  with Suc.prems have "open_excl env (candidate dir f s) fs = Inl EExist"
    by (simp add: open_excl_exists)
  with \<open>s < t\<close> Suc.prems have "create_unique_file_from env dir f s fs
      = create_unique_file_from env dir f (Suc s) fs"
    by (subst create_from_eq) simp
  also have "\<dots> = create_unique_file_from env dir f t fs"
    using Suc \<open>s < t\<close> by simp
  finally show ?case .
qed

subsection \<open>What the receivers need of a new file\<close>

locale fresh_creator =
  fixes create :: "filesys \<Rightarrow> (string \<times> filesys) option"
  assumes fresh: "create fs = Some (p, fs') \<Longrightarrow> fs p = None \<and> fs' = fs(p \<mapsto> File [] None)"
begin

lemma others_kept: "create fs = Some (p, fs') \<Longrightarrow> q \<noteq> p \<Longrightarrow> fs' q = fs q"
  by (drule fresh) simp

lemma commit: "create fs = Some (p, fs') \<Longrightarrow> write_file p b fs' = fs(p \<mapsto> File b None)"
  by (drule fresh) (simp add: write_file_def)

lemma abort:
  "create fs = Some (p, fs') \<Longrightarrow> \<not> remove_fails env \<Longrightarrow> remove_file env p (write_file p b fs') = fs"
  by (drule fresh) (auto simp: write_file_def remove_file_def)

lemma commit_times:
  "create fs = Some (p, fs') \<Longrightarrow>
     \<exists>t. chtimes env p ts (write_file p b fs') = fs(p \<mapsto> File b t)"
  by (drule fresh) (auto simp: write_file_def chtimes_def)

end

lemma alloc_create_from:
  "fst (alloc_create env dir f a fs) =
     map_option (\<lambda>(p, i, fs'). (p, fs')) (create_unique_file_from env dir f (next_suffix a dir f) fs)"
  by (auto simp: alloc_create_def Let_def split: option.split)

lemma create_unique_from:
  "create_unique_file env dir f fs =
     map_option (\<lambda>(p, i, fs'). (p, fs')) (create_unique_file_from env dir f 0 fs)"
  by (auto simp: create_unique_file_def split: option.split)

definition reopen_excl :: "io_env \<Rightarrow> string \<Rightarrow> filesys \<Rightarrow> (string \<times> filesys) option" where
  "reopen_excl env p fs = (case open_excl env p fs of Inl _ \<Rightarrow> None | Inr fs' \<Rightarrow> Some (p, fs'))"

interpretation hinted: fresh_creator "\<lambda>fs. fst (alloc_create env dir f a fs)" for env dir f a
  by unfold_locales (auto simp: alloc_create_from create_from_finds open_excl_new)

interpretation unhinted: fresh_creator "create_unique_file env dir f" for env dir f
  by unfold_locales (auto simp: create_unique_from create_from_finds open_excl_new)

interpretation reopened: fresh_creator "reopen_excl env p" for env p
  by unfold_locales (auto simp: reopen_excl_def open_excl_new split: sum.splits)

lemma alloc_create_below:
  "fst (alloc_create env dir f a fs) = Some (p, fs') \<Longrightarrow> dir \<noteq> [] \<Longrightarrow> plain_comp f \<Longrightarrow> below dir p"
  by (auto simp: alloc_create_from create_from_finds candidate_below)

lemma create_unique_below:
  "create_unique_file env dir f fs = Some (p, fs') \<Longrightarrow> dir \<noteq> [] \<Longrightarrow> plain_comp f \<Longrightarrow> below dir p"
  by (auto simp: create_unique_from create_from_finds candidate_below)

subsection \<open>The hints\<close>

definition hints_ok :: "allocator \<Rightarrow> filesys \<Rightarrow> bool" where
  "hints_ok a fs \<longleftrightarrow>
     (\<forall>dir f. next_suffix a dir f \<le> Suc max_unique_attempts \<and>
        (\<forall>j < next_suffix a dir f. fs (candidate dir f j) \<noteq> None))"

lemma hints_ok_grow: "hints_ok a fs \<Longrightarrow> (\<And>q. fs q \<noteq> None \<Longrightarrow> fs' q \<noteq> None) \<Longrightarrow> hints_ok a fs'"
  unfolding hints_ok_def by blast

lemma hints_ok_create:
  assumes "hints_ok a fs" "alloc_create env dir f a fs = (Some (p, fs'), a')"
  shows "hints_ok a' fs'"
proof -
  from assms(2) obtain i where c: "create_unique_file_from env dir f (next_suffix a dir f) fs = Some (p, i, fs')"
    and a': "a' = (if next_suffix a dir f < Suc i then AList.update (dir, f) (Suc i) a else a)"
    by (auto simp: alloc_create_def Let_def split: option.splits if_splits)
  from c have *: "i \<le> max_unique_attempts" "p = candidate dir f i" "fs' = fs(p \<mapsto> File [] None)"
      "\<forall>j. next_suffix a dir f \<le> j \<and> j < i \<longrightarrow> fs (candidate dir f j) \<noteq> None"
    using open_excl_new unfolding create_from_finds by blast+
  have grow: "fs q \<noteq> None \<Longrightarrow> fs' q \<noteq> None" for q using *(3) by simp
  have old: "hints_ok a fs'" using assms(1) grow by (rule hints_ok_grow)
  have "fs' (candidate dir f j) \<noteq> None" if lt: "j < Suc i" for j
  proof -
    consider "j < next_suffix a dir f" | "next_suffix a dir f \<le> j" "j < i" | "j = i"
      using lt by linarith
    then show ?thesis
    proof cases
      case 1
      with old show ?thesis unfolding hints_ok_def by blast
    next
      case 2
      with *(4) grow show ?thesis by blast
    next
      case 3
      with *(2,3) show ?thesis by simp
    qed
  qed
  with old *(1) a' show ?thesis
    by (auto simp: hints_ok_def next_suffix_def update_conv' split: if_splits)
qed

subsection \<open>Folder remapping\<close>

lemma folder_loop_some:
  "folder_loop dir f fs i = Some u \<Longrightarrow>
     (\<exists>j. u = numbered_folder f j) \<and> stat_not_exist (path_join dir u) fs"
proof (induction dir f fs i rule: folder_loop.induct)
  case (1 dir f fs i)
  show ?case
  proof (cases "stat_not_exist (path_join dir (numbered_folder f i)) fs")
    case True
    with "1.prems" show ?thesis by (subst (asm) folder_loop.simps) (auto split: if_splits)
  next
    case False
    with "1.prems" have "\<not> max_unique_attempts < i" "folder_loop dir f fs (Suc i) = Some u"
      by (subst (asm) folder_loop.simps, simp split: if_splits)+
    with 1 False show ?thesis by blast
  qed
qed

lemma find_folder_some:
  "find_unique_folder_name dir f fs = Some u \<Longrightarrow>
     stat_not_exist (path_join dir u) fs \<and> (u = f \<or> (\<exists>j. u = numbered_folder f j))"
  using folder_loop_some by (auto simp: find_unique_folder_name_def split: if_splits)

lemma remap_roots_some:
  "remap_roots dir fs rs m = Some m' \<Longrightarrow> distinct rs \<Longrightarrow> \<forall>r\<in>set rs. map_of m r = None \<Longrightarrow>
     (\<forall>r\<in>set rs. find_unique_folder_name dir r fs \<noteq> None) \<and>
     (\<forall>r. map_of m' r =
        (if r \<in> set rs
         then (case find_unique_folder_name dir r fs of None \<Rightarrow> None | Some u \<Rightarrow> if u \<noteq> r then Some u else None)
         else map_of m r))"
proof (induction rs arbitrary: m)
  case Nil
  then show ?case by simp
next
  case (Cons x rs)
  from Cons.prems(1) obtain u where u: "find_unique_folder_name dir x fs = Some u"
    and m1: "remap_roots dir fs rs (if u \<noteq> x then AList.update x u m else m) = Some m'"
    by (auto split: option.splits)
  have "\<forall>r\<in>set rs. map_of (if u \<noteq> x then AList.update x u m else m) r = None"
    using Cons.prems(2,3) by (auto simp: update_conv')
  from Cons.IH [OF m1 _ this] Cons.prems(2,3) u show ?case
    by (auto simp: update_conv' split: option.splits if_splits)
qed

text \<open>The map depends on the set of roots only, not on the order in which they are visited.\<close>

lemma remapper_lookup:
  assumes "new_folder_remapper dir filenames fs = Some r" "f \<in> set filenames" "root_folder f = Some root"
  obtains u where "find_unique_folder_name dir root fs = Some u"
    "map_of (remap r) root = (if u \<noteq> root then Some u else None)"
proof -
  from assms(1) have m: "remap_roots dir fs (root_folders filenames) [] = Some (remap r)"
    by (auto simp: new_folder_remapper_def split: option.splits)
  have "root \<in> set (root_folders filenames)"
    using assms(2,3) by (auto simp: root_folders_def List.map_filter_def image_iff)
  with remap_roots_some [OF m] that show thesis by (auto simp: root_folders_def split: option.splits)
qed

lemma remapper_values:
  assumes "new_folder_remapper dir filenames fs = Some r" "map_of (remap r) root = Some u"
  shows "u \<noteq> root \<and> (\<exists>j. u = numbered_folder root j) \<and> root \<in> set (root_folders filenames)"
proof -
  from assms(1) have m: "remap_roots dir fs (root_folders filenames) [] = Some (remap r)"
    by (auto simp: new_folder_remapper_def split: option.splits)
  from remap_roots_some [OF m] assms(2)
  have "root \<in> set (root_folders filenames)" "find_unique_folder_name dir root fs = Some u" "u \<noteq> root"
    by (auto simp: root_folders_def split: if_splits option.splits)
  with find_folder_some show ?thesis by blast
qed

lemma split_first_root:
  assumes "split_first sep p = (root, Some rest)"
  shows "p = root @ sep # rest \<and> sep \<notin> set root \<and> split_on sep p = root # split_on sep rest"
  using assms split_first_Some [of sep p root rest] split_append [of sep root rest] by auto

lemma remap_apply_safe:
  assumes "new_folder_remapper dir filenames fs = Some r" "safe_rel p"
  shows "safe_rel (remap_apply r p)"
proof (cases "split_first sep p")
  case (Pair root rest)
  show ?thesis
  proof (cases rest)
    case None
    with Pair assms(2) show ?thesis by (simp add: remap_apply_def)
  next
    case (Some t)
    with Pair have s: "split_on sep p = root # split_on sep t" "p = root @ sep # t"
      using split_first_root by blast+
    show ?thesis
    proof (cases "map_of (remap r) root")
      case None
      with Pair Some assms(2) show ?thesis by (simp add: remap_apply_def)
    next
      case (Some u)
      then have ne: "remap r \<noteq> []" by auto
      have "plain_comp root" using assms(2) s(1) by (simp add: safe_rel_def)
      with remapper_values [OF assms(1) Some] have u: "plain_comp u"
        using numbered_folder_plain by blast
      have "remap_apply r p = u @ sep # t"
        using Pair \<open>rest = Some t\<close> Some ne by (simp add: remap_apply_def sep_def)
      moreover have "split_on sep (u @ sep # t) = u # split_on sep t"
        using u by (intro split_append) (simp add: plain_comp_def)
      ultimately show ?thesis using u s(1) assms(2) by (simp add: safe_rel_def)
    qed
  qed
qed

subsection \<open>Properties\<close>

text \<open>
  A new file never replaces anything. When the allocator returns a path, nothing was there,
  the path is the first free one among the name and its numbered variants from the hint on,
  it lies below the directory, and no other node of the file system changes.
\<close>

theorem allocated_file_is_new:
  assumes "fst (alloc_create env dir f a fs) = Some (p, fs')" "dir \<noteq> []" "plain_comp f"
  shows "fs p = None \<and> fs' = fs(p \<mapsto> File [] None) \<and> below dir p \<and>
    (\<exists>i \<ge> next_suffix a dir f. i \<le> max_unique_attempts \<and> p = candidate dir f i \<and>
       (\<forall>j. next_suffix a dir f \<le> j \<and> j < i \<longrightarrow> fs (candidate dir f j) \<noteq> None))"
  using assms hinted.fresh [OF assms(1)] alloc_create_below [OF assms]
  by (auto simp: alloc_create_from create_from_finds)

definition one_book :: filesys where
  "one_book = [''/b'' \<mapsto> Dir, ''/b/a.tar.gz'' \<mapsto> File ''x'' None]"

theorem allocated_file_is_new_witness:
  "one_book ''/b/a.tar (1).gz'' = None \<and>
   fst (alloc_create no_faults ''/b'' ''a.tar.gz'' [] one_book)
     = Some (''/b/a.tar (1).gz'', one_book(''/b/a.tar (1).gz'' \<mapsto> File [] None))"
proof -
  have c: "candidate ''/b'' ''a.tar.gz'' 0 = ''/b/a.tar.gz''" "candidate ''/b'' ''a.tar.gz'' 1 = ''/b/a.tar (1).gz''"
    by code_simp+
  have d: "path_dir ''/b/a.tar (1).gz'' = ''/b''" by code_simp
  have o: "open_excl no_faults ''/b/a.tar (1).gz'' one_book = Inr (one_book(''/b/a.tar (1).gz'' \<mapsto> File [] None))"
    by (simp add: open_excl_def d one_book_def no_faults_def)
  have "create_unique_file_from no_faults ''/b'' ''a.tar.gz'' 0 one_book
      = Some (''/b/a.tar (1).gz'', 1, one_book(''/b/a.tar (1).gz'' \<mapsto> File [] None))"
    unfolding create_from_finds using o c
    by (simp add: max_unique_attempts_def one_book_def)
  then have r: "fst (alloc_create no_faults ''/b'' ''a.tar.gz'' [] one_book)
     = Some (''/b/a.tar (1).gz'', one_book(''/b/a.tar (1).gz'' \<mapsto> File [] None))"
    by (simp add: alloc_create_from next_suffix_def)
  have "plain_comp ''a.tar.gz''" by code_simp
  from allocated_file_is_new [OF r _ this] r show ?thesis by simp
qed

text \<open>
  The hint is only an optimisation. As long as no file is removed, a hinted search returns
  the same file, and fails in the same cases, as the search from the plain name that
  \<open>CreateUniqueFile\<close> makes, and the updated hints keep that guarantee.
\<close>

theorem suffix_hints_change_nothing:
  assumes "hints_ok a fs"
  shows "fst (alloc_create env dir f a fs) = create_unique_file env dir f fs \<and>
    (\<forall>p fs'. fst (alloc_create env dir f a fs) = Some (p, fs') \<longrightarrow>
       hints_ok (snd (alloc_create env dir f a fs)) fs')"
proof -
  from assms have "create_unique_file_from env dir f 0 fs
      = create_unique_file_from env dir f (next_suffix a dir f) fs"
    by (intro create_from_later) (auto simp: hints_ok_def)
  then have "fst (alloc_create env dir f a fs) = create_unique_file env dir f fs"
    by (simp add: alloc_create_from create_unique_from)
  with hints_ok_create [OF assms] show ?thesis by (metis prod.collapse)
qed

theorem suffix_hints_change_nothing_witness:
  "fst (alloc_create no_faults ''/b'' ''a.tar.gz'' [((''/b'', ''a.tar.gz''), 1)] one_book)
     = create_unique_file no_faults ''/b'' ''a.tar.gz'' one_book"
proof -
  have "candidate ''/b'' ''a.tar.gz'' 0 = ''/b/a.tar.gz''" by code_simp
  then have "hints_ok [((''/b'', ''a.tar.gz''), 1)] one_book"
    by (auto simp: hints_ok_def next_suffix_def max_unique_attempts_def one_book_def)
  from suffix_hints_change_nothing [OF this] show ?thesis by blast
qed

text \<open>
  A folder transfer goes into new folders. Once the remapper is built, every accepted file
  name with a root folder is sent to a root that did not exist in the save directory at that
  time, the rest of the path is kept, and the result is still a safe relative path.
\<close>

theorem folder_goes_to_new_root:
  assumes "new_folder_remapper dir filenames fs = Some r" "f \<in> set filenames"
    and "sanitize_relative_path f = Inr (root @ sep # rest)" "sep \<notin> set root"
  shows "\<exists>root'. remap_apply r (root @ sep # rest) = root' @ sep # rest \<and> sep \<notin> set root' \<and>
    safe_rel (root' @ sep # rest) \<and> stat_not_exist (path_join dir root') fs"
proof -
  have sf: "split_first sep (root @ sep # rest) = (root, Some rest)"
    using assms(4) by (rule split_first_append)
  with assms(3) have rf: "root_folder f = Some root" by (simp add: root_folder_def)
  obtain u where u: "find_unique_folder_name dir root fs = Some u"
    "map_of (remap r) root = (if u \<noteq> root then Some u else None)"
    using remapper_lookup [OF assms(1,2) rf] by blast
  have ap: "remap_apply r (root @ sep # rest) = u @ sep # rest"
    using u(2) sf by (auto simp: remap_apply_def sep_def split: if_splits)
  moreover have "safe_rel (u @ sep # rest)"
    using remap_apply_safe [OF assms(1) sanitize_ok_safe [OF assms(3)]] ap by simp
  moreover have "sep \<notin> set u"
    using find_folder_some [OF u(1)] assms(4) by (auto simp: numbered_folder_def sep_def)
  ultimately show ?thesis using find_folder_some [OF u(1)] by blast
qed

definition photos_fs :: filesys where
  "photos_fs = [''/b'' \<mapsto> Dir, ''/b/P'' \<mapsto> Dir, ''/b/P/x'' \<mapsto> File ''x'' None]"

lemma photos_find:
  "find_unique_folder_name ''/b'' ''P'' photos_fs = Some ''P (1)''"
  "find_unique_folder_name ''/b'' ''P (1)'' photos_fs = Some ''P (1)''"
proof -
  have n: "path_join ''/b'' ''P'' = ''/b/P''" "path_join ''/b'' ''P (1)'' = ''/b/P (1)''"
    "numbered_folder ''P'' (Suc 0) = ''P (1)''" "path_prefixes ''/b/P (1)'' = [''/b'', ''/b/P (1)'']"
    by code_simp+
  have "\<not> stat_not_exist ''/b/P'' photos_fs" "stat_not_exist ''/b/P (1)'' photos_fs"
    by (simp_all add: stat_not_exist_def photos_fs_def n)
  then show "find_unique_folder_name ''/b'' ''P'' photos_fs = Some ''P (1)''"
    "find_unique_folder_name ''/b'' ''P (1)'' photos_fs = Some ''P (1)''"
    by (simp_all add: find_unique_folder_name_def folder_loop.simps [of _ _ _ "Suc 0"]
        max_unique_attempts_def n)
qed

definition photos_remapper :: folder_remapper where
  "photos_remapper = \<lparr>remap = [(''P'', ''P (1)'')], remap_dir = ''/b''\<rparr>"

lemma photos_remapped:
  "new_folder_remapper ''/b'' [''P/x'', ''P (1)/x''] photos_fs = Some photos_remapper"
proof -
  have "root_folders [''P/x'', ''P (1)/x''] = [''P'', ''P (1)'']" by code_simp
  then show ?thesis
    by (simp add: new_folder_remapper_def photos_find photos_remapper_def)
qed

theorem folder_goes_to_new_root_witness:
  "\<exists>root'. remap_apply photos_remapper ''P/x'' = root' @ ''/x'' \<and>
     stat_not_exist (path_join ''/b'' root') photos_fs"
proof -
  have "sanitize_relative_path ''P/x'' = Inr (''P'' @ sep # ''x'')" "sep \<notin> set ''P''" by code_simp+
  from folder_goes_to_new_root [OF photos_remapped _ this] show ?thesis by (auto simp: sep_def)
qed

text \<open>
  Two folders of one transfer can be merged. With a folder \<open>P\<close> in the save directory, the
  roots \<open>P\<close> and \<open>P (1)\<close> of the same transfer are both sent to \<open>P (1)\<close>, because a name taken by
  another root of the transfer is not counted as taken.
\<close>

theorem remap_merges_folders:
  "new_folder_remapper ''/b'' [''P/x'', ''P (1)/x''] photos_fs = Some photos_remapper \<and>
   remap_apply photos_remapper ''P/x'' = remap_apply photos_remapper ''P (1)/x''"
  using photos_remapped by (simp add: remap_apply_def photos_remapper_def sep_def)

end
