(* ===== verification/Recv_Session.thy ===== *)
theory Recv_Session
  imports Models LS_Errors Unique_Files
begin

text \<open>
  \<open>internal/localsend/session/recv.go\<close>: one receive session. The state is the Go struct;
  \<open>folder_once\<close> and \<open>folder_cached\<close> are the \<open>sync.Once\<close> results, absent before the first
  call. \<open>SaveFile\<close> is split where it gives up its lock: \<open>save_begin\<close> claims the file,
  \<open>save_body\<close> does the file system work, \<open>finish_file_attempt\<close> books the result; uploads
  interleave between these. \<open>sha\<close> is the hexadecimal SHA-256 and \<open>parse_time\<close> the RFC 3339
  parser; nothing is assumed of either.
\<close>

subsection \<open>State\<close>

definition session_timeout :: duration where
  "session_timeout = 60 * second"

definition max_checksum_attempts :: nat where
  "max_checksum_attempts = 3"

definition activity_update_interval :: int where
  "activity_update_interval = 10"

datatype upload_status = FilePending | FileInProgress | FileFinished | FileFailed

record upload_state =
  us_status :: upload_status
  us_attempts :: nat
  us_target :: string

record recv_session =
  files_count :: int
  last_activity :: int
  file_metas :: file_metas
  file_tokens :: file_tokens
  file_states :: "(string, upload_state) gomap"
  sess_id :: string
  client_ip :: string
  started :: bool
  folder_once :: "folder_remapper option option"
  folder_cached :: "bool option"
  ensured_dirs :: "string list"
  unique_files :: allocator

definition new_recv_session :: "int \<Rightarrow> string \<Rightarrow> string \<Rightarrow> recv_session" where
  "new_recv_session now i ip =
     \<lparr>files_count = 0, last_activity = now, file_metas = [], file_tokens = [], file_states = [],
      sess_id = i, client_ip = ip, started = False, folder_once = None, folder_cached = None,
      ensured_dirs = [], unique_files = []\<rparr>"

subsection \<open>Admission of files\<close>

definition accept_file :: "string \<Rightarrow> string \<Rightarrow> file_meta \<Rightarrow> recv_session \<Rightarrow> ls_error option \<times> recv_session" where
  "accept_file token fid meta s =
     (if fid \<noteq> fm_id meta then (Some ErrUnknown, s)
      else if started s then (Some ErrBlockedByOthers, s)
      else if max_files_per_session \<le> length (file_metas s) then (Some ErrTooManyFiles, s)
      else (None,
            s\<lparr>file_metas := AList.update fid meta (file_metas s),
              file_tokens := AList.update fid token (file_tokens s),
              file_states := AList.update fid
                \<lparr>us_status = FilePending, us_attempts = 0, us_target = []\<rparr> (file_states s),
              files_count := files_count s + 1\<rparr>))"

definition start_session :: "recv_session \<Rightarrow> recv_session" where
  "start_session s = s\<lparr>started := True\<rparr>"

definition end_session :: "recv_session \<Rightarrow> bool \<times> recv_session" where
  "end_session s = (if started s then (True, s\<lparr>started := False, files_count := 0\<rparr>) else (False, s))"

definition sess_stopped :: "time \<Rightarrow> recv_session \<Rightarrow> bool" where
  "sess_stopped now s \<longleftrightarrow>
     session_timeout < time_sub now (last_activity s * second) \<or> \<not> started s \<or> files_count s = 0"

definition get_file_tokens :: "recv_session \<Rightarrow> file_tokens" where
  "get_file_tokens s = file_tokens s"

definition get_file_meta :: "string \<Rightarrow> recv_session \<Rightarrow> file_meta option" where
  "get_file_meta fid s = map_of (file_metas s) fid"

definition sess_folder_transfer :: "recv_session \<Rightarrow> bool \<times> recv_session" where
  "sess_folder_transfer s =
     (case folder_cached s of
        Some b \<Rightarrow> (b, s)
      | None \<Rightarrow> let b = metas_folder_transfer (file_metas s) in (b, s\<lparr>folder_cached := Some b\<rparr>))"

subsection \<open>Claiming and booking an attempt\<close>

definition save_begin ::
    "string \<Rightarrow> string \<Rightarrow> string \<Rightarrow> recv_session \<Rightarrow> (ls_error + file_meta \<times> string) \<times> recv_session" where
  "save_begin fid token ip s =
     (if sess_id s = [] \<or> fid = [] \<or> token = [] then (Inl ErrInvalidBody, s)
      else if \<not> started s then (Inl ErrRejected, s)
      else if client_ip s \<noteq> [] \<and> ip \<noteq> client_ip s then (Inl ErrRejected, s)
      else
        (case (map_of (file_metas s) fid, map_of (file_tokens s) fid, map_of (file_states s) fid) of
           (Some meta, Some expected, Some st) \<Rightarrow>
             if us_status st \<noteq> FilePending \<or> expected \<noteq> token then (Inl ErrRejected, s)
             else (Inr (meta, us_target st),
                   s\<lparr>file_states := AList.update fid
                       (st\<lparr>us_status := FileInProgress, us_attempts := (us_attempts st + 1) mod 256\<rparr>)
                       (file_states s)\<rparr>)
         | _ \<Rightarrow> (Inl ErrRejected, s)))"

definition finish_file_attempt :: "string \<Rightarrow> upload_status \<Rightarrow> recv_session \<Rightarrow> recv_session" where
  "finish_file_attempt fid result s =
     (case map_of (file_states s) fid of
        None \<Rightarrow> s
      | Some st \<Rightarrow>
          if us_status st \<noteq> FileInProgress then s
          else if result = FilePending \<and> us_attempts st < max_checksum_attempts
          then s\<lparr>file_states := AList.update fid (st\<lparr>us_status := FilePending\<rparr>) (file_states s)\<rparr>
          else
            (let st' = st\<lparr>us_status := (if result = FileFinished then FileFinished else FileFailed)\<rparr>;
                 s' = s\<lparr>file_states := AList.update fid st' (file_states s),
                        files_count := files_count s - 1\<rparr>
             in if files_count s' = 0 then snd (end_session s') else s'))"

subsection \<open>Directories and names\<close>

definition prepare_folder_remap :: "string \<Rightarrow> filesys \<Rightarrow> recv_session \<Rightarrow> bool \<times> recv_session" where
  "prepare_folder_remap dir fs s =
     (case folder_once s of
        Some r \<Rightarrow> (r \<noteq> None, s)
      | None \<Rightarrow>
          let r = new_folder_remapper dir (map (\<lambda>p. fm_name (snd p)) (file_metas s)) fs
          in (r \<noteq> None, s\<lparr>folder_once := Some r\<rparr>))"

definition apply_folder_remap :: "recv_session \<Rightarrow> string \<Rightarrow> string" where
  "apply_folder_remap s p = (case folder_once s of Some (Some r) \<Rightarrow> remap_apply r p | _ \<Rightarrow> p)"

definition ensure_save_dir ::
    "io_env \<Rightarrow> string \<Rightarrow> filesys \<Rightarrow> recv_session \<Rightarrow> bool \<times> filesys \<times> recv_session" where
  "ensure_save_dir env d fs s =
     (if d \<in> set (ensured_dirs s) then (True, fs, s)
      else (case mkdir_all env d fs of
              (True, fs') \<Rightarrow> (True, fs', s\<lparr>ensured_dirs := d # ensured_dirs s\<rparr>)
            | (False, fs') \<Rightarrow> (False, fs', s)))"

text \<open>The times \<open>applyFileTimes\<close> sets: access and modification.\<close>

definition chosen_times :: "(string \<Rightarrow> time option) \<Rightarrow> file_metadata option \<Rightarrow> (time \<times> time) option" where
  "chosen_times parse_time md =
     (case md of
        None \<Rightarrow> None
      | Some m \<Rightarrow>
          let parsed = (\<lambda>v. if v = [] then zero_time
                            else case parse_time v of Some t \<Rightarrow> t | None \<Rightarrow> zero_time);
              mt = parsed (md_modified m); at = parsed (md_accessed m)
          in if mt = zero_time \<and> at = zero_time then None
             else Some (if at = zero_time then mt else at, if mt = zero_time then at else mt))"

definition apply_file_times ::
    "io_env \<Rightarrow> (string \<Rightarrow> time option) \<Rightarrow> file_metadata option \<Rightarrow> string \<Rightarrow> filesys \<Rightarrow> filesys" where
  "apply_file_times env parse_time md p fs =
     (case chosen_times parse_time md of None \<Rightarrow> fs | Some ts \<Rightarrow> chtimes env p ts fs)"

subsection \<open>The body\<close>

text \<open>
  The request body: what each \<open>Read\<close> returned and when (Unix seconds), and whether it ended in
  an error. \<open>limited_read\<close> is \<open>io.LimitReader\<close> over it: the reads that happen, cut at the
  limit, and whether the limit was what stopped them.
\<close>

record upload_body =
  body_chunks :: "(int \<times> bytes) list"
  body_err :: bool

fun limited_read :: "int \<Rightarrow> (int \<times> bytes) list \<Rightarrow> (int \<times> bytes) list \<times> bool" where
  "limited_read n [] = ([], n \<le> 0)"
| "limited_read n ((t, b) # cs) =
     (if n \<le> 0 then ([], True)
      else let b' = take (nat n) b
           in (case limited_read (n - int (length b')) cs of (r, l) \<Rightarrow> ((t, b') # r, l)))"

text \<open>\<open>activityReader\<close>: \<open>lu\<close> is its \<open>lastUpdate\<close>, the result the session's \<open>lastActivity\<close>.\<close>

fun activity_run :: "int \<Rightarrow> int \<Rightarrow> (int \<times> bytes) list \<Rightarrow> int" where
  "activity_run lu la [] = la"
| "activity_run lu la ((t, b) # cs) =
     (if b \<noteq> [] \<and> activity_update_interval \<le> t - lu then activity_run t t cs
      else activity_run lu la cs)"

definition received :: "(int \<times> bytes) list \<Rightarrow> bytes" where
  "received cs = concat (map snd cs)"

text \<open>The directory and file name of a sanitised path under the save directory.\<close>

definition full_save_dir :: "string \<Rightarrow> string \<Rightarrow> string" where
  "full_save_dir dir p =
     (let sub = path_dir p in if sub \<noteq> ''.'' \<and> sub \<noteq> [] then path_join dir sub else dir)"

definition saved_name :: "string \<Rightarrow> string \<Rightarrow> string" where
  "saved_name p save_as =
     (let sub = path_dir p
      in if sub \<noteq> ''.'' \<and> sub \<noteq> [] then path_join sub (path_base save_as) else path_base save_as)"

definition set_target :: "string \<Rightarrow> string \<Rightarrow> recv_session \<Rightarrow> recv_session" where
  "set_target fid p s =
     (case map_of (file_states s) fid of
        None \<Rightarrow> s
      | Some st \<Rightarrow> s\<lparr>file_states := AList.update fid (st\<lparr>us_target := p\<rparr>) (file_states s)\<rparr>)"

text \<open>
  Opening the target: a retry reopens the path of its first attempt, exclusively; a first
  attempt allocates one and remembers it.
\<close>

definition open_target ::
    "io_env \<Rightarrow> string \<Rightarrow> string \<Rightarrow> string \<Rightarrow> string \<Rightarrow> filesys \<Rightarrow> recv_session \<Rightarrow>
     (string \<times> filesys) option \<times> recv_session" where
  "open_target env full base target fid fs s =
     (if target \<noteq> [] then (reopen_excl env target fs, s)
      else
        (case alloc_create env full base (unique_files s) fs of
           (None, a) \<Rightarrow> (None, s\<lparr>unique_files := a\<rparr>)
         | (Some (p, fs'), a) \<Rightarrow> (Some (p, fs'), set_target fid p (s\<lparr>unique_files := a\<rparr>))))"

text \<open>
  Receiving into the open file \<open>p\<close>: the status the deferred \<open>finishFileAttempt\<close> will book, the
  error if any, the file system after the deferred cleanup and the session's activity.
\<close>

definition receive_into ::
    "io_env \<Rightarrow> (bytes \<Rightarrow> string) \<Rightarrow> (string \<Rightarrow> time option) \<Rightarrow> file_meta \<Rightarrow> upload_body \<Rightarrow> string \<Rightarrow>
     filesys \<Rightarrow> recv_session \<Rightarrow> upload_status \<times> ls_error option \<times> filesys \<times> recv_session" where
  "receive_into env sha parse_time meta body p fs s =
     (case limited_read (wrap64 (fm_size meta + 1)) (body_chunks body) of
        (cs, limited) \<Rightarrow>
          let data = received cs;
              s' = s\<lparr>last_activity := activity_run 0 (last_activity s) cs\<rparr>;
              undo = remove_file env p (write_file p (take (partial_write env) data) fs)
          in if write_fails env \<or> (body_err body \<and> \<not> limited) then (FileFailed, Some ErrFileIO, undo, s')
             else if int (length data) \<noteq> fm_size meta then (FileFailed, Some ErrInvalidBody, undo, s')
             else if flush_fails env then (FileFailed, Some ErrFileIO, undo, s')
             else if fm_checksum meta \<noteq> [] \<and> \<not> hex_equal_fold (sha data) (fm_checksum meta)
             then (FilePending, Some ErrChecksum, undo, s')
             else (FileFinished, None,
                   apply_file_times env parse_time (fm_metadata meta) p (write_file p data fs), s'))"

definition save_body ::
    "io_env \<Rightarrow> (bytes \<Rightarrow> string) \<Rightarrow> (string \<Rightarrow> time option) \<Rightarrow> string \<Rightarrow> string \<Rightarrow> file_meta \<Rightarrow> string \<Rightarrow>
     upload_body \<Rightarrow> filesys \<Rightarrow> recv_session \<Rightarrow>
     upload_status \<times> (ls_error + string \<times> string) \<times> filesys \<times> recv_session" where
  "save_body env sha parse_time dir fid meta target body fs s =
     (case sanitize_path_with_fallback (fm_name meta) of
        Inl _ \<Rightarrow> (FileFailed, Inl ErrInvalidBody, fs, s)
      | Inr p0 \<Rightarrow>
          (case prepare_folder_remap dir fs s of
             (False, s1) \<Rightarrow> (FileFailed, Inl ErrFileIO, fs, s1)
           | (True, s1) \<Rightarrow>
               let p = apply_folder_remap s1 p0; full = full_save_dir dir p
               in (case ensure_save_dir env full fs s1 of
                     (False, fs2, s2) \<Rightarrow> (FileFailed, Inl ErrFileIO, fs2, s2)
                   | (True, fs2, s2) \<Rightarrow>
                       (case open_target env full (path_base p) target fid fs2 s2 of
                          (None, s3) \<Rightarrow> (FileFailed, Inl ErrFileIO, fs2, s3)
                        | (Some (save_as, fs3), s3) \<Rightarrow>
                            (case receive_into env sha parse_time meta body save_as fs3 s3 of
                               (st, Some e, fs4, s4) \<Rightarrow> (st, Inl e, fs4, s4)
                             | (st, None, fs4, s4) \<Rightarrow>
                                 (st, Inr (saved_name p save_as, save_as), fs4, s4))))))"

text \<open>
  \<open>SaveFile\<close>. The success value carries the saved name the Go function returns and the path
  the file was stored under, which it logs.
\<close>

definition save_file ::
    "io_env \<Rightarrow> (bytes \<Rightarrow> string) \<Rightarrow> (string \<Rightarrow> time option) \<Rightarrow> string \<Rightarrow> string \<Rightarrow> string \<Rightarrow> string \<Rightarrow>
     upload_body \<Rightarrow> filesys \<Rightarrow> recv_session \<Rightarrow> (ls_error + string \<times> string) \<times> filesys \<times> recv_session" where
  "save_file env sha parse_time dir fid token ip body fs s =
     (case save_begin fid token ip s of
        (Inl e, s1) \<Rightarrow> (Inl e, fs, s1)
      | (Inr (meta, target), s1) \<Rightarrow>
          (case save_body env sha parse_time dir fid meta target body fs s1 of
             (st, out, fs', s2) \<Rightarrow> (out, fs', finish_file_attempt fid st s2)))"

subsection \<open>The bookkeeping of attempts\<close>

definition is_open :: "upload_state \<Rightarrow> bool" where
  "is_open st \<longleftrightarrow> us_status st = FilePending \<or> us_status st = FileInProgress"

definition attempts_ok :: "upload_state \<Rightarrow> bool" where
  "attempts_ok st \<longleftrightarrow>
     us_attempts st \<le> max_checksum_attempts \<and>
     (us_status st = FilePending \<longrightarrow> us_attempts st < max_checksum_attempts) \<and>
     (us_status st \<noteq> FilePending \<longrightarrow> 1 \<le> us_attempts st)"

definition open_files :: "recv_session \<Rightarrow> nat" where
  "open_files s = count_vals is_open (file_states s)"

text \<open>The books of a session: what must hold between any two steps.\<close>

definition sess_inv :: "recv_session \<Rightarrow> bool" where
  "sess_inv s \<longleftrightarrow>
     gm_wf (file_metas s) \<and> gm_wf (file_tokens s) \<and> gm_wf (file_states s) \<and>
     dom (map_of (file_tokens s)) = dom (map_of (file_metas s)) \<and>
     dom (map_of (file_states s)) = dom (map_of (file_metas s)) \<and>
     (\<forall>fid st. map_of (file_states s) fid = Some st \<longrightarrow> attempts_ok st) \<and>
     (started s \<longrightarrow> files_count s = int (open_files s) \<and> 0 < open_files s)"

lemma save_begin_ok:
  assumes "save_begin fid token ip s = (Inr (meta, target), s')"
  obtains st where "map_of (file_metas s) fid = Some meta" "map_of (file_tokens s) fid = Some token"
    "map_of (file_states s) fid = Some st" "us_status st = FilePending" "us_target st = target"
    "started s" "client_ip s = [] \<or> ip = client_ip s" "sess_id s \<noteq> []" "fid \<noteq> []" "token \<noteq> []"
    "s' = s\<lparr>file_states := AList.update fid
        (st\<lparr>us_status := FileInProgress, us_attempts := (us_attempts st + 1) mod 256\<rparr>) (file_states s)\<rparr>"
  using assms by (auto simp: save_begin_def split: if_splits option.splits)

lemma save_begin_refused: "save_begin fid token ip s = (Inl e, s') \<Longrightarrow> s' = s \<and> e \<in> {ErrInvalidBody, ErrRejected}"
  by (auto simp: save_begin_def split: if_splits option.splits)

lemma open_files_update:
  "gm_wf (file_states s) \<Longrightarrow> map_of (file_states s) fid = Some st \<Longrightarrow>
     int (open_files (s\<lparr>file_states := AList.update fid st' (file_states s)\<rparr>)) =
     int (open_files s) - (if is_open st then 1 else 0) + (if is_open st' then 1 else 0)"
  by (simp add: open_files_def count_vals_update)

lemma dom_states_update:
  "map_of (file_states s) fid = Some st \<Longrightarrow>
     dom (map_of (AList.update fid st' (file_states s))) = dom (map_of (file_states s))"
  by (auto simp: update_conv')

lemma save_begin_inv:
  assumes "save_begin fid token ip s = (Inr x, s')" "sess_inv s"
  shows "sess_inv s'"
proof -
  obtain meta target where x: "x = (meta, target)" by fastforce
  obtain st where st: "map_of (file_states s) fid = Some st" "us_status st = FilePending" "started s"
    and s': "s' = s\<lparr>file_states := AList.update fid
        (st\<lparr>us_status := FileInProgress, us_attempts := (us_attempts st + 1) mod 256\<rparr>) (file_states s)\<rparr>"
    using assms(1) x save_begin_ok by metis
  let ?st = "st\<lparr>us_status := FileInProgress, us_attempts := (us_attempts st + 1) mod 256\<rparr>"
  have "attempts_ok st" using assms(2) st(1) by (auto simp: sess_inv_def)
  then have "attempts_ok ?st" using st(2)
    by (simp add: attempts_ok_def max_checksum_attempts_def)
  moreover have "int (open_files s') = int (open_files s)"
    using assms(2) st(2) open_files_update [OF _ st(1), of ?st] unfolding s'
    by (simp add: sess_inv_def is_open_def)
  ultimately show ?thesis
    using assms(2) st dom_states_update [OF st(1)] unfolding s'
    by (simp add: sess_inv_def distinct_update update_conv')
qed

lemma end_session_inv: "sess_inv s \<Longrightarrow> sess_inv (snd (end_session s))"
  by (simp add: end_session_def sess_inv_def)

lemma finish_inv:
  assumes "sess_inv s"
  shows "sess_inv (finish_file_attempt fid res s)"
proof (cases "\<exists>st. map_of (file_states s) fid = Some st \<and> us_status st = FileInProgress")
  case False
  then have "finish_file_attempt fid res s = s"
    by (auto simp: finish_file_attempt_def split: option.splits)
  with assms show ?thesis by simp
next
  case True
  then obtain st where st: "map_of (file_states s) fid = Some st" "us_status st = FileInProgress" by blast
  have ok: "attempts_ok st" and wf: "gm_wf (file_states s)"
    using assms st(1) by (auto simp: sess_inv_def)
  show ?thesis
  proof (cases "res = FilePending \<and> us_attempts st < max_checksum_attempts")
    case True
    let ?s = "s\<lparr>file_states := AList.update fid (st\<lparr>us_status := FilePending\<rparr>) (file_states s)\<rparr>"
    have "finish_file_attempt fid res s = ?s"
      using st True by (simp add: finish_file_attempt_def)
    moreover have "attempts_ok (st\<lparr>us_status := FilePending\<rparr>)"
      using True by (simp add: attempts_ok_def)
    moreover have "int (open_files ?s) = int (open_files s)"
      using st(2) open_files_update [OF wf st(1), of "st\<lparr>us_status := FilePending\<rparr>"]
      by (simp add: is_open_def)
    ultimately show ?thesis
      using assms dom_states_update [OF st(1)] by (simp add: sess_inv_def distinct_update update_conv')
  next
    case False
    let ?st = "st\<lparr>us_status := (if res = FileFinished then FileFinished else FileFailed)\<rparr>"
    let ?s = "s\<lparr>file_states := AList.update fid ?st (file_states s), files_count := files_count s - 1\<rparr>"
    have f: "finish_file_attempt fid res s = (if files_count ?s = 0 then snd (end_session ?s) else ?s)"
      using st False by (auto simp: finish_file_attempt_def Let_def)
    have "attempts_ok ?st"
      using ok st(2) by (simp add: attempts_ok_def)
    moreover have "int (open_files ?s) = int (open_files s) - 1"
      using st(2) open_files_update [OF wf st(1), of ?st] by (simp add: is_open_def open_files_def)
    moreover have "started ?s = started s" "files_count ?s = files_count s - 1" by simp_all
    ultimately show ?thesis
      using assms dom_states_update [OF st(1)] unfolding f
      by (auto simp: sess_inv_def distinct_update update_conv' end_session_def open_files_def
          simp del: map_of_eq_Some_iff)
  qed
qed

text \<open>The work between claim and booking leaves the books alone.\<close>

definition same_books :: "recv_session \<Rightarrow> recv_session \<Rightarrow> bool" where
  "same_books s s' \<longleftrightarrow>
     files_count s' = files_count s \<and> file_metas s' = file_metas s \<and> file_tokens s' = file_tokens s \<and>
     started s' = started s \<and> sess_id s' = sess_id s \<and> client_ip s' = client_ip s \<and>
     (gm_wf (file_states s) \<longrightarrow> gm_wf (file_states s')) \<and>
     map fst (file_states s') = map fst (file_states s) \<and>
     map (\<lambda>p. (us_status (snd p), us_attempts (snd p))) (file_states s') =
     map (\<lambda>p. (us_status (snd p), us_attempts (snd p))) (file_states s)"

lemma same_books_refl [simp]: "same_books s s"
  by (simp add: same_books_def)

lemma same_books_trans: "same_books s s' \<Longrightarrow> same_books s' s'' \<Longrightarrow> same_books s s''"
  by (simp add: same_books_def)

lemma update_books:
  "map_of m k = Some st \<Longrightarrow> us_status st' = us_status st \<Longrightarrow> us_attempts st' = us_attempts st \<Longrightarrow>
     map fst (AList.update k st' m) = map fst m \<and>
     map (\<lambda>p. (us_status (snd p), us_attempts (snd p))) (AList.update k st' m) =
     map (\<lambda>p. (us_status (snd p), us_attempts (snd p))) m"
  by (induction m) (auto split: if_splits)

lemma set_target_books: "same_books s (set_target fid p s)"
proof (cases "map_of (file_states s) fid")
  case None
  then show ?thesis by (simp add: set_target_def)
next
  case (Some st)
  from update_books [OF Some, of "st\<lparr>us_target := p\<rparr>"] Some show ?thesis
    by (auto simp: set_target_def same_books_def)
qed

end
