(* ===== verification/Upload_Props.thy ===== *)
theory Upload_Props
  imports Recv_Session
begin

text \<open>
  What \<open>SaveFile\<close> guarantees: what a stored file is, that a failed upload leaves no trace, who
  may upload, and how often. The statements are about whole sessions, with uploads of different
  files interleaved at the points where the code gives up its lock.
\<close>

subsection \<open>The body\<close>

lemma received_Nil [simp]: "received [] = []"
  by (simp add: received_def)

lemma received_Cons [simp]: "received ((t, b) # cs) = b @ received cs"
  by (simp add: received_def)

lemma limited_read_spec:
  "limited_read n cs = (r, l) \<Longrightarrow>
     received r = take (nat n) (received cs) \<and> (l \<longleftrightarrow> n \<le> int (length (received cs)))"
proof (induction n cs arbitrary: r l rule: limited_read.induct)
  case (1 n)
  then show ?case by auto
next
  case (2 n t b cs)
  show ?case
  proof (cases "n \<le> 0")
    case True
    with "2.prems" show ?thesis by auto
  next
    case False
    let ?b = "take (nat n) b"
    obtain r' l' where r': "limited_read (n - int (length ?b)) cs = (r', l')" by fastforce
    with "2.prems" False have r: "r = (t, ?b) # r'" "l = l'" by (auto simp: Let_def)
    from "2.IH" [OF False refl r'] have IH:
      "received r' = take (nat (n - int (length ?b))) (received cs)"
      "l' \<longleftrightarrow> n - int (length ?b) \<le> int (length (received cs))" by auto
    have e: "nat (n - int (length ?b)) = nat n - length b"
      using False by (auto simp: min_def nat_diff_distrib)
    show ?thesis
    proof (cases "nat n \<le> length b")
      case True
      then have "length ?b = nat n" by simp
      with IH e r False True show ?thesis by auto
    next
      case False2: False
      with IH e r False show ?thesis by (simp add: min_def) arith
    qed
  qed
qed

text \<open>A body of the declared size is read completely, and only such a body passes the size test.\<close>

lemma limited_read_exact:
  assumes "limited_read (wrap64 (sz + 1)) cs = (r, l)" "int64_range sz"
    and "int (length (received r)) = sz"
  shows "received r = received cs \<and> \<not> l"
proof -
  note s = limited_read_spec [OF assms(1)]
  have "sz \<noteq> 2 ^ 63 - 1"
  proof
    assume "sz = 2 ^ 63 - 1"
    then have "wrap64 (sz + 1) = - (2 ^ 63)" by (simp add: wrap64_def)
    with s have "received r = []" by simp
    with assms(3) \<open>sz = 2 ^ 63 - 1\<close> show False by simp
  qed
  with assms(2) have w: "wrap64 (sz + 1) = sz + 1"
    by (intro wrap64_id) (simp add: int64_range_def)
  have "0 \<le> sz" using assms(3) by simp
  then have "length (received cs) = nat sz" "\<not> l"
    using s assms(3) unfolding w by (auto simp: min_def split: if_splits)
  with s w \<open>0 \<le> sz\<close> show ?thesis by simp
qed

subsection \<open>Effects of the parts of \<open>SaveFile\<close>\<close>

lemma prepare_books: "prepare_folder_remap dir fs s = (ok, s') \<Longrightarrow> same_books s s'"
  by (auto simp: prepare_folder_remap_def same_books_def Let_def split: option.splits)

lemma ensure_books: "ensure_save_dir env d fs s = (ok, fs', s') \<Longrightarrow> same_books s s' \<and> only_dirs_added fs fs'"
  using mkdir_all_dirs [of env d fs]
  by (auto simp: ensure_save_dir_def same_books_def split: if_splits prod.splits bool.splits)

lemma alloc_books [simp]: "same_books s (s\<lparr>unique_files := a\<rparr>)"
  by (simp add: same_books_def)

lemma open_books:
  "open_target env full base target fid fs s = (r, s') \<Longrightarrow> same_books s s'"
  using same_books_trans [OF alloc_books set_target_books]
  by (auto simp: open_target_def split: if_splits prod.splits option.splits)

lemma receive_books:
  "receive_into env sha pt meta body p fs s = (st, e, fs', s') \<Longrightarrow> same_books s s'"
  by (auto simp: receive_into_def same_books_def Let_def split: prod.splits if_splits)

definition folder_ok :: "recv_session \<Rightarrow> bool" where
  "folder_ok s \<longleftrightarrow>
     (\<forall>r. folder_once s = Some (Some r) \<longrightarrow> (\<exists>dir names fs. new_folder_remapper dir names fs = Some r))"

text \<open>Steps that leave the files of a session and their targets alone.\<close>

definition same_store :: "recv_session \<Rightarrow> recv_session \<Rightarrow> bool" where
  "same_store s s' \<longleftrightarrow>
     file_metas s' = file_metas s \<and> file_states s' = file_states s \<and> (folder_ok s \<longrightarrow> folder_ok s')"

lemma same_store_trans: "same_store s s' \<Longrightarrow> same_store s' s'' \<Longrightarrow> same_store s s''"
  by (simp add: same_store_def)

lemma prepare_store:
  assumes "prepare_folder_remap dir fs s = (ok, s')"
  shows "same_store s s'"
proof (cases "folder_once s")
  case None
  with assms have "s' = s\<lparr>folder_once := Some (new_folder_remapper dir
      (map (\<lambda>p. fm_name (snd p)) (file_metas s)) fs)\<rparr>"
    by (simp add: prepare_folder_remap_def Let_def)
  then show ?thesis by (auto simp: same_store_def folder_ok_def)
next
  case (Some r)
  with assms show ?thesis by (simp add: prepare_folder_remap_def same_store_def)
qed

lemma ensure_store: "ensure_save_dir env d fs s = (ok, fs', s') \<Longrightarrow> same_store s s'"
  by (auto simp: ensure_save_dir_def same_store_def folder_ok_def split: if_splits prod.splits bool.splits)

lemma receive_store: "receive_into env sha pt meta body p fs s = (st, e, fs', s') \<Longrightarrow> same_store s s'"
  by (auto simp: receive_into_def same_store_def folder_ok_def Let_def split: prod.splits if_splits)

lemma open_none_store: "open_target env full base target fid fs s = (None, s') \<Longrightarrow> same_store s s'"
  by (auto simp: open_target_def same_store_def folder_ok_def split: if_splits prod.splits option.splits)

text \<open>
  The two ways through \<open>save_body\<close>: it gives up before a file is open, or it receives into
  one.
\<close>

lemma save_body_cases:
  assumes "save_body env sha pt dir fid meta target body fs s = (st, out, fs', s')"
  obtains (early) e where "out = Inl e" "st = FileFailed" "only_dirs_added fs fs'" "same_books s s'" "same_store s s'"
  | (opened) p0 s1 fs2 s2 save_as fs3 s3 e where
      "sanitize_path_with_fallback (fm_name meta) = Inr p0"
      "prepare_folder_remap dir fs s = (True, s1)"
      "ensure_save_dir env (full_save_dir dir (apply_folder_remap s1 p0)) fs s1 = (True, fs2, s2)"
      "open_target env (full_save_dir dir (apply_folder_remap s1 p0))
         (path_base (apply_folder_remap s1 p0)) target fid fs2 s2 = (Some (save_as, fs3), s3)"
      "receive_into env sha pt meta body save_as fs3 s3 = (st, e, fs', s')"
      "out = (case e of None \<Rightarrow> Inr (saved_name (apply_folder_remap s1 p0) save_as, save_as)
                      | Some e' \<Rightarrow> Inl e')"
proof (cases "sanitize_path_with_fallback (fm_name meta)")
  case (Inl e)
  show ?thesis
    by (rule early [of ErrInvalidBody])
      (use assms Inl in \<open>simp_all add: save_body_def same_store_def\<close>)
next
  case (Inr p0)
  obtain ok1 s1 where 1: "prepare_folder_remap dir fs s = (ok1, s1)" by fastforce
  note b1 = prepare_books [OF 1] prepare_store [OF 1]
  show ?thesis
  proof (cases ok1)
    case False
    show ?thesis
      by (rule early [of ErrFileIO]) (use assms Inr 1 b1 False in \<open>simp_all add: save_body_def\<close>)
  next
    case ok1: True
    let ?p = "apply_folder_remap s1 p0"
    obtain ok2 fs2 s2 where 2: "ensure_save_dir env (full_save_dir dir ?p) fs s1 = (ok2, fs2, s2)"
      by (metis prod_cases3)
    note b2 = ensure_books [OF 2]
    obtain r s3 where 3: "open_target env (full_save_dir dir ?p) (path_base ?p) target fid fs2 s2 = (r, s3)"
      by fastforce
    have b3: "same_books s s2" "same_books s s3"
      using b1 b2 open_books [OF 3] same_books_trans by blast+
    have t2: "same_store s s2"
      using b1(2) ensure_store [OF 2] same_store_trans by blast
    show ?thesis
    proof (cases "ok2 \<and> r \<noteq> None")
      case False
      with assms Inr 1 ok1 2 3 have "out = Inl ErrFileIO" "st = FileFailed" "fs' = fs2"
        "s' = (if ok2 then s3 else s2)"
        by (cases ok2; cases r; auto simp: save_body_def Let_def)+
      moreover have "same_store s s3" if ok2
      proof -
        from False that have "r = None" by blast
        with 3 have "same_store s2 s3" using open_none_store by simp
        with t2 show ?thesis by (rule same_store_trans)
      qed
      ultimately show ?thesis
        using b2 b3 t2 early [of ErrFileIO] False by (auto split: if_splits)
    next
      case True
      then obtain save_as fs3 where r: "r = Some (save_as, fs3)" by fastforce
      obtain st4 e4 fs4 s4 where 4: "receive_into env sha pt meta body save_as fs3 s3 = (st4, e4, fs4, s4)"
        by (metis prod_cases4)
      from assms Inr 1 ok1 2 3 4 True r
      have "st = st4" "fs' = fs4" "s' = s4"
        "out = (case e4 of None \<Rightarrow> Inr (saved_name ?p save_as, save_as) | Some e' \<Rightarrow> Inl e')"
        by (simp_all add: save_body_def Let_def split: option.splits)
      with opened Inr 1 ok1 2 3 4 True r show ?thesis by auto
    qed
  qed
qed

lemma save_body_books:
  assumes "save_body env sha pt dir fid meta target body fs s = (st, out, fs', s')"
  shows "same_books s s'"
  using assms
proof (cases rule: save_body_cases)
  case early
  then show ?thesis by simp
next
  case (opened p0 s1 fs2 s2 save_as fs3 s3 e)
  then show ?thesis
    using prepare_books ensure_books open_books receive_books same_books_trans by meson
qed

text \<open>The file a target opens is new, whether it is a first attempt or a retry.\<close>

lemma open_target_fresh:
  assumes "open_target env full base target fid fs s = (Some (p, fs'), s')"
  shows "fs p = None \<and> fs' = fs(p \<mapsto> File [] None)"
proof (cases "target = []")
  case True
  with assms have "fst (alloc_create env full base (unique_files s) fs) = Some (p, fs')"
    by (auto simp: open_target_def split: prod.splits option.splits)
  then show ?thesis by (rule hinted.fresh)
next
  case False
  with assms have "reopen_excl env target fs = Some (p, fs')" by (simp add: open_target_def)
  then show ?thesis by (rule reopened.fresh)
qed

lemma receive_into_stored:
  assumes "receive_into env sha pt meta body p fs s = (st, None, fs', s')"
    and "fs = fs0(p \<mapsto> File [] None)" "int64_range (fm_size meta)"
  shows "st = FileFinished \<and> (\<exists>t. fs' = fs0(p \<mapsto> File (received (body_chunks body)) t)) \<and>
    int (length (received (body_chunks body))) = fm_size meta \<and> \<not> body_err body \<and>
    (fm_checksum meta \<noteq> [] \<longrightarrow> hex_equal_fold (sha (received (body_chunks body))) (fm_checksum meta))"
proof -
  obtain cs l where cs: "limited_read (wrap64 (fm_size meta + 1)) (body_chunks body) = (cs, l)"
    by fastforce
  from assms(1) cs have *: "\<not> (body_err body \<and> \<not> l)" "int (length (received cs)) = fm_size meta"
    "fm_checksum meta \<noteq> [] \<longrightarrow> hex_equal_fold (sha (received cs)) (fm_checksum meta)" "st = FileFinished"
    "fs' = apply_file_times env pt (fm_metadata meta) p (write_file p (received cs) fs)"
    by (auto simp: receive_into_def Let_def split: if_splits)
  have r: "received cs = received (body_chunks body)" "\<not> l"
    using limited_read_exact [OF cs assms(3) *(2)] by auto
  have "\<exists>t. fs' = fs0(p \<mapsto> File (received cs) t)"
    using *(5) assms(2)
    by (auto simp: apply_file_times_def chtimes_def write_file_def split: option.splits)
  with * r show ?thesis by auto
qed

lemma receive_into_undone:
  assumes "receive_into env sha pt meta body p fs s = (st, Some e, fs', s')"
    and "fs = fs0(p \<mapsto> File [] None)" "fs0 p = None" "\<not> remove_fails env"
  shows "fs' = fs0 \<and> st \<noteq> FileFinished"
proof -
  obtain cs l where cs: "limited_read (wrap64 (fm_size meta + 1)) (body_chunks body) = (cs, l)"
    by fastforce
  from assms(1) cs have "fs' = remove_file env p (write_file p (take (partial_write env) (received cs)) fs)"
    "st \<noteq> FileFinished"
    by (auto simp: receive_into_def Let_def split: if_splits)
  with assms(2-4) show ?thesis by (auto simp: remove_file_def write_file_def)
qed

subsection \<open>Where a file may be stored\<close>

lemma below_trans: "below d e \<Longrightarrow> below e p \<Longrightarrow> below d p"
  unfolding below_def by (metis Un_iff append.assoc append_is_Nil_conv set_append)

lemma full_save_dir_below:
  assumes "safe_rel p" "dir \<noteq> []"
  shows "full_save_dir dir p \<noteq> [] \<and> (full_save_dir dir p = dir \<or> below dir (full_save_dir dir p))"
proof (cases "path_dir p \<noteq> ''.'' \<and> path_dir p \<noteq> []")
  case True
  then have "safe_rel (path_dir p)" using safe_rel_dir [OF assms(1)] by simp
  with True assms(2) show ?thesis
    by (auto simp: full_save_dir_def Let_def path_join_below path_join_neq_Nil)
next
  case False
  with assms(2) show ?thesis by (auto simp: full_save_dir_def Let_def)
qed

definition targets_ok :: "(string \<Rightarrow> string) \<Rightarrow> recv_session \<Rightarrow> bool" where
  "targets_ok D s \<longleftrightarrow>
     (\<forall>fid st. map_of (file_states s) fid = Some st \<longrightarrow> us_target st = [] \<or> below (D fid) (us_target st))"

text \<open>
  \<open>store_ok\<close> collects what a session keeps about its directories: \<open>D fid\<close> is the save
  directory the caller chooses for file \<open>fid\<close>.
\<close>

definition store_ok :: "(string \<Rightarrow> string) \<Rightarrow> recv_session \<Rightarrow> bool" where
  "store_ok D s \<longleftrightarrow> folder_ok s \<and> targets_ok D s \<and>
     (\<forall>fid meta. map_of (file_metas s) fid = Some meta \<longrightarrow> int64_range (fm_size meta))"

lemma apply_remap_safe: "folder_ok s \<Longrightarrow> safe_rel p \<Longrightarrow> safe_rel (apply_folder_remap s p)"
  using remap_apply_safe by (auto simp: apply_folder_remap_def folder_ok_def split: option.split)

lemma same_store_ok: "same_store s s' \<Longrightarrow> store_ok D s \<Longrightarrow> store_ok D s'"
  by (simp add: same_store_def store_ok_def targets_ok_def)

lemma store_ok_update:
  "store_ok D s \<Longrightarrow> us_target st = [] \<or> below (D fid) (us_target st) \<Longrightarrow>
     store_ok D (s\<lparr>file_states := AList.update fid st (file_states s)\<rparr>)"
  by (auto simp: store_ok_def folder_ok_def targets_ok_def update_conv')

lemma set_target_store: "store_ok D s \<Longrightarrow> below (D fid) p \<Longrightarrow> store_ok D (set_target fid p s)"
  by (auto simp: set_target_def store_ok_update split: option.split)

lemma open_target_store:
  assumes "open_target env full base target fid fs s = (r, s')" "store_ok D s"
    and "safe_rel p" "full = full_save_dir (D fid) p" "base = path_base p" "D fid \<noteq> []"
    and "target = [] \<or> below (D fid) target"
  shows "store_ok D s' \<and> (\<forall>q fs'. r = Some (q, fs') \<longrightarrow> below (D fid) q)"
proof (cases "target = []")
  case False
  with assms(1,2,7) show ?thesis by (auto simp: open_target_def reopen_excl_def split: sum.splits)
next
  case True
  obtain x a where al: "alloc_create env full base (unique_files s) fs = (x, a)" by fastforce
  have a: "store_ok D (s\<lparr>unique_files := a\<rparr>)" using assms(2) by (simp add: store_ok_def targets_ok_def folder_ok_def)
  show ?thesis
  proof (cases x)
    case None
    with True al a assms(1) show ?thesis by (auto simp: open_target_def)
  next
    case (Some y)
    obtain q fs1 where y: "y = (q, fs1)" by fastforce
    have full: "full \<noteq> []" "full = D fid \<or> below (D fid) full"
      using full_save_dir_below [OF assms(3,6)] assms(4) by auto
    have "plain_comp base" using path_base_safe(2) [OF assms(3)] assms(5) by simp
    then have "below full q"
      using alloc_create_below [of env full base "unique_files s" fs q fs1] al Some y full(1) by simp
    with full(2) have q: "below (D fid) q" using below_trans by auto
    with True al a Some y assms(1) set_target_store [OF a q] show ?thesis
      by (auto simp: open_target_def)
  qed
qed

lemma save_body_store:
  assumes "save_body env sha pt (D fid) fid meta target body fs s = (st, out, fs', s')"
    and "store_ok D s" "D fid \<noteq> []" "target = [] \<or> below (D fid) target"
  shows "store_ok D s' \<and> (\<forall>name p. out = Inr (name, p) \<longrightarrow> below (D fid) p)"
  using assms(1)
proof (cases rule: save_body_cases)
  case early
  with assms(2) same_store_ok show ?thesis by blast
next
  case (opened p0 s1 fs2 s2 save_as fs3 s3 e)
  have 1: "store_ok D s1" using prepare_store [OF opened(2)] assms(2) same_store_ok by blast
  then have 2: "store_ok D s2" using ensure_store [OF opened(3)] same_store_ok by blast
  have "safe_rel (apply_folder_remap s1 p0)"
    using 1 fallback_ok_safe [OF opened(1)] apply_remap_safe by (auto simp: store_ok_def)
  from open_target_store [OF opened(4) 2 this refl refl assms(3,4)]
  have "store_ok D s3" "below (D fid) save_as" by blast+
  with receive_store [OF opened(5)] same_store_ok opened(6) show ?thesis
    by (auto split: option.splits)
qed

subsection \<open>\<open>SaveFile\<close> as a whole\<close>

lemma save_file_cases:
  assumes "save_file env sha pt dir fid token ip body fs s = (out, fs', s')"
  obtains (refused) e where "save_begin fid token ip s = (Inl e, s)" "out = Inl e" "fs' = fs" "s' = s"
  | (claimed) meta target s1 st s2 where
      "save_begin fid token ip s = (Inr (meta, target), s1)"
      "save_body env sha pt dir fid meta target body fs s1 = (st, out, fs', s2)"
      "s' = finish_file_attempt fid st s2"
proof (cases "save_begin fid token ip s")
  case (Pair r s1)
  show ?thesis
  proof (cases r)
    case (Inl e)
    with Pair save_begin_refused [of fid token ip s e s1] assms show ?thesis
      by (intro refused [of e]) (auto simp: save_file_def)
  next
    case (Inr x)
    obtain meta target where x: "x = (meta, target)" by fastforce
    obtain st out' fs1 s2 where
      "save_body env sha pt dir fid meta target body fs s1 = (st, out', fs1, s2)"
      by (metis prod_cases4)
    with Pair Inr x assms show ?thesis
      by (intro claimed [of meta target s1 st s2]) (auto simp: save_file_def)
  qed
qed

lemma begin_store:
  assumes "save_begin fid token ip s = (Inr (meta, target), s')" "store_ok D s"
  shows "store_ok D s' \<and> (target = [] \<or> below (D fid) target) \<and> int64_range (fm_size meta)"
proof -
  obtain st where *: "map_of (file_metas s) fid = Some meta" "map_of (file_states s) fid = Some st"
    "us_target st = target" "s' = s\<lparr>file_states := AList.update fid
        (st\<lparr>us_status := FileInProgress, us_attempts := (us_attempts st + 1) mod 256\<rparr>) (file_states s)\<rparr>"
    using save_begin_ok [OF assms(1)] by metis
  then have "us_target st = [] \<or> below (D fid) (us_target st)"
    using assms(2) by (auto simp: store_ok_def targets_ok_def)
  with * assms(2) show ?thesis
    by (auto intro!: store_ok_update simp: store_ok_def [of D s])
qed

lemma finish_store: "store_ok D s \<Longrightarrow> store_ok D (finish_file_attempt fid res s)"
proof -
  assume ok: "store_ok D s"
  have c: "store_ok D (s\<lparr>files_count := n, started := b\<rparr>) = store_ok D s" for n b s
    by (simp add: store_ok_def folder_ok_def targets_ok_def)
  have c': "store_ok D (s\<lparr>files_count := n\<rparr>) = store_ok D s" for n s
    by (simp add: store_ok_def folder_ok_def targets_ok_def)
  show ?thesis
  proof (cases "map_of (file_states s) fid")
    case None
    with ok show ?thesis by (simp add: finish_file_attempt_def)
  next
    case (Some st)
    with ok have "us_target st = [] \<or> below (D fid) (us_target st)"
      by (auto simp: store_ok_def targets_ok_def)
    then have "store_ok D (s\<lparr>file_states := AList.update fid (st\<lparr>us_status := x\<rparr>) (file_states s)\<rparr>)" for x
      by (intro store_ok_update [OF ok]) simp
    with Some ok show ?thesis
      by (auto simp: finish_file_attempt_def end_session_def Let_def store_ok_def folder_ok_def targets_ok_def)
  qed
qed

text \<open>Every call of \<open>SaveFile\<close> keeps the books and the directories of a session in order.\<close>

lemma same_books_inv:
  assumes "same_books s s'" "sess_inv s"
  shows "sess_inv s'"
proof -
  have f: "map fst (file_states s') = map fst (file_states s)"
    and g: "map (\<lambda>p. (us_status (snd p), us_attempts (snd p))) (file_states s') =
      map (\<lambda>p. (us_status (snd p), us_attempts (snd p))) (file_states s)"
    using assms(1) by (simp_all add: same_books_def)
  have len: "length (file_states s') = length (file_states s)" using f by (metis length_map)
  have nth: "us_status (snd (file_states s' ! i)) = us_status (snd (file_states s ! i)) \<and>
      us_attempts (snd (file_states s' ! i)) = us_attempts (snd (file_states s ! i)) \<and>
      fst (file_states s' ! i) = fst (file_states s ! i)" if "i < length (file_states s)" for i
    using arg_cong [OF f, of "\<lambda>l. l ! i"] arg_cong [OF g, of "\<lambda>l. l ! i"] that len by simp
  have d: "dom (map_of (file_states s')) = dom (map_of (file_states s))"
    using f by (simp add: dom_map_of_conv_image_fst flip: set_map)
  have "open_files s' = length (filter (\<lambda>x. fst x = FilePending \<or> fst x = FileInProgress)
      (map (\<lambda>p. (us_status (snd p), us_attempts (snd p))) (file_states s')))"
    by (simp add: open_files_def count_vals_def is_open_def filter_map o_def)
  also have "\<dots> = open_files s"
    unfolding g by (simp add: open_files_def count_vals_def is_open_def filter_map o_def)
  finally have o: "open_files s' = open_files s" .
  have a: "attempts_ok st" if "map_of (file_states s') fid = Some st" for fid st
  proof -
    from that have "(fid, st) \<in> set (file_states s')" by (rule map_of_SomeD)
    then obtain i where i: "i < length (file_states s')" "file_states s' ! i = (fid, st)"
      by (auto simp: in_set_conv_nth)
    let ?st = "snd (file_states s ! i)"
    have "(fid, ?st) \<in> set (file_states s)"
      using i len nth [of i] by (metis fst_conv nth_mem prod.collapse)
    then have "map_of (file_states s) fid = Some ?st"
      using assms(2) by (auto simp: sess_inv_def map_of_eq_Some_iff)
    then have "attempts_ok ?st" using assms(2) by (auto simp: sess_inv_def)
    with nth [of i] i len show ?thesis by (simp add: attempts_ok_def)
  qed
  from assms d o a show ?thesis by (simp add: sess_inv_def same_books_def)
qed

lemma save_file_keeps:
  assumes "save_file env sha pt (D fid) fid token ip body fs s = (out, fs', s')" "D fid \<noteq> []"
    and "store_ok D s" "sess_inv s"
  shows "store_ok D s' \<and> sess_inv s'"
  using assms(1)
proof (cases rule: save_file_cases)
  case refused
  with assms(3,4) show ?thesis by simp
next
  case (claimed meta target s1 st s2)
  from begin_store [OF claimed(1) assms(3)] have "store_ok D s1" "target = [] \<or> below (D fid) target"
    by auto
  with save_body_store [where D = D, OF claimed(2)] assms(2) have "store_ok D s2" by blast
  moreover have "sess_inv s2"
    using same_books_inv [OF save_body_books [OF claimed(2)] save_begin_inv [OF claimed(1) assms(4)]] .
  ultimately show ?thesis using claimed(3) finish_store finish_inv by simp
qed

subsection \<open>Sessions as state machines\<close>

text \<open>
  The steps at which the lock is held: claiming a file, booking a result, ending the session.
  A run is any interleaving of them, as concurrent uploads and a cancellation produce it.
\<close>

datatype sess_event = Claim string string string | Book string upload_status | Kill

fun sess_event_step :: "sess_event \<Rightarrow> recv_session \<Rightarrow> recv_session" where
  "sess_event_step (Claim fid token ip) s = snd (save_begin fid token ip s)"
| "sess_event_step (Book fid res) s = finish_file_attempt fid res s"
| "sess_event_step Kill s = snd (end_session s)"

fun sess_run :: "sess_event list \<Rightarrow> recv_session \<Rightarrow> recv_session" where
  "sess_run [] s = s"
| "sess_run (e # es) s = sess_run es (sess_event_step e s)"

fun claims_ok :: "string \<Rightarrow> sess_event \<Rightarrow> recv_session \<Rightarrow> bool" where
  "claims_ok fid (Claim f token ip) s \<longleftrightarrow> f = fid \<and> \<not> isl (fst (save_begin f token ip s))"
| "claims_ok fid (Book f res) s \<longleftrightarrow> False"
| "claims_ok fid Kill s \<longleftrightarrow> False"

fun claim_count :: "string \<Rightarrow> sess_event list \<Rightarrow> recv_session \<Rightarrow> nat" where
  "claim_count fid [] s = 0"
| "claim_count fid (e # es) s =
     (if claims_ok fid e s then 1 else 0) + claim_count fid es (sess_event_step e s)"

definition attempts_of :: "string \<Rightarrow> recv_session \<Rightarrow> nat" where
  "attempts_of fid s = (case map_of (file_states s) fid of None \<Rightarrow> 0 | Some st \<Rightarrow> us_attempts st)"

lemma event_inv: "sess_inv s \<Longrightarrow> sess_inv (sess_event_step e s)"
proof (cases e)
  case (Claim fid token ip)
  assume inv: "sess_inv s"
  obtain r s' where r: "save_begin fid token ip s = (r, s')" by fastforce
  show ?thesis
  proof (cases r)
    case (Inl x)
    with r save_begin_refused [of fid token ip s x s'] inv Claim show ?thesis by simp
  next
    case (Inr x)
    with r save_begin_inv [of fid token ip s x s'] inv Claim show ?thesis by simp
  qed
qed (simp_all add: finish_inv end_session_inv)

lemma run_inv: "sess_inv s \<Longrightarrow> sess_inv (sess_run es s)"
  by (induction es arbitrary: s) (simp_all add: event_inv)

lemma attempts_le: "sess_inv s \<Longrightarrow> attempts_of fid s \<le> max_checksum_attempts"
  by (auto simp: attempts_of_def sess_inv_def attempts_ok_def split: option.split)

lemma event_attempts:
  assumes "sess_inv s"
  shows "attempts_of fid (sess_event_step e s) = attempts_of fid s + (if claims_ok fid e s then 1 else 0)"
proof (cases e)
  case (Claim f token ip)
  obtain r s' where r: "save_begin f token ip s = (r, s')" by fastforce
  show ?thesis
  proof (cases r)
    case (Inl x)
    with r save_begin_refused [of f token ip s x s'] Claim show ?thesis by auto
  next
    case (Inr x)
    obtain meta target where x: "x = (meta, target)" by fastforce
    obtain st where st: "map_of (file_states s) f = Some st"
      "s' = s\<lparr>file_states := AList.update f
        (st\<lparr>us_status := FileInProgress, us_attempts := (us_attempts st + 1) mod 256\<rparr>) (file_states s)\<rparr>"
      using save_begin_ok [of f token ip s meta target s'] r Inr x by metis
    have "attempts_ok st" using assms st(1) by (auto simp: sess_inv_def)
    then have "us_attempts st \<le> 3" by (simp add: attempts_ok_def max_checksum_attempts_def)
    with st r Inr Claim show ?thesis
      by (auto simp: attempts_of_def update_conv')
  qed
next
  case (Book f res)
  then show ?thesis
    by (auto simp: attempts_of_def finish_file_attempt_def end_session_def Let_def
        update_conv' split: option.splits)
next
  case Kill
  then show ?thesis by (simp add: attempts_of_def end_session_def)
qed

lemma claim_count_attempts:
  "sess_inv s \<Longrightarrow> claim_count fid es s + attempts_of fid s = attempts_of fid (sess_run es s)"
proof (induction es arbitrary: s)
  case Nil
  then show ?case by simp
next
  case (Cons e es)
  have "claim_count fid es (sess_event_step e s) + attempts_of fid (sess_event_step e s) =
      attempts_of fid (sess_run es (sess_event_step e s))"
    using Cons.IH event_inv [OF Cons.prems] by blast
  with event_attempts [OF Cons.prems, of fid e] show ?case by (cases "claims_ok fid e s") simp_all
qed

lemma event_done:
  assumes "sess_inv s" "e \<noteq> Kill" "\<not> started s \<longrightarrow> open_files s = 0"
  shows "\<not> started (sess_event_step e s) \<longrightarrow> open_files (sess_event_step e s) = 0"
proof (cases e)
  case (Claim fid token ip)
  obtain r s' where r: "save_begin fid token ip s = (r, s')" by fastforce
  show ?thesis
  proof (cases r)
    case (Inl x)
    with r save_begin_refused [of fid token ip s x s'] assms(3) Claim show ?thesis by simp
  next
    case (Inr x)
    obtain meta target where x: "x = (meta, target)" by fastforce
    from r Inr x have "save_begin fid token ip s = (Inr (meta, target), s')" by simp
    then have "started s'" by (rule save_begin_ok) simp
    with r Claim show ?thesis by simp
  qed
next
  case (Book fid res)
  show ?thesis
  proof (cases "\<exists>st. map_of (file_states s) fid = Some st \<and> us_status st = FileInProgress")
    case False
    then have "finish_file_attempt fid res s = s"
      by (auto simp: finish_file_attempt_def split: option.splits)
    with assms(3) Book show ?thesis by simp
  next
    case True
    then obtain st where st: "map_of (file_states s) fid = Some st" "us_status st = FileInProgress" by blast
    have wf: "gm_wf (file_states s)" using assms(1) by (simp add: sess_inv_def)
    have "(fid, st) \<in> set (file_states s)" using st(1) by (rule map_of_SomeD)
    moreover have "is_open st" using st(2) by (simp add: is_open_def)
    ultimately have "0 < open_files s"
      unfolding open_files_def count_vals_pos_iff [OF wf] using st(1) by blast
    then have on: "started s" using assms(3) by auto
    then have cnt: "files_count s = int (open_files s)" using assms(1) by (simp add: sess_inv_def)
    let ?st = "st\<lparr>us_status := (if res = FileFinished then FileFinished else FileFailed)\<rparr>"
    have o: "int (count_vals is_open (AList.update fid ?st (file_states s))) = files_count s - 1"
      using open_files_update [OF wf st(1), of ?st] st(2) cnt by (simp add: is_open_def open_files_def)
    show ?thesis
    proof (cases "res = FilePending \<and> us_attempts st < max_checksum_attempts")
      case True
      with st on Book show ?thesis by (simp add: finish_file_attempt_def)
    next
      case False
      with st have f: "finish_file_attempt fid res s =
          (let s' = s\<lparr>file_states := AList.update fid ?st (file_states s), files_count := files_count s - 1\<rparr>
           in if files_count s' = 0 then snd (end_session s') else s')"
        by (auto simp: finish_file_attempt_def Let_def)
      show ?thesis
      proof (cases "files_count s = 1")
        case True
        with o have "count_vals is_open (AList.update fid ?st (file_states s)) = 0" by simp
        then show ?thesis
          unfolding Book sess_event_step.simps f
          by (simp only: open_files_def end_session_def Let_def) (simp add: True on)
      next
        case False
        with on show ?thesis
          unfolding Book sess_event_step.simps f by (simp only: Let_def) simp
      qed
    qed
  qed
qed (use assms in simp)

lemma run_done:
  "sess_inv s \<Longrightarrow> Kill \<notin> set es \<Longrightarrow> \<not> started s \<longrightarrow> open_files s = 0 \<Longrightarrow>
     \<not> started (sess_run es s) \<longrightarrow> open_files (sess_run es s) = 0"
proof (induction es arbitrary: s)
  case Nil
  then show ?case by simp
next
  case (Cons e es)
  from Cons.prems have "e \<noteq> Kill" "Kill \<notin> set es" by auto
  with Cons.IH [OF event_inv [OF Cons.prems(1)]] event_done [OF Cons.prems(1) _ Cons.prems(3)]
  show ?case by simp
qed

subsection \<open>A session to try the properties on\<close>

definition demo_meta :: file_meta where
  "demo_meta = \<lparr>fm_id = ''f'', fm_name = ''../x/a.txt'', fm_size = 2, fm_type = ''text/plain'',
     fm_checksum = ''AB'', fm_preview = [], fm_metadata = None\<rparr>"

definition demo_session :: recv_session where
  "demo_session = start_session (snd (accept_file ''tok'' ''f'' demo_meta (new_recv_session 0 ''s'' ''10.0.0.2'')))"

definition demo_fs :: filesys where
  "demo_fs = [''/b'' \<mapsto> Dir, ''/b/a.txt'' \<mapsto> File ''old'' None]"

definition demo_sha :: "bytes \<Rightarrow> string" where
  "demo_sha b = (if b = ''hi'' then ''ab'' else ''cd'')"

definition demo_body :: "bytes \<Rightarrow> upload_body" where
  "demo_body b = \<lparr>body_chunks = [(5, b)], body_err = False\<rparr>"

definition demo_save ::
    "string \<Rightarrow> bytes \<Rightarrow> (ls_error + string \<times> string) \<times> filesys \<times> recv_session" where
  "demo_save ip b = save_file no_faults demo_sha (\<lambda>_. None) ''/b'' ''f'' ''tok'' ip (demo_body b) demo_fs demo_session"

lemma demo_session_eq:
  "demo_session = \<lparr>files_count = 1, last_activity = 0, file_metas = [(''f'', demo_meta)],
      file_tokens = [(''f'', ''tok'')],
      file_states = [(''f'', \<lparr>us_status = FilePending, us_attempts = 0, us_target = []\<rparr>)],
      sess_id = ''s'', client_ip = ''10.0.0.2'', started = True, folder_once = None, folder_cached = None,
      ensured_dirs = [], unique_files = []\<rparr>"
  by (simp add: demo_session_def start_session_def accept_file_def new_recv_session_def demo_meta_def
      max_files_per_session_def)

lemma demo_inv: "sess_inv demo_session \<and> started demo_session"
  unfolding demo_session_eq
  by (simp add: sess_inv_def open_files_def count_vals_def is_open_def attempts_ok_def
      max_checksum_attempts_def)

lemma demo_store: "store_ok (\<lambda>_. ''/b'') demo_session"
  unfolding demo_session_eq
  by (simp add: store_ok_def folder_ok_def targets_ok_def demo_meta_def int64_range_def)

text \<open>A successful \<open>SaveFile\<close> stored the whole request body.\<close>

lemma save_file_stored:
  assumes "save_file env sha pt (D fid) fid token ip body fs s = (Inr (name, p), fs', s')"
    and "store_ok D s" "D fid \<noteq> []"
  shows "\<exists>meta st t. map_of (file_metas s) fid = Some meta \<and> map_of (file_tokens s) fid = Some token \<and>
    map_of (file_states s) fid = Some st \<and> us_status st = FilePending \<and> started s \<and>
    (client_ip s = [] \<or> ip = client_ip s) \<and>
    fs' p = Some (File (received (body_chunks body)) t) \<and> \<not> body_err body \<and>
    int (length (received (body_chunks body))) = fm_size meta \<and>
    (fm_checksum meta \<noteq> [] \<longrightarrow> hex_equal_fold (sha (received (body_chunks body))) (fm_checksum meta)) \<and>
    fs p = None \<and> below (D fid) p \<and>
    (\<forall>q. q \<noteq> p \<longrightarrow> fs' q = fs q \<or> (fs q = None \<and> fs' q = Some Dir))"
  using assms(1)
proof (cases rule: save_file_cases)
  case refused
  then show ?thesis by simp
next
  case (claimed meta target s1 st s2)
  obtain us where us: "map_of (file_metas s) fid = Some meta" "map_of (file_tokens s) fid = Some token"
    "map_of (file_states s) fid = Some us" "us_status us = FilePending" "started s"
    "client_ip s = [] \<or> ip = client_ip s"
    using save_begin_ok [OF claimed(1)] by metis
  note b = begin_store [OF claimed(1) assms(2)]
  have p: "below (D fid) p"
    using save_body_store [where D = D, OF claimed(2)] b assms(3) by blast
  show ?thesis
    using claimed(2)
  proof (cases rule: save_body_cases)
    case (opened p0 t1 fs2 t2 save_as fs3 t3 e)
    from opened(6) have e: "e = None" "save_as = p" by (auto split: option.splits)
    note f = open_target_fresh [OF opened(4)]
    have d: "only_dirs_added fs fs2" using ensure_books [OF opened(3)] by simp
    from receive_into_stored [OF opened(5) [unfolded e], of fs2] f b e(2) obtain t where
      r: "fs' = fs2(p \<mapsto> File (received (body_chunks body)) t)"
      "int (length (received (body_chunks body))) = fm_size meta" "\<not> body_err body"
      "fm_checksum meta \<noteq> [] \<longrightarrow> hex_equal_fold (sha (received (body_chunks body))) (fm_checksum meta)"
      by auto
    have n: "fs p = None" using only_dirs_None [OF d] f e(2) by simp
    have "fs' q = fs q \<or> (fs q = None \<and> fs' q = Some Dir)" if "q \<noteq> p" for q
      using d that by (simp add: r(1) only_dirs_added_def)
    with us p r n show ?thesis by (intro exI [of _ meta] exI [of _ us] exI [of _ t]) simp
  qed simp
qed

subsection \<open>Properties\<close>

text \<open>
  C11: What a stored file is. When \<open>SaveFile\<close> succeeds, the caller named a file of the session
  with its token, from the address that opened the session, while the session was running and
  the file was waiting; the stored content is the complete request body, of exactly the
  declared size and, when a checksum was announced, with that checksum; it lies strictly below
  the save directory, where nothing was before; and apart from new directories nothing else in
  the file system changed.
\<close>

theorem stored_upload_is_sound:
  assumes "save_file env sha pt (D fid) fid token ip body fs s = (Inr (name, p), fs', s')"
    and "store_ok D s" "D fid \<noteq> []"
  shows "\<exists>meta st t. map_of (file_metas s) fid = Some meta \<and> map_of (file_tokens s) fid = Some token \<and>
    map_of (file_states s) fid = Some st \<and> us_status st = FilePending \<and> started s \<and>
    (client_ip s = [] \<or> ip = client_ip s) \<and>
    fs' p = Some (File (received (body_chunks body)) t) \<and> \<not> body_err body \<and>
    int (length (received (body_chunks body))) = fm_size meta \<and>
    (fm_checksum meta \<noteq> [] \<longrightarrow> hex_equal_fold (sha (received (body_chunks body))) (fm_checksum meta)) \<and>
    fs p = None \<and> below (D fid) p \<and>
    (\<forall>q. q \<noteq> p \<longrightarrow> fs' q = fs q \<or> (fs q = None \<and> fs' q = Some Dir))"
  by (rule save_file_stored [OF assms])

theorem stored_upload_is_sound_witness:
  "\<exists>t. fst (snd (demo_save ''10.0.0.2'' ''hi'')) ''/b/a (1).txt'' = Some (File ''hi'' t) \<and>
     demo_fs ''/b/a (1).txt'' = None"
proof -
  have "fst (demo_save ''10.0.0.2'' ''hi'') = Inr (''a (1).txt'', ''/b/a (1).txt'')"
    by code_simp
  then have "save_file no_faults demo_sha (\<lambda>_. None) ((\<lambda>_. ''/b'') ''f'') ''f'' ''tok'' ''10.0.0.2''
      (demo_body ''hi'') demo_fs demo_session =
      (Inr (''a (1).txt'', ''/b/a (1).txt''), fst (snd (demo_save ''10.0.0.2'' ''hi'')),
       snd (snd (demo_save ''10.0.0.2'' ''hi'')))"
    unfolding demo_save_def by (metis prod.collapse)
  from stored_upload_is_sound [OF this demo_store] show ?thesis
    by (auto simp: demo_body_def)
qed

text \<open>
  C12: A failed upload leaves no trace. Whatever the reason \<open>SaveFile\<close> fails for (refusal, a
  short, long or broken body, a full disk, a wrong checksum), every file is as it was and none
  is left behind; only directories may have been created. The one exception is an operating
  system that refuses to remove the partial file.
\<close>

theorem failed_upload_leaves_no_trace:
  assumes "save_file env sha pt dir fid token ip body fs s = (Inl e, fs', s')" "\<not> remove_fails env"
  shows "\<forall>q. fs' q = fs q \<or> (fs q = None \<and> fs' q = Some Dir)"
  using assms(1)
proof (cases rule: save_file_cases)
  case refused
  then show ?thesis by simp
next
  case (claimed meta target s1 st s2)
  have "only_dirs_added fs fs'"
    using claimed(2)
  proof (cases rule: save_body_cases)
    case early
    then show ?thesis by simp
  next
    case (opened p0 t1 fs2 t2 save_as fs3 t3 e')
    from opened(6) obtain x where x: "e' = Some x" by (auto split: option.splits)
    note f = open_target_fresh [OF opened(4)]
    have "fs' = fs2"
      using receive_into_undone [OF opened(5) [unfolded x], of fs2] f assms(2) by simp
    then show ?thesis using ensure_books [OF opened(3)] by simp
  qed
  then show ?thesis by (simp add: only_dirs_added_def)
qed

theorem failed_upload_leaves_no_trace_witness:
  "fst (snd (demo_save ''10.0.0.2'' ''ho'')) ''/b/a (1).txt'' \<noteq> Some (File ''ho'' None)"
proof -
  have "fst (demo_save ''10.0.0.2'' ''ho'') = Inl ErrChecksum"
    by code_simp
  then have "save_file no_faults demo_sha (\<lambda>_. None) ''/b'' ''f'' ''tok'' ''10.0.0.2''
      (demo_body ''ho'') demo_fs demo_session =
      (Inl ErrChecksum, fst (snd (demo_save ''10.0.0.2'' ''ho'')), snd (snd (demo_save ''10.0.0.2'' ''ho'')))"
    unfolding demo_save_def by (metis prod.collapse)
  from failed_upload_leaves_no_trace [OF this] show ?thesis
    by (auto simp: no_faults_def demo_fs_def dest: spec [of _ "''/b/a (1).txt''"])
qed

text \<open>
  Only the sender that opened the session can upload. Without the right address, the token
  of a waiting file and a running session, \<open>SaveFile\<close> fails with \<open>ErrInvalidBody\<close> or
  \<open>ErrRejected\<close> and changes neither the files nor the session; so a file that is being received,
  is finished or has failed cannot be uploaded again.
\<close>

theorem unauthorised_upload_rejected:
  assumes "client_ip s \<noteq> [] \<and> ip \<noteq> client_ip s \<or> map_of (file_tokens s) fid \<noteq> Some token \<or>
      \<not> started s \<or> (\<forall>st. map_of (file_states s) fid = Some st \<longrightarrow> us_status st \<noteq> FilePending)"
  shows "\<exists>e \<in> {ErrInvalidBody, ErrRejected}.
      save_file env sha pt dir fid token ip body fs s = (Inl e, fs, s)"
proof (cases "save_begin fid token ip s")
  case (Pair r s1)
  show ?thesis
  proof (cases r)
    case (Inl e)
    with Pair save_begin_refused [of fid token ip s e s1] show ?thesis
      by (auto simp: save_file_def)
  next
    case (Inr x)
    obtain meta target where "x = (meta, target)" by fastforce
    with Pair Inr have "save_begin fid token ip s = (Inr (meta, target), s1)" by simp
    from save_begin_ok [OF this] assms show ?thesis by metis
  qed
qed

theorem unauthorised_upload_rejected_witness:
  "\<exists>e \<in> {ErrInvalidBody, ErrRejected}. demo_save ''10.0.0.3'' ''hi'' = (Inl e, demo_fs, demo_session)"
proof -
  have "client_ip demo_session = ''10.0.0.2''" by code_simp
  then show ?thesis
    unfolding demo_save_def by (intro unauthorised_upload_rejected) simp
qed

text \<open>
  At most three attempts. However requests are interleaved, a file of a session is claimed
  for an upload at most three times in all, so a wrong checksum can be retried twice.
\<close>

theorem upload_attempts_bounded:
  assumes "sess_inv s"
  shows "claim_count fid es s \<le> max_checksum_attempts"
  using claim_count_attempts [OF assms, of fid es] attempts_le [OF run_inv [OF assms], of fid es]
  by simp

theorem upload_attempts_bounded_witness:
  "claim_count ''f''
     (concat (replicate 5 [Claim ''f'' ''tok'' ''10.0.0.2'', Book ''f'' FilePending])) demo_session \<le> 3 \<and>
   claim_count ''f''
     (concat (replicate 5 [Claim ''f'' ''tok'' ''10.0.0.2'', Book ''f'' FilePending])) demo_session = 3"
proof -
  have "claim_count ''f''
     (concat (replicate 5 [Claim ''f'' ''tok'' ''10.0.0.2'', Book ''f'' FilePending])) demo_session = 3"
    by code_simp
  with upload_attempts_bounded [of demo_session] demo_inv show ?thesis
    by (simp add: max_checksum_attempts_def)
qed

text \<open>
  A session ends with its last file. As long as nobody cancels it, a session that was
  started runs exactly while some file is still waiting or being received, whatever the order
  of claims and results.
\<close>

theorem session_ends_with_last_file:
  assumes "sess_inv s" "started s" "Kill \<notin> set es"
  shows "started (sess_run es s) \<longleftrightarrow>
    (\<exists>fid st. map_of (file_states (sess_run es s)) fid = Some st \<and>
       (us_status st = FilePending \<or> us_status st = FileInProgress))"
proof -
  have inv: "sess_inv (sess_run es s)" using assms(1) by (rule run_inv)
  then have wf: "gm_wf (file_states (sess_run es s))" by (simp add: sess_inv_def)
  have "started (sess_run es s) \<longleftrightarrow> 0 < open_files (sess_run es s)"
    using inv run_done [OF assms(1,3)] assms(2) by (auto simp: sess_inv_def)
  with count_vals_pos_iff [OF wf, of is_open] show ?thesis
    by (simp add: open_files_def is_open_def)
qed

theorem session_ends_with_last_file_witness:
  "\<not> started (sess_run [Claim ''f'' ''tok'' ''10.0.0.2'', Book ''f'' FileFinished] demo_session)"
proof -
  let ?es = "[Claim ''f'' ''tok'' ''10.0.0.2'', Book ''f'' FileFinished]"
  have "file_states (sess_run ?es demo_session) =
      [(''f'', \<lparr>us_status = FileFinished, us_attempts = 1, us_target = []\<rparr>)]"
    by code_simp
  with session_ends_with_last_file [of demo_session ?es] demo_inv show ?thesis
    by (auto split: if_splits)
qed

end
