(* ===== verification/Routing.thy ===== *)
theory Routing
  imports Unique_Files
begin

text \<open>
  Choosing a directory by file extension: the extension helpers of
  \<open>internal/utils/misc.go\<close> and \<open>ExtensionRouter\<close> of \<open>recv/routing.go\<close>. \<open>lower\<close> and \<open>trim\<close>
  stand for \<open>strings.ToLower\<close> and \<open>strings.TrimSpace\<close>, which depend on Unicode tables;
  nothing is assumed of them. A JSON object is the list of its entries in one order in which
  \<open>range\<close> may visit them.
\<close>

subsection \<open>Extension lists\<close>

definition parse_extension_list :: "(string \<Rightarrow> string) \<Rightarrow> (string \<Rightarrow> string) \<Rightarrow> string \<Rightarrow> string list" where
  "parse_extension_list lower trim s =
     (if s = [] then []
      else filter (\<lambda>e. e \<noteq> []) (map (\<lambda>e. trim (lower e)) (split_on (CHR '','') s)))"

text \<open>The scan from the last byte; \<open>acc\<close> is what has been passed.\<close>

fun ext_scan :: "(string \<Rightarrow> string) \<Rightarrow> string \<Rightarrow> string \<Rightarrow> string" where
  "ext_scan lower [] acc = []"
| "ext_scan lower (c # cs) acc =
     (if c = CHR ''.'' then (if acc = [] then [] else lower acc)
      else if c = sep \<or> c = CHR 0x5C then []
      else ext_scan lower cs (c # acc))"

definition get_file_extension :: "(string \<Rightarrow> string) \<Rightarrow> string \<Rightarrow> string" where
  "get_file_extension lower filename = ext_scan lower (rev filename) []"

definition is_extension_allowed :: "(string \<Rightarrow> string) \<Rightarrow> string \<Rightarrow> string list \<Rightarrow> bool" where
  "is_extension_allowed lower filename allowed =
     (if allowed = [] then True
      else let ext = get_file_extension lower filename
           in if ext = [] then False else ext \<in> set allowed)"

subsection \<open>The router\<close>

record extension_router =
  routes :: "(string, string) gomap"
  default_dir :: string

datatype route_error = RouteRead | RouteJson | RouteNotAbs string | RouteTraversal string

definition new_extension_router :: "string \<Rightarrow> extension_router" where
  "new_extension_router d = \<lparr>routes = [], default_dir = d\<rparr>"

text \<open>
  The loop over the entries. The router is changed in place, so a bad entry leaves the routes
  stored before it.
\<close>

fun load_routes ::
    "(string \<Rightarrow> string) \<Rightarrow> (string \<times> string) list \<Rightarrow> extension_router \<Rightarrow> route_error option \<times> extension_router" where
  "load_routes lower [] r = (None, r)"
| "load_routes lower ((ext0, dir) # es) r =
     (let ext = lower (trim_prefix ''.'' ext0)
      in if \<not> is_abs dir then (Some (RouteNotAbs ext), r)
         else if contains_str ''..'' dir then (Some (RouteTraversal ext), r)
         else load_routes lower es
                (if ext = ''default'' then r\<lparr>default_dir := path_clean dir\<rparr>
                 else r\<lparr>routes := AList.update ext (path_clean dir) (routes r)\<rparr>))"

text \<open>\<open>content\<close> is the file, absent when it cannot be read; \<open>decode\<close> is \<open>json.Unmarshal\<close>.\<close>

definition load_from_file ::
    "(string \<Rightarrow> string) \<Rightarrow> (bytes \<Rightarrow> (string \<times> string) list option) \<Rightarrow> bytes option \<Rightarrow>
     extension_router \<Rightarrow> route_error option \<times> extension_router" where
  "load_from_file lower decode content r =
     (case content of
        None \<Rightarrow> (Some RouteRead, r)
      | Some b \<Rightarrow>
          (case decode b of
             None \<Rightarrow> (Some RouteJson, r)
           | Some es \<Rightarrow> load_routes lower es r))"

text \<open>\<open>strings.LastIndex\<close> of a dot, as the part after it.\<close>

definition after_last_dot :: "string \<Rightarrow> string option" where
  "after_last_dot s =
     (if CHR ''.'' \<in> set s then Some (last (split_on (CHR ''.'') s)) else None)"

definition router_save_dir :: "(string \<Rightarrow> string) \<Rightarrow> extension_router \<Rightarrow> string \<Rightarrow> string" where
  "router_save_dir lower r filename =
     (let base = path_base filename
      in case split_first (CHR ''.'') base of
           (_, None) \<Rightarrow> default_dir r
         | (_, Some rest) \<Rightarrow>
             if rest = [] then default_dir r
             else
               (let compound = lower rest
                in case map_of (routes r) compound of
                     Some dir \<Rightarrow> dir
                   | None \<Rightarrow>
                       (case after_last_dot compound of
                          Some simple \<Rightarrow>
                            if simple \<noteq> [] then
                              (case map_of (routes r) simple of Some dir \<Rightarrow> dir | None \<Rightarrow> default_dir r)
                            else
                              (case map_of (routes r) compound of Some dir \<Rightarrow> dir | None \<Rightarrow> default_dir r)
                        | None \<Rightarrow>
                            (case map_of (routes r) compound of Some dir \<Rightarrow> dir | None \<Rightarrow> default_dir r))))"

definition has_routes :: "extension_router \<Rightarrow> bool" where
  "has_routes r \<longleftrightarrow> routes r \<noteq> []"

text \<open>\<open>EnsureDirectories\<close>, the directories in the order in which they are visited.\<close>

fun ensure_dirs :: "io_env \<Rightarrow> string list \<Rightarrow> filesys \<Rightarrow> bool \<times> filesys" where
  "ensure_dirs env [] fs = (True, fs)"
| "ensure_dirs env (d # ds) fs =
     (case mkdir_all env d fs of (True, fs') \<Rightarrow> ensure_dirs env ds fs' | (False, fs') \<Rightarrow> (False, fs'))"

definition ensure_directories :: "io_env \<Rightarrow> extension_router \<Rightarrow> filesys \<Rightarrow> bool \<times> filesys" where
  "ensure_directories env r fs = ensure_dirs env (remdups (default_dir r # map snd (routes r))) fs"

subsection \<open>Lemmas\<close>

text \<open>A directory the router accepted: absolute, clean, and without a \<open>..\<close> component.\<close>

definition good_dir :: "string \<Rightarrow> bool" where
  "good_dir d \<longleftrightarrow> is_abs d \<and> path_clean d = d \<and> (\<forall>c\<in>set (path_comps d). plain_comp c)"

definition router_ok :: "extension_router \<Rightarrow> bool" where
  "router_ok r \<longleftrightarrow> (\<forall>e d. map_of (routes r) e = Some d \<longrightarrow> good_dir d)"

lemma abs_comps_plain: "is_abs d \<Longrightarrow> \<forall>c\<in>set (path_comps d). plain_comp c"
  using path_comps_shape [of d] by (auto simp: comps_shape_def)

lemma good_dir_clean: "is_abs d \<Longrightarrow> good_dir (path_clean d)"
  using abs_comps_plain [of d]
  by (simp add: good_dir_def is_abs_clean path_clean_idem path_comps_clean)

lemma load_routes_ok:
  "load_routes lower es r = (e, r') \<Longrightarrow> router_ok r \<Longrightarrow>
     router_ok r' \<and> (default_dir r' = default_dir r \<or> good_dir (default_dir r'))"
proof (induction lower es r rule: load_routes.induct)
  case (1 lower r)
  then show ?case by simp
next
  case (2 lower ext0 dir es r)
  let ?ext = "lower (trim_prefix ''.'' ext0)"
  let ?r = "if ?ext = ''default'' then r\<lparr>default_dir := path_clean dir\<rparr>
            else r\<lparr>routes := AList.update ?ext (path_clean dir) (routes r)\<rparr>"
  show ?case
  proof (cases "is_abs dir \<and> \<not> contains_str ''..'' dir")
    case False
    with "2.prems" show ?thesis by (auto simp: Let_def split: if_splits)
  next
    case True
    then have "router_ok ?r" "default_dir ?r = default_dir r \<or> good_dir (default_dir ?r)"
      using "2.prems"(2) good_dir_clean [of dir] by (auto simp: router_ok_def update_conv')
    moreover have "load_routes lower es ?r = (e, r')"
      using "2.prems"(1) True by (simp add: Let_def)
    ultimately show ?thesis
      using "2.IH" [OF refl] True by (metis (no_types, lifting))
  qed
qed

lemma save_dir_known:
  "router_save_dir lower r f = default_dir r \<or> router_save_dir lower r f \<in> ran (map_of (routes r))"
  by (auto simp: router_save_dir_def Let_def ran_def split: prod.splits option.splits)

lemma ext_scan_spec:
  "ext_scan lower s acc = e \<Longrightarrow> e \<noteq> [] \<Longrightarrow>
     \<exists>x t. s = x @ CHR ''.'' # t \<and> sep \<notin> set x \<and> CHR ''.'' \<notin> set x \<and> CHR 0x5C \<notin> set x \<and>
           rev x @ acc \<noteq> [] \<and> e = lower (rev x @ acc)"
proof (induction lower s acc rule: ext_scan.induct)
  case (1 lower acc)
  then show ?case by simp
next
  case (2 lower c cs acc)
  consider (dot) "c = CHR ''.''" | (stop) "c \<noteq> CHR ''.''" "c = sep \<or> c = CHR 0x5C"
    | (go) "c \<noteq> CHR ''.''" "c \<noteq> sep" "c \<noteq> CHR 0x5C" by blast
  then show ?case
  proof cases
    case dot
    with "2.prems" show ?thesis
      by (intro exI [of _ "[]"] exI [of _ cs]) (auto split: if_splits)
  next
    case stop
    with "2.prems" show ?thesis by auto
  next
    case go
    with "2.prems" have "ext_scan lower cs (c # acc) = e" by auto
    with 2 go obtain x t where "cs = x @ CHR ''.'' # t" "sep \<notin> set x" "CHR ''.'' \<notin> set x"
      "CHR 0x5C \<notin> set x" "e = lower (rev x @ c # acc)"
      by auto
    with go show ?thesis by (intro exI [of _ "c # x"] exI [of _ t]) auto
  qed
qed

lemma ext_scan_dot:
  "sep \<notin> set x \<Longrightarrow> CHR ''.'' \<notin> set x \<Longrightarrow> CHR 0x5C \<notin> set x \<Longrightarrow> rev x @ acc \<noteq> [] \<Longrightarrow>
     ext_scan lower (x @ CHR ''.'' # t) acc = lower (rev x @ acc)"
  by (induction x arbitrary: acc) auto

text \<open>A file name has the extension \<open>e\<close> when it ends in a dot and some \<open>x\<close> lowered to \<open>e\<close>.\<close>

lemma get_file_extension_iff:
  assumes "e \<noteq> []"
  shows "get_file_extension lower f = e \<longleftrightarrow>
     (\<exists>a x. f = a @ CHR ''.'' # x \<and> x \<noteq> [] \<and> sep \<notin> set x \<and> CHR ''.'' \<notin> set x \<and>
            CHR 0x5C \<notin> set x \<and> e = lower x)"
  (is "?l \<longleftrightarrow> ?r")
proof
  assume ?l
  with ext_scan_spec [of lower "rev f" "[]" e] assms obtain x t where
    *: "rev f = x @ CHR ''.'' # t" "sep \<notin> set x" "CHR ''.'' \<notin> set x" "CHR 0x5C \<notin> set x"
      "x \<noteq> []" "e = lower (rev x)"
    by (auto simp: get_file_extension_def)
  from *(1) have "f = rev t @ CHR ''.'' # rev x" by (simp add: rev_swap)
  with * show ?r by (intro exI [of _ "rev t"] exI [of _ "rev x"]) simp
next
  assume ?r
  then obtain a x where "f = a @ CHR ''.'' # x" "x \<noteq> []" "sep \<notin> set x" "CHR ''.'' \<notin> set x"
    "CHR 0x5C \<notin> set x" "e = lower x" by blast
  then show ?l
    using ext_scan_dot [of "rev x" "[]" lower "rev a"] by (simp add: get_file_extension_def)
qed

text \<open>The extension survives sanitising and renaming.\<close>

definition named_ext :: "string \<Rightarrow> string \<Rightarrow> bool" where
  "named_ext x f \<longleftrightarrow> x \<noteq> [] \<and> sep \<notin> set x \<and> CHR ''.'' \<notin> set x \<and> (\<exists>a. f = a @ CHR ''.'' # x)"

lemma named_ext_last:
  assumes "named_ext x f"
  shows "named_ext x (last (split_on sep f)) \<and> plain_comp (last (split_on sep f)) \<and>
    path_base f = last (split_on sep f)"
proof -
  from assms obtain a where f: "f = a @ CHR ''.'' # x" and x: "x \<noteq> []" "sep \<notin> set x" "CHR ''.'' \<notin> set x"
    by (auto simp: named_ext_def)
  have "\<exists>a'. last (split_on sep f) = a' @ CHR ''.'' # x \<and> sep \<notin> set a'"
  proof (cases "sep \<in> set a")
    case False
    with f x have "split_on sep f = [f]" by (intro split_plain) (auto simp: sep_def)
    with f False show ?thesis by auto
  next
    case True
    then obtain a1 a2 where a: "a = a1 @ sep # a2" "sep \<notin> set a2" by (meson split_list_last)
    with f have "split_on sep f = split_on sep a1 @ split_on sep (a2 @ CHR ''.'' # x)"
      by (simp add: split_on_append_any)
    moreover have "split_on sep (a2 @ CHR ''.'' # x) = [a2 @ CHR ''.'' # x]"
      using a(2) x by (intro split_plain) (auto simp: sep_def)
    ultimately show ?thesis using a(2) by auto
  qed
  then obtain a' where l: "last (split_on sep f) = a' @ CHR ''.'' # x" "sep \<notin> set a'" by blast
  obtain c x' where xs: "rev x = c # x'" "c \<noteq> sep"
    using x by (cases "rev x") auto
  have "dropWhile (\<lambda>c. c = sep) (rev f) = rev f" using f xs by simp
  then have "path_base f = last (split_on sep f)" using f by (simp add: path_base_def)
  moreover have "plain_comp (a' @ CHR ''.'' # x)"
  proof -
    have "a' @ CHR ''.'' # x \<noteq> ''..''"
    proof
      assume "a' @ CHR ''.'' # x = ''..''"
      then have "x = [] \<or> x = ''.''" by (cases a') (auto simp: append_eq_Cons_conv)
      with x show False by auto
    qed
    moreover have "a' @ CHR ''.'' # x \<noteq> ''.''" using x(1) by (cases a') auto
    moreover have "sep \<notin> set (a' @ CHR ''.'' # x)" using l(2) x(2) by (auto simp: sep_def)
    ultimately show ?thesis by (simp add: plain_comp_def)
  qed
  ultimately show ?thesis using l x by (auto simp: named_ext_def)
qed

lemma named_ext_comps:
  assumes "named_ext x f"
  shows "\<exists>ds. path_comps f = ds @ [last (split_on sep f)]"
proof -
  obtain init l where cs: "split_on sep f = init @ [l]" by (metis rev_exhaust split_on_neq_Nil)
  with named_ext_last [OF assms] have "plain_comp l" by simp
  then have "path_comps f = clean_comps (is_abs f) [] init @ [l]"
    using cs by (simp add: path_comps_def clean_comps_append plain_comp_def)
  with cs show ?thesis by auto
qed

lemma named_ext_append: "named_ext x b \<Longrightarrow> named_ext x (a @ b)"
  by (auto simp: named_ext_def)

lemma named_ext_sanitize:
  assumes "named_ext x f" "sanitize_path_with_fallback f = Inr p"
  shows "named_ext x p"
proof -
  note l = named_ext_last [OF assms(1)]
  show ?thesis
  proof (cases "sanitize_relative_path f")
    case (Inl e)
    with assms(2) have "p = path_base f"
      by (auto simp: sanitize_path_with_fallback_def Let_def split: if_splits)
    with l show ?thesis by simp
  next
    case (Inr q)
    then have "p = q" using assms(2) fallback_of_ok [OF Inr] by simp
    with Inr have p: "p = join_with sep (path_comps f)" by (simp add: sanitize_ok_iff)
    obtain ds where ds: "path_comps f = ds @ [last (split_on sep f)]"
      using named_ext_comps [OF assms(1)] by blast
    show ?thesis
    proof (cases "ds = []")
      case True
      with p ds l show ?thesis by simp
    next
      case False
      then have "p = (join_with sep ds @ [sep]) @ last (split_on sep f)"
        using p ds join_append [of ds "[last (split_on sep f)]" sep] by simp
      with l show ?thesis using named_ext_append by metis
    qed
  qed
qed

lemma path_ext_dot: "sep \<notin> set x \<Longrightarrow> CHR ''.'' \<notin> set x \<Longrightarrow> path_ext (a @ CHR ''.'' # x) = CHR ''.'' # x"
proof (induction a)
  case Nil
  then show ?case by (cases x) (auto simp: sep_def)
next
  case (Cons c a)
  then show ?case by (auto simp: sep_def)
qed

lemma named_ext_numbered: "named_ext x f \<Longrightarrow> named_ext x (numbered_file f i)"
proof -
  assume n: "named_ext x f"
  then have "path_ext f = CHR ''.'' # x" using path_ext_dot by (auto simp: named_ext_def)
  with n show ?thesis by (auto simp: numbered_file_split named_ext_def)
qed

lemma named_ext_get:
  assumes "get_file_extension lower f = e" "e \<noteq> []"
  obtains x where "named_ext x f" "CHR 0x5C \<notin> set x" "e = lower x"
  using assms get_file_extension_iff [OF assms(2), of lower f] by (auto simp: named_ext_def)

lemma get_named_ext: "named_ext x f \<Longrightarrow> CHR 0x5C \<notin> set x \<Longrightarrow> get_file_extension lower f = lower x"
proof -
  assume n: "named_ext x f" and b: "CHR 0x5C \<notin> set x"
  then obtain a where "f = a @ CHR ''.'' # x" "x \<noteq> []" "sep \<notin> set x" "CHR ''.'' \<notin> set x"
    by (auto simp: named_ext_def)
  then show ?thesis
    using b ext_scan_dot [of "rev x" "[]" lower "rev a"] by (simp add: get_file_extension_def)
qed

text \<open>A name that ends in the same extensions is allowed as well.\<close>

lemma extension_kept:
  assumes "is_extension_allowed lower n exts" "\<And>x. named_ext x n \<Longrightarrow> named_ext x q"
  shows "is_extension_allowed lower q exts"
proof (cases "exts = []")
  case False
  let ?e = "get_file_extension lower n"
  from False assms(1) have e: "?e \<noteq> []" "?e \<in> set exts"
    by (auto simp: is_extension_allowed_def Let_def split: if_splits)
  obtain x where x: "named_ext x n" "CHR 0x5C \<notin> set x" "?e = lower x"
    by (rule named_ext_get [OF refl e(1)])
  with assms(2) have "get_file_extension lower q = lower x" by (intro get_named_ext) auto
  with x(3) e False show ?thesis by (simp add: is_extension_allowed_def)
qed (simp add: is_extension_allowed_def)

subsection \<open>Properties\<close>

text \<open>
  Routing stays inside the configuration. Whatever the configuration file holds, and also
  when loading stops at a bad entry, a file is sent to the default directory the router was
  created with or to an absolute, clean directory without a \<open>..\<close> component.
\<close>

theorem routed_dir_is_configured:
  assumes "load_from_file lower decode content (new_extension_router d) = (err, r)"
  shows "router_save_dir lower r f = d \<or> good_dir (router_save_dir lower r f)"
proof -
  have ok: "router_ok (new_extension_router d)" by (simp add: router_ok_def new_extension_router_def)
  have "router_ok r \<and> (default_dir r = d \<or> good_dir (default_dir r))"
  proof (cases "\<exists>b es. content = Some b \<and> decode b = Some es")
    case True
    then obtain b es where "content = Some b" "decode b = Some es" by blast
    with assms have "load_routes lower es (new_extension_router d) = (err, r)"
      by (simp add: load_from_file_def)
    from load_routes_ok [OF this ok] show ?thesis by (simp add: new_extension_router_def)
  next
    case False
    with assms have "r = new_extension_router d"
      by (auto simp: load_from_file_def split: option.splits)
    with ok show ?thesis by (simp add: new_extension_router_def)
  qed
  with save_dir_known [of lower r f] show ?thesis by (auto simp: router_ok_def ran_def)
qed

theorem routed_dir_is_configured_witness:
  "good_dir (router_save_dir ascii_lower
      (snd (load_from_file ascii_lower (\<lambda>b. Some [(''.PDF'', ''/mnt/pdf//''), (''epub'', ''../x'')])
              (Some []) (new_extension_router ''out''))) ''a.b.Pdf'')"
proof -
  have n: "router_save_dir ascii_lower
      (snd (load_from_file ascii_lower (\<lambda>b. Some [(''.PDF'', ''/mnt/pdf//''), (''epub'', ''../x'')])
              (Some []) (new_extension_router ''out''))) ''a.b.Pdf'' = ''/mnt/pdf''"
    by code_simp
  then show ?thesis
    using routed_dir_is_configured [OF surjective_pairing, of ascii_lower
        "\<lambda>b. Some [(''.PDF'', ''/mnt/pdf//''), (''epub'', ''../x'')]" "Some []" "''out''" "''a.b.Pdf''"]
    by simp
qed

text \<open>
  The most specific route wins: the part of the base name after its first dot decides, and
  when it has no route of its own, the part after its last dot; a name without a dot or with an
  empty rest goes to the default directory. The second lookup of the whole extension in
  \<open>GetSaveDir\<close> never changes the result.
\<close>

theorem routing_order:
  "router_save_dir lower r f =
     (case split_first (CHR ''.'') (path_base f) of
        (_, None) \<Rightarrow> default_dir r
      | (_, Some rest) \<Rightarrow>
          if rest = [] then default_dir r
          else hd (List.map_filter (map_of (routes r))
                     (lower rest # (case after_last_dot (lower rest) of
                                      None \<Rightarrow> [] | Some s \<Rightarrow> if s = [] then [] else [s]))
                   @ [default_dir r]))"
  by (auto simp: router_save_dir_def Let_def List.map_filter_def split: prod.split option.split)

end
