(* ===== verification/Stored_Names.thy ===== *)
theory Stored_Names
  imports Upload_Props Routing
begin

text \<open>
  What \<open>SaveFile\<close> may do to the file system, on every path through it: create directories and
  one new file, below the save directory and with the extension the sender announced. This
  joins the facts on sanitising, folder remapping, numbering and retries that the receivers'
  extension filter and routing rely on.
\<close>

subsection \<open>Extensions of joined paths\<close>

lemma named_ext_tail: "named_ext x (a @ sep # b) \<Longrightarrow> named_ext x b"
proof -
  assume n: "named_ext x (a @ sep # b)"
  have "last (split_on sep (a @ sep # b)) = last (split_on sep b)"
    by (simp add: split_on_append_any)
  with named_ext_last [OF n] have l: "named_ext x (last (split_on sep b))" by simp
  obtain ps where ps: "split_on sep b = ps @ [last (split_on sep b)]"
    by (metis append_butlast_last_id split_on_neq_Nil)
  show ?thesis
  proof (cases "ps = []")
    case True
    with ps have "split_on sep b = [last (split_on sep b)]" by simp
    then have "b = last (split_on sep b)" using join_split [of sep b] by (metis join_with.simps(2))
    with l show ?thesis by simp
  next
    case False
    have "b = join_with sep (ps @ [last (split_on sep b)])" using join_split [of sep b] ps by simp
    also have "\<dots> = (join_with sep ps @ [sep]) @ last (split_on sep b)"
      using False by (simp add: join_append)
    finally show ?thesis using l named_ext_append by metis
  qed
qed

lemma path_join_named:
  assumes "d \<noteq> []" "plain_comp b" "named_ext x b"
  shows "named_ext x (path_join d b)"
proof -
  let ?p = "path_join d b"
  have n: "sep \<notin> set b" using assms(2) by (simp add: plain_comp_def)
  have c: "path_comps ?p = path_comps d @ [b]"
    using path_join_comps(1) [OF assms(1) safe_rel_single [OF assms(2)]] by (simp only: split_plain [OF n])
  have cl: "?p = path_clean ?p"
    using assms(1) by (cases d) (simp_all add: path_join_def path_clean_idem)
  have "\<exists>a. join_with sep (path_comps d @ [b]) = a @ b"
  proof (cases "path_comps d = []")
    case False
    then have "join_with sep (path_comps d @ [b]) = (join_with sep (path_comps d) @ [sep]) @ b"
      by (simp add: join_append)
    then show ?thesis by blast
  qed simp
  then obtain a where a: "join_with sep (path_comps d @ [b]) = a @ b" by blast
  have "?p = (if is_abs ?p then sep # a else a) @ b"
    using cl unfolding path_clean_eq [of ?p] c a by (simp split: if_splits)
  then show ?thesis using assms(3) named_ext_append by metis
qed

lemma remap_apply_named:
  assumes "named_ext x p"
  shows "named_ext x (remap_apply r p)"
proof (cases "split_first sep p")
  case (Pair root rest)
  show ?thesis
  proof (cases rest)
    case None
    with Pair assms show ?thesis by (simp add: remap_apply_def)
  next
    case (Some t)
    with Pair have p: "p = root @ sep # t" using split_first_Some by blast
    have "named_ext x t" using assms unfolding p by (rule named_ext_tail)
    then have "named_ext x ((u @ [sep]) @ t)" for u by (rule named_ext_append)
    then show ?thesis using Pair Some assms by (simp add: remap_apply_def sep_def split: option.split)
  qed
qed

lemma candidate_named:
  "d \<noteq> [] \<Longrightarrow> plain_comp f \<Longrightarrow> named_ext x f \<Longrightarrow> named_ext x (candidate d f i)"
  unfolding candidate_def
  by (rule path_join_named) (simp_all add: numbered_file_plain named_ext_numbered)

lemma alloc_create_named:
  "fst (alloc_create env d f a fs) = Some (p, fs') \<Longrightarrow> d \<noteq> [] \<Longrightarrow> plain_comp f \<Longrightarrow> named_ext x f \<Longrightarrow>
     named_ext x p"
  by (auto simp: alloc_create_from create_from_finds candidate_named)

subsection \<open>The names a session remembers\<close>

definition named_as :: "file_meta \<Rightarrow> string \<Rightarrow> bool" where
  "named_as meta p \<longleftrightarrow> (\<forall>x. named_ext x (fm_name meta) \<longrightarrow> named_ext x p)"

definition names_ok :: "recv_session \<Rightarrow> bool" where
  "names_ok s \<longleftrightarrow>
     (\<forall>fid meta st. map_of (file_metas s) fid = Some meta \<longrightarrow> map_of (file_states s) fid = Some st \<longrightarrow>
        us_target st = [] \<or> named_as meta (us_target st))"

lemma names_okD:
  "names_ok s \<Longrightarrow> map_of (file_metas s) fid = Some meta \<Longrightarrow> map_of (file_states s) fid = Some st \<Longrightarrow>
     us_target st = [] \<or> named_as meta (us_target st)"
  by (auto simp: names_ok_def)

lemma names_ok_same: "file_metas s' = file_metas s \<Longrightarrow> file_states s' = file_states s \<Longrightarrow> names_ok s' = names_ok s"
  by (simp add: names_ok_def)

lemma names_ok_update:
  assumes "names_ok s" "map_of (file_metas s) fid = Some meta" "us_target st = [] \<or> named_as meta (us_target st)"
  shows "names_ok (s\<lparr>file_states := AList.update fid st (file_states s)\<rparr>)"
  using assms by (auto simp: names_ok_def update_conv')

lemma set_target_names:
  "names_ok s \<Longrightarrow> map_of (file_metas s) fid = Some meta \<Longrightarrow> named_as meta p \<Longrightarrow> names_ok (set_target fid p s)"
  by (auto simp: set_target_def intro!: names_ok_update split: option.split)

lemma finish_names: "names_ok s \<Longrightarrow> dom (map_of (file_states s)) \<subseteq> dom (map_of (file_metas s)) \<Longrightarrow>
    names_ok (finish_file_attempt fid res s)"
proof -
  assume ok: "names_ok s" and d: "dom (map_of (file_states s)) \<subseteq> dom (map_of (file_metas s))"
  show ?thesis
  proof (cases "map_of (file_states s) fid")
    case None
    with ok show ?thesis by (simp add: finish_file_attempt_def)
  next
    case (Some st)
    with d obtain meta where m: "map_of (file_metas s) fid = Some meta" by blast
    then have "names_ok (s\<lparr>file_states := AList.update fid (st\<lparr>us_status := x\<rparr>) (file_states s)\<rparr>)" for x
      using names_okD [OF ok m Some] by (intro names_ok_update [OF ok m]) simp
    with Some ok show ?thesis
      by (auto simp: finish_file_attempt_def end_session_def Let_def names_ok_def)
  qed
qed

subsection \<open>Every path through \<open>SaveFile\<close>\<close>

definition file_added :: "string \<Rightarrow> file_meta \<Rightarrow> filesys \<Rightarrow> filesys \<Rightarrow> bool" where
  "file_added d meta fs fs' \<longleftrightarrow>
     (\<forall>q. fs' q = fs q \<or> fs q = None \<and> (fs' q = Some Dir \<or> below d q \<and> named_as meta q))"

lemma file_added_dirs: "only_dirs_added fs fs' \<Longrightarrow> file_added d meta fs fs'"
  by (auto simp: file_added_def only_dirs_added_def)

lemma file_added_one:
  assumes "only_dirs_added fs fs2" "fs2 p = None" "below d p" "named_as meta p" "\<forall>q. q \<noteq> p \<longrightarrow> fs' q = fs2 q"
  shows "file_added d meta fs fs'"
proof -
  have "fs p = None" using assms(1,2) by (rule only_dirs_None)
  then show ?thesis
    using assms unfolding file_added_def only_dirs_added_def by metis
qed

lemma receive_into_elsewhere:
  "receive_into env sha pt meta body p fs s = (st, e, fs', s') \<Longrightarrow> q \<noteq> p \<Longrightarrow> fs' q = fs q"
  by (auto simp: receive_into_def Let_def apply_file_times_def chtimes_def write_file_def remove_file_def
      split: prod.splits if_splits option.splits)

lemma open_target_named:
  assumes "open_target env full base target fid fs s = (r, s')" "names_ok s" "map_of (file_metas s) fid = Some meta"
    and "full \<noteq> []" "plain_comp base" "named_as meta base" "target = [] \<or> named_as meta target"
  shows "names_ok s' \<and> (\<forall>q fs'. r = Some (q, fs') \<longrightarrow> named_as meta q)"
proof (cases "target = []")
  case False
  with assms(1,2,7) show ?thesis by (auto simp: open_target_def reopen_excl_def split: sum.splits)
next
  case True
  obtain y a where al: "alloc_create env full base (unique_files s) fs = (y, a)" by fastforce
  have a: "names_ok (s\<lparr>unique_files := a\<rparr>)" using assms(2) by (simp add: names_ok_def)
  show ?thesis
  proof (cases y)
    case None
    with True al a assms(1) show ?thesis by (auto simp: open_target_def)
  next
    case (Some z)
    obtain q fs1 where z: "z = (q, fs1)" by fastforce
    have "named_as meta q"
      unfolding named_as_def
      using alloc_create_named [of env full base "unique_files s" fs q fs1] al Some z assms(4,5,6)
      by (simp add: named_as_def)
    with True al a Some z assms(1,3) set_target_names [OF a, of fid meta q] show ?thesis
      by (auto simp: open_target_def)
  qed
qed

lemma save_body_adds:
  assumes "save_body env sha pt (D fid) fid meta target body fs s = (st, out, fs', s')"
    and "store_ok D s" "D fid \<noteq> []" "target = [] \<or> below (D fid) target"
    and "names_ok s" "map_of (file_metas s) fid = Some meta" "target = [] \<or> named_as meta target"
  shows "file_added (D fid) meta fs fs' \<and> names_ok s'"
  using assms(1)
proof (cases rule: save_body_cases)
  case (early e)
  with assms(5) names_ok_same file_added_dirs show ?thesis unfolding same_store_def by blast
next
  case (opened p0 s1 fs2 s2 save_as fs3 s3 e)
  let ?p = "apply_folder_remap s1 p0"
  have 1: "store_ok D s1" using prepare_store [OF opened(2)] assms(2) same_store_ok by blast
  then have 2: "store_ok D s2" using ensure_store [OF opened(3)] same_store_ok by blast
  have m: "file_metas s2 = file_metas s" "file_states s2 = file_states s"
    using prepare_store [OF opened(2)] ensure_store [OF opened(3)] by (simp_all add: same_store_def)
  have safe: "safe_rel ?p"
    using 1 fallback_ok_safe [OF opened(1)] apply_remap_safe by (auto simp: store_ok_def)
  have named: "named_as meta (path_base ?p)"
    unfolding named_as_def
  proof (intro allI impI)
    fix x
    assume "named_ext x (fm_name meta)"
    from named_ext_sanitize [OF this opened(1)] have "named_ext x ?p"
      by (auto simp: apply_folder_remap_def remap_apply_named split: option.split)
    then show "named_ext x (path_base ?p)" using named_ext_last by metis
  qed
  have full: "full_save_dir (D fid) ?p \<noteq> []" using full_save_dir_below [OF safe assms(3)] by simp
  have base: "plain_comp (path_base ?p)" using path_base_safe(2) [OF safe] .
  have b: "below (D fid) save_as"
    using open_target_store [OF opened(4) 2 safe refl refl assms(3,4)] by blast
  have n: "names_ok s3" "named_as meta save_as"
    using open_target_named [OF opened(4) _ _ full base named assms(7)] m assms(5,6) names_ok_same
    by (metis)+
  note f = open_target_fresh [OF opened(4)]
  have d: "only_dirs_added fs fs2" using ensure_books [OF opened(3)] by simp
  have "file_added (D fid) meta fs fs'"
  proof (rule file_added_one [OF d _ b n(2)])
    show "fs2 save_as = None" using f by simp
    show "\<forall>q. q \<noteq> save_as \<longrightarrow> fs' q = fs2 q"
      using receive_into_elsewhere [OF opened(5)] f by simp
  qed
  moreover have "names_ok s'"
    using receive_store [OF opened(5)] n(1) names_ok_same unfolding same_store_def by blast
  ultimately show ?thesis ..
qed

text \<open>The facts the receivers use: what \<open>SaveFile\<close> may add, and that it keeps the names in order.\<close>

lemma save_file_adds:
  assumes "save_file env sha pt (D fid) fid token ip body fs s = (out, fs', s')" "D fid \<noteq> []"
    and "store_ok D s" "names_ok s" "sess_inv s"
  shows "names_ok s' \<and> (fs' = fs \<or> (\<exists>meta. map_of (file_metas s) fid = Some meta \<and> file_added (D fid) meta fs fs'))"
  using assms(1)
proof (cases rule: save_file_cases)
  case refused
  with assms(4) show ?thesis by simp
next
  case (claimed meta target s1 st s2)
  obtain us where us: "map_of (file_metas s) fid = Some meta" "map_of (file_states s) fid = Some us"
    "us_target us = target" "s1 = s\<lparr>file_states := AList.update fid
        (us\<lparr>us_status := FileInProgress, us_attempts := (us_attempts us + 1) mod 256\<rparr>) (file_states s)\<rparr>"
    using save_begin_ok [OF claimed(1)] by metis
  have t: "target = [] \<or> named_as meta target" using names_okD [OF assms(4) us(1,2)] us(3) by simp
  have n1: "names_ok s1"
    unfolding us(4) using t us(3) by (intro names_ok_update [OF assms(4) us(1)]) simp
  have m1: "map_of (file_metas s1) fid = Some meta" using us(1,4) by simp
  from begin_store [OF claimed(1) assms(3)] have b: "store_ok D s1" "target = [] \<or> below (D fid) target"
    by auto
  have a: "file_added (D fid) meta fs fs'" "names_ok s2"
    using save_body_adds [where D = D, OF claimed(2) b(1) assms(2) b(2) n1 m1 t] by blast+
  have "sess_inv s2"
    using same_books_inv [OF save_body_books [OF claimed(2)] save_begin_inv [OF claimed(1) assms(5)]] .
  then have "dom (map_of (file_states s2)) \<subseteq> dom (map_of (file_metas s2))" by (simp add: sess_inv_def)
  with a us(1) claimed(3) finish_names show ?thesis by blast
qed

end
