(* ===== verification/Session_Manager.thy ===== *)
theory Session_Manager
  imports Upload_Props
begin

text \<open>
  \<open>internal/localsend/session/recvsessman.go\<close>: the table of receive sessions. Sessions are
  reached through pointers in Go; here the table owns them, and an operation on a session
  writes it back. Fresh UUIDs are arguments: the session id, and the token of each file. The
  admission of a session is one step, as the admission mutex makes it.
\<close>

definition max_concurrent_sessions :: nat where
  "max_concurrent_sessions = 100"

type_synonym sess_table = "(string, recv_session) gomap"

definition new_sess_manager :: sess_table where
  "new_sess_manager = []"

definition get_session :: "string \<Rightarrow> sess_table \<Rightarrow> ls_error + recv_session" where
  "get_session i t = (case map_of t i of None \<Rightarrow> Inl ErrNotFound | Some s \<Rightarrow> Inr s)"

definition has_active_sessions :: "time \<Rightarrow> sess_table \<Rightarrow> bool" where
  "has_active_sessions now t \<longleftrightarrow> (\<exists>p\<in>set t. \<not> sess_stopped now (snd p))"

text \<open>The files in the order in which \<open>range\<close> visits them, each with the token made for it.\<close>

fun accept_files :: "(string \<times> string \<times> file_meta) list \<Rightarrow> recv_session \<Rightarrow> ls_error + recv_session" where
  "accept_files [] s = Inr s"
| "accept_files ((token, fid, meta) # fs) s =
     (case accept_file token fid meta s of
        (Some e, s') \<Rightarrow> Inl e
      | (None, s') \<Rightarrow> accept_files fs s')"

definition with_tokens :: "(nat \<Rightarrow> string) \<Rightarrow> file_metas \<Rightarrow> (string \<times> string \<times> file_meta) list" where
  "with_tokens tok m = map (\<lambda>i. (tok i, fst (m ! i), snd (m ! i))) [0..<length m]"

definition new_session_locked ::
    "time \<Rightarrow> string \<Rightarrow> (nat \<Rightarrow> string) \<Rightarrow> file_metas \<Rightarrow> string \<Rightarrow> sess_table \<Rightarrow>
     (ls_error + string) \<times> sess_table" where
  "new_session_locked now i tok files ip t =
     (if max_concurrent_sessions \<le> length t then (Inl ErrTooManySessions, t)
      else (case accept_files (with_tokens tok files) (new_recv_session (now div second) i ip) of
              Inl e \<Rightarrow> (Inl e, t)
            | Inr s \<Rightarrow> (Inr i, AList.update i (start_session s) t)))"

definition create_session_if_allowed ::
    "time \<Rightarrow> string \<Rightarrow> (nat \<Rightarrow> string) \<Rightarrow> file_metas \<Rightarrow> string \<Rightarrow> sess_table \<Rightarrow>
     (ls_error + string) \<times> sess_table" where
  "create_session_if_allowed now i tok files ip t =
     (if files = [] then (Inl ErrInvalidBody, t)
      else if has_active_sessions now t then (Inl ErrBlockedByOthers, t)
      else new_session_locked now i tok files ip t)"

text \<open>
  \<open>KillSession\<close> takes the session out of the table and ends it; the ended session is the first
  component, for a handler that still holds it.
\<close>

definition kill_session :: "string \<Rightarrow> sess_table \<Rightarrow> recv_session option \<times> sess_table" where
  "kill_session i t =
     (case map_of t i of
        None \<Rightarrow> (None, t)
      | Some s \<Rightarrow> (Some (snd (end_session s)), AList.delete i t))"

definition kill_session_for_client :: "string \<Rightarrow> string \<Rightarrow> sess_table \<Rightarrow> ls_error option \<times> sess_table" where
  "kill_session_for_client i ip t =
     (case get_session i t of
        Inl e \<Rightarrow> (if e = ErrNotFound then (None, t) else (Some e, t))
      | Inr s \<Rightarrow>
          if client_ip s \<noteq> [] \<and> client_ip s \<noteq> ip then (Some ErrRejected, t)
          else (None, snd (kill_session i t)))"

definition vacuum :: "time \<Rightarrow> sess_table \<Rightarrow> sess_table" where
  "vacuum now t = gm_keep (\<lambda>i s. \<not> sess_stopped now s) t"

definition generate_pre_upload_resp :: "string \<Rightarrow> sess_table \<Rightarrow> ls_error + pre_upload_resp" where
  "generate_pre_upload_resp i t =
     (case get_session i t of
        Inl e \<Rightarrow> Inl e
      | Inr s \<Rightarrow> Inr \<lparr>pr_session = i, pr_tokens = get_file_tokens s\<rparr>)"

subsection \<open>Admission\<close>

lemma accept_file_ok:
  assumes "accept_file token fid meta s = (None, s')"
  shows "fid = fm_id meta \<and> \<not> started s \<and> length (file_metas s) < max_files_per_session \<and>
    s' = s\<lparr>file_metas := AList.update fid meta (file_metas s),
           file_tokens := AList.update fid token (file_tokens s),
           file_states := AList.update fid \<lparr>us_status = FilePending, us_attempts = 0, us_target = []\<rparr> (file_states s),
           files_count := files_count s + 1\<rparr>"
  using assms by (simp add: accept_file_def split: if_splits)

text \<open>A session that is being filled, before it is started.\<close>

definition filling :: "recv_session \<Rightarrow> bool" where
  "filling s \<longleftrightarrow>
     \<not> started s \<and> gm_wf (file_metas s) \<and> gm_wf (file_tokens s) \<and> gm_wf (file_states s) \<and>
     dom (map_of (file_tokens s)) = dom (map_of (file_metas s)) \<and>
     dom (map_of (file_states s)) = dom (map_of (file_metas s)) \<and>
     (\<forall>fid st. map_of (file_states s) fid = Some st \<longrightarrow>
        st = \<lparr>us_status = FilePending, us_attempts = 0, us_target = []\<rparr>) \<and>
     files_count s = int (open_files s) \<and> open_files s = length (file_metas s) \<and>
     length (file_metas s) \<le> max_files_per_session \<and> folder_once s = None"

lemma filling_new: "filling (new_recv_session now i ip)"
  by (simp add: filling_def new_recv_session_def open_files_def count_vals_def)

lemma accept_filling:
  assumes "accept_file token fid meta s = (None, s')" "filling s" "map_of (file_metas s) fid = None"
  shows "filling s'"
proof -
  note a = accept_file_ok [OF assms(1)]
  have n: "map_of (file_states s) fid = None" "map_of (file_tokens s) fid = None"
    using assms(2,3) unfolding filling_def by (metis domIff)+
  have "open_files s' = Suc (open_files s)"
    using a n(1) by (simp add: open_files_def count_vals_new is_open_def)
  then show ?thesis
    using a assms(2,3) by (auto simp: filling_def distinct_update update_conv' length_alist_update)
qed

lemma accept_files_filling:
  "accept_files fs s = Inr s' \<Longrightarrow> filling s \<Longrightarrow> distinct (map (\<lambda>f. fst (snd f)) fs) \<Longrightarrow>
     \<forall>f\<in>set fs. map_of (file_metas s) (fst (snd f)) = None \<Longrightarrow>
     filling s' \<and> sess_id s' = sess_id s \<and> client_ip s' = client_ip s \<and>
     last_activity s' = last_activity s \<and> length (file_metas s') = length (file_metas s) + length fs \<and>
     (\<forall>fid. map_of (file_metas s') fid =
        (case map_of (map snd fs) fid of Some m \<Rightarrow> Some m | None \<Rightarrow> map_of (file_metas s) fid))"
proof (induction fs arbitrary: s)
  case Nil
  then show ?case by simp
next
  case (Cons f fs)
  obtain token fid meta where f: "f = (token, fid, meta)" by (metis prod_cases3)
  from Cons.prems(1) f obtain s1 where s1: "accept_file token fid meta s = (None, s1)"
    and r: "accept_files fs s1 = Inr s'"
    by (auto split: prod.splits option.splits)
  have new: "map_of (file_metas s) fid = None" using Cons.prems(4) f by simp
  note a = accept_file_ok [OF s1]
  have fill: "filling s1" using accept_filling [OF s1 Cons.prems(2) new] .
  have "\<forall>g\<in>set fs. map_of (file_metas s1) (fst (snd g)) = None"
    using a Cons.prems(3,4) f by (force simp: update_conv')
  from Cons.IH [OF r fill _ this] Cons.prems(3)
  have IH: "filling s'" "sess_id s' = sess_id s1" "client_ip s' = client_ip s1"
    "last_activity s' = last_activity s1" "length (file_metas s') = length (file_metas s1) + length fs"
    "map_of (file_metas s') k =
       (case map_of (map snd fs) k of Some m \<Rightarrow> Some m | None \<Rightarrow> map_of (file_metas s1) k)" for k
    by auto
  have "fid \<notin> fst ` set (map snd fs)" using Cons.prems(3) f by (auto simp: image_image)
  then have none: "map_of (map snd fs) fid = None" by (simp add: map_of_eq_None_iff)
  have m1: "map_of (file_metas s1) k = (if k = fid then Some meta else map_of (file_metas s) k)" for k
    using a by (simp add: update_conv')
  have l1: "length (file_metas s1) = Suc (length (file_metas s))"
    "sess_id s1 = sess_id s" "client_ip s1 = client_ip s" "last_activity s1 = last_activity s"
    using a new by (simp_all add: length_alist_update)
  show ?case
    using IH(1-5) l1 by (simp add: IH(6) m1 none f split: option.split)
qed

lemma with_tokens_ids: "map (\<lambda>f. fst (snd f)) (with_tokens tok m) = map fst m"
  by (rule nth_equalityI) (simp_all add: with_tokens_def)

lemma with_tokens_metas: "map snd (with_tokens tok m) = m"
  by (rule nth_equalityI) (simp_all add: with_tokens_def)

lemma with_tokens_length [simp]: "length (with_tokens tok m) = length m"
  by (simp add: with_tokens_def)

text \<open>The session that admission creates.\<close>

lemma new_session_ok:
  assumes "new_session_locked now i tok files ip t = (Inr i', t')" "gm_wf files"
  obtains s where "i' = i" "t' = AList.update i (start_session s) t" "length t < max_concurrent_sessions"
    "filling s" "sess_id s = i" "client_ip s = ip" "last_activity s = now div second"
    "length (file_metas s) = length files" "map_of (file_metas s) = map_of files"
proof -
  from assms(1) obtain s where s: "accept_files (with_tokens tok files) (new_recv_session (now div second) i ip) = Inr s"
    "i' = i" "t' = AList.update i (start_session s) t" "length t < max_concurrent_sessions"
    by (auto simp: new_session_locked_def split: if_splits sum.splits)
  have "\<forall>f\<in>set (with_tokens tok files). map_of (file_metas (new_recv_session (now div second) i ip)) (fst (snd f)) = None"
    by (simp add: new_recv_session_def)
  from accept_files_filling [OF s(1) filling_new _ this] assms(2)
  have "filling s" "sess_id s = i" "client_ip s = ip" "last_activity s = now div second"
    "length (file_metas s) = length files" "map_of (file_metas s) = map_of files"
    by (auto simp: with_tokens_ids with_tokens_metas new_recv_session_def fun_eq_iff split: option.split)
  with that s show thesis by blast
qed

lemma filling_attempts: "filling s \<Longrightarrow> map_of (file_states s) fid = Some st \<Longrightarrow> attempts_ok st"
proof -
  assume "filling s" "map_of (file_states s) fid = Some st"
  then have "st = \<lparr>us_status = FilePending, us_attempts = 0, us_target = []\<rparr>"
    unfolding filling_def by blast
  then show ?thesis by (simp add: attempts_ok_def max_checksum_attempts_def)
qed

lemma filling_start:
  assumes "filling s" "file_metas s \<noteq> []"
  shows "sess_inv (start_session s)"
  using assms filling_attempts [OF assms(1)]
  by (simp add: filling_def sess_inv_def start_session_def open_files_def)

subsection \<open>The table as a whole\<close>

definition table_ok :: "sess_table \<Rightarrow> bool" where
  "table_ok t \<longleftrightarrow> gm_wf t \<and> length t \<le> max_concurrent_sessions \<and>
     (\<forall>i s. map_of t i = Some s \<longrightarrow> sess_inv s \<and> sess_id s = i)"

text \<open>
  The steps of the manager: admission, cancellation, the periodic cleanup, and a step of a
  session that is in the table.
\<close>

inductive table_step :: "sess_table \<Rightarrow> sess_table \<Rightarrow> bool" where
  admit:
    "create_session_if_allowed now i tok files ip t = (r, t') \<Longrightarrow> gm_wf files \<Longrightarrow> map_of t i = None \<Longrightarrow>
     table_step t t'"
| cancel: "table_step t (snd (kill_session_for_client i ip t))"
| clean: "table_step t (vacuum now t)"
| event: "map_of t i = Some s \<Longrightarrow> table_step t (AList.update i (sess_event_step e s) t)"
| work: "map_of t i = Some s \<Longrightarrow> same_books s s' \<Longrightarrow> table_step t (AList.update i s' t)"

inductive table_reachable :: "sess_table \<Rightarrow> bool" where
  init: "table_reachable new_sess_manager"
| step: "table_reachable t \<Longrightarrow> table_step t t' \<Longrightarrow> table_reachable t'"

inductive_cases table_stepE: "table_step t t'"

lemma table_ok_put:
  assumes "table_ok t" "map_of t i \<noteq> None \<or> length t < max_concurrent_sessions" "sess_inv s" "sess_id s = i"
  shows "table_ok (AList.update i s t)"
  using assms by (auto simp: table_ok_def distinct_update update_conv' length_alist_update)

lemma table_ok_del: "table_ok t \<Longrightarrow> table_ok (AList.delete i t)"
  by (auto simp: table_ok_def distinct_delete delete_conv' length_alist_delete split: if_splits)

lemma table_ok_vacuum: "table_ok t \<Longrightarrow> table_ok (vacuum now t)"
  using len_keep [of "\<lambda>i s. \<not> sess_stopped now s" t]
  by (auto simp: table_ok_def vacuum_def wf_keep get_keep split: option.splits if_splits)

lemma admission_ok:
  assumes "create_session_if_allowed now i tok files ip t = (Inr i', t')" "gm_wf files"
  obtains s where "i' = i" "t' = AList.update i (start_session s) t" "length t < max_concurrent_sessions"
    "filling s" "sess_id s = i" "client_ip s = ip" "last_activity s = now div second"
    "length (file_metas s) = length files" "map_of (file_metas s) = map_of files" "files \<noteq> []"
    "\<not> has_active_sessions now t"
proof -
  from assms(1) have n: "new_session_locked now i tok files ip t = (Inr i', t')" "files \<noteq> []"
    "\<not> has_active_sessions now t"
    by (auto simp: create_session_if_allowed_def split: if_splits)
  show thesis
    by (rule new_session_ok [OF n(1) assms(2)]) (use that n in blast)
qed

lemma admission_refused: "create_session_if_allowed now i tok files ip t = (Inl e, t') \<Longrightarrow> t' = t"
  by (auto simp: create_session_if_allowed_def new_session_locked_def split: if_splits sum.splits)

lemma end_session_id [simp]: "sess_id (snd (end_session s)) = sess_id s"
  by (simp add: end_session_def)

lemma event_id: "sess_id (sess_event_step e s) = sess_id s"
  by (cases e) (auto simp: save_begin_def finish_file_attempt_def Let_def split: option.splits)

lemma started_inv: "filling s \<Longrightarrow> length (file_metas s) = length files \<Longrightarrow> files \<noteq> [] \<Longrightarrow> sess_inv (start_session s)"
  by (rule filling_start) auto

lemma table_step_ok: "table_step t t' \<Longrightarrow> table_ok t \<Longrightarrow> table_ok t'"
proof (induction rule: table_step.induct)
  case (admit now i tok files ip t r t')
  show ?case
  proof (cases r)
    case (Inl e)
    with admit admission_refused show ?thesis by blast
  next
    case (Inr i')
    with admit(1) have c: "create_session_if_allowed now i tok files ip t = (Inr i', t')" by simp
    show ?thesis
      by (rule admission_ok [OF c admit(2)])
        (use admit.prems started_inv in \<open>auto simp: start_session_def intro!: table_ok_put\<close>)
  qed
next
  case (cancel t i ip)
  then show ?case
    by (auto simp: kill_session_for_client_def kill_session_def table_ok_del split: sum.splits option.splits)
next
  case (clean t now)
  then show ?case by (rule table_ok_vacuum)
next
  case (event t i s e)
  then have "sess_inv s" "sess_id s = i" by (auto simp: table_ok_def)
  with event show ?case by (intro table_ok_put) (simp_all add: event_inv event_id)
next
  case (work t i s s')
  then have "sess_inv s" "sess_id s = i" by (auto simp: table_ok_def)
  with work same_books_inv [OF work(2)] show ?case
    by (intro table_ok_put) (auto simp: same_books_def)
qed

lemma table_reachable_ok: "table_reachable t \<Longrightarrow> table_ok t"
proof (induction rule: table_reachable.induct)
  case init
  then show ?case by (simp add: table_ok_def new_sess_manager_def)
next
  case (step t t')
  then show ?case using table_step_ok by blast
qed

lemma fresh_not_stopped:
  assumes "filling s" "file_metas s \<noteq> []" "last_activity s = now div second"
  shows "\<not> sess_stopped now (start_session s)"
proof -
  have "now - now div second * second = now mod second" by (simp add: minus_div_mult_eq_mod)
  moreover have "now mod second < second" by (simp add: second_def)
  moreover have "0 < second" by (simp add: second_def)
  ultimately have "time_sub now (now div second * second) \<le> session_timeout"
    by (simp add: time_sub_def session_timeout_def min_duration_def max_duration_def second_def)
  moreover have "files_count s \<noteq> 0" using assms(1,2) by (simp add: filling_def)
  ultimately show ?thesis using assms(3) by (simp add: sess_stopped_def start_session_def)
qed

subsection \<open>Properties\<close>

text \<open>
  C23: Admission is exclusive. When \<open>CreateSessionIfAllowed\<close> admits a sender, every other session
  in the table has stopped at that moment; the new session is running, belongs to the sender's
  address and holds exactly the requested files, all waiting; the table does not exceed its
  limit.
\<close>

theorem admission_is_exclusive:
  assumes "create_session_if_allowed now i tok files ip t = (Inr i', t')" "table_ok t" "gm_wf files"
  shows "i' = i \<and> table_ok t' \<and>
    (\<exists>s. map_of t' i = Some s \<and> \<not> sess_stopped now s \<and> client_ip s = ip \<and>
       map_of (file_metas s) = map_of files \<and>
       (\<forall>fid st. map_of (file_states s) fid = Some st \<longrightarrow> us_status st = FilePending)) \<and>
    (\<forall>j s. j \<noteq> i \<longrightarrow> map_of t' j = Some s \<longrightarrow> sess_stopped now s)"
proof -
  obtain s where s: "i' = i" "t' = AList.update i (start_session s) t" "length t < max_concurrent_sessions"
    "filling s" "sess_id s = i" "client_ip s = ip" "last_activity s = now div second"
    "length (file_metas s) = length files" "map_of (file_metas s) = map_of files" "files \<noteq> []"
    "\<not> has_active_sessions now t"
    using admission_ok [OF assms(1,3)] by blast
  have ne: "file_metas s \<noteq> []" using s(8,10) by auto
  have "table_ok t'"
    unfolding s(2) using s(3,5) started_inv [OF s(4,8,10)] assms(2)
    by (intro table_ok_put) (auto simp: start_session_def)
  moreover have "us_status st = FilePending" if "map_of (file_states s) fid = Some st" for fid st
  proof -
    from s(4) that have "st = \<lparr>us_status = FilePending, us_attempts = 0, us_target = []\<rparr>"
      unfolding filling_def by blast
    then show ?thesis by simp
  qed
  moreover have "sess_stopped now x" if "j \<noteq> i" "map_of t' j = Some x" for j x
    using s(11) that map_of_SomeD [of t j x] by (force simp: s(2) update_conv' has_active_sessions_def)
  ultimately show ?thesis
    using s(1,2,6,9) fresh_not_stopped [OF s(4) ne s(7)]
    by (auto simp: update_conv' start_session_def)
qed

theorem admission_is_exclusive_witness:
  "fst (create_session_if_allowed 0 ''s1'' (\<lambda>_. ''tok'') [(''f'', demo_meta)] ''10.0.0.2'' []) = Inr ''s1'' \<and>
   table_ok (snd (create_session_if_allowed 0 ''s1'' (\<lambda>_. ''tok'') [(''f'', demo_meta)] ''10.0.0.2'' []))"
proof -
  have c: "fst (create_session_if_allowed 0 ''s1'' (\<lambda>_. ''tok'') [(''f'', demo_meta)] ''10.0.0.2'' []) = Inr ''s1''"
    by code_simp
  have "table_ok []" "gm_wf [(''f'', demo_meta)]" by (simp_all add: table_ok_def)
  with c admission_is_exclusive [where now = 0 and i = "''s1''" and tok = "\<lambda>_. ''tok''"
      and files = "[(''f'', demo_meta)]" and ip = "''10.0.0.2''" and t = "[]"]
  show ?thesis by (metis (no_types, lifting) prod.collapse)
qed

text \<open>
  In every reachable state of the manager, whatever the order of admissions, cancellations,
  cleanups and steps of the sessions, there are at most a hundred sessions, and the books of
  each are in order: its file count is the number of files still open, and no file has been
  attempted more than three times.
\<close>

theorem session_table_invariant:
  assumes "table_reachable t"
  shows "length t \<le> max_concurrent_sessions \<and>
    (\<forall>i s. map_of t i = Some s \<longrightarrow> sess_id s = i \<and>
       (started s \<longrightarrow> files_count s = int (open_files s) \<and> 0 < open_files s) \<and>
       (\<forall>fid st. map_of (file_states s) fid = Some st \<longrightarrow> us_attempts st \<le> max_checksum_attempts))"
  using table_reachable_ok [OF assms]
  by (auto simp: table_ok_def sess_inv_def attempts_ok_def)

theorem session_table_invariant_witness:
  "length (vacuum 0 new_sess_manager) \<le> 100"
proof -
  have "table_reachable (vacuum 0 new_sess_manager)"
    by (rule table_reachable.step [OF table_reachable.init table_step.clean])
  from session_table_invariant [OF this] show ?thesis by (simp add: max_concurrent_sessions_def)
qed

text \<open>
  Only its owner cancels a session. A cancellation from another address is rejected and
  changes nothing; one from the owner removes exactly that session; an unknown session counts
  as cancelled already.
\<close>

theorem cancel_is_owner_only:
  "kill_session_for_client i ip t =
     (case map_of t i of
        None \<Rightarrow> (None, t)
      | Some s \<Rightarrow> if client_ip s \<noteq> [] \<and> client_ip s \<noteq> ip then (Some ErrRejected, t)
                  else (None, AList.delete i t))"
  by (auto simp: kill_session_for_client_def kill_session_def get_session_def split: option.split)

definition two_files :: file_metas where
  "two_files = [(''f'', demo_meta), (''g'', demo_meta\<lparr>fm_id := ''g''\<rparr>)]"

definition table_after_two :: sess_table where
  "table_after_two =
     snd (create_session_if_allowed (61 * second) ''s2'' (\<lambda>_. ''tok'') two_files ''10.0.0.3''
       (snd (create_session_if_allowed 0 ''s1'' (\<lambda>_. ''tok'') two_files ''10.0.0.2'' [])))"

definition upload_at :: "int \<Rightarrow> string \<Rightarrow> sess_table \<Rightarrow> sess_table" where
  "upload_at now i t =
     (case map_of t i of
        None \<Rightarrow> t
      | Some s \<Rightarrow>
          AList.update i (snd (snd (save_file no_faults demo_sha (\<lambda>_. None) ''/b'' ''f'' ''tok'' (client_ip s)
            \<lparr>body_chunks = [(now, ''hi'')], body_err = False\<rparr> demo_fs s))) t)"

text \<open>
  Exclusiveness does not last. A session whose sender was silent for more than a minute
  counts as stopped, so a second sender is admitted; the first session is still in the table
  until the next cleanup and its sender may go on, and then two sessions are active at once.
\<close>

theorem two_sessions_active:
  "map (\<lambda>p. (fst p, client_ip (snd p), sess_stopped (62 * second) (snd p))) (upload_at 62 ''s1'' table_after_two)
     = [(''s1'', ''10.0.0.2'', False), (''s2'', ''10.0.0.3'', False)]"
  by code_simp

end
