(* ===== verification/Rate_Limiter.thy ===== *)
theory Rate_Limiter
  imports LS_Prelude LS_Errors
begin

text \<open>
  \<open>internal/utils/ratelimit.go\<close> and the PIN gate that \<open>FileReceiver.validatePIN\<close>
  (\<open>recv/recv.go\<close>) and \<open>ReverseSender.validatePIN\<close> (\<open>send/rvsend.go\<close>) build on it with
  the same code. Each clock reading is an argument. The methods run under the limiter's mutex, so
  each is one atomic step; a request is two of them (the check, then the verification of its
  PIN), and \<open>gate_run\<close> interleaves the steps of concurrent requests. The locale
  \<open>attempt_guard\<close> is what the gate needs from a limiter.
\<close>

subsection \<open>The limiter\<close>

record attempt_info =
  att_count :: int
  blocked_at :: time
  last_attempt :: time

record rate_limiter =
  attempts :: "(string, attempt_info) gomap"
  rl_max_attempts :: int
  rl_block_duration :: duration

definition new_rate_limiter :: "int \<Rightarrow> duration \<Rightarrow> rate_limiter" where
  "new_rate_limiter m d = \<lparr>attempts = [], rl_max_attempts = m, rl_block_duration = d\<rparr>"

definition is_blocked :: "time \<Rightarrow> string \<Rightarrow> rate_limiter \<Rightarrow> bool \<times> rate_limiter" where
  "is_blocked now c rl =
     (case map_of (attempts rl) c of
        None \<Rightarrow> (False, rl)
      | Some info \<Rightarrow>
          if rl_max_attempts rl \<le> att_count info then
            (if rl_block_duration rl < time_sub now (blocked_at info)
             then (False, rl\<lparr>attempts := AList.delete c (attempts rl)\<rparr>)
             else (True, rl))
          else (False, rl))"

definition record_attempt :: "time \<Rightarrow> string \<Rightarrow> rate_limiter \<Rightarrow> bool \<times> rate_limiter" where
  "record_attempt now c rl =
     (let info = (case map_of (attempts rl) c of
                    None \<Rightarrow> \<lparr>att_count = 0, blocked_at = zero_time, last_attempt = zero_time\<rparr>
                  | Some i \<Rightarrow> i);
          info1 = info\<lparr>att_count := att_count info + 1, last_attempt := now\<rparr>
      in if rl_max_attempts rl \<le> att_count info1
         then (True, rl\<lparr>attempts := AList.update c (info1\<lparr>blocked_at := now\<rparr>) (attempts rl)\<rparr>)
         else (False, rl\<lparr>attempts := AList.update c info1 (attempts rl)\<rparr>))"

definition clear_attempts :: "string \<Rightarrow> rate_limiter \<Rightarrow> rate_limiter" where
  "clear_attempts c rl = rl\<lparr>attempts := AList.delete c (attempts rl)\<rparr>"

definition stale_entry :: "time \<Rightarrow> rate_limiter \<Rightarrow> attempt_info \<Rightarrow> bool" where
  "stale_entry now rl info \<longleftrightarrow>
     (rl_max_attempts rl \<le> att_count info \<and> rl_block_duration rl < time_sub now (blocked_at info)) \<or>
     (att_count info < rl_max_attempts rl \<and> rl_block_duration rl < time_sub now (last_attempt info))"

definition cleanup_expired :: "time \<Rightarrow> rate_limiter \<Rightarrow> nat \<times> rate_limiter" where
  "cleanup_expired now rl =
     (let kept = gm_keep (\<lambda>c info. \<not> stale_entry now rl info) (attempts rl)
      in (length (attempts rl) - length kept, rl\<lparr>attempts := kept\<rparr>))"

definition rl_count :: "rate_limiter \<Rightarrow> nat" where
  "rl_count rl = length (attempts rl)"

definition get_attempts :: "string \<Rightarrow> rate_limiter \<Rightarrow> int" where
  "get_attempts c rl = (case map_of (attempts rl) c of Some info \<Rightarrow> att_count info | None \<Rightarrow> 0)"

subsection \<open>The PIN gate\<close>

text \<open>
  \<open>validatePIN\<close>: 0 lets the request through. \<open>t1\<close> and \<open>t2\<close> are the two clock readings,
  \<open>pin\<close> the query argument, \<^const>\<open>None\<close> when it is absent.
\<close>

definition validate_pin ::
    "string \<Rightarrow> time \<Rightarrow> time \<Rightarrow> string \<Rightarrow> string option \<Rightarrow> rate_limiter \<Rightarrow> int \<times> rate_limiter" where
  "validate_pin expected t1 t2 ip pin rl =
     (if expected = [] then (0, rl)
      else
        (case is_blocked t1 ip rl of
           (True, rl') \<Rightarrow> (429, rl')
         | (False, rl') \<Rightarrow>
             (case pin of
                None \<Rightarrow> (401, rl')
              | Some p \<Rightarrow>
                  if p \<noteq> expected then (401, snd (record_attempt t2 ip rl'))
                  else (0, clear_attempts ip rl'))))"

text \<open>
  The steps of concurrent requests: \<open>Check\<close> is the block test of one request, \<open>Verify\<close> the
  later comparison of its PIN, \<open>Sweep\<close> the periodic cleanup. \<open>pend\<close> holds the requests
  between their two steps, \<open>wrong\<close> the clients whose guesses were compared and failed.
\<close>

datatype gate_event = Check time string | Verify time string string | Sweep time

record 's gate =
  guard :: 's
  pend :: "string multiset"
  wrong :: "string list"

fun gate_step ::
    "(time \<Rightarrow> string \<Rightarrow> 's \<Rightarrow> bool \<times> 's) \<Rightarrow> (time \<Rightarrow> string \<Rightarrow> 's \<Rightarrow> bool \<times> 's) \<Rightarrow>
     (string \<Rightarrow> 's \<Rightarrow> 's) \<Rightarrow> (time \<Rightarrow> 's \<Rightarrow> nat \<times> 's) \<Rightarrow> string \<Rightarrow> gate_event \<Rightarrow> 's gate \<Rightarrow> 's gate" where
  "gate_step blk rec clr swp expected (Check t c) g =
     (case blk t c (guard g) of
        (True, s') \<Rightarrow> g\<lparr>guard := s'\<rparr>
      | (False, s') \<Rightarrow> g\<lparr>guard := s', pend := add_mset c (pend g)\<rparr>)"
| "gate_step blk rec clr swp expected (Verify t c p) g =
     (if c \<notin># pend g then g
      else if p \<noteq> expected
      then g\<lparr>guard := snd (rec t c (guard g)), pend := pend g - {#c#}, wrong := c # wrong g\<rparr>
      else g\<lparr>guard := clr c (guard g), pend := pend g - {#c#}\<rparr>)"
| "gate_step blk rec clr swp expected (Sweep t) g = g\<lparr>guard := snd (swp t (guard g))\<rparr>"

definition pin_gate_step :: "string \<Rightarrow> gate_event \<Rightarrow> rate_limiter gate \<Rightarrow> rate_limiter gate" where
  "pin_gate_step = gate_step is_blocked record_attempt clear_attempts cleanup_expired"

fun gate_run :: "(gate_event \<Rightarrow> 's gate \<Rightarrow> 's gate) \<Rightarrow> gate_event list \<Rightarrow> 's gate \<Rightarrow> 's gate" where
  "gate_run stp [] g = g"
| "gate_run stp (e # es) g = gate_run stp es (stp e g)"

text \<open>At most \<open>k\<close> requests of \<open>c\<close> are between their two steps at any point of the run.\<close>

fun overlap_le :: "nat \<Rightarrow> string \<Rightarrow> (gate_event \<Rightarrow> 's gate \<Rightarrow> 's gate) \<Rightarrow> gate_event list \<Rightarrow> 's gate \<Rightarrow> bool" where
  "overlap_le k c stp [] g = (count (pend g) c \<le> k)"
| "overlap_le k c stp (e # es) g = (count (pend g) c \<le> k \<and> overlap_le k c stp es (stp e g))"

fun event_time :: "gate_event \<Rightarrow> time" where
  "event_time (Check t c) = t"
| "event_time (Verify t c p) = t"
| "event_time (Sweep t) = t"

fun right_guess :: "string \<Rightarrow> string \<Rightarrow> gate_event \<Rightarrow> bool" where
  "right_guess c expected (Verify t c' p) \<longleftrightarrow> c' = c \<and> p = expected"
| "right_guess c expected _ \<longleftrightarrow> False"

subsection \<open>What the gate needs from a limiter\<close>

text \<open>
  \<open>budget t0 c s\<close> bounds the wrong guesses of \<open>c\<close> that can still be compared in a window that
  starts at \<open>t0\<close> and lasts \<open>span s\<close>, at most \<open>limit s\<close>.
\<close>

locale attempt_guard =
  fixes blk :: "time \<Rightarrow> string \<Rightarrow> 's \<Rightarrow> bool \<times> 's"
    and rec :: "time \<Rightarrow> string \<Rightarrow> 's \<Rightarrow> bool \<times> 's"
    and clr :: "string \<Rightarrow> 's \<Rightarrow> 's"
    and swp :: "time \<Rightarrow> 's \<Rightarrow> nat \<times> 's"
    and ok :: "'s \<Rightarrow> bool"
    and span :: "'s \<Rightarrow> duration"
    and limit :: "'s \<Rightarrow> nat"
    and budget :: "time \<Rightarrow> string \<Rightarrow> 's \<Rightarrow> nat"
  assumes ok_blk: "ok s \<Longrightarrow> ok (snd (blk t c s)) \<and> span (snd (blk t c s)) = span s \<and> limit (snd (blk t c s)) = limit s"
    and ok_rec: "ok s \<Longrightarrow> ok (snd (rec t c s)) \<and> span (snd (rec t c s)) = span s \<and> limit (snd (rec t c s)) = limit s"
    and ok_clr: "ok s \<Longrightarrow> ok (clr c s) \<and> span (clr c s) = span s \<and> limit (clr c s) = limit s"
    and ok_swp: "ok s \<Longrightarrow> ok (snd (swp t s)) \<and> span (snd (swp t s)) = span s \<and> limit (snd (swp t s)) = limit s"
    and limit_pos: "ok s \<Longrightarrow> 1 \<le> limit s"
    and budget_limit: "ok s \<Longrightarrow> budget t0 c s \<le> limit s"
    and spent_blocks:
      "ok s \<Longrightarrow> t0 \<le> t \<Longrightarrow> t \<le> t0 + span s \<Longrightarrow> budget t0 c s = 0 \<Longrightarrow> fst (blk t c s)"
    and blk_budget:
      "ok s \<Longrightarrow> t0 \<le> t \<Longrightarrow> t \<le> t0 + span s \<Longrightarrow> budget t0 c (snd (blk t c' s)) = budget t0 c s"
    and rec_budget: "ok s \<Longrightarrow> t0 \<le> t \<Longrightarrow> budget t0 c (snd (rec t c s)) \<le> budget t0 c s - 1"
    and rec_other: "ok s \<Longrightarrow> c \<noteq> c' \<Longrightarrow> budget t0 c (snd (rec t c' s)) = budget t0 c s"
    and clr_other: "ok s \<Longrightarrow> c \<noteq> c' \<Longrightarrow> budget t0 c (clr c' s) = budget t0 c s"
    and swp_budget:
      "ok s \<Longrightarrow> t0 \<le> t \<Longrightarrow> t \<le> t0 + span s \<Longrightarrow> budget t0 c (snd (swp t s)) = budget t0 c s"
begin

definition within :: "nat \<Rightarrow> nat \<Rightarrow> time \<Rightarrow> string \<Rightarrow> 's gate \<Rightarrow> bool" where
  "within b0 k t0 c g \<longleftrightarrow>
     ok (guard g) \<and>
     (if budget t0 c (guard g) = 0
      then count_list (wrong g) c + count (pend g) c \<le> b0 + k - 1
      else count_list (wrong g) c + budget t0 c (guard g) \<le> b0)"

lemma within_step:
  assumes "within b0 k t0 c g" "1 \<le> k" "t0 \<le> event_time e" "event_time e \<le> t0 + span (guard g)"
    and "count (pend g) c \<le> k" "\<forall>t. e \<noteq> Verify t c expected"
  shows "within b0 k t0 c (gate_step blk rec clr swp expected e g)
    \<and> span (guard (gate_step blk rec clr swp expected e g)) = span (guard g)"
proof (cases e)
  case (Check t c')
  obtain b s' where bs: "blk t c' (guard g) = (b, s')" by fastforce
  have ok: "ok (guard g)" using assms(1) by (simp add: within_def)
  have s': "ok s'" "span s' = span (guard g)" "budget t0 c s' = budget t0 c (guard g)"
    using ok_blk [OF ok, of t c'] blk_budget [OF ok, of t0 t c c'] assms(3,4) Check bs by auto
  have "budget t0 c (guard g) = 0 \<Longrightarrow> c' = c \<Longrightarrow> b"
    using spent_blocks [OF ok, of t0 t c] assms(3,4) Check bs by auto
  with assms(1) s' bs Check show ?thesis by (cases b) (auto simp: within_def)
next
  case (Verify t c' p)
  have ok: "ok (guard g)" using assms(1) by (simp add: within_def)
  have tm: "t0 \<le> t" using assms(3) Verify by simp
  show ?thesis
  proof (cases "c' = c")
    case True
    have p: "p \<noteq> expected" using assms(6) Verify True by blast
    note r = ok_rec [OF ok, of t c] rec_budget [OF ok tm, of c]
    show ?thesis
    proof (cases "c \<in># pend g")
      case False
      with True p assms(1) Verify show ?thesis by simp
    next
      case True2: True
      then have cnt: "0 < count (pend g) c" by simp
      with True True2 p assms(1,2,5) Verify r show ?thesis
        by (cases "budget t0 c (guard g) = 0") (auto simp: within_def)
    qed
  next
    case False
    with assms(1) Verify ok_rec [OF ok, of t c'] ok_clr [OF ok, of c']
      rec_other [OF ok, of c c'] clr_other [OF ok, of c c']
    show ?thesis by (auto simp: within_def)
  qed
next
  case (Sweep t)
  have ok: "ok (guard g)" using assms(1) by (simp add: within_def)
  with assms Sweep ok_swp [OF ok, of t] swp_budget [OF ok, of t0 t c] show ?thesis
    by (auto simp: within_def)
qed

lemma within_run:
  assumes "within b0 k t0 c g" "1 \<le> k"
    and "\<forall>e\<in>set es. t0 \<le> event_time e \<and> event_time e \<le> t0 + span (guard g)"
    and "\<forall>e\<in>set es. \<forall>t. e \<noteq> Verify t c expected"
    and "overlap_le k c (gate_step blk rec clr swp expected) es g"
  shows "within b0 k t0 c (gate_run (gate_step blk rec clr swp expected) es g)"
  using assms
proof (induction es arbitrary: g)
  case Nil
  then show ?case by simp
next
  case (Cons e es)
  let ?g = "gate_step blk rec clr swp expected e g"
  have "within b0 k t0 c ?g \<and> span (guard ?g) = span (guard g)"
    using Cons.prems by (intro within_step) auto
  with Cons.prems Cons.IH [of ?g] show ?case by auto
qed

lemma gate_run_append: "gate_run stp (xs @ ys) g = gate_run stp ys (gate_run stp xs g)"
  by (induction xs arbitrary: g) simp_all

lemma gate_run_ok:
  "ok (guard g) \<Longrightarrow> ok (guard (gate_run (gate_step blk rec clr swp expected) es g)) \<and>
     span (guard (gate_run (gate_step blk rec clr swp expected) es g)) = span (guard g) \<and>
     limit (guard (gate_run (gate_step blk rec clr swp expected) es g)) = limit (guard g)"
proof (induction es arbitrary: g)
  case Nil
  then show ?case by simp
next
  case (Cons e es)
  have "ok (guard (gate_step blk rec clr swp expected e g)) \<and> span (guard (gate_step blk rec clr swp expected e g)) = span (guard g) \<and>
    limit (guard (gate_step blk rec clr swp expected e g)) = limit (guard g)"
    using Cons.prems ok_blk ok_rec ok_clr ok_swp
    by (cases e) (auto split: prod.split bool.split, (metis snd_conv)+)
  with Cons.IH show ?case by simp
qed

text \<open>A stretch of a window without a right guess, from any state.\<close>

lemma stretch_bound:
  assumes "ok (guard g)" "1 \<le> k" "1 \<le> b0" "budget t0 c (guard g) \<le> b0"
    and "\<forall>e\<in>set es. t0 \<le> event_time e \<and> event_time e \<le> t0 + span (guard g)"
    and "\<forall>e\<in>set es. \<forall>t. e \<noteq> Verify t c expected"
    and "overlap_le k c (gate_step blk rec clr swp expected) es g"
  shows "count_list (wrong (gate_run (gate_step blk rec clr swp expected) es g)) c \<le> count_list (wrong g) c + (b0 + k - 1)"
proof -
  let ?w = "count_list (wrong g) c"
  have "count (pend g) c \<le> k" using assms(7) by (cases es) simp_all
  then have "within (?w + b0) k t0 c g" using assms(1-4) by (simp add: within_def) linarith
  from within_run [OF this assms(2,5-7)]
  show ?thesis using assms(2,3) by (auto simp: within_def split: if_splits)
qed

lemma overlap_append:
  "overlap_le k c stp (xs @ ys) g \<Longrightarrow> overlap_le k c stp xs g \<and> overlap_le k c stp ys (gate_run stp xs g)"
proof (induction xs arbitrary: g)
  case Nil
  then show ?case by (cases ys) simp_all
qed auto

text \<open>A whole window, from any state: every right guess may set the count back.\<close>

lemma window_bound:
  assumes "ok (guard g)" "1 \<le> k"
    and "\<forall>e\<in>set es. t0 \<le> event_time e \<and> event_time e \<le> t0 + span (guard g)"
    and "overlap_le k c (gate_step blk rec clr swp expected) es g"
  shows "count_list (wrong (gate_run (gate_step blk rec clr swp expected) es g)) c \<le>
    count_list (wrong g) c + (1 + length (filter (right_guess c expected) es)) * (limit (guard g) + k - 1)"
  using assms
proof (induction "length es" arbitrary: es g rule: less_induct)
  case less
  let ?stp = "gate_step blk rec clr swp expected"
  let ?b = "limit (guard g) + k - 1"
  note stretch = stretch_bound [OF less.prems(1) less.prems(2) limit_pos [OF less.prems(1)] budget_limit [OF less.prems(1)]]
  show ?case
  proof (cases "\<exists>e\<in>set es. right_guess c expected e")
    case False
    then have "\<forall>e\<in>set es. \<forall>t. e \<noteq> Verify t c expected" by force
    from stretch [OF less.prems(3) this less.prems(4)] False show ?thesis by (simp add: filter_empty_conv)
  next
    case True
    then obtain xs e ys where es: "es = xs @ e # ys" "right_guess c expected e" "\<forall>x\<in>set xs. \<not> right_guess c expected x"
      using split_list_first_prop [OF True] by blast
    from es(2) obtain t where e: "e = Verify t c expected" by (cases e) auto
    let ?g1 = "gate_run ?stp xs g"
    let ?g2 = "?stp e ?g1"
    have run: "gate_run ?stp es g = gate_run ?stp ys ?g2" by (simp add: es(1) gate_run_append)
    have over: "overlap_le k c ?stp xs g" "overlap_le k c ?stp ys ?g2"
      using overlap_append [of k c ?stp xs "e # ys" g] less.prems(4) by (simp_all add: es(1))
    have "\<forall>x\<in>set xs. \<forall>t. x \<noteq> Verify t c expected" using es(3) by force
    from stretch [OF _ this over(1), of t0] less.prems(3)
    have 1: "count_list (wrong ?g1) c \<le> count_list (wrong g) c + ?b" by (simp add: es(1))
    have g2: "ok (guard ?g2)" "span (guard ?g2) = span (guard g)" "limit (guard ?g2) = limit (guard g)"
      using gate_run_ok [OF less.prems(1), of expected "xs @ [e]"] by (simp_all add: gate_run_append)
    have w: "wrong ?g2 = wrong ?g1" by (simp add: e)
    have "length ys < length es" by (simp add: es(1))
    from less.hyps [OF this g2(1) less.prems(2) _ over(2)] less.prems(3) g2(2)
    have "count_list (wrong (gate_run ?stp ys ?g2)) c \<le>
      count_list (wrong ?g2) c + (1 + length (filter (right_guess c expected) ys)) * ?b"
      by (simp add: es(1) g2(3))
    with 1 w es(2,3) show ?thesis unfolding run by (simp add: es(1) algebra_simps)
  qed
qed

end

subsection \<open>The limiter meets the contract\<close>

definition rl_ok :: "rate_limiter \<Rightarrow> bool" where
  "rl_ok rl \<longleftrightarrow> gm_wf (attempts rl) \<and> 1 \<le> rl_max_attempts rl \<and> plain_duration (rl_block_duration rl) \<and>
     (\<forall>c i. map_of (attempts rl) c = Some i \<longrightarrow> 1 \<le> att_count i)"

definition rl_budget :: "time \<Rightarrow> string \<Rightarrow> rate_limiter \<Rightarrow> nat" where
  "rl_budget t0 c rl = nat
     (case map_of (attempts rl) c of
        None \<Rightarrow> rl_max_attempts rl
      | Some i \<Rightarrow>
          if rl_max_attempts rl \<le> att_count i
          then (if t0 \<le> blocked_at i then 0 else rl_max_attempts rl)
          else if t0 \<le> last_attempt i then rl_max_attempts rl - att_count i
          else rl_max_attempts rl)"

lemma rl_ok_new: "1 \<le> m \<Longrightarrow> plain_duration d \<Longrightarrow> rl_ok (new_rate_limiter m d)"
  by (simp add: rl_ok_def new_rate_limiter_def)

lemma rl_ok_is_blocked: "rl_ok rl \<Longrightarrow> rl_ok (snd (is_blocked t c rl))"
  by (auto simp: rl_ok_def is_blocked_def delete_conv' distinct_delete
      simp del: map_of_eq_Some_iff split: option.splits if_splits)

lemma rl_ok_record: "rl_ok rl \<Longrightarrow> rl_ok (snd (record_attempt t c rl))"
  by (auto simp: rl_ok_def record_attempt_def Let_def update_conv' distinct_update
      simp del: map_of_eq_Some_iff split: option.splits if_splits) (force+)?

lemma rl_ok_clear: "rl_ok rl \<Longrightarrow> rl_ok (clear_attempts c rl)"
  by (auto simp: rl_ok_def clear_attempts_def delete_conv' distinct_delete
      simp del: map_of_eq_Some_iff split: if_splits)

lemma rl_ok_cleanup: "rl_ok rl \<Longrightarrow> rl_ok (snd (cleanup_expired t rl))"
  by (auto simp: rl_ok_def cleanup_expired_def Let_def get_keep wf_keep
      simp del: map_of_eq_Some_iff split: option.splits if_splits)

lemma rl_config_kept [simp]:
  "rl_block_duration (snd (is_blocked t c rl)) = rl_block_duration rl"
  "rl_block_duration (snd (record_attempt t c rl)) = rl_block_duration rl"
  "rl_block_duration (clear_attempts c rl) = rl_block_duration rl"
  "rl_block_duration (snd (cleanup_expired t rl)) = rl_block_duration rl"
  "rl_max_attempts (snd (is_blocked t c rl)) = rl_max_attempts rl"
  "rl_max_attempts (snd (record_attempt t c rl)) = rl_max_attempts rl"
  "rl_max_attempts (clear_attempts c rl) = rl_max_attempts rl"
  "rl_max_attempts (snd (cleanup_expired t rl)) = rl_max_attempts rl"
  by (auto simp: is_blocked_def record_attempt_def clear_attempts_def cleanup_expired_def Let_def
      split: option.splits)

lemma rl_gt_iff: "rl_ok rl \<Longrightarrow> rl_block_duration rl < time_sub a b \<longleftrightarrow> rl_block_duration rl < a - b"
  by (rule plain_duration_gt_iff) (simp add: rl_ok_def)

lemma rl_budget_cong:
  "map_of (attempts s) c = map_of (attempts s') c \<Longrightarrow> rl_max_attempts s = rl_max_attempts s' \<Longrightarrow>
     rl_budget t0 c s = rl_budget t0 c s'"
  by (simp add: rl_budget_def split: option.split)

lemma rl_other_kept:
  assumes "c \<noteq> c'"
  shows "map_of (attempts (snd (record_attempt t c' s))) c = map_of (attempts s) c"
    and "map_of (attempts (clear_attempts c' s)) c = map_of (attempts s) c"
  using assms by (auto simp: record_attempt_def clear_attempts_def Let_def update_conv' delete_conv')

interpretation rl: attempt_guard is_blocked record_attempt clear_attempts cleanup_expired
  rl_ok rl_block_duration "\<lambda>s. nat (rl_max_attempts s)" rl_budget
proof (unfold_locales, goal_cases)
  case (5 s)
  then show ?case by (simp add: rl_ok_def le_nat_iff)
next
  case (6 s t0 c)
  then have m: "1 \<le> rl_max_attempts s" by (simp add: rl_ok_def)
  show ?case
  proof (cases "map_of (attempts s) c")
    case (Some i)
    with 6 have "1 \<le> att_count i" by (auto simp: rl_ok_def)
    with m Some show ?thesis by (auto simp: rl_budget_def intro: nat_mono)
  qed (simp add: rl_budget_def)
next
  case (7 s t0 t c)
  then have "1 \<le> rl_max_attempts s" by (simp add: rl_ok_def)
  with 7 show ?case
    by (auto simp: rl_budget_def is_blocked_def rl_gt_iff split: option.splits if_splits)
next
  case (8 s t0 t c c')
  show ?case
  proof (cases "map_of (attempts s) c'")
    case None
    then show ?thesis by (simp add: is_blocked_def)
  next
    case (Some i)
    then have "snd (is_blocked t c' s) =
        (if rl_max_attempts s \<le> att_count i \<and> rl_block_duration s < t - blocked_at i
         then clear_attempts c' s else s)"
      using rl_gt_iff [OF 8(1)] by (simp add: is_blocked_def clear_attempts_def)
    moreover have "c' = c \<Longrightarrow> rl_block_duration s < t - blocked_at i \<Longrightarrow> \<not> t0 \<le> blocked_at i"
      using 8(2,3) by simp
    ultimately show ?thesis
      using Some by (cases "map_of (attempts s) c")
        (auto simp: rl_budget_def clear_attempts_def delete_conv' simp del: map_of_eq_Some_iff)
  qed
next
  case (9 s t0 t c)
  show ?case
  proof (cases "map_of (attempts s) c")
    case None
    with 9 show ?thesis
      by (simp add: rl_budget_def record_attempt_def Let_def update_conv') arith
  next
    case (Some i)
    with 9 have "1 \<le> att_count i" "1 \<le> rl_max_attempts s" by (auto simp: rl_ok_def)
    with 9 Some show ?thesis
      by (simp add: rl_budget_def record_attempt_def Let_def update_conv') arith
  qed
next
  case (10 s c c' t0 t)
  then show ?case by (intro rl_budget_cong) (simp_all add: rl_other_kept)
next
  case (11 s c c' t0)
  then show ?case by (intro rl_budget_cong) (simp_all add: rl_other_kept)
next
  case (12 s t0 t c)
  then have "gm_wf (attempts s)" by (simp add: rl_ok_def)
  with 12 show ?case
    by (auto simp: rl_budget_def cleanup_expired_def Let_def stale_entry_def get_keep rl_gt_iff
        simp del: map_of_eq_Some_iff split: option.splits)
qed (simp_all add: rl_ok_is_blocked rl_ok_record rl_ok_clear rl_ok_cleanup)

subsection \<open>Properties\<close>

text \<open>
  C20: PIN guessing is bounded in every window of one block duration, whatever happened before it: after any history of
  the gate, at any times and with any blocks, expiries and cleanups in it, and whatever the order in which the requests
  of the window are checked, verified and cleaned up after, at most \<open>maxAttempts + k - 1\<close> wrong PINs of one client are
  compared in the window, and as many again for each right PIN it gives, when at most \<open>k\<close> of its requests are ever
  between their check and their verification. With one request at a time (\<open>k = 1\<close>) this is \<open>maxAttempts\<close>.
\<close>

theorem wrong_pins_bounded:
  assumes "1 \<le> m" "plain_duration d" "1 \<le> k"
    and "g = gate_run (pin_gate_step expected) history \<lparr>guard = new_rate_limiter m d, pend = {#}, wrong = []\<rparr>"
    and "\<forall>e\<in>set es. t0 \<le> event_time e \<and> event_time e \<le> t0 + d"
    and "overlap_le k c (pin_gate_step expected) es g"
  shows "count_list (wrong (gate_run (pin_gate_step expected) es g)) c \<le>
    count_list (wrong g) c + (1 + length (filter (right_guess c expected) es)) * (nat m + k - 1)"
proof -
  have "rl_ok (new_rate_limiter m d)" using assms(1,2) by (rule rl_ok_new)
  then have "rl_ok (guard g)" "rl_block_duration (guard g) = d" "rl_max_attempts (guard g) = m \<or> nat (rl_max_attempts (guard g)) = nat m"
    using rl.gate_run_ok [of "\<lparr>guard = new_rate_limiter m d, pend = {#}, wrong = []\<rparr>" expected history]
    by (simp_all add: assms(4) pin_gate_step_def new_rate_limiter_def)
  with rl.window_bound [of g k es t0 c expected] assms show ?thesis by (auto simp: pin_gate_step_def)
qed

text \<open>The production limits: three attempts, 30 seconds.\<close>

definition pin_gate0 :: "rate_limiter gate" where
  "pin_gate0 = \<lparr>guard = new_rate_limiter max_pin_attempts pin_block_duration, pend = {#}, wrong = []\<rparr>"

definition racing_guesses :: "gate_event list" where
  "racing_guesses =
     [Check 0 ''a'', Verify 1 ''a'' ''1'', Check 2 ''a'', Verify 3 ''a'' ''2'',
      Check 4 ''a'', Check 5 ''a'', Verify 6 ''a'' ''3'', Verify 7 ''a'' ''4'', Check 8 ''a'']"

lemmas gate_eval = pin_gate_step_def pin_gate0_def racing_guesses_def is_blocked_def record_attempt_def
  new_rate_limiter_def max_pin_attempts_def pin_block_duration_def second_def Let_def
  time_sub_def max_duration_def min_duration_def

text \<open>Four guesses and a block, its end 31 seconds later, and the same guesses again.\<close>

definition later :: "time \<Rightarrow> gate_event \<Rightarrow> gate_event" where
  "later d e = (case e of Check t c \<Rightarrow> Check (t + d) c | Verify t c p \<Rightarrow> Verify (t + d) c p | Sweep t \<Rightarrow> Sweep (t + d))"

theorem wrong_pins_bounded_witness:
  "\<exists>g. g = gate_run (pin_gate_step ''0'') racing_guesses pin_gate0 \<and> count_list (wrong g) ''a'' = 4 \<and>
     count_list (wrong (gate_run (pin_gate_step ''0'') (map (later (31 * second)) racing_guesses) g)) ''a'' \<le> 4 + 4"
proof -
  let ?g = "gate_run (pin_gate_step ''0'') racing_guesses pin_gate0"
  let ?es = "map (later (31 * second)) racing_guesses"
  have w: "count_list (wrong ?g) ''a'' = 4" by (simp add: gate_eval)
  have "overlap_le 2 ''a'' (pin_gate_step ''0'') ?es ?g" by (simp add: gate_eval later_def)
  moreover have "\<forall>e\<in>set ?es. 31 * second \<le> event_time e \<and> event_time e \<le> 31 * second + 30 * second"
    by (simp add: racing_guesses_def later_def second_def)
  moreover have "plain_duration (30 * second)"
    by (simp add: plain_duration_def second_def max_duration_def)
  moreover have "filter (right_guess ''a'' ''0'') ?es = []" by (simp add: racing_guesses_def later_def)
  ultimately show ?thesis
    using w wrong_pins_bounded [of 3 "30 * second" 2 ?g "''0''" racing_guesses ?es "31 * second" "''a''"]
    by (simp add: pin_gate0_def max_pin_attempts_def pin_block_duration_def)
qed

text \<open>
  The bound is reached: the check and the record of an attempt are separate critical
  sections, so with two requests in flight a client gets a fourth guess compared, one more
  than the configured three, before it is blocked.
\<close>

theorem racing_pins_exceed_limit:
  "count_list (wrong (gate_run (pin_gate_step ''0'') racing_guesses pin_gate0)) ''a''
     = nat max_pin_attempts + 1"
  by (simp add: gate_eval)

text \<open>
  A client is turned away exactly while it has used up its attempts and the block duration
  since the last of them has not passed (the end instant included); the check that finds the
  block over forgets the client, so that it starts again from zero attempts.
\<close>

theorem block_lasts_exactly:
  assumes "rl_ok rl"
  shows "(fst (is_blocked t c rl) \<longleftrightarrow>
        (\<exists>i. map_of (attempts rl) c = Some i \<and> rl_max_attempts rl \<le> att_count i \<and>
             t \<le> blocked_at i + rl_block_duration rl)) \<and>
     (\<not> fst (is_blocked t c rl) \<longrightarrow> rl_max_attempts rl \<le> get_attempts c rl \<longrightarrow>
        get_attempts c (snd (is_blocked t c rl)) = 0)"
proof (cases "map_of (attempts rl) c")
  case None
  with assms show ?thesis by (simp add: is_blocked_def get_attempts_def)
next
  case (Some i)
  with rl_gt_iff [OF assms, of t "blocked_at i"] show ?thesis
    by (auto simp: is_blocked_def get_attempts_def delete_conv' simp del: map_of_eq_Some_iff)
qed

theorem block_lasts_exactly_witness:
  "fst (is_blocked (30 * second + 7) ''a''
      \<lparr>attempts = [(''a'', \<lparr>att_count = 3, blocked_at = 7, last_attempt = 7\<rparr>)],
       rl_max_attempts = 3, rl_block_duration = 30 * second\<rparr>)"
proof -
  have "rl_ok \<lparr>attempts = [(''a'', \<lparr>att_count = 3, blocked_at = 7, last_attempt = 7\<rparr>)],
       rl_max_attempts = 3, rl_block_duration = 30 * second\<rparr>"
    by (simp add: rl_ok_def plain_duration_def second_def max_duration_def)
  from block_lasts_exactly [OF this, of "30 * second + 7" "''a''"] show ?thesis by simp
qed

text \<open>
  The periodic cleanup is invisible to the block: for every client and every later instant
  the verdict of \<open>IsBlocked\<close> is the one it would have given without the cleanup.
\<close>

theorem cleanup_keeps_verdicts:
  assumes "rl_ok rl" "t \<le> t'"
  shows "fst (is_blocked t' c (snd (cleanup_expired t rl))) = fst (is_blocked t' c rl)"
proof -
  have ok': "rl_ok (snd (cleanup_expired t rl))" using assms(1) by (rule rl_ok_cleanup)
  have wf: "gm_wf (attempts rl)" using assms(1) by (simp add: rl_ok_def)
  have "map_of (attempts (snd (cleanup_expired t rl))) c =
      (case map_of (attempts rl) c of None \<Rightarrow> None
       | Some i \<Rightarrow> if stale_entry t rl i then None else Some i)"
    using wf by (simp add: cleanup_expired_def Let_def get_keep split: option.split)
  then show ?thesis
    using assms(2) rl_gt_iff [OF assms(1)] rl_gt_iff [OF ok']
    by (auto simp: is_blocked_def stale_entry_def simp del: map_of_eq_Some_iff split: option.splits)
qed

theorem cleanup_keeps_verdicts_witness:
  "fst (is_blocked (30 * second) ''a'' (snd (cleanup_expired (30 * second)
      \<lparr>attempts = [(''a'', \<lparr>att_count = 3, blocked_at = 7, last_attempt = 7\<rparr>)],
       rl_max_attempts = 3, rl_block_duration = 30 * second\<rparr>)))"
proof -
  have "rl_ok \<lparr>attempts = [(''a'', \<lparr>att_count = 3, blocked_at = 7, last_attempt = 7\<rparr>)],
       rl_max_attempts = 3, rl_block_duration = 30 * second\<rparr>"
    by (simp add: rl_ok_def plain_duration_def second_def max_duration_def)
  from cleanup_keeps_verdicts [OF this, of "30 * second" "30 * second" "''a''"] show ?thesis
    by (simp add: is_blocked_def time_sub_def second_def max_duration_def min_duration_def)
qed

text \<open>
  A request is its two steps: the answer of \<open>validatePIN\<close> decides which of them run, and they
  take the limiter to the same state.
\<close>

lemma validate_pin_as_steps:
  assumes "expected \<noteq> []" "c \<notin># pend g"
  shows "snd (validate_pin expected t1 t2 c (Some p) (guard g)) =
     guard (gate_run (pin_gate_step expected) [Check t1 c, Verify t2 c p] g)"
  using assms
  by (auto simp: validate_pin_def pin_gate_step_def split: prod.splits bool.splits)

end
