(* ===== verification/Nonce_Cache.thy ===== *)
theory Nonce_Cache
  imports LS_Prelude
begin

text \<open>
  \<open>internal/localsend/nonce_cache.go\<close>: the LRU cache of nonces. As in Go, a map leads from a
  client to an element of a doubly linked list; an element is named by an address, \<open>nc_lru\<close>
  is the list from front to back and \<open>nc_fresh\<close> the next unused address. The theory shows that
  this refines a plain list of entries ordered by use. The locale \<open>bounded_store\<close> is what the
  users of a bounded cache rely on.
\<close>

record nonce_cache =
  nc_capacity :: nat
  nc_cache :: "(string, nat) gomap"
  nc_lru :: "(nat \<times> string \<times> bytes) list"
  nc_fresh :: nat

definition new_nonce_cache :: "nat \<Rightarrow> nonce_cache" where
  "new_nonce_cache c = \<lparr>nc_capacity = c, nc_cache = [], nc_lru = [], nc_fresh = 0\<rparr>"

definition move_to_front :: "nat \<Rightarrow> (nat \<times> string \<times> bytes) list \<Rightarrow> (nat \<times> string \<times> bytes) list" where
  "move_to_front e l = filter (\<lambda>x. fst x = e) l @ filter (\<lambda>x. fst x \<noteq> e) l"

definition set_nonce :: "nat \<Rightarrow> bytes \<Rightarrow> (nat \<times> string \<times> bytes) list \<Rightarrow> (nat \<times> string \<times> bytes) list" where
  "set_nonce e n l = map (\<lambda>x. if fst x = e then (e, fst (snd x), n) else x) l"

definition nonce_put :: "string \<Rightarrow> bytes \<Rightarrow> nonce_cache \<Rightarrow> nonce_cache" where
  "nonce_put c n nc =
     (case map_of (nc_cache nc) c of
        Some e \<Rightarrow> nc\<lparr>nc_lru := set_nonce e n (move_to_front e (nc_lru nc))\<rparr>
      | None \<Rightarrow>
          (let e = nc_fresh nc;
               l = (e, c, n) # nc_lru nc;
               m = AList.update c e (nc_cache nc)
           in if nc_capacity nc < length l
              then nc\<lparr>nc_lru := butlast l, nc_cache := AList.delete (fst (snd (last l))) m, nc_fresh := Suc e\<rparr>
              else nc\<lparr>nc_lru := l, nc_cache := m, nc_fresh := Suc e\<rparr>))"

definition nonce_get :: "string \<Rightarrow> nonce_cache \<Rightarrow> bytes option \<times> nonce_cache" where
  "nonce_get c nc =
     (case map_of (nc_cache nc) c of
        None \<Rightarrow> (None, nc)
      | Some e \<Rightarrow>
          (let l = move_to_front e (nc_lru nc)
           in (map_option snd (map_of l e), nc\<lparr>nc_lru := l\<rparr>)))"

definition nonce_delete :: "string \<Rightarrow> nonce_cache \<Rightarrow> nonce_cache" where
  "nonce_delete c nc =
     (case map_of (nc_cache nc) c of
        None \<Rightarrow> nc
      | Some e \<Rightarrow> nc\<lparr>nc_lru := filter (\<lambda>x. fst x \<noteq> e) (nc_lru nc), nc_cache := AList.delete c (nc_cache nc)\<rparr>)"

subsection \<open>The specification\<close>

text \<open>Entries from the most to the least recently used.\<close>

type_synonym lru_list = "(string \<times> bytes) list"

definition lru_touch :: "string \<Rightarrow> bytes \<Rightarrow> lru_list \<Rightarrow> lru_list" where
  "lru_touch c n l = (c, n) # filter (\<lambda>p. fst p \<noteq> c) l"

definition lru_put :: "nat \<Rightarrow> string \<Rightarrow> bytes \<Rightarrow> lru_list \<Rightarrow> lru_list" where
  "lru_put cap c n l = (let l' = lru_touch c n l in if map_of l c = None then take cap l' else l')"

definition lru_get :: "string \<Rightarrow> lru_list \<Rightarrow> bytes option \<times> lru_list" where
  "lru_get c l = (case map_of l c of None \<Rightarrow> (None, l) | Some n \<Rightarrow> (Some n, lru_touch c n l))"

definition lru_delete :: "string \<Rightarrow> lru_list \<Rightarrow> lru_list" where
  "lru_delete c l = filter (\<lambda>p. fst p \<noteq> c) l"

definition nc_abs :: "nonce_cache \<Rightarrow> lru_list" where
  "nc_abs nc = map snd (nc_lru nc)"

definition nc_inv :: "nonce_cache \<Rightarrow> bool" where
  "nc_inv nc \<longleftrightarrow>
     gm_wf (nc_cache nc) \<and> distinct (map fst (nc_lru nc)) \<and> distinct (map fst (nc_abs nc)) \<and>
     (\<forall>e c n. (e, c, n) \<in> set (nc_lru nc) \<longrightarrow> map_of (nc_cache nc) c = Some e \<and> e < nc_fresh nc) \<and>
     (\<forall>c e. map_of (nc_cache nc) c = Some e \<longrightarrow> (\<exists>n. (e, c, n) \<in> set (nc_lru nc))) \<and>
     length (nc_lru nc) \<le> nc_capacity nc"

lemma nc_lookup:
  assumes "nc_inv nc"
  shows "map_of (nc_abs nc) c = None \<longleftrightarrow> map_of (nc_cache nc) c = None"
    and "map_of (nc_cache nc) c = Some e \<Longrightarrow>
      \<exists>xs n ys. nc_lru nc = xs @ (e, c, n) # ys \<and> (\<forall>x\<in>set (xs @ ys). fst x \<noteq> e \<and> fst (snd x) \<noteq> c) \<and>
        map_of (nc_abs nc) c = Some n"
proof -
  have "c \<in> fst ` set (nc_abs nc) \<longleftrightarrow> (\<exists>e n. (e, c, n) \<in> set (nc_lru nc))"
    by (force simp: nc_abs_def)
  also have "\<dots> \<longleftrightarrow> map_of (nc_cache nc) c \<noteq> None"
    using assms unfolding nc_inv_def by blast
  finally show "map_of (nc_abs nc) c = None \<longleftrightarrow> map_of (nc_cache nc) c = None"
    by (simp add: map_of_eq_None_iff)
  assume e: "map_of (nc_cache nc) c = Some e"
  with assms obtain n where n: "(e, c, n) \<in> set (nc_lru nc)" unfolding nc_inv_def by blast
  then obtain xs ys where l: "nc_lru nc = xs @ (e, c, n) # ys" by (meson split_list)
  have d: "distinct (map fst (nc_lru nc))" "distinct (map fst (nc_abs nc))"
    using assms by (simp_all add: nc_inv_def)
  have "e \<notin> fst ` set (xs @ ys)" using d(1) unfolding l by auto
  moreover have "c \<notin> (\<lambda>x. fst (snd x)) ` set (xs @ ys)"
    using d(2) unfolding l nc_abs_def by (auto simp: image_image)
  ultimately have "\<forall>x\<in>set (xs @ ys). fst x \<noteq> e \<and> fst (snd x) \<noteq> c" by blast
  moreover have "map_of (nc_abs nc) c = Some n"
    unfolding map_of_eq_Some_iff [OF d(2)] using n by (force simp: nc_abs_def)
  ultimately show "\<exists>xs n ys. nc_lru nc = xs @ (e, c, n) # ys \<and> (\<forall>x\<in>set (xs @ ys). fst x \<noteq> e \<and> fst (snd x) \<noteq> c) \<and>
        map_of (nc_abs nc) c = Some n"
    using l by blast
qed

lemma nc_inv_new: "nc_inv (new_nonce_cache cap)"
  by (simp add: nc_inv_def new_nonce_cache_def nc_abs_def)

text \<open>Elements other than \<open>e\<close>, the element of client \<open>c\<close>.\<close>

lemma front_of:
  assumes "nc_lru nc = xs @ (e, c, n) # ys" "\<forall>x\<in>set (xs @ ys). fst x \<noteq> e \<and> fst (snd x) \<noteq> c"
  shows "move_to_front e (nc_lru nc) = (e, c, n) # xs @ ys"
    and "filter (\<lambda>x. fst x \<noteq> e) (nc_lru nc) = xs @ ys"
    and "filter (\<lambda>p. fst p \<noteq> c) (nc_abs nc) = map snd (xs @ ys)"
    and "set_nonce e n' ((e, c, n) # xs @ ys) = (e, c, n') # xs @ ys"
proof -
  have k: "filter (\<lambda>x. fst x = e) zs = [] \<and> filter (\<lambda>x. fst x \<noteq> e) zs = zs \<and>
      filter (\<lambda>p. fst p \<noteq> c) (map snd zs) = map snd zs \<and> set_nonce e n' zs = zs"
    if "set zs \<subseteq> set (xs @ ys)" for zs
    using that assms(2)
    by (induction zs) (auto simp: set_nonce_def)
  have kx: "set xs \<subseteq> set (xs @ ys)" "set ys \<subseteq> set (xs @ ys)" by auto
  show "move_to_front e (nc_lru nc) = (e, c, n) # xs @ ys"
    "filter (\<lambda>x. fst x \<noteq> e) (nc_lru nc) = xs @ ys"
    "filter (\<lambda>p. fst p \<noteq> c) (nc_abs nc) = map snd (xs @ ys)"
    using k [OF kx(1)] k [OF kx(2)] by (simp_all add: assms(1) nc_abs_def move_to_front_def)
  have "set_nonce e n' (xs @ ys) = xs @ ys" using k [of "xs @ ys"] by blast
  then show "set_nonce e n' ((e, c, n) # xs @ ys) = (e, c, n') # xs @ ys"
    by (simp add: set_nonce_def)
qed

lemma nc_inv_front:
  assumes "nc_inv nc" "nc_lru nc = xs @ (e, c, n) # ys"
  shows "nc_inv (nc\<lparr>nc_lru := (e, c, n') # xs @ ys\<rparr>)"
proof -
  have s: "set ((e, c, n') # xs @ ys) = insert (e, c, n') (set xs \<union> set ys)" by auto
  have "distinct (map fst ((e, c, n') # xs @ ys))" "distinct (map fst (map snd ((e, c, n') # xs @ ys)))"
    using assms by (auto simp: nc_inv_def nc_abs_def)
  moreover have "map_of (nc_cache nc) c' = Some e' \<and> e' < nc_fresh nc"
    if "(e', c', m) \<in> set ((e, c, n') # xs @ ys)" for e' c' m
  proof -
    from that have "\<exists>m'. (e', c', m') \<in> set (nc_lru nc)" unfolding assms(2) by auto
    with assms(1) show ?thesis unfolding nc_inv_def by blast
  qed
  moreover have "\<exists>m. (e', c', m) \<in> set ((e, c, n') # xs @ ys)" if "map_of (nc_cache nc) c' = Some e'" for e' c'
  proof -
    from that assms(1) obtain m where "(e', c', m) \<in> set (nc_lru nc)" unfolding nc_inv_def by blast
    then show ?thesis unfolding assms(2) by auto
  qed
  ultimately show ?thesis using assms by (simp add: nc_inv_def nc_abs_def)
qed

lemma nonce_put_old:
  assumes "nc_inv nc" "map_of (nc_cache nc) c = Some e"
  shows "nc_inv (nonce_put c n nc) \<and> nc_abs (nonce_put c n nc) = lru_put cap c n (nc_abs nc)"
proof -
  obtain xs m ys where l: "nc_lru nc = xs @ (e, c, m) # ys"
    and o: "\<forall>x\<in>set (xs @ ys). fst x \<noteq> e \<and> fst (snd x) \<noteq> c" and v: "map_of (nc_abs nc) c = Some m"
    using nc_lookup(2) [OF assms] by blast
  note f = front_of [OF l o]
  have p: "nonce_put c n nc = nc\<lparr>nc_lru := (e, c, n) # xs @ ys\<rparr>"
    using assms(2) by (simp add: nonce_put_def f)
  have "nc_abs (nonce_put c n nc) = lru_put cap c n (nc_abs nc)"
    using v by (simp add: p nc_abs_def [of "nc\<lparr>nc_lru := _\<rparr>"] lru_put_def lru_touch_def f(3))
  with nc_inv_front [OF assms(1) l] p show ?thesis by simp
qed

lemma nonce_put_new:
  assumes "nc_inv nc" "map_of (nc_cache nc) c = None"
  shows "nc_inv (nonce_put c n nc) \<and> nc_abs (nonce_put c n nc) = lru_put (nc_capacity nc) c n (nc_abs nc)"
proof -
  let ?e = "nc_fresh nc" and ?l = "(nc_fresh nc, c, n) # nc_lru nc"
  let ?m = "AList.update c ?e (nc_cache nc)"
  have v: "map_of (nc_abs nc) c = None" using nc_lookup(1) [OF assms(1)] assms(2) by simp
  then have nin: "c \<notin> fst ` set (nc_abs nc)" by (simp add: map_of_eq_None_iff)
  then have t: "lru_touch c n (nc_abs nc) = map snd ?l"
    by (auto simp: lru_touch_def nc_abs_def filter_id_conv image_iff)
  have len: "length (nc_lru nc) \<le> nc_capacity nc" using assms(1) by (simp add: nc_inv_def)
  have dl: "distinct (map fst ?l)" "distinct (map (\<lambda>x. fst (snd x)) ?l)"
  proof -
    have "?e \<notin> fst ` set (nc_lru nc)"
    proof
      assume "?e \<in> fst ` set (nc_lru nc)"
      then obtain c' m' where "(?e, c', m') \<in> set (nc_lru nc)" by force
      with assms(1) have "?e < ?e" unfolding nc_inv_def by blast
      then show False by simp
    qed
    then show "distinct (map fst ?l)" using assms(1) by (simp add: nc_inv_def)
    have "c \<notin> (\<lambda>x. fst (snd x)) ` set (nc_lru nc)" using nin by (simp add: nc_abs_def image_image)
    then show "distinct (map (\<lambda>x. fst (snd x)) ?l)"
      using assms(1) by (simp add: nc_inv_def nc_abs_def comp_def)
  qed
  have m: "map_of ?m c' = Some e' \<and> e' < Suc ?e" if "(e', c', m') \<in> set ?l" for e' c' m'
  proof (cases "c' = c")
    case True
    have "(e', c', m') \<notin> set (nc_lru nc)"
      using nin True by (auto simp: nc_abs_def image_image intro: rev_image_eqI)
    with that have "e' = ?e" by simp
    with True show ?thesis by (simp add: update_conv')
  next
    case False
    with that have "(e', c', m') \<in> set (nc_lru nc)" by simp
    with assms(1) have "map_of (nc_cache nc) c' = Some e'" "e' < ?e" unfolding nc_inv_def by blast+
    with False show ?thesis by (simp add: update_conv')
  qed
  have b: "\<exists>m'. (e', c', m') \<in> set ?l" if "map_of ?m c' = Some e'" for e' c'
  proof (cases "c' = c")
    case True
    with that show ?thesis by (auto simp: update_conv')
  next
    case False
    with that have "map_of (nc_cache nc) c' = Some e'" by (simp add: update_conv')
    with assms(1) obtain m' where "(e', c', m') \<in> set (nc_lru nc)" unfolding nc_inv_def by blast
    then show ?thesis by auto
  qed
  have wf: "gm_wf ?m" using assms(1) by (simp add: nc_inv_def distinct_update)
  show ?thesis
  proof (cases "nc_capacity nc < length ?l")
    case False
    then have p: "nonce_put c n nc = nc\<lparr>nc_lru := ?l, nc_cache := ?m, nc_fresh := Suc ?e\<rparr>"
      using assms(2) by (simp add: nonce_put_def Let_def)
    have "nc_inv (nonce_put c n nc)"
      using dl m b wf False unfolding p nc_inv_def nc_abs_def by (simp add: comp_def)
    moreover have "nc_abs (nonce_put c n nc) = lru_put (nc_capacity nc) c n (nc_abs nc)"
      using v t False by (simp add: p lru_put_def Let_def nc_abs_def [of "nc\<lparr>nc_lru := _, nc_cache := _, nc_fresh := _\<rparr>"])
    ultimately show ?thesis by blast
  next
    case True
    obtain el cl nl where last: "last ?l = (el, cl, nl)" by (metis prod_cases3)
    have p: "nonce_put c n nc = nc\<lparr>nc_lru := butlast ?l, nc_cache := AList.delete cl ?m, nc_fresh := Suc ?e\<rparr>"
      using assms(2) True last by (simp add: nonce_put_def Let_def)
    have spl: "?l = butlast ?l @ [(el, cl, nl)]"
      using last append_butlast_last_id [of ?l] by (simp only: list.distinct not_False_eq_True)
    have d1: "distinct (map fst (butlast ?l @ [(el, cl, nl)]))"
      "distinct (map (\<lambda>x. fst (snd x)) (butlast ?l @ [(el, cl, nl)]))"
      using dl unfolding spl [symmetric] by blast+
    have ne: "c' \<noteq> cl" if "(e', c', m') \<in> set (butlast ?l)" for e' c' m'
    proof
      assume "c' = cl"
      with that have "cl \<in> (\<lambda>x. fst (snd x)) ` set (butlast ?l)" by force
      moreover have "cl \<notin> (\<lambda>x. fst (snd x)) ` set (butlast ?l)" using d1(2) by simp
      ultimately show False by blast
    qed
    have m': "map_of (AList.delete cl ?m) c' = Some e' \<and> e' < Suc ?e"
      if "(e', c', m') \<in> set (butlast ?l)" for e' c' m'
      using m [OF in_set_butlastD [OF that]] ne [OF that] by (simp add: delete_conv')
    have b': "\<exists>m'. (e', c', m') \<in> set (butlast ?l)" if "map_of (AList.delete cl ?m) c' = Some e'" for e' c'
    proof -
      from that have c': "c' \<noteq> cl" "map_of ?m c' = Some e'" by (auto simp: delete_conv' split: if_splits)
      from b [OF c'(2)] obtain m' where "(e', c', m') \<in> set ?l" by blast
      then have "(e', c', m') \<in> set (butlast ?l @ [(el, cl, nl)])" by (simp only: spl [symmetric])
      with c'(1) show ?thesis by auto
    qed
    have "length ?l = Suc (nc_capacity nc)" using True len by simp
    then have bl: "butlast ?l = take (nc_capacity nc) ?l" by (simp only: butlast_conv_take) simp
    have "nc_inv (nonce_put c n nc)"
      using d1 m' b' wf \<open>length ?l = Suc (nc_capacity nc)\<close> unfolding p nc_inv_def nc_abs_def
      by (simp add: comp_def distinct_delete del: butlast.simps)
    moreover have "nc_abs (nonce_put c n nc) = take (nc_capacity nc) (map snd ?l)"
      unfolding p nc_abs_def by (simp add: bl take_map del: butlast.simps list.map)
    ultimately show ?thesis using v t by (simp add: lru_put_def Let_def)
  qed
qed

lemma nonce_put_refines:
  "nc_inv nc \<Longrightarrow> nc_inv (nonce_put c n nc) \<and> nc_abs (nonce_put c n nc) = lru_put (nc_capacity nc) c n (nc_abs nc)"
  by (cases "map_of (nc_cache nc) c") (auto simp: nonce_put_new nonce_put_old)

lemma nonce_get_refines:
  assumes "nc_inv nc"
  shows "nc_inv (snd (nonce_get c nc)) \<and> fst (nonce_get c nc) = fst (lru_get c (nc_abs nc)) \<and>
    nc_abs (snd (nonce_get c nc)) = snd (lru_get c (nc_abs nc))"
proof (cases "map_of (nc_cache nc) c")
  case None
  with nc_lookup(1) [OF assms, of c] assms show ?thesis by (simp add: nonce_get_def lru_get_def)
next
  case (Some e)
  obtain xs m ys where l: "nc_lru nc = xs @ (e, c, m) # ys"
    and o: "\<forall>x\<in>set (xs @ ys). fst x \<noteq> e \<and> fst (snd x) \<noteq> c" and v: "map_of (nc_abs nc) c = Some m"
    using nc_lookup(2) [OF assms Some] by blast
  note f = front_of [OF l o]
  have "nonce_get c nc = (Some m, nc\<lparr>nc_lru := (e, c, m) # xs @ ys\<rparr>)"
    using Some by (simp add: nonce_get_def Let_def f(1))
  with nc_inv_front [OF assms l] v show ?thesis
    by (simp add: lru_get_def lru_touch_def f(3) nc_abs_def [of "nc\<lparr>nc_lru := _\<rparr>"])
qed

lemma nonce_delete_refines:
  assumes "nc_inv nc"
  shows "nc_inv (nonce_delete c nc) \<and> nc_abs (nonce_delete c nc) = lru_delete c (nc_abs nc)"
proof (cases "map_of (nc_cache nc) c")
  case None
  then have "c \<notin> fst ` set (nc_abs nc)"
    using nc_lookup(1) [OF assms, of c] by (simp add: map_of_eq_None_iff)
  then have "lru_delete c (nc_abs nc) = nc_abs nc" by (auto simp: lru_delete_def filter_id_conv)
  with None assms show ?thesis by (simp add: nonce_delete_def)
next
  case (Some e)
  obtain xs m ys where l: "nc_lru nc = xs @ (e, c, m) # ys"
    and o: "\<forall>x\<in>set (xs @ ys). fst x \<noteq> e \<and> fst (snd x) \<noteq> c"
    using nc_lookup(2) [OF assms Some] by blast
  note f = front_of [OF l o]
  let ?nc = "nc\<lparr>nc_lru := xs @ ys, nc_cache := AList.delete c (nc_cache nc)\<rparr>"
  have p: "nonce_delete c nc = ?nc" using Some by (simp add: nonce_delete_def f(2))
  have "map_of (AList.delete c (nc_cache nc)) c' = Some e' \<and> e' < nc_fresh nc"
    if "(e', c', n') \<in> set (xs @ ys)" for e' c' n'
  proof -
    from that have "(e', c', n') \<in> set (nc_lru nc)" by (auto simp: l)
    with assms have "map_of (nc_cache nc) c' = Some e'" "e' < nc_fresh nc" unfolding nc_inv_def by blast+
    moreover have "c' \<noteq> c" using o that by fastforce
    ultimately show ?thesis by (simp add: delete_conv')
  qed
  moreover have "\<exists>n'. (e', c', n') \<in> set (xs @ ys)"
    if "map_of (AList.delete c (nc_cache nc)) c' = Some e'" for e' c'
  proof -
    from that have "c' \<noteq> c" "map_of (nc_cache nc) c' = Some e'" by (auto simp: delete_conv' split: if_splits)
    with assms obtain n' where "(e', c', n') \<in> set (nc_lru nc)" unfolding nc_inv_def by blast
    with \<open>c' \<noteq> c\<close> show ?thesis by (auto simp: l)
  qed
  ultimately have "nc_inv ?nc"
    using assms by (auto simp: nc_inv_def nc_abs_def l distinct_delete)
  with p f(3) show ?thesis by (simp add: lru_delete_def nc_abs_def [of ?nc])
qed

subsection \<open>The cache as a bounded store\<close>

text \<open>The capacity both caches of the receiver are created with.\<close>

definition nonce_capacity :: nat where
  "nonce_capacity = 200"

definition nc_ok :: "nonce_cache \<Rightarrow> bool" where
  "nc_ok nc \<longleftrightarrow> nc_inv nc \<and> nc_capacity nc = nonce_capacity"

lemma nonce_put_capacity [simp]: "nc_capacity (nonce_put c n nc) = nc_capacity nc"
  by (simp add: nonce_put_def Let_def split: option.split)

lemma map_of_take_other:
  "map_of (take k l) c = None \<or> map_of (take k l) c = map_of l c"
  by (induction l arbitrary: k) (auto simp: take_Cons split: nat.splits if_splits)

lemma map_of_filter_other: "c' \<noteq> c \<Longrightarrow> map_of (filter (\<lambda>p. fst p \<noteq> c) l) c' = map_of l c'"
  by (induction l) auto

lemma lru_put_peek: "1 \<le> cap \<Longrightarrow> map_of (lru_put cap c n l) c = Some n"
  by (cases cap) (auto simp: lru_put_def lru_touch_def Let_def)

lemma lru_put_peek_other:
  "c' \<noteq> c \<Longrightarrow> map_of (lru_put cap c n l) c' = None \<or> map_of (lru_put cap c n l) c' = map_of l c'"
  using map_of_take_other [of cap "lru_touch c n l" c']
  by (auto simp: lru_put_def lru_touch_def map_of_filter_other Let_def)

interpretation nonces: bounded_store "\<lambda>nc. map_of (nc_abs nc)" nonce_put "\<lambda>nc. length (nc_lru nc)"
  nonce_capacity nc_ok "\<lambda>_ _. True"
proof (unfold_locales, goal_cases)
  case (1 s k v)
  then show ?case using nonce_put_refines by (simp add: nc_ok_def)
next
  case (2 s)
  then show ?case by (simp add: nc_ok_def nc_inv_def)
next
  case (3 s k v)
  then have "nc_abs (nonce_put k v s) = lru_put 200 k v (nc_abs s)"
    using nonce_put_refines by (simp add: nc_ok_def nonce_capacity_def)
  then show ?case by (simp only:) (simp add: lru_put_peek)
next
  case (4 s k v k')
  then have "nc_abs (nonce_put k v s) = lru_put 200 k v (nc_abs s)"
    using nonce_put_refines by (simp add: nc_ok_def nonce_capacity_def)
  then show ?case by (simp only:) (rule lru_put_peek_other [OF 4(3)])
qed

subsection \<open>Runs\<close>

datatype nonce_op = NPut string bytes | NGet string | NDelete string

fun nonce_step :: "nonce_op \<Rightarrow> nonce_cache \<Rightarrow> bytes option \<times> nonce_cache" where
  "nonce_step (NPut c n) nc = (None, nonce_put c n nc)"
| "nonce_step (NGet c) nc = nonce_get c nc"
| "nonce_step (NDelete c) nc = (None, nonce_delete c nc)"

fun lru_step :: "nat \<Rightarrow> nonce_op \<Rightarrow> lru_list \<Rightarrow> bytes option \<times> lru_list" where
  "lru_step cap (NPut c n) l = (None, lru_put cap c n l)"
| "lru_step cap (NGet c) l = lru_get c l"
| "lru_step cap (NDelete c) l = (None, lru_delete c l)"

fun nonce_run :: "nonce_op list \<Rightarrow> nonce_cache \<Rightarrow> bytes option list \<times> nonce_cache" where
  "nonce_run [] nc = ([], nc)"
| "nonce_run (e # es) nc =
     (case nonce_step e nc of (r, nc1) \<Rightarrow> (case nonce_run es nc1 of (rs, nc2) \<Rightarrow> (r # rs, nc2)))"

fun lru_run :: "nat \<Rightarrow> nonce_op list \<Rightarrow> lru_list \<Rightarrow> bytes option list \<times> lru_list" where
  "lru_run cap [] l = ([], l)"
| "lru_run cap (e # es) l =
     (case lru_step cap e l of (r, l1) \<Rightarrow> (case lru_run cap es l1 of (rs, l2) \<Rightarrow> (r # rs, l2)))"

lemma nonce_get_capacity [simp]: "nc_capacity (snd (nonce_get c nc)) = nc_capacity nc"
  by (simp add: nonce_get_def Let_def split: option.split)

lemma nonce_delete_capacity [simp]: "nc_capacity (nonce_delete c nc) = nc_capacity nc"
  by (simp add: nonce_delete_def split: option.split)

lemma nonce_step_refines:
  "nc_inv nc \<Longrightarrow> nc_inv (snd (nonce_step e nc)) \<and> nc_capacity (snd (nonce_step e nc)) = nc_capacity nc \<and>
     fst (nonce_step e nc) = fst (lru_step (nc_capacity nc) e (nc_abs nc)) \<and>
     nc_abs (snd (nonce_step e nc)) = snd (lru_step (nc_capacity nc) e (nc_abs nc))"
  by (cases e) (simp_all add: nonce_put_refines nonce_get_refines nonce_delete_refines)

lemma nonce_run_refines:
  "nc_inv nc \<Longrightarrow> nc_inv (snd (nonce_run es nc)) \<and> nc_capacity (snd (nonce_run es nc)) = nc_capacity nc \<and>
     fst (nonce_run es nc) = fst (lru_run (nc_capacity nc) es (nc_abs nc)) \<and>
     nc_abs (snd (nonce_run es nc)) = snd (lru_run (nc_capacity nc) es (nc_abs nc))"
proof (induction es arbitrary: nc)
  case Nil
  then show ?case by simp
next
  case (Cons e es)
  from nonce_step_refines [OF Cons.prems, of e] Cons.IH [of "snd (nonce_step e nc)"]
  show ?case by (simp split: prod.split) auto
qed

text \<open>The clients an operation names, and how far a client can sink in the list.\<close>

fun op_client :: "nonce_op \<Rightarrow> string" where
  "op_client (NPut c n) = c"
| "op_client (NGet c) = c"
| "op_client (NDelete c) = c"

definition near_front :: "string \<Rightarrow> bytes \<Rightarrow> string set \<Rightarrow> lru_list \<Rightarrow> bool" where
  "near_front c n cs l \<longleftrightarrow>
     (\<exists>f r. l = f @ (c, n) # r \<and> distinct (map fst f) \<and> set (map fst f) \<subseteq> cs - {c})"

lemma near_front_touch:
  assumes "near_front c n cs l" "c' \<noteq> c" "c' \<in> cs"
  shows "near_front c n cs (lru_touch c' n' l)"
proof -
  from assms(1) obtain f r where l: "l = f @ (c, n) # r" "distinct (map fst f)" "set (map fst f) \<subseteq> cs - {c}"
    by (auto simp: near_front_def)
  let ?f = "(c', n') # filter (\<lambda>p. fst p \<noteq> c') f"
  have "lru_touch c' n' l = ?f @ (c, n) # filter (\<lambda>p. fst p \<noteq> c') r"
    using l(1) assms(2) by (simp add: lru_touch_def)
  moreover have "distinct (map fst ?f)" using l(2) by (auto simp: distinct_map_filter)
  moreover have "set (map fst ?f) \<subseteq> cs - {c}" using l(3) assms(2,3) by auto
  ultimately show ?thesis unfolding near_front_def by blast
qed

lemma near_front_step:
  assumes "near_front c n cs l" "op_client e \<noteq> c" "op_client e \<in> cs" "finite cs" "card (cs - {c}) < cap"
  shows "near_front c n cs (snd (lru_step cap e l))"
proof (cases e)
  case (NPut c' n')
  note t = near_front_touch [OF assms(1), of c' n'] assms(2,3)
  with NPut have t': "near_front c n cs (lru_touch c' n' l)" by simp
  then obtain f r where l': "lru_touch c' n' l = f @ (c, n) # r" "distinct (map fst f)"
      "set (map fst f) \<subseteq> cs - {c}"
    by (auto simp: near_front_def)
  have "length f = card (set (map fst f))" using l'(2) by (metis distinct_card length_map)
  also have "\<dots> \<le> card (cs - {c})" using l'(3) assms(4) by (intro card_mono) auto
  finally have "length f < cap" using assms(5) by simp
  then have "take cap (lru_touch c' n' l) = f @ (c, n) # take (cap - Suc (length f)) r"
    by (simp add: l'(1) take_Cons split: nat.split) (metis Suc_diff_Suc diff_Suc_Suc nat.inject)
  with l'(2,3) have "near_front c n cs (take cap (lru_touch c' n' l))"
    unfolding near_front_def by blast
  with t' NPut show ?thesis by (simp add: lru_put_def Let_def)
next
  case (NGet c')
  with near_front_touch [OF assms(1), of c'] assms(1-3) show ?thesis
    by (auto simp: lru_get_def split: option.split)
next
  case (NDelete c')
  from assms(1) obtain f r where l: "l = f @ (c, n) # r" "distinct (map fst f)" "set (map fst f) \<subseteq> cs - {c}"
    by (auto simp: near_front_def)
  have "lru_delete c' l = filter (\<lambda>p. fst p \<noteq> c') f @ (c, n) # filter (\<lambda>p. fst p \<noteq> c') r"
    using l(1) assms(2) NDelete by (simp add: lru_delete_def)
  moreover have "distinct (map fst (filter (\<lambda>p. fst p \<noteq> c') f))"
    "set (map fst (filter (\<lambda>p. fst p \<noteq> c') f)) \<subseteq> cs - {c}"
    using l(2,3) by (auto simp: distinct_map_filter)
  ultimately have "near_front c n cs (lru_delete c' l)" unfolding near_front_def by blast
  with NDelete show ?thesis by simp
qed

lemma near_front_run:
  "near_front c n cs l \<Longrightarrow> \<forall>e\<in>set es. op_client e \<noteq> c \<and> op_client e \<in> cs \<Longrightarrow> finite cs \<Longrightarrow>
     card (cs - {c}) < cap \<Longrightarrow> near_front c n cs (snd (lru_run cap es l))"
proof (induction es arbitrary: l)
  case Nil
  then show ?case by simp
next
  case (Cons e es)
  then have "near_front c n cs (snd (lru_step cap e l))" by (intro near_front_step) auto
  with Cons have "near_front c n cs (snd (lru_run cap es (snd (lru_step cap e l))))" by simp
  moreover obtain r1 l1 where "lru_step cap e l = (r1, l1)" by fastforce
  moreover obtain r2 l2 where "lru_run cap es l1 = (r2, l2)" by fastforce
  ultimately show ?case by simp
qed

lemma near_front_get: "near_front c n cs l \<Longrightarrow> fst (lru_get c l) = Some n"
  by (auto simp: near_front_def lru_get_def map_add_def split: option.splits)
     (metis DiffE image_eqI insertI1 map_of_SomeD option.inject subsetD fst_conv)+

subsection \<open>Properties\<close>

text \<open>
  C24: The nonce cache is an LRU cache: for every sequence of insertions, lookups and deletions
  the pointer structure of the code answers like the plain list of entries ordered by use that
  is cut at the capacity.
\<close>

theorem nonce_cache_is_lru:
  "fst (nonce_run es (new_nonce_cache cap)) = fst (lru_run cap es [])"
proof -
  have "nc_abs (new_nonce_cache cap) = []" "nc_capacity (new_nonce_cache cap) = cap"
    by (simp_all add: new_nonce_cache_def nc_abs_def)
  with nonce_run_refines [OF nc_inv_new [of cap], of es] show ?thesis by simp
qed

text \<open>
  A nonce survives as long as it is recent: after a client's nonce was stored, operations of
  fewer other clients than the capacity cannot evict it, and the lookup returns it unchanged.
\<close>

theorem nonce_survives:
  assumes "\<forall>e\<in>set es. op_client e \<noteq> c" "card (op_client ` set es) < cap"
  shows "fst (nonce_get c (snd (nonce_run es (nonce_put c n
      (snd (nonce_run es0 (new_nonce_cache cap))))))) = Some n"
proof -
  let ?nc0 = "snd (nonce_run es0 (new_nonce_cache cap))" and ?cs = "op_client ` set es"
  have i0: "nc_inv ?nc0" "nc_capacity ?nc0 = cap"
    using nonce_run_refines [OF nc_inv_new [of cap], of es0] by (simp_all add: new_nonce_cache_def)
  let ?nc1 = "nonce_put c n ?nc0"
  have i1: "nc_inv ?nc1" "nc_capacity ?nc1 = cap" "nc_abs ?nc1 = lru_put cap c n (nc_abs ?nc0)"
    using nonce_put_refines [OF i0(1), of c n] i0(2) by simp_all
  have "1 \<le> cap" using assms(2) by simp
  then have "\<exists>r. nc_abs ?nc1 = (c, n) # r"
    unfolding i1(3) by (cases cap) (auto simp: lru_put_def lru_touch_def Let_def)
  then have "near_front c n ?cs (nc_abs ?nc1)" unfolding near_front_def by force
  moreover have "?cs - {c} = ?cs" using assms(1) by auto
  ultimately have "near_front c n ?cs (snd (lru_run cap es (nc_abs ?nc1)))"
    using assms by (intro near_front_run) auto
  moreover have "nc_abs (snd (nonce_run es ?nc1)) = snd (lru_run cap es (nc_abs ?nc1))"
    "nc_inv (snd (nonce_run es ?nc1))"
    using nonce_run_refines [OF i1(1), of es] i1(2) by simp_all
  ultimately show ?thesis using near_front_get nonce_get_refines by metis
qed

theorem nonce_survives_witness:
  "fst (nonce_get ''a'' (snd (nonce_run [NPut ''b'' ''2'', NGet ''b'', NPut ''b'' ''3'']
      (nonce_put ''a'' ''1'' (snd (nonce_run [NPut ''c'' ''4'', NPut ''d'' ''5''] (new_nonce_cache 2))))))) = Some ''1''"
  by (rule nonce_survives) simp_all

text \<open>
  The nonce cache of the receiver never holds more than its 200 entries, and the nonce it
  holds for a client is the one stored for it last.
\<close>

theorem nonce_cache_bounded:
  "length (nc_lru (fold (\<lambda>p. nonce_put (fst p) (snd p)) kvs (new_nonce_cache nonce_capacity))) \<le> nonce_capacity \<and>
   (\<forall>c n. map_of (nc_abs (fold (\<lambda>p. nonce_put (fst p) (snd p)) kvs (new_nonce_cache nonce_capacity))) c = Some n \<longrightarrow>
      map_of (rev kvs) c = Some n)"
proof -
  have ok: "nc_ok (new_nonce_cache nonce_capacity)"
    using nc_inv_new by (simp add: nc_ok_def new_nonce_cache_def)
  have "map_of (nc_abs (new_nonce_cache nonce_capacity)) c = None" for c
    by (simp add: new_nonce_cache_def nc_abs_def)
  moreover have fit: "\<forall>(k, v)\<in>set kvs. True" by simp
  ultimately show ?thesis
    using nonces.puts_size [OF ok fit] nonces.peek_puts [OF ok fit]
    unfolding nonces.puts_def by (metis option.distinct(1))
qed

theorem nonce_cache_bounded_witness:
  "length (nc_lru (nonce_put ''a'' ''1'' (new_nonce_cache nonce_capacity))) \<le> 200"
  using nonce_cache_bounded [of "[(''a'', ''1'')]"] by (simp add: nonce_capacity_def)

end
