(* ===== verification/Token.thy ===== *)
theory Token
  imports Go_Strings LS_Prelude
begin

text \<open>
  \<open>internal/crypto/token.go\<close> and \<open>internal/crypto/nonce.go\<close>: the signed tokens with which
  peers prove a key, and the nonces they are bound to. URL-safe base64 without padding is
  modelled with what Go's decoder does: line breaks are skipped and unused trailing bits are
  ignored. SHA-256, the DER encoding of a key and the signature schemes are parameters,
  collected in the record \<open>crypto_ops\<close>.
\<close>

subsection \<open>Base64\<close>

definition b64_alphabet :: string where
  "b64_alphabet = ''ABCDEFGHIJKLMNOPQRSTUVWXYZabcdefghijklmnopqrstuvwxyz0123456789-_''"

definition b64_char :: "nat \<Rightarrow> char" where
  "b64_char n = b64_alphabet ! n"

definition b64_val :: "char \<Rightarrow> nat option" where
  "b64_val c = map_of (zip b64_alphabet [0..<64]) c"

fun b64_digits :: "nat list \<Rightarrow> nat list" where
  "b64_digits [] = []"
| "b64_digits [a] = [a div 4, (a mod 4) * 16]"
| "b64_digits [a, b] = [a div 4, (a mod 4) * 16 + b div 16, (b mod 16) * 4]"
| "b64_digits (a # b # c # r) =
     [a div 4, (a mod 4) * 16 + b div 16, (b mod 16) * 4 + c div 64, c mod 64] @ b64_digits r"

fun b64_bytes :: "nat list \<Rightarrow> nat list option" where
  "b64_bytes [] = Some []"
| "b64_bytes [w] = None"
| "b64_bytes [w, x] = Some [w * 4 + x div 16]"
| "b64_bytes [w, x, y] = Some [w * 4 + x div 16, (x mod 16) * 16 + y div 4]"
| "b64_bytes (w # x # y # z # r) =
     map_option (\<lambda>bs. [w * 4 + x div 16, (x mod 16) * 16 + y div 4, (y mod 4) * 64 + z] @ bs) (b64_bytes r)"

definition b64_encode :: "bytes \<Rightarrow> string" where
  "b64_encode bs = map b64_char (b64_digits (map of_char bs))"

fun all_some :: "'a option list \<Rightarrow> 'a list option" where
  "all_some [] = Some []"
| "all_some (None # xs) = None"
| "all_some (Some x # xs) = map_option ((#) x) (all_some xs)"

definition b64_decode :: "string \<Rightarrow> bytes option" where
  "b64_decode s =
     (case all_some (map b64_val (filter (\<lambda>c. c \<noteq> CHR 0x0D \<and> c \<noteq> CHR 0x0A) s)) of
        None \<Rightarrow> None
      | Some ds \<Rightarrow> map_option (map char_of) (b64_bytes ds))"

subsection \<open>Nonces\<close>

definition nonce_size :: nat where
  "nonce_size = 32"

definition validate_nonce :: "bytes \<Rightarrow> bool" where
  "validate_nonce n \<longleftrightarrow> 16 \<le> length n \<and> length n \<le> 128"

definition validate_salt :: "bytes \<Rightarrow> bool" where
  "validate_salt n \<longleftrightarrow> 8 \<le> length n \<and> length n \<le> 128"

definition encode_nonce :: "bytes \<Rightarrow> string" where
  "encode_nonce n = b64_encode n"

definition decode_nonce :: "string \<Rightarrow> bytes option" where
  "decode_nonce s =
     (case b64_decode s of None \<Rightarrow> None | Some n \<Rightarrow> if validate_nonce n then Some n else None)"

definition combine_nonces :: "bytes \<Rightarrow> bytes \<Rightarrow> bytes" where
  "combine_nonces sender receiver = sender @ receiver"

subsection \<open>Keys and tokens\<close>

datatype verifying_key = Ed25519Key bytes | RsaPssKey bytes

record crypto_ops =
  op_sha256 :: "bytes \<Rightarrow> bytes"
  op_der :: "verifying_key \<Rightarrow> bytes option"
  op_ed_verify :: "bytes \<Rightarrow> bytes \<Rightarrow> bytes \<Rightarrow> bool"
  op_rsa_verify :: "bytes \<Rightarrow> bytes \<Rightarrow> bytes \<Rightarrow> bool"
  op_ed_sign :: "bytes \<Rightarrow> bytes \<Rightarrow> bytes"

record signing_key =
  sk_private :: bytes
  sk_public :: bytes

definition to_verifying_key :: "signing_key \<Rightarrow> verifying_key" where
  "to_verifying_key k = Ed25519Key (sk_public k)"

fun signature_method :: "verifying_key \<Rightarrow> string" where
  "signature_method (Ed25519Key k) = ''ed25519''"
| "signature_method (RsaPssKey k) = ''rsa-pss''"

fun key_verify :: "crypto_ops \<Rightarrow> verifying_key \<Rightarrow> bytes \<Rightarrow> bytes \<Rightarrow> bool" where
  "key_verify ops (Ed25519Key k) msg sig = op_ed_verify ops k msg sig"
| "key_verify ops (RsaPssKey k) msg sig = op_rsa_verify ops k (op_sha256 ops msg) sig"

definition create_digest :: "crypto_ops \<Rightarrow> bytes \<Rightarrow> bytes \<Rightarrow> bytes" where
  "create_digest ops der salt = op_sha256 ops (der @ salt)"

datatype token_error =
    TokenStructure
  | TokenHashMethod
  | TokenSignMethod
  | TokenSaltDecode
  | TokenSalt string
  | TokenDer
  | TokenHashDecode
  | TokenHashMismatch
  | TokenSigDecode
  | TokenSignature

definition generate_token :: "crypto_ops \<Rightarrow> signing_key \<Rightarrow> bytes \<Rightarrow> string option" where
  "generate_token ops k salt =
     (case op_der ops (to_verifying_key k) of
        None \<Rightarrow> None
      | Some der \<Rightarrow>
          (let digest = create_digest ops der salt
           in Some (''sha256.'' @ b64_encode digest @ ''.'' @ b64_encode salt @ ''.ed25519.'' @
                    b64_encode (op_ed_sign ops (sk_private k) digest))))"

definition generate_token_with_nonce :: "crypto_ops \<Rightarrow> signing_key \<Rightarrow> bytes \<Rightarrow> string option" where
  "generate_token_with_nonce ops k nonce = generate_token ops k nonce"

text \<open>\<open>binary.LittleEndian\<close> of a 64-bit word.\<close>

fun le_bytes :: "nat \<Rightarrow> 64 word \<Rightarrow> bytes" where
  "le_bytes 0 w = []"
| "le_bytes (Suc n) w = char_of (unat w mod 256) # le_bytes n (drop_bit 8 w)"

fun le_word :: "bytes \<Rightarrow> 64 word" where
  "le_word [] = 0"
| "le_word (b # bs) = of_nat (of_char b) + push_bit 8 (le_word bs)"

definition put_uint64 :: "64 word \<Rightarrow> bytes" where
  "put_uint64 w = le_bytes 8 w"

definition generate_token_timestamp :: "crypto_ops \<Rightarrow> signing_key \<Rightarrow> int \<Rightarrow> string option" where
  "generate_token_timestamp ops k now = generate_token ops k (put_uint64 (word_of_int now))"

definition verify_token ::
    "crypto_ops \<Rightarrow> verifying_key \<Rightarrow> string \<Rightarrow> (bytes \<Rightarrow> string option) \<Rightarrow> token_error option" where
  "verify_token ops key token validate =
     (case split_on (CHR ''.'') token of
        [hash_method, hash64, salt64, sign_method, sig64] \<Rightarrow>
          if hash_method \<noteq> ''sha256'' then Some TokenHashMethod
          else if sign_method \<noteq> signature_method key then Some TokenSignMethod
          else
            (case b64_decode salt64 of
               None \<Rightarrow> Some TokenSaltDecode
             | Some salt \<Rightarrow>
                 (case validate salt of
                    Some e \<Rightarrow> Some (TokenSalt e)
                  | None \<Rightarrow>
                      (case op_der ops key of
                         None \<Rightarrow> Some TokenDer
                       | Some der \<Rightarrow>
                           (case b64_decode hash64 of
                              None \<Rightarrow> Some TokenHashDecode
                            | Some provided \<Rightarrow>
                                if create_digest ops der salt \<noteq> provided then Some TokenHashMismatch
                                else
                                  (case b64_decode sig64 of
                                     None \<Rightarrow> Some TokenSigDecode
                                   | Some sig \<Rightarrow>
                                       if key_verify ops key (create_digest ops der salt) sig then None
                                       else Some TokenSignature)))))
      | _ \<Rightarrow> Some TokenStructure)"

definition check_timestamp :: "int \<Rightarrow> bytes \<Rightarrow> string option" where
  "check_timestamp now salt =
     (if length salt \<noteq> 8 then Some ''invalid salt length for timestamp token''
      else if 3600 < (word_of_int now :: 64 word) - le_word salt then Some ''token timestamp expired''
      else None)"

definition verify_token_timestamp :: "crypto_ops \<Rightarrow> int \<Rightarrow> verifying_key \<Rightarrow> string \<Rightarrow> token_error option" where
  "verify_token_timestamp ops now key token = verify_token ops key token (check_timestamp now)"

definition check_nonce :: "bytes \<Rightarrow> bytes \<Rightarrow> string option" where
  "check_nonce expected salt = (if salt \<noteq> expected then Some ''nonce mismatch'' else None)"

definition verify_token_nonce :: "crypto_ops \<Rightarrow> verifying_key \<Rightarrow> string \<Rightarrow> bytes \<Rightarrow> token_error option" where
  "verify_token_nonce ops key token expected = verify_token ops key token (check_nonce expected)"

definition extract_signature_method :: "string \<Rightarrow> string" where
  "extract_signature_method token =
     (let parts = split_on (CHR ''.'') token in if 4 \<le> length parts then parts ! 3 else [])"

definition parse_public_key :: "bytes \<Rightarrow> string \<Rightarrow> verifying_key option" where
  "parse_public_key k kind =
     (if kind = ''ed25519'' then (if length k \<noteq> 32 then None else Some (Ed25519Key k)) else None)"

subsection \<open>Base64 round trip\<close>

lemma b64_val_char: "n < 64 \<Longrightarrow> b64_val (b64_char n) = Some n"
proof -
  assume n: "n < 64"
  have d: "distinct b64_alphabet" by code_simp
  have l: "length b64_alphabet = 64" by code_simp
  have "(b64_char n, n) \<in> set (zip b64_alphabet [0..<64])"
    using n l by (auto simp: b64_char_def set_zip intro!: exI [of _ n])
  moreover have "distinct (map fst (zip b64_alphabet [0..<64]))" using d l by simp
  ultimately show ?thesis by (simp add: b64_val_def map_of_eq_Some_iff)
qed

lemma b64_char_plain: "n < 64 \<Longrightarrow> b64_char n \<noteq> CHR ''.'' \<and> b64_char n \<noteq> CHR 0x0D \<and> b64_char n \<noteq> CHR 0x0A"
proof -
  assume "n < 64"
  then have "b64_char n \<in> set b64_alphabet"
    unfolding b64_char_def by (intro nth_mem) (simp add: b64_alphabet_def)
  moreover have "CHR ''.'' \<notin> set b64_alphabet" "CHR 0x0D \<notin> set b64_alphabet" "CHR 0x0A \<notin> set b64_alphabet"
    by code_simp+
  ultimately show ?thesis by metis
qed

lemma b64_digits_less: "\<forall>b\<in>set bs. b < 256 \<Longrightarrow> d \<in> set (b64_digits bs) \<Longrightarrow> d < 64"
  by (induction bs rule: b64_digits.induct) auto

lemma b64_bytes_digits: "\<forall>b\<in>set bs. b < 256 \<Longrightarrow> b64_bytes (b64_digits bs) = Some bs"
  by (induction bs rule: b64_digits.induct) (auto, (presburger+)?)

lemma all_some_map: "\<forall>x\<in>set xs. f (g x) = Some x \<Longrightarrow> all_some (map f (map g xs)) = Some xs"
  by (induction xs) auto

lemma b64_round_trip [simp]: "b64_decode (b64_encode bs) = Some bs"
proof -
  let ?ds = "b64_digits (map of_char bs)"
  have b: "\<forall>b\<in>set (map of_char bs). (b :: nat) < 256" by auto
  then have d: "\<forall>x\<in>set ?ds. x < 64" using b64_digits_less by blast
  have "filter (\<lambda>c. c \<noteq> CHR 0x0D \<and> c \<noteq> CHR 0x0A) (map b64_char ?ds) = map b64_char ?ds"
    using d b64_char_plain by (simp add: filter_id_conv)
  moreover have "all_some (map b64_val (map b64_char ?ds)) = Some ?ds"
    using d b64_val_char by (intro all_some_map) blast
  ultimately show ?thesis
    by (simp add: b64_decode_def b64_encode_def b64_bytes_digits comp_def)
qed

lemma b64_no_dot: "CHR ''.'' \<notin> set (b64_encode bs)"
proof -
  have "\<forall>b\<in>set (map of_char bs). (b :: nat) < 256" by auto
  then have "\<forall>x\<in>set (b64_digits (map of_char bs)). x < 64" using b64_digits_less by blast
  then show ?thesis using b64_char_plain unfolding b64_encode_def by (metis imageE list.set_map)
qed

subsection \<open>Little-endian words\<close>

fun le_nat :: "bytes \<Rightarrow> nat" where
  "le_nat [] = 0"
| "le_nat (b # bs) = of_char b + 256 * le_nat bs"

lemma le_word_nat: "le_word bs = of_nat (le_nat bs)"
  by (induction bs) (simp_all add: push_bit_eq_mult)

lemma le_nat_bytes: "le_nat (le_bytes n w) = unat w mod 256 ^ n"
proof (induction n arbitrary: w)
  case 0
  then show ?case by simp
next
  case (Suc n)
  have "unat (drop_bit 8 w) = unat w div 256"
    unfolding unat_drop_bit_eq by (simp add: drop_bit_eq_div)
  with Suc show ?case by (simp add: mod_mult2_eq [of "unat w" 256 "256 ^ n"])
qed

lemma le_round_trip: "le_word (put_uint64 w) = w"
proof -
  have "unat w < 256 ^ 8" using unsigned_less [of w] by simp
  then show ?thesis by (simp add: put_uint64_def le_word_nat le_nat_bytes)
qed

lemma le_bytes_length [simp]: "length (le_bytes n w) = n"
  by (induction n arbitrary: w) simp_all

lemma put_uint64_length [simp]: "length (put_uint64 w) = 8"
  by (simp only: put_uint64_def le_bytes_length)

subsection \<open>Tokens\<close>

lemma generated_parts:
  assumes "generate_token ops k salt = Some token"
  obtains der where "op_der ops (to_verifying_key k) = Some der"
    "split_on (CHR ''.'') token =
       [''sha256'', b64_encode (create_digest ops der salt), b64_encode salt, ''ed25519'',
        b64_encode (op_ed_sign ops (sk_private k) (create_digest ops der salt))]"
proof -
  from assms obtain der where der: "op_der ops (to_verifying_key k) = Some der"
    and t: "token = ''sha256'' @ CHR ''.'' # b64_encode (create_digest ops der salt) @ CHR ''.'' #
      b64_encode salt @ CHR ''.'' # ''ed25519'' @ CHR ''.'' #
      b64_encode (op_ed_sign ops (sk_private k) (create_digest ops der salt))"
    by (auto simp: generate_token_def Let_def split: option.splits)
  have "split_on (CHR ''.'') token =
       [''sha256'', b64_encode (create_digest ops der salt), b64_encode salt, ''ed25519'',
        b64_encode (op_ed_sign ops (sk_private k) (create_digest ops der salt))]"
  proof -
    have n: "CHR ''.'' \<notin> set ''sha256''" "CHR ''.'' \<notin> set ''ed25519''" by simp_all
    show ?thesis
      unfolding t split_append [OF n(1)] split_append [OF b64_no_dot] split_append [OF n(2)]
        split_plain [OF b64_no_dot] ..
  qed
  with der that show thesis by blast
qed

lemma verify_generated:
  assumes "generate_token ops k salt = Some token"
    and "\<And>m. op_ed_verify ops (sk_public k) m (op_ed_sign ops (sk_private k) m)"
  shows "verify_token ops (to_verifying_key k) token validate = map_option TokenSalt (validate salt)"
  by (rule generated_parts [OF assms(1)])
    (use assms(2) in \<open>simp add: verify_token_def to_verifying_key_def split: option.split\<close>)

lemma verify_token_accepts:
  assumes "verify_token ops key token validate = None"
  obtains hash64 salt64 sig64 salt der sig where
    "split_on (CHR ''.'') token = [''sha256'', hash64, salt64, signature_method key, sig64]"
    "b64_decode salt64 = Some salt" "validate salt = None" "op_der ops key = Some der"
    "b64_decode hash64 = Some (create_digest ops der salt)"
    "b64_decode sig64 = Some sig" "key_verify ops key (create_digest ops der salt) sig"
  using assms by (auto simp: verify_token_def split: list.splits if_splits option.splits)

lemma timestamp_ok_iff:
  assumes "3600 \<le> now" "now < 2 ^ 63" "length salt = 8"
  shows "check_timestamp now salt = None \<longleftrightarrow>
     int (unat (le_word salt)) \<le> now \<and> now \<le> int (unat (le_word salt)) + 3600"
proof -
  let ?n = "word_of_int now :: 64 word" and ?t = "le_word salt"
  have n: "int (unat ?n) = now"
    using assms(1,2) by (simp add: unat_eq_nat_uint uint_word_of_int)
  have t: "unat ?t < 2 ^ 64" using unsigned_less [of ?t] by simp
  have d: "unat (?n - ?t) = (if unat ?t \<le> unat ?n then unat ?n - unat ?t else unat ?n + 2 ^ 64 - unat ?t)"
    by (simp add: unat_sub_if' size_word_def)
  have n2: "3600 \<le> unat ?n"
  proof -
    have "int 3600 \<le> int (unat ?n)" unfolding n using assms(1) by simp
    then show ?thesis by (simp only: of_nat_le_iff)
  qed
  have "\<not> 3600 < ?n - ?t \<longleftrightarrow> unat (?n - ?t) \<le> 3600"
    by (simp add: word_less_nat_alt not_less)
  also have "\<dots> \<longleftrightarrow> unat ?t \<le> unat ?n \<and> unat ?n \<le> unat ?t + 3600"
    using d t n2 by (auto split: if_splits)
  also have "\<dots> \<longleftrightarrow> int (unat ?t) \<le> now \<and> now \<le> int (unat ?t) + 3600"
    using n by linarith
  finally show ?thesis using assms(3) by (auto simp: check_timestamp_def)
qed

subsection \<open>Properties\<close>

text \<open>
  C25: A generated token verifies. For a key pair whose signatures verify, the token made for a
  salt is accepted under the public key exactly when the verifier's check accepts that salt, so
  nothing is lost between the two encodings.
\<close>

theorem generated_token_verifies:
  assumes "op_der ops (to_verifying_key k) = Some der"
    and "\<And>m. op_ed_verify ops (sk_public k) m (op_ed_sign ops (sk_private k) m)"
  shows "\<exists>token. generate_token ops k salt = Some token \<and>
    verify_token ops (to_verifying_key k) token validate = map_option TokenSalt (validate salt)"
proof -
  from assms(1) obtain token where "generate_token ops k salt = Some token"
    by (simp add: generate_token_def Let_def)
  with verify_generated [OF this assms(2)] show ?thesis by blast
qed

text \<open>A toy instance of the operations, for the witnesses.\<close>

definition toy_ops :: crypto_ops where
  "toy_ops = \<lparr>op_sha256 = (\<lambda>b. take 4 (rev b)), op_der = (\<lambda>k. Some ''der''),
     op_ed_verify = (\<lambda>k m s. s = k @ m), op_rsa_verify = (\<lambda>k m s. False), op_ed_sign = (\<lambda>k m. k @ m)\<rparr>"

definition toy_key :: signing_key where
  "toy_key = \<lparr>sk_private = ''k'', sk_public = ''k''\<rparr>"

theorem generated_token_verifies_witness:
  "\<exists>token. generate_token toy_ops toy_key ''salt'' = Some token \<and>
     verify_token toy_ops (to_verifying_key toy_key) token (\<lambda>_. None) = None"
  using generated_token_verifies [of toy_ops toy_key "''der''" "''salt''" "\<lambda>_. None"]
  by (simp add: toy_ops_def toy_key_def)

text \<open>
  A timestamp token lives for one hour. A token made at Unix time \<open>t\<close> is accepted at time
  \<open>now\<close> exactly when \<open>t \<le> now \<le> t + 3600\<close>: the unsigned subtraction wraps, so a token that is only
  a second ahead of the verifier's clock is refused as expired.
\<close>

theorem timestamp_token_window:
  assumes "generate_token_timestamp ops k t = Some token"
    and "\<And>m. op_ed_verify ops (sk_public k) m (op_ed_sign ops (sk_private k) m)"
    and "0 \<le> t" "t < 2 ^ 63" "3600 \<le> now" "now < 2 ^ 63"
  shows "verify_token_timestamp ops now (to_verifying_key k) token = None \<longleftrightarrow> t \<le> now \<and> now \<le> t + 3600"
proof -
  have "verify_token_timestamp ops now (to_verifying_key k) token
      = map_option TokenSalt (check_timestamp now (put_uint64 (word_of_int t)))"
    using verify_generated [OF assms(1) [unfolded generate_token_timestamp_def] assms(2)]
    by (simp add: verify_token_timestamp_def)
  moreover have "int (unat (word_of_int t :: 64 word)) = t"
    using assms(3,4) by (simp add: unat_eq_nat_uint uint_word_of_int)
  ultimately show ?thesis
    using timestamp_ok_iff [OF assms(5,6), of "put_uint64 (word_of_int t)"] by (simp add: le_round_trip)
qed

theorem timestamp_token_window_witness:
  "\<exists>token. generate_token_timestamp toy_ops toy_key 1700000001 = Some token \<and>
     verify_token_timestamp toy_ops 1700000000 (to_verifying_key toy_key) token \<noteq> None"
proof -
  obtain token where t: "generate_token_timestamp toy_ops toy_key 1700000001 = Some token"
    by (simp add: generate_token_timestamp_def generate_token_def toy_ops_def Let_def)
  from timestamp_token_window [OF t, of 1700000000] t show ?thesis
    by (simp add: toy_ops_def toy_key_def)
qed

text \<open>
  C26: A token is bound to its key and to one nonce. \<open>VerifyTokenNonce\<close> accepts a token exactly when it has five parts:
  the names of the hash and of the key's kind of signature, the digest of this key and this nonce, the nonce, and
  a signature of that digest that the key verifies. So the same token is accepted for no other nonce.
\<close>

theorem accepted_token_is_bound:
  "(verify_token_nonce ops key token nonce = None \<longleftrightarrow>
     (\<exists>digest64 salt64 sig64 der sig.
        split_on (CHR ''.'') token = [''sha256'', digest64, salt64, signature_method key, sig64] \<and>
        op_der ops key = Some der \<and> b64_decode digest64 = Some (create_digest ops der nonce) \<and>
        b64_decode salt64 = Some nonce \<and> b64_decode sig64 = Some sig \<and>
        key_verify ops key (create_digest ops der nonce) sig)) \<and>
   (verify_token_nonce ops key token nonce = None \<longrightarrow> nonce' \<noteq> nonce \<longrightarrow> verify_token_nonce ops key token nonce' \<noteq> None)"
  (is "(?ok \<longleftrightarrow> ?parts) \<and> (?ok \<longrightarrow> _ \<longrightarrow> ?other)")
proof (intro conjI impI)
  have parts: ?parts if ok: ?ok
  proof -
    obtain digest64 salt64 sig64 salt der sig where
      *: "split_on (CHR ''.'') token = [''sha256'', digest64, salt64, signature_method key, sig64]"
      "b64_decode salt64 = Some salt" "check_nonce nonce salt = None" "op_der ops key = Some der"
      "b64_decode digest64 = Some (create_digest ops der salt)"
      "b64_decode sig64 = Some sig" "key_verify ops key (create_digest ops der salt) sig"
      using verify_token_accepts [OF ok [unfolded verify_token_nonce_def]] by blast
    from *(3) have "salt = nonce" by (simp add: check_nonce_def split: if_splits)
    with * show ?thesis by blast
  qed
  moreover have "?parts \<Longrightarrow> ?ok"
    by (auto simp: verify_token_nonce_def verify_token_def check_nonce_def)
  ultimately show "?ok \<longleftrightarrow> ?parts" by blast
  show ?other if ?ok "nonce' \<noteq> nonce"
    using parts [OF that(1)] that(2) by (auto simp: verify_token_nonce_def verify_token_def check_nonce_def)
qed

theorem accepted_token_is_bound_witness:
  "verify_token_nonce toy_ops (Ed25519Key ''k'') (the (generate_token toy_ops toy_key ''n1'')) ''n2'' \<noteq> None"
proof -
  have "verify_token_nonce toy_ops (Ed25519Key ''k'') (the (generate_token toy_ops toy_key ''n1'')) ''n1'' = None"
    by code_simp
  with accepted_token_is_bound [of toy_ops "Ed25519Key ''k''" "the (generate_token toy_ops toy_key ''n1'')" "''n1''" "''n2''"]
  show ?thesis by simp
qed

text \<open>
  Nonces survive their encoding: base64 as the code writes it decodes to the same bytes, and
  \<open>DecodeNonce\<close> accepts it exactly when the nonce has 16 to 128 bytes; a nonce the code accepts
  in any spelling is one it would write itself.
\<close>

theorem nonce_round_trip:
  "decode_nonce (encode_nonce n) = (if validate_nonce n then Some n else None) \<and>
   (decode_nonce s = Some m \<longrightarrow> decode_nonce (encode_nonce m) = Some m)"
  by (auto simp: decode_nonce_def encode_nonce_def split: option.splits if_splits)

theorem nonce_round_trip_witness:
  "decode_nonce (encode_nonce ''0123456789abcdef'') = Some ''0123456789abcdef''"
  using nonce_round_trip [of "''0123456789abcdef''"] by (simp add: validate_nonce_def)

end
