(* ===== verification/Http_Receiver.thy ===== *)
theory Http_Receiver
  imports Stored_Names Session_Manager Rate_Limiter Nonce_Cache Token
begin

text \<open>
  The receiving HTTP server: \<open>FileReceiver\<close> of \<open>internal/localsend/recv/recv.go\<close>, its handlers
  in \<open>handlers.go\<close> and the log text of \<open>internal/utils/misc.go\<close>. A handler is a function of the
  request, the clock readings and random values it draws, and the receiver, and returns its reply
  with the new receiver. The web framework, the JSON codec, the Unicode case mapping, SHA-256 and
  the RFC 3339 parser are parameters. The messages of \<open>slog\<close> are left out. A handler runs as one
  step here; what happens between the steps of concurrent uploads is in \<open>Upload_Props\<close>, between
  those of PIN checks in \<open>Rate_Limiter\<close>.
\<close>

subsection \<open>The receiver\<close>

record log_entry =
  le_time :: time
  le_file :: string
  le_size :: int
  le_sender :: string

record http_receiver =
  hr_identity :: device_info
  hr_https :: bool
  hr_save_dir :: string
  hr_pin :: string
  hr_exts :: "string list"
  hr_router :: "extension_router option"
  hr_on_cmd :: string
  hr_discovery_only :: bool
  hr_sessions :: sess_table
  hr_limiter :: rate_limiter
  hr_received :: nonce_cache
  hr_generated :: nonce_cache
  hr_log :: "log_entry list option"
  hr_cmds :: nat
  hr_discoverer :: bool
  hr_registered :: "announcement list"
  hr_initialized :: bool
  hr_started :: bool
  hr_stopped :: bool

definition max_commands :: nat where
  "max_commands = 4"

definition new_file_receiver :: "string \<Rightarrow> string \<Rightarrow> string \<Rightarrow> bool \<Rightarrow> http_receiver" where
  "new_file_receiver name fingerprint dir https =
     \<lparr>hr_identity = new_device_info name fingerprint, hr_https = https, hr_save_dir = dir, hr_pin = [],
      hr_exts = [], hr_router = None, hr_on_cmd = [], hr_discovery_only = False,
      hr_sessions = new_sess_manager, hr_limiter = new_rate_limiter max_pin_attempts pin_block_duration,
      hr_received = new_nonce_cache nonce_capacity, hr_generated = new_nonce_cache nonce_capacity,
      hr_log = None, hr_cmds = 0, hr_discoverer = False, hr_registered = [],
      hr_initialized = False, hr_started = False, hr_stopped = False\<rparr>"

definition get_save_dir :: "(string \<Rightarrow> string) \<Rightarrow> http_receiver \<Rightarrow> string \<Rightarrow> string" where
  "get_save_dir lower fr filename =
     (case hr_router fr of Some r \<Rightarrow> router_save_dir lower r filename | None \<Rightarrow> hr_save_dir fr)"

definition get_save_dir_for_session ::
    "(string \<Rightarrow> string) \<Rightarrow> http_receiver \<Rightarrow> recv_session \<Rightarrow> string \<Rightarrow> string \<times> recv_session" where
  "get_save_dir_for_session lower fr s filename =
     (case sess_folder_transfer s of
        (True, s') \<Rightarrow> (hr_save_dir fr, s')
      | (False, s') \<Rightarrow> (get_save_dir lower fr filename, s'))"

definition has_extension_filter :: "http_receiver \<Rightarrow> bool" where
  "has_extension_filter fr \<longleftrightarrow> hr_exts fr \<noteq> []"

definition has_extension_router :: "http_receiver \<Rightarrow> bool" where
  "has_extension_router fr \<longleftrightarrow> hr_router fr \<noteq> None"

subsection \<open>The transfer log\<close>

definition cont_byte :: "nat \<Rightarrow> nat \<Rightarrow> char \<Rightarrow> bool" where
  "cont_byte lo hi c \<longleftrightarrow> lo \<le> of_char c \<and> (of_char c :: nat) \<le> hi"

text \<open>The length of the well-formed UTF-8 sequence at the head of a string, 0 if there is none.\<close>

fun rune_len :: "string \<Rightarrow> nat" where
  "rune_len [] = 0"
| "rune_len (a # s) =
     (let n = (of_char a :: nat); c = cont_byte 0x80 0xBF
      in if n < 0x80 then 1
         else if 0xC2 \<le> n \<and> n \<le> 0xDF then
           (case s of x # _ \<Rightarrow> if c x then 2 else 0 | _ \<Rightarrow> 0)
         else if 0xE0 \<le> n \<and> n \<le> 0xEF then
           (case s of
              x # y # _ \<Rightarrow>
                if cont_byte (if n = 0xE0 then 0xA0 else 0x80) (if n = 0xED then 0x9F else 0xBF) x \<and> c y
                then 3 else 0
            | _ \<Rightarrow> 0)
         else if 0xF0 \<le> n \<and> n \<le> 0xF4 then
           (case s of
              x # y # z # _ \<Rightarrow>
                if cont_byte (if n = 0xF0 then 0x90 else 0x80) (if n = 0xF4 then 0x8F else 0xBF) x \<and> c y \<and> c z
                then 4 else 0
            | _ \<Rightarrow> 0)
         else 0)"

text \<open>\<open>range\<close> over a string with \<open>WriteRune\<close> of what it yields: an invalid byte gives U+FFFD.\<close>

function sanitize_for_log :: "string \<Rightarrow> string" where
  "sanitize_for_log [] = []"
| "sanitize_for_log (a # s) =
     (if rune_len (a # s) = 0 then [CHR 0xEF, CHR 0xBF, CHR 0xBD] @ sanitize_for_log s
      else if rune_len (a # s) = 1 \<and> (of_char a :: nat) < 32 \<and> a \<noteq> CHR 0x09 then sanitize_for_log s
      else take (rune_len (a # s)) (a # s) @ sanitize_for_log (drop (rune_len (a # s)) (a # s)))"
  by pat_completeness auto
termination by (relation "measure length") auto

definition log_transfer :: "time \<Rightarrow> string \<Rightarrow> int \<Rightarrow> string \<Rightarrow> http_receiver \<Rightarrow> http_receiver" where
  "log_transfer now filename bytes sender fr =
     (let fr1 = (if hr_on_cmd fr \<noteq> [] \<and> \<not> hr_stopped fr \<and> hr_cmds fr < max_commands
                 then fr\<lparr>hr_cmds := hr_cmds fr + 1\<rparr> else fr)
      in case hr_log fr1 of
           None \<Rightarrow> fr1
         | Some es \<Rightarrow>
             fr1\<lparr>hr_log := Some (es @ [\<lparr>le_time = now, le_file = sanitize_for_log filename,
                                       le_size = bytes, le_sender = sanitize_for_log sender\<rparr>])\<rparr>)"

text \<open>The end of a transfer command gives its slot back.\<close>

definition command_done :: "http_receiver \<Rightarrow> http_receiver" where
  "command_done fr = fr\<lparr>hr_cmds := hr_cmds fr - 1\<rparr>"

text \<open>\<open>SetTransferLog\<close>; \<open>opens\<close> tells whether the file can be opened.\<close>

definition set_transfer_log :: "(string \<Rightarrow> bool) \<Rightarrow> string \<Rightarrow> http_receiver \<Rightarrow> http_receiver" where
  "set_transfer_log opens path fr =
     fr\<lparr>hr_log := if path \<noteq> [] \<and> opens path then Some [] else None\<rparr>"

definition close_transfer_log :: "http_receiver \<Rightarrow> http_receiver" where
  "close_transfer_log fr = fr\<lparr>hr_log := None\<rparr>"

subsection \<open>Life cycle\<close>

text \<open>\<open>cert\<close> is the fingerprint of the certificate, absent when there is none to load.\<close>

definition recv_init :: "io_env \<Rightarrow> string option \<Rightarrow> http_receiver \<Rightarrow> filesys \<Rightarrow> bool \<times> http_receiver \<times> filesys" where
  "recv_init env cert fr fs =
     (if hr_initialized fr \<or> hr_stopped fr then (False, fr, fs)
      else
        (case (if hr_discovery_only fr then (True, fs) else mkdir_all env (hr_save_dir fr) fs) of
           (False, fs') \<Rightarrow> (False, fr, fs')
         | (True, fs') \<Rightarrow>
             if hr_https fr then
               (case cert of
                  None \<Rightarrow> (False, fr, fs')
                | Some f \<Rightarrow> (True, fr\<lparr>hr_identity := (hr_identity fr)\<lparr>dv_fingerprint := f\<rparr>,
                                    hr_initialized := True\<rparr>, fs'))
             else (True, fr\<lparr>hr_initialized := True\<rparr>, fs')))"

definition recv_stop :: "http_receiver \<Rightarrow> http_receiver" where
  "recv_stop fr = (if hr_stopped fr then fr else close_transfer_log (fr\<lparr>hr_stopped := True\<rparr>))"

definition recv_start :: "bool \<Rightarrow> bool \<Rightarrow> http_receiver \<Rightarrow> bool \<times> http_receiver" where
  "recv_start cancelled binds fr =
     (if \<not> hr_initialized fr \<or> hr_started fr \<or> hr_stopped fr then (False, fr)
      else if cancelled then (False, recv_stop fr)
      else if \<not> binds then (False, recv_stop (fr\<lparr>hr_started := True\<rparr>))
      else (True, fr\<lparr>hr_started := True\<rparr>))"

subsection \<open>Requests\<close>

record http_request =
  rq_ip :: string
  rq_query :: "(string, string) gomap"
  rq_content_length :: int
  rq_body :: upload_body
  rq_peer_fingerprint :: "string option"

definition query :: "string \<Rightarrow> http_request \<Rightarrow> string" where
  "query k rq = (case map_of (rq_query rq) k of Some v \<Rightarrow> v | None \<Rightarrow> [])"

datatype http_reply =
    RStatus int
  | RTokens pre_upload_resp
  | RInfo device_info
  | RNonce string
  | RRegister register_response

definition max_pre_upload_body :: int where
  "max_pre_upload_body = 8 * 1024 * 1024"

definition max_register_body :: int where
  "max_register_body = 1 * 1024 * 1024"

definition max_nonce_body :: int where
  "max_nonce_body = 64 * 1024"

text \<open>\<open>parseJSONBodyLimited\<close>: the status of the failure, or the decoded value.\<close>

definition parse_json_body_limited :: "(bytes \<Rightarrow> 'a option) \<Rightarrow> int \<Rightarrow> http_request \<Rightarrow> int + 'a" where
  "parse_json_body_limited decode max_bytes rq =
     (if max_bytes < rq_content_length rq then Inl 413
      else
        (case limited_read (max_bytes + 1) (body_chunks (rq_body rq)) of
           (cs, limited) \<Rightarrow>
             if body_err (rq_body rq) \<and> \<not> limited then Inl 400
             else if max_bytes < int (length (received cs)) then Inl 413
             else (case decode (received cs) of None \<Rightarrow> Inl 400 | Some x \<Rightarrow> Inr x)))"

definition filter_files_by_extension ::
    "(string \<Rightarrow> string) \<Rightarrow> http_receiver \<Rightarrow> file_metas \<Rightarrow> int + file_metas" where
  "filter_files_by_extension lower fr files =
     (if metas_folder_transfer files \<and> has_extension_router fr \<and> has_extension_filter fr then Inl 403
      else if \<not> has_extension_filter fr then Inr files
      else let kept = gm_keep (\<lambda>i m. is_extension_allowed lower (fm_name m) (hr_exts fr)) files
           in if kept = [] then Inl 403 else Inr kept)"

subsection \<open>Handlers\<close>

text \<open>
  \<open>preUploadHandler\<close>: \<open>t1\<close>, \<open>t2\<close> are the clock readings of the PIN check, \<open>now\<close> that of the
  admission; \<open>sid\<close> is the fresh session id and \<open>tok\<close> gives the tokens.
\<close>

definition pre_upload_handler ::
    "(string \<Rightarrow> string) \<Rightarrow> (bytes \<Rightarrow> pre_upload_req option) \<Rightarrow> time \<Rightarrow> time \<Rightarrow> time \<Rightarrow> string \<Rightarrow>
     (nat \<Rightarrow> string) \<Rightarrow> http_request \<Rightarrow> http_receiver \<Rightarrow> http_reply \<times> http_receiver" where
  "pre_upload_handler lower decode t1 t2 now sid tok rq fr =
     (if hr_discovery_only fr then (RStatus 403, fr)
      else
        (case validate_pin (hr_pin fr) t1 t2 (rq_ip rq) (map_of (rq_query rq) ''pin'') (hr_limiter fr) of
           (status, rl) \<Rightarrow>
             let fr1 = fr\<lparr>hr_limiter := rl\<rparr>
             in if status \<noteq> 0 then (RStatus status, fr1)
                else
                  (case parse_json_body_limited decode max_pre_upload_body rq of
                     Inl st \<Rightarrow> (RStatus st, fr1)
                   | Inr req \<Rightarrow>
                       if pu_info req = None then (RStatus 400, fr1)
                       else if \<exists>p\<in>set (pu_files req). fm_size (snd p) < 0 then (RStatus 400, fr1)
                       else
                         (case filter_files_by_extension lower fr (pu_files req) of
                            Inl st \<Rightarrow> (RStatus st, fr1)
                          | Inr files \<Rightarrow>
                              (case create_session_if_allowed now sid tok files (rq_ip rq) (hr_sessions fr) of
                                 (Inl e, t) \<Rightarrow>
                                   (RStatus (if e = ErrTooManySessions then 429 else http_status (Some e)),
                                    fr1\<lparr>hr_sessions := t\<rparr>)
                               | (Inr i, t) \<Rightarrow>
                                   (case generate_pre_upload_resp i t of
                                      Inl _ \<Rightarrow> (RStatus 500, fr1\<lparr>hr_sessions := t\<rparr>)
                                    | Inr resp \<Rightarrow> (RTokens resp, fr1\<lparr>hr_sessions := t\<rparr>)))))))"

text \<open>
  \<open>uploadHandler\<close>: the body is what the idle-deadline reader lets through. The session is
  changed in place in Go; here it is written back to the table.
\<close>

definition upload_handler ::
    "io_env \<Rightarrow> (bytes \<Rightarrow> string) \<Rightarrow> (string \<Rightarrow> time option) \<Rightarrow> (string \<Rightarrow> string) \<Rightarrow> time \<Rightarrow> http_request \<Rightarrow>
     filesys \<Rightarrow> http_receiver \<Rightarrow> http_reply \<times> filesys \<times> http_receiver" where
  "upload_handler env sha pt lower now rq fs fr =
     (let sid = query ''sessionId'' rq; fid = query ''fileId'' rq; token = query ''token'' rq
      in if hr_discovery_only fr then (RStatus 403, fs, fr)
         else if sid = [] \<or> fid = [] \<or> token = [] then (RStatus 400, fs, fr)
         else
           (case get_session sid (hr_sessions fr) of
              Inl _ \<Rightarrow> (RStatus 403, fs, fr)
            | Inr s \<Rightarrow>
                (case get_file_meta fid s of
                   None \<Rightarrow> (RStatus 400, fs, fr)
                 | Some meta \<Rightarrow>
                     (case get_save_dir_for_session lower fr s (fm_name meta) of
                        (dir, s1) \<Rightarrow>
                          (case save_file env sha pt dir fid token (rq_ip rq) (rq_body rq) fs s1 of
                             (Inl e, fs', s2) \<Rightarrow>
                               (RStatus (http_status (Some e)), fs',
                                fr\<lparr>hr_sessions := AList.update sid s2 (hr_sessions fr)\<rparr>)
                           | (Inr (name, p), fs', s2) \<Rightarrow>
                               (RStatus 200, fs',
                                log_transfer now name (fm_size meta) (rq_ip rq)
                                  (fr\<lparr>hr_sessions := AList.update sid s2 (hr_sessions fr)\<rparr>)))))))"

definition cancel_handler :: "http_request \<Rightarrow> http_receiver \<Rightarrow> http_reply \<times> http_receiver" where
  "cancel_handler rq fr =
     (if query ''sessionId'' rq = [] then (RStatus 400, fr)
      else
        (case kill_session_for_client (query ''sessionId'' rq) (rq_ip rq) (hr_sessions fr) of
           (Some e, t) \<Rightarrow> (RStatus (http_status (Some e)), fr\<lparr>hr_sessions := t\<rparr>)
         | (None, t) \<Rightarrow> (RStatus 200, fr\<lparr>hr_sessions := t\<rparr>)))"

definition info_handler :: "http_receiver \<Rightarrow> http_reply" where
  "info_handler fr = RInfo (hr_identity fr)"

definition register_discovered_device :: "announcement \<Rightarrow> http_receiver \<Rightarrow> http_receiver" where
  "register_discovered_device a fr =
     (if hr_discoverer fr then fr\<lparr>hr_registered := hr_registered fr @ [a]\<rparr> else fr)"

definition register_handler ::
    "(bytes \<Rightarrow> announcement option) \<Rightarrow> http_request \<Rightarrow> http_receiver \<Rightarrow> http_reply \<times> http_receiver" where
  "register_handler decode rq fr =
     (case parse_json_body_limited decode max_register_body rq of
        Inl st \<Rightarrow> (RStatus st, fr)
      | Inr a \<Rightarrow>
          let a1 = (case rq_peer_fingerprint rq of
                      None \<Rightarrow> a
                    | Some f \<Rightarrow>
                        let a' = a\<lparr>dv_fingerprint := f\<rparr>
                        in if an_protocol a = [] then a'\<lparr>an_protocol := ''https''\<rparr> else a')
          in (RInfo (hr_identity fr), register_discovered_device (a1\<lparr>dv_ip := rq_ip rq\<rparr>) fr))"

text \<open>\<open>nonceExchangeHandler\<close>; \<open>fresh\<close> is the nonce \<open>GenerateNonce\<close> draws, absent if it fails.\<close>

definition nonce_exchange_handler ::
    "(bytes \<Rightarrow> nonce_msg option) \<Rightarrow> bytes option \<Rightarrow> http_request \<Rightarrow> http_receiver \<Rightarrow>
     http_reply \<times> http_receiver" where
  "nonce_exchange_handler decode fresh rq fr =
     (case parse_json_body_limited decode max_nonce_body rq of
        Inl st \<Rightarrow> (RStatus st, fr)
      | Inr req \<Rightarrow>
          (case decode_nonce (nm_nonce req) of
             None \<Rightarrow> (RStatus 400, fr)
           | Some nonce \<Rightarrow>
               if \<not> validate_nonce nonce then (RStatus 400, fr)
               else
                 let fr1 = fr\<lparr>hr_received := nonce_put (rq_ip rq) nonce (hr_received fr)\<rparr>
                 in (case fresh of
                       None \<Rightarrow> (RStatus 500, fr1)
                     | Some n \<Rightarrow>
                         (RNonce (encode_nonce n),
                          fr1\<lparr>hr_generated := nonce_put (rq_ip rq) n (hr_generated fr1)\<rparr>))))"

definition register_v3_handler ::
    "(string \<Rightarrow> string) \<Rightarrow> (bytes \<Rightarrow> 'a option) \<Rightarrow> http_request \<Rightarrow> http_receiver \<Rightarrow> http_reply" where
  "register_v3_handler upper decode rq fr =
     (case parse_json_body_limited decode max_register_body rq of
        Inl st \<Rightarrow> RStatus st
      | Inr _ \<Rightarrow>
          let d = hr_identity fr
          in RRegister \<lparr>rr_alias = dv_alias d, rr_version = dv_version d, rr_model = dv_model d,
               rr_type = upper (dv_type d), rr_token = dv_token d, rr_web = False\<rparr>)"

end
