(* ===== verification/Http_Server.thy ===== *)
theory Http_Server
  imports Http_Receiver
begin

text \<open>
  The HTTP receiver as a state machine: any sequence of requests, cleanups and finished commands,
  with every answer the network, the clocks and the operating system may give. The properties
  speak about the file system and the session table of the whole server.
\<close>

subsection \<open>Steps\<close>

text \<open>What \<open>json.Unmarshal\<close> into the Go types guarantees: map keys are distinct, sizes are \<open>int64\<close>.\<close>

definition decoder_ok :: "(bytes \<Rightarrow> pre_upload_req option) \<Rightarrow> bool" where
  "decoder_ok decode \<longleftrightarrow>
     (\<forall>b r. decode b = Some r \<longrightarrow>
        gm_wf (pu_files r) \<and> (\<forall>p\<in>set (pu_files r). int64_range (fm_size (snd p))))"

type_synonym server_state = "http_receiver \<times> filesys"

inductive server_step :: "(string \<Rightarrow> string) \<Rightarrow> server_state \<Rightarrow> server_state \<Rightarrow> bool" for lower where
  srv_prepare:
    "decoder_ok decode \<Longrightarrow> map_of (hr_sessions fr) sid = None \<Longrightarrow>
     pre_upload_handler lower decode t1 t2 now sid tok rq fr = (reply, fr') \<Longrightarrow>
     server_step lower (fr, fs) (fr', fs)"
| srv_upload:
    "upload_handler env sha pt lower now rq fs fr = (reply, fs', fr') \<Longrightarrow>
     server_step lower (fr, fs) (fr', fs')"
| srv_cancel: "cancel_handler rq fr = (reply, fr') \<Longrightarrow> server_step lower (fr, fs) (fr', fs)"
| srv_register: "register_handler dec rq fr = (reply, fr') \<Longrightarrow> server_step lower (fr, fs) (fr', fs)"
| srv_nonce: "nonce_exchange_handler decn fresh rq fr = (reply, fr') \<Longrightarrow> server_step lower (fr, fs) (fr', fs)"
| srv_vacuum: "server_step lower (fr, fs) (fr\<lparr>hr_sessions := vacuum now (hr_sessions fr)\<rparr>, fs)"
| srv_sweep: "server_step lower (fr, fs) (fr\<lparr>hr_limiter := snd (cleanup_expired now (hr_limiter fr))\<rparr>, fs)"
| srv_command: "0 < hr_cmds fr \<Longrightarrow> server_step lower (fr, fs) (command_done fr, fs)"
| srv_stop: "server_step lower (fr, fs) (recv_stop fr, fs)"

inductive_cases server_stepE: "server_step lower st st'"

inductive served :: "(string \<Rightarrow> string) \<Rightarrow> server_state \<Rightarrow> server_state \<Rightarrow> bool" for lower where
  served_refl: "served lower st st"
| served_step: "served lower st st' \<Longrightarrow> server_step lower st' st'' \<Longrightarrow> served lower st st''"

subsection \<open>Configuration\<close>

text \<open>The configuration no request changes, and the directories it names.\<close>

definition same_config :: "http_receiver \<Rightarrow> http_receiver \<Rightarrow> bool" where
  "same_config fr fr' \<longleftrightarrow>
     hr_save_dir fr' = hr_save_dir fr \<and> hr_pin fr' = hr_pin fr \<and> hr_exts fr' = hr_exts fr \<and>
     hr_router fr' = hr_router fr \<and> hr_discovery_only fr' = hr_discovery_only fr"

lemma same_config_refl [simp]: "same_config fr fr"
  by (simp add: same_config_def)

lemma same_config_trans: "same_config a b \<Longrightarrow> same_config b c \<Longrightarrow> same_config a c"
  by (simp add: same_config_def)

definition save_dirs :: "http_receiver \<Rightarrow> string set" where
  "save_dirs fr = insert (hr_save_dir fr)
     (case hr_router fr of None \<Rightarrow> {} | Some r \<Rightarrow> insert (default_dir r) (snd ` set (routes r)))"

definition config_ok :: "http_receiver \<Rightarrow> bool" where
  "config_ok fr \<longleftrightarrow> [] \<notin> save_dirs fr"

lemma get_save_dir_in: "get_save_dir lower fr f \<in> save_dirs fr"
proof (cases "hr_router fr")
  case None
  then show ?thesis by (simp add: get_save_dir_def save_dirs_def)
next
  case (Some r)
  have "router_save_dir lower r f \<in> insert (default_dir r) (snd ` set (routes r))"
    using save_dir_known [of lower r f] by (auto simp: ran_def dest!: map_of_SomeD intro: rev_image_eqI)
  with Some show ?thesis by (simp add: get_save_dir_def save_dirs_def)
qed

text \<open>The directory the handler chooses for a file of a session.\<close>

definition dir_for :: "(string \<Rightarrow> string) \<Rightarrow> http_receiver \<Rightarrow> recv_session \<Rightarrow> string \<Rightarrow> string" where
  "dir_for lower fr s fid =
     (case map_of (file_metas s) fid of
        None \<Rightarrow> hr_save_dir fr
      | Some meta \<Rightarrow> if metas_folder_transfer (file_metas s) then hr_save_dir fr
                     else get_save_dir lower fr (fm_name meta))"

lemma dir_for_in: "dir_for lower fr s fid \<in> save_dirs fr"
proof -
  have "hr_save_dir fr \<in> save_dirs fr" by (simp add: save_dirs_def)
  then show ?thesis by (simp add: dir_for_def get_save_dir_in split: option.split)
qed

definition allowed_meta :: "(string \<Rightarrow> string) \<Rightarrow> http_receiver \<Rightarrow> file_meta \<Rightarrow> bool" where
  "allowed_meta lower fr meta \<longleftrightarrow> is_extension_allowed lower (fm_name meta) (hr_exts fr)"

definition session_ok :: "(string \<Rightarrow> string) \<Rightarrow> http_receiver \<Rightarrow> recv_session \<Rightarrow> bool" where
  "session_ok lower fr s \<longleftrightarrow>
     store_ok (dir_for lower fr s) s \<and> names_ok s \<and>
     (\<forall>fid meta. map_of (file_metas s) fid = Some meta \<longrightarrow> allowed_meta lower fr meta) \<and>
     (\<forall>b. folder_cached s = Some b \<longrightarrow> b = metas_folder_transfer (file_metas s))"

definition server_ok :: "(string \<Rightarrow> string) \<Rightarrow> http_receiver \<Rightarrow> bool" where
  "server_ok lower fr \<longleftrightarrow> table_ok (hr_sessions fr) \<and>
     (\<forall>i s. map_of (hr_sessions fr) i = Some s \<longrightarrow> session_ok lower fr s)"

lemma dir_for_cong:
  "same_config fr fr' \<Longrightarrow> file_metas s' = file_metas s \<Longrightarrow> dir_for lower fr' s' = dir_for lower fr s"
  by (simp add: dir_for_def fun_eq_iff get_save_dir_def same_config_def split: option.split)

lemma session_ok_cong: "same_config fr fr' \<Longrightarrow> session_ok lower fr' s = session_ok lower fr s"
  using dir_for_cong [of fr fr' s s lower]
  by (simp add: session_ok_def allowed_meta_def same_config_def)

lemma server_ok_cong:
  "same_config fr fr' \<Longrightarrow> hr_sessions fr' = hr_sessions fr \<Longrightarrow> server_ok lower fr' = server_ok lower fr"
  by (simp add: server_ok_def session_ok_cong)

subsection \<open>What a step may add to the file system\<close>

definition new_files_ok :: "(string \<Rightarrow> string) \<Rightarrow> http_receiver \<Rightarrow> filesys \<Rightarrow> filesys \<Rightarrow> bool" where
  "new_files_ok lower fr fs fs' \<longleftrightarrow>
     (\<forall>q. fs' q = fs q \<or> fs q = None \<and>
        (fs' q = Some Dir \<or> (\<exists>d\<in>save_dirs fr. below d q) \<and> is_extension_allowed lower q (hr_exts fr)))"

lemma new_files_refl [simp]: "new_files_ok lower fr fs fs"
  by (simp add: new_files_ok_def)

lemma new_files_trans:
  "new_files_ok lower fr fs fs1 \<Longrightarrow> new_files_ok lower fr fs1 fs2 \<Longrightarrow> new_files_ok lower fr fs fs2"
  unfolding new_files_ok_def by metis

lemma allowed_name_kept:
  "is_extension_allowed lower (fm_name meta) exts \<Longrightarrow> named_as meta q \<Longrightarrow> is_extension_allowed lower q exts"
  by (erule extension_kept) (simp add: named_as_def)

lemma file_added_new:
  assumes "file_added (dir_for lower fr s fid) meta fs fs'" "allowed_meta lower fr meta"
  shows "new_files_ok lower fr fs fs'"
  using assms dir_for_in [of lower fr s fid] allowed_name_kept
  unfolding file_added_def new_files_ok_def allowed_meta_def by metis


subsection \<open>Each handler keeps the server in order\<close>

lemma log_transfer_keeps [simp]:
  "hr_sessions (log_transfer now f n sender fr) = hr_sessions fr"
  "same_config fr (log_transfer now f n sender fr)"
  by (auto simp: log_transfer_def Let_def same_config_def split: option.split)

lemma accept_files_cached: "accept_files fs s = Inr s' \<Longrightarrow> folder_cached s' = folder_cached s"
proof (induction fs arbitrary: s)
  case Nil
  then show ?case by simp
next
  case (Cons f fs)
  obtain token fid meta where f: "f = (token, fid, meta)" by (metis prod_cases3)
  from Cons.prems f obtain s1 where s1: "accept_file token fid meta s = (None, s1)" "accept_files fs s1 = Inr s'"
    by (auto split: prod.splits option.splits)
  with Cons.IH accept_file_ok [OF s1(1)] show ?case by simp
qed

lemma admitted_session_ok:
  assumes "create_session_if_allowed now i tok files ip t = (Inr i', t')" "gm_wf files"
    and "\<forall>p\<in>set files. int64_range (fm_size (snd p))" "\<forall>p\<in>set files. allowed_meta lower fr (snd p)"
  obtains s where "i' = i" "t' = AList.update i s t" "length t < max_concurrent_sessions" "sess_inv s"
    "sess_id s = i" "client_ip s = ip" "map_of (file_metas s) = map_of files" "session_ok lower fr s"
proof (rule admission_ok [OF assms(1,2)])
  fix s
  assume s: "i' = i" "t' = AList.update i (start_session s) t" "length t < max_concurrent_sessions"
    "filling s" "sess_id s = i" "client_ip s = ip" "length (file_metas s) = length files"
    "map_of (file_metas s) = map_of files" "files \<noteq> []" "\<not> has_active_sessions now t"
  obtain z where z: "accept_files (with_tokens tok files) (new_recv_session (now div second) i ip) = Inr z"
    "t' = AList.update i (start_session z) t"
    using assms(1) by (auto simp: create_session_if_allowed_def new_session_locked_def split: if_splits sum.splits)
  have "map_of t' i = Some (start_session z)" by (simp add: z(2) update_conv')
  moreover have "map_of t' i = Some (start_session s)" by (simp add: s(2) update_conv')
  ultimately have "start_session s = start_session z" by (metis option.inject)
  then have c: "folder_cached s = None"
    using accept_files_cached [OF z(1)] by (cases s; cases z) (simp add: start_session_def new_recv_session_def)
  have metas: "int64_range (fm_size meta) \<and> allowed_meta lower fr meta" if "map_of files fid = Some meta" for fid meta
    using assms(3,4) map_of_SomeD [OF that] by fastforce
  have tgt: "us_target st = []" if "map_of (file_states s) fid = Some st" for fid st
    using s(4) that unfolding filling_def by (metis upload_state.select_convs(3))
  have "session_ok lower fr (start_session s)"
    using c metas tgt s(4,8)
    by (auto simp: session_ok_def store_ok_def folder_ok_def targets_ok_def names_ok_def start_session_def filling_def)
  moreover have "sess_inv (start_session s)" using s(4,7,9) by (rule started_inv)
  ultimately show thesis
    using that [of "start_session s"] s by (simp add: start_session_def)
qed

lemma server_ok_put:
  assumes "server_ok lower fr" "sess_inv s" "sess_id s = i" "session_ok lower fr s"
    and "map_of (hr_sessions fr) i \<noteq> None \<or> length (hr_sessions fr) < max_concurrent_sessions"
  shows "server_ok lower (fr\<lparr>hr_sessions := AList.update i s (hr_sessions fr)\<rparr>)"
proof -
  have c: "same_config fr (fr\<lparr>hr_sessions := t\<rparr>)" for t by (simp add: same_config_def)
  show ?thesis
    using assms table_ok_put session_ok_cong [OF c]
    by (auto simp: server_ok_def update_conv')
qed

lemma server_ok_fewer:
  assumes "server_ok lower fr" "table_ok t" "\<forall>i s. map_of t i = Some s \<longrightarrow> map_of (hr_sessions fr) i = Some s"
  shows "server_ok lower (fr\<lparr>hr_sessions := t\<rparr>)"
proof -
  have c: "same_config fr (fr\<lparr>hr_sessions := t\<rparr>)" by (simp add: same_config_def)
  have "session_ok lower fr s" if "map_of t i = Some s" for i s
    using assms(1,3) that unfolding server_ok_def by blast
  with assms(2) show ?thesis by (simp add: server_ok_def session_ok_cong [OF c])
qed

lemma filter_files_ok:
  assumes "filter_files_by_extension lower fr files = Inr kept" "gm_wf files"
  shows "gm_wf kept \<and> set kept \<subseteq> set files \<and> (\<forall>p\<in>set kept. allowed_meta lower fr (snd p))"
proof (cases "has_extension_filter fr")
  case True
  with assms(1) have "kept = gm_keep (\<lambda>i m. is_extension_allowed lower (fm_name m) (hr_exts fr)) files"
    by (auto simp: filter_files_by_extension_def Let_def split: if_splits)
  with wf_keep [OF assms(2)] show ?thesis by (auto simp: gm_keep_def allowed_meta_def)
next
  case False
  with assms show ?thesis
    by (auto simp: filter_files_by_extension_def has_extension_filter_def allowed_meta_def is_extension_allowed_def)
qed


text \<open>What \<open>SaveFile\<close> leaves alone in a session.\<close>

definition same_identity :: "recv_session \<Rightarrow> recv_session \<Rightarrow> bool" where
  "same_identity s s' \<longleftrightarrow>
     file_metas s' = file_metas s \<and> folder_cached s' = folder_cached s \<and> sess_id s' = sess_id s \<and>
     client_ip s' = client_ip s"

lemma same_identity_trans: "same_identity a b \<Longrightarrow> same_identity b c \<Longrightarrow> same_identity a c"
  by (simp add: same_identity_def)

lemma set_target_identity: "same_identity s (set_target fid p s)"
  by (simp add: set_target_def same_identity_def split: option.split)

lemma save_body_identity:
  "save_body env sha pt dir fid meta target body fs s = (st, out, fs', s') \<Longrightarrow> same_identity s s'"
proof -
  assume a: "save_body env sha pt dir fid meta target body fs s = (st, out, fs', s')"
  obtain ok1 s1 where 1: "prepare_folder_remap dir fs s = (ok1, s1)" by fastforce
  have i1: "same_identity s s1"
    using 1 by (auto simp: prepare_folder_remap_def same_identity_def Let_def split: option.splits)
  let ?p = "\<lambda>p0. apply_folder_remap s1 p0"
  have i2: "same_identity s2 s3" if "ensure_save_dir env d fs2 s2 = (ok, fs3, s3)" for d fs2 s2 ok fs3 s3
    using that by (auto simp: ensure_save_dir_def same_identity_def split: if_splits prod.splits bool.splits)
  have i3: "same_identity s2 s3" if "open_target env full b target fid fs2 s2 = (r, s3)" for full b fs2 s2 r s3
  proof (cases "target = []")
    case False
    with that show ?thesis by (simp add: open_target_def same_identity_def)
  next
    case True
    obtain x al where "alloc_create env full b (unique_files s2) fs2 = (x, al)" by fastforce
    with True that set_target_identity [of "s2\<lparr>unique_files := al\<rparr>" fid] show ?thesis
      by (cases x) (auto simp: open_target_def same_identity_def)
  qed
  have i4: "same_identity s2 s3" if "receive_into env sha pt meta body p fs2 s2 = (st2, e, fs3, s3)" for p fs2 s2 st2 e fs3 s3
    using that by (auto simp: receive_into_def same_identity_def Let_def split: prod.splits if_splits)
  show ?thesis
  proof (cases "sanitize_path_with_fallback (fm_name meta)")
    case (Inl e)
    with a show ?thesis by (simp add: save_body_def same_identity_def)
  next
    case (Inr p0)
    obtain ok2 fs2 s2 where 2: "ensure_save_dir env (full_save_dir dir (?p p0)) fs s1 = (ok2, fs2, s2)"
      by (metis prod_cases3)
    obtain r s3 where 3: "open_target env (full_save_dir dir (?p p0)) (path_base (?p p0)) target fid fs2 s2 = (r, s3)"
      by fastforce
    note i = i1 i2 [OF 2] i3 [OF 3]
    show ?thesis
    proof (cases "ok1 \<and> ok2 \<and> r \<noteq> None")
      case False
      with a Inr 1 2 3 have "s' \<in> {s1, s2, s3}"
        by (cases ok1; cases ok2; cases r) (auto simp: save_body_def Let_def)
      with i same_identity_trans show ?thesis by blast
    next
      case True
      then obtain q fs3 where r: "r = Some (q, fs3)" by fastforce
      obtain st4 e4 fs4 s4 where 4: "receive_into env sha pt meta body q fs3 s3 = (st4, e4, fs4, s4)"
        by (metis prod_cases4)
      with a Inr 1 2 3 True r have "s' = s4" by (cases e4) (simp_all add: save_body_def Let_def)
      with i i4 [OF 4] same_identity_trans show ?thesis by blast
    qed
  qed
qed

lemma save_file_identity:
  assumes "save_file env sha pt dir fid token ip body fs s = (out, fs', s')"
  shows "same_identity s s'"
  using assms
proof (cases rule: save_file_cases)
  case refused
  then show ?thesis by (simp add: same_identity_def)
next
  case (claimed meta target s1 st s2)
  have "same_identity s s1"
    using claimed(1) by (auto simp: save_begin_def same_identity_def split: if_splits option.splits)
  moreover have "same_identity s2 s'"
    unfolding claimed(3) by (auto simp: finish_file_attempt_def end_session_def same_identity_def Let_def split: option.split)
  ultimately show ?thesis using save_body_identity [OF claimed(2)] same_identity_trans by blast
qed

lemma chosen_dir:
  assumes "get_save_dir_for_session lower fr s (fm_name meta) = (dir, s1)" "session_ok lower fr s" "sess_inv s"
    and "map_of (file_metas s) fid = Some meta"
  shows "dir = dir_for lower fr s1 fid \<and> session_ok lower fr s1 \<and> sess_inv s1 \<and>
    sess_id s1 = sess_id s \<and> file_metas s1 = file_metas s"
proof -
  let ?b = "metas_folder_transfer (file_metas s)"
  have f: "sess_folder_transfer s = (?b, if folder_cached s = None then s\<lparr>folder_cached := Some ?b\<rparr> else s)"
    using assms(2) by (auto simp: sess_folder_transfer_def session_ok_def Let_def split: option.split)
  then have s1: "s1 = (if folder_cached s = None then s\<lparr>folder_cached := Some ?b\<rparr> else s)"
    "dir = (if ?b then hr_save_dir fr else get_save_dir lower fr (fm_name meta))"
    using assms(1) by (auto simp: get_save_dir_for_session_def split: if_splits bool.splits)
  have d: "dir_for lower fr s1 = dir_for lower fr s"
    using s1(1) by (intro dir_for_cong) simp_all
  have "session_ok lower fr s1"
    unfolding session_ok_def d using s1(1) assms(2)
    by (auto simp: session_ok_def store_ok_def folder_ok_def targets_ok_def names_ok_def split: if_splits)
  moreover have "sess_inv s1" using s1(1) assms(3) by (simp add: sess_inv_def open_files_def)
  ultimately show ?thesis
    using s1 d assms(4) by (simp add: dir_for_def)
qed

lemma upload_keeps:
  assumes "upload_handler env sha pt lower now rq fs fr = (reply, fs', fr')" "config_ok fr" "server_ok lower fr"
  shows "same_config fr fr' \<and> server_ok lower fr' \<and> new_files_ok lower fr fs fs'"
proof -
  let ?sid = "query ''sessionId'' rq" and ?fid = "query ''fileId'' rq"
  show ?thesis
  proof (cases "\<not> hr_discovery_only fr \<and> ?sid \<noteq> [] \<and> ?fid \<noteq> [] \<and> query ''token'' rq \<noteq> [] \<and>
      (\<exists>s meta. map_of (hr_sessions fr) ?sid = Some s \<and> map_of (file_metas s) ?fid = Some meta)")
    case False
    then have "fs' = fs \<and> fr' = fr"
      using assms(1)
      by (auto simp: upload_handler_def Let_def get_session_def get_file_meta_def split: if_splits option.splits)
    with assms(3) show ?thesis by simp
  next
    case True
    then obtain s meta where s: "map_of (hr_sessions fr) ?sid = Some s" "map_of (file_metas s) ?fid = Some meta"
      by blast
    have ok: "session_ok lower fr s" "sess_inv s" "sess_id s = ?sid"
      using assms(3) s(1) unfolding server_ok_def table_ok_def by blast+
    obtain dir s1 where d: "get_save_dir_for_session lower fr s (fm_name meta) = (dir, s1)" by fastforce
    note c = chosen_dir [OF d ok(1,2) s(2)]
    obtain out fs2 s2 where sf: "save_file env sha pt dir ?fid (query ''token'' rq) (rq_ip rq) (rq_body rq) fs s1 = (out, fs2, s2)"
      by (metis prod_cases3)
    let ?fr = "fr\<lparr>hr_sessions := AList.update ?sid s2 (hr_sessions fr)\<rparr>"
    have h: "fs' = fs2 \<and> (fr' = ?fr \<or> (\<exists>name. fr' = log_transfer now name (fm_size meta) (rq_ip rq) ?fr))"
      using assms(1) True s d sf
      by (cases out) (auto simp: upload_handler_def Let_def get_session_def get_file_meta_def)
    have ne: "dir_for lower fr s1 ?fid \<noteq> []"
      using assms(2) dir_for_in [of lower fr s1 ?fid] unfolding config_ok_def by metis
    have sf': "save_file env sha pt (dir_for lower fr s1 ?fid) ?fid (query ''token'' rq) (rq_ip rq) (rq_body rq) fs s1 = (out, fs2, s2)"
      using sf c by simp
    have k: "store_ok (dir_for lower fr s1) s1" "names_ok s1" "sess_inv s1" using c by (simp_all add: session_ok_def)
    note keeps = save_file_keeps [where D = "dir_for lower fr s1", OF sf' ne k(1,3)]
    note adds = save_file_adds [where D = "dir_for lower fr s1", OF sf' ne k(1,2,3)]
    have id: "same_identity s1 s2" using save_file_identity [OF sf] .
    have ds: "dir_for lower fr s2 = dir_for lower fr s1"
      using id by (intro dir_for_cong) (simp_all add: same_identity_def)
    have "session_ok lower fr s2"
      using keeps adds c id unfolding session_ok_def ds by (auto simp: same_identity_def)
    then have "server_ok lower ?fr"
      using keeps id c ok(3) s(1) by (intro server_ok_put [OF assms(3)]) (simp_all add: same_identity_def)
    moreover have "same_config fr ?fr" by (simp add: same_config_def)
    ultimately have fr: "same_config fr fr' \<and> server_ok lower fr'"
      using h server_ok_cong [OF log_transfer_keeps(2) log_transfer_keeps(1)]
        same_config_trans [OF _ log_transfer_keeps(2)] by metis
    have "new_files_ok lower fr fs fs2"
      using adds
    proof (elim conjE disjE exE)
      fix meta'
      assume m: "map_of (file_metas s1) ?fid = Some meta'" "file_added (dir_for lower fr s1 ?fid) meta' fs fs2"
      then have "allowed_meta lower fr meta'" using c by (auto simp: session_ok_def)
      with m(2) show ?thesis by (rule file_added_new)
    qed simp
    with fr h show ?thesis by simp
  qed
qed


lemma prepare_cases:
  assumes "pre_upload_handler lower decode t1 t2 now sid tok rq fr = (reply, fr')"
  obtains (refused) status rl where "reply = RStatus status" "fr' = fr\<lparr>hr_limiter := rl\<rparr>"
  | (admitted) rl req files s where
      "\<not> hr_discovery_only fr"
      "validate_pin (hr_pin fr) t1 t2 (rq_ip rq) (map_of (rq_query rq) ''pin'') (hr_limiter fr) = (0, rl)"
      "parse_json_body_limited decode max_pre_upload_body rq = Inr req" "pu_info req \<noteq> None"
      "\<forall>p\<in>set (pu_files req). 0 \<le> fm_size (snd p)"
      "filter_files_by_extension lower fr (pu_files req) = Inr files"
      "create_session_if_allowed now sid tok files (rq_ip rq) (hr_sessions fr) =
         (Inr sid, AList.update sid s (hr_sessions fr))"
      "reply = RTokens \<lparr>pr_session = sid, pr_tokens = file_tokens s\<rparr>"
      "fr' = fr\<lparr>hr_limiter := rl, hr_sessions := AList.update sid s (hr_sessions fr)\<rparr>"
proof (cases "hr_discovery_only fr")
  case True
  show ?thesis
    by (rule refused [of 403 "hr_limiter fr"]) (use assms True in \<open>simp_all add: pre_upload_handler_def\<close>)
next
  case d: False
  obtain status rl where v: "validate_pin (hr_pin fr) t1 t2 (rq_ip rq) (map_of (rq_query rq) ''pin'') (hr_limiter fr) = (status, rl)"
    by fastforce
  show ?thesis
  proof (cases "\<exists>req files. status = 0 \<and> parse_json_body_limited decode max_pre_upload_body rq = Inr req \<and>
      pu_info req \<noteq> None \<and> (\<forall>p\<in>set (pu_files req). 0 \<le> fm_size (snd p)) \<and>
      filter_files_by_extension lower fr (pu_files req) = Inr files")
    case False
    then have "\<exists>st. reply = RStatus st \<and> fr' = fr\<lparr>hr_limiter := rl\<rparr>"
      using assms d v by (auto simp: pre_upload_handler_def Let_def not_less split: if_splits sum.splits)
    with refused show ?thesis by blast
  next
    case True
    then obtain req files where r: "status = 0" "parse_json_body_limited decode max_pre_upload_body rq = Inr req"
      "pu_info req \<noteq> None" "\<forall>p\<in>set (pu_files req). 0 \<le> fm_size (snd p)"
      "filter_files_by_extension lower fr (pu_files req) = Inr files" by blast
    obtain out t where c: "create_session_if_allowed now sid tok files (rq_ip rq) (hr_sessions fr) = (out, t)"
      by fastforce
    have neg: "\<not> (\<exists>p\<in>set (pu_files req). fm_size (snd p) < 0)" using r(4) by fastforce
    show ?thesis
    proof (cases out)
      case (Inl e)
      have "t = hr_sessions fr" using c Inl admission_refused by blast
      then have "fr' = fr\<lparr>hr_limiter := rl\<rparr>" "\<exists>st. reply = RStatus st"
        using assms d v r c Inl neg by (auto simp: pre_upload_handler_def Let_def)
      with refused show ?thesis by blast
    next
      case (Inr i)
      from c Inr have "new_session_locked now sid tok files (rq_ip rq) (hr_sessions fr) = (Inr i, t)"
        by (auto simp: create_session_if_allowed_def split: if_splits)
      then obtain s where s: "i = sid" "t = AList.update sid s (hr_sessions fr)"
        by (auto simp: new_session_locked_def split: if_splits sum.splits)
      have "generate_pre_upload_resp sid t = Inr \<lparr>pr_session = sid, pr_tokens = file_tokens s\<rparr>"
        by (simp add: generate_pre_upload_resp_def get_session_def s(2) update_conv' get_file_tokens_def)
      then have "reply = RTokens \<lparr>pr_session = sid, pr_tokens = file_tokens s\<rparr>"
        "fr' = fr\<lparr>hr_limiter := rl, hr_sessions := t\<rparr>"
        using assms d v r c Inr s(1) neg by (simp_all add: pre_upload_handler_def Let_def)
      then show ?thesis
        by (intro admitted [of rl req files s]) (use d v r c Inr s in \<open>simp_all\<close>)
    qed
  qed
qed

lemma parsed_decoded:
  "parse_json_body_limited decode max_bytes rq = Inr r \<Longrightarrow> \<exists>b. decode b = Some r \<and> int (length b) \<le> max_bytes"
  by (auto simp: parse_json_body_limited_def not_less split: if_splits prod.splits option.splits)

lemma prepare_keeps:
  assumes "pre_upload_handler lower decode t1 t2 now sid tok rq fr = (reply, fr')"
    and "decoder_ok decode" "map_of (hr_sessions fr) sid = None" "server_ok lower fr"
  shows "same_config fr fr' \<and> server_ok lower fr'"
  using assms(1)
proof (cases rule: prepare_cases)
  case (refused status rl)
  then have "same_config fr fr'" "hr_sessions fr' = hr_sessions fr" by (simp_all add: same_config_def)
  with server_ok_cong assms(4) show ?thesis by blast
next
  case (admitted rl req files s)
  let ?fr = "fr\<lparr>hr_limiter := rl\<rparr>"
  have c: "same_config fr ?fr" "hr_sessions ?fr = hr_sessions fr" by (simp_all add: same_config_def)
  have ok: "server_ok lower ?fr" using server_ok_cong [OF c] assms(4) by blast
  obtain b where "decode b = Some req" using parsed_decoded [OF admitted(3)] by blast
  then have d: "gm_wf (pu_files req)" "\<forall>p\<in>set (pu_files req). int64_range (fm_size (snd p))"
    using assms(2) unfolding decoder_ok_def by blast+
  note f = filter_files_ok [OF admitted(6) d(1)]
  have f': "gm_wf files" "\<forall>p\<in>set files. int64_range (fm_size (snd p))" "\<forall>p\<in>set files. allowed_meta lower ?fr (snd p)"
    using f d(2) by (auto simp: allowed_meta_def)
  have "server_ok lower (?fr\<lparr>hr_sessions := AList.update sid s (hr_sessions ?fr)\<rparr>)"
  proof (rule admitted_session_ok [OF admitted(7) f'])
    fix s'
    assume s': "AList.update sid s (hr_sessions fr) = AList.update sid s' (hr_sessions fr)"
      "length (hr_sessions fr) < max_concurrent_sessions" "sess_inv s'" "sess_id s' = sid" "session_ok lower ?fr s'"
    then show ?thesis using server_ok_put [OF ok, of s' sid] by simp
  qed
  then show ?thesis using admitted(9) by (simp add: same_config_def)
qed

lemma vacuum_sub: "map_of (vacuum now m) j = Some s \<Longrightarrow> gm_wf m \<Longrightarrow> map_of m j = Some s"
  using get_keep [of m "\<lambda>i s. \<not> sess_stopped now s" j]
  by (cases "map_of m j") (simp_all add: vacuum_def split: if_splits)

lemma server_step_keeps:
  "server_step lower st st' \<Longrightarrow> config_ok (fst st) \<Longrightarrow> server_ok lower (fst st) \<Longrightarrow>
     same_config (fst st) (fst st') \<and> server_ok lower (fst st') \<and> new_files_ok lower (fst st) (snd st) (snd st')"
proof (induction rule: server_step.induct)
  case (srv_prepare decode fr sid t1 t2 now tok rq reply fr' fs)
  with prepare_keeps show ?case by simp
next
  case (srv_upload env sha pt now rq fs fr reply fs' fr')
  with upload_keeps show ?case by simp
next
  case (srv_cancel rq fr reply fr' fs)
  have t: "table_step (hr_sessions fr) (snd (kill_session_for_client (query ''sessionId'' rq) (rq_ip rq) (hr_sessions fr)))"
    by (rule table_step.cancel)
  have "table_ok (hr_sessions fr)" using srv_cancel.prems by (simp add: server_ok_def)
  note ok = table_step_ok [OF t this]
  have sub: "map_of (snd (kill_session_for_client i ip m)) j = Some s \<Longrightarrow> map_of m j = Some s" for i ip m j s
    by (auto simp: kill_session_for_client_def kill_session_def delete_conv' split: sum.splits option.splits if_splits)
  have "fr' = fr \<or> fr' = fr\<lparr>hr_sessions := snd (kill_session_for_client (query ''sessionId'' rq) (rq_ip rq) (hr_sessions fr))\<rparr>"
    using srv_cancel.hyps by (auto simp: cancel_handler_def split: if_splits prod.splits option.splits)
  moreover have "server_ok lower (fr\<lparr>hr_sessions :=
      snd (kill_session_for_client (query ''sessionId'' rq) (rq_ip rq) (hr_sessions fr))\<rparr>)"
    by (rule server_ok_fewer [OF _ ok]) (use srv_cancel.prems sub in \<open>simp, blast\<close>)
  ultimately show ?case using srv_cancel.prems by (elim disjE) (simp_all add: same_config_def)
next
  case (srv_register dec rq fr reply fr' fs)
  then have "same_config fr fr'" "hr_sessions fr' = hr_sessions fr"
    by (auto simp: register_handler_def register_discovered_device_def same_config_def Let_def split: sum.splits if_splits)
  with server_ok_cong srv_register.prems show ?case by simp
next
  case (srv_nonce decn fresh rq fr reply fr' fs)
  then have "same_config fr fr'" "hr_sessions fr' = hr_sessions fr"
    by (auto simp: nonce_exchange_handler_def same_config_def Let_def split: sum.splits if_splits option.splits)
  with server_ok_cong srv_nonce.prems show ?case by simp
next
  case (srv_vacuum fr fs now)
  note sub = vacuum_sub
  have t: "table_ok (hr_sessions fr)" using srv_vacuum.prems by (simp add: server_ok_def)
  have ok: "table_ok (vacuum now (hr_sessions fr))" using t by (rule table_ok_vacuum)
  have wf: "gm_wf (hr_sessions fr)" using t by (simp add: table_ok_def)
  have "server_ok lower (fr\<lparr>hr_sessions := vacuum now (hr_sessions fr)\<rparr>)"
  proof (rule server_ok_fewer [OF _ ok])
    show "server_ok lower fr" using srv_vacuum.prems by simp
    show "\<forall>i s. map_of (vacuum now (hr_sessions fr)) i = Some s \<longrightarrow> map_of (hr_sessions fr) i = Some s"
      using sub [OF _ wf] by blast
  qed
  then show ?case by (simp add: same_config_def)
next
  case (srv_sweep fr fs now)
  have c: "same_config fr (fr\<lparr>hr_limiter := l\<rparr>)" for l by (simp add: same_config_def)
  with server_ok_cong [OF c] srv_sweep.prems show ?case by simp
next
  case (srv_command fr fs)
  have c: "same_config fr (command_done fr)" "hr_sessions (command_done fr) = hr_sessions fr"
    by (simp_all add: same_config_def command_done_def)
  with server_ok_cong [OF c] srv_command.prems show ?case by simp
next
  case (srv_stop fr fs)
  have c: "same_config fr (recv_stop fr)" "hr_sessions (recv_stop fr) = hr_sessions fr"
    by (simp_all add: same_config_def recv_stop_def close_transfer_log_def)
  with server_ok_cong [OF c] srv_stop.prems show ?case by simp
qed

lemma served_keeps:
  "served lower st st' \<Longrightarrow> config_ok (fst st) \<Longrightarrow> server_ok lower (fst st) \<Longrightarrow>
     same_config (fst st) (fst st') \<and> server_ok lower (fst st') \<and> new_files_ok lower (fst st) (snd st) (snd st')"
proof (induction rule: served.induct)
  case (served_refl st)
  then show ?case by simp
next
  case (served_step st st' st'')
  then have IH: "same_config (fst st) (fst st')" "server_ok lower (fst st')"
    "new_files_ok lower (fst st) (snd st) (snd st')" by simp_all
  have d: "save_dirs (fst st') = save_dirs (fst st)" "hr_exts (fst st') = hr_exts (fst st)"
    using IH(1) by (simp_all add: save_dirs_def same_config_def)
  then have "config_ok (fst st')" using served_step.prems(1) by (simp add: config_ok_def)
  from server_step_keeps [OF served_step.hyps(2) this IH(2)] IH
  have "same_config (fst st') (fst st'')" "server_ok lower (fst st'')"
    "new_files_ok lower (fst st) (snd st') (snd st'')"
    by (simp_all add: new_files_ok_def d)
  then show ?case using IH same_config_trans new_files_trans by blast
qed


subsection \<open>A run to try the properties on\<close>

definition demo_receiver :: http_receiver where
  "demo_receiver = (new_file_receiver ''kobo'' ''f'' ''/b'' False)\<lparr>hr_pin := ''1234'', hr_exts := [''txt'']\<rparr>"

definition demo_request :: "(string, string) gomap \<Rightarrow> bytes \<Rightarrow> http_request" where
  "demo_request q b =
     \<lparr>rq_ip = ''10.0.0.2'', rq_query = q, rq_content_length = int (length b),
      rq_body = demo_body b, rq_peer_fingerprint = None\<rparr>"

definition demo_sender :: sender_info where
  "demo_sender = device_info.extend (new_device_info ''phone'' ''x'') \<lparr>si_port = 1, si_protocol = ''http''\<rparr>"

text \<open>A decoder that knows one request: two files, one of them not allowed.\<close>

definition demo_decoder :: "bytes \<Rightarrow> pre_upload_req option" where
  "demo_decoder b = (if b = ''{}'' then Some
     \<lparr>pu_info = Some demo_sender,
      pu_files = [(''f'', demo_meta), (''g'', demo_meta\<lparr>fm_id := ''g'', fm_name := ''x.exe''\<rparr>)]\<rparr> else None)"

definition demo_prepared :: "http_reply \<times> http_receiver" where
  "demo_prepared = pre_upload_handler ascii_lower demo_decoder 0 0 0 ''s1'' (\<lambda>i. ''tok'')
     (demo_request [(''pin'', ''1234'')] ''{}'') demo_receiver"

definition demo_uploaded :: "http_reply \<times> filesys \<times> http_receiver" where
  "demo_uploaded = upload_handler no_faults demo_sha (\<lambda>_. None) ascii_lower 0
     (demo_request [(''sessionId'', ''s1''), (''fileId'', ''f''), (''token'', ''tok'')] ''hi'')
     demo_fs (snd demo_prepared)"

lemma demo_decoder_ok: "decoder_ok demo_decoder"
  by (auto simp: decoder_ok_def demo_decoder_def demo_meta_def int64_range_def)


lemma demo_parsed:
  "parse_json_body_limited demo_decoder max_pre_upload_body (demo_request q ''{}'') = Inr (the (demo_decoder ''{}''))"
  by (simp add: parse_json_body_limited_def max_pre_upload_body_def demo_request_def demo_body_def
      demo_decoder_def received_def)

definition demo_table :: sess_table where
  "demo_table = snd (create_session_if_allowed 0 ''s1'' (\<lambda>i. ''tok'') [(''f'', demo_meta)] ''10.0.0.2'' [])"

lemma demo_gate:
  "validate_pin (hr_pin demo_receiver) 0 0 ''10.0.0.2'' (Some ''1234'') (hr_limiter demo_receiver) =
     (0, hr_limiter demo_receiver)"
  by code_simp

lemma demo_filter:
  "filter_files_by_extension ascii_lower demo_receiver (pu_files (the (demo_decoder ''{}''))) = Inr [(''f'', demo_meta)]"
  by code_simp

lemma demo_admission:
  "create_session_if_allowed 0 ''s1'' (\<lambda>i. ''tok'') [(''f'', demo_meta)] ''10.0.0.2'' [] = (Inr ''s1'', demo_table)"
  "generate_pre_upload_resp ''s1'' demo_table = Inr \<lparr>pr_session = ''s1'', pr_tokens = [(''f'', ''tok'')]\<rparr>"
  by code_simp+

lemma demo_prepared_eq:
  "demo_prepared = (RTokens \<lparr>pr_session = ''s1'', pr_tokens = [(''f'', ''tok'')]\<rparr>,
     demo_receiver\<lparr>hr_sessions := demo_table\<rparr>)"
proof -
  have q: "map_of (rq_query (demo_request [(''pin'', ''1234'')] ''{}'')) ''pin'' = Some ''1234''"
    "rq_ip (demo_request [(''pin'', ''1234'')] ''{}'') = ''10.0.0.2''"
    by (simp_all add: demo_request_def)
  have r: "\<not> hr_discovery_only demo_receiver" "hr_sessions demo_receiver = []"
    by (simp_all add: demo_receiver_def new_file_receiver_def new_sess_manager_def)
  have d: "pu_info (the (demo_decoder ''{}'')) \<noteq> None"
    "\<not> (\<exists>p\<in>set (pu_files (the (demo_decoder ''{}''))). fm_size (snd p) < 0)"
    by (simp_all add: demo_decoder_def demo_meta_def)
  show ?thesis
    unfolding demo_prepared_def pre_upload_handler_def q demo_gate demo_parsed demo_filter
    using r d by (simp add: demo_filter demo_admission)
qed

definition demo_upload_session :: recv_session where
  "demo_upload_session = the (map_of demo_table ''s1'')"

lemma demo_upload:
  "fst demo_uploaded = RStatus 200 \<and> fst (snd demo_uploaded) ''/b/a (1).txt'' = Some (File ''hi'' None) \<and>
   fst (snd demo_uploaded) ''/b/a.txt'' = Some (File ''old'' None)"
  unfolding demo_uploaded_def demo_prepared_eq snd_conv by code_simp

lemma demo_served:
  "served ascii_lower (demo_receiver, demo_fs) (snd (snd demo_uploaded), fst (snd demo_uploaded))"
proof -
  have "server_step ascii_lower (demo_receiver, demo_fs) (snd demo_prepared, demo_fs)"
  proof (rule srv_prepare [OF demo_decoder_ok])
    show "map_of (hr_sessions demo_receiver) ''s1'' = None"
      by (simp add: demo_receiver_def new_file_receiver_def new_sess_manager_def)
    show "pre_upload_handler ascii_lower demo_decoder 0 0 0 ''s1'' (\<lambda>i. ''tok'')
        (demo_request [(''pin'', ''1234'')] ''{}'') demo_receiver = (fst demo_prepared, snd demo_prepared)"
      by (simp add: demo_prepared_def)
  qed
  moreover have "server_step ascii_lower (snd demo_prepared, demo_fs) (snd (snd demo_uploaded), fst (snd demo_uploaded))"
  proof (rule srv_upload)
    show "upload_handler no_faults demo_sha (\<lambda>_. None) ascii_lower 0
        (demo_request [(''sessionId'', ''s1''), (''fileId'', ''f''), (''token'', ''tok'')] ''hi'')
        demo_fs (snd demo_prepared) = (fst demo_uploaded, fst (snd demo_uploaded), snd (snd demo_uploaded))"
      by (simp add: demo_uploaded_def)
  qed
  ultimately show ?thesis using served_step [OF served_step [OF served_refl]] by blast
qed

subsection \<open>Properties\<close>

text \<open>
  C1: The server only adds what it was configured to accept. Whatever requests arrive in whatever
  order, and whatever fails on the way, no file that existed is changed, replaced or removed;
  everything new is a directory, or lies strictly below the save directory or a routed directory
  and has, when a filter is set, one of the allowed extensions.
\<close>

theorem server_only_adds_allowed_files:
  assumes "served lower (fr0, fs0) (fr, fs)" "hr_sessions fr0 = new_sess_manager" "config_ok fr0"
  shows "\<forall>q. fs q = fs0 q \<or> fs0 q = None \<and>
    (fs q = Some Dir \<or> (\<exists>d\<in>save_dirs fr0. below d q) \<and> is_extension_allowed lower q (hr_exts fr0))"
proof -
  have "server_ok lower fr0"
    using assms(2) by (simp add: server_ok_def new_sess_manager_def table_ok_def)
  with served_keeps [OF assms(1)] assms(3) show ?thesis by (simp add: new_files_ok_def)
qed

theorem server_only_adds_allowed_files_witness:
  "demo_fs ''/b/a (1).txt'' = None \<and> fst (snd demo_uploaded) ''/b/a (1).txt'' = Some (File ''hi'' None) \<and>
   is_extension_allowed ascii_lower ''/b/a (1).txt'' (hr_exts demo_receiver)"
proof -
  have "hr_sessions demo_receiver = new_sess_manager" "config_ok demo_receiver"
    by (simp_all add: demo_receiver_def new_file_receiver_def config_ok_def save_dirs_def)
  from spec [OF server_only_adds_allowed_files [OF demo_served this], of "''/b/a (1).txt''"] demo_upload
  show ?thesis by (auto simp: demo_fs_def)
qed


text \<open>
  C2: Tokens are only handed out behind every gate. A sender that gets a session was asked by a
  server that accepts transfers, was not blocked and gave the configured PIN; its request was
  complete, no larger than the limit and no other session was active; the session belongs to its
  address and holds only files it asked for, with an allowed extension and no negative size.
\<close>

theorem tokens_only_after_gate:
  assumes "pre_upload_handler lower decode t1 t2 now sid tok rq fr = (RTokens resp, fr')"
    and "decoder_ok decode" "table_ok (hr_sessions fr)"
  shows "\<not> hr_discovery_only fr \<and> \<not> has_active_sessions now (hr_sessions fr) \<and>
    (hr_pin fr \<noteq> [] \<longrightarrow> map_of (rq_query rq) ''pin'' = Some (hr_pin fr) \<and>
       \<not> fst (is_blocked t1 (rq_ip rq) (hr_limiter fr))) \<and>
    (\<exists>b req s. decode b = Some req \<and> int (length b) \<le> max_pre_upload_body \<and> pu_info req \<noteq> None \<and>
       map_of (hr_sessions fr') (pr_session resp) = Some s \<and> client_ip s = rq_ip rq \<and>
       pr_tokens resp = file_tokens s \<and>
       (\<forall>fid meta. map_of (file_metas s) fid = Some meta \<longrightarrow>
          map_of (pu_files req) fid = Some meta \<and> 0 \<le> fm_size meta \<and>
          is_extension_allowed lower (fm_name meta) (hr_exts fr)))"
  using assms(1)
proof (cases rule: prepare_cases)
  case (admitted rl req files s)
  obtain b where b: "decode b = Some req" "int (length b) \<le> max_pre_upload_body"
    using parsed_decoded [OF admitted(3)] by blast
  then have d: "gm_wf (pu_files req)" using assms(2) unfolding decoder_ok_def by blast
  note f = filter_files_ok [OF admitted(6) d]
  have pin: "hr_pin fr \<noteq> [] \<longrightarrow> map_of (rq_query rq) ''pin'' = Some (hr_pin fr) \<and>
      \<not> fst (is_blocked t1 (rq_ip rq) (hr_limiter fr))"
    using admitted(2) by (auto simp: validate_pin_def split: if_splits prod.splits bool.splits option.splits)
  show ?thesis
  proof (rule admission_ok [OF admitted(7)])
    show "gm_wf files" using f by simp
    fix s'
    assume s': "AList.update sid s (hr_sessions fr) = AList.update sid (start_session s') (hr_sessions fr)"
      "client_ip s' = rq_ip rq" "map_of (file_metas s') = map_of files" "\<not> has_active_sessions now (hr_sessions fr)"
    have "map_of (AList.update sid s (hr_sessions fr)) sid = Some s" by (simp add: update_conv')
    then have eq: "s = start_session s'" unfolding s'(1) by (simp add: update_conv')
    have "map_of (pu_files req) fid = Some meta \<and> 0 \<le> fm_size meta \<and>
        is_extension_allowed lower (fm_name meta) (hr_exts fr)"
      if "map_of (file_metas s) fid = Some meta" for fid meta
    proof -
      have "map_of files fid = Some meta" using that s'(3) by (simp add: eq start_session_def)
      then have m: "(fid, meta) \<in> set files" by (rule map_of_SomeD)
      then have r: "(fid, meta) \<in> set (pu_files req)" using f by blast
      then have "map_of (pu_files req) fid = Some meta" using d by (simp add: map_of_eq_Some_iff)
      with r m f admitted(5) show ?thesis by (fastforce simp: allowed_meta_def)
    qed
    moreover have "map_of (hr_sessions fr') (pr_session resp) = Some s" "pr_tokens resp = file_tokens s"
      using admitted(8,9) by (simp_all add: update_conv')
    moreover have "client_ip s = rq_ip rq" using s'(2) by (simp add: eq start_session_def)
    ultimately show ?thesis using admitted(1,4) pin b s'(4) by blast
  qed
qed simp

theorem tokens_only_after_gate_witness:
  "\<exists>s. map_of (hr_sessions (snd demo_prepared)) ''s1'' = Some s \<and> client_ip s = ''10.0.0.2''"
proof -
  have "pre_upload_handler ascii_lower demo_decoder 0 0 0 ''s1'' (\<lambda>i. ''tok'')
      (demo_request [(''pin'', ''1234'')] ''{}'') demo_receiver =
      (RTokens \<lparr>pr_session = ''s1'', pr_tokens = [(''f'', ''tok'')]\<rparr>, snd demo_prepared)"
    using demo_prepared_eq by (simp add: demo_prepared_def)
  moreover have "table_ok (hr_sessions demo_receiver)"
    by (simp add: demo_receiver_def new_file_receiver_def new_sess_manager_def table_ok_def)
  ultimately show ?thesis
    using tokens_only_after_gate [OF _ demo_decoder_ok] by (fastforce simp: demo_request_def)
qed

subsection \<open>The transfer log and the commands\<close>

definition log_char :: "char \<Rightarrow> bool" where
  "log_char c \<longleftrightarrow> 32 \<le> (of_char c :: nat) \<or> c = CHR 0x09"

lemma cont_log: "cont_byte lo hi c \<Longrightarrow> 32 \<le> lo \<Longrightarrow> log_char c"
  by (simp add: cont_byte_def log_char_def)

lemma rune_log:
  assumes "rune_len (a # s) \<noteq> 0" "\<not> (rune_len (a # s) = 1 \<and> (of_char a :: nat) < 32 \<and> a \<noteq> CHR 0x09)"
  shows "list_all log_char (take (rune_len (a # s)) (a # s))"
proof (cases "(of_char a :: nat) < 0x80")
  case True
  then have "rune_len (a # s) = 1" by simp
  with assms(2) show ?thesis by (auto simp: log_char_def)
next
  case False
  then have a: "log_char a" by (simp add: log_char_def)
  let ?n = "of_char a :: nat" and ?c = "cont_byte 0x80 0xBF"
  consider (two) "0xC2 \<le> ?n" "?n \<le> 0xDF" | (three) "0xE0 \<le> ?n" "?n \<le> 0xEF" | (four) "0xF0 \<le> ?n" "?n \<le> 0xF4"
    | (none) "rune_len (a # s) = 0"
    using False by (fastforce simp: Let_def)
  then show ?thesis
  proof cases
    case two
    then have "rune_len (a # s) = (case s of x # _ \<Rightarrow> if ?c x then 2 else 0 | _ \<Rightarrow> 0)" by simp
    with assms(1) obtain x r where "s = x # r" "?c x" "rune_len (a # s) = 2"
      by (auto split: list.splits if_splits simp del: rune_len.simps)
    with a cont_log [of "0x80" "0xBF" x] show ?thesis by (simp add: numeral_2_eq_2 del: rune_len.simps)
  next
    case three
    then have "rune_len (a # s) = (case s of x # y # _ \<Rightarrow>
        if cont_byte (if ?n = 0xE0 then 0xA0 else 0x80) (if ?n = 0xED then 0x9F else 0xBF) x \<and> ?c y then 3 else 0 | _ \<Rightarrow> 0)"
      by (simp add: Let_def)
    with assms(1) obtain x y r where h: "s = x # y # r"
      "cont_byte (if ?n = 0xE0 then 0xA0 else 0x80) (if ?n = 0xED then 0x9F else 0xBF) x" "?c y" "rune_len (a # s) = 3"
      by (auto split: list.splits if_split_asm simp del: rune_len.simps)
    have "log_char x" using h(2) by (rule cont_log) simp
    with h show ?thesis
      using a cont_log [of "0x80" "0xBF" y] by (simp add: numeral_3_eq_3 del: rune_len.simps)
  next
    case four
    then have "rune_len (a # s) = (case s of x # y # z # _ \<Rightarrow>
        if cont_byte (if ?n = 0xF0 then 0x90 else 0x80) (if ?n = 0xF4 then 0x8F else 0xBF) x \<and> ?c y \<and> ?c z
        then 4 else 0 | _ \<Rightarrow> 0)"
      by (simp add: Let_def)
    with assms(1) obtain x y z r where h: "s = x # y # z # r"
      "cont_byte (if ?n = 0xF0 then 0x90 else 0x80) (if ?n = 0xF4 then 0x8F else 0xBF) x" "?c y" "?c z"
      "rune_len (a # s) = 4"
      by (auto split: list.splits if_split_asm simp del: rune_len.simps)
    have "log_char x" using h(2) by (rule cont_log) simp
    with h show ?thesis
      using a cont_log [of "0x80" "0xBF" y] cont_log [of "0x80" "0xBF" z] by (simp del: rune_len.simps)
  next
    case none
    with assms(1) show ?thesis by simp
  qed
qed

lemma sanitize_for_log_clean: "list_all log_char (sanitize_for_log s)"
proof (induction s rule: sanitize_for_log.induct)
  case 1
  then show ?case by simp
next
  case (2 a s)
  show ?case
  proof (cases "rune_len (a # s) = 0")
    case True
    with 2 show ?thesis by (simp add: log_char_def)
  next
    case False
    with 2 rune_log [of a s] show ?thesis by (auto simp del: rune_len.simps)
  qed
qed

definition log_ok :: "http_receiver \<Rightarrow> bool" where
  "log_ok fr \<longleftrightarrow> hr_cmds fr \<le> max_commands \<and>
     (\<forall>es e. hr_log fr = Some es \<longrightarrow> e \<in> set es \<longrightarrow> list_all log_char (le_file e) \<and> list_all log_char (le_sender e))"

lemma log_transfer_ok: "log_ok fr \<Longrightarrow> log_ok (log_transfer now f n sender fr)"
  using sanitize_for_log_clean
  by (auto simp: log_transfer_def log_ok_def Let_def split: option.split)


lemma step_log_ok: "server_step lower st st' \<Longrightarrow> log_ok (fst st) \<Longrightarrow> log_ok (fst st')"
proof (induction rule: server_step.induct)
  case (srv_prepare decode fr sid t1 t2 now tok rq reply fr' fs)
  from srv_prepare.hyps(3) have "hr_log fr' = hr_log fr \<and> hr_cmds fr' = hr_cmds fr"
    by (cases rule: prepare_cases) simp_all
  with srv_prepare.prems show ?case by (simp add: log_ok_def)
next
  case (srv_upload env sha pt now rq fs fr reply fs' fr')
  have "fr' = fr \<or> (\<exists>t. fr' = fr\<lparr>hr_sessions := t\<rparr>) \<or>
      (\<exists>t name meta. fr' = log_transfer now name meta (rq_ip rq) (fr\<lparr>hr_sessions := t\<rparr>))"
    using srv_upload.hyps
    by (simp add: upload_handler_def Let_def split: if_splits sum.splits option.splits prod.splits) blast+
  moreover have "log_ok (fr\<lparr>hr_sessions := t\<rparr>)" for t using srv_upload.prems by (simp add: log_ok_def)
  ultimately show ?case using srv_upload.prems log_transfer_ok by auto
next
  case (srv_cancel rq fr reply fr' fs)
  then show ?case by (auto simp: cancel_handler_def log_ok_def split: if_splits prod.splits option.splits)
next
  case (srv_register dec rq fr reply fr' fs)
  then have "hr_log fr' = hr_log fr" "hr_cmds fr' = hr_cmds fr"
    by (auto simp: register_handler_def register_discovered_device_def Let_def split: sum.splits if_splits)
  with srv_register.prems show ?case by (simp add: log_ok_def)
next
  case (srv_nonce decn fresh rq fr reply fr' fs)
  then have "hr_log fr' = hr_log fr" "hr_cmds fr' = hr_cmds fr"
    by (auto simp: nonce_exchange_handler_def Let_def split: sum.splits if_splits option.splits)
  with srv_nonce.prems show ?case by (simp add: log_ok_def)
qed (auto simp: log_ok_def command_done_def recv_stop_def close_transfer_log_def)

lemma served_log_ok: "served lower st st' \<Longrightarrow> log_ok (fst st) \<Longrightarrow> log_ok (fst st')"
  by (induction rule: served.induct) (auto dest: step_log_ok)

text \<open>
  Names cannot forge log lines and uploads cannot pile up commands: however the server is
  used, at most four transfer commands run at once, and no file name or sender in the transfer
  log contains a line break or another control byte below 32 (a tab excepted).
\<close>

theorem transfer_log_and_commands_bounded:
  assumes "served lower (fr0, fs0) (fr, fs)" "hr_cmds fr0 = 0" "hr_log fr0 = None \<or> hr_log fr0 = Some []"
  shows "hr_cmds fr \<le> max_commands \<and>
    (\<forall>es e. hr_log fr = Some es \<longrightarrow> e \<in> set es \<longrightarrow>
       (\<forall>c\<in>set (le_file e) \<union> set (le_sender e). 32 \<le> (of_char c :: nat) \<or> c = CHR 0x09))"
proof -
  have "log_ok fr0" using assms(2,3) by (auto simp: log_ok_def)
  with served_log_ok [OF assms(1)] have "log_ok fr" by simp
  then show ?thesis by (auto simp: log_ok_def list_all_iff log_char_def)
qed

theorem transfer_log_and_commands_bounded_witness:
  "hr_cmds (snd (snd demo_uploaded)) \<le> 4"
  using transfer_log_and_commands_bounded [OF demo_served]
  by (simp add: demo_receiver_def new_file_receiver_def max_commands_def)

subsection \<open>Discovery only\<close>

definition closed :: "http_receiver \<Rightarrow> bool" where
  "closed fr \<longleftrightarrow> hr_discovery_only fr \<and> hr_sessions fr = []"

lemma closed_step:
  "server_step lower st st' \<Longrightarrow> closed (fst st) \<Longrightarrow> closed (fst st') \<and> snd st' = snd st"
proof (induction rule: server_step.induct)
  case (srv_prepare decode fr sid t1 t2 now tok rq reply fr' fs)
  then show ?case by (simp add: pre_upload_handler_def closed_def)
next
  case (srv_upload env sha pt now rq fs fr reply fs' fr')
  then show ?case by (simp add: upload_handler_def closed_def)
next
  case (srv_cancel rq fr reply fr' fs)
  then show ?case
    by (auto simp: cancel_handler_def closed_def kill_session_for_client_def get_session_def split: if_splits)
next
  case (srv_register dec rq fr reply fr' fs)
  then have "hr_discovery_only fr' = hr_discovery_only fr" "hr_sessions fr' = hr_sessions fr"
    by (auto simp: register_handler_def register_discovered_device_def Let_def split: sum.splits if_splits)
  with srv_register.prems show ?case by (simp add: closed_def)
next
  case (srv_nonce decn fresh rq fr reply fr' fs)
  then have "hr_discovery_only fr' = hr_discovery_only fr" "hr_sessions fr' = hr_sessions fr"
    by (auto simp: nonce_exchange_handler_def Let_def split: sum.splits if_splits option.splits)
  with srv_nonce.prems show ?case by (simp add: closed_def)
qed (simp_all add: closed_def command_done_def recv_stop_def close_transfer_log_def vacuum_def gm_keep_def)

text \<open>
  A discovery-only receiver accepts nothing: after any sequence of requests it has no session
  and the file system is untouched.
\<close>

theorem discovery_only_accepts_nothing:
  assumes "served lower (fr0, fs0) (fr, fs)" "hr_discovery_only fr0" "hr_sessions fr0 = new_sess_manager"
  shows "hr_sessions fr = [] \<and> fs = fs0"
proof -
  have "served lower st st' \<Longrightarrow> closed (fst st) \<Longrightarrow> closed (fst st') \<and> snd st' = snd st" for st st'
    by (induction rule: served.induct) (simp, metis closed_step)
  from this [OF assms(1)] assms(2,3) show ?thesis by (simp add: closed_def new_sess_manager_def)
qed

theorem discovery_only_accepts_nothing_witness:
  "hr_sessions (command_done (demo_receiver\<lparr>hr_discovery_only := True, hr_cmds := 1\<rparr>)) = []"
proof -
  let ?fr = "demo_receiver\<lparr>hr_discovery_only := True, hr_cmds := 1\<rparr>"
  have "served ascii_lower (?fr, demo_fs) (command_done ?fr, demo_fs)"
    by (rule served_step [OF served_refl srv_command]) simp
  then show ?thesis
    using discovery_only_accepts_nothing
    by (fastforce simp: demo_receiver_def new_file_receiver_def)
qed

end
