(* ===== verification/Idle_Reader.thy ===== *)
theory Idle_Reader
  imports LS_Prelude
begin

text \<open>
  \<open>idleDeadlineReader\<close> of \<open>recv/handlers.go\<close>: an upload has no time limit, but its connection is
  given a read deadline that is moved on whenever bytes arrive, at most every ten seconds. A
  clock reading is an argument; the last argument of a step tells whether \<open>SetReadDeadline\<close>
  fails. The connection is \<open>None\<close> when there is none to set a deadline on.
\<close>

definition upload_idle_timeout :: duration where
  "upload_idle_timeout = 120 * second"

definition deadline_refresh_interval :: duration where
  "deadline_refresh_interval = 10 * second"

text \<open>The deadline the connection has: none, or a time.\<close>

record idle_reader =
  ir_conn :: "time option option"
  ir_last_refresh :: time
  ir_arm_err :: bool

definition refresh_deadline :: "time \<Rightarrow> bool \<Rightarrow> idle_reader \<Rightarrow> idle_reader" where
  "refresh_deadline now fails r =
     (if ir_conn r = None then r
      else if fails then r\<lparr>ir_arm_err := True\<rparr>
      else r\<lparr>ir_conn := Some (Some (now + upload_idle_timeout)), ir_last_refresh := now\<rparr>)"

definition new_idle_reader :: "bool \<Rightarrow> time \<Rightarrow> bool \<Rightarrow> idle_reader" where
  "new_idle_reader has_conn now fails =
     refresh_deadline now fails
       \<lparr>ir_conn = (if has_conn then Some None else None), ir_last_refresh = zero_time, ir_arm_err = False\<rparr>"

text \<open>
  \<open>Read\<close>: \<open>n\<close> and \<open>err\<close> are what the underlying reader returns, \<open>now\<close> the clock after it. The
  result is the byte count and whether there is an error.
\<close>

definition idle_read ::
    "nat \<Rightarrow> bool \<Rightarrow> time \<Rightarrow> bool \<Rightarrow> idle_reader \<Rightarrow> (nat \<times> bool) \<times> idle_reader" where
  "idle_read n err now fails r =
     (if ir_arm_err r then ((0, True), r)
      else if 0 < n \<and> (ir_last_refresh r = zero_time \<or>
                       deadline_refresh_interval \<le> time_sub now (ir_last_refresh r))
      then (let r' = refresh_deadline now fails r in ((n, err \<or> ir_arm_err r'), r'))
      else ((n, err), r))"

definition clear_deadline :: "idle_reader \<Rightarrow> idle_reader" where
  "clear_deadline r = (if ir_conn r = None then r else r\<lparr>ir_conn := Some None\<rparr>)"

subsection \<open>Runs\<close>

text \<open>
  A run of reads on a connection whose deadline can be set: each read gives a byte count at a
  time. A read that would end after the deadline fails instead; the run stops there.
\<close>

fun idle_run :: "(time \<times> nat) list \<Rightarrow> idle_reader \<Rightarrow> bool \<times> idle_reader" where
  "idle_run [] r = (True, r)"
| "idle_run ((t, n) # es) r =
     (case ir_conn r of
        Some (Some d) \<Rightarrow> if d < t then (False, r) else idle_run es (snd (idle_read n False t False r))
      | _ \<Rightarrow> idle_run es (snd (idle_read n False t False r)))"

text \<open>The time of the last bytes, and reads that never wait longer than 110 seconds for bytes.\<close>

fun last_progress :: "time \<Rightarrow> (time \<times> nat) list \<Rightarrow> time" where
  "last_progress t0 [] = t0"
| "last_progress t0 ((t, n) # es) = last_progress (if 0 < n then t else t0) es"

fun steady :: "time \<Rightarrow> (time \<times> nat) list \<Rightarrow> bool" where
  "steady t0 [] \<longleftrightarrow> True"
| "steady t0 ((t, n) # es) \<longleftrightarrow>
     t \<le> t0 + upload_idle_timeout - deadline_refresh_interval \<and> steady (if 0 < n then t else t0) es"

text \<open>The deadline is set, and it is the last refresh plus the idle timeout.\<close>

definition armed :: "time \<Rightarrow> idle_reader \<Rightarrow> bool" where
  "armed p r \<longleftrightarrow> \<not> ir_arm_err r \<and> ir_conn r = Some (Some (ir_last_refresh r + upload_idle_timeout)) \<and>
     ir_last_refresh r \<le> p \<and> p < ir_last_refresh r + deadline_refresh_interval"

lemma read_armed:
  assumes "armed p r" "p \<le> t"
  shows "armed (if 0 < n then t else p) (snd (idle_read n False t False r))"
proof (cases "0 < n")
  case False
  with assms(1) show ?thesis by (simp add: idle_read_def armed_def)
next
  case True
  show ?thesis
  proof (cases "ir_last_refresh r = zero_time \<or> deadline_refresh_interval \<le> time_sub t (ir_last_refresh r)")
    case refresh: True
    with True assms(1) show ?thesis
      by (simp add: idle_read_def armed_def refresh_deadline_def Let_def deadline_refresh_interval_def second_def)
  next
    case False
    then have "t < ir_last_refresh r + deadline_refresh_interval"
      by (auto simp: time_sub_def deadline_refresh_interval_def second_def max_duration_def min_duration_def
          max_def min_def split: if_splits)
    with True False assms show ?thesis by (simp add: idle_read_def armed_def)
  qed
qed

lemma run_armed:
  "armed p r \<Longrightarrow> \<forall>e\<in>set es. p \<le> fst e \<Longrightarrow> sorted (map fst es) \<Longrightarrow> idle_run es r = (True, r') \<Longrightarrow>
     armed (last_progress p es) r'"
proof (induction es arbitrary: p r)
  case Nil
  then show ?case by simp
next
  case (Cons e es)
  obtain t n where e: "e = (t, n)" by fastforce
  let ?r = "snd (idle_read n False t False r)" and ?p = "if 0 < n then t else p"
  have a: "armed ?p ?r" using Cons.prems(1,2) e by (intro read_armed) simp_all
  have "idle_run es ?r = (True, r')"
    using Cons.prems(1,4) e by (simp add: armed_def split: if_splits)
  with Cons.IH [OF a] Cons.prems(2,3) e show ?case by auto
qed


lemma run_steady:
  "armed p r \<Longrightarrow> \<forall>e\<in>set es. p \<le> fst e \<Longrightarrow> sorted (map fst es) \<Longrightarrow> steady p es \<Longrightarrow> fst (idle_run es r)"
proof (induction es arbitrary: p r)
  case Nil
  then show ?case by simp
next
  case (Cons e es)
  obtain t n where e: "e = (t, n)" by fastforce
  let ?r = "snd (idle_read n False t False r)" and ?p = "if 0 < n then t else p"
  have a: "armed ?p ?r" using Cons.prems(1,2) e by (intro read_armed) simp_all
  have "\<not> ir_last_refresh r + upload_idle_timeout < t"
    using Cons.prems(1,4) e by (simp add: armed_def)
  then have "idle_run (e # es) r = idle_run es ?r" using Cons.prems(1) e by (simp add: armed_def)
  moreover have "fst (idle_run es ?r)"
    using Cons.prems(2,3,4) e by (intro Cons.IH [OF a]) auto
  ultimately show ?case by simp
qed

lemma new_armed: "armed t0 (new_idle_reader True t0 False)"
  by (simp add: new_idle_reader_def refresh_deadline_def armed_def deadline_refresh_interval_def second_def)

subsection \<open>Properties\<close>

text \<open>
  An upload is only cut off when it stalls. An upload that never waits longer than 110
  seconds for its next bytes is never cut off, however long it takes, and at every moment the
  connection's deadline lies between 110 and 120 seconds after the last bytes, so a connection
  without progress is failed after at most two minutes.
\<close>

theorem idle_deadline_window:
  assumes "sorted (t0 # map fst es)"
  shows "(steady t0 es \<longrightarrow> fst (idle_run es (new_idle_reader True t0 False))) \<and>
    (\<forall>r'. idle_run es (new_idle_reader True t0 False) = (True, r') \<longrightarrow>
       (\<exists>d. ir_conn r' = Some (Some d) \<and> last_progress t0 es + 110 * second < d \<and>
          d \<le> last_progress t0 es + 120 * second))"
proof -
  have s: "\<forall>e\<in>set es. t0 \<le> fst e" "sorted (map fst es)" using assms by auto
  have "\<exists>d. ir_conn r' = Some (Some d) \<and> last_progress t0 es + 110 * second < d \<and>
      d \<le> last_progress t0 es + 120 * second"
    if "idle_run es (new_idle_reader True t0 False) = (True, r')" for r'
    using run_armed [OF new_armed s that]
    by (auto simp: armed_def upload_idle_timeout_def deadline_refresh_interval_def second_def)
  with run_steady [OF new_armed s] show ?thesis by blast
qed

theorem idle_deadline_window_witness:
  "fst (idle_run [(100 * second, 7), (150 * second, 0), (205 * second, 1)] (new_idle_reader True 0 False))"
  using idle_deadline_window [of 0 "[(100 * second, 7), (150 * second, 0), (205 * second, 1)]"]
  by (simp add: second_def upload_idle_timeout_def deadline_refresh_interval_def)

end
