(* ===== verification/Trusted_Store.thy ===== *)
theory Trusted_Store
  imports File_System LS_Prelude
begin

text \<open>
  \<open>internal/storage/trusted_devices.go\<close>: the paired devices, in memory and in a JSON file that
  is replaced atomically. The SHA-256 fingerprint and the JSON encoding are parameters. The
  entries a \<open>range\<close> statement visits are an argument (\<open>visits\<close>). A nil map, which decoding the
  JSON value \<open>null\<close> leaves behind, is \<^const>\<open>None\<close>; assigning to it panics.
\<close>

definition max_trusted_devices :: nat where
  "max_trusted_devices = 100"

definition max_int64 :: int where
  "max_int64 = 2 ^ 63 - 1"

record trusted_device =
  td_alias :: string
  td_public_key :: string
  td_added_at :: int

type_synonym device_map = "(string, trusted_device) gomap"

record trusted_store =
  ts_config_dir :: string
  ts_devices :: "device_map option"

text \<open>Failures of the file operations of \<open>save\<close>, beside those of \<^typ>\<open>io_env\<close>.\<close>

record store_env = io_env +
  sync_fails :: bool
  close_fails :: bool
  rename_fails :: bool

datatype store_result = StoreOk | StoreErr | StorePanic

subsection \<open>Eviction\<close>

fun oldest_entry :: "(string \<times> trusted_device) list \<Rightarrow> string \<Rightarrow> int \<Rightarrow> string" where
  "oldest_entry [] key t = key"
| "oldest_entry ((k, d) # es) key t =
     (if td_added_at d < t then oldest_entry es k (td_added_at d) else oldest_entry es key t)"

definition evict_oldest :: "(string \<times> trusted_device) list \<Rightarrow> device_map \<Rightarrow> device_map" where
  "evict_oldest vis m =
     (let key = oldest_entry vis [] max_int64 in if key \<noteq> [] then AList.delete key m else m)"

definition put_device ::
    "(string \<times> trusted_device) list \<Rightarrow> string \<Rightarrow> trusted_device \<Rightarrow> device_map \<Rightarrow> device_map" where
  "put_device vis fp d m =
     AList.update fp d
       (if map_of m fp = None \<and> max_trusted_devices \<le> length m then evict_oldest vis m else m)"

subsection \<open>The file\<close>

definition devices_file :: "string \<Rightarrow> string" where
  "devices_file dir = path_join dir ''trusted_devices.json''"

text \<open>\<open>os.Create\<close>: truncates an existing file.\<close>

definition create_file :: "io_env \<Rightarrow> string \<Rightarrow> filesys \<Rightarrow> filesys option" where
  "create_file env p fs =
     (if fs p = Some Dir \<or> fs (path_dir p) \<noteq> Some Dir \<or> open_fails env p then None
      else Some (fs(p \<mapsto> File [] None)))"

definition save_store ::
    "store_env \<Rightarrow> (device_map \<Rightarrow> bytes) \<Rightarrow> string \<Rightarrow> device_map \<Rightarrow> filesys \<Rightarrow> bool \<times> filesys" where
  "save_store env encode dir m fs =
     (case mkdir_all (io_env.truncate env) dir fs of
        (False, fs1) \<Rightarrow> (False, fs1)
      | (True, fs1) \<Rightarrow>
          let file = devices_file dir; temp = file @ ''.tmp''
          in (case create_file (io_env.truncate env) temp fs1 of
                None \<Rightarrow> (False, fs1)
              | Some fs2 \<Rightarrow>
                  let written = write_file temp (encode m) fs2
                  in if write_fails env
                     then (False, remove_file (io_env.truncate env) temp
                             (write_file temp (take (partial_write env) (encode m)) fs2))
                     else if sync_fails env \<or> close_fails env
                     then (False, remove_file (io_env.truncate env) temp written)
                     else if rename_fails env \<or> fs1 file = Some Dir then (False, written)
                     else (True, written(file := written temp, temp := None))))"

datatype json_map = JsonError | JsonNull | JsonObject device_map

definition load_store ::
    "(bytes \<Rightarrow> json_map) \<Rightarrow> (string \<Rightarrow> bool) \<Rightarrow> string \<Rightarrow> filesys \<Rightarrow> trusted_store option" where
  "load_store decode unreadable dir fs =
     (case fs (devices_file dir) of
        Some (File b t) \<Rightarrow>
          if unreadable (devices_file dir) then None
          else (case decode b of
                  JsonError \<Rightarrow> None
                | JsonNull \<Rightarrow> Some \<lparr>ts_config_dir = dir, ts_devices = None\<rparr>
                | JsonObject m \<Rightarrow> Some \<lparr>ts_config_dir = dir, ts_devices = Some m\<rparr>)
      | Some Dir \<Rightarrow> None
      | None \<Rightarrow> if stat_not_exist (devices_file dir) fs
                then Some \<lparr>ts_config_dir = dir, ts_devices = Some []\<rparr> else None)"

subsection \<open>Operations\<close>

definition store_add ::
    "store_env \<Rightarrow> (device_map \<Rightarrow> bytes) \<Rightarrow> (string \<Rightarrow> string) \<Rightarrow> (string \<times> trusted_device) list \<Rightarrow>
     trusted_device \<Rightarrow> trusted_store \<Rightarrow> filesys \<Rightarrow> store_result \<times> trusted_store \<times> filesys" where
  "store_add env encode fingerprint vis d s fs =
     (case ts_devices s of
        None \<Rightarrow> (StorePanic, s, fs)
      | Some m \<Rightarrow>
          let m' = put_device vis (fingerprint (td_public_key d)) d m
          in (case save_store env encode (ts_config_dir s) m' fs of
                (ok, fs') \<Rightarrow> (if ok then StoreOk else StoreErr, s\<lparr>ts_devices := Some m'\<rparr>, fs')))"

text \<open>Deleting from a nil map is a no-op; a nil map encodes as \<open>null\<close>.\<close>

definition store_remove ::
    "store_env \<Rightarrow> (device_map \<Rightarrow> bytes) \<Rightarrow> bytes \<Rightarrow> string \<Rightarrow> trusted_store \<Rightarrow> filesys \<Rightarrow>
     store_result \<times> trusted_store \<times> filesys" where
  "store_remove env encode null_text fp s fs =
     (case ts_devices s of
        None \<Rightarrow>
          (case save_store env (\<lambda>_. null_text) (ts_config_dir s) [] fs of
             (ok, fs') \<Rightarrow> (if ok then StoreOk else StoreErr, s, fs'))
      | Some m \<Rightarrow>
          (case save_store env encode (ts_config_dir s) (AList.delete fp m) fs of
             (ok, fs') \<Rightarrow> (if ok then StoreOk else StoreErr, s\<lparr>ts_devices := Some (AList.delete fp m)\<rparr>, fs')))"

definition device_list :: "trusted_store \<Rightarrow> device_map" where
  "device_list s = (case ts_devices s of None \<Rightarrow> [] | Some m \<Rightarrow> m)"

definition is_trusted :: "(string \<Rightarrow> string) \<Rightarrow> string \<Rightarrow> trusted_store \<Rightarrow> bool" where
  "is_trusted fingerprint key s \<longleftrightarrow> map_of (device_list s) (fingerprint key) \<noteq> None"

definition get_public_key :: "string \<Rightarrow> trusted_store \<Rightarrow> string option" where
  "get_public_key fp s = map_option td_public_key (map_of (device_list s) fp)"

definition list_devices :: "trusted_store \<Rightarrow> trusted_device list" where
  "list_devices s = map snd (device_list s)"

definition list_public_keys :: "trusted_store \<Rightarrow> (string, string) gomap" where
  "list_public_keys s = map (\<lambda>p. (fst p, td_public_key (snd p))) (device_list s)"

subsection \<open>Eviction picks an oldest device\<close>

lemma oldest_entry_low:
  "(oldest_entry vis key t = key \<and> (\<forall>p\<in>set vis. t \<le> td_added_at (snd p))) \<or>
   (\<exists>d. (oldest_entry vis key t, d) \<in> set vis \<and> td_added_at d < t \<and>
      (\<forall>p\<in>set vis. td_added_at d \<le> td_added_at (snd p)))"
proof (induction vis arbitrary: key t)
  case Nil
  then show ?case by simp
next
  case (Cons p vis)
  obtain j d where p: "p = (j, d)" by fastforce
  show ?case
  proof (cases "td_added_at d < t")
    case True
    then have e: "oldest_entry (p # vis) key t = oldest_entry vis j (td_added_at d)" by (simp add: p)
    from Cons.IH [of j "td_added_at d"] show ?thesis
    proof (elim disjE conjE exE)
      assume "oldest_entry vis j (td_added_at d) = j" "\<forall>p\<in>set vis. td_added_at d \<le> td_added_at (snd p)"
      with True show ?thesis unfolding e by (intro disjI2 exI [of _ d]) (simp add: p)
    next
      fix d'
      assume "(oldest_entry vis j (td_added_at d), d') \<in> set vis" "td_added_at d' < td_added_at d"
        "\<forall>p\<in>set vis. td_added_at d' \<le> td_added_at (snd p)"
      with True show ?thesis unfolding e by (intro disjI2 exI [of _ d']) (simp add: p)
    qed
  next
    case False
    then have e: "oldest_entry (p # vis) key t = oldest_entry vis key t" by (simp add: p)
    from Cons.IH [of key t] show ?thesis
    proof (elim disjE conjE exE)
      assume "oldest_entry vis key t = key" "\<forall>p\<in>set vis. t \<le> td_added_at (snd p)"
      with False show ?thesis unfolding e by (intro disjI1) (simp add: p)
    next
      fix d'
      assume "(oldest_entry vis key t, d') \<in> set vis" "td_added_at d' < t"
        "\<forall>p\<in>set vis. td_added_at d' \<le> td_added_at (snd p)"
      with False show ?thesis unfolding e by (intro disjI2 exI [of _ d']) (simp add: p)
    qed
  qed
qed

text \<open>What the code relies on for eviction to work at all.\<close>

definition datable :: "string \<Rightarrow> trusted_device \<Rightarrow> bool" where
  "datable k d \<longleftrightarrow> k \<noteq> [] \<and> td_added_at d < max_int64"

definition devices_ok :: "device_map \<Rightarrow> bool" where
  "devices_ok m \<longleftrightarrow> gm_wf m \<and> length m \<le> max_trusted_devices \<and> (\<forall>(k, d)\<in>set m. datable k d)"

lemma evict_oldest_spec:
  assumes "devices_ok m" "visits vis m" "m \<noteq> []"
  obtains k d where "map_of m k = Some d" "evict_oldest vis m = AList.delete k m"
    "\<forall>j e. map_of m j = Some e \<longrightarrow> td_added_at d \<le> td_added_at e"
proof -
  have s: "set vis = set m" using assms(2) by (rule visits_set)
  have wf: "gm_wf m" using assms(1) by (simp add: devices_ok_def)
  let ?k = "oldest_entry vis [] max_int64"
  have "\<not> (\<forall>p\<in>set vis. max_int64 \<le> td_added_at (snd p))"
    using assms(1,3) s by (cases m) (auto simp: devices_ok_def datable_def)
  with oldest_entry_low [of vis "[]" max_int64] obtain d where
    d: "(?k, d) \<in> set m" "\<forall>p\<in>set m. td_added_at d \<le> td_added_at (snd p)"
    using s by auto
  have "?k \<noteq> []" using d(1) assms(1) by (auto simp: devices_ok_def datable_def)
  then have "evict_oldest vis m = AList.delete ?k m" by (simp add: evict_oldest_def)
  moreover have "td_added_at d \<le> td_added_at e" if "map_of m j = Some e" for j e
    using d(2) map_of_SomeD [OF that] by fastforce
  moreover have "map_of m ?k = Some d" using d(1) by (simp only: map_of_eq_Some_iff [OF wf])
  ultimately show thesis using that by blast
qed

lemma put_device_ok:
  assumes "devices_ok m" "visits vis m" "datable fp d"
  shows "devices_ok (put_device vis fp d m)"
    and "map_of (put_device vis fp d m) fp = Some d"
    and "k \<noteq> fp \<Longrightarrow> map_of (put_device vis fp d m) k = None \<or> map_of (put_device vis fp d m) k = map_of m k"
proof -
  have vals: "\<forall>(k, v)\<in>set (AList.update fp d m'). datable k v"
    if "gm_wf m'" "\<forall>(k, v)\<in>set m'. datable k v" for m'
  proof clarify
    fix k v
    assume "(k, v) \<in> set (AList.update fp d m')"
    then have "map_of (AList.update fp d m') k = Some v"
      using that(1) by (simp add: map_of_eq_Some_iff distinct_update)
    then show "datable k v"
      using that(2) assms(3) map_of_SomeD [of m' k v] by (auto simp: update_conv' split: if_splits)
  qed
  have base: "devices_ok (AList.update fp d m)" if "map_of m fp \<noteq> None \<or> length m < max_trusted_devices"
    using assms(1) that vals [of m] by (auto simp: devices_ok_def distinct_update length_alist_update)
  consider (keep) "map_of m fp \<noteq> None \<or> length m < max_trusted_devices"
    | (evict) "map_of m fp = None" "max_trusted_devices \<le> length m" by linarith
  then have "devices_ok (put_device vis fp d m) \<and> map_of (put_device vis fp d m) fp = Some d \<and>
      (k \<noteq> fp \<longrightarrow> map_of (put_device vis fp d m) k = None \<or> map_of (put_device vis fp d m) k = map_of m k)"
  proof cases
    case keep
    then have "put_device vis fp d m = AList.update fp d m" by (auto simp: put_device_def)
    with base [OF keep] show ?thesis by (simp add: update_conv')
  next
    case evict
    then have "m \<noteq> []" by (auto simp: max_trusted_devices_def)
    then obtain j e where j: "map_of m j = Some e" "evict_oldest vis m = AList.delete j m"
      using evict_oldest_spec [OF assms(1,2)] by metis
    with evict have p: "put_device vis fp d m = AList.update fp d (AList.delete j m)"
      by (simp add: put_device_def)
    have wf: "gm_wf m" using assms(1) by (simp add: devices_ok_def)
    have "length (AList.update fp d (AList.delete j m)) \<le> max_trusted_devices"
      using gm.evict_put_within [OF wf, of j] j(1) assms(1) by (simp add: devices_ok_def)
    moreover have "\<forall>(k, v)\<in>set (AList.delete j m). datable k v"
    proof clarify
      fix k v
      assume "(k, v) \<in> set (AList.delete j m)"
      then have "map_of (AList.delete j m) k = Some v"
        using wf by (simp add: map_of_eq_Some_iff distinct_delete)
      then have "(k, v) \<in> set m" by (auto simp: delete_conv' split: if_splits dest: map_of_SomeD)
      with assms(1) show "datable k v" by (auto simp: devices_ok_def)
    qed
    ultimately have "devices_ok (put_device vis fp d m)"
      unfolding p using vals [of "AList.delete j m"] wf
      by (auto simp: devices_ok_def distinct_update distinct_delete)
    then show ?thesis by (simp add: p update_conv' delete_conv')
  qed
  then show "devices_ok (put_device vis fp d m)" "map_of (put_device vis fp d m) fp = Some d"
    "k \<noteq> fp \<Longrightarrow> map_of (put_device vis fp d m) k = None \<or> map_of (put_device vis fp d m) k = map_of m k"
    by blast+
qed

interpretation trusted: bounded_store map_of "\<lambda>k d m. put_device m k d m" length max_trusted_devices
  devices_ok datable
proof (unfold_locales, goal_cases)
  case (1 s k v)
  then show ?case by (intro put_device_ok) simp_all
next
  case (2 s)
  then show ?case by (simp add: devices_ok_def)
next
  case (3 s k v)
  then show ?case by (intro put_device_ok) simp_all
next
  case (4 s k v k')
  then show ?case by (intro put_device_ok) simp_all
qed

subsection \<open>Properties\<close>

text \<open>The maps a store that started without devices can hold, whatever order a map range takes.\<close>

inductive store_reach :: "device_map \<Rightarrow> bool" where
  store_reach_new: "store_reach []"
| store_reach_add:
    "store_reach m \<Longrightarrow> visits vis m \<Longrightarrow> datable fp d \<Longrightarrow> store_reach (put_device vis fp d m)"
| store_reach_remove: "store_reach m \<Longrightarrow> store_reach (AList.delete fp m)"

lemma devices_ok_delete:
  assumes "devices_ok m"
  shows "devices_ok (AList.delete fp m)"
proof -
  have "length (AList.delete fp m) \<le> length m" by (rule length_delete_le)
  moreover have "set (AList.delete fp m) \<subseteq> set m" by (auto simp: AList.delete_eq)
  moreover have "gm_wf (AList.delete fp m)" using assms by (simp add: devices_ok_def distinct_delete)
  ultimately show ?thesis
    using assms unfolding devices_ok_def by (meson le_trans subset_iff)
qed

lemma store_reach_ok: "store_reach m \<Longrightarrow> devices_ok m"
proof (induction rule: store_reach.induct)
  case store_reach_new
  then show ?case by (simp add: devices_ok_def)
next
  case (store_reach_add m vis fp d)
  then show ?case using put_device_ok by blast
next
  case (store_reach_remove m fp)
  then show ?case using devices_ok_delete by blast
qed

lemma save_outcome:
  "(fst (save_store env encode dir m fs) \<longrightarrow>
      snd (save_store env encode dir m fs) (devices_file dir) = Some (File (encode m) None) \<and>
      snd (save_store env encode dir m fs) (devices_file dir @ ''.tmp'') = None) \<and>
   (\<not> fst (save_store env encode dir m fs) \<longrightarrow> fs (devices_file dir) = Some (File old t) \<longrightarrow>
      snd (save_store env encode dir m fs) (devices_file dir) = Some (File old t))"
proof -
  obtain ok1 fs1 where 1: "mkdir_all (io_env.truncate env) dir fs = (ok1, fs1)" by fastforce
  let ?f = "devices_file dir" and ?t = "devices_file dir @ ''.tmp''"
  have keep: "fs ?f = Some (File old t) \<Longrightarrow> fs1 ?f = Some (File old t)"
    using mkdir_all_dirs [OF 1] by (simp add: only_dirs_file)
  have ne: "?f \<noteq> ?t" "?t \<noteq> ?f" by simp_all
  show ?thesis
  proof (cases "ok1 \<and> create_file (io_env.truncate env) ?t fs1 \<noteq> None")
    case False
    then have "save_store env encode dir m fs = (False, fs1)"
      using 1 by (cases ok1) (auto simp: save_store_def Let_def)
    with keep show ?thesis by simp
  next
    case True
    then have e: "create_file (io_env.truncate env) ?t fs1 = Some (fs1(?t \<mapsto> File [] None))"
      by (auto simp: create_file_def split: if_splits)
    from True keep show ?thesis
      unfolding save_store_def 1
      by (auto simp: e Let_def remove_file_def write_file_def ne)
  qed
qed

text \<open>
  The store never holds more than 100 devices and never two entries for one fingerprint, for
  every sequence of pairings and removals and every order the map is walked in, as long as every
  pairing time is a real one (below the largest 64-bit value).
\<close>

theorem paired_devices_bounded:
  "store_reach m \<Longrightarrow> length m \<le> max_trusted_devices \<and> distinct (map fst m)"
  using store_reach_ok by (simp add: devices_ok_def)

theorem paired_devices_bounded_witness:
  "length (put_device [] ''f'' \<lparr>td_alias = ''x'', td_public_key = ''k'', td_added_at = 7\<rparr> []) \<le> 100"
  using paired_devices_bounded [OF store_reach_add [OF store_reach_new]]
  by (simp add: datable_def max_int64_def max_trusted_devices_def)

text \<open>
  A full store makes room by forgetting a device with the smallest pairing time: pairing a
  new device with a store of 100 devices removes exactly one device, no other device was paired
  earlier, all others stay, and the new one is trusted.
\<close>

theorem pairing_evicts_an_oldest:
  assumes "devices_ok m" "visits vis m" "length m = max_trusted_devices" "map_of m fp = None"
  shows "\<exists>k e. map_of m k = Some e \<and> (\<forall>j e'. map_of m j = Some e' \<longrightarrow> td_added_at e \<le> td_added_at e') \<and>
    map_of (put_device vis fp d m) = (map_of m)(k := None, fp := Some d) \<and>
    length (put_device vis fp d m) = max_trusted_devices"
proof -
  have "m \<noteq> []" using assms(3) by (auto simp: max_trusted_devices_def)
  then obtain k e where k: "map_of m k = Some e" "evict_oldest vis m = AList.delete k m"
    "\<forall>j e'. map_of m j = Some e' \<longrightarrow> td_added_at e \<le> td_added_at e'"
    using evict_oldest_spec [OF assms(1,2)] by metis
  have p: "put_device vis fp d m = AList.update fp d (AList.delete k m)"
    using assms(3,4) k(2) by (simp add: put_device_def)
  have wf: "gm_wf m" using assms(1) by (simp add: devices_ok_def)
  have "length (put_device vis fp d m) = max_trusted_devices"
    unfolding p using wf k(1) assms(3,4)
    by (simp add: length_alist_update length_alist_delete delete_conv')
       (simp add: max_trusted_devices_def)
  with k(1,3) show ?thesis
    unfolding p by (intro exI [of _ k] exI [of _ e]) (simp add: update_conv' delete_conv' fun_eq_iff)
qed

definition demo_device :: "int \<Rightarrow> trusted_device" where
  "demo_device n = \<lparr>td_alias = ''x'', td_public_key = ''k'', td_added_at = n\<rparr>"

definition demo_full :: device_map where
  "demo_full = map (\<lambda>i. (replicate (Suc i) (CHR ''a''), demo_device 7)) [0..<100]"

theorem pairing_evicts_an_oldest_witness:
  "\<exists>k e. map_of demo_full k = Some e \<and>
    (\<forall>j e'. map_of demo_full j = Some e' \<longrightarrow> td_added_at e \<le> td_added_at e') \<and>
    map_of (put_device (rev demo_full) ''b'' (demo_device 9) demo_full) =
      (map_of demo_full)(k := None, ''b'' := Some (demo_device 9)) \<and>
    length (put_device (rev demo_full) ''b'' (demo_device 9) demo_full) = max_trusted_devices"
proof (rule pairing_evicts_an_oldest)
  show "devices_ok demo_full"
    by (auto simp: devices_ok_def demo_full_def max_trusted_devices_def datable_def demo_device_def
        max_int64_def distinct_map inj_on_def comp_def)
  show "map_of demo_full ''b'' = None"
    by (auto simp: demo_full_def map_of_eq_None_iff)
qed (simp_all add: visits_def demo_full_def max_trusted_devices_def)

definition demo_store_env :: store_env where
  "demo_store_env = \<lparr>open_fails = \<lambda>_. False, mkdir_fails = \<lambda>_. False, write_fails = False,
     partial_write = 0, flush_fails = False, remove_fails = False, chtimes_fails = False,
     sync_fails = False, close_fails = False, rename_fails = False\<rparr>"

definition demo_devices :: device_map where
  "demo_devices = [(''k'', demo_device 7)]"

definition demo_encode :: "device_map \<Rightarrow> bytes" where
  "demo_encode m = (if m = demo_devices then ''one'' else ''other'')"

definition demo_decode :: "bytes \<Rightarrow> json_map" where
  "demo_decode b = (if b = ''one'' then JsonObject demo_devices else JsonError)"

definition demo_disk :: filesys where
  "demo_disk = [''/'' \<mapsto> Dir, ''/c'' \<mapsto> Dir, ''/c/trusted_devices.json'' \<mapsto> File ''old'' None]"

text \<open>
  C27: Saving is atomic: whatever fails on the way (the directory, the temporary file, the write,
  the sync, the close or the rename), a failed save leaves the device file that was there, with
  its old content, and a successful one leaves the complete new content and no temporary file.
\<close>

theorem save_is_atomic:
  "(fst (save_store env encode dir m fs) \<longrightarrow>
      snd (save_store env encode dir m fs) (devices_file dir) = Some (File (encode m) None) \<and>
      snd (save_store env encode dir m fs) (devices_file dir @ ''.tmp'') = None) \<and>
   (\<not> fst (save_store env encode dir m fs) \<longrightarrow> fs (devices_file dir) = Some (File old t) \<longrightarrow>
      snd (save_store env encode dir m fs) (devices_file dir) = Some (File old t))"
  by (rule save_outcome)

theorem save_is_atomic_witness:
  "snd (save_store (demo_store_env\<lparr>rename_fails := True\<rparr>) demo_encode ''/c'' demo_devices demo_disk)
     (devices_file ''/c'') = Some (File ''old'' None)"
proof -
  have "\<not> fst (save_store (demo_store_env\<lparr>rename_fails := True\<rparr>) demo_encode ''/c'' demo_devices demo_disk)"
    "demo_disk (devices_file ''/c'') = Some (File ''old'' None)"
    by code_simp+
  with save_is_atomic [of "demo_store_env\<lparr>rename_fails := True\<rparr>" demo_encode "''/c''" demo_devices demo_disk
      "''old''" None]
  show ?thesis by simp
qed

text \<open>
  A pairing survives a restart: if a device is added and the save reports success, the store
  read back from the disk trusts exactly the keys the one in memory trusts, the new device's
  among them, provided decoding the text gives a map with the entries that were encoded.
\<close>

theorem pairing_survives_restart:
  assumes "store_add env encode fingerprint vis d s fs = (StoreOk, s', fs')"
    and "decode (encode (device_list s')) = JsonObject m'" "map_of m' = map_of (device_list s')"
    and "\<not> unreadable (devices_file (ts_config_dir s))"
  shows "\<exists>s2. load_store decode unreadable (ts_config_dir s) fs' = Some s2 \<and>
    is_trusted fingerprint (td_public_key d) s2 \<and>
    (\<forall>key. is_trusted fingerprint key s2 = is_trusted fingerprint key s')"
proof -
  obtain m where m: "ts_devices s = Some m"
    using assms(1) by (cases "ts_devices s") (simp_all add: store_add_def)
  let ?m = "put_device vis (fingerprint (td_public_key d)) d m"
  have r: "fst (save_store env encode (ts_config_dir s) ?m fs)"
    "snd (save_store env encode (ts_config_dir s) ?m fs) = fs'" "s' = s\<lparr>ts_devices := Some ?m\<rparr>"
    using assms(1) m by (auto simp: store_add_def Let_def split: prod.splits if_splits)
  have l: "device_list s' = ?m" using r(3) by (simp add: device_list_def)
  have "fs' (devices_file (ts_config_dir s)) = Some (File (encode ?m) None)"
    using save_outcome [of env encode "ts_config_dir s" ?m fs] r(1,2) by simp
  then have "load_store decode unreadable (ts_config_dir s) fs' =
      Some \<lparr>ts_config_dir = ts_config_dir s, ts_devices = Some m'\<rparr>"
    using assms(2,4) l by (simp add: load_store_def)
  moreover have "map_of ?m (fingerprint (td_public_key d)) = Some d"
    by (simp add: put_device_def update_conv')
  ultimately show ?thesis
    using assms(3) l by (simp add: is_trusted_def device_list_def)
qed

theorem pairing_survives_restart_witness:
  "\<exists>s2. load_store demo_decode (\<lambda>_. False) ''/c''
      (snd (snd (store_add demo_store_env demo_encode (\<lambda>k. k) [] (demo_device 7)
         \<lparr>ts_config_dir = ''/c'', ts_devices = Some []\<rparr> (Map.empty(''/'' \<mapsto> Dir))))) = Some s2 \<and>
    is_trusted (\<lambda>k. k) ''k'' s2"
proof -
  let ?s = "\<lparr>ts_config_dir = ''/c'', ts_devices = Some []\<rparr> :: trusted_store"
  obtain r s' fs' where a: "store_add demo_store_env demo_encode (\<lambda>k. k) [] (demo_device 7) ?s
      (Map.empty(''/'' \<mapsto> Dir)) = (r, s', fs')"
    using prod_cases3 by blast
  have "fst (store_add demo_store_env demo_encode (\<lambda>k. k) [] (demo_device 7) ?s (Map.empty(''/'' \<mapsto> Dir))) = StoreOk"
    "ts_devices (fst (snd (store_add demo_store_env demo_encode (\<lambda>k. k) [] (demo_device 7) ?s
       (Map.empty(''/'' \<mapsto> Dir))))) = Some demo_devices"
    by code_simp+
  with a have r: "r = StoreOk" "device_list s' = demo_devices" by (simp_all add: device_list_def)
  show ?thesis
    using pairing_survives_restart [OF a [unfolded r(1)], of demo_decode demo_devices "\<lambda>_. False"] a r(2)
    by (auto simp: demo_decode_def demo_encode_def demo_device_def)
qed

end
