(* ===== verification/Json.thy ===== *)
theory Json
  imports Go_Strings LS_Prelude
begin

text \<open>
  What the program uses of \<open>encoding/json\<close> once the text is parsed: decoding a value into the
  fields of a struct. Keys match a field up to case folding (Go also folds the long s and the
  Kelvin sign), \<open>null\<close> leaves a field alone, a later key overrides an earlier one, and a value of
  the wrong type is an error that does not stop the other fields. Parsing the text into a value
  is a parameter of the model.
\<close>

datatype json =
    JNull
  | JBool bool
  | JInt int
  | JFloat string
  | JText string
  | JList "json list"
  | JObj "(string \<times> json) list"

type_synonym json_fields = "(string \<times> json) list"

fun fold_key :: "string \<Rightarrow> string" where
  "fold_key [] = []"
| "fold_key [c] = ascii_lower [c]"
| "fold_key [c, d] =
     (if c = CHR 0xC5 \<and> d = CHR 0xBF then [CHR ''s''] else ascii_lower [c] @ fold_key [d])"
| "fold_key (c # d # e # cs) =
     (if c = CHR 0xC5 \<and> d = CHR 0xBF then CHR ''s'' # fold_key (e # cs)
      else if c = CHR 0xE2 \<and> d = CHR 0x84 \<and> e = CHR 0xAA then CHR ''k'' # fold_key cs
      else ascii_lower [c] @ fold_key (d # e # cs))"

definition key_is :: "string \<Rightarrow> string \<Rightarrow> bool" where
  "key_is name k \<longleftrightarrow> k = name \<or> fold_key k = fold_key name"

text \<open>The entries of a value decoded into a struct; \<open>null\<close> changes nothing.\<close>

fun struct_fields :: "json \<Rightarrow> json_fields option" where
  "struct_fields (JObj fs) = Some fs"
| "struct_fields JNull = Some []"
| "struct_fields _ = None"

text \<open>A field: whether all its values had the right type, and what it holds in the end.\<close>

fun text_field :: "string \<Rightarrow> json_fields \<Rightarrow> string \<Rightarrow> bool \<times> string" where
  "text_field name [] v = (True, v)"
| "text_field name ((k, j) # fs) v =
     (if key_is name k then
        (case j of
           JText s \<Rightarrow> text_field name fs s
         | JNull \<Rightarrow> text_field name fs v
         | _ \<Rightarrow> (False, snd (text_field name fs v)))
      else text_field name fs v)"

fun int_field :: "string \<Rightarrow> json_fields \<Rightarrow> int \<Rightarrow> bool \<times> int" where
  "int_field name [] v = (True, v)"
| "int_field name ((k, j) # fs) v =
     (if key_is name k then
        (case j of
           JInt n \<Rightarrow> if int64_range n then int_field name fs n else (False, snd (int_field name fs v))
         | JNull \<Rightarrow> int_field name fs v
         | _ \<Rightarrow> (False, snd (int_field name fs v)))
      else int_field name fs v)"

fun bool_field :: "string \<Rightarrow> json_fields \<Rightarrow> bool \<Rightarrow> bool \<times> bool" where
  "bool_field name [] v = (True, v)"
| "bool_field name ((k, j) # fs) v =
     (if key_is name k then
        (case j of
           JBool b \<Rightarrow> bool_field name fs b
         | JNull \<Rightarrow> bool_field name fs v
         | _ \<Rightarrow> (False, snd (bool_field name fs v)))
      else bool_field name fs v)"

text \<open>A \<open>*string\<close>: \<open>null\<close> makes it nil.\<close>

fun text_ptr_field :: "string \<Rightarrow> json_fields \<Rightarrow> string option \<Rightarrow> bool \<times> string option" where
  "text_ptr_field name [] v = (True, v)"
| "text_ptr_field name ((k, j) # fs) v =
     (if key_is name k then
        (case j of
           JText s \<Rightarrow> text_ptr_field name fs (Some s)
         | JNull \<Rightarrow> text_ptr_field name fs None
         | _ \<Rightarrow> (False, snd (text_ptr_field name fs v)))
      else text_ptr_field name fs v)"

text \<open>The entry of a \<open>map[string]interface{}\<close>: keys are exact, the last one wins.\<close>

fun any_entry :: "string \<Rightarrow> json_fields \<Rightarrow> json option" where
  "any_entry name [] = None"
| "any_entry name ((k, j) # fs) =
     (case any_entry name fs of Some j' \<Rightarrow> Some j' | None \<Rightarrow> if k = name then Some j else None)"

lemma any_entry_map: "any_entry name fs = map_of (rev fs) name"
  by (induction fs) (auto simp: map_add_def split: option.split)

lemma int_field_range: "int64_range v \<Longrightarrow> int64_range (snd (int_field name fs v))"
  by (induction name fs v rule: int_field.induct) (auto split: json.splits)

end
