(* ===== verification/RTC_Protocol.thy ===== *)
theory RTC_Protocol
  imports Json Models
begin

text \<open>
  \<open>internal/webrtc/transfer/rtc_protocol.go\<close> and \<open>status.go\<close>: the messages on the data channel
  and \<open>ParseRTCMessage\<close>, which has no tag to go by and recognises a message by its fields.
\<close>

definition status_ok :: string where "status_ok = ''OK''"
definition status_pin_required :: string where "status_pin_required = ''PIN_REQUIRED''"
definition status_too_many_attempts :: string where "status_too_many_attempts = ''TOO_MANY_ATTEMPTS''"
definition status_invalid_signature :: string where "status_invalid_signature = ''INVALID_SIGNATURE''"
definition status_declined :: string where "status_declined = ''DECLINED''"
definition status_pair :: string where "status_pair = ''PAIR''"
definition status_pair_declined :: string where "status_pair_declined = ''PAIR_DECLINED''"

lemmas status_defs = status_ok_def status_pin_required_def status_too_many_attempts_def
  status_invalid_signature_def status_declined_def status_pair_def status_pair_declined_def

subsection \<open>Messages\<close>

record rtc_file =
  rf_id :: string
  rf_name :: string
  rf_size :: int
  rf_type :: string
  rf_sha :: string
  rf_preview :: string
  rf_modified :: string
  rf_accessed :: string

record rtc_pair_response =
  pp_status :: string
  pp_public_key :: string

record rtc_send_file_response =
  sr_id :: string
  sr_success :: bool
  sr_error :: "string option"

datatype rtc_msg =
    MNonce string
  | MHeader string string
  | MFileList string "rtc_file list"
  | MPairResponse rtc_pair_response
  | MStatus string json_fields
  | MTokenRequest string
  | MPin string
  | MFileResponse rtc_send_file_response

text \<open>The second result of \<open>ParseRTCMessage\<close>.\<close>

fun msg_type :: "rtc_msg \<Rightarrow> string" where
  "msg_type (MNonce n) = ''nonce''"
| "msg_type (MHeader i t) = ''file_header''"
| "msg_type (MFileList st fs) = ''file_list''"
| "msg_type (MPairResponse r) = ''pair_response''"
| "msg_type (MStatus st fs) = ''status_'' @ st"
| "msg_type (MTokenRequest t) = ''token_request''"
| "msg_type (MPin p) = ''pin''"
| "msg_type (MFileResponse r) = ''file_response''"

subsection \<open>Decoding the structs\<close>

definition ok_value :: "bool \<times> 'a \<Rightarrow> 'a option" where
  "ok_value r = (if fst r then Some (snd r) else None)"

definition decode_nonce_msg :: "json \<Rightarrow> string option" where
  "decode_nonce_msg j =
     (case struct_fields j of None \<Rightarrow> None | Some fs \<Rightarrow> ok_value (text_field ''nonce'' fs []))"

definition decode_token_request :: "json \<Rightarrow> string option" where
  "decode_token_request j =
     (case struct_fields j of None \<Rightarrow> None | Some fs \<Rightarrow> ok_value (text_field ''token'' fs []))"

definition decode_header :: "json \<Rightarrow> (string \<times> string) option" where
  "decode_header j =
     (case struct_fields j of
        None \<Rightarrow> None
      | Some fs \<Rightarrow>
          (case (text_field ''id'' fs [], text_field ''token'' fs []) of
             ((ok1, i), (ok2, t)) \<Rightarrow> if ok1 \<and> ok2 then Some (i, t) else None))"

fun metadata_field :: "json_fields \<Rightarrow> string \<times> string \<Rightarrow> bool \<times> string \<times> string" where
  "metadata_field [] v = (True, v)"
| "metadata_field ((k, j) # fs) v =
     (if key_is ''metadata'' k then
        (case struct_fields j of
           None \<Rightarrow> (False, snd (metadata_field fs v))
         | Some ms \<Rightarrow>
             (case (text_field ''modified'' ms (fst v), text_field ''accessed'' ms (snd v)) of
                ((ok1, m), (ok2, a)) \<Rightarrow>
                  (case metadata_field fs (m, a) of (ok3, v') \<Rightarrow> (ok1 \<and> ok2 \<and> ok3, v'))))
      else metadata_field fs v)"

definition decode_file_dto :: "json \<Rightarrow> bool \<times> rtc_file" where
  "decode_file_dto j =
     (let fs = (case struct_fields j of None \<Rightarrow> [] | Some fs \<Rightarrow> fs);
          i = text_field ''id'' fs []; n = text_field ''fileName'' fs []; s = int_field ''size'' fs 0;
          t = text_field ''fileType'' fs []; h = text_field ''sha256'' fs [];
          p = text_field ''preview'' fs []; m = metadata_field fs ([], [])
      in (struct_fields j \<noteq> None \<and> fst i \<and> fst n \<and> fst s \<and> fst t \<and> fst h \<and> fst p \<and> fst m,
          \<lparr>rf_id = snd i, rf_name = snd n, rf_size = snd s, rf_type = snd t, rf_sha = snd h,
           rf_preview = snd p, rf_modified = fst (snd m), rf_accessed = snd (snd m)\<rparr>))"

fun files_field :: "json_fields \<Rightarrow> rtc_file list \<Rightarrow> bool \<times> rtc_file list" where
  "files_field [] v = (True, v)"
| "files_field ((k, j) # fs) v =
     (if key_is ''files'' k then
        (case j of
           JList js \<Rightarrow>
             (case files_field fs (map (\<lambda>x. snd (decode_file_dto x)) js) of
                (ok, v') \<Rightarrow> (ok \<and> list_all (\<lambda>x. fst (decode_file_dto x)) js, v'))
         | JNull \<Rightarrow> files_field fs []
         | _ \<Rightarrow> (False, snd (files_field fs v)))
      else files_field fs v)"

text \<open>\<open>RTCPinSendingResponse\<close>: the status and the file list of the sender.\<close>

definition decode_file_list :: "json \<Rightarrow> (string \<times> rtc_file list) option" where
  "decode_file_list j =
     (case struct_fields j of
        None \<Rightarrow> None
      | Some fs \<Rightarrow>
          (case (text_field ''status'' fs [], files_field fs []) of
             ((ok1, st), (ok2, l)) \<Rightarrow> if ok1 \<and> ok2 then Some (st, l) else None))"

definition decode_pair_response :: "json \<Rightarrow> rtc_pair_response option" where
  "decode_pair_response j =
     (case struct_fields j of
        None \<Rightarrow> None
      | Some fs \<Rightarrow>
          (case (text_field ''status'' fs [], text_field ''publicKey'' fs []) of
             ((ok1, st), (ok2, k)) \<Rightarrow>
               if ok1 \<and> ok2 then Some \<lparr>pp_status = st, pp_public_key = k\<rparr> else None))"

definition decode_file_response :: "json \<Rightarrow> rtc_send_file_response option" where
  "decode_file_response j =
     (case struct_fields j of
        None \<Rightarrow> None
      | Some fs \<Rightarrow>
          (case (text_field ''id'' fs [], bool_field ''success'' fs False, text_ptr_field ''error'' fs None) of
             ((ok1, i), (ok2, s), (ok3, e)) \<Rightarrow>
               if ok1 \<and> ok2 \<and> ok3 then Some \<lparr>sr_id = i, sr_success = s, sr_error = e\<rparr> else None))"

text \<open>\<open>map[string]interface{}\<close>: nil when the value is \<open>null\<close> or no object.\<close>

fun generic_map :: "json \<Rightarrow> json_fields" where
  "generic_map (JObj fs) = fs"
| "generic_map _ = []"

definition status_of :: "json_fields \<Rightarrow> string option" where
  "status_of g = (case any_entry ''status'' g of Some (JText s) \<Rightarrow> Some s | _ \<Rightarrow> None)"

subsection \<open>\<open>ParseRTCMessage\<close>\<close>

text \<open>The part for messages with a status.\<close>

definition parse_status :: "json \<Rightarrow> string \<Rightarrow> rtc_msg" where
  "parse_status j status =
     (let g = generic_map j;
          as_list = (if any_entry ''files'' g \<noteq> None then decode_file_list j else None);
          as_pair = (if any_entry ''publicKey'' g \<noteq> None \<and> status \<noteq> status_pair \<and> any_entry ''files'' g = None
                     then decode_pair_response j else None)
      in case as_list of
           Some (st, l) \<Rightarrow> MFileList st l
         | None \<Rightarrow> (case as_pair of Some r \<Rightarrow> MPairResponse r | None \<Rightarrow> MStatus status g))"

definition nonempty :: "string option \<Rightarrow> bool" where
  "nonempty v \<longleftrightarrow> v \<noteq> None \<and> v \<noteq> Some []"

definition parse_rtc_value :: "json \<Rightarrow> rtc_msg option" where
  "parse_rtc_value j =
     (if nonempty (decode_nonce_msg j) then Some (MNonce (the (decode_nonce_msg j)))
      else if nonempty (map_option fst (decode_header j)) \<and> nonempty (map_option snd (decode_header j))
      then Some (MHeader (fst (the (decode_header j))) (snd (the (decode_header j))))
      else
        (case status_of (generic_map j) of
           Some status \<Rightarrow> Some (parse_status j status)
         | None \<Rightarrow>
             if nonempty (decode_token_request j) then Some (MTokenRequest (the (decode_token_request j)))
             else
               (case any_entry ''pin'' (generic_map j) of
                  Some (JText p) \<Rightarrow> Some (MPin p)
                | _ \<Rightarrow>
                    (case decode_file_response j of
                       Some r \<Rightarrow> if sr_id r \<noteq> [] then Some (MFileResponse r) else None
                     | None \<Rightarrow> None))))"

text \<open>\<open>parse\<close> is the JSON parser; text that does not parse is no message.\<close>

definition parse_rtc_message :: "(bytes \<Rightarrow> json option) \<Rightarrow> bytes \<Rightarrow> rtc_msg option" where
  "parse_rtc_message parse b = (case parse b of None \<Rightarrow> None | Some j \<Rightarrow> parse_rtc_value j)"

text \<open>The fields that make up each message on the wire (\<open>omitempty\<close> leaves empty ones out).\<close>

definition opt_text :: "string \<Rightarrow> string \<Rightarrow> json_fields" where
  "opt_text name v = (if v = [] then [] else [(name, JText v)])"

definition encode_nonce_msg :: "string \<Rightarrow> json" where
  "encode_nonce_msg n = JObj [(''nonce'', JText n)]"

definition encode_token_request :: "string \<Rightarrow> json" where
  "encode_token_request t = JObj [(''token'', JText t)]"

definition encode_pin :: "string \<Rightarrow> json" where
  "encode_pin p = JObj [(''pin'', JText p)]"

definition encode_header :: "string \<Rightarrow> string \<Rightarrow> json" where
  "encode_header i t = JObj [(''id'', JText i), (''token'', JText t)]"

definition encode_token_response :: "string \<Rightarrow> string \<Rightarrow> json" where
  "encode_token_response st t = JObj ((''status'', JText st) # opt_text ''token'' t)"

definition encode_pair_response :: "string \<Rightarrow> string \<Rightarrow> json" where
  "encode_pair_response st k = JObj ((''status'', JText st) # opt_text ''publicKey'' k)"

definition encode_file_response :: "rtc_send_file_response \<Rightarrow> json" where
  "encode_file_response r =
     JObj ([(''id'', JText (sr_id r)), (''success'', JBool (sr_success r))] @
           (case sr_error r of None \<Rightarrow> [] | Some e \<Rightarrow> [(''error'', JText e)]))"

definition encode_file_dto :: "rtc_file \<Rightarrow> json" where
  "encode_file_dto f =
     JObj ([(''id'', JText (rf_id f)), (''fileName'', JText (rf_name f)), (''size'', JInt (rf_size f)),
            (''fileType'', JText (rf_type f))] @ opt_text ''sha256'' (rf_sha f) @
           opt_text ''preview'' (rf_preview f) @
           [(''metadata'', JObj (opt_text ''modified'' (rf_modified f) @ opt_text ''accessed'' (rf_accessed f)))])"

definition encode_file_list :: "string \<Rightarrow> rtc_file list \<Rightarrow> json" where
  "encode_file_list st l =
     JObj ((''status'', JText st) # (if l = [] then [] else [(''files'', JList (map encode_file_dto l))]))"


subsection \<open>Recognising what the program sends\<close>

fun encode_msg :: "rtc_msg \<Rightarrow> json" where
  "encode_msg (MNonce n) = encode_nonce_msg n"
| "encode_msg (MHeader i t) = encode_header i t"
| "encode_msg (MFileList st l) = encode_file_list st l"
| "encode_msg (MPairResponse r) = encode_pair_response (pp_status r) (pp_public_key r)"
| "encode_msg (MStatus st g) = JObj g"
| "encode_msg (MTokenRequest t) = encode_token_request t"
| "encode_msg (MPin p) = encode_pin p"
| "encode_msg (MFileResponse r) = encode_file_response r"

text \<open>Keys that are told apart: the field names in use, all matched by themselves only.\<close>

lemma folded_keys:
  "fold_key ''nonce'' = ''nonce''"
  "fold_key ''id'' = ''id''"
  "fold_key ''token'' = ''token''"
  "fold_key ''status'' = ''status''"
  "fold_key ''files'' = ''files''"
  "fold_key ''publicKey'' = ''publickey''"
  "fold_key ''pin'' = ''pin''"
  "fold_key ''success'' = ''success''"
  "fold_key ''error'' = ''error''"
  "fold_key ''fileName'' = ''filename''"
  "fold_key ''size'' = ''size''"
  "fold_key ''fileType'' = ''filetype''"
  "fold_key ''sha256'' = ''sha256''"
  "fold_key ''preview'' = ''preview''"
  "fold_key ''metadata'' = ''metadata''"
  "fold_key ''modified'' = ''modified''"
  "fold_key ''accessed'' = ''accessed''"
  by code_simp+

lemma key_facts:
  "list_all (\<lambda>a. list_all (\<lambda>b. key_is a b = (a = b))
     [''nonce'', ''id'', ''token'', ''status'', ''files'', ''publicKey'', ''pin'', ''success'', ''error'',
      ''fileName'', ''size'', ''fileType'', ''sha256'', ''preview'', ''metadata'', ''modified'', ''accessed''])
     [''nonce'', ''id'', ''token'', ''status'', ''files'', ''publicKey'', ''pin'', ''success'', ''error'',
      ''fileName'', ''size'', ''fileType'', ''sha256'', ''preview'', ''metadata'', ''modified'', ''accessed'']"
  by (simp add: key_is_def folded_keys del: fold_key.simps)

lemmas key_simps [simp] = key_facts [simplified]


lemmas wire_defs = encode_nonce_msg_def encode_token_request_def encode_pin_def encode_header_def
  encode_pair_response_def encode_file_response_def encode_file_list_def opt_text_def
  parse_rtc_value_def decode_nonce_msg_def decode_header_def decode_token_request_def
  decode_file_response_def decode_pair_response_def ok_value_def nonempty_def status_of_def

lemma decode_encode_file:
  "int64_range (rf_size f) \<Longrightarrow> decode_file_dto (encode_file_dto f) = (True, f)"
  by (cases f) (simp add: decode_file_dto_def encode_file_dto_def opt_text_def Let_def)

lemma decode_encode_files:
  "\<forall>f\<in>set l. int64_range (rf_size f) \<Longrightarrow>
     map (\<lambda>x. snd (decode_file_dto (encode_file_dto x))) l = l \<and> list_all (\<lambda>x. fst (decode_file_dto (encode_file_dto x))) l"
  by (induction l) (simp_all add: decode_encode_file)

text \<open>The messages the two peers exchange.\<close>

definition is_status_msg :: "string \<Rightarrow> json_fields \<Rightarrow> bool" where
  "is_status_msg st g \<longleftrightarrow>
     g = [(''status'', JText st)] \<or>
     (length g = 2 \<and> g ! 0 = (''status'', JText st) \<and> fst (g ! 1) = ''token'') \<or>
     (length g = 2 \<and> g ! 0 = (''status'', JText st) \<and> fst (g ! 1) = ''publicKey'' \<and> st = status_pair)"

fun sendable :: "rtc_msg \<Rightarrow> bool" where
  "sendable (MNonce n) \<longleftrightarrow> n \<noteq> []"
| "sendable (MHeader i t) \<longleftrightarrow> i \<noteq> [] \<and> t \<noteq> []"
| "sendable (MFileList st l) \<longleftrightarrow> l \<noteq> [] \<and> (\<forall>f\<in>set l. int64_range (rf_size f))"
| "sendable (MPairResponse r) \<longleftrightarrow> pp_status r \<noteq> status_pair \<and> pp_public_key r \<noteq> []"
| "sendable (MStatus st g) \<longleftrightarrow> is_status_msg st g"
| "sendable (MTokenRequest t) \<longleftrightarrow> t \<noteq> []"
| "sendable (MPin p) \<longleftrightarrow> True"
| "sendable (MFileResponse r) \<longleftrightarrow> sr_id r \<noteq> []"

text \<open>
  The untagged messages are told apart: every message a peer sends (a nonce, a token request,
  a PIN, also an empty one, a file list, a PAIR request or response, a status, a file header or a
  file response) is recognised by \<open>ParseRTCMessage\<close> as what it is, with all its fields.
\<close>

theorem sent_messages_are_recognised:
  assumes "sendable m"
  shows "parse_rtc_value (encode_msg m) = Some m"
proof (cases m)
  case (MStatus st g)
  with assms consider "g = [(''status'', JText st)]" | j where "g = [(''status'', JText st), (''token'', j)]"
    | j where "g = [(''status'', JText st), (''publicKey'', j)]" "st = status_pair"
    by (cases g; cases "tl g") (auto simp: is_status_msg_def)
  then show ?thesis
    using MStatus by cases (simp_all add: wire_defs parse_status_def Let_def split: json.split)
next
  case (MFileList st l)
  with assms have "l \<noteq> []" "\<forall>f\<in>set l. int64_range (rf_size f)" by simp_all
  with MFileList decode_encode_files [of l] show ?thesis
    by (simp add: wire_defs parse_status_def decode_file_list_def Let_def comp_def list.pred_map)
next
  case (MFileResponse r)
  with assms show ?thesis by (cases r; cases "sr_error r") (simp_all add: wire_defs)
qed (use assms in \<open>simp_all add: wire_defs parse_status_def Let_def\<close>)

theorem sent_messages_are_recognised_witness:
  "parse_rtc_value (encode_pin []) = Some (MPin []) \<and>
   parse_rtc_value (encode_pair_response status_pair ''k'') = Some (MStatus status_pair [(''status'', JText status_pair), (''publicKey'', JText ''k'')])"
  using sent_messages_are_recognised [of "MPin []"]
    sent_messages_are_recognised [of "MStatus status_pair [(''status'', JText status_pair), (''publicKey'', JText ''k'')]"]
  by (simp add: is_status_msg_def encode_pair_response_def opt_text_def)

end
