(* ===== verification/RTC_Receiver.thy ===== *)
theory RTC_Receiver
  imports RTC_Protocol Unique_Files Token Trusted_Store LS_Errors Recv_Session
begin

text \<open>
  \<open>internal/webrtc/transfer/receiver.go\<close>: receiving over a WebRTC data channel. The handlers run
  under the receiver's mutex and are functions on the state \<open>rtc_receiver\<close>; the one that releases it to ask the user,
  \<open>handleFileList\<close>, is in two parts in \<open>RTC_Handlers\<close>. What they send is
  appended to \<open>rr_sent\<close>, the callbacks they make are counted. The record \<open>rtc_env\<close> holds what a
  step draws from outside: the clock, random values, the answers of the user, the failures of the
  operating system and of the channel, and the cryptographic and JSON libraries. A step that
  panics in Go is \<^const>\<open>None\<close>. Peer connections are numbers.
\<close>

subsection \<open>State\<close>

datatype rtc_state =
    WaitNonce
  | WaitToken
  | WaitPin
  | WaitFileList
  | WaitPairResponse
  | WaitFiles
  | ReceivingFiles
  | RtcDone

definition max_control_message_bytes :: nat where
  "max_control_message_bytes = 2 * 1024 * 1024"

definition receive_file_idle_timeout :: duration where
  "receive_file_idle_timeout = 120 * second"

datatype rtc_out =
    OutNonce string
  | OutTokenResponse string string
  | OutPinResponse string
  | OutPin string
  | OutFileList string "(string, string) gomap" string
  | OutFileResponse rtc_send_file_response
  | OutError string
  | OutDelimiter

text \<open>What has been written to an open file, and the sticky error of its buffered writer.\<close>

type_synonym file_buffer = "bytes \<times> bool"

record rtc_receiver =
  rr_accepting :: bool
  rr_peer :: "nat option"
  rr_pin :: string
  rr_pin_attempts :: int
  rr_provided_pins :: nat
  rr_save_dir :: string
  rr_routes :: "(string, string) gomap option"
  rr_remapper :: "folder_remapper option"
  rr_state :: rtc_state
  rr_remote_nonce :: bytes
  rr_local_nonce :: bytes
  rr_final_nonce :: bytes
  rr_sender_key :: "verifying_key option"
  rr_require_pairing :: bool
  rr_files :: "rtc_file list"
  rr_file_by_id :: "(string, rtc_file) gomap"
  rr_tokens :: "(string, string) gomap"
  rr_accepted :: "string list"
  rr_folder_known :: bool
  rr_folder :: bool
  rr_current :: string
  rr_buffers :: "(string, file_buffer) gomap"
  rr_paths :: "(string, string) gomap"
  rr_hashers :: "(string, bytes) gomap"
  rr_bytes :: int
  rr_control :: bytes
  rr_ensured :: "string list"
  rr_unique :: allocator
  rr_active :: bool
  rr_generation :: nat
  rr_last_id :: string
  rr_last_bytes :: int
  rr_last_progress :: time
  rr_trusted :: "trusted_store option"
  rr_sender_alias :: string
  rr_sender_pem :: string
  rr_sender_token :: string
  rr_sender_id :: string
  rr_starts :: nat
  rr_dones :: nat
  rr_received :: "(string \<times> int) list"
  rr_sent :: "rtc_out list"
  rr_disk :: filesys
  rr_config_disk :: filesys
  rr_blocked :: "(string, time) gomap"

record rtc_env = store_env +
  re_now :: time
  re_send_fails :: bool
  re_delimiter_fails :: bool
  re_nonce :: "bytes option"
  re_tokens :: "nat \<Rightarrow> string"
  re_select :: "(rtc_file list \<Rightarrow> string list) option"
  re_pin_answer :: "(nat \<Rightarrow> string) option"
  re_ops :: crypto_ops
  re_key :: signing_key
  re_key_pem :: string
  re_parse_pem :: "string \<Rightarrow> verifying_key option"
  re_parse :: "bytes \<Rightarrow> json option"
  re_sha :: "bytes \<Rightarrow> string"
  re_lower :: "string \<Rightarrow> string"
  re_encode :: "device_map \<Rightarrow> bytes"

abbreviation env_io :: "rtc_env \<Rightarrow> io_env" where
  "env_io E \<equiv> io_env.truncate E"

abbreviation env_store :: "rtc_env \<Rightarrow> store_env" where
  "env_store E \<equiv> store_env.truncate E"

definition new_rtc_receiver :: "string \<Rightarrow> string \<Rightarrow> filesys \<Rightarrow> filesys \<Rightarrow> rtc_receiver" where
  "new_rtc_receiver pin dir disk config_disk =
     \<lparr>rr_accepting = False, rr_peer = None, rr_pin = pin, rr_pin_attempts = 0, rr_provided_pins = 0,
      rr_save_dir = dir, rr_routes = None, rr_remapper = None, rr_state = WaitNonce,
      rr_remote_nonce = [], rr_local_nonce = [], rr_final_nonce = [], rr_sender_key = None,
      rr_require_pairing = False, rr_files = [], rr_file_by_id = [], rr_tokens = [], rr_accepted = [],
      rr_folder_known = False, rr_folder = False, rr_current = [], rr_buffers = [], rr_paths = [],
      rr_hashers = [], rr_bytes = 0, rr_control = [], rr_ensured = [], rr_unique = [],
      rr_active = False, rr_generation = 0, rr_last_id = [], rr_last_bytes = 0,
      rr_last_progress = zero_time, rr_trusted = None, rr_sender_alias = [], rr_sender_pem = [],
      rr_sender_token = [], rr_sender_id = [], rr_starts = 0, rr_dones = 0, rr_received = [],
      rr_sent = [], rr_disk = disk, rr_config_disk = config_disk, rr_blocked = []\<rparr>"

subsection \<open>Blocked peers\<close>

definition is_peer_blocked :: "time \<Rightarrow> string \<Rightarrow> (string, time) gomap \<Rightarrow> bool \<times> (string, time) gomap" where
  "is_peer_blocked now i blocked =
     (let kept = gm_keep (\<lambda>j until. \<not> until < now) blocked
      in (case map_of kept i of Some until \<Rightarrow> now < until | None \<Rightarrow> False, kept))"

definition block_peer :: "time \<Rightarrow> string \<Rightarrow> (string, time) gomap \<Rightarrow> (string, time) gomap" where
  "block_peer now i blocked = AList.update i (now + pin_block_duration) blocked"

subsection \<open>The channel\<close>

text \<open>Sending fails without a peer or when the channel fails.\<close>

definition send_msg :: "rtc_env \<Rightarrow> rtc_out \<Rightarrow> rtc_receiver \<Rightarrow> bool \<times> rtc_receiver" where
  "send_msg E m r =
     (if rr_peer r = None \<or> re_send_fails E then (False, r) else (True, r\<lparr>rr_sent := rr_sent r @ [m]\<rparr>))"

definition try_send :: "rtc_env \<Rightarrow> rtc_out \<Rightarrow> rtc_receiver \<Rightarrow> rtc_receiver" where
  "try_send E m r = snd (send_msg E m r)"

text \<open>A chunked message: the JSON in binary frames, then the delimiter.\<close>

definition send_chunked :: "rtc_env \<Rightarrow> rtc_out \<Rightarrow> rtc_receiver \<Rightarrow> bool \<times> rtc_receiver" where
  "send_chunked E m r =
     (case send_msg E m r of
        (False, r1) \<Rightarrow> (False, r1)
      | (True, r1) \<Rightarrow> if re_delimiter_fails E then (False, r1) else (True, r1\<lparr>rr_sent := rr_sent r1 @ [OutDelimiter]\<rparr>))"

text \<open>Where the code ignores the errors, the delimiter is sent even after a failure.\<close>

definition try_chunked :: "rtc_env \<Rightarrow> rtc_out \<Rightarrow> rtc_receiver \<Rightarrow> rtc_receiver" where
  "try_chunked E m r =
     (let r1 = try_send E m r
      in if rr_peer r1 = None \<or> re_delimiter_fails E then r1 else r1\<lparr>rr_sent := rr_sent r1 @ [OutDelimiter]\<rparr>)"

subsection \<open>Activity and cleanup\<close>

definition mark_transfer_started :: "rtc_env \<Rightarrow> rtc_receiver \<Rightarrow> rtc_receiver" where
  "mark_transfer_started E r =
     (if rr_active r then r
      else r\<lparr>rr_active := True, rr_generation := rr_generation r + 1, rr_last_id := rr_current r,
             rr_last_bytes := rr_bytes r, rr_last_progress := re_now E, rr_starts := rr_starts r + 1\<rparr>)"

definition mark_transfer_done :: "rtc_receiver \<Rightarrow> rtc_receiver" where
  "mark_transfer_done r =
     (if \<not> rr_active r then r
      else r\<lparr>rr_active := False, rr_generation := rr_generation r + 1, rr_last_id := [],
             rr_last_bytes := 0, rr_last_progress := zero_time, rr_dones := rr_dones r + 1\<rparr>)"

definition remove_paths :: "io_env \<Rightarrow> string list \<Rightarrow> filesys \<Rightarrow> filesys" where
  "remove_paths env ps fs = fold (remove_file env) ps fs"

definition cleanup_partial_files :: "rtc_env \<Rightarrow> rtc_receiver \<Rightarrow> rtc_receiver" where
  "cleanup_partial_files E r =
     (mark_transfer_done
        (r\<lparr>rr_disk := remove_paths (env_io E) (map snd (rr_paths r)) (rr_disk r),
           rr_buffers := [], rr_paths := [], rr_hashers := []\<rparr>))\<lparr>rr_current := [], rr_bytes := 0\<rparr>"

definition terminate :: "rtc_env \<Rightarrow> rtc_receiver \<Rightarrow> rtc_receiver" where
  "terminate E r = (cleanup_partial_files E r)\<lparr>rr_state := RtcDone, rr_peer := None\<rparr>"

definition handle_peer_closed :: "rtc_env \<Rightarrow> nat \<Rightarrow> rtc_receiver \<Rightarrow> rtc_receiver" where
  "handle_peer_closed E p r =
     (if rr_peer r \<noteq> Some p then r
      else (cleanup_partial_files E r)\<lparr>rr_peer := None, rr_accepting := False, rr_state := RtcDone\<rparr>)"

definition rtc_close :: "rtc_env \<Rightarrow> rtc_receiver \<Rightarrow> rtc_receiver" where
  "rtc_close E r =
     (cleanup_partial_files E r)\<lparr>rr_peer := None, rr_accepting := False, rr_state := RtcDone\<rparr>"

text \<open>The watchdog; a timer of an older generation does nothing.\<close>

definition check_transfer_watchdog :: "rtc_env \<Rightarrow> nat \<Rightarrow> rtc_receiver \<Rightarrow> rtc_receiver" where
  "check_transfer_watchdog E g r =
     (if \<not> rr_active r \<or> g \<noteq> rr_generation r then r
      else
        let r1 = (if rr_current r \<noteq> rr_last_id r \<or> rr_bytes r \<noteq> rr_last_bytes r
                  then r\<lparr>rr_last_id := rr_current r, rr_last_bytes := rr_bytes r, rr_last_progress := re_now E\<rparr>
                  else r)
        in if receive_file_idle_timeout \<le> time_sub (re_now E) (rr_last_progress r1) then terminate E r1 else r1)"

subsection \<open>Files on offer\<close>

fun index_files :: "rtc_file list \<Rightarrow> (string, rtc_file) gomap \<Rightarrow> (string, rtc_file) gomap" where
  "index_files [] m = m"
| "index_files (f # fs) m =
     index_files fs (if map_of m (rf_id f) = None then AList.update (rf_id f) f m else m)"

definition rebuild_file_index :: "rtc_receiver \<Rightarrow> rtc_receiver" where
  "rebuild_file_index r = r\<lparr>rr_file_by_id := index_files (rr_files r) []\<rparr>"

definition file_meta_by_id :: "string \<Rightarrow> rtc_receiver \<Rightarrow> rtc_file option \<times> rtc_receiver" where
  "file_meta_by_id i r =
     (case map_of (rr_file_by_id r) i of
        Some f \<Rightarrow> (Some f, r)
      | None \<Rightarrow>
          (case find (\<lambda>f. rf_id f = i) (rr_files r) of
             Some f \<Rightarrow> (Some f, r\<lparr>rr_file_by_id := AList.update i f (rr_file_by_id r)\<rparr>)
           | None \<Rightarrow> (None, r)))"

definition has_nul :: "string \<Rightarrow> bool" where
  "has_nul s \<longleftrightarrow> CHR 0x00 \<in> set s"

definition clean_names :: "rtc_file list \<Rightarrow> string list" where
  "clean_names fs =
     concat (map (\<lambda>f. if has_nul (rf_name f) then []
                      else (case sanitize_path_with_fallback (rf_name f) of Inl _ \<Rightarrow> [] | Inr p \<Rightarrow> [p])) fs)"

definition rtc_prepare_folder_remap :: "rtc_receiver \<Rightarrow> rtc_receiver" where
  "rtc_prepare_folder_remap r =
     (case new_folder_remapper (rr_save_dir r) (clean_names (rr_files r)) (rr_disk r) of
        None \<Rightarrow> r
      | Some m \<Rightarrow> r\<lparr>rr_remapper := Some m\<rparr>)"

definition rtc_apply_folder_remap :: "rtc_receiver \<Rightarrow> string \<Rightarrow> string" where
  "rtc_apply_folder_remap r p = (case rr_remapper r of None \<Rightarrow> p | Some m \<Rightarrow> remap_apply m p)"

text \<open>The loop over the accepted ids; \<open>n\<close> counts the tokens drawn.\<close>

fun prepare_ids ::
    "rtc_env \<Rightarrow> nat \<Rightarrow> string list \<Rightarrow> rtc_receiver \<Rightarrow> (string, string) gomap \<Rightarrow> (string, string) gomap \<times> rtc_receiver" where
  "prepare_ids E n [] r acc = (acc, r)"
| "prepare_ids E n (i # ids) r acc =
     (case file_meta_by_id i r of
        (None, r1) \<Rightarrow> prepare_ids E n ids r1 acc
      | (Some f, r1) \<Rightarrow>
          if has_nul (rf_name f) \<or> isl (sanitize_path_with_fallback (rf_name f))
          then prepare_ids E n ids r1 acc
          else prepare_ids E (Suc n) ids (r1\<lparr>rr_tokens := AList.update i (re_tokens E n) (rr_tokens r1)\<rparr>)
                 (AList.update i (re_tokens E n) acc))"

definition prepare_files_for_receive ::
    "rtc_env \<Rightarrow> string list \<Rightarrow> rtc_receiver \<Rightarrow> (string, string) gomap \<times> rtc_receiver" where
  "prepare_files_for_receive E ids r = prepare_ids E 0 ids (rtc_prepare_folder_remap r) []"

definition rtc_folder_transfer :: "rtc_receiver \<Rightarrow> bool \<times> rtc_receiver" where
  "rtc_folder_transfer r =
     (if rr_folder_known r then (rr_folder r, r)
      else let b = (rr_folder r \<or> list_ex (\<lambda>f. contains_str ''/'' (rf_name f)) (rr_files r))
           in (b, r\<lparr>rr_folder := b, rr_folder_known := True\<rparr>))"

definition rtc_save_dir :: "rtc_env \<Rightarrow> string \<Rightarrow> rtc_receiver \<Rightarrow> string \<times> rtc_receiver" where
  "rtc_save_dir E filename r =
     (case rtc_folder_transfer r of
        (True, r1) \<Rightarrow> (rr_save_dir r, r1)
      | (False, r1) \<Rightarrow>
          (case rr_routes r of
             None \<Rightarrow> (rr_save_dir r, r1)
           | Some m \<Rightarrow>
               let ext = path_ext filename
               in if ext = [] then (rr_save_dir r, r1)
                  else
                    (case map_of m (re_lower E (tl ext)) of
                       Some d \<Rightarrow> (d, r1)
                     | None \<Rightarrow>
                         (case map_of m ''default'' of Some d \<Rightarrow> (d, r1) | None \<Rightarrow> (rr_save_dir r, r1)))))"

definition rtc_ensure_save_dir :: "rtc_env \<Rightarrow> string \<Rightarrow> rtc_receiver \<Rightarrow> bool \<times> rtc_receiver" where
  "rtc_ensure_save_dir E d r =
     (if d \<in> set (rr_ensured r) then (True, r)
      else (case mkdir_all (env_io E) d (rr_disk r) of
              (True, fs) \<Rightarrow> (True, r\<lparr>rr_disk := fs, rr_ensured := d # rr_ensured r\<rparr>)
            | (False, fs) \<Rightarrow> (False, r\<lparr>rr_disk := fs\<rparr>)))"

end
