(* ===== verification/RTC_Sender.thy ===== *)
theory RTC_Sender
  imports RTC_Receiver
begin

text \<open>
  \<open>internal/webrtc/transfer/sender.go\<close>: sending over a WebRTC data channel. The handlers run under
  the sender's mutex and are steps on the state \<open>rtc_sender\<close>. Two release it while a callback asks the user, for the
  PIN and for the pairing; the steps here are those in which it answers before the next event, so nothing is said of
  what other events do in between. The channels towards the caller
  (accepted, declined, errors, file results) hold one value each. \<open>send_files\<close> is the loop of the
  caller that streams the accepted files; it returns what it put on the wire and how it ended. Of an
  error that wraps another one the text is the sender's own part.
\<close>

subsection \<open>State\<close>

datatype snd_state =
    SndInit
  | SndWaitNonce
  | SndWaitToken
  | SndWaitPin
  | SndWaitRequiredPin
  | SndWaitFileAccept
  | SndSendingFiles
  | SndDone

definition chunk_size :: nat where
  "chunk_size = 16 * 1024"

text \<open>\<open>FileMeta\<close>; \<open>sf_content\<close> is the body of a file that has no path.\<close>

record snd_file =
  sf_id :: string
  sf_name :: string
  sf_path :: string
  sf_size :: int
  sf_type :: string
  sf_sha :: string
  sf_preview :: string
  sf_modified :: time
  sf_accessed :: time
  sf_content :: "bytes option"

datatype snd_out =
    SndNonce string
  | SndToken string
  | SndPin string
  | SndFileList string "rtc_file list"
  | SndPair string string
  | SndDelimiter

record rtc_sender =
  ss_peer :: bool
  ss_pin :: string
  ss_pin_attempts :: nat
  ss_required_attempts :: int
  ss_required_pin :: string
  ss_require_pin :: bool
  ss_state :: snd_state
  ss_local_nonce :: bytes
  ss_remote_nonce :: bytes
  ss_final_nonce :: bytes
  ss_receiver_key :: "verifying_key option"
  ss_receiver_token :: string
  ss_receiver_alias :: string
  ss_trusted :: "trusted_store option"
  ss_files :: "snd_file list"
  ss_tokens :: "(string, string) gomap"
  ss_accepted_ids :: "string list"
  ss_accepted :: "(string, string) gomap option"
  ss_declined :: bool
  ss_errors :: "string option"
  ss_results :: "rtc_send_file_response option"
  ss_control :: bytes
  ss_closed :: bool
  ss_sent :: "snd_out list"
  ss_config_disk :: filesys

text \<open>Beside the receiver's environment: the user's answer to a pairing request, and the text of a
  time stamp (RFC 3339).\<close>

record snd_env = rtc_env +
  se_confirm :: "(string \<Rightarrow> string \<Rightarrow> bool) option"
  se_format :: "time \<Rightarrow> string"

abbreviation snd_store :: "snd_env \<Rightarrow> store_env" where
  "snd_store E \<equiv> store_env.truncate E"

definition new_rtc_sender :: "string \<Rightarrow> filesys \<Rightarrow> rtc_sender" where
  "new_rtc_sender pin config_disk =
     \<lparr>ss_peer = False, ss_pin = pin, ss_pin_attempts = 0, ss_required_attempts = 0, ss_required_pin = [],
      ss_require_pin = False, ss_state = SndInit, ss_local_nonce = [], ss_remote_nonce = [], ss_final_nonce = [],
      ss_receiver_key = None, ss_receiver_token = [], ss_receiver_alias = [], ss_trusted = None, ss_files = [],
      ss_tokens = [], ss_accepted_ids = [], ss_accepted = None, ss_declined = False, ss_errors = None,
      ss_results = None, ss_control = [], ss_closed = False, ss_sent = [], ss_config_disk = config_disk\<rparr>"

definition set_receiver_public_key :: "verifying_key \<Rightarrow> rtc_sender \<Rightarrow> rtc_sender" where
  "set_receiver_public_key k s = s\<lparr>ss_receiver_key := Some k\<rparr>"

definition set_required_pin :: "string \<Rightarrow> rtc_sender \<Rightarrow> rtc_sender" where
  "set_required_pin pin s = s\<lparr>ss_required_pin := pin, ss_require_pin := True\<rparr>"

subsection \<open>Sending and failing\<close>

definition snd_json :: "snd_env \<Rightarrow> snd_out \<Rightarrow> rtc_sender \<Rightarrow> bool \<times> rtc_sender" where
  "snd_json E m s =
     (if \<not> ss_peer s \<or> re_send_fails E then (False, s) else (True, s\<lparr>ss_sent := ss_sent s @ [m]\<rparr>))"

text \<open>A chunked message: the JSON in binary frames, then the delimiter.\<close>

definition snd_chunked :: "snd_env \<Rightarrow> snd_out \<Rightarrow> rtc_sender \<Rightarrow> bool \<times> rtc_sender" where
  "snd_chunked E m s =
     (case snd_json E m s of
        (False, s1) \<Rightarrow> (False, s1)
      | (True, s1) \<Rightarrow> if re_delimiter_fails E then (False, s1) else (True, s1\<lparr>ss_sent := ss_sent s1 @ [SndDelimiter]\<rparr>))"

definition send_pin_sending_status :: "snd_env \<Rightarrow> string \<Rightarrow> rtc_sender \<Rightarrow> bool \<times> rtc_sender" where
  "send_pin_sending_status E status s = snd_chunked E (SndFileList status []) s"

definition fail_locked :: "string \<Rightarrow> rtc_sender \<Rightarrow> rtc_sender" where
  "fail_locked e s =
     (if ss_closed s then s\<lparr>ss_state := SndDone\<rparr>
      else s\<lparr>ss_state := SndDone, ss_errors := (if ss_errors s = None then Some e else ss_errors s)\<rparr>)"

subsection \<open>The handshake\<close>

text \<open>\<^const>\<open>None\<close> when the send on the full error channel blocks for good, with the mutex held.\<close>

definition start_nonce_exchange :: "snd_env \<Rightarrow> rtc_sender \<Rightarrow> rtc_sender option" where
  "start_nonce_exchange E s =
     (let report = (\<lambda>e s. if ss_closed s then Some s
                          else if ss_errors s \<noteq> None then None else Some (s\<lparr>ss_errors := Some e\<rparr>))
      in case re_nonce E of
           None \<Rightarrow> report ''failed to generate nonce'' s
         | Some n \<Rightarrow>
             (case snd_json E (SndNonce (encode_nonce n)) (s\<lparr>ss_local_nonce := n\<rparr>) of
                (False, s1) \<Rightarrow> report ''failed to send nonce'' s1
              | (True, s1) \<Rightarrow> Some (s1\<lparr>ss_state := SndWaitNonce\<rparr>)))"

definition handle_nonce_response :: "snd_env \<Rightarrow> rtc_msg \<Rightarrow> rtc_sender \<Rightarrow> rtc_sender" where
  "handle_nonce_response E msg s =
     (case msg of
        MNonce n \<Rightarrow>
          (case decode_nonce n of
             None \<Rightarrow> s
           | Some remote \<Rightarrow>
               let s1 = s\<lparr>ss_remote_nonce := remote, ss_final_nonce := combine_nonces (ss_local_nonce s) remote\<rparr>
               in (case generate_token_with_nonce (re_ops E) (re_key E) (ss_final_nonce s1) of
                     None \<Rightarrow> s1
                   | Some t \<Rightarrow>
                       (case snd_json E (SndToken t) s1 of
                          (True, s2) \<Rightarrow> s2\<lparr>ss_state := SndWaitToken\<rparr>
                        | (False, s2) \<Rightarrow> s2)))
      | _ \<Rightarrow> s)"

definition file_dto :: "snd_env \<Rightarrow> snd_file \<Rightarrow> rtc_file" where
  "file_dto E f =
     \<lparr>rf_id = sf_id f, rf_name = sf_name f, rf_size = sf_size f, rf_type = sf_type f, rf_sha = sf_sha f,
      rf_preview = sf_preview f,
      rf_modified = (if sf_modified f = zero_time then [] else se_format E (sf_modified f)),
      rf_accessed = (if sf_accessed f = zero_time then [] else se_format E (sf_accessed f))\<rparr>"

definition send_file_list :: "snd_env \<Rightarrow> rtc_sender \<Rightarrow> rtc_sender" where
  "send_file_list E s =
     (case snd_chunked E (SndFileList status_ok (map (file_dto E) (ss_files s))) s of
        (True, s1) \<Rightarrow> s1\<lparr>ss_state := SndWaitFileAccept\<rparr>
      | (False, s1) \<Rightarrow> s1)"

definition begin_file_list_phase :: "snd_env \<Rightarrow> rtc_sender \<Rightarrow> rtc_sender" where
  "begin_file_list_phase E s =
     (if \<not> ss_require_pin s then send_file_list E s
      else (case send_pin_sending_status E status_pin_required s of
              (True, s1) \<Rightarrow> s1\<lparr>ss_state := SndWaitRequiredPin\<rparr>
            | (False, s1) \<Rightarrow> fail_locked ''failed to send sender PIN challenge'' s1))"

text \<open>\<open>RTCTokenResponse\<close>.\<close>

definition decode_token_response :: "json \<Rightarrow> (string \<times> string) option" where
  "decode_token_response j =
     (case struct_fields j of
        None \<Rightarrow> None
      | Some fs \<Rightarrow>
          (case (text_field ''status'' fs [], text_field ''token'' fs []) of
             ((ok1, st), (ok2, t)) \<Rightarrow> if ok1 \<and> ok2 then Some (st, t) else None))"

text \<open>The provider of the PIN is asked without the lock and answers before the next event.\<close>

definition handle_token_response :: "snd_env \<Rightarrow> rtc_msg \<Rightarrow> json \<Rightarrow> rtc_sender \<Rightarrow> rtc_sender" where
  "handle_token_response E msg j s =
     (if msg_type msg = ''status_TOO_MANY_ATTEMPTS'' then fail_locked ''too many PIN attempts, receiver blocked transfer'' s
      else if msg_type msg = ''status_INVALID_SIGNATURE'' then fail_locked ''receiver rejected our token signature'' s
      else if msg_type msg \<noteq> ''status_OK'' \<and> msg_type msg \<noteq> ''status_PIN_REQUIRED'' then s
      else
        (case decode_token_response j of
           None \<Rightarrow> s
         | Some (status, token) \<Rightarrow>
             let s1 = s\<lparr>ss_receiver_token := token\<rparr>;
                 bad = (case ss_receiver_key s1 of
                          None \<Rightarrow> False
                        | Some k \<Rightarrow> verify_token_nonce (re_ops E) k token (ss_final_nonce s1) \<noteq> None)
             in if bad then fail_locked ''receiver token verification failed'' s1
                else if status = ''PIN_REQUIRED'' then
                  let s2 = s1\<lparr>ss_pin_attempts := ss_pin_attempts s1 + 1\<rparr>;
                      pin = (case re_pin_answer E of Some f \<Rightarrow> f (ss_pin_attempts s2) | None \<Rightarrow> ss_pin s2)
                  in (case snd_json E (SndPin pin) s2 of
                        (True, s3) \<Rightarrow> s3\<lparr>ss_state := SndWaitPin\<rparr>
                      | (False, s3) \<Rightarrow> fail_locked ''failed to send PIN'' s3)
                else begin_file_list_phase E s1))"

definition handle_required_pin :: "snd_env \<Rightarrow> rtc_msg \<Rightarrow> rtc_sender \<Rightarrow> rtc_sender" where
  "handle_required_pin E msg s =
     (case msg of
        MPin pin \<Rightarrow>
          if pin = ss_required_pin s then send_file_list E s
          else
            let s1 = s\<lparr>ss_required_attempts := ss_required_attempts s + 1\<rparr>;
                status = (if max_pin_attempts \<le> ss_required_attempts s1 then status_too_many_attempts else status_pin_required)
            in (case send_pin_sending_status E status s1 of
                  (False, s2) \<Rightarrow> fail_locked ''failed to send sender PIN result'' s2
                | (True, s2) \<Rightarrow>
                    if status = status_too_many_attempts then fail_locked ''too many incorrect PIN attempts'' s2 else s2)
      | _ \<Rightarrow> s)"

text \<open>\<open>RTCFileListResponse\<close>: the status, the tokens and the public key.\<close>

fun text_map :: "json_fields \<Rightarrow> (string, string) gomap \<Rightarrow> bool \<times> (string, string) gomap" where
  "text_map [] m = (True, m)"
| "text_map ((k, j) # fs) m =
     (case j of
        JText v \<Rightarrow> text_map fs (AList.update k v m)
      | JNull \<Rightarrow> text_map fs (AList.update k [] m)
      | _ \<Rightarrow> (False, snd (text_map fs m)))"

fun tokens_field :: "json_fields \<Rightarrow> (string, string) gomap \<Rightarrow> bool \<times> (string, string) gomap" where
  "tokens_field [] v = (True, v)"
| "tokens_field ((k, j) # fs) v =
     (if key_is ''files'' k then
        (case j of
           JObj ms \<Rightarrow> (case text_map ms v of (ok, v') \<Rightarrow> (case tokens_field fs v' of (ok', w) \<Rightarrow> (ok \<and> ok', w)))
         | JNull \<Rightarrow> tokens_field fs []
         | _ \<Rightarrow> (False, snd (tokens_field fs v)))
      else tokens_field fs v)"

definition decode_list_response :: "json \<Rightarrow> (string \<times> (string, string) gomap \<times> string) option" where
  "decode_list_response j =
     (case struct_fields j of
        None \<Rightarrow> None
      | Some fs \<Rightarrow>
          (case (text_field ''status'' fs [], tokens_field fs [], text_field ''publicKey'' fs []) of
             ((ok1, st), (ok2, m), (ok3, k)) \<Rightarrow> if ok1 \<and> ok2 \<and> ok3 then Some (st, m, k) else None))"

text \<open>\<open>sha\<close> is the hexadecimal digest.\<close>

definition compute_fingerprint :: "(bytes \<Rightarrow> string) \<Rightarrow> string \<Rightarrow> string" where
  "compute_fingerprint sha pem = (if 16 < length (sha pem) then take 16 (sha pem) else sha pem)"

text \<open>
  The \<open>PAIR\<close> case. The user is asked without the lock and answers before the next event. \<^const>\<open>None\<close> is the panic of a store without a map.
\<close>

definition answer_pairing :: "snd_env \<Rightarrow> string \<Rightarrow> verifying_key option \<Rightarrow> rtc_sender \<Rightarrow> rtc_sender option" where
  "answer_pairing E pem key s =
     (let alias = (if ss_receiver_alias s = [] then ''Unknown Device'' else ss_receiver_alias s);
          fingerprint = (if pem = [] then [] else compute_fingerprint (re_sha E) pem);
          accepted = (case se_confirm E of None \<Rightarrow> True | Some f \<Rightarrow> f alias fingerprint)
      in if \<not> accepted then Some (snd (snd_json E (SndPair status_pair_declined []) (s\<lparr>ss_receiver_key := None\<rparr>)))
         else
           (case snd_json E (SndPair status_ok (re_key_pem E)) s of
              (False, s1) \<Rightarrow> Some s1
            | (True, s1) \<Rightarrow>
                (case (ss_trusted s1, key) of
                   (Some st, Some k) \<Rightarrow>
                     (case store_add (snd_store E) (re_encode E) (re_sha E) (device_list st)
                             \<lparr>td_alias = alias, td_public_key = pem, td_added_at = re_now E div second\<rparr> st (ss_config_disk s1) of
                        (StorePanic, st', fs) \<Rightarrow> None
                      | (_, st', fs) \<Rightarrow> Some (s1\<lparr>ss_trusted := Some st', ss_config_disk := fs\<rparr>))
                 | _ \<Rightarrow> Some s1)))"

definition handle_pair_request :: "snd_env \<Rightarrow> string \<Rightarrow> rtc_sender \<Rightarrow> rtc_sender option" where
  "handle_pair_request E pem s =
     (if pem = [] then answer_pairing E pem None s
      else
        (case re_parse_pem E pem of
           None \<Rightarrow> Some (fail_locked ''invalid receiver PAIR public key'' (snd (snd_json E (SndPair status_invalid_signature []) s)))
         | Some key \<Rightarrow>
             if ss_receiver_token s \<noteq> [] \<and>
                verify_token_nonce (re_ops E) key (ss_receiver_token s) (ss_final_nonce s) \<noteq> None
             then Some (fail_locked ''receiver PAIR identity mismatch'' (snd (snd_json E (SndPair status_invalid_signature []) s)))
             else answer_pairing E pem (Some key) (s\<lparr>ss_receiver_key := Some key\<rparr>)))"

definition handle_file_acceptance :: "snd_env \<Rightarrow> rtc_msg \<Rightarrow> json \<Rightarrow> rtc_sender \<Rightarrow> rtc_sender option" where
  "handle_file_acceptance E msg j s =
     (if msg_type msg \<noteq> ''status_OK'' \<and> msg_type msg \<noteq> ''status_DECLINED'' \<and> msg_type msg \<noteq> ''status_PAIR'' then Some s
      else
        (case decode_list_response j of
           None \<Rightarrow> Some s
         | Some (status, tokens, pem) \<Rightarrow>
             if status = ''DECLINED'' then Some (if ss_closed s then s else s\<lparr>ss_declined := True\<rparr>)
             else if status = ''PAIR'' then handle_pair_request E pem s
             else if status = ''OK'' then
               Some ((if ss_closed s then s
                      else s\<lparr>ss_accepted := (if ss_accepted s = None then Some tokens else ss_accepted s)\<rparr>)
                       \<lparr>ss_state := SndSendingFiles\<rparr>)
             else Some s))"

subsection \<open>Data messages\<close>

definition file_error :: "string \<Rightarrow> rtc_send_file_response \<Rightarrow> string" where
  "file_error i resp =
     ''file '' @ i @ '': '' @ (case sr_error resp of None \<Rightarrow> ''receiver failed to save file'' | Some e \<Rightarrow> e)"

definition handle_file_response :: "rtc_send_file_response \<Rightarrow> rtc_sender \<Rightarrow> rtc_sender" where
  "handle_file_response resp s =
     (if ss_closed s then s
      else
        let s1 = s\<lparr>ss_results := (if ss_results s = None then Some resp else ss_results s)\<rparr>
        in if sr_success resp then s1
           else s1\<lparr>ss_errors := (if ss_errors s1 = None
                               then Some (file_error (sr_id resp) resp)
                               else ss_errors s1)\<rparr>)"

definition snd_dispatch :: "snd_env \<Rightarrow> bytes \<Rightarrow> rtc_sender \<Rightarrow> rtc_sender option" where
  "snd_dispatch E data s =
     (case parse_rtc_message (re_parse E) data of
        None \<Rightarrow> Some s
      | Some msg \<Rightarrow>
          let j = the (re_parse E data)
          in (case msg of
                MFileResponse resp \<Rightarrow> Some (handle_file_response resp s)
              | _ \<Rightarrow>
                  (case ss_state s of
                     SndWaitNonce \<Rightarrow> Some (handle_nonce_response E msg s)
                   | SndWaitToken \<Rightarrow> Some (handle_token_response E msg j s)
                   | SndWaitPin \<Rightarrow> Some (handle_token_response E msg j s)
                   | SndWaitRequiredPin \<Rightarrow> Some (handle_required_pin E msg s)
                   | SndWaitFileAccept \<Rightarrow> handle_file_acceptance E msg j s
                   | _ \<Rightarrow> Some s)))"

definition snd_data_message :: "snd_env \<Rightarrow> bytes \<Rightarrow> bool \<Rightarrow> rtc_sender \<Rightarrow> rtc_sender option" where
  "snd_data_message E data is_string s =
     (if is_string \<and> data = ''0'' then
        (if ss_control s = [] then Some s else snd_dispatch E (ss_control s) (s\<lparr>ss_control := []\<rparr>))
      else if \<not> is_string then
        (if max_control_message_bytes < length (ss_control s) + length data then Some (s\<lparr>ss_control := []\<rparr>)
         else Some (s\<lparr>ss_control := ss_control s @ data\<rparr>))
      else snd_dispatch E data s)"

definition snd_peer_closed :: "rtc_sender \<Rightarrow> rtc_sender" where
  "snd_peer_closed s =
     (if ss_closed s \<or> ss_state s = SndDone then s else fail_locked ''peer connection closed'' s)"

definition snd_close :: "rtc_sender \<Rightarrow> rtc_sender" where
  "snd_close s = s\<lparr>ss_closed := True\<rparr>"

text \<open>\<open>Send\<close> takes the accepted tokens from the channel; \<open>ids\<close> is the order in which the map is visited.\<close>

definition take_acceptance :: "string list \<Rightarrow> rtc_sender \<Rightarrow> rtc_sender option" where
  "take_acceptance ids s =
     (case ss_accepted s of
        None \<Rightarrow> None
      | Some tokens \<Rightarrow>
          Some (s\<lparr>ss_accepted := None, ss_tokens := tokens, ss_accepted_ids := ss_accepted_ids s @ ids\<rparr>))"

subsection \<open>Streaming the files\<close>

text \<open>What is put on the data channel while files are sent: a header as text, a binary frame, the
  final text frame. \<open>we_fails k\<close> says whether the \<open>k\<close>-th send (or the wait for room before it) fails.\<close>

datatype wire = WHeader string string | WData bytes | WEnd

datatype ack = AckResult rtc_send_file_response | AckPeerClosed | AckTimeout

text \<open>\<open>we_read\<close> gives the blocks read from a file and whether reading ended in an error; \<^const>\<open>None\<close>
  when it cannot be opened. \<open>we_ack\<close> is what the wait for the \<open>n\<close>-th acknowledgement ends in.\<close>

record wire_env =
  we_fails :: "nat \<Rightarrow> bool"
  we_read :: "snd_file \<Rightarrow> (bytes list \<times> bool) option"
  we_ack :: "nat \<Rightarrow> ack"
  we_flush_closed :: bool

record snd_item =
  it_id :: string
  it_token :: string
  it_file :: snd_file

definition put_wire :: "wire_env \<Rightarrow> wire \<Rightarrow> wire list \<Rightarrow> bool \<times> wire list" where
  "put_wire W w out = (if we_fails W (length out) then (False, out) else (True, out @ [w]))"

function send_frames :: "wire_env \<Rightarrow> bytes \<Rightarrow> wire list \<Rightarrow> bool \<times> wire list" where
  "send_frames W data out =
     (if data = [] then (True, out)
      else (case put_wire W (WData (take chunk_size data)) out of
              (False, out1) \<Rightarrow> (False, out1)
            | (True, out1) \<Rightarrow> send_frames W (drop chunk_size data) out1))"
  by pat_completeness auto
termination
  by (relation "measure (\<lambda>(W, data, out). length data)") (auto simp: chunk_size_def)

declare send_frames.simps [simp del]

fun send_blocks :: "wire_env \<Rightarrow> bytes list \<Rightarrow> wire list \<Rightarrow> bool \<times> wire list" where
  "send_blocks W [] out = (True, out)"
| "send_blocks W (b # bs) out =
     (case send_frames W b out of (False, out1) \<Rightarrow> (False, out1) | (True, out1) \<Rightarrow> send_blocks W bs out1)"

fun index_snd :: "snd_file list \<Rightarrow> (string, snd_file) gomap \<Rightarrow> (string, snd_file) gomap" where
  "index_snd [] m = m"
| "index_snd (f # fs) m = index_snd fs (if map_of m (sf_id f) = None then AList.update (sf_id f) f m else m)"

fun queue_of :: "(string, snd_file) gomap \<Rightarrow> (string, string) gomap \<Rightarrow> string list \<Rightarrow> snd_item list" where
  "queue_of m tokens [] = []"
| "queue_of m tokens (i # ids) =
     (case (map_of tokens i, map_of m i) of
        (Some t, Some f) \<Rightarrow> \<lparr>it_id = i, it_token = t, it_file = f\<rparr> # queue_of m tokens ids
      | _ \<Rightarrow> queue_of m tokens ids)"

definition prepare_send_queue :: "rtc_sender \<Rightarrow> snd_item list" where
  "prepare_send_queue s = queue_of (index_snd (ss_files s) []) (ss_tokens s) (ss_accepted_ids s)"

definition check_ack :: "string \<Rightarrow> ack \<Rightarrow> string option" where
  "check_ack i a =
     (case a of
        AckResult r \<Rightarrow>
          if sr_id r \<noteq> i then Some (''unexpected file acknowledgement for '' @ sr_id r)
          else if \<not> sr_success r then Some (file_error i r)
          else None
      | AckPeerClosed \<Rightarrow> Some (''peer connection closed while waiting for acknowledgement for file '' @ i)
      | AckTimeout \<Rightarrow> Some (''timeout waiting for acknowledgement for file '' @ i))"

text \<open>The loop over the queue; \<open>n\<close> counts the files, \<open>pre\<close> says that the header is already sent. The
  result is the error, or \<^const>\<open>None\<close>.\<close>

fun send_queue :: "wire_env \<Rightarrow> nat \<Rightarrow> bool \<Rightarrow> snd_item list \<Rightarrow> wire list \<Rightarrow> string option \<times> wire list" where
  "send_queue W n pre [] out = (None, out)"
| "send_queue W n pre (it # its) out =
     (case (case sf_content (it_file it) of Some c \<Rightarrow> Some ([c], False) | None \<Rightarrow> we_read W (it_file it)) of
        None \<Rightarrow> (Some ''failed to open file'', out)
      | Some (blocks, read_error) \<Rightarrow>
          (case (if pre then (True, out) else put_wire W (WHeader (it_id it) (it_token it)) out) of
             (False, out1) \<Rightarrow> (Some ''failed to send file header'', out1)
           | (True, out1) \<Rightarrow>
               (case send_blocks W blocks out1 of
                  (False, out2) \<Rightarrow> (Some ''failed to send data'', out2)
                | (True, out2) \<Rightarrow>
                    if read_error then (Some ''failed to read file'', out2)
                    else
                      (case put_wire W (case its of [] \<Rightarrow> WEnd | next # _ \<Rightarrow> WHeader (it_id next) (it_token next)) out2 of
                         (False, out3) \<Rightarrow> (Some ''failed to send next file header or final delimiter'', out3)
                       | (True, out3) \<Rightarrow>
                           (case check_ack (it_id it) (we_ack W n) of
                              Some e \<Rightarrow> (Some e, out3)
                            | None \<Rightarrow> send_queue W (Suc n) True its out3)))))"

definition send_files :: "wire_env \<Rightarrow> rtc_sender \<Rightarrow> string option \<times> wire list \<times> rtc_sender" where
  "send_files W s =
     (if \<not> ss_peer s then (Some ''data channel not initialized'', [], s)
      else
        let q = prepare_send_queue s
        in (case (if q = [] then put_wire W WEnd [] else (True, [])) of
              (False, out) \<Rightarrow> (Some ''failed to send final delimiter'', out, s)
            | (True, out) \<Rightarrow>
                (case send_queue W 0 False q out of
                   (Some e, out1) \<Rightarrow> (Some e, out1, s)
                 | (None, out1) \<Rightarrow>
                     if we_flush_closed W then (Some ''peer connection closed while flushing send buffer'', out1, s)
                     else (None, out1, s\<lparr>ss_state := SndDone\<rparr>))))"

end
