(* ===== verification/RTC_Wire.thy ===== *)
theory RTC_Wire
  imports RTC_Sender "HOL-Library.Sublist"
begin

text \<open>
  What the pipelined loop of the WebRTC sender puts on the wire: in every outcome a prefix of the
  files one after the other, each with its header first and cut into full frames, then the end; on
  success all of it, every file acknowledged in its order.
\<close>

subsection \<open>The wire\<close>

function chunks :: "bytes \<Rightarrow> bytes list" where
  "chunks d = (if d = [] then [] else take chunk_size d # chunks (drop chunk_size d))"
  by pat_completeness auto
termination
  by (relation "measure length") (auto simp: chunk_size_def)

declare chunks.simps [simp del]

lemma concat_chunks: "concat (chunks d) = d"
  by (induction d rule: chunks.induct) (subst chunks.simps, simp)

lemma chunks_small: "f \<in> set (chunks d) \<Longrightarrow> f \<noteq> [] \<and> length f \<le> chunk_size"
proof (induction d rule: chunks.induct)
  case (1 d)
  then show ?case by (subst (asm) chunks.simps) (auto simp: chunk_size_def split: if_splits)
qed

lemma chunks_number: "length (chunks d) = (length d + chunk_size - 1) div chunk_size"
proof (induction d rule: chunks.induct)
  case (1 d)
  show ?case
  proof (cases "d = []")
    case True
    then show ?thesis by (simp add: chunks.simps chunk_size_def)
  next
    case False
    have "length (chunks d) = Suc (length (chunks (drop chunk_size d)))"
      using False by (simp add: chunks.simps [of d])
    also have "\<dots> = Suc ((length d - chunk_size + chunk_size - 1) div chunk_size)"
      using "1.IH" [OF False] by simp
    also have "\<dots> = (length d + chunk_size - 1) div chunk_size"
    proof -
      obtain k where k: "length d = Suc k" using False by (cases d) simp_all
      show ?thesis
      proof (cases "length d \<le> chunk_size")
        case True
        have "(length d + chunk_size - 1) div chunk_size = 1"
          using True unfolding k by (intro div_nat_eqI) (simp_all add: chunk_size_def)
        with True show ?thesis by (simp add: chunk_size_def)
      next
        case False
        define m where "m = length d - chunk_size"
        have m: "length d = m + chunk_size" using False by (simp add: m_def)
        have "(m + chunk_size + chunk_size - 1) div chunk_size = ((m + chunk_size - 1) + chunk_size) div chunk_size"
          by (simp add: chunk_size_def)
        also have "\<dots> = Suc ((m + chunk_size - 1) div chunk_size)" by (simp add: chunk_size_def)
        finally show ?thesis unfolding m by simp
      qed
    qed
    finally show ?thesis .
  qed
qed

lemma put_wire_ok: "put_wire W w out = (True, out') \<longleftrightarrow> \<not> we_fails W (length out) \<and> out' = out @ [w]"
  by (auto simp: put_wire_def)

lemma send_frames_ok: "send_frames W d out = (True, out') \<Longrightarrow> out' = out @ map WData (chunks d)"
proof (induction W d out rule: send_frames.induct)
  case (1 W d out)
  show ?case
  proof (cases "d = []")
    case True
    with "1.prems" show ?thesis by (simp add: send_frames.simps chunks.simps)
  next
    case False
    with "1.prems" have f: "\<not> we_fails W (length out)"
      "send_frames W (drop chunk_size d) (out @ [WData (take chunk_size d)]) = (True, out')"
      by (auto simp: send_frames.simps [of W d] put_wire_def split: if_splits)
    then have "out' = (out @ [WData (take chunk_size d)]) @ map WData (chunks (drop chunk_size d))"
      by (intro "1.IH" [OF False]) (simp_all add: put_wire_def)
    with False show ?thesis by (simp add: chunks.simps [of d])
  qed
qed

lemma send_blocks_ok:
  "send_blocks W bs out = (True, out') \<Longrightarrow> out' = out @ map WData (concat (map chunks bs))"
proof (induction bs arbitrary: out)
  case (Cons b bs)
  then obtain out1 where "send_frames W b out = (True, out1)" "send_blocks W bs out1 = (True, out')"
    by (auto split: prod.splits bool.splits)
  with send_frames_ok [of W b out out1] Cons.IH [of out1] show ?case by simp
qed simp

text \<open>What the sender reads of a file, and the frames it makes of it.\<close>

definition item_read :: "wire_env \<Rightarrow> snd_item \<Rightarrow> (bytes list \<times> bool) option" where
  "item_read W it = (case sf_content (it_file it) of Some c \<Rightarrow> Some ([c], False) | None \<Rightarrow> we_read W (it_file it))"

definition item_bytes :: "wire_env \<Rightarrow> snd_item \<Rightarrow> bytes" where
  "item_bytes W it = (case item_read W it of None \<Rightarrow> [] | Some (bs, e) \<Rightarrow> concat bs)"

definition item_frames :: "wire_env \<Rightarrow> snd_item \<Rightarrow> bytes list" where
  "item_frames W it = (case item_read W it of None \<Rightarrow> [] | Some (bs, e) \<Rightarrow> concat (map chunks bs))"

lemma concat_frames: "concat (item_frames W it) = item_bytes W it"
proof -
  have "concat (concat (map chunks bs)) = concat bs" for bs
    by (induction bs) (simp_all add: concat_chunks)
  then show ?thesis by (simp add: item_frames_def item_bytes_def split: option.split prod.split)
qed

text \<open>The files one after the other, each with its header first, then the end.\<close>

fun wire_of :: "wire_env \<Rightarrow> snd_item list \<Rightarrow> wire list" where
  "wire_of W [] = [WEnd]"
| "wire_of W (it # its) = WHeader (it_id it) (it_token it) # map WData (item_frames W it) @ wire_of W its"

definition acked :: "ack \<Rightarrow> string \<Rightarrow> bool" where
  "acked a i \<longleftrightarrow> (\<exists>r. a = AckResult r \<and> sr_id r = i \<and> sr_success r)"

lemma check_ack_ok: "check_ack i a = None \<longleftrightarrow> acked a i"
  by (auto simp: check_ack_def acked_def split: ack.split)

lemma send_queue_ok:
  assumes "send_queue W n pre q out = (None, out')" "q \<noteq> []"
  shows "out' = out @ (if pre then tl (wire_of W q) else wire_of W q) \<and>
    (\<forall>k<length q. acked (we_ack W (n + k)) (it_id (q ! k)))"
  using assms
proof (induction q arbitrary: n pre out)
  case step: (Cons it its)
  from step.prems(1) obtain bs where read: "item_read W it = Some (bs, False)"
    by (auto simp: item_read_def split: option.splits prod.splits bool.splits if_splits)
  let ?hd = "if pre then (True, out) else put_wire W (WHeader (it_id it) (it_token it)) out"
  let ?next = "case its of [] \<Rightarrow> WEnd | next # _ \<Rightarrow> WHeader (it_id next) (it_token next)"
  from step.prems(1) read obtain out1 out2 where
    1: "?hd = (True, out1)" and 2: "send_blocks W bs out1 = (True, out2)"
    and 3: "put_wire W ?next out2 = (True, out2 @ [?next])" and 4: "check_ack (it_id it) (we_ack W n) = None"
    and 5: "send_queue W (Suc n) True its (out2 @ [?next]) = (None, out')"
    unfolding send_queue.simps item_read_def [symmetric]
    by (simp split: prod.splits bool.splits option.splits if_splits) (auto simp: put_wire_def split: if_splits)
  have o1: "out1 = out @ (if pre then [] else [WHeader (it_id it) (it_token it)])"
    using 1 by (auto simp: put_wire_def split: if_splits)
  have o2: "out2 = out1 @ map WData (item_frames W it)"
    using send_blocks_ok [OF 2] read by (simp add: item_frames_def)
  show ?case
  proof (cases its)
    case Nil
    with 5 o1 o2 4 show ?thesis by (auto simp: check_ack_ok)
  next
    case (Cons it2 its2)
    then have "out' = (out2 @ [?next]) @ tl (wire_of W its) \<and> (\<forall>k<length its. acked (we_ack W (Suc n + k)) (it_id (its ! k)))"
      using step.IH [OF 5] by simp
    moreover have "acked (we_ack W (n + k)) (it_id ((it # its) ! k))" if "k < length (it # its)"
      "\<forall>k<length its. acked (we_ack W (Suc n + k)) (it_id (its ! k))" for k
      using that 4 by (cases k) (auto simp: check_ack_ok)
    ultimately show ?thesis using o1 o2 Cons by auto
  qed
qed simp

text \<open>Whatever happens, what was sent is a prefix of this.\<close>

lemma put_wire_prefix: "put_wire W w out = (ok, out') \<Longrightarrow> \<exists>l. out' = out @ l \<and> prefix l [w] \<and> (ok \<longrightarrow> l = [w])"
  by (auto simp: put_wire_def split: if_splits)

lemma send_frames_prefix:
  "send_frames W d out = (ok, out') \<Longrightarrow> \<exists>l. out' = out @ map WData l \<and> prefix l (chunks d) \<and> (ok \<longrightarrow> l = chunks d)"
proof (induction W d out arbitrary: out' rule: send_frames.induct)
  case (1 W d out)
  show ?case
  proof (cases "d = []")
    case True
    with "1.prems" show ?thesis by (simp add: send_frames.simps chunks.simps)
  next
    case False
    show ?thesis
    proof (cases "we_fails W (length out)")
      case True
      with False "1.prems" show ?thesis by (auto simp: send_frames.simps [of W d] put_wire_def)
    next
      case ok: False
      with False "1.prems" have "send_frames W (drop chunk_size d) (out @ [WData (take chunk_size d)]) = (ok, out')"
        by (simp add: send_frames.simps [of W d] put_wire_def)
      from "1.IH" [OF False _ refl this] ok obtain l where "out' = (out @ [WData (take chunk_size d)]) @ map WData l"
        "prefix l (chunks (drop chunk_size d))" "ok \<longrightarrow> l = chunks (drop chunk_size d)"
        by (auto simp: put_wire_def)
      with False show ?thesis
        by (intro exI [of _ "take chunk_size d # l"]) (simp add: chunks.simps [of d])
    qed
  qed
qed

lemma send_blocks_prefix:
  "send_blocks W bs out = (ok, out') \<Longrightarrow>
     \<exists>l. out' = out @ map WData l \<and> prefix l (concat (map chunks bs)) \<and> (ok \<longrightarrow> l = concat (map chunks bs))"
proof (induction bs arbitrary: out)
  case (Cons b bs)
  obtain ok1 out1 where f: "send_frames W b out = (ok1, out1)" by fastforce
  note p = send_frames_prefix [OF f]
  show ?case
  proof (cases ok1)
    case True
    with f Cons.prems have "send_blocks W bs out1 = (ok, out')" by simp
    with Cons.IH [of out1] obtain l where "out' = out1 @ map WData l" "prefix l (concat (map chunks bs))"
      "ok \<longrightarrow> l = concat (map chunks bs)" by blast
    with p True show ?thesis by (intro exI [of _ "chunks b @ l"]) auto
  next
    case False
    with f Cons.prems have "\<not> ok" "out' = out1" by auto
    with p show ?thesis by (auto simp: prefix_def)
  qed
qed simp

lemma wire_of_tl: "wire_of W (it # its) = [WHeader (it_id it) (it_token it)] @ map WData (item_frames W it) @
    [case its of [] \<Rightarrow> WEnd | next # _ \<Rightarrow> WHeader (it_id next) (it_token next)] @ tl (wire_of W its)"
  by (cases its) simp_all

lemma send_queue_prefix:
  assumes "send_queue W n pre q out = (e, out')" "q \<noteq> []"
  shows "\<exists>l. out' = out @ l \<and> prefix l (if pre then tl (wire_of W q) else wire_of W q)"
  using assms
proof (induction q arbitrary: n pre out)
  case step: (Cons it its)
  let ?H = "WHeader (it_id it) (it_token it)"
  let ?h = "if pre then [] else [?H]"
  let ?next = "case its of [] \<Rightarrow> WEnd | next # _ \<Rightarrow> WHeader (it_id next) (it_token next)"
  let ?rest = "map WData (item_frames W it) @ [?next] @ tl (wire_of W its)"
  have goal: "(if pre then tl (wire_of W (it # its)) else wire_of W (it # its)) = ?h @ ?rest"
    unfolding wire_of_tl by simp
  show ?case
  proof (cases "item_read W it")
    case None
    with step.prems(1) show ?thesis unfolding goal by (simp add: item_read_def)
  next
    case (Some x)
    obtain bs rerr where x: "x = (bs, rerr)" by fastforce
    have frames: "concat (map chunks bs) = item_frames W it" using Some x by (simp add: item_frames_def)
    obtain ok1 out1 where h: "(if pre then (True, out) else put_wire W ?H out) = (ok1, out1)" by fastforce
    obtain ok2 out2 where b: "send_blocks W bs out1 = (ok2, out2)" by fastforce
    obtain ok3 out3 where t: "put_wire W ?next out2 = (ok3, out3)" by fastforce
    have q: "send_queue W n pre (it # its) out =
       (if \<not> ok1 then (Some ''failed to send file header'', out1)
        else if \<not> ok2 then (Some ''failed to send data'', out2)
        else if rerr then (Some ''failed to read file'', out2)
        else if \<not> ok3 then (Some ''failed to send next file header or final delimiter'', out3)
        else case check_ack (it_id it) (we_ack W n) of Some e \<Rightarrow> (Some e, out3) | None \<Rightarrow> send_queue W (Suc n) True its out3)"
      unfolding send_queue.simps item_read_def [symmetric] Some x option.case prod.case h b t by simp
    obtain l1 where 1: "out1 = out @ l1" "prefix l1 ?h" "ok1 \<longrightarrow> l1 = ?h"
      using h put_wire_prefix [of W ?H out] by (cases pre) auto
    obtain l2 where 2: "out2 = out1 @ map WData l2" "prefix l2 (item_frames W it)" "ok2 \<longrightarrow> l2 = item_frames W it"
      using send_blocks_prefix [OF b] unfolding frames by blast
    obtain l3 where 3: "out3 = out2 @ l3" "prefix l3 [?next]" "ok3 \<longrightarrow> l3 = [?next]"
      using put_wire_prefix [OF t] by blast
    have p2: "prefix (map WData l2) (map WData (item_frames W it))" using 2(2) by (simp add: map_mono_prefix)
    consider (header) "\<not> ok1" "out' = out1" | (data) "ok1" "out' = out2"
      | (last) "ok1" "ok2" "out' = out3" | (more) "ok1" "ok2" "ok3" "send_queue W (Suc n) True its out3 = (e, out')"
      using step.prems(1) unfolding q by (auto split: if_splits option.splits)
    then show ?thesis
    proof cases
      case header
      with 1(1) prefix_prefix [OF 1(2), of ?rest] show ?thesis unfolding goal by blast
    next
      case data
      have "prefix (map WData l2) ?rest" by (rule prefix_prefix [OF p2])
      with data 1 2(1) show ?thesis unfolding goal by (intro exI [of _ "?h @ map WData l2"]) simp
    next
      case last
      have "prefix l3 ([?next] @ tl (wire_of W its))" by (rule prefix_prefix [OF 3(2)])
      with last 1 2 3 show ?thesis unfolding goal
        by (intro exI [of _ "?h @ map WData (item_frames W it) @ l3"]) simp
    next
      case more
      have "\<exists>l. out' = out3 @ l \<and> prefix l (tl (wire_of W its))"
        using step.IH [OF more(4)] more(4) by (cases its) auto
      with more 1 2 3 show ?thesis unfolding goal by auto
    qed
  qed
qed simp

end
