(* ===== verification/RTC_Handlers.thy ===== *)
theory RTC_Handlers
  imports RTC_Receiver
begin

text \<open>
  The message handlers of \<open>receiver.go\<close>: the handshake (nonce, token, PIN, file list, pairing) and
  the reception of files. \<open>handle_data_message\<close> is the entry point the data channel calls;
  \<open>begin_data_message\<close> is the same up to the point where \<open>handleFileList\<close> releases the mutex.
\<close>

subsection \<open>One file\<close>

definition reject_file_transfer :: "rtc_receiver \<Rightarrow> rtc_receiver" where
  "reject_file_transfer r = r\<lparr>rr_peer := None, rr_current := [], rr_state := WaitFiles\<rparr>"

definition validate_file_header :: "string \<Rightarrow> string \<Rightarrow> rtc_receiver \<Rightarrow> bool" where
  "validate_file_header i token r \<longleftrightarrow> map_of (rr_tokens r) i = Some token"

definition start_receiving_file :: "rtc_env \<Rightarrow> string \<Rightarrow> string \<Rightarrow> rtc_receiver \<Rightarrow> rtc_receiver" where
  "start_receiving_file E i token r =
     (if \<not> validate_file_header i token r then reject_file_transfer r
      else
        (case file_meta_by_id i r of
           (None, r1) \<Rightarrow> reject_file_transfer r1
         | (Some meta, r1) \<Rightarrow>
             (case sanitize_path_with_fallback (rf_name meta) of
                Inl _ \<Rightarrow> reject_file_transfer r1
              | Inr p0 \<Rightarrow>
                  let p = rtc_apply_folder_remap r1 p0
                  in (case rtc_save_dir E (rf_name meta) r1 of
                        (dir, r2) \<Rightarrow>
                          let full = full_save_dir dir p
                          in (case rtc_ensure_save_dir E full r2 of
                                (False, r3) \<Rightarrow> reject_file_transfer r3
                              | (True, r3) \<Rightarrow>
                                  (case alloc_create (env_io E) full (path_base p) (rr_unique r3) (rr_disk r3) of
                                     (None, a) \<Rightarrow> reject_file_transfer (r3\<lparr>rr_unique := a\<rparr>)
                                   | (Some (path, fs), a) \<Rightarrow>
                                       mark_transfer_started E
                                         (r3\<lparr>rr_unique := a, rr_disk := fs,
                                             rr_buffers := AList.update i ([], False) (rr_buffers r3),
                                             rr_paths := AList.update i path (rr_paths r3),
                                             rr_hashers := (if rf_sha meta \<noteq> [] then AList.update i [] (rr_hashers r3)
                                                            else rr_hashers r3),
                                             rr_current := i, rr_bytes := 0,
                                             rr_state := ReceivingFiles\<rparr>)))))))"

definition cleanup_current_file :: "rtc_env \<Rightarrow> rtc_receiver \<Rightarrow> rtc_receiver" where
  "cleanup_current_file E r =
     (let i = rr_current r;
          disk = (case map_of (rr_paths r) i of
                    Some path \<Rightarrow> if path \<noteq> [] then remove_file (env_io E) path (rr_disk r) else rr_disk r
                  | None \<Rightarrow> rr_disk r)
      in (mark_transfer_done
            (r\<lparr>rr_disk := disk, rr_buffers := AList.delete i (rr_buffers r),
               rr_paths := AList.delete i (rr_paths r), rr_hashers := AList.delete i (rr_hashers r)\<rparr>))
           \<lparr>rr_current := [], rr_bytes := 0\<rparr>)"

text \<open>
  A write that fails is only logged; the buffered writer keeps the error and reports it again when
  the file is finished. The fallback for a raw file writer, which only tests install, is left out.
\<close>

definition handle_binary_data :: "rtc_env \<Rightarrow> bytes \<Rightarrow> rtc_receiver \<Rightarrow> rtc_receiver" where
  "handle_binary_data E data r =
     (case file_meta_by_id (rr_current r) r of
        (None, r1) \<Rightarrow> reject_file_transfer (cleanup_current_file E r1)
      | (Some meta, r1) \<Rightarrow>
          if rf_size meta - rr_bytes r1 < int (length data)
          then reject_file_transfer (cleanup_current_file E r1)
          else
            (case map_of (rr_buffers r1) (rr_current r1) of
               None \<Rightarrow> r1
             | Some (content, bad) \<Rightarrow>
                 if bad \<or> write_fails E
                 then r1\<lparr>rr_buffers := AList.update (rr_current r1) (content, True) (rr_buffers r1)\<rparr>
                 else
                   r1\<lparr>rr_buffers := AList.update (rr_current r1) (content @ data, False) (rr_buffers r1),
                      rr_bytes := rr_bytes r1 + int (length data),
                      rr_hashers :=
                        (case map_of (rr_hashers r1) (rr_current r1) of
                           Some h \<Rightarrow> AList.update (rr_current r1) (h @ data) (rr_hashers r1)
                         | None \<Rightarrow> rr_hashers r1)\<rparr>))"

definition finish_current_file :: "rtc_env \<Rightarrow> rtc_receiver \<Rightarrow> rtc_receiver" where
  "finish_current_file E r =
     (if rr_current r = [] then r
      else
        (case file_meta_by_id (rr_current r) r of
           (meta, r1) \<Rightarrow>
             let i = rr_current r;
                 sized = (case meta of None \<Rightarrow> False | Some m \<Rightarrow> rr_bytes r1 = rf_size m);
                 buffered = map_of (rr_buffers r1) i;
                 flushed = (case buffered of None \<Rightarrow> True | Some (c, bad) \<Rightarrow> \<not> bad \<and> \<not> flush_fails E \<and> \<not> close_fails E);
                 path = map_of (rr_paths r1) i;
                 hashed = (case (map_of (rr_hashers r1) i, meta) of
                             (Some h, Some m) \<Rightarrow> rf_sha m = [] \<or> re_sha E h = rf_sha m
                           | _ \<Rightarrow> True);
                 success = (sized \<and> flushed \<and> hashed);
                 err = (if \<not> hashed then Some ''checksum mismatch''
                        else if \<not> flushed then Some ''failed to save file''
                        else if \<not> sized then Some ''file size does not match declaration'' else None);
                 disk1 = (case (buffered, path) of
                            (Some (c, bad), Some q) \<Rightarrow>
                              write_file q (if flushed then c else take (partial_write E) c) (rr_disk r1)
                          | _ \<Rightarrow> rr_disk r1);
                 disk = (case path of
                           Some q \<Rightarrow> if success then disk1 else remove_file (env_io E) q disk1
                         | None \<Rightarrow> disk1);
                 got = (case (path, meta) of
                          (Some q, Some m) \<Rightarrow>
                            if success then rr_received r1 @ [(path_base q, rf_size m)] else rr_received r1
                        | _ \<Rightarrow> rr_received r1);
                 r2 = r1\<lparr>rr_disk := disk, rr_received := got,
                         rr_buffers := AList.delete i (rr_buffers r1),
                         rr_hashers := AList.delete i (rr_hashers r1),
                         rr_paths := AList.delete i (rr_paths r1)\<rparr>
             in (mark_transfer_done
                   (try_send E (OutFileResponse \<lparr>sr_id = i, sr_success = success, sr_error = err\<rparr>) r2))
                  \<lparr>rr_current := [], rr_bytes := 0\<rparr>))"

subsection \<open>The handshake\<close>

definition handle_nonce :: "rtc_env \<Rightarrow> rtc_msg \<Rightarrow> rtc_receiver \<Rightarrow> rtc_receiver" where
  "handle_nonce E msg r =
     (case msg of
        MNonce n \<Rightarrow>
          (case decode_nonce n of
             None \<Rightarrow> try_send E (OutError ''invalid nonce format'') r
           | Some remote \<Rightarrow>
               let r1 = r\<lparr>rr_remote_nonce := remote\<rparr>
               in (case re_nonce E of
                     None \<Rightarrow> try_send E (OutError ''internal error: nonce generation failed'') r1
                   | Some local \<Rightarrow>
                       let r2 = r1\<lparr>rr_local_nonce := local, rr_final_nonce := combine_nonces remote local\<rparr>
                       in (case send_msg E (OutNonce (encode_nonce local)) r2 of
                             (True, r3) \<Rightarrow> r3\<lparr>rr_state := WaitToken\<rparr>
                           | (False, r3) \<Rightarrow> r3)))
      | _ \<Rightarrow> r)"

text \<open>The first trusted key, in the order in which the map is visited, that the token verifies under.\<close>

fun matching_key ::
    "rtc_env \<Rightarrow> string \<Rightarrow> bytes \<Rightarrow> (string \<times> string) list \<Rightarrow> (verifying_key \<times> string) option" where
  "matching_key E token nonce [] = None"
| "matching_key E token nonce ((fp, pem) # ks) =
     (case re_parse_pem E pem of
        None \<Rightarrow> matching_key E token nonce ks
      | Some key \<Rightarrow>
          if verify_token_nonce (re_ops E) key token nonce = None then Some (key, pem)
          else matching_key E token nonce ks)"

definition find_trusted_sender :: "rtc_env \<Rightarrow> string \<Rightarrow> rtc_receiver \<Rightarrow> (verifying_key \<times> string) option" where
  "find_trusted_sender E token r =
     (case rr_trusted r of
        None \<Rightarrow> None
      | Some s \<Rightarrow> matching_key E token (rr_final_nonce r) (list_public_keys s))"

definition handle_token :: "rtc_env \<Rightarrow> rtc_msg \<Rightarrow> rtc_receiver \<Rightarrow> rtc_receiver" where
  "handle_token E msg r =
     (case msg of
        MTokenRequest token \<Rightarrow>
          let r1 = r\<lparr>rr_sender_token := token\<rparr>;
              r2 = (if rr_sender_key r1 = None \<and> rr_trusted r1 \<noteq> None \<and> rr_require_pairing r1
                    then (case find_trusted_sender E token r1 of
                            Some (key, pem) \<Rightarrow> r1\<lparr>rr_sender_key := Some key, rr_sender_pem := pem\<rparr>
                          | None \<Rightarrow> r1)
                    else r1)
          in (case rr_sender_key r2 of
                Some key \<Rightarrow>
                  if verify_token_nonce (re_ops E) key token (rr_final_nonce r2) \<noteq> None
                  then terminate E (try_send E (OutTokenResponse status_invalid_signature []) r2)
                  else
                    (case generate_token_with_nonce (re_ops E) (re_key E) (rr_final_nonce r2) of
                       None \<Rightarrow> try_send E (OutError ''internal error: token generation failed'') r2
                     | Some t \<Rightarrow>
                         (try_send E (OutTokenResponse (if rr_pin r2 \<noteq> [] then status_pin_required else status_ok) t) r2)
                           \<lparr>rr_state := (if rr_pin r2 \<noteq> [] then WaitPin else WaitFileList)\<rparr>)
              | None \<Rightarrow>
                  (case generate_token_with_nonce (re_ops E) (re_key E) (rr_final_nonce r2) of
                     None \<Rightarrow> try_send E (OutError ''internal error: token generation failed'') r2
                   | Some t \<Rightarrow>
                       (try_send E (OutTokenResponse (if rr_pin r2 \<noteq> [] then status_pin_required else status_ok) t) r2)
                         \<lparr>rr_state := (if rr_pin r2 \<noteq> [] then WaitPin else WaitFileList)\<rparr>))
      | _ \<Rightarrow> r)"

definition handle_pin :: "rtc_env \<Rightarrow> rtc_msg \<Rightarrow> rtc_receiver \<Rightarrow> rtc_receiver" where
  "handle_pin E msg r =
     (case msg of
        MPin pin \<Rightarrow>
          if pin = rr_pin r then (try_send E (OutPinResponse status_ok) r)\<lparr>rr_state := WaitFileList\<rparr>
          else
            let r1 = r\<lparr>rr_pin_attempts := rr_pin_attempts r + 1\<rparr>
            in if max_pin_attempts \<le> rr_pin_attempts r1 then
                 let r2 = (if rr_sender_id r1 \<noteq> []
                           then r1\<lparr>rr_blocked := block_peer (re_now E) (rr_sender_id r1) (rr_blocked r1)\<rparr> else r1)
                 in terminate E (try_send E (OutPinResponse status_too_many_attempts) r2)
               else try_send E (OutPinResponse status_pin_required) r1
      | _ \<Rightarrow> r)"

text \<open>Sending the accepted files with their tokens, and the delimiter after it.\<close>

definition accept_files_now :: "rtc_env \<Rightarrow> rtc_receiver \<Rightarrow> rtc_receiver" where
  "accept_files_now E r =
     (case prepare_files_for_receive E (rr_accepted r) r of
        (tokens, r1) \<Rightarrow>
          (case send_chunked E (OutFileList status_ok tokens []) r1 of
             (True, r2) \<Rightarrow> r2\<lparr>rr_state := WaitFiles\<rparr>
           | (False, r2) \<Rightarrow> r2))"

text \<open>
  \<open>handleFileList\<close> releases the mutex while it asks the user: for a PIN of the sender, and for the files to
  accept. What the handler still knows when it takes the mutex again is a value of type \<open>asking\<close>: the callback
  it copied, and the attempt or the files it asks about. \<open>begin_file_list\<close> is the part before the question (\<open>j\<close>
  is the parsed value of the message) and \<open>resume_file_list\<close> the part after it, which works on whatever the
  receiver is then. \<open>handle_file_list\<close> is the handler whose question is answered before anything else happens;
  the runs of \<open>RTC_Net\<close> put other steps between the two parts.
\<close>

datatype asking =
    AskingPin "nat \<Rightarrow> string" nat
  | SelectingFiles "rtc_file list \<Rightarrow> string list" "rtc_file list"

definition answer_pin :: "rtc_env \<Rightarrow> string \<Rightarrow> rtc_receiver \<Rightarrow> rtc_receiver" where
  "answer_pin E pin r = (case send_msg E (OutPin pin) r of (True, r1) \<Rightarrow> r1 | (False, r1) \<Rightarrow> terminate E r1)"

definition answer_file_list :: "rtc_env \<Rightarrow> string list \<Rightarrow> rtc_receiver \<Rightarrow> rtc_receiver" where
  "answer_file_list E ids r =
     (let r1 = r\<lparr>rr_accepted := ids\<rparr>
      in if rr_peer r1 = None then r1
         else if ids = [] then try_chunked E (OutFileList status_declined [] []) r1
         else if rr_require_pairing r1 \<and> rr_sender_key r1 = None then
           (case send_chunked E (OutFileList status_pair [] (re_key_pem E)) r1 of
              (True, r2) \<Rightarrow> r2\<lparr>rr_state := WaitPairResponse\<rparr>
            | (False, r2) \<Rightarrow> r2)
         else accept_files_now E r1)"

definition begin_file_list :: "rtc_env \<Rightarrow> rtc_msg \<Rightarrow> json \<Rightarrow> rtc_receiver \<Rightarrow> rtc_receiver \<times> asking option" where
  "begin_file_list E msg j r =
     (if msg_type msg = ''status_PIN_REQUIRED'' then
        let r1 = r\<lparr>rr_provided_pins := rr_provided_pins r + 1\<rparr>
        in (case re_pin_answer E of
              Some f \<Rightarrow> (r1, Some (AskingPin f (rr_provided_pins r1)))
            | None \<Rightarrow> (answer_pin E (rr_pin r1) r1, None))
      else if msg_type msg = ''status_TOO_MANY_ATTEMPTS'' then (terminate E r, None)
      else if msg_type msg \<noteq> ''file_list'' \<and> msg_type msg \<noteq> ''status_OK'' then (r, None)
      else
        (case decode_file_list j of
           None \<Rightarrow> (r, None)
         | Some (st, files) \<Rightarrow>
             if max_files_per_session < length files
             then (try_chunked E (OutFileList status_declined [] []) r, None)
             else
               let r1 = snd (rtc_folder_transfer
                          ((rebuild_file_index (r\<lparr>rr_files := files\<rparr>))\<lparr>rr_folder_known := False\<rparr>))
               in (case re_select E of
                     Some f \<Rightarrow> (r1, Some (SelectingFiles f files))
                   | None \<Rightarrow> (answer_file_list E (map rf_id files) r1, None))))"

fun resume_file_list :: "rtc_env \<Rightarrow> asking \<Rightarrow> rtc_receiver \<Rightarrow> rtc_receiver" where
  "resume_file_list E (AskingPin f n) r = answer_pin E (f n) r"
| "resume_file_list E (SelectingFiles f files) r = answer_file_list E (f files) r"

definition handle_file_list :: "rtc_env \<Rightarrow> rtc_msg \<Rightarrow> json \<Rightarrow> rtc_receiver \<Rightarrow> rtc_receiver" where
  "handle_file_list E msg j r =
     (case begin_file_list E msg j r of (r1, None) \<Rightarrow> r1 | (r1, Some k) \<Rightarrow> resume_file_list E k r1)"

lemma handle_file_list_eq:
  "handle_file_list E msg j r =
     (if msg_type msg = ''status_PIN_REQUIRED'' then
        let r1 = r\<lparr>rr_provided_pins := rr_provided_pins r + 1\<rparr>;
            pin = (case re_pin_answer E of Some f \<Rightarrow> f (rr_provided_pins r1) | None \<Rightarrow> rr_pin r1)
        in (case send_msg E (OutPin pin) r1 of (True, r2) \<Rightarrow> r2 | (False, r2) \<Rightarrow> terminate E r2)
      else if msg_type msg = ''status_TOO_MANY_ATTEMPTS'' then terminate E r
      else if msg_type msg \<noteq> ''file_list'' \<and> msg_type msg \<noteq> ''status_OK'' then r
      else
        (case decode_file_list j of
           None \<Rightarrow> r
         | Some (st, files) \<Rightarrow>
             if max_files_per_session < length files
             then try_chunked E (OutFileList status_declined [] []) r
             else
               let r1 = snd (rtc_folder_transfer
                          ((rebuild_file_index (r\<lparr>rr_files := files\<rparr>))\<lparr>rr_folder_known := False\<rparr>));
                   ids = (case re_select E of Some f \<Rightarrow> f files | None \<Rightarrow> map rf_id files);
                   r2 = r1\<lparr>rr_accepted := ids\<rparr>
               in if rr_peer r2 = None then r2
                  else if ids = [] then try_chunked E (OutFileList status_declined [] []) r2
                  else if rr_require_pairing r2 \<and> rr_sender_key r2 = None then
                    (case send_chunked E (OutFileList status_pair [] (re_key_pem E)) r2 of
                       (True, r3) \<Rightarrow> r3\<lparr>rr_state := WaitPairResponse\<rparr>
                     | (False, r3) \<Rightarrow> r3)
                  else accept_files_now E r2))"
proof (cases "msg_type msg = ''status_PIN_REQUIRED''")
  case True
  then show ?thesis
    by (simp only: handle_file_list_def begin_file_list_def answer_pin_def Let_def if_True)
       (cases "re_pin_answer E"; simp add: answer_pin_def)
next
  case pin: False
  show ?thesis
  proof (cases "decode_file_list j")
    case None
    with pin show ?thesis by (simp add: handle_file_list_def begin_file_list_def)
  next
    case (Some x)
    obtain st files where x: "x = (st, files)" by fastforce
    show ?thesis
      unfolding handle_file_list_def begin_file_list_def Some x option.case prod.case Let_def
      by (cases "re_select E") (simp_all only: pin if_False if_distrib [of "\<lambda>y. case y of (r1, None) \<Rightarrow> r1 | (r1, Some k) \<Rightarrow> resume_file_list E k r1"]
        prod.case option.case resume_file_list.simps answer_file_list_def Let_def)
  qed
qed

text \<open>
  \<open>handlePairResponse\<close>. Persisting the device may panic on a store whose file held \<open>null\<close>; a
  failed save is only logged. \<open>vis\<close> is the order in which the store's map is visited.
\<close>

definition handle_pair_response :: "rtc_env \<Rightarrow> rtc_msg \<Rightarrow> json \<Rightarrow> rtc_receiver \<Rightarrow> rtc_receiver option" where
  "handle_pair_response E msg j r =
     (if msg_type msg \<noteq> ''pair_response'' \<and> msg_type msg \<noteq> ''status_OK'' \<and>
         msg_type msg \<noteq> ''status_PAIR_DECLINED'' \<and> msg_type msg \<noteq> ''status_INVALID_SIGNATURE'' then Some r
      else
        (case decode_pair_response j of
           None \<Rightarrow> Some r
         | Some resp \<Rightarrow>
             if pp_status resp = ''OK'' then
               (if pp_public_key resp = [] then Some (accept_files_now E r)
                else
                  (case re_parse_pem E (pp_public_key resp) of
                     None \<Rightarrow> Some r
                   | Some key \<Rightarrow>
                       if rr_sender_token r \<noteq> [] \<and>
                          verify_token_nonce (re_ops E) key (rr_sender_token r) (rr_final_nonce r) \<noteq> None
                       then Some r
                       else
                         let r1 = r\<lparr>rr_sender_key := Some key, rr_sender_pem := pp_public_key resp\<rparr>
                         in (case rr_trusted r1 of
                               None \<Rightarrow> Some (accept_files_now E r1)
                             | Some s \<Rightarrow>
                                 let d = \<lparr>td_alias = (if rr_sender_alias r1 = [] then ''Unknown Device'' else rr_sender_alias r1),
                                          td_public_key = pp_public_key resp, td_added_at = re_now E div second\<rparr>
                                 in (case store_add (env_store E) (re_encode E) (re_sha E) (device_list s) d s (rr_config_disk r1) of
                                       (StorePanic, s', fs) \<Rightarrow> None
                                     | (_, s', fs) \<Rightarrow>
                                         Some (accept_files_now E (r1\<lparr>rr_trusted := Some s', rr_config_disk := fs\<rparr>))))))
             else if pp_status resp = ''PAIR_DECLINED'' then
               (if rr_require_pairing r then Some (terminate E r) else Some (accept_files_now E r))
             else Some r))"

definition handle_file_header :: "rtc_env \<Rightarrow> rtc_msg \<Rightarrow> rtc_receiver \<Rightarrow> rtc_receiver" where
  "handle_file_header E msg r =
     (case msg of MHeader i token \<Rightarrow> start_receiving_file E i token r | _ \<Rightarrow> r)"

subsection \<open>Data messages\<close>

text \<open>A message that has arrived completely, dispatched on the state. An empty text that is no
  message panics in \<open>WaitFiles\<close>, where the code looks at its first byte.\<close>

definition dispatch_message :: "rtc_env \<Rightarrow> bytes \<Rightarrow> rtc_receiver \<Rightarrow> rtc_receiver option" where
  "dispatch_message E data r =
     (case parse_rtc_message (re_parse E) data of
        None \<Rightarrow>
          (if rr_state r = WaitFiles then
             (case data of
                [] \<Rightarrow> None
              | c # _ \<Rightarrow> if c \<noteq> CHR 0x7B then Some (handle_binary_data E data r) else Some r)
           else Some r)
      | Some msg \<Rightarrow>
          let j = the (re_parse E data)
          in (case rr_state r of
                WaitNonce \<Rightarrow> Some (handle_nonce E msg r)
              | WaitToken \<Rightarrow> Some (handle_token E msg r)
              | WaitPin \<Rightarrow> Some (handle_pin E msg r)
              | WaitFileList \<Rightarrow> Some (handle_file_list E msg j r)
              | WaitPairResponse \<Rightarrow> handle_pair_response E msg j r
              | WaitFiles \<Rightarrow> Some (handle_file_header E msg r)
              | _ \<Rightarrow> Some r))"

definition handle_data_message :: "rtc_env \<Rightarrow> bytes \<Rightarrow> bool \<Rightarrow> rtc_receiver \<Rightarrow> rtc_receiver option" where
  "handle_data_message E data is_string r =
     (if rr_state r = ReceivingFiles \<and> rr_current r \<noteq> [] then
        (if \<not> is_string then Some (handle_binary_data E data r)
         else
           let r1 = finish_current_file E r
           in if data = ''0'' then Some (r1\<lparr>rr_state := RtcDone, rr_peer := None\<rparr>)
              else
                (case re_parse E data of
                   None \<Rightarrow> Some (terminate E r1)
                 | Some j \<Rightarrow>
                     (case decode_header j of
                        None \<Rightarrow> Some (terminate E r1)
                      | Some (i, token) \<Rightarrow>
                          if i = [] then Some (terminate E r1)
                          else Some (start_receiving_file E i token r1))))
      else if is_string \<and> data = ''0'' then
        (if rr_control r \<noteq> [] then dispatch_message E (rr_control r) (r\<lparr>rr_control := []\<rparr>) else Some r)
      else if \<not> is_string then
        (if max_control_message_bytes < length (rr_control r) + length data then Some (r\<lparr>rr_control := []\<rparr>)
         else Some (r\<lparr>rr_control := rr_control r @ data\<rparr>))
      else dispatch_message E data r)"

text \<open>
  The control message that is complete with a frame, and the receiver that goes on to dispatch it; none while a file is
  received and for a part of a message.
\<close>

definition completed_message :: "bytes \<Rightarrow> bool \<Rightarrow> rtc_receiver \<Rightarrow> (bytes \<times> rtc_receiver) option" where
  "completed_message data is_string r =
     (if rr_state r = ReceivingFiles \<and> rr_current r \<noteq> [] then None
      else if is_string \<and> data = ''0'' then
        (if rr_control r \<noteq> [] then Some (rr_control r, r\<lparr>rr_control := []\<rparr>) else None)
      else if \<not> is_string then None
      else Some (data, r))"

text \<open>\<open>handleDataMessage\<close> up to a question for the user, if it comes to one.\<close>

definition begin_data_message ::
    "rtc_env \<Rightarrow> bytes \<Rightarrow> bool \<Rightarrow> rtc_receiver \<Rightarrow> (rtc_receiver \<times> asking option) option" where
  "begin_data_message E data is_string r =
     (let whole = map_option (\<lambda>r1. (r1, None)) (handle_data_message E data is_string r)
      in (case completed_message data is_string r of
            None \<Rightarrow> whole
          | Some (d, r1) \<Rightarrow>
              if rr_state r1 \<noteq> WaitFileList then whole
              else
                (case parse_rtc_message (re_parse E) d of
                   None \<Rightarrow> whole
                 | Some msg \<Rightarrow> Some (begin_file_list E msg (the (re_parse E d)) r1))))"

definition resume_asking :: "rtc_env \<Rightarrow> rtc_receiver \<times> asking option \<Rightarrow> rtc_receiver" where
  "resume_asking E x = (case x of (r, None) \<Rightarrow> r | (r, Some k) \<Rightarrow> resume_file_list E k r)"

text \<open>The two parts one after the other are the whole handler.\<close>

lemma handle_data_message_parts:
  "handle_data_message E data is_string r = map_option (resume_asking E) (begin_data_message E data is_string r)"
proof -
  have whole: "map_option (resume_asking E) (map_option (\<lambda>r1. (r1, None)) x) = x" for x
    by (cases x) (simp_all add: resume_asking_def)
  show ?thesis
  proof (cases "completed_message data is_string r")
    case None
    then show ?thesis by (simp add: begin_data_message_def whole)
  next
    case (Some x)
    obtain d r1 where x: "x = (d, r1)" by fastforce
    have h: "handle_data_message E data is_string r = dispatch_message E d r1"
      using Some by (auto simp: x completed_message_def handle_data_message_def split: if_splits)
    show ?thesis
      unfolding h begin_data_message_def Some x option.case prod.case Let_def
      using whole by (auto simp: dispatch_message_def handle_file_list_def resume_asking_def Let_def split: option.split)
  qed
qed

subsection \<open>Accepting an offer\<close>

text \<open>
  \<open>AcceptOffer\<close> releases the mutex between reserving the receiver and installing the connection:
  two steps, and a third when the connection cannot be made.
\<close>

definition reserve_offer ::
    "rtc_env \<Rightarrow> string \<Rightarrow> string \<Rightarrow> rtc_receiver \<Rightarrow> bool \<times> rtc_receiver" where
  "reserve_offer E peer_id alias r =
     (case is_peer_blocked (re_now E) peer_id (rr_blocked r) of
        (True, b) \<Rightarrow> (False, r\<lparr>rr_blocked := b\<rparr>)
      | (False, b) \<Rightarrow>
          if rr_accepting r \<or> (rr_peer r \<noteq> None \<and> rr_state r \<noteq> RtcDone)
          then (False, r\<lparr>rr_blocked := b\<rparr>)
          else
            (True,
             (cleanup_partial_files E (r\<lparr>rr_blocked := b, rr_peer := None, rr_accepting := True\<rparr>))
               \<lparr>rr_tokens := [], rr_files := [], rr_file_by_id := [], rr_accepted := [],
                rr_folder_known := False, rr_folder := False, rr_ensured := [], rr_unique := alloc_reset (rr_unique r),
                rr_control := [], rr_remote_nonce := [], rr_local_nonce := [], rr_final_nonce := [],
                rr_pin_attempts := 0, rr_provided_pins := 0, rr_sender_key := None, rr_sender_pem := [],
                rr_sender_token := [], rr_sender_alias := alias, rr_sender_id := peer_id,
                rr_state := WaitNonce\<rparr>))"

definition fail_accept :: "rtc_receiver \<Rightarrow> rtc_receiver" where
  "fail_accept r = r\<lparr>rr_accepting := False, rr_state := RtcDone\<rparr>"

definition install_peer :: "nat \<Rightarrow> rtc_receiver \<Rightarrow> bool \<times> rtc_receiver" where
  "install_peer p r =
     (if \<not> rr_accepting r then (False, r) else (True, r\<lparr>rr_peer := Some p, rr_accepting := False\<rparr>))"

end
