(* ===== verification/RTC_Run.thy ===== *)
theory RTC_Run
  imports RTC_Handlers Routing Upload_Props
begin

text \<open>
  Runs of the WebRTC receiver: the events that reach it, each one step, and the invariants every step keeps. A frame is
  one step here also where its handler releases the mutex to ask the user, so these are the runs in which every
  question is answered before the next event (\<open>answered_at_once\<close> of \<open>RTC_Net\<close>, whose runs have the others). In them
  at most one file is open at a time; its buffer, its hash and the byte count agree; and the disk only ever gains
  directories and the files of the transfers.
\<close>

subsection \<open>Events\<close>

definition set_require_pairing :: "bool \<Rightarrow> rtc_receiver \<Rightarrow> rtc_receiver" where
  "set_require_pairing b r = r\<lparr>rr_require_pairing := b\<rparr>"

definition set_extension_routes :: "(string, string) gomap option \<Rightarrow> rtc_receiver \<Rightarrow> rtc_receiver" where
  "set_extension_routes m r = r\<lparr>rr_routes := m\<rparr>"

definition set_trusted_store :: "trusted_store option \<Rightarrow> rtc_receiver \<Rightarrow> rtc_receiver" where
  "set_trusted_store s r = r\<lparr>rr_trusted := s\<rparr>"

text \<open>The receiver as the command sets it up before it listens.\<close>

definition configured ::
    "string \<Rightarrow> string \<Rightarrow> (string, string) gomap option \<Rightarrow> bool \<Rightarrow> trusted_store option \<Rightarrow> filesys \<Rightarrow> filesys \<Rightarrow> rtc_receiver"
where
  "configured pin dir exts pairing trusted disk config_disk =
     set_trusted_store trusted (set_extension_routes exts (set_require_pairing pairing
       (new_rtc_receiver pin dir disk config_disk)))"

datatype rtc_event =
    EvOffer rtc_env string string
  | EvAcceptFailed
  | EvPeer nat
  | EvData rtc_env bytes bool
  | EvClosed rtc_env nat
  | EvWatchdog rtc_env nat
  | EvClose rtc_env

fun rtc_step :: "rtc_event \<Rightarrow> rtc_receiver \<Rightarrow> rtc_receiver option" where
  "rtc_step (EvOffer E i a) r = Some (snd (reserve_offer E i a r))"
| "rtc_step EvAcceptFailed r = Some (fail_accept r)"
| "rtc_step (EvPeer p) r = Some (snd (install_peer p r))"
| "rtc_step (EvData E data text) r = handle_data_message E data text r"
| "rtc_step (EvClosed E p) r = Some (handle_peer_closed E p r)"
| "rtc_step (EvWatchdog E g) r = Some (check_transfer_watchdog E g r)"
| "rtc_step (EvClose E) r = Some (rtc_close E r)"

fun rtc_run :: "rtc_event list \<Rightarrow> rtc_receiver \<Rightarrow> rtc_receiver option" where
  "rtc_run [] r = Some r"
| "rtc_run (e # es) r = (case rtc_step e r of None \<Rightarrow> None | Some r' \<Rightarrow> rtc_run es r')"

lemma run_append:
  "rtc_run (xs @ ys) r = (case rtc_run xs r of None \<Rightarrow> None | Some r' \<Rightarrow> rtc_run ys r')"
  by (induction xs arbitrary: r) (simp_all split: option.split)

lemma run_snoc:
  "rtc_run (xs @ [e]) r = Some r' \<longleftrightarrow> (\<exists>r1. rtc_run xs r = Some r1 \<and> rtc_step e r1 = Some r')"
  by (auto simp: run_append split: option.splits)

text \<open>Lifting an invariant of the steps to the runs.\<close>

lemma run_invariant:
  assumes "rtc_run evs r = Some r'" "I r" "\<And>e r r'. I r \<Longrightarrow> rtc_step e r = Some r' \<Longrightarrow> I r'"
  shows "I r'"
  using assms(1,2)
proof (induction evs arbitrary: r)
  case (Cons e es)
  then obtain r1 where "rtc_step e r = Some r1" "rtc_run es r1 = Some r'"
    by (auto split: option.splits)
  then show ?case using Cons.IH Cons.prems(2) assms(3) by blast
qed simp

subsection \<open>What a handler leaves alone\<close>

definition same_config :: "rtc_receiver \<Rightarrow> rtc_receiver \<Rightarrow> bool" where
  "same_config r r' \<longleftrightarrow>
     rr_pin r' = rr_pin r \<and> rr_save_dir r' = rr_save_dir r \<and> rr_routes r' = rr_routes r \<and>
     rr_require_pairing r' = rr_require_pairing r"

definition same_files :: "rtc_receiver \<Rightarrow> rtc_receiver \<Rightarrow> bool" where
  "same_files r r' \<longleftrightarrow>
     rr_paths r' = rr_paths r \<and> rr_buffers r' = rr_buffers r \<and> rr_hashers r' = rr_hashers r \<and>
     rr_current r' = rr_current r \<and> rr_bytes r' = rr_bytes r \<and> rr_active r' = rr_active r \<and>
     rr_starts r' = rr_starts r \<and> rr_dones r' = rr_dones r \<and> rr_disk r' = rr_disk r \<and>
     rr_received r' = rr_received r"

definition remapper_ok :: "rtc_receiver \<Rightarrow> bool" where
  "remapper_ok r \<longleftrightarrow>
     (\<forall>m. rr_remapper r = Some m \<longrightarrow> (\<exists>names fs. new_folder_remapper (rr_save_dir r) names fs = Some m))"

text \<open>A handshake step: the configuration and the files stay as they are.\<close>

definition quiet :: "rtc_receiver \<Rightarrow> rtc_receiver \<Rightarrow> bool" where
  "quiet r r' \<longleftrightarrow> same_config r r' \<and> same_files r r' \<and> (remapper_ok r \<longrightarrow> remapper_ok r')"

lemmas quiet_defs = quiet_def same_config_def same_files_def

lemma quiet_refl [simp]: "quiet r r"
  by (simp add: quiet_defs)

lemma quiet_trans: "quiet r r' \<Longrightarrow> quiet r' r'' \<Longrightarrow> quiet r r''"
  by (simp add: quiet_defs)

lemma quiet_same_remapper:
  "same_config r r' \<Longrightarrow> same_files r r' \<Longrightarrow> rr_remapper r' = rr_remapper r \<Longrightarrow> quiet r r'"
  by (simp add: quiet_def same_config_def remapper_ok_def)

lemmas same_defs = same_config_def same_files_def
lemmas send_defs = send_msg_def try_send_def send_chunked_def try_chunked_def

text \<open>No file is open.\<close>

definition idle :: "rtc_receiver \<Rightarrow> bool" where
  "idle r \<longleftrightarrow> \<not> rr_active r \<and> rr_paths r = [] \<and> rr_buffers r = [] \<and> rr_hashers r = [] \<and>
     rr_current r = [] \<and> rr_bytes r = 0"

lemma cleanup_idle [simp]: "idle r \<Longrightarrow> cleanup_partial_files E r = r"
  by (cases r) (simp add: idle_def cleanup_partial_files_def mark_transfer_done_def remove_paths_def)

lemma terminate_idle [simp]: "idle r \<Longrightarrow> terminate E r = r\<lparr>rr_state := RtcDone, rr_peer := None\<rparr>"
  by (simp add: terminate_def)

lemma idle_same: "same_files r r' \<Longrightarrow> idle r' = idle r"
  by (simp add: same_files_def idle_def)

lemma idle_try_send [simp]: "idle (try_send E m r) = idle r"
  by (simp add: send_defs idle_def)

lemma idle_sent [simp]: "idle (r\<lparr>rr_sent := s\<rparr>) = idle r"
  by (simp add: idle_def)

lemma meta_shape:
  "file_meta_by_id i r = (f, r') \<Longrightarrow> \<exists>m. r' = r\<lparr>rr_file_by_id := m\<rparr>"
proof -
  have "\<exists>m. r = r\<lparr>rr_file_by_id := m\<rparr>" by (rule exI [of _ "rr_file_by_id r"]) simp
  then show "file_meta_by_id i r = (f, r') \<Longrightarrow> ?thesis"
    by (auto simp: file_meta_by_id_def split: option.splits)
qed

lemma prepare_ids_shape:
  "prepare_ids E n ids r acc = (acc', r') \<Longrightarrow> \<exists>t m. r' = r\<lparr>rr_tokens := t, rr_file_by_id := m\<rparr>"
proof (induction E n ids r acc arbitrary: acc' r' rule: prepare_ids.induct)
  case (1 E n r acc)
  then have "r' = r\<lparr>rr_tokens := rr_tokens r, rr_file_by_id := rr_file_by_id r\<rparr>" by simp
  then show ?case by blast
next
  case (2 E n i ids r acc)
  obtain f r1 where m: "file_meta_by_id i r = (f, r1)" by fastforce
  with meta_shape obtain x where r1: "r1 = r\<lparr>rr_file_by_id := x\<rparr>" by blast
  show ?case
  proof (cases f)
    case None
    with "2.prems" m have "prepare_ids E n ids r1 acc = (acc', r')" by simp
    from "2.IH"(1) [OF m [symmetric] None this] r1 show ?thesis by auto
  next
    case (Some g)
    show ?thesis
    proof (cases "has_nul (rf_name g) \<or> isl (sanitize_path_with_fallback (rf_name g))")
      case True
      with "2.prems" m Some have "prepare_ids E n ids r1 acc = (acc', r')" by auto
      from "2.IH"(2) [OF m [symmetric] Some True this] r1 show ?thesis by auto
    next
      case False
      with "2.prems" m Some have "prepare_ids E (Suc n) ids (r1\<lparr>rr_tokens := AList.update i (re_tokens E n) (rr_tokens r1)\<rparr>)
          (AList.update i (re_tokens E n) acc) = (acc', r')" by auto
      from "2.IH"(3) [OF m [symmetric] Some False this] r1 show ?thesis by auto
    qed
  qed
qed

lemma accept_quiet: "quiet r (accept_files_now E r)"
proof -
  obtain tok r1 where p: "prepare_files_for_receive E (rr_accepted r) r = (tok, r1)" by fastforce
  then obtain t m where r1: "r1 = (rtc_prepare_folder_remap r)\<lparr>rr_tokens := t, rr_file_by_id := m\<rparr>"
    using prepare_ids_shape unfolding prepare_files_for_receive_def by blast
  have "quiet r r1"
    unfolding r1 rtc_prepare_folder_remap_def
    by (auto simp: quiet_defs remapper_ok_def split: option.split)
  moreover have "quiet r1 (accept_files_now E r)"
    unfolding accept_files_now_def p
    by (rule quiet_same_remapper) (auto simp: send_defs same_defs)
  ultimately show ?thesis by (rule quiet_trans)
qed

lemma accept_state: "rr_state (accept_files_now E r) \<in> {rr_state r, WaitFiles}"
proof -
  obtain tok r1 where p: "prepare_files_for_receive E (rr_accepted r) r = (tok, r1)" by fastforce
  then obtain t m where r1: "r1 = (rtc_prepare_folder_remap r)\<lparr>rr_tokens := t, rr_file_by_id := m\<rparr>"
    using prepare_ids_shape unfolding prepare_files_for_receive_def by blast
  have "rr_state r1 = rr_state r"
    unfolding r1 rtc_prepare_folder_remap_def by (auto split: option.split)
  then show ?thesis unfolding accept_files_now_def p by (auto simp: send_defs)
qed

subsection \<open>Opening a file\<close>

definition lookup_file :: "string \<Rightarrow> rtc_receiver \<Rightarrow> rtc_file option" where
  "lookup_file i r = fst (file_meta_by_id i r)"

lemma lookup_eq:
  "lookup_file i r =
     (case map_of (rr_file_by_id r) i of Some f \<Rightarrow> Some f | None \<Rightarrow> find (\<lambda>f. rf_id f = i) (rr_files r))"
  by (auto simp: lookup_file_def file_meta_by_id_def split: option.split)

lemma lookup_same:
  "rr_files r' = rr_files r \<Longrightarrow> rr_file_by_id r' = rr_file_by_id r \<Longrightarrow> lookup_file i r' = lookup_file i r"
  by (simp add: lookup_eq split: option.split)

lemma lookup_updates [simp]:
  "lookup_file i (r\<lparr>rr_buffers := x\<rparr>) = lookup_file i r"
  "lookup_file i (r\<lparr>rr_bytes := n\<rparr>) = lookup_file i r"
  "lookup_file i (r\<lparr>rr_hashers := y\<rparr>) = lookup_file i r"
  by (rule lookup_same; simp)+

lemma lookup_cached: "file_meta_by_id i r = (f, r1) \<Longrightarrow> lookup_file j r1 = lookup_file j r"
  by (auto simp: lookup_eq file_meta_by_id_def update_conv' split: option.splits if_splits)

text \<open>The directories files may go to.\<close>

definition dests :: "rtc_receiver \<Rightarrow> string set" where
  "dests r = insert (rr_save_dir r) (case rr_routes r of None \<Rightarrow> {} | Some m \<Rightarrow> snd ` set m)"

text \<open>What identifies the sender: its key, its token and the nonce it was made for.\<close>

definition auth :: "rtc_receiver \<Rightarrow> verifying_key option \<times> string \<times> bytes" where
  "auth r = (rr_sender_key r, rr_sender_token r, rr_final_nonce r)"

text \<open>Nothing but directories was made, and the files on offer are the same.\<close>

definition near :: "rtc_receiver \<Rightarrow> rtc_receiver \<Rightarrow> bool" where
  "near r r1 \<longleftrightarrow>
     same_config r r1 \<and> same_files (r\<lparr>rr_disk := rr_disk r1\<rparr>) r1 \<and> only_dirs_added (rr_disk r) (rr_disk r1) \<and>
     rr_remapper r1 = rr_remapper r \<and> rr_unique r1 = rr_unique r \<and> rr_peer r1 = rr_peer r \<and> rr_sent r1 = rr_sent r \<and>
     rr_state r1 = rr_state r \<and> auth r1 = auth r \<and> (\<forall>j. lookup_file j r1 = lookup_file j r)"

lemma near_refl: "near r r"
  by (simp add: near_def same_defs)

lemma near_trans: "near r r1 \<Longrightarrow> near r1 r2 \<Longrightarrow> near r r2"
  by (auto simp: near_def same_defs intro: only_dirs_trans)

lemma meta_near: "file_meta_by_id i r = (f, r1) \<Longrightarrow> near r r1"
  using meta_shape [of i r f r1] lookup_cached [of i r f r1] by (auto simp: near_def same_defs auth_def)

lemma folder_near: "rtc_folder_transfer r = (b, r1) \<Longrightarrow> near r r1"
proof -
  have l: "lookup_file j (r\<lparr>rr_folder := x, rr_folder_known := y\<rparr>) = lookup_file j r" for j x y
    by (rule lookup_same) simp_all
  assume "rtc_folder_transfer r = (b, r1)"
  with l show ?thesis
    by (auto simp: near_def same_defs auth_def rtc_folder_transfer_def Let_def split: if_splits)
qed

lemma save_dir_near:
  assumes "rtc_save_dir E n r = (d, r1)"
  shows "near r r1 \<and> d \<in> dests r"
proof -
  obtain b r0 where f: "rtc_folder_transfer r = (b, r0)" by fastforce
  have m: "d \<in> snd ` set m" if "map_of m k = Some d" for m k
    using map_of_SomeD [OF that] by force
  from f assms have "r1 = r0" "d \<in> dests r"
    by (auto simp: rtc_save_dir_def dests_def Let_def split: bool.splits option.splits if_splits intro: m)
  with folder_near [OF f] show ?thesis by simp
qed

lemma ensure_near: "rtc_ensure_save_dir E d r = (b, r1) \<Longrightarrow> near r r1"
proof -
  have l: "lookup_file j (r\<lparr>rr_disk := x, rr_ensured := y\<rparr>) = lookup_file j r"
    "lookup_file j (r\<lparr>rr_disk := x\<rparr>) = lookup_file j r" for j x y
    by (rule lookup_same; simp)+
  assume "rtc_ensure_save_dir E d r = (b, r1)"
  with l mkdir_all_dirs show ?thesis
    by (auto simp: near_def same_defs auth_def rtc_ensure_save_dir_def Let_def split: if_splits prod.splits bool.splits)
qed

lemma start_cases:
  assumes "start_receiving_file E i token r = r'"
  obtains (rejected) r1 a where "r' = reject_file_transfer (r1\<lparr>rr_unique := a\<rparr>)" "near r r1"
  | (opened) r1 meta p dir path fs a where "near r r1" "lookup_file i r = Some meta"
      "map_of (rr_tokens r) i = Some token" "sanitize_path_with_fallback (rf_name meta) = Inr p" "dir \<in> dests r"
      "alloc_create (env_io E) (full_save_dir dir (rtc_apply_folder_remap r p))
         (path_base (rtc_apply_folder_remap r p)) (rr_unique r) (rr_disk r1) = (Some (path, fs), a)"
      "r' = mark_transfer_started E
         (r1\<lparr>rr_unique := a, rr_disk := fs, rr_buffers := AList.update i ([], False) (rr_buffers r),
            rr_paths := AList.update i path (rr_paths r),
            rr_hashers := (if rf_sha meta \<noteq> [] then AList.update i [] (rr_hashers r) else rr_hashers r),
            rr_current := i, rr_bytes := 0, rr_state := ReceivingFiles\<rparr>)"
proof -
  have rej: thesis if "r' = reject_file_transfer r1" "near r r1" for r1
    using rejected [of "rr_unique r1" r1] that by simp
  show thesis
  proof (cases "validate_file_header i token r")
    case False
    with assms rej near_refl show thesis by (auto simp: start_receiving_file_def)
  next
    case val: True
    obtain f r1 where m: "file_meta_by_id i r = (f, r1)" by fastforce
    note n1 = meta_near [OF m]
    show thesis
    proof (cases f)
      case None
      with assms val m rej n1 show thesis by (auto simp: start_receiving_file_def)
    next
      case (Some meta)
      then have look: "lookup_file i r = Some meta" using m by (simp add: lookup_file_def)
      show thesis
      proof (cases "sanitize_path_with_fallback (rf_name meta)")
        case (Inl e)
        with assms val m Some rej n1 show thesis by (auto simp: start_receiving_file_def)
      next
        case (Inr p0)
        obtain dir r2 where sd: "rtc_save_dir E (rf_name meta) r1 = (dir, r2)" by fastforce
        let ?p = "rtc_apply_folder_remap r1 p0"
        have p: "?p = rtc_apply_folder_remap r p0"
          using n1 by (simp add: near_def rtc_apply_folder_remap_def)
        obtain ok r3 where en: "rtc_ensure_save_dir E (full_save_dir dir ?p) r2 = (ok, r3)" by fastforce
        have n3: "near r r3"
          using n1 save_dir_near [OF sd] ensure_near [OF en] near_trans by blast
        have dir: "dir \<in> dests r"
          using save_dir_near [OF sd] n1 by (simp add: dests_def near_def same_defs)
        obtain x a where al: "alloc_create (env_io E) (full_save_dir dir ?p) (path_base ?p) (rr_unique r3) (rr_disk r3) = (x, a)"
          by fastforce
        show thesis
        proof (cases "ok \<and> x \<noteq> None")
          case False
          then consider "\<not> ok" | "ok" "x = None" by blast
          then show thesis
          proof cases
            case 1
            with assms val m Some Inr sd en rej n3 show thesis
              by (auto simp: start_receiving_file_def Let_def)
          next
            case 2
            with assms val m Some Inr sd en al rejected [of a r3] n3 show thesis
              by (auto simp: start_receiving_file_def Let_def)
          qed
        next
          case True
          then obtain path fs where x: "x = Some (path, fs)" by auto
          have u: "rr_unique r3 = rr_unique r" "rr_buffers r3 = rr_buffers r" "rr_paths r3 = rr_paths r" "rr_hashers r3 = rr_hashers r"
            using n3 by (simp_all add: near_def same_defs)
          show thesis
          proof (rule opened [OF n3 look _ Inr dir])
            show "map_of (rr_tokens r) i = Some token" using val by (simp add: validate_file_header_def)
            show "alloc_create (env_io E) (full_save_dir dir (rtc_apply_folder_remap r p0))
               (path_base (rtc_apply_folder_remap r p0)) (rr_unique r) (rr_disk r3) = (Some (path, fs), a)"
              using al x u p by simp
          qed (use assms val m Some Inr sd en al x True u in \<open>auto simp: start_receiving_file_def Let_def\<close>)
        qed
      qed
    qed
  qed
qed

end
