(* ===== verification/RTC_Files.thy ===== *)
theory RTC_Files
  imports RTC_Run
begin

text \<open>
  The files of the WebRTC receiver as an abstract machine: at most one open file, the disk and
  the list of files reported as received. Every step of the receiver is a sequence of the
  machine's steps, whatever the events, the environment and the peer do; what holds for the
  machine (nothing existing is touched, nothing lands outside the configured directories, what
  was reported as received stays complete) then holds for the program.
\<close>

subsection \<open>The abstract machine\<close>

record transfer_view =
  tv_open :: "(string \<times> bytes) option"
  tv_disk :: filesys
  tv_done :: "(string \<times> int) list"

inductive tv_step :: "string set \<Rightarrow> transfer_view \<Rightarrow> transfer_view \<Rightarrow> bool" for D :: "string set" where
  mkdirs: "only_dirs_added (tv_disk v) fs \<Longrightarrow> tv_step D v (v\<lparr>tv_disk := fs\<rparr>)"
| create: "tv_open v = None \<Longrightarrow> tv_disk v p = None \<Longrightarrow> d \<in> D \<Longrightarrow> below d p \<Longrightarrow>
    tv_step D v (v\<lparr>tv_open := Some (p, []), tv_disk := (tv_disk v)(p \<mapsto> File [] None)\<rparr>)"
| data: "tv_open v = Some (p, c) \<Longrightarrow> tv_step D v (v\<lparr>tv_open := Some (p, c @ b)\<rparr>)"
| commit: "tv_open v = Some (p, c) \<Longrightarrow>
    tv_step D v (v\<lparr>tv_open := None, tv_disk := (tv_disk v)(p \<mapsto> File c None),
                   tv_done := tv_done v @ [(path_base p, int (length c))]\<rparr>)"
| abort: "tv_open v = Some (p, c) \<Longrightarrow>
    tv_step D v (v\<lparr>tv_open := None, tv_disk := (tv_disk v)(p := None)\<rparr>)"
| left_over: "tv_open v = Some (p, c) \<Longrightarrow>
    tv_step D v (v\<lparr>tv_open := None, tv_disk := (tv_disk v)(p \<mapsto> File b None)\<rparr>)"

abbreviation tv_steps :: "string set \<Rightarrow> transfer_view \<Rightarrow> transfer_view \<Rightarrow> bool" where
  "tv_steps D \<equiv> (tv_step D)\<^sup>*\<^sup>*"

text \<open>What the machine keeps, relative to the disk it started on.\<close>

definition inside :: "string set \<Rightarrow> string \<Rightarrow> bool" where
  "inside D p \<longleftrightarrow> (\<exists>d\<in>D. below d p)"

definition only_new :: "string set \<Rightarrow> filesys \<Rightarrow> filesys \<Rightarrow> bool" where
  "only_new D fs0 fs \<longleftrightarrow>
     (\<forall>q. fs q = fs0 q \<or> fs0 q = None \<and> (fs q = Some Dir \<or> inside D q \<and> is_file (fs q)))"

definition open_ok :: "string set \<Rightarrow> filesys \<Rightarrow> transfer_view \<Rightarrow> bool" where
  "open_ok D fs0 v \<longleftrightarrow>
     (\<forall>p c. tv_open v = Some (p, c) \<longrightarrow> fs0 p = None \<and> tv_disk v p = Some (File [] None) \<and> inside D p)"

definition stored_at :: "string set \<Rightarrow> filesys \<Rightarrow> transfer_view \<Rightarrow> string \<times> int \<Rightarrow> string \<Rightarrow> bool" where
  "stored_at D fs0 v x p \<longleftrightarrow>
     path_base p = fst x \<and> fs0 p = None \<and> inside D p \<and> (\<forall>c. tv_open v \<noteq> Some (p, c)) \<and>
     (\<exists>c. tv_disk v p = Some (File c None) \<and> int (length c) = snd x)"

definition view_ok :: "string set \<Rightarrow> filesys \<Rightarrow> transfer_view \<Rightarrow> bool" where
  "view_ok D fs0 v \<longleftrightarrow>
     only_new D fs0 (tv_disk v) \<and> open_ok D fs0 v \<and> (\<forall>x\<in>set (tv_done v). \<exists>p. stored_at D fs0 v x p)"

lemma only_new_dirs: "only_new D fs0 fs \<Longrightarrow> only_dirs_added fs fs' \<Longrightarrow> only_new D fs0 fs'"
  unfolding only_new_def only_dirs_added_def by metis

lemma only_new_update:
  "only_new D fs0 fs \<Longrightarrow> fs0 p = None \<Longrightarrow> inside D p \<Longrightarrow> n = None \<or> is_file n \<Longrightarrow> only_new D fs0 (fs(p := n))"
  by (auto simp: only_new_def)

lemma stored_elsewhere:
  "stored_at D fs0 v x q \<Longrightarrow> tv_open v = Some (p, c) \<Longrightarrow> tv_open v' = None \<Longrightarrow>
     tv_disk v' = (tv_disk v)(p := n) \<Longrightarrow> stored_at D fs0 v' x q"
  by (auto simp: stored_at_def)

lemma only_new_here: "only_new D fs0 fs \<Longrightarrow> fs p = None \<Longrightarrow> fs0 p = None"
  by (metis only_new_def)

lemma view_okI:
  assumes "view_ok D fs0 v" "only_new D fs0 (tv_disk v')" "open_ok D fs0 v'" "tv_done v' = tv_done v"
    "\<And>x p. stored_at D fs0 v x p \<Longrightarrow> stored_at D fs0 v' x p"
  shows "view_ok D fs0 v'"
  using assms unfolding view_ok_def by metis

lemma view_ok_close:
  assumes "view_ok D fs0 v" "tv_open v = Some (p, c)" "n = None \<or> is_file n"
    "v' = v\<lparr>tv_open := None, tv_disk := (tv_disk v)(p := n)\<rparr>"
  shows "view_ok D fs0 v'"
proof -
  have "fs0 p = None" "inside D p" using assms(1,2) by (auto simp: view_ok_def open_ok_def)
  with assms show ?thesis
    using stored_elsewhere [of D fs0 v _ _ p c v' n] only_new_update [of D fs0 "tv_disk v" p n]
    by (intro view_okI [OF assms(1)]) (auto simp: view_ok_def open_ok_def)
qed

lemma view_ok_step:
  assumes "tv_step D v v'" "view_ok D fs0 v"
  shows "view_ok D fs0 v'"
  using assms
proof (induction rule: tv_step.induct)
  case (mkdirs v fs)
  have files: "tv_disk v q = Some (File b t) \<Longrightarrow> fs q = Some (File b t)" for q b t
    using only_dirs_keeps [OF mkdirs(1)] .
  have "stored_at D fs0 v x p \<Longrightarrow> stored_at D fs0 (v\<lparr>tv_disk := fs\<rparr>) x p" for x p
    by (auto simp: stored_at_def dest: files)
  with mkdirs files only_new_dirs show ?case
    by (intro view_okI [OF mkdirs(2)]) (auto simp: view_ok_def open_ok_def)
next
  case (create v p d)
  have p: "fs0 p = None" "inside D p"
    using create only_new_here by (auto simp: view_ok_def inside_def)
  have "stored_at D fs0 v x q \<Longrightarrow>
      stored_at D fs0 (v\<lparr>tv_open := Some (p, []), tv_disk := (tv_disk v)(p \<mapsto> File [] None)\<rparr>) x q" for x q
    using create(2) by (auto simp: stored_at_def)
  with create(5) p only_new_update show ?case
    by (intro view_okI [OF create(5)]) (auto simp: view_ok_def open_ok_def)
next
  case (data v p c b)
  have "stored_at D fs0 v x q \<Longrightarrow> stored_at D fs0 (v\<lparr>tv_open := Some (p, c @ b)\<rparr>) x q" for x q
    using data(1) by (auto simp: stored_at_def)
  with data show ?case
    by (intro view_okI [OF data(2)]) (auto simp: view_ok_def open_ok_def)
next
  case (commit v p c)
  let ?w = "v\<lparr>tv_open := None, tv_disk := (tv_disk v)(p \<mapsto> File c None)\<rparr>"
  have w: "view_ok D fs0 ?w" by (rule view_ok_close [OF commit(2,1)]) auto
  have p: "fs0 p = None" "inside D p" using commit by (auto simp: view_ok_def open_ok_def)
  have "stored_at D fs0 (?w\<lparr>tv_done := l\<rparr>) x q = stored_at D fs0 ?w x q" for l x q
    by (simp add: stored_at_def)
  moreover have "stored_at D fs0 ?w (path_base p, int (length c)) p"
    using p by (simp add: stored_at_def)
  ultimately show ?case using w by (auto simp: view_ok_def open_ok_def)
qed (rule view_ok_close; auto)+

lemma view_ok_steps: "tv_steps D v v' \<Longrightarrow> view_ok D fs0 v \<Longrightarrow> view_ok D fs0 v'"
  by (induction rule: rtranclp_induct) (auto intro: view_ok_step)

subsection \<open>The receiver's files\<close>

definition view_of :: "rtc_receiver \<Rightarrow> transfer_view" where
  "view_of r =
     \<lparr>tv_open = (case rr_paths r of
                   [] \<Rightarrow> None
                 | (i, p) # _ \<Rightarrow> Some (p, case map_of (rr_buffers r) i of Some (c, bad) \<Rightarrow> c | None \<Rightarrow> [])),
      tv_disk = rr_disk r, tv_done = rr_received r\<rparr>"

text \<open>One file is open: its path, its buffer and its hash belong to the current id and agree.\<close>

definition open_at :: "rtc_receiver \<Rightarrow> string \<Rightarrow> bytes \<Rightarrow> bool \<Rightarrow> rtc_file \<Rightarrow> bool" where
  "open_at r p c bad meta \<longleftrightarrow>
     rr_active r \<and> rr_paths r = [(rr_current r, p)] \<and> rr_buffers r = [(rr_current r, (c, bad))] \<and>
     rr_hashers r = (if rf_sha meta = [] then [] else [(rr_current r, c)]) \<and> rr_bytes r = int (length c) \<and>
     lookup_file (rr_current r) r = Some meta \<and> rr_disk r p = Some (File [] None) \<and>
     (c = [] \<or> int (length c) \<le> rf_size meta)"

definition busy :: "rtc_receiver \<Rightarrow> bool" where
  "busy r \<longleftrightarrow> (\<exists>p c bad meta. open_at r p c bad meta)"

lemma busyI: "open_at r p c bad meta \<Longrightarrow> busy r"
  by (auto simp: busy_def)

definition balanced :: "rtc_receiver \<Rightarrow> bool" where
  "balanced r \<longleftrightarrow> rr_starts r = rr_dones r + (if rr_active r then 1 else 0)"

definition file_ok :: "rtc_receiver \<Rightarrow> bool" where
  "file_ok r \<longleftrightarrow> (idle r \<or> busy r) \<and> balanced r \<and> remapper_ok r"

text \<open>A step of the receiver is simulated by steps of the machine.\<close>

definition sim :: "rtc_receiver \<Rightarrow> rtc_receiver \<Rightarrow> bool" where
  "sim r r' \<longleftrightarrow> same_config r r' \<and> balanced r' \<and> remapper_ok r' \<and> tv_steps (dests r) (view_of r) (view_of r')"

lemma dests_same: "same_config r r' \<Longrightarrow> dests r' = dests r"
  by (simp add: same_config_def dests_def)

lemma sim_trans: "sim r r' \<Longrightarrow> sim r' r'' \<Longrightarrow> sim r r''"
  by (auto simp: sim_def dests_same dest: rtranclp_trans) (simp add: same_config_def)

lemma sim_quiet:
  assumes "quiet r r'" "balanced r" "remapper_ok r"
  shows "sim r r'"
proof -
  have "view_of r' = view_of r" using assms(1) by (simp add: view_of_def quiet_defs cong: list.case_cong option.case_cong)
  moreover have "balanced r'" using assms(1,2) by (simp add: balanced_def quiet_defs)
  ultimately show ?thesis using assms by (simp add: sim_def quiet_def)
qed

lemma sim_refl: "balanced r \<Longrightarrow> remapper_ok r \<Longrightarrow> sim r r"
  by (rule sim_quiet) simp_all

lemma view_idle: "idle r \<Longrightarrow> view_of r = \<lparr>tv_open = None, tv_disk = rr_disk r, tv_done = rr_received r\<rparr>"
  by (simp add: view_of_def idle_def)

lemma view_open: "open_at r p c bad meta \<Longrightarrow>
    view_of r = \<lparr>tv_open = Some (p, c), tv_disk = rr_disk r, tv_done = rr_received r\<rparr>"
  by (simp add: view_of_def open_at_def)

lemma sim_near:
  assumes "near r r1" "idle r" "balanced r" "remapper_ok r"
  shows "sim r r1 \<and> idle r1"
proof -
  have i: "idle r1" using assms(1,2) by (auto simp: near_def same_defs idle_def)
  have d: "rr_received r1 = rr_received r" using assms(1) by (simp add: near_def same_defs)
  have "tv_step (dests r) (view_of r) (view_of r\<lparr>tv_disk := rr_disk r1\<rparr>)"
    using assms(1,2) by (intro tv_step.mkdirs) (simp add: near_def view_idle)
  moreover have "view_of r1 = view_of r\<lparr>tv_disk := rr_disk r1\<rparr>"
    using assms(2) i d by (simp add: view_idle)
  moreover have "same_config r r1 \<and> balanced r1 \<and> remapper_ok r1"
    using assms by (simp add: near_def same_defs balanced_def remapper_ok_def)
  ultimately show ?thesis using i by (simp add: sim_def)
qed

lemma sim_close:
  assumes "open_at r p c bad meta" "n = None \<or> (\<exists>b. n = Some (File b None))"
    and "same_config r r'" "idle r'" "balanced r'" "remapper_ok r'"
    and "rr_disk r' = (rr_disk r)(p := n)" "rr_received r' = rr_received r"
  shows "sim r r'"
proof -
  have "view_of r' = view_of r\<lparr>tv_open := None, tv_disk := (tv_disk (view_of r))(p := n)\<rparr>"
    using view_open [OF assms(1)] view_idle [OF assms(4)] assms(7,8) by simp
  moreover have "tv_step (dests r) (view_of r) (view_of r\<lparr>tv_open := None, tv_disk := (tv_disk (view_of r))(p := n)\<rparr>)"
    using assms(2) tv_step.abort [of "view_of r" p c] tv_step.left_over [of "view_of r" p c] view_open [OF assms(1)]
    by auto
  ultimately show ?thesis using assms by (simp add: sim_def)
qed

lemma remove_node: "fs p = Some (File b None) \<Longrightarrow>
    \<exists>n. remove_file env p fs = fs(p := n) \<and> (n = None \<or> (\<exists>b. n = Some (File b None)))"
  by (rule exI [of _ "if remove_fails env then fs p else None"]) (auto simp: remove_file_def fun_eq_iff)

lemma sim_cleanup:
  assumes "file_ok r"
  shows "sim r (cleanup_partial_files E r) \<and> idle (cleanup_partial_files E r)"
proof (cases "idle r")
  case True
  with assms sim_refl show ?thesis by (simp add: file_ok_def)
next
  case False
  with assms obtain p c bad meta where o: "open_at r p c bad meta" by (auto simp: file_ok_def busy_def)
  let ?r = "cleanup_partial_files E r"
  obtain n where n: "remove_file (env_io E) p (rr_disk r) = (rr_disk r)(p := n)" "n = None \<or> (\<exists>b. n = Some (File b None))"
    using remove_node [of "rr_disk r" p "[]" "env_io E"] o by (auto simp: open_at_def)
  have r: "rr_disk ?r = (rr_disk r)(p := n)" "rr_received ?r = rr_received r" "same_config r ?r" "idle ?r"
    "rr_remapper ?r = rr_remapper r" "rr_starts ?r = rr_starts r" "rr_dones ?r = rr_dones r + 1"
    using o n by (simp_all add: open_at_def cleanup_partial_files_def mark_transfer_done_def remove_paths_def
        same_config_def idle_def)
  moreover have "balanced ?r" using assms r o by (simp add: file_ok_def balanced_def open_at_def idle_def)
  moreover have "remapper_ok ?r" using assms r by (simp add: file_ok_def remapper_ok_def same_config_def)
  ultimately show ?thesis using sim_close [OF o n(2)] by simp
qed

subsection \<open>Receiving a file\<close>

lemma reject_idle: "idle r \<Longrightarrow> idle (reject_file_transfer r) \<and> quiet r (reject_file_transfer r)"
  by (auto simp: reject_file_transfer_def idle_def intro!: quiet_same_remapper simp: same_defs)

lemma remapped_safe: "remapper_ok r \<Longrightarrow> safe_rel p \<Longrightarrow> safe_rel (rtc_apply_folder_remap r p)"
  by (auto simp: rtc_apply_folder_remap_def remapper_ok_def intro: remap_apply_safe split: option.split)

definition good_dests :: "rtc_receiver \<Rightarrow> bool" where
  "good_dests r \<longleftrightarrow> [] \<notin> dests r"

lemma good_dests_sim: "sim r r' \<Longrightarrow> good_dests r' = good_dests r"
  by (simp add: good_dests_def sim_def dests_same [of r r'])

text \<open>What starting a file ends in: rejection, or exactly this file open and empty.\<close>

lemma sim_start:
  assumes "idle r" "balanced r" "remapper_ok r" "good_dests r"
  shows "sim r (start_receiving_file E i token r) \<and>
    (idle (start_receiving_file E i token r) \<and> rr_state (start_receiving_file E i token r) = WaitFiles \<or>
     busy (start_receiving_file E i token r) \<and> rr_state (start_receiving_file E i token r) = ReceivingFiles)"
  using refl [of "start_receiving_file E i token r"]
proof (cases rule: start_cases)
  case (rejected r1 a)
  note n = sim_near [OF rejected(2) assms(1-3)]
  have q: "quiet r1 (r1\<lparr>rr_unique := a\<rparr>)" "idle (r1\<lparr>rr_unique := a\<rparr>)"
    using n by (auto simp: quiet_defs remapper_ok_def idle_def)
  then have "quiet r1 (start_receiving_file E i token r)" "idle (start_receiving_file E i token r)"
    using reject_idle quiet_trans unfolding rejected(1) by blast+
  moreover have "rr_state (start_receiving_file E i token r) = WaitFiles"
    unfolding rejected(1) by (simp add: reject_file_transfer_def)
  moreover have "balanced r1" "remapper_ok r1" using n by (simp_all add: sim_def)
  ultimately show ?thesis
    using n sim_quiet [of r1 "start_receiving_file E i token r"] sim_trans [of r r1] by blast
next
  case (opened r1 meta p dir path fs a)
  let ?q = "rtc_apply_folder_remap r p" and ?r = "start_receiving_file E i token r"
  let ?full = "full_save_dir dir ?q"
  note n = sim_near [OF opened(1) assms(1-3)]
  have safe: "safe_rel ?q" using assms(3) fallback_ok_safe [OF opened(4)] by (rule remapped_safe)
  have dir: "dir \<noteq> []" using opened(5) assms(4) by (auto simp: good_dests_def)
  note full = full_save_dir_below [OF safe dir]
  have al: "fst (alloc_create (env_io E) ?full (path_base ?q) (rr_unique r) (rr_disk r1)) = Some (path, fs)"
    using opened(6) by simp
  have "below ?full path"
    using alloc_create_below [OF al] full path_base_safe(2) [OF safe] by blast
  with full have below: "below dir path" using below_trans by metis
  note fresh = hinted.fresh [OF al]
  have idle: "\<not> rr_active r1" "rr_paths r = []" "rr_buffers r = []" "rr_hashers r = []" "rr_paths r1 = []"
    using n assms(1) by (simp_all add: idle_def)
  have r: "rr_paths ?r = [(i, path)]" "rr_buffers ?r = [(i, ([], False))]" "rr_active ?r" "rr_disk ?r = fs"
    "rr_hashers ?r = (if rf_sha meta \<noteq> [] then [(i, [])] else [])" "rr_current ?r = i" "rr_bytes ?r = 0"
    "rr_state ?r = ReceivingFiles" "rr_received ?r = rr_received r1" "rr_starts ?r = rr_starts r1 + 1"
    "rr_dones ?r = rr_dones r1" "same_config r1 ?r" "rr_remapper ?r = rr_remapper r1"
    "rr_files ?r = rr_files r1" "rr_file_by_id ?r = rr_file_by_id r1"
    unfolding opened(7) by (simp_all add: mark_transfer_started_def idle same_config_def)
  have "lookup_file i ?r = Some meta"
    using lookup_same [OF r(14,15)] opened(1,2) by (simp add: near_def)
  then have o: "open_at ?r path [] False meta"
    using r fresh by (simp add: open_at_def)
  have "tv_step (dests r) (view_of r1) (view_of ?r)"
  proof -
    have "view_of ?r = view_of r1\<lparr>tv_open := Some (path, []), tv_disk := (tv_disk (view_of r1))(path \<mapsto> File [] None)\<rparr>"
      using view_open [OF o] view_idle n r fresh by simp
    then show ?thesis
      using tv_step.create [of "view_of r1" path dir "dests r"] n view_idle fresh below opened(5) by simp
  qed
  moreover have "balanced ?r" using n r idle by (simp add: sim_def balanced_def)
  moreover have "remapper_ok ?r" using n r(12,13) by (auto simp: sim_def remapper_ok_def same_config_def)
  ultimately have "sim r1 ?r" using r n dests_same [of r r1] by (simp add: sim_def)
  with n sim_trans have "sim r ?r" by blast
  with r o show ?thesis by (auto simp: busy_def)
qed

lemma meta_lookup: "file_meta_by_id i r = (f, r1) \<Longrightarrow> f = lookup_file i r"
  by (simp add: lookup_file_def)

lemma open_at_near: "near r r1 \<Longrightarrow> rr_disk r1 = rr_disk r \<Longrightarrow> open_at r1 p c bad meta = open_at r p c bad meta"
  by (auto simp: open_at_def near_def same_defs)

lemma cleanup_current_open:
  assumes "open_at r p c bad meta" "balanced r" "remapper_ok r"
  shows "sim r (cleanup_current_file E r) \<and> idle (cleanup_current_file E r)"
proof (cases "p = []")
  case False
  let ?r = "cleanup_current_file E r"
  obtain n where n: "remove_file (env_io E) p (rr_disk r) = (rr_disk r)(p := n)" "n = None \<or> (\<exists>b. n = Some (File b None))"
    using remove_node [of "rr_disk r" p "[]" "env_io E"] assms(1) by (auto simp: open_at_def)
  have r: "rr_disk ?r = (rr_disk r)(p := n)" "rr_received ?r = rr_received r" "same_config r ?r" "idle ?r"
    "rr_remapper ?r = rr_remapper r" "rr_starts ?r = rr_starts r" "rr_dones ?r = rr_dones r + 1"
    using assms(1) n False
    by (simp_all add: open_at_def cleanup_current_file_def mark_transfer_done_def Let_def same_config_def idle_def)
  moreover have "balanced ?r" using assms r by (simp add: balanced_def open_at_def idle_def)
  moreover have "remapper_ok ?r" using assms r by (simp add: remapper_ok_def same_config_def)
  ultimately show ?thesis using sim_close [OF assms(1) n(2)] by simp
next
  case True
  let ?r = "cleanup_current_file E r"
  have r: "rr_disk ?r = (rr_disk r)(p := Some (File [] None))" "rr_received ?r = rr_received r" "same_config r ?r" "idle ?r"
    "rr_remapper ?r = rr_remapper r" "rr_starts ?r = rr_starts r" "rr_dones ?r = rr_dones r + 1"
    using assms(1) True
    by (auto simp: open_at_def cleanup_current_file_def mark_transfer_done_def Let_def same_config_def idle_def fun_eq_iff)
  moreover have "balanced ?r" using assms r by (simp add: balanced_def open_at_def idle_def)
  moreover have "remapper_ok ?r" using assms r by (simp add: remapper_ok_def same_config_def)
  ultimately show ?thesis using sim_close [OF assms(1), of "Some (File [] None)"] by simp
qed

lemma cleanup_current_idle: "idle r \<Longrightarrow> cleanup_current_file E r = r"
  by (cases r) (simp add: idle_def cleanup_current_file_def mark_transfer_done_def Let_def)

lemma sim_data:
  assumes "file_ok r"
  shows "sim r (handle_binary_data E d r) \<and>
    (idle (handle_binary_data E d r) \<and> rr_state (handle_binary_data E d r) \<in> {rr_state r, WaitFiles} \<and> (busy r \<longrightarrow> rr_state (handle_binary_data E d r) = WaitFiles) \<or>
     busy (handle_binary_data E d r) \<and> busy r \<and> rr_state (handle_binary_data E d r) = rr_state r)"
proof -
  let ?r = "handle_binary_data E d r"
  obtain f r1 where m: "file_meta_by_id (rr_current r) r = (f, r1)" by fastforce
  note n1 = meta_near [OF m] and f = meta_lookup [OF m]
  have d1: "rr_disk r1 = rr_disk r" "rr_remapper r1 = rr_remapper r" "rr_state r1 = rr_state r" "rr_current r1 = rr_current r"
    using meta_shape [OF m] by auto
  have q1: "quiet r r1" using n1 d1 by (auto simp: near_def same_defs intro: quiet_same_remapper)
  have b: "balanced r1" "remapper_ok r1" using assms q1 by (auto simp: file_ok_def quiet_defs balanced_def)
  have s1: "sim r r1" using q1 assms by (auto simp: file_ok_def intro: sim_quiet)
  from assms consider (idle) "idle r" | (busy) p c bad meta where "open_at r p c bad meta"
    by (auto simp: file_ok_def busy_def)
  then show ?thesis
  proof cases
    case idle
    then have i: "idle r1" "rr_buffers r1 = []" using n1 by (auto simp: near_def same_defs idle_def)
    have "?r = r1 \<or> ?r = reject_file_transfer r1"
      using m i cleanup_current_idle [OF i(1)]
      by (auto simp: handle_binary_data_def split: option.split)
    moreover have "sim r1 (reject_file_transfer r1)" "idle (reject_file_transfer r1)" "rr_state (reject_file_transfer r1) = WaitFiles"
      using reject_idle [OF i(1)] sim_quiet b by (auto simp: reject_file_transfer_def)
    ultimately have "sim r1 ?r" "idle ?r" "rr_state ?r \<in> {rr_state r, WaitFiles}"
      using i(1) d1(3) sim_refl [OF b] by auto
    moreover have "\<not> busy r" using idle by (auto simp: busy_def open_at_def idle_def)
    ultimately show ?thesis using sim_trans [OF s1] by blast
  next
    case busy
    then have o1: "open_at r1 p c bad meta" using open_at_near [OF n1 d1(1)] by simp
    have br: "busy r" using busy by (auto simp: busy_def)
    have f: "f = Some meta" using f busy by (simp add: open_at_def)
    show ?thesis
    proof (cases "rf_size meta - rr_bytes r1 < int (length d)")
      case True
      with m f have r: "?r = reject_file_transfer (cleanup_current_file E r1)" by (simp add: handle_binary_data_def)
      note c = cleanup_current_open [OF o1 b, of E]
      then have "sim (cleanup_current_file E r1) ?r" "idle ?r" "rr_state ?r = WaitFiles"
        unfolding r using reject_idle sim_quiet by (auto simp: sim_def reject_file_transfer_def)
      with c s1 sim_trans show ?thesis by blast
    next
      case False
      show ?thesis
      proof (cases "bad \<or> write_fails E")
        case True
        with m f o1 False have r: "?r = r1\<lparr>rr_buffers := [(rr_current r1, (c, True))]\<rparr>"
          by (simp add: handle_binary_data_def open_at_def d1(4))
        have o: "open_at ?r p c True meta"
          using o1 unfolding r by (simp add: open_at_def)
        have "view_of ?r = view_of r1"
          using view_open [OF o1] view_open [OF o] r by simp
        moreover have "same_config r1 ?r" "balanced ?r" "remapper_ok ?r"
          using b unfolding r by (simp_all add: same_config_def balanced_def remapper_ok_def)
        ultimately have "sim r1 ?r" by (simp add: sim_def)
        moreover have "busy ?r" using busyI [OF o] .
        moreover have "rr_state ?r = rr_state r" unfolding r using d1 by simp
        ultimately have "sim r1 ?r" "busy ?r" "rr_state ?r = rr_state r" by blast+
        with s1 sim_trans br show ?thesis by blast
      next
        case ok: False
        with m f o1 False have r: "?r = r1\<lparr>rr_buffers := [(rr_current r1, (c @ d, False))],
            rr_bytes := rr_bytes r1 + int (length d),
            rr_hashers := (if rf_sha meta = [] then [] else [(rr_current r1, c @ d)])\<rparr>"
          by (simp add: handle_binary_data_def open_at_def d1(4))
        have sz: "c @ d = [] \<or> int (length (c @ d)) \<le> rf_size meta"
          using False o1 by (simp add: open_at_def)
        have o: "open_at ?r p (c @ d) False meta"
          using o1 sz unfolding r by (simp add: open_at_def)
        have "tv_step (dests r1) (view_of r1) (view_of ?r)"
          using tv_step.data [of "view_of r1" p c "dests r1" d] view_open [OF o1] view_open [OF o] r by simp
        moreover have "same_config r1 ?r" "balanced ?r" "remapper_ok ?r"
          using b unfolding r by (simp_all add: same_config_def balanced_def remapper_ok_def)
        ultimately have "sim r1 ?r" by (auto simp: sim_def)
        moreover have "busy ?r" using busyI [OF o] .
        moreover have "rr_state ?r = rr_state r" unfolding r using d1 by simp
        ultimately have "sim r1 ?r" "busy ?r" "rr_state ?r = rr_state r" by blast+
        with s1 sim_trans br show ?thesis by blast
      qed
    qed
  qed
qed

text \<open>How a file that is open ends: what the code tests, what is left on the disk and reported.\<close>

definition finished_well :: "rtc_env \<Rightarrow> bytes \<Rightarrow> bool \<Rightarrow> rtc_file \<Rightarrow> bool" where
  "finished_well E c bad meta \<longleftrightarrow>
     int (length c) = rf_size meta \<and> \<not> bad \<and> \<not> flush_fails E \<and> \<not> close_fails E \<and>
     (rf_sha meta = [] \<or> re_sha E c = rf_sha meta)"

lemma finish_outcome:
  fixes E :: rtc_env
  assumes "open_at r p c bad meta" "rr_current r \<noteq> []"
  defines "r' \<equiv> finish_current_file E r"
  shows "idle r' \<and> same_config r r' \<and> rr_state r' = rr_state r \<and> rr_remapper r' = rr_remapper r \<and>
    rr_starts r' = rr_starts r \<and> rr_dones r' = rr_dones r + 1 \<and>
    (if finished_well E c bad meta
     then rr_disk r' = (rr_disk r)(p \<mapsto> File c None) \<and> rr_received r' = rr_received r @ [(path_base p, rf_size meta)]
     else (\<exists>n. rr_disk r' = (rr_disk r)(p := n) \<and> (n = None \<or> remove_fails E \<and> (\<exists>b. n = Some (File b None)))) \<and>
       rr_received r' = rr_received r)"
proof -
  obtain f r1 where m: "file_meta_by_id (rr_current r) r = (f, r1)" by fastforce
  have f: "f = Some meta" using meta_lookup [OF m] assms(1) by (simp add: open_at_def)
  obtain x where r1: "r1 = r\<lparr>rr_file_by_id := x\<rparr>" using meta_shape [OF m] by blast
  have o: "map_of (rr_buffers r) (rr_current r) = Some (c, bad)" "map_of (rr_paths r) (rr_current r) = Some p"
    "map_of (rr_hashers r) (rr_current r) = (if rf_sha meta = [] then None else Some c)"
    "rr_bytes r = int (length c)" "rr_disk r p = Some (File [] None)" "rr_active r"
    "AList.delete (rr_current r) (rr_buffers r) = []" "AList.delete (rr_current r) (rr_paths r) = []"
    "AList.delete (rr_current r) (rr_hashers r) = []"
    using assms(1) by (simp_all add: open_at_def)
  define ok where "ok = finished_well E c bad meta"
  define written where "written = (if \<not> bad \<and> \<not> flush_fails E \<and> \<not> close_fails E then c else take (partial_write E) c)"
  have w: "write_file p written (rr_disk r) = (rr_disk r)(p \<mapsto> File written None)"
    using o(5) by (simp add: write_file_def)
  have full: "ok \<Longrightarrow> written = c" by (simp add: ok_def finished_well_def written_def)
  define disk where "disk = (if ok then (rr_disk r)(p \<mapsto> File written None)
                             else remove_file (env_io E) p ((rr_disk r)(p \<mapsto> File written None)))"
  have r': "idle r' \<and> same_config r r' \<and> rr_state r' = rr_state r \<and> rr_remapper r' = rr_remapper r \<and>
      rr_starts r' = rr_starts r \<and> rr_dones r' = rr_dones r + 1 \<and> rr_disk r' = disk \<and>
      rr_received r' = (if ok then rr_received r @ [(path_base p, rf_size meta)] else rr_received r)"
    unfolding r'_def finish_current_file_def m f r1
    using assms(2) o w
    by (auto simp: Let_def send_defs mark_transfer_done_def idle_def same_config_def ok_def finished_well_def
        disk_def written_def split: option.split)
  show ?thesis
  proof (cases ok)
    case True
    then show ?thesis using r' full by (simp add: ok_def [symmetric] disk_def)
  next
    case False
    have "\<exists>n. disk = (rr_disk r)(p := n) \<and> (n = None \<or> remove_fails E \<and> (\<exists>b. n = Some (File b None)))"
      using False by (cases "remove_fails E") (auto simp: disk_def remove_file_def io_env.defs)
    with False r' show ?thesis by (simp add: ok_def [symmetric])
  qed
qed

lemma sim_finish:
  assumes "file_ok r" "rr_current r \<noteq> []"
  shows "sim r (finish_current_file E r) \<and> idle (finish_current_file E r) \<and>
    rr_state (finish_current_file E r) = rr_state r"
proof -
  let ?r = "finish_current_file E r"
  have "\<not> idle r" using assms(2) by (simp add: idle_def)
  with assms(1) obtain p c bad meta where o: "open_at r p c bad meta" by (auto simp: file_ok_def busy_def)
  note out = finish_outcome [OF o assms(2), of E]
  have b: "balanced ?r" "remapper_ok ?r"
    using assms(1) out o by (auto simp: file_ok_def balanced_def remapper_ok_def same_config_def idle_def open_at_def)
  have "sim r ?r"
  proof (cases "finished_well E c bad meta")
    case True
    then have "view_of ?r = view_of r\<lparr>tv_open := None, tv_disk := (tv_disk (view_of r))(p \<mapsto> File c None),
        tv_done := tv_done (view_of r) @ [(path_base p, int (length c))]\<rparr>"
      using view_open [OF o] view_idle [of ?r] out by (simp add: finished_well_def)
    then show ?thesis
      using tv_step.commit [of "view_of r" p c "dests r"] view_open [OF o] out b by (simp add: sim_def)
  next
    case False
    with out obtain n where n: "rr_disk ?r = (rr_disk r)(p := n)" "n = None \<or> (\<exists>b. n = Some (File b None))" by auto
    from False out show ?thesis by (intro sim_close [OF o n(2) _ _ b n(1)]) simp_all
  qed
  with out show ?thesis by simp
qed

subsection \<open>The handshake leaves the files alone\<close>

lemma try_send_frame [simp]:
  "quiet r (try_send E m x) = quiet r x" "idle (try_send E m x) = idle x"
  "rr_state (try_send E m x) = rr_state x" "rr_pin (try_send E m x) = rr_pin x"
  "rr_peer (try_send E m x) = rr_peer x"
  by (auto simp: send_defs quiet_defs remapper_ok_def idle_def)

lemma try_chunked_frame [simp]:
  "quiet r (try_chunked E m x) = quiet r x" "rr_state (try_chunked E m x) = rr_state x"
  by (auto simp: send_defs quiet_defs remapper_ok_def Let_def)

lemma quiet_updates [simp]:
  "quiet r (x\<lparr>rr_state := st\<rparr>) = quiet r x" "quiet r (x\<lparr>rr_peer := p\<rparr>) = quiet r x"
  "quiet r (x\<lparr>rr_sender_token := t\<rparr>) = quiet r x" "quiet r (x\<lparr>rr_sender_key := k\<rparr>) = quiet r x"
  "quiet r (x\<lparr>rr_sender_pem := t\<rparr>) = quiet r x" "quiet r (x\<lparr>rr_pin_attempts := n\<rparr>) = quiet r x"
  "quiet r (x\<lparr>rr_blocked := b\<rparr>) = quiet r x" "quiet r (x\<lparr>rr_trusted := s\<rparr>) = quiet r x"
  "quiet r (x\<lparr>rr_config_disk := d\<rparr>) = quiet r x" "quiet r (x\<lparr>rr_provided_pins := k'\<rparr>) = quiet r x"
  "quiet r (x\<lparr>rr_sent := l\<rparr>) = quiet r x" "quiet r (x\<lparr>rr_control := c\<rparr>) = quiet r x"
  "quiet r (x\<lparr>rr_accepting := a\<rparr>) = quiet r x"
  by (simp_all add: quiet_defs remapper_ok_def)

lemma idle_updates [simp]:
  "idle (x\<lparr>rr_state := st\<rparr>) = idle x" "idle (x\<lparr>rr_peer := p\<rparr>) = idle x"
  "idle (x\<lparr>rr_sender_token := t\<rparr>) = idle x" "idle (x\<lparr>rr_sender_key := k\<rparr>) = idle x"
  "idle (x\<lparr>rr_sender_pem := t\<rparr>) = idle x" "idle (x\<lparr>rr_pin_attempts := n\<rparr>) = idle x"
  "idle (x\<lparr>rr_blocked := b\<rparr>) = idle x" "idle (x\<lparr>rr_provided_pins := k'\<rparr>) = idle x"
  "idle (x\<lparr>rr_control := c\<rparr>) = idle x" "idle (x\<lparr>rr_accepting := a\<rparr>) = idle x"
  by (simp_all add: idle_def)

lemma nonce_quiet: "quiet r (handle_nonce E msg r) \<and> rr_state (handle_nonce E msg r) \<in> {rr_state r, WaitToken}"
  by (cases msg)
    (auto simp: handle_nonce_def send_msg_def Let_def quiet_same_remapper same_defs split: option.split)

text \<open>The part of \<open>handleToken\<close> after the check of the sender's key.\<close>

definition answer_token :: "rtc_env \<Rightarrow> rtc_receiver \<Rightarrow> rtc_receiver" where
  "answer_token E r =
     (case generate_token_with_nonce (re_ops E) (re_key E) (rr_final_nonce r) of
        None \<Rightarrow> try_send E (OutError ''internal error: token generation failed'') r
      | Some t \<Rightarrow>
          (try_send E (OutTokenResponse (if rr_pin r \<noteq> [] then status_pin_required else status_ok) t) r)
            \<lparr>rr_state := (if rr_pin r \<noteq> [] then WaitPin else WaitFileList)\<rparr>)"

definition with_trusted_key :: "rtc_env \<Rightarrow> string \<Rightarrow> rtc_receiver \<Rightarrow> rtc_receiver" where
  "with_trusted_key E token r =
     (let r1 = r\<lparr>rr_sender_token := token\<rparr>
      in if rr_sender_key r1 = None \<and> rr_trusted r1 \<noteq> None \<and> rr_require_pairing r1
         then (case find_trusted_sender E token r1 of
                 Some (key, pem) \<Rightarrow> r1\<lparr>rr_sender_key := Some key, rr_sender_pem := pem\<rparr>
               | None \<Rightarrow> r1)
         else r1)"

lemma handle_token_eq:
  "handle_token E (MTokenRequest token) r =
     (let r2 = with_trusted_key E token r
      in case rr_sender_key r2 of
           Some key \<Rightarrow>
             if verify_token_nonce (re_ops E) key token (rr_final_nonce r2) \<noteq> None
             then terminate E (try_send E (OutTokenResponse status_invalid_signature []) r2)
             else answer_token E r2
         | None \<Rightarrow> answer_token E r2)"
  unfolding handle_token_def with_trusted_key_def answer_token_def
  by (simp only: rtc_msg.case Let_def)

lemma trusted_key_frame:
  "quiet r (with_trusted_key E t x) = quiet r x" "idle (with_trusted_key E t x) = idle x"
  "rr_state (with_trusted_key E t x) = rr_state x" "rr_pin (with_trusted_key E t x) = rr_pin x"
  by (simp_all add: with_trusted_key_def Let_def split: option.split prod.split)

lemma token_quiet:
  assumes "idle r"
  shows "quiet r (handle_token E msg r) \<and>
     (rr_state (handle_token E msg r) \<in> {rr_state r, RtcDone, WaitPin} \<or>
      rr_state (handle_token E msg r) = WaitFileList \<and> rr_pin r = [])"
proof (cases msg)
  case (MTokenRequest token)
  let ?x = "with_trusted_key E token r"
  have "quiet r (answer_token E ?x) \<and> (rr_state (answer_token E ?x) \<in> {rr_state r, WaitPin} \<or>
      rr_state (answer_token E ?x) = WaitFileList \<and> rr_pin r = [])"
    by (simp add: answer_token_def trusted_key_frame split: option.split)
  then show ?thesis
    unfolding MTokenRequest handle_token_eq Let_def
    using assms by (auto simp: trusted_key_frame split: option.split)
qed (simp_all add: handle_token_def)

lemma pin_quiet:
  "idle r \<Longrightarrow> quiet r (handle_pin E msg r) \<and>
     (rr_state (handle_pin E msg r) \<in> {rr_state r, RtcDone} \<or>
      rr_state (handle_pin E msg r) = WaitFileList \<and> msg = MPin (rr_pin r))"
  by (cases msg) (simp_all add: handle_pin_def Let_def)

definition offered :: "rtc_receiver \<Rightarrow> rtc_file list \<Rightarrow> string list \<Rightarrow> rtc_receiver" where
  "offered r files ids =
     (snd (rtc_folder_transfer ((rebuild_file_index (r\<lparr>rr_files := files\<rparr>))\<lparr>rr_folder_known := False\<rparr>)))\<lparr>rr_accepted := ids\<rparr>"

lemma offered_frame:
  "quiet r (offered r files ids) \<and> rr_state (offered r files ids) = rr_state r \<and>
   rr_peer (offered r files ids) = rr_peer r \<and> rr_require_pairing (offered r files ids) = rr_require_pairing r \<and>
   rr_sender_key (offered r files ids) = rr_sender_key r"
  by (auto simp: offered_def rtc_folder_transfer_def rebuild_file_index_def Let_def intro!: quiet_same_remapper
      simp: same_defs)

lemma list_quiet:
  assumes "idle r"
  shows "quiet r (handle_file_list E msg j r) \<and>
     rr_state (handle_file_list E msg j r) \<in> {rr_state r, RtcDone, WaitPairResponse, WaitFiles}"
proof -
  consider (pin) "msg_type msg = ''status_PIN_REQUIRED''"
    | (refused) "msg_type msg = ''status_TOO_MANY_ATTEMPTS''"
    | (other) "msg_type msg \<notin> {''status_PIN_REQUIRED'', ''status_TOO_MANY_ATTEMPTS'', ''file_list'', ''status_OK''}"
    | (list) "msg_type msg \<in> {''file_list'', ''status_OK''}" by blast
  then show ?thesis
  proof cases
    case pin
    then show ?thesis using assms by (auto simp: handle_file_list_eq Let_def send_msg_def)
  next
    case refused
    then show ?thesis using assms by (auto simp: handle_file_list_eq)
  next
    case other
    then show ?thesis by (simp add: handle_file_list_eq)
  next
    case list
    show ?thesis
    proof (cases "decode_file_list j")
      case None
      with list show ?thesis by (auto simp: handle_file_list_eq)
    next
      case (Some x)
      obtain st files where x: "x = (st, files)" by fastforce
      let ?ids = "case re_select E of Some f \<Rightarrow> f files | None \<Rightarrow> map rf_id files"
      let ?r2 = "offered r files ?ids"
      define ask where "ask = (case send_chunked E (OutFileList status_pair [] (re_key_pem E)) ?r2 of
               (True, r3) \<Rightarrow> r3\<lparr>rr_state := WaitPairResponse\<rparr>
             | (False, r3) \<Rightarrow> r3)"
      have h: "handle_file_list E msg j r =
         (if max_files_per_session < length files then try_chunked E (OutFileList status_declined [] []) r
          else if rr_peer ?r2 = None then ?r2
          else if ?ids = [] then try_chunked E (OutFileList status_declined [] []) ?r2
          else if rr_require_pairing ?r2 \<and> rr_sender_key ?r2 = None then ask
          else accept_files_now E ?r2)"
      proof -
        have n: "(msg_type msg = ''status_PIN_REQUIRED'') = False" "(msg_type msg = ''status_TOO_MANY_ATTEMPTS'') = False"
          "(msg_type msg \<noteq> ''file_list'' \<and> msg_type msg \<noteq> ''status_OK'') = False"
          using list by auto
        show ?thesis
          unfolding handle_file_list_eq n Some x ask_def offered_def
          by (simp only: if_False option.case prod.case Let_def)
      qed
      note o = offered_frame [of r files ?ids]
      have p: "quiet ?r2 ask \<and> rr_state ask \<in> {rr_state r, WaitPairResponse}"
        unfolding ask_def using o by (auto simp: send_defs)
      define P where "P x \<longleftrightarrow> quiet r x \<and> rr_state x \<in> {rr_state r, RtcDone, WaitPairResponse, WaitFiles}" for x
      have "P (accept_files_now E ?r2)" unfolding P_def
        using o accept_quiet [of ?r2 E] accept_state [of E ?r2] quiet_trans [of r ?r2] by auto
      moreover have "P ask" unfolding P_def using o p quiet_trans [of r ?r2] by blast
      moreover have "P (try_chunked E m r)" "P ?r2" "P (try_chunked E m ?r2)" for m
        unfolding P_def using o by simp_all
      ultimately have "P (handle_file_list E msg j r)"
        unfolding h by (simp only: if_True if_False split: if_split) simp
      then show ?thesis unfolding P_def .
    qed
  qed
qed

text \<open>The outcomes of a pair response: nothing, the end, or the files are accepted, with or without
  a new key, which then has signed the sender's token.\<close>

lemma pair_cases:
  assumes "handle_pair_response E msg j r = Some r'"
  obtains (same) "r' = r"
  | (ended) "r' = terminate E r"
  | (accepted) "r' = accept_files_now E r"
  | (paired) key pem s d where "r' = accept_files_now E
        (r\<lparr>rr_sender_key := Some key, rr_sender_pem := pem, rr_trusted := s, rr_config_disk := d\<rparr>)"
      "rr_sender_token r = [] \<or> verify_token_nonce (re_ops E) key (rr_sender_token r) (rr_final_nonce r) = None"
proof (cases "msg_type msg \<in> {''pair_response'', ''status_OK'', ''status_PAIR_DECLINED'', ''status_INVALID_SIGNATURE''}")
  case False
  with assms same show thesis by (simp add: handle_pair_response_def)
next
  case ty: True
  show thesis
  proof (cases "decode_pair_response j")
    case None
    with assms ty same show thesis by (simp add: handle_pair_response_def split: if_splits)
  next
    case (Some resp)
    have h: "handle_pair_response E msg j r = (if pp_status resp = ''OK'' then
               (if pp_public_key resp = [] then Some (accept_files_now E r)
                else
                  (case re_parse_pem E (pp_public_key resp) of
                     None \<Rightarrow> Some r
                   | Some key \<Rightarrow>
                       if rr_sender_token r \<noteq> [] \<and>
                          verify_token_nonce (re_ops E) key (rr_sender_token r) (rr_final_nonce r) \<noteq> None
                       then Some r
                       else
                         let r1 = r\<lparr>rr_sender_key := Some key, rr_sender_pem := pp_public_key resp\<rparr>
                         in (case rr_trusted r1 of
                               None \<Rightarrow> Some (accept_files_now E r1)
                             | Some s \<Rightarrow>
                                 let d = \<lparr>td_alias = (if rr_sender_alias r1 = [] then ''Unknown Device'' else rr_sender_alias r1),
                                          td_public_key = pp_public_key resp, td_added_at = re_now E div second\<rparr>
                                 in (case store_add (env_store E) (re_encode E) (re_sha E) (device_list s) d s (rr_config_disk r1) of
                                       (StorePanic, s', fs) \<Rightarrow> None
                                     | (_, s', fs) \<Rightarrow>
                                         Some (accept_files_now E (r1\<lparr>rr_trusted := Some s', rr_config_disk := fs\<rparr>))))))
             else if pp_status resp = ''PAIR_DECLINED'' then
               (if rr_require_pairing r then Some (terminate E r) else Some (accept_files_now E r))
             else Some r)"
    proof -
      have n: "(msg_type msg \<noteq> ''pair_response'' \<and> msg_type msg \<noteq> ''status_OK'' \<and>
         msg_type msg \<noteq> ''status_PAIR_DECLINED'' \<and> msg_type msg \<noteq> ''status_INVALID_SIGNATURE'') = False"
        using ty by auto
      show ?thesis unfolding handle_pair_response_def n Some by (simp only: if_False option.case)
    qed
    consider (ok) "pp_status resp = ''OK''" | (other) "pp_status resp \<noteq> ''OK''" by blast
    then show thesis
    proof cases
      case other
      with assms have "Some r' = (if pp_status resp = ''PAIR_DECLINED'' then
          (if rr_require_pairing r then Some (terminate E r) else Some (accept_files_now E r)) else Some r)"
        unfolding h by simp
      then show thesis using same ended accepted by (simp split: if_splits)
    next
      case ok
      show thesis
      proof (cases "pp_public_key resp = []")
        case True
        with assms ok accepted show thesis unfolding h by simp
      next
        case key: False
        show thesis
        proof (cases "re_parse_pem E (pp_public_key resp)")
          case None
          with assms ok key same show thesis unfolding h by simp
        next
          case pem: (Some k)
          let ?bad = "rr_sender_token r \<noteq> [] \<and> verify_token_nonce (re_ops E) k (rr_sender_token r) (rr_final_nonce r) \<noteq> None"
          let ?r1 = "r\<lparr>rr_sender_key := Some k, rr_sender_pem := pp_public_key resp\<rparr>"
          show thesis
          proof (cases ?bad)
            case True
            with assms ok key pem same show thesis unfolding h by simp
          next
            case good: False
            then have v: "rr_sender_token r = [] \<or> verify_token_nonce (re_ops E) k (rr_sender_token r) (rr_final_nonce r) = None"
              by blast
            show thesis
            proof (cases "rr_trusted r")
              case None
              have "?r1 = ?r1\<lparr>rr_trusted := None, rr_config_disk := rr_config_disk r\<rparr>" using None by simp
              moreover have "r' = accept_files_now E ?r1" using assms ok key pem v None unfolding h by (auto simp: Let_def split: if_splits)
              ultimately show thesis using paired [OF _ v] by metis
            next
              case st: (Some store)
              obtain x s' fs where add: "store_add (env_store E) (re_encode E) (re_sha E) (device_list store)
                  \<lparr>td_alias = (if rr_sender_alias r = [] then ''Unknown Device'' else rr_sender_alias r),
                   td_public_key = pp_public_key resp, td_added_at = re_now E div second\<rparr> store (rr_config_disk r) = (x, s', fs)"
                by (metis prod_cases3)
              with assms ok key pem v st
              have "r' = accept_files_now E (?r1\<lparr>rr_trusted := Some s', rr_config_disk := fs\<rparr>)"
                unfolding h by (auto simp: Let_def split: store_result.splits if_splits)
              then show thesis by (rule paired [OF _ v])
            qed
          qed
        qed
      qed
    qed
  qed
qed

lemma pair_quiet:
  assumes "handle_pair_response E msg j r = Some r'" "idle r"
  shows "quiet r r' \<and> rr_state r' \<in> {rr_state r, RtcDone, WaitFiles}"
proof -
  have a: "quiet r (accept_files_now E r1) \<and> rr_state (accept_files_now E r1) \<in> {rr_state r, WaitFiles}"
    if "quiet r r1" "rr_state r1 = rr_state r" for r1
    using that accept_quiet [of r1 E] accept_state [of E r1] quiet_trans by metis
  from assms(1) show ?thesis
  proof (cases rule: pair_cases)
    case (paired key pem s d)
    have "quiet r r' \<and> rr_state r' \<in> {rr_state r, WaitFiles}"
      unfolding paired(1) by (rule a) simp_all
    then show ?thesis by blast
  next
    case accepted
    with a [of r] show ?thesis by auto
  qed (use assms(2) in simp_all)
qed

subsection \<open>Every step\<close>

definition rtc_ok :: "rtc_receiver \<Rightarrow> bool" where
  "rtc_ok r \<longleftrightarrow> file_ok r \<and> good_dests r \<and>
     (idle r \<and> rr_state r \<noteq> ReceivingFiles \<or> busy r \<and> rr_state r \<in> {ReceivingFiles, RtcDone})"

lemma idle_not_busy: "idle r \<Longrightarrow> \<not> busy r"
  by (auto simp: idle_def busy_def open_at_def)

text \<open>What a step leads to.\<close>

definition good_step :: "rtc_receiver \<Rightarrow> rtc_receiver \<Rightarrow> bool" where
  "good_step r r' \<longleftrightarrow> sim r r' \<and>
     (idle r' \<and> rr_state r' \<noteq> ReceivingFiles \<or> busy r' \<and> rr_state r' \<in> {ReceivingFiles, RtcDone})"

lemma good_step_ok: "good_step r r' \<Longrightarrow> rtc_ok r \<Longrightarrow> rtc_ok r'"
  using good_dests_sim by (auto simp: good_step_def rtc_ok_def file_ok_def sim_def)

lemma good_step_trans: "sim r r1 \<Longrightarrow> good_step r1 r2 \<Longrightarrow> good_step r r2"
  by (auto simp: good_step_def intro: sim_trans)

lemma good_step_then: "good_step r r1 \<Longrightarrow> good_step r1 r2 \<Longrightarrow> good_step r r2"
  by (rule good_step_trans [of r r1]) (simp_all add: good_step_def)

lemma quiet_good:
  "rtc_ok r \<Longrightarrow> idle r \<Longrightarrow> quiet r r' \<Longrightarrow> rr_state r' \<noteq> ReceivingFiles \<Longrightarrow> good_step r r'"
  using sim_quiet [of r r'] idle_same [of r r'] by (auto simp: good_step_def rtc_ok_def file_ok_def quiet_def)

text \<open>A step that only touches fields the files do not depend on.\<close>

lemma busy_kept:
  "busy r \<Longrightarrow> same_files r r' \<Longrightarrow> lookup_file (rr_current r) r' = lookup_file (rr_current r) r \<Longrightarrow> busy r'"
  by (auto simp: busy_def open_at_def same_files_def)

lemma aside_good:
  assumes "rtc_ok r" "quiet r r'" "\<And>j. lookup_file j r' = lookup_file j r" "rr_state r' \<in> {rr_state r, RtcDone}"
  shows "good_step r r'"
proof -
  have "sim r r'" using assms(1,2) sim_quiet by (auto simp: rtc_ok_def file_ok_def)
  with assms show ?thesis
    using idle_same [of r r'] busy_kept [of r r'] by (auto simp: good_step_def rtc_ok_def quiet_def)
qed

lemma lookup_aside [simp]:
  "lookup_file j (r\<lparr>rr_control := c\<rparr>) = lookup_file j r"
  "lookup_file j (r\<lparr>rr_state := st\<rparr>) = lookup_file j r"
  "lookup_file j (r\<lparr>rr_accepting := b\<rparr>) = lookup_file j r"
  "lookup_file j (r\<lparr>rr_peer := q\<rparr>) = lookup_file j r"
  "lookup_file j (r\<lparr>rr_blocked := m\<rparr>) = lookup_file j r"
  "lookup_file j (r\<lparr>rr_last_id := i\<rparr>) = lookup_file j r"
  "lookup_file j (r\<lparr>rr_last_bytes := n\<rparr>) = lookup_file j r"
  "lookup_file j (r\<lparr>rr_last_progress := t\<rparr>) = lookup_file j r"
  by (rule lookup_same; simp)+

lemma cleaned_good:
  assumes "rtc_ok r" "quiet (cleanup_partial_files E r) r'" "rr_state r' \<noteq> ReceivingFiles"
  shows "good_step r r'"
proof -
  note c = sim_cleanup [of r E]
  have "sim r (cleanup_partial_files E r)" "idle (cleanup_partial_files E r)"
    using c assms(1) by (auto simp: rtc_ok_def)
  moreover from this have "sim (cleanup_partial_files E r) r'" "idle r'"
    using sim_quiet [OF assms(2)] idle_same [of _ r'] assms(2) by (auto simp: sim_def quiet_def)
  ultimately show ?thesis using sim_trans assms(3) by (auto simp: good_step_def)
qed

lemma start_good:
  "rtc_ok r \<Longrightarrow> idle r \<Longrightarrow> good_step r (start_receiving_file E i t r)"
  using sim_start [of r E i t] by (auto simp: good_step_def rtc_ok_def file_ok_def)

lemma dispatch_good:
  assumes "rtc_ok r" "dispatch_message E d r = Some r'"
  shows "good_step r r'"
proof (cases "idle r")
  case False
  then have b: "busy r" "rr_state r \<in> {ReceivingFiles, RtcDone}" using assms(1) by (auto simp: rtc_ok_def)
  with assms(2) have "r' = r"
    by (auto simp: dispatch_message_def Let_def split: option.splits rtc_state.splits)
  with assms(1) show ?thesis using aside_good [of r r] by simp
next
  case i: True
  then have st: "rr_state r \<noteq> ReceivingFiles" using assms(1) idle_not_busy by (auto simp: rtc_ok_def)
  have same: "good_step r r" using aside_good [of r r] assms(1) by simp
  show ?thesis
  proof (cases "parse_rtc_message (re_parse E) d")
    case None
    have "sim r (handle_binary_data E d r) \<and> idle (handle_binary_data E d r) \<and>
        rr_state (handle_binary_data E d r) \<in> {rr_state r, WaitFiles}"
      using sim_data [of r E d] assms(1) idle_not_busy [OF i] by (auto simp: rtc_ok_def)
    then have "good_step r (handle_binary_data E d r)" using st by (auto simp: good_step_def)
    with None assms(2) same show ?thesis
      by (auto simp: dispatch_message_def split: if_splits list.splits)
  next
    case (Some msg)
    let ?j = "the (re_parse E d)"
    show ?thesis
    proof (cases "rr_state r")
      case WaitNonce
      then have "r' = handle_nonce E msg r" using Some assms(2) by (simp add: dispatch_message_def Let_def)
      with nonce_quiet [of r E msg] st show ?thesis by (intro quiet_good [OF assms(1) i]) auto
    next
      case WaitToken
      then have "r' = handle_token E msg r" using Some assms(2) by (simp add: dispatch_message_def Let_def)
      with token_quiet [OF i, of E msg] st show ?thesis by (intro quiet_good [OF assms(1) i]) auto
    next
      case WaitPin
      then have "r' = handle_pin E msg r" using Some assms(2) by (simp add: dispatch_message_def Let_def)
      with pin_quiet [OF i, of E msg] st show ?thesis by (intro quiet_good [OF assms(1) i]) auto
    next
      case WaitFileList
      then have "r' = handle_file_list E msg ?j r" using Some assms(2) by (simp add: dispatch_message_def Let_def)
      with list_quiet [OF i, of E msg ?j] st show ?thesis by (intro quiet_good [OF assms(1) i]) auto
    next
      case WaitPairResponse
      then have "handle_pair_response E msg ?j r = Some r'" using Some assms(2) by (simp add: dispatch_message_def Let_def)
      from pair_quiet [OF this i] st show ?thesis by (intro quiet_good [OF assms(1) i]) auto
    next
      case WaitFiles
      then have "r' = handle_file_header E msg r" using Some assms(2) by (simp add: dispatch_message_def Let_def)
      with start_good [OF assms(1) i] same show ?thesis by (cases msg) (simp_all add: handle_file_header_def)
    qed (use Some assms(2) same in \<open>simp_all add: dispatch_message_def Let_def\<close>)
  qed
qed

lemma control_ok: "rtc_ok r \<Longrightarrow> good_step r (r\<lparr>rr_control := c\<rparr>)"
  by (rule aside_good) simp_all

lemma data_good:
  assumes "rtc_ok r" "handle_data_message E d istext r = Some r'"
  shows "good_step r r'"
proof (cases "rr_state r = ReceivingFiles \<and> rr_current r \<noteq> []")
  case True
  then have b: "busy r" "file_ok r" using assms(1) by (auto simp: rtc_ok_def)
  show ?thesis
  proof (cases istext)
    case False
    with True assms(2) have "r' = handle_binary_data E d r" by (simp add: handle_data_message_def)
    with sim_data [OF b(2), of E d] b(1) True show ?thesis by (auto simp: good_step_def)
  next
    case text_frame: True
    let ?f = "finish_current_file E r"
    have f: "sim r ?f" "idle ?f" using sim_finish [OF b(2)] True by auto
    have ok: "rtc_ok (?f\<lparr>rr_state := st\<rparr>)" if "st \<noteq> ReceivingFiles" for st
      using f assms(1) that good_dests_sim [OF f(1)]
      by (auto simp: rtc_ok_def file_ok_def sim_def balanced_def remapper_ok_def good_dests_def dests_def)
    have close: "good_step r (?f\<lparr>rr_state := RtcDone, rr_peer := None\<rparr>)"
    proof -
      have "sim ?f (?f\<lparr>rr_state := RtcDone, rr_peer := None\<rparr>)"
        using f by (intro sim_quiet) (auto simp: sim_def)
      then show ?thesis using f sim_trans by (auto simp: good_step_def)
    qed
    have start: "good_step r (start_receiving_file E i t ?f)" for i t
      using sim_start [of ?f E i t] f assms(1) good_dests_sim [OF f(1)] sim_trans [OF f(1)]
      by (auto simp: good_step_def sim_def [of r ?f] rtc_ok_def)
    have h: "(if d = ''0'' then Some (?f\<lparr>rr_state := RtcDone, rr_peer := None\<rparr>)
        else (case re_parse E d of
                None \<Rightarrow> Some (terminate E ?f)
              | Some j \<Rightarrow>
                  (case decode_header j of
                     None \<Rightarrow> Some (terminate E ?f)
                   | Some (i, token) \<Rightarrow>
                       if i = [] then Some (terminate E ?f) else Some (start_receiving_file E i token ?f)))) = Some r'"
      using assms(2) True text_frame by (simp add: handle_data_message_def Let_def)
    show ?thesis
    proof (cases "r' = ?f\<lparr>rr_state := RtcDone, rr_peer := None\<rparr>")
      case False
      with h f(2) obtain i t where "r' = start_receiving_file E i t ?f"
        by (cases "re_parse E d"; cases "decode_header (the (re_parse E d))") (auto split: if_splits)
      with start show ?thesis by simp
    qed (use close in simp)
  qed
next
  case False
  have disp: "good_step r r'" if "dispatch_message E x (r\<lparr>rr_control := c\<rparr>) = Some r'" for x c
    using good_step_then [OF control_ok [OF assms(1), of c]
        dispatch_good [OF good_step_ok [OF control_ok [OF assms(1), of c] assms(1)] that]] .
  have h: "(if istext \<and> d = ''0'' then
        (if rr_control r \<noteq> [] then dispatch_message E (rr_control r) (r\<lparr>rr_control := []\<rparr>) else Some r)
      else if \<not> istext then
        (if max_control_message_bytes < length (rr_control r) + length d then Some (r\<lparr>rr_control := []\<rparr>)
         else Some (r\<lparr>rr_control := rr_control r @ d\<rparr>))
      else dispatch_message E d r) = Some r'"
    using False assms(2) by (simp only: handle_data_message_def if_False)
  have same: "good_step r r'" if "r' = r\<lparr>rr_control := c\<rparr>" for c
    using control_ok [OF assms(1), of c] that by simp
  have self: "r\<lparr>rr_control := rr_control r\<rparr> = r" by simp
  consider "istext \<and> d = ''0''" | "\<not> istext" | "istext \<and> d \<noteq> ''0''" by blast
  then show ?thesis
  proof cases
    case 1
    show ?thesis
    proof (cases "rr_control r = []")
      case True
      with h 1 have "r' = r" by simp
      then show ?thesis using same [of "rr_control r"] self by simp
    next
      case c: False
      with h 1 have "dispatch_message E (rr_control r) (r\<lparr>rr_control := []\<rparr>) = Some r'" by simp
      then show ?thesis by (rule disp)
    qed
  next
    case 2
    with h have "r' = r\<lparr>rr_control := []\<rparr> \<or> r' = r\<lparr>rr_control := rr_control r @ d\<rparr>"
      by (simp split: if_splits)
    then show ?thesis using same by blast
  next
    case 3
    with h have "dispatch_message E d r = Some r'" by simp
    then show ?thesis using disp [of d "rr_control r"] self by simp
  qed
qed

lemma watchdog_good: "rtc_ok r \<Longrightarrow> good_step r (check_transfer_watchdog E g r)"
proof -
  assume ok: "rtc_ok r"
  define r1 where "r1 = (if rr_current r \<noteq> rr_last_id r \<or> rr_bytes r \<noteq> rr_last_bytes r
       then r\<lparr>rr_last_id := rr_current r, rr_last_bytes := rr_bytes r, rr_last_progress := re_now E\<rparr> else r)"
  have q: "quiet r r1" "\<And>j. lookup_file j r1 = lookup_file j r" "rr_state r1 = rr_state r"
    by (auto simp: r1_def intro!: quiet_same_remapper simp: same_defs)
  then have g: "good_step r r1" using aside_good ok by simp
  have "good_step r1 (terminate E r1)"
    unfolding terminate_def by (rule cleaned_good [OF good_step_ok [OF g ok], of E]) simp_all
  then have t: "good_step r (terminate E r1)" using good_step_then [OF g] by simp
  have s: "good_step r r" using aside_good [of r r] ok by simp
  show ?thesis
    unfolding check_transfer_watchdog_def Let_def r1_def [symmetric] using g t s by simp
qed

lemma offer_good: "rtc_ok r \<Longrightarrow> good_step r (snd (reserve_offer E i a r))"
proof -
  assume ok: "rtc_ok r"
  obtain bl b where b: "is_peer_blocked (re_now E) i (rr_blocked r) = (bl, b)" by fastforce
  have g1: "good_step r (r\<lparr>rr_blocked := b\<rparr>)" by (rule aside_good [OF ok]) simp_all
  let ?r1 = "r\<lparr>rr_blocked := b, rr_peer := None, rr_accepting := True\<rparr>"
  have g2: "good_step r ?r1" by (rule aside_good [OF ok]) simp_all
  let ?r2 = "(cleanup_partial_files E ?r1)
               \<lparr>rr_tokens := [], rr_files := [], rr_file_by_id := [], rr_accepted := [],
                rr_folder_known := False, rr_folder := False, rr_ensured := [], rr_unique := alloc_reset (rr_unique r),
                rr_control := [], rr_remote_nonce := [], rr_local_nonce := [], rr_final_nonce := [],
                rr_pin_attempts := 0, rr_provided_pins := 0, rr_sender_key := None, rr_sender_pem := [],
                rr_sender_token := [], rr_sender_alias := a, rr_sender_id := i,
                rr_state := WaitNonce\<rparr>"
  have "good_step ?r1 ?r2"
    by (rule cleaned_good [OF good_step_ok [OF g2 ok], of E]) (auto intro: quiet_same_remapper simp: same_defs)
  then have g3: "good_step r ?r2" using good_step_then [OF g2] by simp
  show ?thesis
    unfolding reserve_offer_def b using g1 g3 by (simp split: bool.split)
qed

lemma step_good:
  assumes "rtc_ok r" "rtc_step e r = Some r'"
  shows "good_step r r'"
proof (cases e)
  case (EvOffer E i a)
  with assms offer_good show ?thesis by auto
next
  case EvAcceptFailed
  with assms(2) have "r' = fail_accept r" by simp
  then show ?thesis by (intro aside_good [OF assms(1)]) (simp_all add: fail_accept_def)
next
  case (EvPeer p)
  with assms(2) have "r' = snd (install_peer p r)" by simp
  then show ?thesis by (intro aside_good [OF assms(1)]) (simp_all add: install_peer_def)
next
  case (EvData E d istext)
  with assms data_good show ?thesis by simp
next
  case (EvClosed E p)
  have "good_step r (handle_peer_closed E p r)"
  proof (cases "rr_peer r = Some p")
    case True
    then show ?thesis unfolding handle_peer_closed_def by (simp add: cleaned_good [OF assms(1), of E])
  next
    case False
    then show ?thesis using aside_good [of r r] assms(1) by (simp add: handle_peer_closed_def)
  qed
  with EvClosed assms(2) show ?thesis by simp
next
  case (EvWatchdog E g)
  with assms watchdog_good show ?thesis by auto
next
  case (EvClose E)
  have "good_step r (rtc_close E r)" unfolding rtc_close_def by (rule cleaned_good [OF assms(1), of E]) simp_all
  with EvClose assms(2) show ?thesis by simp
qed

lemma step_ok: "rtc_ok r \<Longrightarrow> rtc_step e r = Some r' \<Longrightarrow> rtc_ok r'"
  using step_good good_step_ok by blast

lemma run_ok: "rtc_run evs r = Some r' \<Longrightarrow> rtc_ok r \<Longrightarrow> rtc_ok r'"
  by (erule run_invariant [where I = rtc_ok]) (blast intro: step_ok)+

lemma run_sim: "rtc_run evs r = Some r' \<Longrightarrow> rtc_ok r \<Longrightarrow> sim r r'"
proof (induction evs arbitrary: r)
  case Nil
  then show ?case by (auto simp: rtc_ok_def file_ok_def intro: sim_refl)
next
  case (Cons e es)
  then obtain r1 where 1: "rtc_step e r = Some r1" "rtc_run es r1 = Some r'" by (auto split: option.splits)
  have g: "good_step r r1" using step_good [OF Cons.prems(2) 1(1)] .
  have "sim r1 r'" using Cons.IH [OF 1(2) good_step_ok [OF g Cons.prems(2)]] .
  with g show ?case unfolding good_step_def using sim_trans by blast
qed

end
