(* ===== verification/RTC_Auth.thy ===== *)
theory RTC_Auth
  imports RTC_Files
begin

text \<open>
  Who may send files over WebRTC: the key of the sender is a fact on the history of a connection, proved by following
  which event leads to which state. What an event has to do with the PIN is defined here, for \<open>RTC_Net\<close>.
\<close>

subsection \<open>The PIN\<close>

definition open_states :: "rtc_state set" where
  "open_states = {WaitFileList, WaitPairResponse, WaitFiles, ReceivingFiles}"

text \<open>The control message a data frame completes.\<close>

definition message_of :: "bytes \<Rightarrow> bool \<Rightarrow> rtc_receiver \<Rightarrow> bytes" where
  "message_of d is_string r = (if is_string \<and> d = ''0'' \<and> rr_control r \<noteq> [] then rr_control r else d)"

fun presents_pin :: "rtc_event \<Rightarrow> rtc_receiver \<Rightarrow> bool" where
  "presents_pin (EvData E d is_string) r \<longleftrightarrow>
     parse_rtc_message (re_parse E) (message_of d is_string r) = Some (MPin (rr_pin r))"
| "presents_pin _ r \<longleftrightarrow> False"

fun accepts_offer :: "rtc_event \<Rightarrow> rtc_receiver \<Rightarrow> bool" where
  "accepts_offer (EvOffer E i a) r = fst (reserve_offer E i a r)"
| "accepts_offer _ r = False"

subsection \<open>The key of the sender\<close>

definition keyed :: "crypto_ops \<Rightarrow> rtc_receiver \<Rightarrow> bool" where
  "keyed ops r \<longleftrightarrow>
     (rr_state r \<in> insert WaitPin open_states \<longrightarrow>
        rr_sender_token r \<noteq> [] \<and>
        (\<forall>key. rr_sender_key r = Some key \<longrightarrow>
           verify_token_nonce ops key (rr_sender_token r) (rr_final_nonce r) = None))"

lemma keyed_same:
  assumes "keyed ops r" "auth r' = auth r" "rr_state r' \<in> insert WaitPin open_states \<Longrightarrow> rr_state r \<in> insert WaitPin open_states"
  shows "keyed ops r'"
  using assms unfolding keyed_def auth_def by auto

lemma keyed_done: "rr_state r \<in> {WaitNonce, WaitToken, RtcDone} \<Longrightarrow> keyed ops r"
  by (auto simp: keyed_def open_states_def)

lemma auth_updates [simp]:
  "auth (r\<lparr>rr_state := st\<rparr>) = auth r" "auth (r\<lparr>rr_peer := p\<rparr>) = auth r" "auth (r\<lparr>rr_sent := l\<rparr>) = auth r"
  "auth (r\<lparr>rr_control := c\<rparr>) = auth r" "auth (r\<lparr>rr_current := i\<rparr>) = auth r" "auth (r\<lparr>rr_bytes := n\<rparr>) = auth r"
  "auth (r\<lparr>rr_unique := a\<rparr>) = auth r" "auth (r\<lparr>rr_pin_attempts := n\<rparr>) = auth r"
  "auth (r\<lparr>rr_provided_pins := k\<rparr>) = auth r" "auth (r\<lparr>rr_blocked := b\<rparr>) = auth r"
  "auth (r\<lparr>rr_accepted := ids\<rparr>) = auth r" "auth (r\<lparr>rr_tokens := t\<rparr>) = auth r"
  "auth (r\<lparr>rr_file_by_id := m\<rparr>) = auth r" "auth (r\<lparr>rr_trusted := s\<rparr>) = auth r"
  "auth (r\<lparr>rr_config_disk := d\<rparr>) = auth r" "auth (r\<lparr>rr_disk := d'\<rparr>) = auth r"
  "auth (r\<lparr>rr_buffers := bs\<rparr>) = auth r" "auth (r\<lparr>rr_paths := ps\<rparr>) = auth r" "auth (r\<lparr>rr_hashers := hs\<rparr>) = auth r"
  "auth (r\<lparr>rr_received := xs\<rparr>) = auth r" "auth (r\<lparr>rr_remapper := x\<rparr>) = auth r" "auth (r\<lparr>rr_accepting := f\<rparr>) = auth r"
  by (simp_all add: auth_def)

lemma auth_small [simp]:
  "auth (try_send E m r) = auth r" "auth (try_chunked E m r) = auth r"
  "auth (mark_transfer_done r) = auth r" "auth (mark_transfer_started E r) = auth r"
  "auth (cleanup_partial_files E r) = auth r" "auth (terminate E r) = auth r"
  "auth (cleanup_current_file E r) = auth r" "auth (reject_file_transfer r) = auth r"
  "auth (offered r files ids) = auth r"
  by (simp_all add: send_defs mark_transfer_done_def mark_transfer_started_def cleanup_partial_files_def
      terminate_def cleanup_current_file_def reject_file_transfer_def offered_def rtc_folder_transfer_def
      rebuild_file_index_def Let_def auth_def)

lemma auth_send: "send_msg E m r = (b, r1) \<Longrightarrow> auth r1 = auth r" "send_chunked E m r = (b, r1) \<Longrightarrow> auth r1 = auth r"
  by (auto simp: send_defs split: if_splits)

lemma auth_meta: "file_meta_by_id i r = (f, r1) \<Longrightarrow> auth r1 = auth r"
  using meta_shape [of i r f r1] by auto

lemma auth_accept [simp]: "auth (accept_files_now E r) = auth r"
proof -
  obtain tok r1 where p: "prepare_files_for_receive E (rr_accepted r) r = (tok, r1)" by fastforce
  then obtain t m where r1: "r1 = (rtc_prepare_folder_remap r)\<lparr>rr_tokens := t, rr_file_by_id := m\<rparr>"
    using prepare_ids_shape unfolding prepare_files_for_receive_def by blast
  have "auth r1 = auth r" unfolding r1 rtc_prepare_folder_remap_def by (simp split: option.split)
  then show ?thesis
    unfolding accept_files_now_def p by (auto dest: auth_send split: prod.split bool.split)
qed

lemma auth_start [simp]: "auth (start_receiving_file E i t r) = auth r"
  using refl [of "start_receiving_file E i t r"]
  by (cases rule: start_cases) (simp_all add: near_def)

lemma auth_binary [simp]: "auth (handle_binary_data E d r) = auth r"
proof -
  obtain f r1 where m: "file_meta_by_id (rr_current r) r = (f, r1)" by fastforce
  show ?thesis
    unfolding handle_binary_data_def m using auth_meta [OF m]
    by (auto simp: Let_def split: option.split)
qed

lemma auth_finish [simp]: "auth (finish_current_file E r) = auth r"
proof -
  obtain f r1 where m: "file_meta_by_id (rr_current r) r = (f, r1)" by fastforce
  show ?thesis
    unfolding finish_current_file_def m using auth_meta [OF m] by (simp add: Let_def)
qed

lemma auth_pin [simp]: "auth (handle_pin E msg r) = auth r"
  by (cases msg) (simp_all add: handle_pin_def Let_def)

lemma auth_list [simp]: "auth (handle_file_list E msg j r) = auth r"
  unfolding handle_file_list_eq
  by (auto simp: Let_def offered_def [symmetric] dest: auth_send split: prod.split bool.split option.split)

lemma auth_header [simp]: "auth (handle_file_header E msg r) = auth r"
  by (cases msg) (simp_all add: handle_file_header_def)

lemma auth_watchdog [simp]: "auth (check_transfer_watchdog E g r) = auth r"
  by (simp add: check_transfer_watchdog_def Let_def) (simp add: auth_def)

lemma token_parsed: "parse_rtc_message p d = Some (MTokenRequest t) \<Longrightarrow> t \<noteq> []"
  by (auto simp: parse_rtc_message_def parse_rtc_value_def parse_status_def nonempty_def Let_def
      split: option.splits if_splits json.splits)

lemma keyed_token:
  assumes "token \<noteq> []" "re_ops E = ops" "rr_state r = WaitToken"
  shows "keyed ops (handle_token E (MTokenRequest token) r)"
proof -
  let ?x = "with_trusted_key E token r"
  have x: "rr_sender_token ?x = token" "rr_state ?x = WaitToken"
    using assms(3) by (simp_all add: with_trusted_key_def Let_def split: option.split prod.split)
  have a: "auth (answer_token E ?x) = auth ?x"
    by (simp add: answer_token_def split: option.split)
  have "keyed ops (answer_token E ?x)"
    if "\<And>key. rr_sender_key ?x = Some key \<Longrightarrow> verify_token_nonce ops key token (rr_final_nonce ?x) = None"
    using that a x assms(1) by (auto simp: keyed_def auth_def)
  moreover have "keyed ops (terminate E y)" for y by (rule keyed_done) (simp add: terminate_def)
  ultimately show ?thesis
    unfolding handle_token_eq Let_def using assms(2) by (cases "rr_sender_key ?x") auto
qed

lemma keyed_pair:
  assumes "handle_pair_response E msg j r = Some r'" "keyed ops r" "rr_state r = WaitPairResponse" "re_ops E = ops"
  shows "keyed ops r'"
proof -
  have open_st: "rr_state r \<in> insert WaitPin open_states" using assms(3) by (simp add: open_states_def)
  have tok: "rr_sender_token r \<noteq> []" using assms(2) open_st unfolding keyed_def by blast
  have acc: "keyed ops (accept_files_now E r1)" if "auth r1 = auth r" for r1
    by (rule keyed_same [OF assms(2)]) (use that open_st in auto)
  have acc2: "keyed ops (accept_files_now E r1)"
    if "auth r1 = (Some key, rr_sender_token r, rr_final_nonce r)"
      "verify_token_nonce ops key (rr_sender_token r) (rr_final_nonce r) = None" for r1 key
  proof -
    have "auth (accept_files_now E r1) = (Some key, rr_sender_token r, rr_final_nonce r)" using that(1) by simp
    with that(2) tok show ?thesis by (simp add: keyed_def auth_def)
  qed
  have au: "auth (r\<lparr>rr_sender_key := k, rr_sender_pem := p\<rparr>) = (k, rr_sender_token r, rr_final_nonce r)"
    "auth (r\<lparr>rr_sender_key := k, rr_sender_pem := p, rr_trusted := s, rr_config_disk := d\<rparr>) = (k, rr_sender_token r, rr_final_nonce r)"
    for k p s d by (simp_all add: auth_def)
  have term_ok: "keyed ops (terminate E r)" by (rule keyed_done) (simp add: terminate_def)
  from assms(1) show ?thesis
  proof (cases rule: pair_cases)
    case same
    with assms(2) show ?thesis by simp
  next
    case ended
    with term_ok show ?thesis by simp
  next
    case accepted
    with acc show ?thesis by simp
  next
    case (paired key pem s d)
    show ?thesis
      unfolding paired(1) by (rule acc2 [of _ key]) (use paired(2) tok assms(4) in \<open>simp_all add: auth_def\<close>)
  qed
qed

fun event_env :: "rtc_event \<Rightarrow> rtc_env option" where
  "event_env (EvOffer E i a) = Some E"
| "event_env EvAcceptFailed = None"
| "event_env (EvPeer p) = None"
| "event_env (EvData E d is_string) = Some E"
| "event_env (EvClosed E p) = Some E"
| "event_env (EvWatchdog E g) = Some E"
| "event_env (EvClose E) = Some E"

definition uses_ops :: "crypto_ops \<Rightarrow> rtc_event \<Rightarrow> bool" where
  "uses_ops ops e \<longleftrightarrow> (case event_env e of None \<Rightarrow> True | Some E \<Rightarrow> re_ops E = ops)"

lemma keyed_dispatch:
  assumes "rtc_ok r" "keyed ops r" "dispatch_message E d r = Some r'" "re_ops E = ops"
  shows "keyed ops r'"
proof (cases "parse_rtc_message (re_parse E) d")
  case None
  with assms(3) consider "r' = r" | "rr_state r = WaitFiles" "r' = handle_binary_data E d r"
    by (auto simp: dispatch_message_def split: if_splits list.splits)
  then show ?thesis
    using assms(2) by cases (auto intro: keyed_same simp: open_states_def)
next
  case (Some msg)
  let ?j = "the (re_parse E d)"
  have frame: "keyed ops r'" if "auth r' = auth r" "rr_state r \<in> insert WaitPin open_states"
    by (rule keyed_same [OF assms(2)]) (use that in auto)
  show ?thesis
  proof (cases "rr_state r")
    case WaitNonce
    then have "r' = handle_nonce E msg r" using Some assms(3) by (simp add: dispatch_message_def Let_def)
    with nonce_quiet [of r E msg] WaitNonce show ?thesis by (intro keyed_done) auto
  next
    case WaitToken
    then have r': "r' = handle_token E msg r" using Some assms(3) by (simp add: dispatch_message_def Let_def)
    show ?thesis
    proof (cases msg)
      case (MTokenRequest token)
      with keyed_token [OF _ assms(4) WaitToken] token_parsed [of "re_parse E" d token] Some r' show ?thesis by simp
    qed (use r' assms(2) in \<open>simp_all add: handle_token_def\<close>)
  next
    case WaitPin
    then have "r' = handle_pin E msg r" using Some assms(3) by (simp add: dispatch_message_def Let_def)
    with WaitPin show ?thesis by (intro frame) simp_all
  next
    case WaitFileList
    then have "r' = handle_file_list E msg ?j r" using Some assms(3) by (simp add: dispatch_message_def Let_def)
    with WaitFileList show ?thesis by (intro frame) (simp_all add: open_states_def)
  next
    case WaitPairResponse
    then have "handle_pair_response E msg ?j r = Some r'" using Some assms(3) by (simp add: dispatch_message_def Let_def)
    then show ?thesis using assms(2) WaitPairResponse assms(4) by (rule keyed_pair)
  next
    case WaitFiles
    then have "r' = handle_file_header E msg r" using Some assms(3) by (simp add: dispatch_message_def Let_def)
    with WaitFiles show ?thesis by (intro frame) (simp_all add: open_states_def)
  qed (use Some assms(2,3) in \<open>simp_all add: dispatch_message_def Let_def\<close>)
qed

lemma keyed_data:
  assumes "rtc_ok r" "keyed ops r" "handle_data_message E d is_string r = Some r'" "re_ops E = ops"
  shows "keyed ops r'"
proof (cases "rr_state r = ReceivingFiles \<and> rr_current r \<noteq> []")
  case True
  then have st: "rr_state r \<in> insert WaitPin open_states" by (simp add: open_states_def)
  have frame: "keyed ops x" if "auth x = auth r" for x
    by (rule keyed_same [OF assms(2)]) (use that st in auto)
  show ?thesis
  proof (cases is_string)
    case False
    with True assms(3) have "r' = handle_binary_data E d r" by (simp add: handle_data_message_def)
    then show ?thesis by (intro frame) simp
  next
    case text_frame: True
    let ?f = "finish_current_file E r"
    have "auth r' = auth r"
      using assms(3) True text_frame
      by (cases "d = ''0''"; cases "re_parse E d"; cases "decode_header (the (re_parse E d))")
        (auto simp: handle_data_message_def Let_def split: if_splits)
    then show ?thesis by (rule frame)
  qed
next
  case False
  have k: "keyed ops (r\<lparr>rr_control := c\<rparr>)" for c
    by (rule keyed_same [OF assms(2)]) simp_all
  have disp: "keyed ops r'" if "dispatch_message E x (r\<lparr>rr_control := c\<rparr>) = Some r'" for x c
    using keyed_dispatch [OF good_step_ok [OF control_ok [OF assms(1)] assms(1)] k that assms(4)] .
  have self: "r\<lparr>rr_control := rr_control r\<rparr> = r" by simp
  consider "is_string" "d = ''0''" "rr_control r \<noteq> []" | "is_string" "d = ''0''" "rr_control r = []"
    | "is_string" "d \<noteq> ''0''" | "\<not> is_string" by blast
  then show ?thesis
  proof cases
    case 1
    then show ?thesis using disp [of "rr_control r" "[]"] assms(3) False by (simp add: handle_data_message_def)
  next
    case 2
    then show ?thesis using assms(2,3) False by (simp add: handle_data_message_def)
  next
    case 3
    then have "dispatch_message E d r = Some r'" using assms(3) False by (simp add: handle_data_message_def)
    then show ?thesis using disp [of d "rr_control r"] self by simp
  next
    case 4
    then have "\<exists>c. r' = r\<lparr>rr_control := c\<rparr>" using assms(3) False by (auto simp: handle_data_message_def split: if_splits)
    with k show ?thesis by blast
  qed
qed

lemma keyed_step:
  assumes "rtc_ok r" "keyed ops r" "rtc_step e r = Some r'" "uses_ops ops e"
  shows "keyed ops r'"
proof (cases e)
  case (EvOffer E i a)
  obtain ok r1 where o: "reserve_offer E i a r = (ok, r1)" by fastforce
  then have "rr_state r1 = WaitNonce \<or> auth r1 = auth r \<and> rr_state r1 = rr_state r"
    by (auto simp: reserve_offer_def split: prod.splits bool.splits if_splits)
  with o EvOffer assms(2,3) show ?thesis by (auto intro: keyed_same keyed_done)
next
  case (EvData E d is_string)
  with assms show ?thesis by (auto intro: keyed_data simp: uses_ops_def)
next
  case (EvPeer p)
  have "auth (snd (install_peer p r)) = auth r" "rr_state (snd (install_peer p r)) = rr_state r"
    by (simp_all add: install_peer_def)
  with EvPeer assms(2,3) show ?thesis by (auto intro: keyed_same)
next
  case (EvWatchdog E g)
  have "rr_state (check_transfer_watchdog E g r) \<in> {rr_state r, RtcDone}"
    by (auto simp: check_transfer_watchdog_def Let_def terminate_def)
  with EvWatchdog assms(2,3) show ?thesis by (auto intro: keyed_same keyed_done)
next
  case (EvClosed E p)
  with assms(2,3) show ?thesis
    by (cases "rr_peer r = Some p") (auto simp: handle_peer_closed_def intro!: keyed_done)
qed (use assms(3) in \<open>auto simp: fail_accept_def rtc_close_def intro: keyed_done\<close>)

lemma run_keyed:
  assumes "rtc_run evs r = Some r'" "rtc_ok r" "keyed ops r" "list_all (uses_ops ops) evs"
  shows "keyed ops r'"
  using assms
proof (induction evs arbitrary: r)
  case (Cons e es)
  then obtain r1 where 1: "rtc_step e r = Some r1" "rtc_run es r1 = Some r'" by (auto split: option.splits)
  with Cons show ?case using keyed_step [of r ops e r1] step_ok [of r e r1] by auto
qed simp

end
