(* ===== verification/RTC_Demo.thy ===== *)
theory RTC_Demo
  imports RTC_Run
begin

text \<open>
  A complete transfer, step by step: a PIN, one file of three bytes in two frames, the end. The
  messages are one letter each, with a parser that knows just these; signatures are toys.
\<close>

definition rtc_demo_file :: rtc_file where
  "rtc_demo_file = \<lparr>rf_id = ''f'', rf_name = ''a.txt'', rf_size = 3, rf_type = ''text'', rf_sha = ''h'',
     rf_preview = [], rf_modified = [], rf_accessed = []\<rparr>"

definition rtc_demo_remote :: bytes where "rtc_demo_remote = replicate 32 (CHR ''n'')"
definition rtc_demo_local :: bytes where "rtc_demo_local = replicate 32 (CHR ''m'')"

definition rtc_demo_nonces :: bytes where
  "rtc_demo_nonces = combine_nonces rtc_demo_remote rtc_demo_local"

definition rtc_demo_token :: string where
  "rtc_demo_token = the (generate_token_with_nonce toy_ops toy_key rtc_demo_nonces)"

definition rtc_demo_json :: "(bytes, json) gomap" where
  "rtc_demo_json =
     [(''N'', encode_nonce_msg (encode_nonce rtc_demo_remote)), (''T'', encode_token_request rtc_demo_token),
      (''P'', encode_pin ''1234''), (''W'', encode_pin ''0000''), (''L'', encode_file_list ''OK'' [rtc_demo_file]),
      (''H'', encode_header ''f'' ''k0''), (''Y'', encode_pair_response ''OK'' []), (''K'', encode_pair_response ''OK'' ''pem'')]"

definition rtc_demo_env :: rtc_env where
  "rtc_demo_env =
     \<lparr>open_fails = \<lambda>_. False, mkdir_fails = \<lambda>_. False, write_fails = False, partial_write = 0,
      flush_fails = False, remove_fails = False, chtimes_fails = False,
      sync_fails = False, close_fails = False, rename_fails = False,
      re_now = 1000, re_send_fails = False, re_delimiter_fails = False,
      re_nonce = Some rtc_demo_local, re_tokens = (\<lambda>n. ''k0''), re_select = None, re_pin_answer = None,
      re_ops = toy_ops, re_key = toy_key, re_key_pem = ''pem'', re_parse_pem = (\<lambda>s. Some (to_verifying_key toy_key)),
      re_parse = map_of rtc_demo_json, re_sha = (\<lambda>c. ''h''), re_lower = (\<lambda>s. s), re_encode = (\<lambda>m. [])\<rparr>"

definition books_disk :: filesys where
  "books_disk = [''/'' \<mapsto> Dir, ''/b'' \<mapsto> Dir]"

definition rtc_demo_receiver :: "string \<Rightarrow> bool \<Rightarrow> rtc_receiver" where
  "rtc_demo_receiver pin pairing = configured pin ''/b'' None pairing None books_disk (\<lambda>p. None)"

lemma rtc_demo_decode: "decode_nonce (encode_nonce rtc_demo_remote) = Some rtc_demo_remote"
  unfolding rtc_demo_remote_def by code_simp

lemma rtc_demo_generate: "generate_token_with_nonce toy_ops toy_key rtc_demo_nonces = Some rtc_demo_token"
  unfolding rtc_demo_token_def rtc_demo_nonces_def rtc_demo_remote_def rtc_demo_local_def by code_simp

lemma rtc_demo_env_simps:
  "re_now rtc_demo_env = 1000" "re_send_fails rtc_demo_env = False" "re_delimiter_fails rtc_demo_env = False"
  "re_nonce rtc_demo_env = Some rtc_demo_local" "re_tokens rtc_demo_env = (\<lambda>n. ''k0'')"
  "re_select rtc_demo_env = None" "re_pin_answer rtc_demo_env = None" "re_parse rtc_demo_env = map_of rtc_demo_json"
  "re_sha rtc_demo_env = (\<lambda>c. ''h'')" "re_lower rtc_demo_env = (\<lambda>s. s)" "write_fails rtc_demo_env = False"
  "flush_fails rtc_demo_env = False" "close_fails rtc_demo_env = False" "env_io rtc_demo_env = no_faults"
  "re_ops rtc_demo_env = toy_ops" "re_key rtc_demo_env = toy_key" "re_key_pem rtc_demo_env = ''pem''"
  "re_parse_pem rtc_demo_env = (\<lambda>s. Some (to_verifying_key toy_key))"
  by (simp_all add: rtc_demo_env_def io_env.defs no_faults_def)

lemma rtc_demo_text:
  "map_of rtc_demo_json ''N'' = Some (encode_nonce_msg (encode_nonce rtc_demo_remote))"
  "map_of rtc_demo_json ''T'' = Some (encode_token_request rtc_demo_token)"
  "map_of rtc_demo_json ''P'' = Some (encode_pin ''1234'')"
  "map_of rtc_demo_json ''W'' = Some (encode_pin ''0000'')"
  "map_of rtc_demo_json ''L'' = Some (encode_file_list ''OK'' [rtc_demo_file])"
  "map_of rtc_demo_json ''H'' = Some (encode_header ''f'' ''k0'')"
  "map_of rtc_demo_json ''Y'' = Some (encode_pair_response ''OK'' [])"
  "map_of rtc_demo_json ''K'' = Some (encode_pair_response ''OK'' ''pem'')"
  "map_of rtc_demo_json [] = None"
  by (simp_all add: rtc_demo_json_def)

lemma rtc_demo_nonce_text: "encode_nonce rtc_demo_remote \<noteq> []"
proof
  assume "encode_nonce rtc_demo_remote = []"
  with rtc_demo_decode have "decode_nonce [] = Some rtc_demo_remote" by simp
  then have "rtc_demo_remote = []" by (simp add: decode_nonce_def b64_decode_def split: if_splits)
  then show False by (simp add: rtc_demo_remote_def)
qed

lemma rtc_demo_verifies: "verify_token_nonce toy_ops (to_verifying_key toy_key) rtc_demo_token rtc_demo_nonces = None"
  unfolding rtc_demo_token_def rtc_demo_nonces_def rtc_demo_remote_def rtc_demo_local_def by code_simp

lemma rtc_demo_token_text: "rtc_demo_token \<noteq> []"
  unfolding rtc_demo_token_def rtc_demo_nonces_def rtc_demo_remote_def rtc_demo_local_def by code_simp

lemma rtc_demo_messages:
  "parse_rtc_message (map_of rtc_demo_json) ''N'' = Some (MNonce (encode_nonce rtc_demo_remote))"
  "parse_rtc_message (map_of rtc_demo_json) ''T'' = Some (MTokenRequest rtc_demo_token)"
  "parse_rtc_message (map_of rtc_demo_json) ''P'' = Some (MPin ''1234'')"
  "parse_rtc_message (map_of rtc_demo_json) ''W'' = Some (MPin ''0000'')"
  "parse_rtc_message (map_of rtc_demo_json) ''H'' = Some (MHeader ''f'' ''k0'')"
  "parse_rtc_message (map_of rtc_demo_json) ''Y'' = Some (MStatus ''OK'' [(''status'', JText ''OK'')])"
  "parse_rtc_message (map_of rtc_demo_json) ''K'' = Some (MPairResponse \<lparr>pp_status = ''OK'', pp_public_key = ''pem''\<rparr>)"
  "parse_rtc_message (map_of rtc_demo_json) [] = None"
  using rtc_demo_nonce_text rtc_demo_token_text
  by (simp_all add: parse_rtc_message_def rtc_demo_text wire_defs parse_status_def status_pair_def Let_def)

lemma rtc_demo_list:
  "parse_rtc_message (map_of rtc_demo_json) ''L'' = Some (MFileList ''OK'' [rtc_demo_file])"
  "decode_file_list (encode_file_list ''OK'' [rtc_demo_file]) = Some (''OK'', [rtc_demo_file])"
  using decode_encode_file [of rtc_demo_file]
  by (simp_all add: parse_rtc_message_def rtc_demo_text wire_defs parse_status_def decode_file_list_def
      rtc_demo_file_def int64_range_def Let_def)

definition rtc_demo_1 :: "string \<Rightarrow> bool \<Rightarrow> rtc_receiver" where
  "rtc_demo_1 pin pairing = (rtc_demo_receiver pin pairing)
     \<lparr>rr_peer := Some 1, rr_sender_alias := ''Phone'', rr_sender_id := ''peer''\<rparr>"

definition rtc_demo_2 :: "string \<Rightarrow> bool \<Rightarrow> rtc_receiver" where
  "rtc_demo_2 pin pairing = (rtc_demo_1 pin pairing)
     \<lparr>rr_state := WaitToken, rr_remote_nonce := rtc_demo_remote, rr_local_nonce := rtc_demo_local,
      rr_final_nonce := rtc_demo_nonces, rr_sent := [OutNonce (encode_nonce rtc_demo_local)]\<rparr>"

definition rtc_demo_3 :: "string \<Rightarrow> bool \<Rightarrow> rtc_receiver" where
  "rtc_demo_3 pin pairing = (rtc_demo_2 pin pairing)
     \<lparr>rr_state := (if pin = [] then WaitFileList else WaitPin), rr_sender_token := rtc_demo_token,
      rr_sent := [OutNonce (encode_nonce rtc_demo_local),
                  OutTokenResponse (if pin = [] then status_ok else status_pin_required) rtc_demo_token]\<rparr>"

definition rtc_demo_4 :: rtc_receiver where
  "rtc_demo_4 = (rtc_demo_3 ''1234'' False)
     \<lparr>rr_state := WaitFileList, rr_sent := rr_sent (rtc_demo_3 ''1234'' False) @ [OutPinResponse status_ok]\<rparr>"

definition rtc_demo_5 :: rtc_receiver where
  "rtc_demo_5 = rtc_demo_4
     \<lparr>rr_state := WaitFiles, rr_files := [rtc_demo_file], rr_file_by_id := [(''f'', rtc_demo_file)], rr_folder_known := True,
      rr_accepted := [''f''], rr_tokens := [(''f'', ''k0'')], rr_remapper := Some \<lparr>remap = [], remap_dir = ''/b''\<rparr>,
      rr_sent := rr_sent rtc_demo_4 @ [OutFileList status_ok [(''f'', ''k0'')] [], OutDelimiter]\<rparr>"

definition rtc_demo_6 :: rtc_receiver where
  "rtc_demo_6 = rtc_demo_5
     \<lparr>rr_state := ReceivingFiles, rr_current := ''f'', rr_paths := [(''f'', ''/b/a.txt'')],
      rr_buffers := [(''f'', ([], False))], rr_hashers := [(''f'', [])], rr_ensured := [''/b''],
      rr_unique := snd (alloc_create no_faults ''/b'' ''a.txt'' [] books_disk),
      rr_active := True, rr_generation := 1, rr_last_id := ''f'',
      rr_last_progress := 1000, rr_starts := 1, rr_disk := books_disk(''/b/a.txt'' \<mapsto> File [] None)\<rparr>"

definition rtc_demo_7 :: rtc_receiver where
  "rtc_demo_7 = rtc_demo_6
     \<lparr>rr_buffers := [(''f'', (''abc'', False))], rr_hashers := [(''f'', ''abc'')], rr_bytes := 3\<rparr>"

lemmas rtc_demo_simps = rtc_demo_messages rtc_demo_env_simps rtc_demo_decode rtc_demo_generate rtc_demo_text
lemmas rtc_demo_state_defs = configured_def set_trusted_store_def set_extension_routes_def rtc_demo_receiver_def
  set_require_pairing_def new_rtc_receiver_def rtc_demo_1_def rtc_demo_2_def rtc_demo_3_def rtc_demo_4_def rtc_demo_5_def rtc_demo_6_def rtc_demo_7_def
lemmas rtc_demo_step_defs = handle_data_message_def dispatch_message_def send_msg_def try_send_def Let_def

lemma rtc_demo_start: "rtc_run [EvOffer rtc_demo_env ''peer'' ''Phone'', EvPeer 1] (rtc_demo_receiver pin pairing) = Some (rtc_demo_1 pin pairing)"
  by (simp add: rtc_demo_simps rtc_demo_state_defs reserve_offer_def is_peer_blocked_def gm_keep_def cleanup_partial_files_def
      mark_transfer_done_def remove_paths_def alloc_reset_def install_peer_def)

lemma rtc_demo_12: "rtc_step (EvData rtc_demo_env ''N'' True) (rtc_demo_1 pin pairing) = Some (rtc_demo_2 pin pairing)"
  by (simp add: rtc_demo_simps rtc_demo_state_defs rtc_demo_step_defs handle_nonce_def rtc_demo_nonces_def)

lemma rtc_demo_23: "rtc_step (EvData rtc_demo_env ''T'' True) (rtc_demo_2 pin pairing) = Some (rtc_demo_3 pin pairing)"
  by (simp add: rtc_demo_simps rtc_demo_state_defs rtc_demo_step_defs handle_token_def)

lemma rtc_demo_34: "rtc_step (EvData rtc_demo_env ''P'' True) (rtc_demo_3 ''1234'' False) = Some rtc_demo_4"
  by (simp add: rtc_demo_simps rtc_demo_state_defs rtc_demo_step_defs handle_pin_def)

lemma rtc_demo_path: "sanitize_path_with_fallback ''a.txt'' = Inr ''a.txt''"
  by code_simp

lemma rtc_demo_remap: "new_folder_remapper ''/b'' [''a.txt''] books_disk = Some \<lparr>remap = [], remap_dir = ''/b''\<rparr>"
  unfolding books_disk_def by code_simp

lemma rtc_demo_45: "rtc_step (EvData rtc_demo_env ''L'' True) rtc_demo_4 = Some rtc_demo_5"
proof -
  have f: "rf_id rtc_demo_file = ''f''" "rf_name rtc_demo_file = ''a.txt''" by (simp_all add: rtc_demo_file_def)
  show ?thesis
    using rtc_demo_path rtc_demo_remap
    by (simp add: rtc_demo_simps rtc_demo_list f rtc_demo_state_defs rtc_demo_step_defs handle_file_list_eq max_files_per_session_def
        rtc_folder_transfer_def rebuild_file_index_def accept_files_now_def prepare_files_for_receive_def
        rtc_prepare_folder_remap_def clean_names_def has_nul_def file_meta_by_id_def send_chunked_def has_prefix_def)
qed

lemma rtc_demo_alloc:
  "fst (alloc_create no_faults ''/b'' ''a.txt'' [] books_disk) = Some (''/b/a.txt'', books_disk(''/b/a.txt'' \<mapsto> File [] None))"
proof -
  have "candidate ''/b'' ''a.txt'' 0 = ''/b/a.txt''" "path_dir ''/b/a.txt'' = ''/b''" by code_simp+
  then show ?thesis
    by (auto simp: alloc_create_from create_from_finds open_excl_def books_disk_def no_faults_def next_suffix_def
        intro!: exI [of _ 0])
qed

lemma rtc_demo_dirs: "full_save_dir ''/b'' ''a.txt'' = ''/b''" "path_base ''a.txt'' = ''a.txt''"
  "mkdir_all no_faults ''/b'' books_disk = (True, books_disk)"
proof -
  show "full_save_dir ''/b'' ''a.txt'' = ''/b''" "path_base ''a.txt'' = ''a.txt''" by code_simp+
  have "path_prefixes ''/b'' = [''/b'']" by code_simp
  then show "mkdir_all no_faults ''/b'' books_disk = (True, books_disk)"
    by (simp add: mkdir_all_def books_disk_def)
qed

lemma rtc_demo_56: "rtc_step (EvData rtc_demo_env ''H'' True) rtc_demo_5 = Some rtc_demo_6"
proof -
  have f: "rf_id rtc_demo_file = ''f''" "rf_name rtc_demo_file = ''a.txt''" "rf_sha rtc_demo_file = ''h''" by (simp_all add: rtc_demo_file_def)
  obtain a where a: "alloc_create no_faults ''/b'' ''a.txt'' [] books_disk
      = (Some (''/b/a.txt'', books_disk(''/b/a.txt'' \<mapsto> File [] None)), a)"
    using rtc_demo_alloc by (metis prod.collapse)
  have p: "rtc_apply_folder_remap r ''a.txt'' = ''a.txt''" if "rr_remapper r = Some \<lparr>remap = [], remap_dir = ''/b''\<rparr>" for r
    using that by (simp add: rtc_apply_folder_remap_def remap_apply_def)
  show ?thesis
    using rtc_demo_path rtc_demo_dirs a
    by (simp add: rtc_demo_simps f p rtc_demo_state_defs rtc_demo_step_defs handle_file_header_def start_receiving_file_def
        validate_file_header_def file_meta_by_id_def rtc_save_dir_def rtc_folder_transfer_def rtc_ensure_save_dir_def
        mark_transfer_started_def)
qed

lemma rtc_demo_67: "rtc_run [EvData rtc_demo_env ''ab'' False, EvData rtc_demo_env ''c'' False] rtc_demo_6 = Some rtc_demo_7"
  by (simp add: rtc_demo_simps rtc_demo_state_defs rtc_demo_step_defs handle_binary_data_def file_meta_by_id_def rtc_demo_file_def)

definition rtc_demo_events :: "rtc_event list" where
  "rtc_demo_events = [EvOffer rtc_demo_env ''peer'' ''Phone'', EvPeer 1] @
     [EvData rtc_demo_env ''N'' True, EvData rtc_demo_env ''T'' True, EvData rtc_demo_env ''P'' True,
      EvData rtc_demo_env ''L'' True, EvData rtc_demo_env ''H'' True] @
     [EvData rtc_demo_env ''ab'' False, EvData rtc_demo_env ''c'' False]"

lemma rtc_demo_transfer: "rtc_run rtc_demo_events (rtc_demo_receiver ''1234'' False) = Some rtc_demo_7"
proof -
  have "rtc_run [EvData rtc_demo_env ''N'' True, EvData rtc_demo_env ''T'' True, EvData rtc_demo_env ''P'' True,
      EvData rtc_demo_env ''L'' True, EvData rtc_demo_env ''H'' True] (rtc_demo_1 ''1234'' False) = Some rtc_demo_6"
    by (simp only: rtc_run.simps rtc_demo_12 rtc_demo_23 rtc_demo_34 rtc_demo_45 rtc_demo_56 option.case)
  then show ?thesis
    unfolding rtc_demo_events_def run_append rtc_demo_start option.case by (simp only: option.case rtc_demo_67)
qed

lemma rtc_demo_end:
  "map_option (\<lambda>r. (rr_state r, rr_received r)) (rtc_step (EvData rtc_demo_env ''0'' True) rtc_demo_7) = Some (RtcDone, [(''a.txt'', 3)])"
proof -
  have "path_base ''/b/a.txt'' = ''a.txt''" by code_simp
  then show ?thesis
    by (simp add: rtc_demo_simps rtc_demo_state_defs rtc_demo_step_defs finish_current_file_def file_meta_by_id_def rtc_demo_file_def
        mark_transfer_done_def)
qed

subsection \<open>Pairing\<close>

text \<open>Without a PIN but with pairing required; the file list is answered by asking to pair.\<close>

definition rtc_demo_ask :: rtc_receiver where
  "rtc_demo_ask = (rtc_demo_3 [] True)
     \<lparr>rr_state := WaitPairResponse, rr_files := [rtc_demo_file], rr_file_by_id := [(''f'', rtc_demo_file)],
      rr_folder_known := True, rr_accepted := [''f''],
      rr_sent := rr_sent (rtc_demo_3 [] True) @ [OutFileList status_pair [] ''pem'', OutDelimiter]\<rparr>"

lemma rtc_demo_asked: "rtc_step (EvData rtc_demo_env ''L'' True) (rtc_demo_3 [] True) = Some rtc_demo_ask"
proof -
  have f: "rf_id rtc_demo_file = ''f''" "rf_name rtc_demo_file = ''a.txt''" by (simp_all add: rtc_demo_file_def)
  show ?thesis
    by (simp add: rtc_demo_simps rtc_demo_list f rtc_demo_state_defs rtc_demo_ask_def rtc_demo_step_defs
        handle_file_list_eq max_files_per_session_def rtc_folder_transfer_def rebuild_file_index_def
        send_chunked_def has_prefix_def)
qed

lemma rtc_demo_accept:
  "\<exists>r'. accept_files_now rtc_demo_env (rtc_demo_ask\<lparr>rr_sender_key := k, rr_sender_pem := p\<rparr>) = r' \<and>
     rr_state r' = WaitFiles \<and> rr_tokens r' = [(''f'', ''k0'')] \<and> rr_sender_key r' = k \<and> rr_require_pairing r' \<and>
     rr_sender_token r' = rtc_demo_token \<and> rr_final_nonce r' = rtc_demo_nonces \<and> rr_peer r' \<noteq> None"
proof -
  have f: "rf_id rtc_demo_file = ''f''" "rf_name rtc_demo_file = ''a.txt''" by (simp_all add: rtc_demo_file_def)
  show ?thesis
    using rtc_demo_path rtc_demo_remap
    by (simp add: rtc_demo_simps f rtc_demo_state_defs rtc_demo_ask_def accept_files_now_def prepare_files_for_receive_def
        rtc_prepare_folder_remap_def clean_names_def has_nul_def file_meta_by_id_def send_chunked_def send_msg_def)
qed

lemma rtc_demo_empty_key:
  "rtc_step (EvData rtc_demo_env ''Y'' True) rtc_demo_ask = Some (accept_files_now rtc_demo_env rtc_demo_ask)"
proof -
  have "decode_pair_response (encode_pair_response ''OK'' []) = Some \<lparr>pp_status = ''OK'', pp_public_key = []\<rparr>"
    by (simp add: wire_defs)
  moreover have "rr_state rtc_demo_ask = WaitPairResponse" by (simp add: rtc_demo_ask_def)
  ultimately show ?thesis
    by (simp add: rtc_demo_simps rtc_demo_step_defs handle_pair_response_def)
qed

lemma rtc_demo_paired:
  "rtc_step (EvData rtc_demo_env ''K'' True) rtc_demo_ask =
     Some (accept_files_now rtc_demo_env (rtc_demo_ask\<lparr>rr_sender_key := Some (to_verifying_key toy_key), rr_sender_pem := ''pem''\<rparr>))"
proof -
  have "decode_pair_response (encode_pair_response ''OK'' ''pem'') = Some \<lparr>pp_status = ''OK'', pp_public_key = ''pem''\<rparr>"
    by (simp add: wire_defs)
  moreover have "rr_state rtc_demo_ask = WaitPairResponse" "rr_sender_token rtc_demo_ask = rtc_demo_token"
    "rr_final_nonce rtc_demo_ask = rtc_demo_nonces" "rr_trusted rtc_demo_ask = None"
    by (simp_all add: rtc_demo_ask_def rtc_demo_state_defs)
  ultimately show ?thesis
    using rtc_demo_verifies
    by (simp add: rtc_demo_simps rtc_demo_step_defs handle_pair_response_def)
qed

definition rtc_pairing_events :: "string \<Rightarrow> rtc_event list" where
  "rtc_pairing_events answer = [EvOffer rtc_demo_env ''peer'' ''Phone'', EvPeer 1] @
     [EvData rtc_demo_env ''N'' True, EvData rtc_demo_env ''T'' True, EvData rtc_demo_env ''L'' True,
      EvData rtc_demo_env answer True]"

lemma rtc_pairing_run:
  "rtc_run (rtc_pairing_events answer) (rtc_demo_receiver [] True) = rtc_step (EvData rtc_demo_env answer True) rtc_demo_ask"
proof -
  have "rtc_run [EvData rtc_demo_env ''N'' True, EvData rtc_demo_env ''T'' True, EvData rtc_demo_env ''L'' True,
      EvData rtc_demo_env answer True] (rtc_demo_1 [] True) = rtc_step (EvData rtc_demo_env answer True) rtc_demo_ask"
    by (simp only: rtc_run.simps rtc_demo_12 rtc_demo_23 rtc_demo_asked option.case) (simp split: option.split)
  then show ?thesis
    unfolding rtc_pairing_events_def run_append rtc_demo_start option.case .
qed

end
