(* ===== verification/RTC_Props.thy ===== *)
theory RTC_Props
  imports RTC_Auth RTC_Demo
begin

text \<open>
  What the WebRTC receiver guarantees, for every sequence of events from its configuration on in which every question
  to the user is answered before the next event: nothing lands outside the configured directories, what was reported
  as received stays complete, a sender with a key has proved it. Then the places where it promises more than it keeps.
  \<open>RTC_Net\<close> has what holds when handlers wait for an answer while other events come.
\<close>

subsection \<open>Files\<close>

definition set_up :: "string \<Rightarrow> (string, string) gomap option \<Rightarrow> bool" where
  "set_up dir exts \<longleftrightarrow> dir \<noteq> [] \<and> (case exts of None \<Rightarrow> True | Some m \<Rightarrow> [] \<notin> snd ` set m)"

definition save_dirs :: "string \<Rightarrow> (string, string) gomap option \<Rightarrow> string set" where
  "save_dirs dir exts = insert dir (case exts of None \<Rightarrow> {} | Some m \<Rightarrow> snd ` set m)"

lemmas configured_defs = configured_def set_trusted_store_def set_extension_routes_def
  set_require_pairing_def new_rtc_receiver_def

lemma configured_dests: "dests (configured pin dir exts pairing trusted disk cfg) = save_dirs dir exts"
  by (simp add: configured_defs dests_def save_dirs_def)

lemma configured_view:
  "view_of (configured pin dir exts pairing trusted disk cfg) = \<lparr>tv_open = None, tv_disk = disk, tv_done = []\<rparr>"
  by (simp add: configured_defs view_of_def)

lemma configured_ok: "set_up dir exts \<Longrightarrow> rtc_ok (configured pin dir exts pairing trusted disk cfg)"
  by (auto simp: rtc_ok_def file_ok_def good_dests_def dests_def set_up_def
      configured_defs idle_def balanced_def remapper_ok_def split: option.splits)

text \<open>The run of \<^verbatim>\<open>RTC_Demo\<close> as an instance.\<close>

lemma demo_configured:
  "rtc_demo_receiver pin pairing = configured pin ''/b'' None pairing None books_disk (\<lambda>p. None)"
  by (simp add: rtc_demo_receiver_def)

lemma demo_run_configured:
  "rtc_run rtc_demo_events (configured ''1234'' ''/b'' None False None books_disk (\<lambda>p. None)) = Some rtc_demo_7"
  using rtc_demo_transfer by (simp only: demo_configured)

lemma demo_set_up: "set_up ''/b'' None"
  by (simp add: set_up_def)

lemma demo_ended_configured:
  "\<exists>r. rtc_run (rtc_demo_events @ [EvData rtc_demo_env ''0'' True])
     (configured ''1234'' ''/b'' None False None books_disk (\<lambda>p. None)) = Some r \<and> rr_received r = [(''a.txt'', 3)]"
proof -
  obtain r where r: "rtc_step (EvData rtc_demo_env ''0'' True) rtc_demo_7 = Some r" "rr_received r = [(''a.txt'', 3)]"
    using rtc_demo_end by (auto simp: map_option_case split: option.splits)
  then have "rtc_run (rtc_demo_events @ [EvData rtc_demo_env ''0'' True])
     (configured ''1234'' ''/b'' None False None books_disk (\<lambda>p. None)) = Some r"
    unfolding run_append demo_run_configured by simp
  with r(2) show ?thesis by blast
qed

lemma run_view_ok:
  assumes "rtc_run evs (configured pin dir exts pairing trusted disk cfg) = Some r" "set_up dir exts"
  shows "view_ok (save_dirs dir exts) disk (view_of r)"
proof -
  have "tv_steps (save_dirs dir exts) \<lparr>tv_open = None, tv_disk = disk, tv_done = []\<rparr> (view_of r)"
    using run_sim [OF assms(1) configured_ok [OF assms(2)]]
    by (simp add: sim_def configured_dests configured_view)
  then show ?thesis
    by (rule view_ok_steps) (simp add: view_ok_def only_new_def open_ok_def)
qed

text \<open>
  C8: No sequence of events changes or removes a file that was there before: every path is as it
  was, or was free and is now a directory or a file below the save directory or a routed one.
\<close>

theorem webrtc_only_adds_inside:
  assumes "rtc_run evs (configured pin dir exts pairing trusted disk cfg) = Some r" "set_up dir exts"
  shows "rr_disk r q = disk q \<or>
    disk q = None \<and> (rr_disk r q = Some Dir \<or> (\<exists>d\<in>save_dirs dir exts. below d q) \<and> is_file (rr_disk r q))"
  using run_view_ok [OF assms] by (auto simp: view_ok_def only_new_def inside_def view_of_def)

theorem webrtc_only_adds_inside_witness:
  "rr_disk rtc_demo_7 ''/b/a.txt'' = books_disk ''/b/a.txt'' \<or>
    books_disk ''/b/a.txt'' = None \<and> (rr_disk rtc_demo_7 ''/b/a.txt'' = Some Dir \<or>
      (\<exists>d\<in>save_dirs ''/b'' None. below d ''/b/a.txt'') \<and> is_file (rr_disk rtc_demo_7 ''/b/a.txt''))"
  using webrtc_only_adds_inside [OF demo_run_configured demo_set_up, of "''/b/a.txt''"] .

text \<open>
  A file once reported as received stays: under its name, below a configured directory, at a path
  that was free before, with as many bytes as were announced, whatever happens afterwards.
\<close>

theorem received_files_stay:
  assumes "rtc_run evs (configured pin dir exts pairing trusted disk cfg) = Some r" "set_up dir exts"
    and "(name, n) \<in> set (rr_received r)"
  shows "\<exists>p c. path_base p = name \<and> disk p = None \<and> (\<exists>d\<in>save_dirs dir exts. below d p) \<and>
    rr_disk r p = Some (File c None) \<and> int (length c) = n"
  using run_view_ok [OF assms(1,2)] assms(3)
  by (fastforce simp: view_ok_def stored_at_def inside_def view_of_def)

theorem received_files_stay_witness:
  "\<exists>r p c. rtc_run (rtc_demo_events @ [EvData rtc_demo_env ''0'' True])
       (configured ''1234'' ''/b'' None False None books_disk (\<lambda>p. None)) = Some r \<and>
     path_base p = ''a.txt'' \<and> books_disk p = None \<and> (\<exists>d\<in>save_dirs ''/b'' None. below d p) \<and>
     rr_disk r p = Some (File c None) \<and> int (length c) = 3"
proof -
  obtain r where r: "rtc_run (rtc_demo_events @ [EvData rtc_demo_env ''0'' True])
     (configured ''1234'' ''/b'' None False None books_disk (\<lambda>p. None)) = Some r" "rr_received r = [(''a.txt'', 3)]"
    using demo_ended_configured by blast
  show ?thesis
    using received_files_stay [OF r(1) demo_set_up, of "''a.txt''" 3] r by auto
qed

text \<open>
  The activity callbacks balance: every start but the one of the file now being received has had
  its end, and there is at most one such file, the current one, with path, buffer and byte count.
\<close>

theorem transfer_activity_balanced:
  assumes "rtc_run evs (configured pin dir exts pairing trusted disk cfg) = Some r" "set_up dir exts"
  shows "rr_starts r = rr_dones r + (if rr_active r then 1 else 0) \<and>
    map fst (rr_paths r) = (if rr_active r then [rr_current r] else []) \<and>
    map fst (rr_buffers r) = map fst (rr_paths r) \<and>
    rr_bytes r = (\<Sum>(i, c, bad)\<leftarrow>rr_buffers r. int (length c))"
  using run_ok [OF assms(1) configured_ok [OF assms(2)]]
  by (auto simp: rtc_ok_def file_ok_def balanced_def idle_def busy_def open_at_def)

theorem transfer_activity_balanced_witness:
  "rr_starts rtc_demo_7 = rr_dones rtc_demo_7 + (if rr_active rtc_demo_7 then 1 else 0) \<and>
    map fst (rr_paths rtc_demo_7) = (if rr_active rtc_demo_7 then [rr_current rtc_demo_7] else []) \<and>
    map fst (rr_buffers rtc_demo_7) = map fst (rr_paths rtc_demo_7) \<and>
    rr_bytes rtc_demo_7 = (\<Sum>(i, c, bad)\<leftarrow>rr_buffers rtc_demo_7. int (length c))"
  using transfer_activity_balanced [OF demo_run_configured demo_set_up] .



subsection \<open>A transfer that goes well\<close>

lemma one_frame:
  assumes "open_at r p c False meta" "rr_state r = ReceivingFiles" "rr_current r \<noteq> []" "\<not> write_fails E"
    and "int (length c + length d) \<le> rf_size meta"
  shows "\<exists>r1. handle_data_message E d False r = Some r1 \<and> open_at r1 p (c @ d) False meta \<and> rr_state r1 = ReceivingFiles \<and>
    rr_current r1 = rr_current r \<and> rr_disk r1 = rr_disk r \<and> rr_received r1 = rr_received r \<and>
    rr_peer r1 = rr_peer r \<and> rr_sent r1 = rr_sent r"
proof -
  obtain f r0 where m: "file_meta_by_id (rr_current r) r = (f, r0)" by fastforce
  have f: "f = Some meta" using meta_lookup [OF m] assms(1) by (simp add: open_at_def)
  obtain x where r0: "r0 = r\<lparr>rr_file_by_id := x\<rparr>" using meta_shape [OF m] by blast
  let ?r1 = "r0\<lparr>rr_buffers := [(rr_current r, (c @ d, False))], rr_bytes := rr_bytes r0 + int (length d),
      rr_hashers := (if rf_sha meta = [] then [] else [(rr_current r, c @ d)])\<rparr>"
  have "handle_binary_data E d r = ?r1"
    unfolding handle_binary_data_def m f using assms r0 by (auto simp: open_at_def)
  then have "handle_data_message E d False r = Some ?r1"
    using assms(2,3) by (simp add: handle_data_message_def)
  moreover have "open_at r0 p c False meta"
    using assms(1) open_at_near [OF meta_near [OF m]] r0 by simp
  then have "open_at ?r1 p (c @ d) False meta"
    using r0 assms(5) by (auto simp: open_at_def)
  ultimately show ?thesis using r0 assms(2) by (intro exI [of _ ?r1]) simp
qed

lemma all_frames:
  assumes "open_at r p c False meta" "rr_state r = ReceivingFiles" "rr_current r \<noteq> []" "\<not> write_fails E"
    and "int (length c + length (concat fs)) \<le> rf_size meta"
  shows "\<exists>r1. rtc_run (map (\<lambda>b. EvData E b False) fs) r = Some r1 \<and> open_at r1 p (c @ concat fs) False meta \<and>
    rr_state r1 = ReceivingFiles \<and> rr_current r1 = rr_current r \<and> rr_disk r1 = rr_disk r \<and>
    rr_received r1 = rr_received r \<and> rr_peer r1 = rr_peer r \<and> rr_sent r1 = rr_sent r"
  using assms
proof (induction fs arbitrary: r c)
  case (Cons d fs)
  then obtain r1 where r1: "handle_data_message E d False r = Some r1" "open_at r1 p (c @ d) False meta"
    "rr_state r1 = ReceivingFiles" "rr_current r1 = rr_current r" "rr_disk r1 = rr_disk r"
    "rr_received r1 = rr_received r" "rr_peer r1 = rr_peer r" "rr_sent r1 = rr_sent r"
    using one_frame [of r p c meta E d] by auto
  have "int (length (c @ d) + length (concat fs)) \<le> rf_size meta" using Cons.prems(5) by simp
  from Cons.IH [OF r1(2,3) _ Cons.prems(4) this] r1 Cons.prems(3) show ?case by auto
qed simp

lemma finish_acknowledges:
  assumes "open_at r p c bad meta" "rr_current r \<noteq> []" "finished_well E c bad meta" "\<not> re_send_fails E" "rr_peer r \<noteq> None"
  shows "rr_sent (finish_current_file E r) =
    rr_sent r @ [OutFileResponse \<lparr>sr_id = rr_current r, sr_success = True, sr_error = None\<rparr>]"
proof -
  obtain f r1 where m: "file_meta_by_id (rr_current r) r = (f, r1)" by fastforce
  have f: "f = Some meta" using meta_lookup [OF m] assms(1) by (simp add: open_at_def)
  obtain x where r1: "r1 = r\<lparr>rr_file_by_id := x\<rparr>" using meta_shape [OF m] by blast
  show ?thesis
    unfolding finish_current_file_def m f r1
    using assms by (auto simp: open_at_def finished_well_def Let_def send_defs mark_transfer_done_def)
qed

text \<open>
  C28: An honest transfer succeeds. If the binary frames of the open file together have the announced
  size and checksum and no operation fails, then after the frames and the final text frame the
  file holds exactly their concatenation, it is reported, and success is acknowledged.
\<close>

theorem frames_become_the_file:
  assumes "rtc_run evs (configured pin dir exts pairing trusted disk cfg) = Some r" "set_up dir exts"
    and "rr_state r = ReceivingFiles" "rr_current r \<noteq> []" "rr_buffers r = [(rr_current r, ([], False))]"
    and "lookup_file (rr_current r) r = Some meta" "int (length (concat fs)) = rf_size meta"
    and "rf_sha meta = [] \<or> re_sha E (concat fs) = rf_sha meta"
    and "\<not> write_fails E" "\<not> flush_fails E" "\<not> close_fails E" "\<not> re_send_fails E" "rr_peer r \<noteq> None"
  shows "\<exists>p r'. rtc_run (map (\<lambda>b. EvData E b False) fs @ [EvData E ''0'' True]) r = Some r' \<and>
    rr_paths r = [(rr_current r, p)] \<and> rr_disk r' = (rr_disk r)(p \<mapsto> File (concat fs) None) \<and>
    rr_received r' = rr_received r @ [(path_base p, rf_size meta)] \<and>
    rr_sent r' = rr_sent r @ [OutFileResponse \<lparr>sr_id = rr_current r, sr_success = True, sr_error = None\<rparr>]"
proof -
  have "rtc_ok r" using run_ok [OF assms(1) configured_ok [OF assms(2)]] .
  with assms(4-6) obtain p where o: "open_at r p [] False meta"
    by (auto simp: rtc_ok_def idle_def busy_def open_at_def)
  from all_frames [OF o assms(3,4,9), of fs] assms(7) obtain r1 where
    r1: "rtc_run (map (\<lambda>b. EvData E b False) fs) r = Some r1" "open_at r1 p (concat fs) False meta"
      "rr_state r1 = ReceivingFiles" "rr_current r1 = rr_current r" "rr_disk r1 = rr_disk r"
      "rr_received r1 = rr_received r" "rr_peer r1 = rr_peer r" "rr_sent r1 = rr_sent r"
    by auto
  have well: "finished_well E (concat fs) False meta" using assms(7,8,10,11) by (simp add: finished_well_def)
  have cur: "rr_current r1 \<noteq> []" using r1(4) assms(4) by simp
  note out = finish_outcome [OF r1(2) cur, of E] and ack = finish_acknowledges [OF r1(2) cur well assms(12)]
  let ?r' = "(finish_current_file E r1)\<lparr>rr_state := RtcDone, rr_peer := None\<rparr>"
  have "rtc_run (map (\<lambda>b. EvData E b False) fs @ [EvData E ''0'' True]) r = Some ?r'"
    using r1(1,3) cur by (simp add: run_append handle_data_message_def Let_def)
  moreover have "rr_paths r = [(rr_current r, p)]" using o by (simp add: open_at_def)
  ultimately show ?thesis using out ack r1 well assms(13) by (intro exI [of _ p] exI [of _ ?r']) simp
qed

text \<open>The transfer of the example, up to the open file.\<close>

lemma demo_opened_run:
  "rtc_run ([EvOffer rtc_demo_env ''peer'' ''Phone'', EvPeer 1] @
     [EvData rtc_demo_env ''N'' True, EvData rtc_demo_env ''T'' True, EvData rtc_demo_env ''P'' True,
      EvData rtc_demo_env ''L'' True, EvData rtc_demo_env ''H'' True])
     (configured ''1234'' ''/b'' None False None books_disk (\<lambda>p. None)) = Some rtc_demo_6"
proof -
  have "rtc_run [EvData rtc_demo_env ''N'' True, EvData rtc_demo_env ''T'' True, EvData rtc_demo_env ''P'' True,
      EvData rtc_demo_env ''L'' True, EvData rtc_demo_env ''H'' True] (rtc_demo_1 ''1234'' False) = Some rtc_demo_6"
    by (simp only: rtc_run.simps rtc_demo_12 rtc_demo_23 rtc_demo_34 rtc_demo_45 rtc_demo_56 option.case)
  then show ?thesis
    unfolding run_append rtc_demo_start [unfolded demo_configured] option.case .
qed

theorem frames_become_the_file_witness:
  "\<exists>p r'. rtc_run (map (\<lambda>b. EvData rtc_demo_env b False) [''a'', [], ''bc''] @ [EvData rtc_demo_env ''0'' True]) rtc_demo_6 = Some r' \<and>
    rr_paths rtc_demo_6 = [(rr_current rtc_demo_6, p)] \<and>
    rr_disk r' = (rr_disk rtc_demo_6)(p \<mapsto> File (concat [''a'', [], ''bc'']) None) \<and>
    rr_received r' = rr_received rtc_demo_6 @ [(path_base p, rf_size rtc_demo_file)] \<and>
    rr_sent r' = rr_sent rtc_demo_6 @ [OutFileResponse \<lparr>sr_id = rr_current rtc_demo_6, sr_success = True, sr_error = None\<rparr>]"
proof -
  have r: "rr_state rtc_demo_6 = ReceivingFiles" "rr_current rtc_demo_6 \<noteq> []"
    "rr_buffers rtc_demo_6 = [(rr_current rtc_demo_6, ([], False))]"
    by (simp_all add: rtc_demo_6_def)
  have l: "lookup_file (rr_current rtc_demo_6) rtc_demo_6 = Some rtc_demo_file"
    by (simp add: lookup_eq rtc_demo_6_def rtc_demo_5_def)
  have f: "int (length (concat [''a'', [], ''bc''])) = rf_size rtc_demo_file"
    "rf_sha rtc_demo_file = [] \<or> re_sha rtc_demo_env (concat [''a'', [], ''bc'']) = rf_sha rtc_demo_file"
    by (simp_all add: rtc_demo_file_def rtc_demo_env_simps)
  have e: "\<not> write_fails rtc_demo_env" "\<not> flush_fails rtc_demo_env" "\<not> close_fails rtc_demo_env"
    "\<not> re_send_fails rtc_demo_env"
    by (simp_all add: rtc_demo_env_simps)
  have p: "rr_peer rtc_demo_6 \<noteq> None" by (simp add: rtc_demo_state_defs)
  show ?thesis by (rule frames_become_the_file [OF demo_opened_run demo_set_up r l f e p])
qed

subsection \<open>Who may send\<close>

text \<open>
  Whenever the receiver holds a key for the sender beyond the token exchange, the sender has
  proved it: its token verifies under this key for the nonce of this connection, whether the key came
  from the trusted devices or from pairing.
\<close>

theorem sender_key_is_proved:
  assumes "rtc_run evs (configured pin dir exts pairing trusted disk cfg) = Some r" "set_up dir exts"
    and "list_all (uses_ops ops) evs" "rr_sender_key r = Some key"
    and "rr_state r \<in> {WaitPin, WaitFileList, WaitPairResponse, WaitFiles, ReceivingFiles}"
  shows "verify_token_nonce ops key (rr_sender_token r) (rr_final_nonce r) = None"
proof -
  have "keyed ops (configured pin dir exts pairing trusted disk cfg)"
    by (rule keyed_done) (simp add: configured_defs)
  then have "keyed ops r" using run_keyed [OF assms(1) configured_ok [OF assms(2)]] assms(3) by blast
  with assms(4,5) show ?thesis by (auto simp: keyed_def open_states_def)
qed

lemma demo_paired_run:
  "\<exists>r. rtc_run (rtc_pairing_events ''K'') (configured [] ''/b'' None True None books_disk (\<lambda>p. None)) = Some r \<and>
     rr_state r = WaitFiles \<and> rr_sender_key r = Some (to_verifying_key toy_key) \<and>
     rr_sender_token r = rtc_demo_token \<and> rr_final_nonce r = rtc_demo_nonces"
  using rtc_pairing_run [of "''K''"] rtc_demo_paired rtc_demo_accept by (auto simp: demo_configured)

theorem sender_key_is_proved_witness:
  "verify_token_nonce toy_ops (to_verifying_key toy_key) rtc_demo_token rtc_demo_nonces = None"
proof -
  obtain r where r: "rtc_run (rtc_pairing_events ''K'') (configured [] ''/b'' None True None books_disk (\<lambda>p. None)) = Some r"
    "rr_state r = WaitFiles" "rr_sender_key r = Some (to_verifying_key toy_key)"
    "rr_sender_token r = rtc_demo_token" "rr_final_nonce r = rtc_demo_nonces"
    using demo_paired_run by blast
  have "list_all (uses_ops toy_ops) (rtc_pairing_events ''K'')"
    by (simp add: rtc_pairing_events_def uses_ops_def rtc_demo_env_simps)
  from sender_key_is_proved [OF r(1) demo_set_up this r(3)] r(2,4,5) show ?thesis by simp
qed

subsection \<open>Where it promises more than it keeps\<close>

text \<open>
  Required pairing can be skipped: a sender that answers the PAIR request with status OK and no
  public key gets the tokens of its files; no key is known, nothing is verified or remembered.
\<close>

theorem pairing_skipped_without_key:
  "\<exists>r. rtc_run (rtc_pairing_events ''Y'') (configured [] ''/b'' None True None books_disk (\<lambda>p. None)) = Some r \<and>
     rr_require_pairing r \<and> rr_sender_key r = None \<and> rr_state r = WaitFiles \<and> rr_tokens r = [(''f'', ''k0'')]"
proof -
  have k: "rr_sender_key rtc_demo_ask = None" "rr_sender_pem rtc_demo_ask = []"
    by (simp_all add: rtc_demo_ask_def rtc_demo_state_defs)
  have "rtc_demo_ask\<lparr>rr_sender_key := None, rr_sender_pem := []\<rparr> = rtc_demo_ask" using k by simp
  then show ?thesis
    using rtc_pairing_run [of "''Y''"] rtc_demo_empty_key rtc_demo_accept [where k = None and p = "[]"] \<open>rtc_demo_ask\<lparr>rr_sender_key := None, rr_sender_pem := []\<rparr> = rtc_demo_ask\<close> by (auto simp: demo_configured)
qed

text \<open>One connection that guesses twice and leaves.\<close>

definition two_guesses :: "rtc_event list" where
  "two_guesses = [EvOffer rtc_demo_env ''peer'' ''Phone'', EvPeer 1, EvData rtc_demo_env ''N'' True,
     EvData rtc_demo_env ''T'' True, EvData rtc_demo_env ''W'' True, EvData rtc_demo_env ''W'' True,
     EvClosed rtc_demo_env 1]"

definition waiting :: "rtc_receiver \<Rightarrow> bool" where
  "waiting r \<longleftrightarrow> idle r \<and> rr_blocked r = [] \<and> \<not> rr_accepting r \<and> rr_peer r = None \<and> rr_pin r = ''1234'' \<and>
     \<not> rr_require_pairing r"

abbreviation refused_pins :: "rtc_receiver \<Rightarrow> nat" where
  "refused_pins r \<equiv> length (filter (\<lambda>m. m = OutPinResponse status_pin_required) (rr_sent r))"

lemma guess_round:
  assumes "waiting r"
  shows "\<exists>r'. rtc_run two_guesses r = Some r' \<and> waiting r' \<and> refused_pins r' = refused_pins r + 2"
proof -
  let ?a = "r\<lparr>rr_blocked := [], rr_peer := Some 1, rr_accepting := False, rr_tokens := [], rr_files := [], rr_file_by_id := [],
      rr_accepted := [], rr_folder_known := False, rr_folder := False, rr_ensured := [], rr_unique := alloc_reset (rr_unique r),
      rr_control := [], rr_remote_nonce := [], rr_local_nonce := [], rr_final_nonce := [],
      rr_pin_attempts := 0, rr_provided_pins := 0, rr_sender_key := None, rr_sender_pem := [],
      rr_sender_token := [], rr_sender_alias := ''Phone'', rr_sender_id := ''peer'', rr_state := WaitNonce\<rparr>"
  let ?b = "?a\<lparr>rr_state := WaitToken, rr_remote_nonce := rtc_demo_remote, rr_local_nonce := rtc_demo_local,
      rr_final_nonce := rtc_demo_nonces, rr_sent := rr_sent r @ [OutNonce (encode_nonce rtc_demo_local)]\<rparr>"
  let ?s = "rr_sent r @ [OutNonce (encode_nonce rtc_demo_local), OutTokenResponse status_pin_required rtc_demo_token]"
  let ?c = "?b\<lparr>rr_state := WaitPin, rr_sender_token := rtc_demo_token, rr_sent := ?s\<rparr>"
  let ?d = "?c\<lparr>rr_pin_attempts := 1, rr_sent := ?s @ [OutPinResponse status_pin_required]\<rparr>"
  let ?e = "?c\<lparr>rr_pin_attempts := 2, rr_sent := ?s @ [OutPinResponse status_pin_required, OutPinResponse status_pin_required]\<rparr>"
  let ?f = "?e\<lparr>rr_peer := None, rr_accepting := False, rr_state := RtcDone\<rparr>"
  have w: "idle r" "rr_blocked r = []" "rr_accepting r = False" "rr_peer r = None" "rr_pin r = ''1234''"
    "rr_require_pairing r = False" using assms by (simp_all add: waiting_def)
  have i: "idle (r\<lparr>rr_blocked := [], rr_peer := None, rr_accepting := True\<rparr>)" using w(1) by simp
  have 1: "rtc_run [EvOffer rtc_demo_env ''peer'' ''Phone'', EvPeer 1] r = Some ?a"
    using w i by (simp add: reserve_offer_def is_peer_blocked_def gm_keep_def install_peer_def)
  have 2: "rtc_step (EvData rtc_demo_env ''N'' True) ?a = Some ?b"
    by (simp add: rtc_demo_simps rtc_demo_step_defs handle_nonce_def rtc_demo_nonces_def)
  have 3: "rtc_step (EvData rtc_demo_env ''T'' True) ?b = Some ?c"
    using w by (simp add: rtc_demo_simps rtc_demo_step_defs handle_token_def)
  have 4: "rtc_step (EvData rtc_demo_env ''W'' True) ?c = Some ?d" "rtc_step (EvData rtc_demo_env ''W'' True) ?d = Some ?e"
    using w by (simp_all add: rtc_demo_simps rtc_demo_step_defs handle_pin_def max_pin_attempts_def)
  have ie: "idle ?e" using w(1) by (simp add: idle_def)
  have 5: "rtc_step (EvClosed rtc_demo_env 1) ?e = Some ?f"
    using ie by (simp add: handle_peer_closed_def)
  have "rtc_run [EvData rtc_demo_env ''N'' True, EvData rtc_demo_env ''T'' True, EvData rtc_demo_env ''W'' True,
      EvData rtc_demo_env ''W'' True, EvClosed rtc_demo_env 1] ?a = Some ?f"
    by (simp only: rtc_run.simps 2 3 4 5 option.case)
  then have "rtc_run two_guesses r = Some ?f"
    using run_append [of "[EvOffer rtc_demo_env ''peer'' ''Phone'', EvPeer 1]"
        "[EvData rtc_demo_env ''N'' True, EvData rtc_demo_env ''T'' True, EvData rtc_demo_env ''W'' True,
          EvData rtc_demo_env ''W'' True, EvClosed rtc_demo_env 1]" r] 1
    by (simp only: two_guesses_def append.simps option.case)
  moreover have "waiting ?f" using w by (simp add: waiting_def idle_def)
  moreover have "refused_pins ?f = refused_pins r + 2" by simp
  ultimately show ?thesis by blast
qed

text \<open>
  The limit on PINs does not survive a reconnection: although three wrong PINs block a peer, one
  peer that leaves after two can have any number of wrong PINs compared and is never blocked.
\<close>

theorem reconnecting_resets_pin_limit:
  "\<exists>evs r. rtc_run evs (configured ''1234'' ''/b'' None False None books_disk (\<lambda>p. None)) = Some r \<and>
     rr_blocked r = [] \<and> length (filter (\<lambda>m. m = OutPinResponse status_pin_required) (rr_sent r)) = 2 * n"
proof -
  have "\<exists>evs r. rtc_run evs (configured ''1234'' ''/b'' None False None books_disk (\<lambda>p. None)) = Some r \<and>
     waiting r \<and> refused_pins r = 2 * n"
  proof (induction n)
    case 0
    have "waiting (configured ''1234'' ''/b'' None False None books_disk (\<lambda>p. None))"
      "refused_pins (configured ''1234'' ''/b'' None False None books_disk (\<lambda>p. None)) = 0"
      by (simp_all add: waiting_def configured_defs idle_def)
    then show ?case by (intro exI [of _ "[]"]) simp
  next
    case (Suc n)
    then obtain evs r where r: "rtc_run evs (configured ''1234'' ''/b'' None False None books_disk (\<lambda>p. None)) = Some r"
      "waiting r" "refused_pins r = 2 * n" by blast
    from guess_round [OF r(2)] obtain r' where r': "rtc_run two_guesses r = Some r'" "waiting r'"
      "refused_pins r' = refused_pins r + 2" by blast
    have "rtc_run (evs @ two_guesses) (configured ''1234'' ''/b'' None False None books_disk (\<lambda>p. None)) = Some r'"
      using r(1) r'(1) by (simp add: run_append)
    with r(3) r'(2,3) show ?case by (intro exI [of _ "evs @ two_guesses"]) simp
  qed
  then show ?thesis by (auto simp: waiting_def)
qed

lemma pair_response_returns:
  assumes "\<forall>s. rr_trusted r = Some s \<longrightarrow> ts_devices s \<noteq> None"
  shows "handle_pair_response E msg j r \<noteq> None"
  using assms
  by (auto simp: handle_pair_response_def Let_def store_add_def split: option.splits prod.splits store_result.splits)

text \<open>
  Which message stops the program. With a store whose map is there, a data message panics exactly
  when it is an empty text frame that arrives while files are awaited: the code looks at the first
  byte of a message it could not parse. Every other message is handled in every state.
\<close>

theorem empty_text_is_the_only_panic:
  assumes "\<forall>s. rr_trusted r = Some s \<longrightarrow> ts_devices s \<noteq> None"
  shows "handle_data_message E d is_string r = None \<longleftrightarrow>
    is_string \<and> d = [] \<and> rr_state r = WaitFiles \<and> parse_rtc_message (re_parse E) [] = None"
proof -
  have disp: "dispatch_message E x r1 = None \<longleftrightarrow> x = [] \<and> rr_state r1 = WaitFiles \<and> parse_rtc_message (re_parse E) [] = None"
    if "rr_trusted r1 = rr_trusted r" for x r1
    using pair_response_returns [of r1] that assms
    by (auto simp: dispatch_message_def Let_def split: option.splits list.splits rtc_state.splits)
  show ?thesis
  proof (cases "rr_state r = ReceivingFiles \<and> rr_current r \<noteq> []")
    case True
    have "handle_data_message E d is_string r \<noteq> None"
      using True by (cases "re_parse E d"; cases "decode_header (the (re_parse E d))") (auto simp: handle_data_message_def Let_def)
    with True show ?thesis by simp
  next
    case False
    then show ?thesis
      using disp [of "r\<lparr>rr_control := []\<rparr>" "rr_control r"] disp [of r d]
      by (auto simp: handle_data_message_def)
  qed
qed

theorem empty_text_is_the_only_panic_witness:
  "rtc_run [EvData rtc_demo_env [] True] rtc_demo_5 = None"
proof -
  have "rr_state rtc_demo_5 = WaitFiles" "rr_trusted rtc_demo_5 = None"
    by (simp_all add: rtc_demo_state_defs)
  with empty_text_is_the_only_panic [of rtc_demo_5 rtc_demo_env "[]" True] show ?thesis
    by (simp add: rtc_demo_simps)
qed

end
