(* ===== verification/RTC_Delivery.thy ===== *)
theory RTC_Delivery
  imports RTC_Wire RTC_Props
begin

text \<open>
  The two ends of a WebRTC transfer together: the wire the sender's loop produces, delivered to the
  receiver event by event while anything may fail. A receiver that has given up its peer stays
  silent; as long as it acknowledges, every acknowledged file is on its disk as it was sent. The
  induction over the queue follows one file at a time through \<open>taking\<close>.
\<close>

subsection \<open>Delivery\<close>

text \<open>The data messages that carry what the sender put on the wire; every one is handled in an
  environment of its own, so anything may fail at any time. \<open>hdr\<close> is the text of a header.\<close>

definition carries :: "(string \<Rightarrow> string \<Rightarrow> bytes) \<Rightarrow> rtc_event \<Rightarrow> wire \<Rightarrow> bool" where
  "carries hdr e w \<longleftrightarrow>
     (\<exists>E. case w of
            WHeader i t \<Rightarrow> e = EvData E (hdr i t) True \<and> hdr i t \<noteq> ''0'' \<and> re_parse E (hdr i t) = Some (encode_header i t)
          | WData b \<Rightarrow> e = EvData E b False
          | WEnd \<Rightarrow> e = EvData E ''0'' True)"

text \<open>The acknowledgements among the messages sent.\<close>

definition acks :: "rtc_out list \<Rightarrow> rtc_send_file_response list" where
  "acks l = concat (map (\<lambda>m. case m of OutFileResponse x \<Rightarrow> [x] | _ \<Rightarrow> []) l)"

lemma acks_simps [simp]:
  "acks [] = []" "acks (l @ l') = acks l @ acks l'" "acks (OutFileResponse x # l) = x # acks l"
  by (simp_all add: acks_def)

subsection \<open>A receiver without a peer is silent\<close>

definition mute :: "rtc_receiver \<Rightarrow> rtc_receiver \<Rightarrow> bool" where
  "mute r r' \<longleftrightarrow> (rr_peer r = None \<longrightarrow> rr_peer r' = None \<and> rr_sent r' = rr_sent r)"

lemma mute_refl [simp]: "mute r r"
  by (simp add: mute_def)

lemma mute_trans: "mute r r1 \<Longrightarrow> mute r1 r2 \<Longrightarrow> mute r r2"
  by (simp add: mute_def)

lemma keeps_mute: "rr_peer r' = rr_peer r \<or> rr_peer r' = None \<Longrightarrow> rr_sent r' = rr_sent r \<Longrightarrow> mute r r'"
  by (auto simp: mute_def)

lemma sends_mute [simp]:
  "mute r (try_send E m x) = mute r x" "mute r (try_chunked E m x) = mute r x"
  by (auto simp: mute_def send_defs Let_def)

lemma chunked_peer: "send_chunked E m x = (b, y) \<Longrightarrow> rr_peer y = rr_peer x"
  by (auto simp: send_defs split: if_splits)

lemma send_none: "rr_peer x = None \<Longrightarrow> send_msg E m x = (False, x) \<and> send_chunked E m x = (False, x)"
  by (simp add: send_defs)

lemma mark_mute [simp]:
  "mute r (mark_transfer_done x) = mute r x" "mute r (mark_transfer_started E x) = mute r x"
  by (simp_all add: mute_def mark_transfer_done_def mark_transfer_started_def)

lemma cleanup_mute [simp]: "mute r (cleanup_partial_files E x) = mute r x" "mute r (cleanup_current_file E x) = mute r x"
  by (simp_all add: mute_def cleanup_partial_files_def cleanup_current_file_def mark_transfer_done_def Let_def)

lemma updates_mute [simp]:
  "mute r (x\<lparr>rr_state := st\<rparr>) = mute r x" "mute r (x\<lparr>rr_control := c\<rparr>) = mute r x"
  "mute r (x\<lparr>rr_current := i, rr_bytes := n\<rparr>) = mute r x" "mute r (x\<lparr>rr_unique := a\<rparr>) = mute r x"
  "mute r (x\<lparr>rr_pin_attempts := k\<rparr>) = mute r x" "mute r (x\<lparr>rr_blocked := b\<rparr>) = mute r x"
  "mute r (x\<lparr>rr_provided_pins := j\<rparr>) = mute r x"
  by (simp_all add: mute_def)

lemma meta_mute: "file_meta_by_id i r = (f, r1) \<Longrightarrow> mute r r1 \<and> rr_peer r1 = rr_peer r \<and> rr_sent r1 = rr_sent r"
  using meta_shape [of i r f r1] by (auto simp: mute_def)

text \<open>Starting a file sends nothing; when it is refused, the connection is given up.\<close>

lemma start_sends_nothing:
  "rr_sent (start_receiving_file E i token r) = rr_sent r \<and>
   rr_peer (start_receiving_file E i token r) \<in> {rr_peer r, None}"
  using refl [of "start_receiving_file E i token r"]
  by (cases rule: start_cases) (auto simp: reject_file_transfer_def mark_transfer_started_def near_def)

lemma binary_mute: "mute r (handle_binary_data E d r)"
proof -
  obtain f r1 where m: "file_meta_by_id (rr_current r) r = (f, r1)" by fastforce
  have rej: "mute r (reject_file_transfer x)" if "mute r x" for x
    using that by (simp add: reject_file_transfer_def mute_def)
  have upd: "mute r (x\<lparr>rr_buffers := b\<rparr>) = mute r x" "mute r (x\<lparr>rr_buffers := b, rr_bytes := n, rr_hashers := h\<rparr>) = mute r x" for x b n h
    by (simp_all add: mute_def)
  from meta_mute [OF m] show ?thesis
    by (auto simp: handle_binary_data_def m rej upd split: option.split)
qed

lemma finish_mute: "mute r (finish_current_file E r)"
proof -
  obtain f r1 where m: "file_meta_by_id (rr_current r) r = (f, r1)" by fastforce
  have upd: "mute r (x\<lparr>rr_disk := d, rr_received := g, rr_buffers := b, rr_hashers := h, rr_paths := p\<rparr>) = mute r x" for x d g b h p
    by (simp add: mute_def)
  from meta_mute [OF m] show ?thesis
    by (simp add: finish_current_file_def m Let_def upd)
qed

lemma terminate_mute [simp]: "mute r (terminate E x)" if "mute r x" for x
  using that by (simp add: terminate_def mute_def cleanup_partial_files_def mark_transfer_done_def)

lemma nonce_mute: "mute r (handle_nonce E msg r)"
  by (cases msg) (auto simp: handle_nonce_def Let_def mute_def send_defs split: option.split prod.split bool.split)

lemma token_mute: "mute r (handle_token E msg r)"
proof (cases msg)
  case (MTokenRequest t)
  have w: "mute r (with_trusted_key E t r)"
    by (auto simp: with_trusted_key_def mute_def Let_def split: option.split)
  have a: "mute r (answer_token E x)" if "mute r x" for x
    using that by (simp add: answer_token_def split: option.split)
  show ?thesis unfolding MTokenRequest handle_token_eq
    using w a by (simp add: Let_def split: option.split)
qed (simp_all add: handle_token_def)

lemma pin_mute: "mute r (handle_pin E msg r)"
  by (cases msg) (auto simp: handle_pin_def Let_def)

lemma prepare_mute: "prepare_files_for_receive E ids r = (t, r1) \<Longrightarrow> mute r r1"
proof -
  assume "prepare_files_for_receive E ids r = (t, r1)"
  then obtain t m where "r1 = (rtc_prepare_folder_remap r)\<lparr>rr_tokens := t, rr_file_by_id := m\<rparr>"
    using prepare_ids_shape unfolding prepare_files_for_receive_def by blast
  then show ?thesis by (auto simp: mute_def rtc_prepare_folder_remap_def split: option.split)
qed

lemma accept_mute: "mute r x \<Longrightarrow> mute r (accept_files_now E x)"
proof -
  obtain t r1 where p: "prepare_files_for_receive E (rr_accepted x) x = (t, r1)" by fastforce
  have "mute r1 (accept_files_now E x)"
    by (auto simp: accept_files_now_def p mute_def send_defs split: prod.split bool.split)
  with prepare_mute [OF p] show "mute r x \<Longrightarrow> ?thesis" using mute_trans by blast
qed

lemma list_mute: "mute r (handle_file_list E msg j r)"
proof (cases "rr_peer r = None")
  case none: True
  have o: "rr_peer (offered r files ids) = None" "mute r (offered r files ids)" for files ids
    using none by (auto simp: offered_def rtc_folder_transfer_def rebuild_file_index_def mute_def Let_def)
  consider (pin) "msg_type msg = ''status_PIN_REQUIRED''"
    | (refused) "msg_type msg = ''status_TOO_MANY_ATTEMPTS''"
    | (other) "msg_type msg \<notin> {''status_PIN_REQUIRED'', ''status_TOO_MANY_ATTEMPTS'', ''file_list'', ''status_OK''}"
    | (undecoded) "msg_type msg \<in> {''file_list'', ''status_OK''}" "decode_file_list j = None"
    | (list) st files where "msg_type msg \<in> {''file_list'', ''status_OK''}" "decode_file_list j = Some (st, files)"
    by (cases "decode_file_list j") auto
  then show ?thesis
  proof cases
    case list
    have n: "(msg_type msg = ''status_PIN_REQUIRED'') = False" "(msg_type msg = ''status_TOO_MANY_ATTEMPTS'') = False"
      "(msg_type msg \<noteq> ''file_list'' \<and> msg_type msg \<noteq> ''status_OK'') = False"
      using list(1) by auto
    have "handle_file_list E msg j r =
       (if max_files_per_session < length files then try_chunked E (OutFileList status_declined [] []) r
        else offered r files (case re_select E of Some f \<Rightarrow> f files | None \<Rightarrow> map rf_id files))"
      unfolding handle_file_list_eq n list(2) Let_def offered_def [symmetric]
      by (simp only: if_False option.case prod.case o(1) if_True simp_thms)
    then show ?thesis using o(2) by simp
  qed (auto simp: handle_file_list_eq Let_def send_msg_def none)
qed (auto simp: mute_def)

lemma pair_mute: "handle_pair_response E msg j r = Some r' \<Longrightarrow> mute r r'"
  by (erule pair_cases) (auto intro!: accept_mute simp: mute_def [of r "r\<lparr>rr_sender_key := k, rr_sender_pem := q, rr_trusted := s, rr_config_disk := d\<rparr>" for k q s d])

lemma start_mute: "mute r (start_receiving_file E i token r)"
  using start_sends_nothing [of E i token r] by (auto intro: keeps_mute)

lemmas handlers_mute = nonce_mute token_mute pin_mute list_mute binary_mute start_mute finish_mute

lemma dispatch_mute: "dispatch_message E x r = Some r' \<Longrightarrow> mute r r'"
  by (auto simp: dispatch_message_def handle_file_header_def Let_def handlers_mute
      split: option.splits rtc_state.splits rtc_msg.splits list.splits if_splits dest: pair_mute)

lemma message_mute:
  assumes "handle_data_message E d is_string r = Some r'"
  shows "mute r r'"
proof (cases "rr_state r = ReceivingFiles \<and> rr_current r \<noteq> []")
  case True
  let ?f = "finish_current_file E r"
  consider (data) "r' = handle_binary_data E d r" | (last) "r' = ?f\<lparr>rr_state := RtcDone, rr_peer := None\<rparr>"
    | (bad) "r' = terminate E ?f" | (header) i token where "r' = start_receiving_file E i token ?f"
    using assms True by (auto simp: handle_data_message_def Let_def split: if_splits option.splits)
  then show ?thesis
  proof cases
    case last
    then show ?thesis using finish_mute [of r E] by (simp add: mute_def)
  next
    case header
    then show ?thesis using mute_trans [OF finish_mute start_mute] by simp
  qed (simp_all add: binary_mute finish_mute)
next
  case False
  have c: "mute r r'" if "mute (r\<lparr>rr_control := c\<rparr>) r'" for c
    using that by (simp add: mute_def)
  from assms False show ?thesis
    by (auto simp: handle_data_message_def split: if_splits intro: dispatch_mute c)
qed

lemma delivery_mute:
  assumes "list_all2 (carries hdr) evs ws" "rtc_run evs r = Some r'"
  shows "mute r r'"
  using assms
proof (induction evs ws arbitrary: r rule: list_all2_induct)
  case (Cons e evs w ws)
  from Cons.hyps(1) obtain E d b where e: "e = EvData E d b"
    by (cases w) (auto simp: carries_def)
  with Cons.prems obtain r1 where "handle_data_message E d b r = Some r1" "rtc_run evs r1 = Some r'"
    by (auto split: option.splits)
  then show ?case using message_mute Cons.IH mute_trans by blast
qed simp

subsection \<open>Receiving what is delivered\<close>

definition nodes_kept :: "filesys \<Rightarrow> filesys \<Rightarrow> bool" where
  "nodes_kept fs fs' \<longleftrightarrow> (\<forall>q n. fs q = Some n \<longrightarrow> fs' q = Some n)"

lemma nodes_kept_trans: "nodes_kept fs fs1 \<Longrightarrow> nodes_kept fs1 fs2 \<Longrightarrow> nodes_kept fs fs2"
  by (simp add: nodes_kept_def)

text \<open>The current file is open, and this much of it has arrived.\<close>

definition taking :: "rtc_receiver \<Rightarrow> string \<Rightarrow> string \<Rightarrow> bytes \<Rightarrow> bool \<Rightarrow> rtc_file \<Rightarrow> bool" where
  "taking r i p c bad meta \<longleftrightarrow>
     open_at r p c bad meta \<and> rr_state r = ReceivingFiles \<and> rr_current r = i \<and> i \<noteq> []"

lemma start_taken:
  assumes "idle r" "i \<noteq> []"
  shows "rr_peer (start_receiving_file E i token r) = None \<or>
    (\<exists>p meta. taking (start_receiving_file E i token r) i p [] False meta \<and> rr_disk r p = None \<and>
       nodes_kept (rr_disk r) (rr_disk (start_receiving_file E i token r)))"
  using refl [of "start_receiving_file E i token r"]
proof (cases rule: start_cases)
  case (opened r1 meta p dir path fs a)
  let ?q = "rtc_apply_folder_remap r p" and ?r = "start_receiving_file E i token r"
  have al: "fst (alloc_create (env_io E) (full_save_dir dir ?q) (path_base ?q) (rr_unique r) (rr_disk r1)) = Some (path, fs)"
    using opened(6) by simp
  note fresh = hinted.fresh [OF al]
  have dirs: "only_dirs_added (rr_disk r) (rr_disk r1)" using opened(1) by (simp add: near_def)
  have idle: "\<not> rr_active r1" "rr_paths r = []" "rr_buffers r = []" "rr_hashers r = []"
    using opened(1) assms(1) by (simp_all add: idle_def near_def same_defs)
  have r: "rr_paths ?r = [(i, path)]" "rr_buffers ?r = [(i, ([], False))]" "rr_active ?r" "rr_disk ?r = fs"
    "rr_hashers ?r = (if rf_sha meta \<noteq> [] then [(i, [])] else [])" "rr_current ?r = i" "rr_bytes ?r = 0"
    "rr_state ?r = ReceivingFiles" "rr_files ?r = rr_files r1" "rr_file_by_id ?r = rr_file_by_id r1"
    unfolding opened(7) by (simp_all add: mark_transfer_started_def idle)
  have "lookup_file i ?r = Some meta"
    using lookup_same [OF r(9,10)] opened(1,2) by (simp add: near_def)
  then have "taking ?r i path [] False meta"
    using r fresh assms(2) by (simp add: taking_def open_at_def)
  moreover have "rr_disk r path = None"
    using dirs fresh by (cases "rr_disk r path") (auto simp: only_dirs_added_def dest: spec [of _ path])
  moreover have "nodes_kept (rr_disk r) (rr_disk ?r)"
    using only_dirs_keeps [OF dirs] fresh r(4) by (auto simp: nodes_kept_def)
  ultimately show ?thesis by blast
qed (simp add: reject_file_transfer_def)

lemma frame_taken:
  assumes "taking r i p c bad meta" "handle_data_message E d False r = Some r1"
  shows "rr_sent r1 = rr_sent r \<and>
    (rr_peer r1 = None \<or> rr_disk r1 = rr_disk r \<and> rr_peer r1 = rr_peer r \<and>
      (\<exists>c' bad'. taking r1 i p c' bad' meta \<and> (\<not> bad' \<longrightarrow> \<not> bad \<and> c' = c @ d)))"
proof -
  obtain f r0 where m: "file_meta_by_id (rr_current r) r = (f, r0)" by fastforce
  have o: "open_at r p c bad meta" "rr_state r = ReceivingFiles" "rr_current r = i" "i \<noteq> []"
    using assms(1) by (simp_all add: taking_def)
  have f: "f = Some meta" using meta_lookup [OF m] o(1) by (simp add: open_at_def)
  obtain x where r0: "r0 = r\<lparr>rr_file_by_id := x\<rparr>" using meta_shape [OF m] by blast
  have o0: "open_at r0 p c bad meta" using open_at_near [OF meta_near [OF m]] r0 o(1) by simp
  have r1: "r1 = handle_binary_data E d r" using assms(2) o by (simp add: handle_data_message_def)
  consider (big) "rf_size meta - rr_bytes r0 < int (length d)"
    | (bad) "rf_size meta - rr_bytes r0 \<ge> int (length d)" "bad \<or> write_fails E"
    | (good) "rf_size meta - rr_bytes r0 \<ge> int (length d)" "\<not> bad \<and> \<not> write_fails E" by linarith
  then show ?thesis
  proof cases
    case big
    then have "r1 = reject_file_transfer (cleanup_current_file E r0)"
      unfolding r1 handle_binary_data_def m f by simp
    then show ?thesis
      by (simp add: reject_file_transfer_def cleanup_current_file_def mark_transfer_done_def Let_def r0)
  next
    case bad
    then have h: "r1 = r0\<lparr>rr_buffers := [(i, (c, True))]\<rparr>"
      unfolding r1 handle_binary_data_def m f using o0 o r0 by (simp add: open_at_def)
    have "taking r1 i p c True meta"
      using o0 o unfolding h taking_def by (simp add: open_at_def r0)
    moreover have "rr_sent r1 = rr_sent r \<and> rr_disk r1 = rr_disk r \<and> rr_peer r1 = rr_peer r" unfolding h by (simp add: r0)
    ultimately show ?thesis by blast
  next
    case good
    then have h: "r1 = r0\<lparr>rr_buffers := [(i, (c @ d, False))], rr_bytes := rr_bytes r0 + int (length d),
        rr_hashers := (if rf_sha meta = [] then [] else [(i, c @ d)])\<rparr>"
      unfolding r1 handle_binary_data_def m f using o0 o r0 by (simp add: open_at_def)
    have "taking r1 i p (c @ d) False meta"
      using o0 o good unfolding h taking_def by (auto simp: open_at_def r0)
    moreover have "rr_sent r1 = rr_sent r \<and> rr_disk r1 = rr_disk r \<and> rr_peer r1 = rr_peer r" unfolding h by (simp add: r0)
    ultimately show ?thesis using good by blast
  qed
qed

lemma frames_taken:
  assumes "taking r i p c bad meta" "list_all2 (carries hdr) evs (map WData fs)" "rtc_run evs r = Some r1"
  shows "rr_sent r1 = rr_sent r \<and>
    (rr_peer r1 = None \<or> rr_disk r1 = rr_disk r \<and> rr_peer r1 = rr_peer r \<and>
      (\<exists>c' bad'. taking r1 i p c' bad' meta \<and> (\<not> bad' \<longrightarrow> \<not> bad \<and> c' = c @ concat fs)))"
  using assms
proof (induction fs arbitrary: evs r c bad)
  case Nil
  then show ?case by auto
next
  case (Cons d fs)
  then obtain e evs1 where evs: "evs = e # evs1" "carries hdr e (WData d)" "list_all2 (carries hdr) evs1 (map WData fs)"
    by (auto simp: list_all2_Cons2)
  then obtain E where e: "e = EvData E d False" by (auto simp: carries_def)
  with Cons.prems(3) evs(1) obtain r0 where r0: "handle_data_message E d False r = Some r0" "rtc_run evs1 r0 = Some r1"
    by (auto split: option.splits)
  note f = frame_taken [OF Cons.prems(1) r0(1)]
  show ?case
  proof (cases "rr_peer r0 = None")
    case True
    with delivery_mute [OF evs(3) r0(2)] f show ?thesis by (simp add: mute_def)
  next
    case False
    with f obtain c' bad' where t: "taking r0 i p c' bad' meta" "\<not> bad' \<longrightarrow> \<not> bad \<and> c' = c @ d" by blast
    have "rr_sent r0 = rr_sent r" "rr_disk r0 = rr_disk r" "rr_peer r0 = rr_peer r" using f False by blast+
    note same = this and ih = Cons.IH [OF t(1) evs(3) r0(2)]
    show ?thesis
    proof (cases "rr_peer r1 = None")
      case True
      with ih same show ?thesis by simp
    next
      case False
      with ih obtain c2 bad2 where t2: "taking r1 i p c2 bad2 meta" "\<not> bad2 \<longrightarrow> \<not> bad' \<and> c2 = c' @ concat fs" by blast
      then have "\<not> bad2 \<longrightarrow> \<not> bad \<and> c2 = c @ concat (d # fs)" using t(2) by simp
      with t2(1) ih False same show ?thesis by auto
    qed
  qed
qed

lemma finish_taken:
  assumes "taking r i p c bad meta"
  shows "idle (finish_current_file E r) \<and> rr_peer (finish_current_file E r) = rr_peer r \<and>
    (rr_sent (finish_current_file E r) = rr_sent r \<or>
     (\<exists>x. rr_sent (finish_current_file E r) = rr_sent r @ [OutFileResponse x] \<and>
        (sr_success x \<longrightarrow> \<not> bad \<and> rr_disk (finish_current_file E r) = (rr_disk r)(p \<mapsto> File c None))))"
proof -
  have o: "open_at r p c bad meta" "rr_current r \<noteq> []" using assms by (auto simp: taking_def)
  obtain f r1 where m: "file_meta_by_id (rr_current r) r = (f, r1)" by fastforce
  have f: "f = Some meta" using meta_lookup [OF m] o(1) by (simp add: open_at_def)
  obtain x where r1: "r1 = r\<lparr>rr_file_by_id := x\<rparr>" using meta_shape [OF m] by blast
  have s: "rr_peer (finish_current_file E r) = rr_peer r \<and> (rr_sent (finish_current_file E r) = rr_sent r \<or>
     (\<exists>x. rr_sent (finish_current_file E r) = rr_sent r @ [OutFileResponse x] \<and> sr_success x = finished_well E c bad meta))"
    unfolding finish_current_file_def m f r1
    using o by (auto simp: open_at_def finished_well_def Let_def send_defs mark_transfer_done_def)
  have d: "finished_well E c bad meta \<Longrightarrow> \<not> bad \<and> rr_disk (finish_current_file E r) = (rr_disk r)(p \<mapsto> File c None)"
    using finish_outcome [OF o, of E] by (simp add: finished_well_def)
  have "idle (finish_current_file E r)" using finish_outcome [OF o, of E] by blast
  with s d show ?thesis by blast
qed

lemma header_decoded: "decode_header (encode_header i t) = Some (i, t)"
  by (simp add: wire_defs)

text \<open>What the text frame after the data of a file does: the file ends, the next one starts.\<close>

lemma text_taken:
  assumes "taking r i p c bad meta" "carries hdr e w" "w = WEnd \<or> (\<exists>j t. w = WHeader j t \<and> j \<noteq> [])" "rtc_step e r = Some r'"
  shows "\<exists>E. r' = (case w of WHeader j t \<Rightarrow> start_receiving_file E j t (finish_current_file E r)
    | _ \<Rightarrow> (finish_current_file E r)\<lparr>rr_state := RtcDone, rr_peer := None\<rparr>)"
proof -
  have t: "rr_state r = ReceivingFiles" "rr_current r \<noteq> []" using assms(1) by (auto simp: taking_def)
  from assms(3) show ?thesis
  proof
    assume "w = WEnd"
    then show ?thesis using assms(2,4) t by (auto simp: carries_def handle_data_message_def Let_def)
  next
    assume "\<exists>j t. w = WHeader j t \<and> j \<noteq> []"
    then obtain j k where w: "w = WHeader j k" "j \<noteq> []" by blast
    with assms(2) obtain E where "e = EvData E (hdr j k) True" "hdr j k \<noteq> ''0''" "re_parse E (hdr j k) = Some (encode_header j k)"
      by (auto simp: carries_def)
    with assms(4) t w show ?thesis by (auto simp: handle_data_message_def Let_def header_decoded)
  qed
qed

text \<open>What is on the disk in the end: the current file, and the files after it, each new.\<close>

definition arrived :: "wire_env \<Rightarrow> filesys \<Rightarrow> filesys \<Rightarrow> string \<Rightarrow> snd_item \<Rightarrow> snd_item list \<Rightarrow> bool" where
  "arrived W fs fs' p it its \<longleftrightarrow>
     fs' p = Some (File (item_bytes W it) None) \<and>
     (\<exists>ps. distinct (p # ps) \<and>
        list_all2 (\<lambda>q jt. fs q = None \<and> fs' q = Some (File (item_bytes W jt) None)) ps its) \<and>
     nodes_kept (fs(p := None)) fs'"

lemma arrived_next:
  assumes "arrived W fs2 fs' p2 jt its" "nodes_kept (fs(p \<mapsto> File (item_bytes W it) None)) fs2"
    and "(fs(p \<mapsto> File (item_bytes W it) None)) p2 = None"
  shows "arrived W fs fs' p it (jt # its)"
proof -
  from assms(1) obtain ps where ps: "distinct (p2 # ps)" "fs' p2 = Some (File (item_bytes W jt) None)"
    "list_all2 (\<lambda>q jt. fs2 q = None \<and> fs' q = Some (File (item_bytes W jt) None)) ps its"
    and kept: "nodes_kept (fs2(p2 := None)) fs'" by (auto simp: arrived_def)
  have p2: "p2 \<noteq> p" "fs p2 = None" using assms(3) by (auto split: if_splits)
  have p: "fs2 p = Some (File (item_bytes W it) None)" using assms(2) by (simp add: nodes_kept_def)
  have new: "fs q = None" if "fs2 q = None" for q
    using assms(2) that p unfolding nodes_kept_def by (cases "fs q") (auto dest: spec [of _ q] split: if_splits)
  have "\<forall>q\<in>set ps. fs2 q = None"
    using ps(3) by (induction rule: list_all2_induct) simp_all
  then have "p \<notin> set ps" using p by auto
  with p2 have "distinct (p # p2 # ps)" using ps(1) by auto
  moreover have "list_all2 (\<lambda>q jt. fs q = None \<and> fs' q = Some (File (item_bytes W jt) None)) (p2 # ps) (jt # its)"
    using p2(2) ps(2) list_all2_mono [OF ps(3)] new by simp
  moreover have "nodes_kept (fs(p := None)) fs'"
    unfolding nodes_kept_def
  proof (intro allI impI)
    fix q n assume q: "(fs(p := None)) q = Some n"
    then have "q \<noteq> p" "fs q = Some n" by (auto split: if_splits)
    then have "fs2 q = Some n" "q \<noteq> p2" using assms(2) p2(2) by (auto simp: nodes_kept_def)
    then show "fs' q = Some n" using kept by (simp add: nodes_kept_def)
  qed
  moreover have "fs' p = Some (File (item_bytes W it) None)"
    using kept p p2(1) by (simp add: nodes_kept_def)
  ultimately show ?thesis unfolding arrived_def by blast
qed

lemma silent_rest:
  assumes "rr_peer r = None" "list_all2 (carries hdr) evs ws" "rtc_run evs r = Some r'"
  shows "acks (rr_sent r') = acks (rr_sent r)"
  using delivery_mute [OF assms(2,3)] assms(1) by (simp add: mute_def)

lemma delivery_queue:
  assumes "taking r i p [] False meta" "it_id it = i" "\<forall>jt\<in>set its. it_id jt \<noteq> []"
    and "list_all2 (carries hdr) evs (map WData (item_frames W it) @ wire_of W its)" "rtc_run evs r = Some r'"
  shows "\<exists>rs. acks (rr_sent r') = acks (rr_sent r) @ rs \<and> length rs \<le> Suc (length its) \<and>
    (length rs = Suc (length its) \<and> list_all sr_success rs \<longrightarrow> arrived W (rr_disk r) (rr_disk r') p it its)"
  using assms
proof (induction its arbitrary: it i r p meta evs)
  case Nil
  then obtain e1 e where evs: "evs = e1 @ [e]" "list_all2 (carries hdr) e1 (map WData (item_frames W it))" "carries hdr e WEnd"
    by (auto simp: list_all2_append2 list_all2_Cons2)
  with Nil.prems(5) obtain r1 where r1: "rtc_run e1 r = Some r1" "rtc_step e r1 = Some r'"
    by (auto simp: run_snoc)
  note f = frames_taken [OF Nil.prems(1) evs(2) r1(1)]
  show ?case
  proof (cases "rr_peer r1 = None")
    case True
    have "acks (rr_sent r') = acks (rr_sent r1)"
      by (rule silent_rest [OF True, of hdr "[e]" "[WEnd]"]) (use evs(3) r1(2) in auto)
    with f show ?thesis by simp
  next
    case False
    with f obtain c bad where t: "taking r1 i p c bad meta" "\<not> bad \<longrightarrow> c = item_bytes W it"
      by (auto simp: concat_frames)
    have same: "rr_sent r1 = rr_sent r" "rr_disk r1 = rr_disk r" using f False by blast+
    obtain E where r': "r' = (finish_current_file E r1)\<lparr>rr_state := RtcDone, rr_peer := None\<rparr>"
      using text_taken [OF t(1) evs(3) _ r1(2)] by auto
    from finish_taken [OF t(1), of E] consider (silent) "rr_sent r' = rr_sent r"
      | (acked) x where "rr_sent r' = rr_sent r @ [OutFileResponse x]"
          "sr_success x \<longrightarrow> \<not> bad \<and> rr_disk r' = (rr_disk r)(p \<mapsto> File c None)"
      unfolding r' same by auto
    then show ?thesis
    proof cases
      case silent
      then show ?thesis by simp
    next
      case (acked x)
      then show ?thesis using t(2) by (intro exI [of _ "[x]"]) (auto simp: arrived_def nodes_kept_def)
    qed
  qed
next
  case (Cons jt its)
  let ?w = "WHeader (it_id jt) (it_token jt)"
  obtain e1 e e2 where evs: "evs = e1 @ e # e2" "list_all2 (carries hdr) e1 (map WData (item_frames W it))" "carries hdr e ?w"
    "list_all2 (carries hdr) e2 (map WData (item_frames W jt) @ wire_of W its)"
  proof -
    define tail where "tail = map WData (item_frames W jt) @ wire_of W its"
    have "list_all2 (carries hdr) evs (map WData (item_frames W it) @ ?w # tail)"
      using Cons.prems(4) by (simp add: tail_def)
    then show thesis using that unfolding tail_def [symmetric] by (auto simp: list_all2_append2 list_all2_Cons2)
  qed
  with Cons.prems(5) obtain r1 r2 where r1: "rtc_run e1 r = Some r1" "rtc_step e r1 = Some r2" "rtc_run e2 r2 = Some r'"
    by (auto simp: run_append split: option.splits)
  have rest: "list_all2 (carries hdr) (e # e2) (?w # map WData (item_frames W jt) @ wire_of W its)" "rtc_run (e # e2) r1 = Some r'"
    using evs(3,4) r1(2,3) by simp_all
  note f = frames_taken [OF Cons.prems(1) evs(2) r1(1)]
  show ?case
  proof (cases "rr_peer r1 = None")
    case True
    from silent_rest [OF True rest] f show ?thesis by simp
  next
    case False
    with f obtain c bad where t: "taking r1 i p c bad meta" "\<not> bad \<longrightarrow> c = item_bytes W it"
      by (auto simp: concat_frames)
    have same: "rr_sent r1 = rr_sent r" "rr_disk r1 = rr_disk r" using f False by blast+
    obtain E where r2: "r2 = start_receiving_file E (it_id jt) (it_token jt) (finish_current_file E r1)"
      using text_taken [OF t(1) evs(3) _ r1(2)] Cons.prems(3) by auto
    let ?f = "finish_current_file E r1"
    have id: "it_id jt \<noteq> []" using Cons.prems(3) by simp
    have sent: "rr_sent r2 = rr_sent ?f" using start_sends_nothing unfolding r2 by blast
    from finish_taken [OF t(1), of E] obtain as where as: "acks (rr_sent r2) = acks (rr_sent r) @ as" "length as \<le> 1"
      "as \<noteq> [] \<and> list_all sr_success as \<longrightarrow> rr_disk ?f = (rr_disk r)(p \<mapsto> File (item_bytes W it) None)" and idle: "idle ?f"
      unfolding sent same using t(2) by fastforce
    from start_taken [OF idle id, of E "it_token jt"] consider (refused) "rr_peer r2 = None"
      | (opened) p2 meta2 where "taking r2 (it_id jt) p2 [] False meta2" "rr_disk ?f p2 = None" "nodes_kept (rr_disk ?f) (rr_disk r2)"
      unfolding r2 [symmetric] by (elim disjE exE conjE)
    then show ?thesis
    proof cases
      case refused
      from silent_rest [OF refused evs(4) r1(3)] as(1,2) show ?thesis by (intro exI [of _ as]) auto
    next
      case (opened p2 meta2)
      have "\<forall>jt\<in>set its. it_id jt \<noteq> []" using Cons.prems(3) by simp
      from Cons.IH [OF opened(1) refl this evs(4) r1(3)] obtain rs where rs: "acks (rr_sent r') = acks (rr_sent r2) @ rs"
        "length rs \<le> Suc (length its)"
        "length rs = Suc (length its) \<and> list_all sr_success rs \<longrightarrow> arrived W (rr_disk r2) (rr_disk r') p2 jt its" by blast
      have "arrived W (rr_disk r) (rr_disk r') p it (jt # its)"
        if "length (as @ rs) = Suc (length (jt # its))" "list_all sr_success (as @ rs)"
      proof -
        have n: "length rs = Suc (length its)" "as \<noteq> []" using that(1) as(2) rs(2) by auto
        have d: "rr_disk ?f = (rr_disk r)(p \<mapsto> File (item_bytes W it) None)" using as(3) n(2) that(2) by simp
        show ?thesis
          using arrived_next [of W "rr_disk r2" "rr_disk r'" p2 jt its "rr_disk r" p it] rs(3) n(1) that(2) opened(2,3) d by simp
      qed
      moreover have "acks (rr_sent r') = acks (rr_sent r) @ (as @ rs)" "length (as @ rs) \<le> Suc (length (jt # its))"
        using as(1,2) rs(1,2) by simp_all
      ultimately show ?thesis by blast
    qed
  qed
qed

end
