(* ===== verification/RTC_Transfer.thy ===== *)
theory RTC_Transfer
  imports RTC_Delivery
begin

text \<open>
  What a WebRTC transfer promises end to end: what is put on the wire, and that success reported by
  the sender on the receiver's own acknowledgements means every file is there, byte for byte.
\<close>

subsection \<open>An example\<close>

definition demo_sent_file :: snd_file where
  "demo_sent_file = \<lparr>sf_id = ''f'', sf_name = ''a.txt'', sf_path = [], sf_size = 3, sf_type = ''text'', sf_sha = ''h'',
     sf_preview = [], sf_modified = zero_time, sf_accessed = zero_time, sf_content = Some ''abc''\<rparr>"

definition demo_sender :: rtc_sender where
  "demo_sender = (new_rtc_sender [] (\<lambda>p. None))
     \<lparr>ss_peer := True, ss_state := SndSendingFiles, ss_files := [demo_sent_file],
      ss_tokens := [(''f'', ''k0'')], ss_accepted_ids := [''f'']\<rparr>"

definition demo_item :: snd_item where
  "demo_item = \<lparr>it_id = ''f'', it_token = ''k0'', it_file = demo_sent_file\<rparr>"

definition demo_wire_env :: wire_env where
  "demo_wire_env = \<lparr>we_fails = \<lambda>k. False, we_read = \<lambda>f. None,
     we_ack = \<lambda>k. if k = 0 then AckResult \<lparr>sr_id = ''f'', sr_success = True, sr_error = None\<rparr> else AckTimeout,
     we_flush_closed = False\<rparr>"

lemma demo_queue: "prepare_send_queue demo_sender = [demo_item]"
  by (simp add: prepare_send_queue_def demo_sender_def demo_sent_file_def demo_item_def new_rtc_sender_def)

lemma demo_sent:
  "send_files demo_wire_env demo_sender =
     (None, [WHeader ''f'' ''k0'', WData ''abc'', WEnd], demo_sender\<lparr>ss_state := SndDone\<rparr>)"
  unfolding send_files_def Let_def demo_queue
  by (simp add: demo_sender_def demo_item_def demo_sent_file_def demo_wire_env_def new_rtc_sender_def put_wire_def
      send_frames.simps chunk_size_def check_ack_def)

subsection \<open>The wire\<close>

text \<open>
  C29: Whatever fails, what \<open>SendFiles\<close> has put on the wire is a prefix of the queued files one after the
  other, each with its header before its data, followed by the end; and it returns without an error only
  when all of this was sent and every file acknowledged as saved, in the order of the queue.
\<close>

theorem sent_wire_is_sequential:
  assumes "send_files W s = (e, out, s')"
  shows "prefix out (wire_of W (prepare_send_queue s)) \<and>
    (e = None \<longrightarrow> out = wire_of W (prepare_send_queue s) \<and>
       (\<forall>k<length (prepare_send_queue s). \<exists>x. we_ack W k = AckResult x \<and>
          sr_id x = it_id (prepare_send_queue s ! k) \<and> sr_success x))"
proof (cases "ss_peer s \<and> prepare_send_queue s \<noteq> []")
  case True
  with assms have q: "send_queue W 0 False (prepare_send_queue s) [] = (fst (send_queue W 0 False (prepare_send_queue s) []), out)"
    by (auto simp: send_files_def Let_def split: prod.splits option.splits if_splits)
  from assms True have "e = None \<Longrightarrow> send_queue W 0 False (prepare_send_queue s) [] = (None, out)"
    by (auto simp: send_files_def Let_def split: prod.splits option.splits if_splits)
  with True send_queue_prefix [OF q] send_queue_ok [of W 0 False "prepare_send_queue s" "[]" out] show ?thesis
    by (auto simp: acked_def)
next
  case False
  with assms show ?thesis
    by (auto simp: send_files_def Let_def put_wire_def split: if_splits)
qed

theorem sent_wire_is_sequential_witness:
  "prefix [WHeader ''f'' ''k0'', WData ''abc'', WEnd] (wire_of demo_wire_env [demo_item]) \<and>
    [WHeader ''f'' ''k0'', WData ''abc'', WEnd] = wire_of demo_wire_env [demo_item]"
  using sent_wire_is_sequential [OF demo_sent] unfolding demo_queue by simp

text \<open>
  Data is framed as the protocol demands: the frames of a block are not empty, hold at most 16 KiB,
  are the block when put together, and there are no more of them than necessary.
\<close>

theorem frames_are_full_chunks:
  assumes "send_frames W d out = (True, out')"
  shows "\<exists>fs. out' = out @ map WData fs \<and> concat fs = d \<and> list_all (\<lambda>f. f \<noteq> [] \<and> length f \<le> chunk_size) fs \<and>
    length fs = (length d + chunk_size - 1) div chunk_size"
  using send_frames_ok [OF assms] concat_chunks [of d] chunks_small [of _ d] chunks_number [of d]
  by (intro exI [of _ "chunks d"]) (auto simp: list_all_iff)

theorem frames_are_full_chunks_witness:
  "\<exists>fs. [WData ''abc''] = [] @ map WData fs \<and> concat fs = ''abc'' \<and>
    list_all (\<lambda>f. f \<noteq> [] \<and> length f \<le> chunk_size) fs \<and> length fs = (length ''abc'' + chunk_size - 1) div chunk_size"
  by (rule frames_are_full_chunks [of demo_wire_env])
    (simp add: demo_wire_env_def send_frames.simps put_wire_def chunk_size_def)

subsection \<open>End to end\<close>

text \<open>The first header meets the receiver waiting for files.\<close>

lemma first_header:
  assumes "rr_state r = WaitFiles" "carries hdr e (WHeader i t)" "i \<noteq> []" "t \<noteq> []" "rtc_step e r = Some r'"
  shows "\<exists>E. r' = start_receiving_file E i t r"
proof -
  obtain E where e: "e = EvData E (hdr i t) True" "hdr i t \<noteq> ''0''" "re_parse E (hdr i t) = Some (encode_header i t)"
    using assms(2) by (auto simp: carries_def)
  have "parse_rtc_value (encode_header i t) = Some (MHeader i t)"
    using assms(3,4) by (simp add: wire_defs)
  then have "rtc_step e r = Some (start_receiving_file E i t r)"
    using e assms(1) by (simp add: handle_data_message_def dispatch_message_def parse_rtc_message_def handle_file_header_def)
  with assms(5) show ?thesis by auto
qed

lemma queue_arrives:
  assumes "idle r" "rr_state r = WaitFiles" "\<forall>it\<in>set q. it_id it \<noteq> [] \<and> it_token it \<noteq> []" "q \<noteq> []"
    and "list_all2 (carries hdr) evs (wire_of W q)" "rtc_run evs r = Some r'"
    and "acks (rr_sent r') = acks (rr_sent r) @ rs" "length q \<le> length rs" "list_all sr_success (take (length q) rs)"
  shows "\<exists>ps. distinct ps \<and> list_all2 (\<lambda>p it. rr_disk r p = None \<and> rr_disk r' p = Some (File (item_bytes W it) None)) ps q"
proof -
  from assms(4) obtain it its where q: "q = it # its" by (cases q) auto
  define tail where "tail = map WData (item_frames W it) @ wire_of W its"
  have "list_all2 (carries hdr) evs (WHeader (it_id it) (it_token it) # tail)" using assms(5) by (simp add: q tail_def)
  then obtain e evs1 where evs: "evs = e # evs1" "carries hdr e (WHeader (it_id it) (it_token it))" "list_all2 (carries hdr) evs1 tail"
    by (auto simp: list_all2_Cons2)
  with assms(6) obtain r1 where r1: "rtc_step e r = Some r1" "rtc_run evs1 r1 = Some r'" by (auto split: option.splits)
  have it: "it_id it \<noteq> []" "it_token it \<noteq> []" using assms(3) q by auto
  obtain E where start: "r1 = start_receiving_file E (it_id it) (it_token it) r"
    using first_header [OF assms(2) evs(2) it r1(1)] by blast
  have sent: "rr_sent r1 = rr_sent r" using start_sends_nothing unfolding start by blast
  have "rr_peer r1 \<noteq> None"
  proof
    assume "rr_peer r1 = None"
    from silent_rest [OF this evs(3) r1(2)] have "rs = []" using assms(7) sent by simp
    with assms(8) q show False by simp
  qed
  then obtain p meta where p: "taking r1 (it_id it) p [] False meta" "rr_disk r p = None" "nodes_kept (rr_disk r) (rr_disk r1)"
    using start_taken [OF assms(1) it(1), of E "it_token it"] unfolding start [symmetric] by auto
  have ids: "\<forall>jt\<in>set its. it_id jt \<noteq> []" using assms(3) q by simp
  obtain rs' where rs: "acks (rr_sent r') = acks (rr_sent r1) @ rs'" "length rs' \<le> Suc (length its)"
    "length rs' = Suc (length its) \<and> list_all sr_success rs' \<longrightarrow> arrived W (rr_disk r1) (rr_disk r') p it its"
    using delivery_queue [OF p(1) refl ids evs(3) [unfolded tail_def] r1(2)] by blast
  have "rs' = rs" using rs(1) sent assms(7) by simp
  with rs(2,3) assms(8,9) q have "arrived W (rr_disk r1) (rr_disk r') p it its" by simp
  then obtain ps where ps: "rr_disk r' p = Some (File (item_bytes W it) None)" "distinct (p # ps)"
    "list_all2 (\<lambda>q jt. rr_disk r1 q = None \<and> rr_disk r' q = Some (File (item_bytes W jt) None)) ps its"
    by (auto simp: arrived_def)
  have "rr_disk r x = None" if "rr_disk r1 x = None" for x
    using p(3) that by (cases "rr_disk r x") (auto simp: nodes_kept_def)
  with ps p(2) show ?thesis
    by (intro exI [of _ "p # ps"]) (auto simp: q intro: list_all2_mono [OF ps(3)])
qed

text \<open>
  C3: End to end. If the sender reports success on acknowledgements the receiver really sent, every file
  it queued is on the receiver's disk, byte for byte as it was read, each under a new path of its own
  below a configured directory, whatever failed or was refused on the way at either end.
\<close>

theorem acknowledged_files_arrive:
  assumes "send_files W s = (None, out, s')"
    and "\<forall>it\<in>set (prepare_send_queue s). it_id it \<noteq> [] \<and> it_token it \<noteq> []"
    and "rtc_run evs0 (configured pin dir exts pairing trusted disk cfg) = Some r" "set_up dir exts" "rr_state r = WaitFiles"
    and "list_all2 (carries hdr) evs out" "rtc_run evs r = Some r'" "acks (rr_sent r') = acks (rr_sent r) @ rs"
    and "\<forall>k x. we_ack W k = AckResult x \<longrightarrow> k < length rs \<and> rs ! k = x"
  shows "\<exists>ps. distinct ps \<and>
    list_all2 (\<lambda>p it. rr_disk r p = None \<and> (\<exists>d\<in>save_dirs dir exts. below d p) \<and>
      rr_disk r' p = Some (File (item_bytes W it) None)) ps (prepare_send_queue s)"
proof (cases "prepare_send_queue s = []")
  case False
  let ?q = "prepare_send_queue s"
  have "ss_peer s" using assms(1) by (auto simp: send_files_def split: if_splits)
  with assms(1) False have "send_queue W 0 False ?q [] = (None, out)"
    by (auto simp: send_files_def Let_def split: prod.splits option.splits if_splits)
  from send_queue_ok [OF this False] have wire: "out = wire_of W ?q"
    and acked: "\<forall>k<length ?q. acked (we_ack W k) (it_id (?q ! k))" by simp_all
  have ok: "k < length rs \<and> sr_success (rs ! k)" if "k < length ?q" for k
    using acked assms(9) that by (auto simp: acked_def)
  have n: "length ?q \<le> length rs" using ok [of "length ?q - 1"] False by (cases "length ?q") auto
  have "list_all sr_success (take (length ?q) rs)"
    using ok n by (auto simp: list_all_length)
  moreover have "idle r" using run_ok [OF assms(3) configured_ok [OF assms(4)]] assms(5) by (auto simp: rtc_ok_def)
  ultimately obtain ps where ps: "distinct ps"
    "list_all2 (\<lambda>p it. rr_disk r p = None \<and> rr_disk r' p = Some (File (item_bytes W it) None)) ps ?q"
    using queue_arrives [OF _ assms(5,2) False assms(6) [unfolded wire] assms(7,8) n] by blast
  have "rtc_run (evs0 @ evs) (configured pin dir exts pairing trusted disk cfg) = Some r'"
    using assms(3,7) by (simp add: run_append)
  from run_view_ok [OF this assms(4)] have new': "only_new (save_dirs dir exts) disk (rr_disk r')"
    by (simp add: view_ok_def view_of_def)
  from run_view_ok [OF assms(3,4)] have new: "only_new (save_dirs dir exts) disk (rr_disk r)"
    by (simp add: view_ok_def view_of_def)
  have "\<exists>d\<in>save_dirs dir exts. below d p" if "rr_disk r p = None" "rr_disk r' p = Some (File c None)" for p c
    using only_new_here [OF new that(1)] new' that(2) by (auto simp: only_new_def inside_def dest: spec [of _ p])
  with ps show ?thesis by (intro exI [of _ ps]) (auto intro: list_all2_mono [OF ps(2)])
qed (intro exI [of _ "[]"], simp)

lemma demo_waiting_run:
  "rtc_run ([EvOffer rtc_demo_env ''peer'' ''Phone'', EvPeer 1] @
     [EvData rtc_demo_env ''N'' True, EvData rtc_demo_env ''T'' True, EvData rtc_demo_env ''P'' True,
      EvData rtc_demo_env ''L'' True])
     (configured ''1234'' ''/b'' None False None books_disk (\<lambda>p. None)) = Some rtc_demo_5"
proof -
  have "rtc_run [EvData rtc_demo_env ''N'' True, EvData rtc_demo_env ''T'' True, EvData rtc_demo_env ''P'' True,
      EvData rtc_demo_env ''L'' True] (rtc_demo_1 ''1234'' False) = Some rtc_demo_5"
    by (simp only: rtc_run.simps rtc_demo_12 rtc_demo_23 rtc_demo_34 rtc_demo_45 option.case)
  then show ?thesis
    unfolding run_append rtc_demo_start [unfolded demo_configured] option.case .
qed

lemma demo_delivered:
  "\<exists>r. rtc_run [EvData rtc_demo_env ''H'' True, EvData rtc_demo_env ''abc'' False, EvData rtc_demo_env ''0'' True] rtc_demo_5 = Some r \<and>
     acks (rr_sent r) = acks (rr_sent rtc_demo_5) @ [\<lparr>sr_id = ''f'', sr_success = True, sr_error = None\<rparr>]"
proof -
  have d: "rtc_step (EvData rtc_demo_env ''abc'' False) rtc_demo_6 = Some rtc_demo_7"
    by (simp add: rtc_demo_simps rtc_demo_state_defs rtc_demo_step_defs handle_binary_data_def file_meta_by_id_def rtc_demo_file_def)
  have e: "\<exists>r. rtc_step (EvData rtc_demo_env ''0'' True) rtc_demo_7 = Some r \<and>
     rr_sent r = rr_sent rtc_demo_5 @ [OutFileResponse \<lparr>sr_id = ''f'', sr_success = True, sr_error = None\<rparr>]"
    by (simp add: rtc_demo_simps rtc_demo_state_defs rtc_demo_step_defs finish_current_file_def file_meta_by_id_def rtc_demo_file_def
        mark_transfer_done_def)
  have run: "rtc_run [EvData rtc_demo_env ''H'' True, EvData rtc_demo_env ''abc'' False, EvData rtc_demo_env ''0'' True] rtc_demo_5
      = rtc_step (EvData rtc_demo_env ''0'' True) rtc_demo_7"
    by (simp only: rtc_run.simps rtc_demo_56 d option.case) (simp split: option.split)
  show ?thesis unfolding run using e by auto
qed

theorem acknowledged_files_arrive_witness:
  "\<exists>r' p. rtc_run [EvData rtc_demo_env ''H'' True, EvData rtc_demo_env ''abc'' False, EvData rtc_demo_env ''0'' True] rtc_demo_5 = Some r' \<and>
     rr_disk rtc_demo_5 p = None \<and> (\<exists>d\<in>save_dirs ''/b'' None. below d p) \<and> rr_disk r' p = Some (File ''abc'' None)"
proof -
  obtain r' where r': "rtc_run [EvData rtc_demo_env ''H'' True, EvData rtc_demo_env ''abc'' False, EvData rtc_demo_env ''0'' True] rtc_demo_5 = Some r'"
    "acks (rr_sent r') = acks (rr_sent rtc_demo_5) @ [\<lparr>sr_id = ''f'', sr_success = True, sr_error = None\<rparr>]"
    using demo_delivered by blast
  have ids: "\<forall>it\<in>set (prepare_send_queue demo_sender). it_id it \<noteq> [] \<and> it_token it \<noteq> []"
    unfolding demo_queue by (simp add: demo_item_def)
  have st: "rr_state rtc_demo_5 = WaitFiles" by (simp add: rtc_demo_5_def)
  have c: "list_all2 (carries (\<lambda>i t. ''H''))
      [EvData rtc_demo_env ''H'' True, EvData rtc_demo_env ''abc'' False, EvData rtc_demo_env ''0'' True]
      [WHeader ''f'' ''k0'', WData ''abc'', WEnd]"
    by (simp add: carries_def rtc_demo_env_simps rtc_demo_text)
  have a: "\<forall>k x. we_ack demo_wire_env k = AckResult x \<longrightarrow>
      k < length [\<lparr>sr_id = ''f'', sr_success = True, sr_error = None\<rparr>] \<and>
      [\<lparr>sr_id = ''f'', sr_success = True, sr_error = None\<rparr>] ! k = x"
    by (simp add: demo_wire_env_def)
  have "item_bytes demo_wire_env demo_item = ''abc''"
    by (simp add: item_bytes_def item_read_def demo_item_def demo_sent_file_def)
  with acknowledged_files_arrive [OF demo_sent ids demo_waiting_run demo_set_up st c r' a] r'(1) show ?thesis
    unfolding demo_queue by (auto simp: list_all2_Cons2)
qed

end
