(* ===== verification/RTC_Sender_Run.thy ===== *)
theory RTC_Sender_Run
  imports RTC_Sender
begin

text \<open>
  Runs of the WebRTC sender, from the opened data channel on, and what they keep: the sender's own
  PIN is asked before the files are named and guessed at most three times, and a receiver whose key
  and token are known has proved the key. The last part shows where this does not hold: after a PIN.
\<close>

subsection \<open>Events\<close>

text \<open>\<open>Send\<close> notes the files and the connection; the handshake starts when the channel opens.\<close>

definition begin_send :: "snd_file list \<Rightarrow> rtc_sender \<Rightarrow> rtc_sender" where
  "begin_send files s = s\<lparr>ss_files := files, ss_peer := True\<rparr>"

datatype snd_event =
    SndMessage snd_env bytes bool
  | SndPeerClosed
  | SndClosed
  | SndAccepted "string list"
  | SndStream wire_env

fun snd_step :: "snd_event \<Rightarrow> rtc_sender \<Rightarrow> rtc_sender option" where
  "snd_step (SndMessage E d b) s = snd_data_message E d b s"
| "snd_step SndPeerClosed s = Some (snd_peer_closed s)"
| "snd_step SndClosed s = Some (snd_close s)"
| "snd_step (SndAccepted ids) s = take_acceptance ids s"
| "snd_step (SndStream W) s = Some (snd (snd (send_files W s)))"

fun snd_run :: "snd_event list \<Rightarrow> rtc_sender \<Rightarrow> rtc_sender option" where
  "snd_run [] s = Some s"
| "snd_run (e # es) s = (case snd_step e s of None \<Rightarrow> None | Some s' \<Rightarrow> snd_run es s')"

definition snd_session :: "snd_env \<Rightarrow> snd_file list \<Rightarrow> rtc_sender \<Rightarrow> snd_event list \<Rightarrow> rtc_sender option" where
  "snd_session E files s evs =
     (case start_nonce_exchange E (begin_send files s) of None \<Rightarrow> None | Some s1 \<Rightarrow> snd_run evs s1)"

lemma snd_run_append:
  "snd_run (xs @ ys) s = (case snd_run xs s of None \<Rightarrow> None | Some s' \<Rightarrow> snd_run ys s')"
  by (induction xs arbitrary: s) (simp_all split: option.split)

lemma snd_run_invariant:
  assumes "snd_run evs s = Some s'" "I s" "list_all P evs" "\<And>e s s'. I s \<Longrightarrow> P e \<Longrightarrow> snd_step e s = Some s' \<Longrightarrow> I s'"
  shows "I s'"
  using assms(1-3)
proof (induction evs arbitrary: s)
  case (Cons e es)
  then obtain s1 where "snd_step e s = Some s1" "snd_run es s1 = Some s'"
    by (auto split: option.splits)
  then show ?case using Cons.IH Cons.prems(2,3) assms(4) by auto
qed simp

subsection \<open>The sends\<close>

definition offers :: "rtc_sender \<Rightarrow> bool" where
  "offers s \<longleftrightarrow> (\<exists>l. SndFileList status_ok l \<in> set (ss_sent s))"

definition is_offer :: "snd_out \<Rightarrow> bool" where
  "is_offer m \<longleftrightarrow> (\<exists>l. m = SndFileList status_ok l)"

text \<open>What the handlers decide with, beside the messages sent.\<close>

definition core :: "rtc_sender \<Rightarrow> snd_state \<times> verifying_key option \<times> string \<times> bytes \<times> int \<times> string \<times> bool" where
  "core s = (ss_state s, ss_receiver_key s, ss_receiver_token s, ss_final_nonce s, ss_required_attempts s,
     ss_required_pin s, ss_require_pin s)"

definition no_offer :: "rtc_sender \<Rightarrow> rtc_sender \<Rightarrow> bool" where
  "no_offer s s' \<longleftrightarrow> (offers s' \<longrightarrow> offers s)"

lemma no_offer_refl [simp]: "no_offer s s"
  by (simp add: no_offer_def)

lemma json_kept: "snd_json E m s = (b, s') \<Longrightarrow> core s' = core s \<and> (is_offer m \<or> no_offer s s')"
  by (auto simp: snd_json_def core_def no_offer_def offers_def is_offer_def split: if_splits)

lemma chunked_kept: "snd_chunked E m s = (b, s') \<Longrightarrow> core s' = core s \<and> (is_offer m \<or> no_offer s s')"
  by (auto simp: snd_chunked_def snd_json_def core_def no_offer_def offers_def is_offer_def split: if_splits prod.splits bool.splits)

lemma json_quiet [simp]: "\<not> is_offer m \<Longrightarrow> no_offer s (snd (snd_json E m s))" "core (snd (snd_json E m s)) = core s"
  using json_kept [of E m s] by (cases "snd_json E m s"; simp)+

lemma is_offer_simps [simp]:
  "\<not> is_offer (SndNonce n)" "\<not> is_offer (SndToken t)" "\<not> is_offer (SndPin p)" "\<not> is_offer (SndPair st k)"
  "is_offer (SndFileList st l) = (st = status_ok)"
  by (auto simp: is_offer_def)

lemma status_ok_others [simp]: "status_pin_required \<noteq> status_ok" "status_too_many_attempts \<noteq> status_ok"
  by (simp_all add: status_ok_def status_pin_required_def status_too_many_attempts_def)

lemma fail_simps [simp]:
  "ss_state (fail_locked x s) = SndDone" "ss_receiver_key (fail_locked x s) = ss_receiver_key s"
  "ss_receiver_token (fail_locked x s) = ss_receiver_token s" "ss_final_nonce (fail_locked x s) = ss_final_nonce s"
  "ss_required_attempts (fail_locked x s) = ss_required_attempts s" "ss_required_pin (fail_locked x s) = ss_required_pin s"
  "ss_require_pin (fail_locked x s) = ss_require_pin s" "no_offer s (fail_locked x s')  = no_offer s s'"
  by (simp_all add: fail_locked_def no_offer_def offers_def)

lemma core_eq:
  "core s' = core s \<Longrightarrow> ss_state s' = ss_state s \<and> ss_receiver_key s' = ss_receiver_key s \<and>
     ss_receiver_token s' = ss_receiver_token s \<and> ss_final_nonce s' = ss_final_nonce s \<and>
     ss_required_attempts s' = ss_required_attempts s \<and> ss_required_pin s' = ss_required_pin s \<and>
     ss_require_pin s' = ss_require_pin s"
  by (simp add: core_def)

lemma no_offer_updates [simp]:
  "no_offer s (x\<lparr>ss_state := st\<rparr>) = no_offer s x" "no_offer s (x\<lparr>ss_receiver_key := k\<rparr>) = no_offer s x"
  "no_offer s (x\<lparr>ss_trusted := t, ss_config_disk := d\<rparr>) = no_offer s x" "no_offer s (x\<lparr>ss_control := c\<rparr>) = no_offer s x"
  "no_offer (s\<lparr>ss_receiver_key := k\<rparr>) x = no_offer s x" "no_offer (s\<lparr>ss_control := c\<rparr>) x = no_offer s x"
  by (simp_all add: no_offer_def offers_def)

subsection \<open>What each handler may do\<close>

definition fixed :: "rtc_sender \<Rightarrow> rtc_sender \<Rightarrow> bool" where
  "fixed s s' \<longleftrightarrow> ss_required_pin s' = ss_required_pin s \<and> ss_require_pin s' = ss_require_pin s"

lemma nonce_outcome:
  "fixed s (handle_nonce_response E msg s) \<and> no_offer s (handle_nonce_response E msg s) \<and>
   ss_receiver_key (handle_nonce_response E msg s) = ss_receiver_key s \<and>
   ss_receiver_token (handle_nonce_response E msg s) = ss_receiver_token s \<and>
   ss_required_attempts (handle_nonce_response E msg s) = ss_required_attempts s \<and>
   ss_state (handle_nonce_response E msg s) \<in> {ss_state s, SndWaitToken}"
  by (cases msg) (auto simp: handle_nonce_response_def Let_def snd_json_def fixed_def no_offer_def offers_def split: option.split)

lemma list_phase_outcome:
  "fixed s (begin_file_list_phase E s) \<and> ss_receiver_key (begin_file_list_phase E s) = ss_receiver_key s \<and>
   ss_receiver_token (begin_file_list_phase E s) = ss_receiver_token s \<and>
   ss_final_nonce (begin_file_list_phase E s) = ss_final_nonce s \<and>
   ss_required_attempts (begin_file_list_phase E s) = ss_required_attempts s \<and>
   (if ss_require_pin s then ss_state (begin_file_list_phase E s) \<in> {SndWaitRequiredPin, SndDone} \<and> no_offer s (begin_file_list_phase E s)
    else ss_state (begin_file_list_phase E s) \<in> {ss_state s, SndWaitFileAccept})"
  by (auto simp: begin_file_list_phase_def send_file_list_def send_pin_sending_status_def fixed_def
      dest!: chunked_kept core_eq split: prod.split bool.split)

definition proves :: "crypto_ops \<Rightarrow> verifying_key option \<Rightarrow> string \<Rightarrow> bytes \<Rightarrow> bool" where
  "proves ops key t n \<longleftrightarrow> (case key of None \<Rightarrow> True | Some k \<Rightarrow> verify_token_nonce ops k t n = None)"

lemma token_outcome:
  assumes "handle_token_response E msg j s = s'"
  obtains (same) "s' = s"
  | (failed) "ss_state s' = SndDone" "fixed s s'" "no_offer s s'" "ss_receiver_key s' = ss_receiver_key s"
      "ss_final_nonce s' = ss_final_nonce s" "ss_required_attempts s' = ss_required_attempts s"
  | (pin) t where "ss_state s' = SndWaitPin" "fixed s s'" "no_offer s s'" "ss_receiver_key s' = ss_receiver_key s"
      "ss_final_nonce s' = ss_final_nonce s" "ss_required_attempts s' = ss_required_attempts s"
      "ss_receiver_token s' = t" "proves (re_ops E) (ss_receiver_key s) t (ss_final_nonce s)"
  | (listed) t where "s' = begin_file_list_phase E (s\<lparr>ss_receiver_token := t\<rparr>)"
      "proves (re_ops E) (ss_receiver_key s) t (ss_final_nonce s)"
proof -
  consider (refused) "msg_type msg = ''status_TOO_MANY_ATTEMPTS'' \<or> msg_type msg = ''status_INVALID_SIGNATURE''"
    | (other) "msg_type msg \<notin> {''status_TOO_MANY_ATTEMPTS'', ''status_INVALID_SIGNATURE'', ''status_OK'', ''status_PIN_REQUIRED''}"
    | (undecoded) "msg_type msg \<in> {''status_OK'', ''status_PIN_REQUIRED''}" "decode_token_response j = None"
    | (decoded) st t where "msg_type msg \<in> {''status_OK'', ''status_PIN_REQUIRED''}" "decode_token_response j = Some (st, t)"
    by (cases "decode_token_response j") auto
  then show thesis
  proof cases
    case refused
    with assms failed show thesis by (auto simp: handle_token_response_def fixed_def)
  next
    case other
    with assms same show thesis by (simp add: handle_token_response_def)
  next
    case undecoded
    with assms same show thesis by (auto simp: handle_token_response_def)
  next
    case decoded
    let ?s1 = "s\<lparr>ss_receiver_token := t\<rparr>"
    have o1: "no_offer s ?s1" by (simp add: no_offer_def offers_def)
    show thesis
    proof (cases "proves (re_ops E) (ss_receiver_key s) t (ss_final_nonce s)")
      case False
      then obtain k where k: "ss_receiver_key s = Some k" "verify_token_nonce (re_ops E) k t (ss_final_nonce s) \<noteq> None"
        by (auto simp: proves_def split: option.splits)
      then have "s' = fail_locked ''receiver token verification failed'' ?s1"
        using assms decoded by (auto simp: handle_token_response_def Let_def)
      with o1 show thesis by (intro failed) (simp_all add: fixed_def)
    next
      case True
      let ?s2 = "?s1\<lparr>ss_pin_attempts := ss_pin_attempts s + 1\<rparr>"
      define p where "p = (case re_pin_answer E of Some f \<Rightarrow> f (ss_pin_attempts s + 1) | None \<Rightarrow> ss_pin s)"
      from True have h: "s' = (if st = ''PIN_REQUIRED'' then
          (case snd_json E (SndPin p) ?s2 of
             (True, s3) \<Rightarrow> s3\<lparr>ss_state := SndWaitPin\<rparr>
           | (False, s3) \<Rightarrow> fail_locked ''failed to send PIN'' s3)
        else begin_file_list_phase E ?s1)"
        using assms decoded by (auto simp: handle_token_response_def proves_def p_def Let_def split: option.splits)
      show thesis
      proof (cases "st = ''PIN_REQUIRED''")
        case False
        with h True listed show thesis by simp
      next
        case ask: True
        obtain b s3 where j: "snd_json E (SndPin p) ?s2 = (b, s3)" by fastforce
        have s': "s' = (if b then s3\<lparr>ss_state := SndWaitPin\<rparr> else fail_locked ''failed to send PIN'' s3)"
          unfolding h j using ask by (simp split: bool.split)
        have o3: "no_offer s s3" and c: "core s3 = core ?s2"
          using json_kept [OF j] by (simp_all add: no_offer_def offers_def)
        note c = core_eq [OF c]
        show thesis
        proof (cases b)
          case True
          with s' c o3 \<open>proves _ _ _ _\<close> show thesis by (intro pin [of t]) (simp_all add: fixed_def)
        next
          case False
          with s' c o3 show thesis by (intro failed) (simp_all add: fixed_def)
        qed
      qed
    qed
  qed
qed

lemma required_pin_outcome:
  assumes "handle_required_pin E msg s = s'"
  shows "fixed s s' \<and> ss_receiver_key s' = ss_receiver_key s \<and> ss_receiver_token s' = ss_receiver_token s \<and>
    ss_final_nonce s' = ss_final_nonce s \<and>
    (s' = s \<or>
     msg = MPin (ss_required_pin s) \<and> ss_required_attempts s' = ss_required_attempts s \<and> ss_state s' \<in> {ss_state s, SndWaitFileAccept} \<or>
     ss_required_attempts s' = ss_required_attempts s + 1 \<and> no_offer s s' \<and>
     (ss_state s' = SndDone \<or> ss_state s' = ss_state s \<and> ss_required_attempts s + 1 < max_pin_attempts))"
proof (cases "\<exists>pin. msg = MPin pin")
  case False
  then have "handle_required_pin E msg s = s" by (cases msg) (auto simp: handle_required_pin_def)
  with assms show ?thesis by (simp add: fixed_def)
next
  case True
  then obtain pin where msg: "msg = MPin pin" by blast
  show ?thesis
  proof (cases "pin = ss_required_pin s")
    case True
    then have "s' = send_file_list E s" using assms msg by (simp add: handle_required_pin_def)
    then show ?thesis using msg True
      by (auto simp: send_file_list_def fixed_def dest!: chunked_kept core_eq split: prod.split bool.split)
  next
    case False
    let ?s1 = "s\<lparr>ss_required_attempts := ss_required_attempts s + 1\<rparr>"
    define st where "st = (if max_pin_attempts \<le> ss_required_attempts s + 1 then status_too_many_attempts else status_pin_required)"
    obtain b s2 where c: "send_pin_sending_status E st ?s1 = (b, s2)" by fastforce
    have "st \<noteq> status_ok" by (simp add: st_def)
    then have k: "core s2 = core ?s1" "no_offer s s2"
      using chunked_kept [of E "SndFileList st []" ?s1 b s2] c
      by (auto simp: send_pin_sending_status_def no_offer_def offers_def)
    have "s' = (if \<not> b then fail_locked ''failed to send sender PIN result'' s2
       else if st = status_too_many_attempts then fail_locked ''too many incorrect PIN attempts'' s2 else s2)"
      using assms False c by (auto simp: msg handle_required_pin_def Let_def st_def)
    moreover have "st \<noteq> status_too_many_attempts \<longleftrightarrow> ss_required_attempts s + 1 < max_pin_attempts"
      by (auto simp: st_def status_pin_required_def status_too_many_attempts_def)
    ultimately show ?thesis using core_eq [OF k(1)] k(2) by (simp add: fixed_def)
  qed
qed

text \<open>Pairing and acceptance change the key only, or end the handshake.\<close>

definition apart_key :: "rtc_sender \<Rightarrow> rtc_sender \<Rightarrow> bool" where
  "apart_key s s' \<longleftrightarrow> fixed s s' \<and> no_offer s s' \<and> ss_receiver_token s' = ss_receiver_token s \<and>
     ss_final_nonce s' = ss_final_nonce s \<and> ss_required_attempts s' = ss_required_attempts s \<and>
     ss_state s' \<in> {ss_state s, SndDone, SndSendingFiles}"

lemma answer_outcome:
  assumes "answer_pairing E pem key s = Some s'"
  shows "apart_key s s' \<and> ss_receiver_key s' \<in> {ss_receiver_key s, None}"
proof -
  define a where "a = (if ss_receiver_alias s = [] then ''Unknown Device'' else ss_receiver_alias s)"
  define ok where "ok = (case se_confirm E of None \<Rightarrow> True | Some f \<Rightarrow> f a (if pem = [] then [] else compute_fingerprint (re_sha E) pem))"
  note h = assms [unfolded answer_pairing_def Let_def, folded a_def, folded ok_def]
  obtain b s1 where j: "snd_json E (SndPair status_ok (re_key_pem E)) s = (b, s1)" by fastforce
  note k = json_kept [OF j, simplified] and c = core_eq [OF conjunct1 [OF json_kept [OF j]]]
  show ?thesis
  proof (cases ok)
    case False
    then have "s' = snd (snd_json E (SndPair status_pair_declined []) (s\<lparr>ss_receiver_key := None\<rparr>))"
      using h by simp
    then show ?thesis
      using core_eq [OF json_quiet(2), of E "SndPair status_pair_declined []" "s\<lparr>ss_receiver_key := None\<rparr>"]
        json_quiet(1) [of "SndPair status_pair_declined []" "s\<lparr>ss_receiver_key := None\<rparr>" E]
      by (simp add: apart_key_def fixed_def)
  next
    case True
    then have "s' = s1 \<or> (\<exists>t d. s' = s1\<lparr>ss_trusted := t, ss_config_disk := d\<rparr>)"
      using h j by (auto split: bool.splits option.splits prod.splits store_result.splits)
    then show ?thesis using k c by (auto simp: apart_key_def fixed_def)
  qed
qed

lemma pair_outcome:
  assumes "handle_pair_request E pem s = Some s'"
  shows "apart_key s s' \<and> (ss_receiver_key s' \<in> {ss_receiver_key s, None} \<or>
    (\<exists>k. ss_receiver_key s' = Some k \<and> (ss_receiver_token s = [] \<or>
       verify_token_nonce (re_ops E) k (ss_receiver_token s) (ss_final_nonce s) = None)))"
proof (cases "pem = []")
  case True
  with assms answer_outcome show ?thesis by (fastforce simp: handle_pair_request_def)
next
  case ne: False
  have f: "apart_key s (fail_locked x (snd (snd_json E (SndPair st k) s))) \<and>
      ss_receiver_key (fail_locked x (snd (snd_json E (SndPair st k) s))) = ss_receiver_key s" for x st k
    using core_eq [OF json_quiet(2), of E "SndPair st k" s] by (simp add: apart_key_def fixed_def)
  show ?thesis
  proof (cases "re_parse_pem E pem")
    case None
    with assms ne f show ?thesis by (auto simp: handle_pair_request_def)
  next
    case (Some key)
    show ?thesis
    proof (cases "ss_receiver_token s \<noteq> [] \<and> verify_token_nonce (re_ops E) key (ss_receiver_token s) (ss_final_nonce s) \<noteq> None")
      case True
      with assms ne Some f show ?thesis by (auto simp: handle_pair_request_def)
    next
      case False
      then have "answer_pairing E pem (Some key) (s\<lparr>ss_receiver_key := Some key\<rparr>) = Some s'"
        using assms ne Some by (auto simp: handle_pair_request_def split: if_splits)
      from answer_outcome [OF this] False show ?thesis by (auto simp: apart_key_def fixed_def)
    qed
  qed
qed

lemma accept_outcome:
  assumes "handle_file_acceptance E msg j s = Some s'"
  shows "apart_key s s' \<and> (ss_receiver_key s' \<in> {ss_receiver_key s, None} \<or>
    (\<exists>k. ss_receiver_key s' = Some k \<and> (ss_receiver_token s = [] \<or>
       verify_token_nonce (re_ops E) k (ss_receiver_token s) (ss_final_nonce s) = None)))"
proof -
  define P where "P x \<longleftrightarrow> apart_key s x \<and> (ss_receiver_key x \<in> {ss_receiver_key s, None} \<or>
    (\<exists>k. ss_receiver_key x = Some k \<and> (ss_receiver_token s = [] \<or>
       verify_token_nonce (re_ops E) k (ss_receiver_token s) (ss_final_nonce s) = None)))" for x
  have 1: "P s" "P (s\<lparr>ss_declined := d\<rparr>)" "P (s\<lparr>ss_state := SndSendingFiles\<rparr>)"
    "P (s\<lparr>ss_accepted := a, ss_state := SndSendingFiles\<rparr>)" for d a
    by (simp_all add: P_def apart_key_def fixed_def no_offer_def offers_def)
  have 2: "P x" if "handle_pair_request E pem s = Some x" for pem x
    using pair_outcome [OF that] by (simp only: P_def)
  have "P s'"
  proof (cases "msg_type msg \<in> {''status_OK'', ''status_DECLINED'', ''status_PAIR''}")
    case False
    with assms 1 show ?thesis by (simp add: handle_file_acceptance_def)
  next
    case ty: True
    show ?thesis
    proof (cases "decode_list_response j")
      case None
      with assms ty 1 show ?thesis by (auto simp: handle_file_acceptance_def)
    next
      case (Some x)
      obtain st m pem where x: "x = (st, m, pem)" by (cases x) auto
      have n: "(msg_type msg \<noteq> ''status_OK'' \<and> msg_type msg \<noteq> ''status_DECLINED'' \<and> msg_type msg \<noteq> ''status_PAIR'') = False"
        using ty by auto
      have h: "Some s' = (if st = ''DECLINED'' then Some (if ss_closed s then s else s\<lparr>ss_declined := True\<rparr>)
             else if st = ''PAIR'' then handle_pair_request E pem s
             else if st = ''OK'' then
               Some ((if ss_closed s then s
                      else s\<lparr>ss_accepted := (if ss_accepted s = None then Some m else ss_accepted s)\<rparr>)
                       \<lparr>ss_state := SndSendingFiles\<rparr>)
             else Some s)"
        using assms unfolding handle_file_acceptance_def n Some x by simp
      consider (declined) "st = ''DECLINED''" | (pair) "st = ''PAIR''" | (ok) "st = ''OK''"
        | (other) "st \<notin> {''DECLINED'', ''PAIR'', ''OK''}" by blast
      then show ?thesis
        using h 1 2 by cases (auto split: if_splits)
    qed
  qed
  then show ?thesis by (simp only: P_def)
qed

subsection \<open>The invariant\<close>

definition snd_ok :: "crypto_ops \<Rightarrow> rtc_sender \<Rightarrow> bool" where
  "snd_ok ops s \<longleftrightarrow>
     ss_required_attempts s \<le> max_pin_attempts \<and>
     (ss_required_attempts s = max_pin_attempts \<longrightarrow> ss_state s = SndDone) \<and>
     (ss_state s \<in> {SndInit, SndWaitNonce} \<longrightarrow> ss_receiver_token s = []) \<and>
     (ss_state s \<noteq> SndDone \<and> ss_receiver_token s \<noteq> [] \<longrightarrow>
        proves ops (ss_receiver_key s) (ss_receiver_token s) (ss_final_nonce s))"

fun snd_uses :: "crypto_ops \<Rightarrow> snd_event \<Rightarrow> bool" where
  "snd_uses ops (SndMessage E d b) \<longleftrightarrow> re_ops E = ops"
| "snd_uses ops _ \<longleftrightarrow> True"

lemma nonce_ok:
  assumes "snd_ok ops s" "ss_state s = SndWaitNonce"
  shows "snd_ok ops (handle_nonce_response E msg s)"
  using assms nonce_outcome [of s E msg] by (auto simp: snd_ok_def)

lemma token_ok:
  assumes "snd_ok ops s" "re_ops E = ops" "ss_state s \<in> {SndWaitToken, SndWaitPin}"
  shows "snd_ok ops (handle_token_response E msg j s)"
  using refl [of "handle_token_response E msg j s"]
proof (cases rule: token_outcome)
  case same
  with assms(1) show ?thesis by simp
next
  case failed
  with assms(1) show ?thesis by (simp add: snd_ok_def)
next
  case (pin t)
  with assms show ?thesis by (auto simp: snd_ok_def)
next
  case (listed t)
  let ?r = "begin_file_list_phase E (s\<lparr>ss_receiver_token := t\<rparr>)"
  have r: "ss_receiver_key ?r = ss_receiver_key s" "ss_receiver_token ?r = t" "ss_final_nonce ?r = ss_final_nonce s"
    "ss_required_attempts ?r = ss_required_attempts s"
    using list_phase_outcome [of "s\<lparr>ss_receiver_token := t\<rparr>" E] by simp_all
  have st: "ss_state ?r \<noteq> SndInit \<and> ss_state ?r \<noteq> SndWaitNonce"
    using list_phase_outcome [of "s\<lparr>ss_receiver_token := t\<rparr>" E] assms(3) by (auto split: if_splits)
  have "ss_state s \<noteq> SndDone" using assms(3) by auto
  then have "ss_required_attempts s < max_pin_attempts" using assms(1) by (simp add: snd_ok_def)
  with r st listed(2) assms(2) show ?thesis unfolding listed(1) snd_ok_def by simp
qed

lemma required_pin_ok:
  assumes "snd_ok ops s" "ss_state s = SndWaitRequiredPin"
  shows "snd_ok ops (handle_required_pin E msg s)"
  using assms required_pin_outcome [OF refl, of s E msg] by (auto simp: snd_ok_def)

lemma acceptance_ok:
  assumes "snd_ok ops s" "re_ops E = ops" "ss_state s = SndWaitFileAccept" "handle_file_acceptance E msg j s = Some s'"
  shows "snd_ok ops s'"
proof -
  note o = accept_outcome [OF assms(4)]
  have "ss_required_attempts s < max_pin_attempts" using assms(1,3) by (simp add: snd_ok_def)
  moreover have r: "ss_receiver_token s' = ss_receiver_token s" "ss_final_nonce s' = ss_final_nonce s"
    "ss_required_attempts s' = ss_required_attempts s" "ss_state s' \<in> {SndWaitFileAccept, SndDone, SndSendingFiles}"
    using o assms(3) by (simp_all add: apart_key_def)
  moreover have "proves ops (ss_receiver_key s') (ss_receiver_token s) (ss_final_nonce s)" if "ss_receiver_token s \<noteq> []"
  proof -
    have "proves ops (ss_receiver_key s) (ss_receiver_token s) (ss_final_nonce s)"
      using assms(1,3) that by (simp add: snd_ok_def)
    with o that assms(2) show ?thesis by (auto simp: proves_def)
  qed
  ultimately show ?thesis unfolding snd_ok_def r by auto
qed

lemma snd_ok_core: "core s' = core s \<Longrightarrow> snd_ok ops s' = snd_ok ops s"
  by (auto simp: snd_ok_def dest: core_eq)

lemma response_core: "core (handle_file_response resp s) = core s \<and> no_offer s (handle_file_response resp s)"
  by (auto simp: handle_file_response_def core_def no_offer_def offers_def Let_def)

lemma dispatch_ok:
  assumes "snd_dispatch E d s = Some s'" "snd_ok ops s" "re_ops E = ops"
  shows "snd_ok ops s'"
proof (cases "parse_rtc_message (re_parse E) d")
  case None
  with assms show ?thesis by (simp add: snd_dispatch_def)
next
  case (Some msg)
  show ?thesis
  proof (cases "\<exists>resp. msg = MFileResponse resp")
    case True
    then obtain resp where "msg = MFileResponse resp" by blast
    with assms(1) Some have "s' = handle_file_response resp s" by (simp add: snd_dispatch_def)
    then show ?thesis using assms(2) snd_ok_core [OF conjunct1 [OF response_core]] by simp
  next
    case False
    let ?j = "the (re_parse E d)"
    have "Some s' = (case ss_state s of
                     SndWaitNonce \<Rightarrow> Some (handle_nonce_response E msg s)
                   | SndWaitToken \<Rightarrow> Some (handle_token_response E msg ?j s)
                   | SndWaitPin \<Rightarrow> Some (handle_token_response E msg ?j s)
                   | SndWaitRequiredPin \<Rightarrow> Some (handle_required_pin E msg s)
                   | SndWaitFileAccept \<Rightarrow> handle_file_acceptance E msg ?j s
                   | _ \<Rightarrow> Some s)"
      using assms(1) Some False by (cases msg) (auto simp: snd_dispatch_def Let_def)
    then show ?thesis
      using assms(2,3) nonce_ok token_ok required_pin_ok acceptance_ok by (auto split: snd_state.splits)
  qed
qed

lemma snd_ok_done: "ss_required_attempts s \<le> max_pin_attempts \<Longrightarrow> ss_state s = SndDone \<Longrightarrow> snd_ok ops s"
  by (simp add: snd_ok_def)

lemma message_ok:
  assumes "snd_data_message E d b s = Some s'" "snd_ok ops s" "re_ops E = ops"
  shows "snd_ok ops s'"
proof -
  have c: "snd_ok ops (s\<lparr>ss_control := x\<rparr>)" for x using assms(2) by (simp add: snd_ok_def)
  from assms c show ?thesis
    by (auto simp: snd_data_message_def split: if_splits intro: dispatch_ok)
qed

lemma snd_step_ok:
  assumes "snd_ok ops s" "snd_uses ops e" "snd_step e s = Some s'"
  shows "snd_ok ops s'"
proof (cases e)
  case (SndMessage E d b)
  with assms message_ok show ?thesis by auto
next
  case (SndStream W)
  have "send_files W s = (x, out, t) \<Longrightarrow> t = s \<or> t = s\<lparr>ss_state := SndDone\<rparr>" for x out t
    by (auto simp: send_files_def Let_def split: if_splits prod.splits bool.splits option.splits)
  then have "s' = s \<or> s' = s\<lparr>ss_state := SndDone\<rparr>"
    using SndStream assms(3) by (cases "send_files W s") auto
  with assms(1) show ?thesis by (auto simp: snd_ok_def)
qed (use assms in \<open>auto simp: snd_ok_def snd_peer_closed_def snd_close_def take_acceptance_def split: if_splits option.splits\<close>)

lemma start_shape:
  assumes "start_nonce_exchange E s = Some s'" "ss_state s = SndInit"
  shows "fixed s s' \<and> no_offer s s' \<and> ss_receiver_key s' = ss_receiver_key s \<and>
    ss_receiver_token s' = ss_receiver_token s \<and> ss_required_attempts s' = ss_required_attempts s \<and>
    ss_state s' \<in> {SndInit, SndWaitNonce}"
  using assms
  by (auto simp: start_nonce_exchange_def Let_def snd_json_def fixed_def no_offer_def offers_def split: option.splits if_splits)

lemma session_ok:
  assumes "snd_session E files s evs = Some s'" "list_all (snd_uses ops) evs"
    and "ss_state s = SndInit" "ss_receiver_token s = []" "ss_required_attempts s < max_pin_attempts"
  shows "snd_ok ops s'"
proof -
  from assms(1) obtain s1 where s1: "start_nonce_exchange E (begin_send files s) = Some s1" "snd_run evs s1 = Some s'"
    by (auto simp: snd_session_def split: option.splits)
  have "ss_state (begin_send files s) = SndInit" using assms(3) by (simp add: begin_send_def)
  from start_shape [OF s1(1) this] assms(3-5) have "snd_ok ops s1"
    by (auto simp: snd_ok_def begin_send_def)
  from snd_run_invariant [of evs s1 s' "snd_ok ops" "snd_uses ops", OF s1(2) this assms(2)] snd_step_ok show ?thesis by blast
qed

subsection \<open>The file list\<close>

definition shows_pin :: "string \<Rightarrow> snd_event \<Rightarrow> rtc_sender \<Rightarrow> bool" where
  "shows_pin pin e s \<longleftrightarrow>
     (\<exists>E d b x. e = SndMessage E d b \<and> x \<in> {d, ss_control s} \<and> parse_rtc_message (re_parse E) x = Some (MPin pin))"

lemma dispatch_offer:
  assumes "snd_dispatch E d s = Some s'" "ss_require_pin s"
  shows "fixed s s' \<and> (no_offer s s' \<or>
    ss_state s = SndWaitRequiredPin \<and> parse_rtc_message (re_parse E) d = Some (MPin (ss_required_pin s)))"
proof (cases "parse_rtc_message (re_parse E) d")
  case None
  with assms show ?thesis by (simp add: snd_dispatch_def fixed_def)
next
  case (Some msg)
  let ?j = "the (re_parse E d)"
  have t: "fixed s (handle_token_response E msg j s) \<and> no_offer s (handle_token_response E msg j s)" for j
    using refl [of "handle_token_response E msg j s"]
  proof (cases rule: token_outcome)
    case (listed t)
    have o: "no_offer (s\<lparr>ss_receiver_token := t\<rparr>) x = no_offer s x" for x by (simp add: no_offer_def offers_def)
    show ?thesis
      using list_phase_outcome [of "s\<lparr>ss_receiver_token := t\<rparr>" E] assms(2) unfolding listed(1) o by (simp add: fixed_def)
  qed (simp_all add: fixed_def)
  have r: "fixed s (handle_file_response resp s) \<and> no_offer s (handle_file_response resp s)" for resp
    using core_eq [OF conjunct1 [OF response_core]] response_core by (simp add: fixed_def)
  have p: "fixed s (handle_required_pin E msg s) \<and> (no_offer s (handle_required_pin E msg s) \<or> msg = MPin (ss_required_pin s))"
    using required_pin_outcome [OF refl, of s E msg] by auto
  have a: "fixed s x \<and> no_offer s x" if "handle_file_acceptance E msg ?j s = Some x" for x
    using accept_outcome [OF that] by (simp add: apart_key_def)
  have n: "fixed s (handle_nonce_response E msg s) \<and> no_offer s (handle_nonce_response E msg s)"
    using nonce_outcome by blast
  show ?thesis
  proof (cases "\<exists>resp. msg = MFileResponse resp")
    case True
    then obtain resp where "msg = MFileResponse resp" by blast
    with assms(1) Some have "s' = handle_file_response resp s" by (simp add: snd_dispatch_def)
    with r show ?thesis by simp
  next
    case False
    have "Some s' = (case ss_state s of
                     SndWaitNonce \<Rightarrow> Some (handle_nonce_response E msg s)
                   | SndWaitToken \<Rightarrow> Some (handle_token_response E msg ?j s)
                   | SndWaitPin \<Rightarrow> Some (handle_token_response E msg ?j s)
                   | SndWaitRequiredPin \<Rightarrow> Some (handle_required_pin E msg s)
                   | SndWaitFileAccept \<Rightarrow> handle_file_acceptance E msg ?j s
                   | _ \<Rightarrow> Some s)"
      using assms(1) Some False by (cases msg) (auto simp: snd_dispatch_def Let_def)
    then show ?thesis
    proof (cases "ss_state s")
      case SndWaitRequiredPin
      with \<open>Some s' = _\<close> have "s' = handle_required_pin E msg s" by simp
      with p SndWaitRequiredPin Some show ?thesis by simp
    qed (use \<open>Some s' = _\<close> n t a in \<open>auto simp: fixed_def\<close>)
  qed
qed

lemma message_cases:
  assumes "snd_data_message E d b s = Some s'"
  obtains (buffer) "snd_dispatch E (ss_control s) (s\<lparr>ss_control := []\<rparr>) = Some s'"
  | (here) "snd_dispatch E d s = Some s'"
  | (kept) c where "s' = s\<lparr>ss_control := c\<rparr>"
  | (same) "s' = s"
proof (cases "b \<and> d = ''0''")
  case True
  with assms same buffer show thesis by (cases "ss_control s = []") (simp_all add: snd_data_message_def)
next
  case False
  show thesis
  proof (cases b)
    case True
    with assms False here show thesis by (simp add: snd_data_message_def)
  next
    case f: False
    show thesis
    proof (cases "max_control_message_bytes < length (ss_control s) + length d")
      case True
      with assms f kept [of "[]"] show thesis by (simp add: snd_data_message_def)
    next
      case False
      with assms f kept [of "ss_control s @ d"] show thesis by (simp add: snd_data_message_def)
    qed
  qed
qed

lemma step_offer:
  assumes "snd_step e s = Some s'" "ss_require_pin s"
  shows "fixed s s' \<and> (no_offer s s' \<or> ss_state s = SndWaitRequiredPin \<and> shows_pin (ss_required_pin s) e s)"
proof (cases e)
  case (SndMessage E d b)
  have c: "fixed s x \<and> no_offer s x" if "x = s\<lparr>ss_control := c\<rparr>" for x c
    using that by (simp add: fixed_def)
  consider (buffer) "snd_dispatch E (ss_control s) (s\<lparr>ss_control := []\<rparr>) = Some s'"
    | (here) "snd_dispatch E d s = Some s'" | (kept) c where "s' = s\<lparr>ss_control := c\<rparr>" | (same) "s' = s"
    using assms(1) [unfolded SndMessage snd_step.simps] by (rule message_cases)
  then show ?thesis
  proof cases
    case buffer
    from dispatch_offer [OF this] assms(2) show ?thesis
      unfolding SndMessage shows_pin_def by (auto simp: fixed_def)
  next
    case here
    from dispatch_offer [OF this assms(2)] show ?thesis unfolding SndMessage shows_pin_def by auto
  qed (use c in \<open>auto simp: fixed_def\<close>)
next
  case (SndStream W)
  have "send_files W s = (x, out, t) \<Longrightarrow> t = s \<or> t = s\<lparr>ss_state := SndDone\<rparr>" for x out t
    by (auto simp: send_files_def Let_def split: if_splits prod.splits bool.splits option.splits)
  then have "s' = s \<or> s' = s\<lparr>ss_state := SndDone\<rparr>"
    using SndStream assms(1) by (cases "send_files W s") auto
  then show ?thesis by (auto simp: fixed_def)
next
  case SndPeerClosed
  with assms(1) show ?thesis by (auto simp: snd_peer_closed_def fixed_def split: if_splits)
next
  case SndClosed
  with assms(1) show ?thesis by (auto simp: snd_close_def fixed_def no_offer_def offers_def)
next
  case (SndAccepted ids)
  with assms(1) show ?thesis by (auto simp: take_acceptance_def fixed_def no_offer_def offers_def split: option.splits)
qed

lemma run_offer:
  assumes "snd_run evs s = Some s'" "ss_require_pin s" "offers s'" "\<not> offers s"
  shows "\<exists>xs e ys s1. evs = xs @ e # ys \<and> snd_run xs s = Some s1 \<and> ss_state s1 = SndWaitRequiredPin \<and>
    shows_pin (ss_required_pin s) e s1"
  using assms
proof (induction evs arbitrary: s)
  case (Cons e es)
  then obtain s1 where s1: "snd_step e s = Some s1" "snd_run es s1 = Some s'" by (auto split: option.splits)
  note o = step_offer [OF s1(1) Cons.prems(2)]
  show ?case
  proof (cases "offers s1")
    case True
    with o Cons.prems(4) have "ss_state s = SndWaitRequiredPin \<and> shows_pin (ss_required_pin s) e s" by (simp add: no_offer_def)
    then show ?thesis by (intro exI [of _ "[]"] exI [of _ e] exI [of _ es] exI [of _ s]) simp
  next
    case False
    have f: "ss_require_pin s1" "ss_required_pin s1 = ss_required_pin s" using o Cons.prems(2) by (simp_all add: fixed_def)
    from Cons.IH [OF s1(2) f(1) Cons.prems(3) False] obtain xs e' ys s2 where
      "es = xs @ e' # ys" "snd_run xs s1 = Some s2" "ss_state s2 = SndWaitRequiredPin" "shows_pin (ss_required_pin s) e' s2"
      unfolding f by blast
    then show ?thesis using s1(1) by (intro exI [of _ "e # xs"] exI [of _ e'] exI [of _ ys] exI [of _ s2]) simp
  qed
qed simp

end
