(* ===== verification/RTC_Sender_Props.thy ===== *)
theory RTC_Sender_Props
  imports RTC_Sender_Run RTC_Demo
begin

text \<open>
  What the WebRTC sender promises about who gets to see its files: its own PIN comes before the file
  list and is guessed at most three times; a receiver whose key it holds has proved it. Then the
  place where the proof is lost, and the transfer whose run the examples follow.
\<close>

subsection \<open>An example\<close>

definition snd_demo_json :: "(bytes, json) gomap" where
  "snd_demo_json =
     [(''N'', encode_nonce_msg (encode_nonce rtc_demo_local)), (''O'', encode_token_response ''OK'' rtc_demo_token),
      (''P'', encode_pin ''1234''), (''S'', encode_token_response ''OK'' []),
      (''K'', encode_pair_response ''PAIR'' ''pem'')]"

definition snd_demo_env :: snd_env where
  "snd_demo_env =
     \<lparr>open_fails = \<lambda>_. False, mkdir_fails = \<lambda>_. False, write_fails = False, partial_write = 0,
      flush_fails = False, remove_fails = False, chtimes_fails = False,
      sync_fails = False, close_fails = False, rename_fails = False,
      re_now = 1000, re_send_fails = False, re_delimiter_fails = False,
      re_nonce = Some rtc_demo_remote, re_tokens = (\<lambda>n. ''k0''), re_select = None, re_pin_answer = None,
      re_ops = toy_ops, re_key = toy_key, re_key_pem = ''pem'', re_parse_pem = (\<lambda>s. Some (to_verifying_key toy_key)),
      re_parse = map_of snd_demo_json, re_sha = (\<lambda>c. ''h''), re_lower = (\<lambda>s. s), re_encode = (\<lambda>m. []),
      se_confirm = None, se_format = (\<lambda>t. ''2026'')\<rparr>"

definition snd_demo_file :: snd_file where
  "snd_demo_file = \<lparr>sf_id = ''f'', sf_name = ''a.txt'', sf_path = [], sf_size = 3, sf_type = ''text'', sf_sha = ''h'',
     sf_preview = [], sf_modified = zero_time, sf_accessed = zero_time, sf_content = Some ''abc''\<rparr>"

lemma snd_demo_decode: "decode_nonce (encode_nonce rtc_demo_local) = Some rtc_demo_local"
  unfolding rtc_demo_local_def by code_simp

lemma snd_demo_nonce_text: "encode_nonce rtc_demo_local \<noteq> []"
  unfolding rtc_demo_local_def by code_simp

lemma snd_demo_env_simps:
  "re_send_fails snd_demo_env = False" "re_delimiter_fails snd_demo_env = False" "re_nonce snd_demo_env = Some rtc_demo_remote"
  "re_ops snd_demo_env = toy_ops" "re_key snd_demo_env = toy_key" "re_key_pem snd_demo_env = ''pem''"
  "re_parse_pem snd_demo_env = (\<lambda>s. Some (to_verifying_key toy_key))" "re_parse snd_demo_env = map_of snd_demo_json"
  "re_pin_answer snd_demo_env = None" "se_confirm snd_demo_env = None"
  by (simp_all add: snd_demo_env_def)

lemma snd_demo_text:
  "map_of snd_demo_json ''N'' = Some (encode_nonce_msg (encode_nonce rtc_demo_local))"
  "map_of snd_demo_json ''O'' = Some (encode_token_response ''OK'' rtc_demo_token)"
  "map_of snd_demo_json ''P'' = Some (encode_pin ''1234'')"
  "map_of snd_demo_json ''S'' = Some (encode_token_response ''OK'' [])"
  "map_of snd_demo_json ''K'' = Some (encode_pair_response ''PAIR'' ''pem'')"
  by (simp_all add: snd_demo_json_def)

lemma snd_demo_messages:
  "parse_rtc_message (map_of snd_demo_json) ''N'' = Some (MNonce (encode_nonce rtc_demo_local))"
  "parse_rtc_message (map_of snd_demo_json) ''O'' = Some (MStatus ''OK'' [(''status'', JText ''OK''), (''token'', JText rtc_demo_token)])"
  "parse_rtc_message (map_of snd_demo_json) ''P'' = Some (MPin ''1234'')"
  "parse_rtc_message (map_of snd_demo_json) ''S'' = Some (MStatus ''OK'' [(''status'', JText ''OK'')])"
  "parse_rtc_message (map_of snd_demo_json) ''K'' = Some (MStatus ''PAIR'' [(''status'', JText ''PAIR''), (''publicKey'', JText ''pem'')])"
  using snd_demo_nonce_text rtc_demo_token_text
  by (simp_all add: parse_rtc_message_def snd_demo_text wire_defs encode_token_response_def parse_status_def status_pair_def Let_def)

lemma snd_demo_decoded:
  "decode_token_response (encode_token_response ''OK'' t) = Some (''OK'', t)"
  "decode_list_response (encode_pair_response ''PAIR'' ''pem'') = Some (''PAIR'', [], ''pem'')"
  by (simp_all add: decode_token_response_def decode_list_response_def encode_token_response_def encode_pair_response_def
      opt_text_def)

lemmas snd_demo_simps = snd_demo_env_simps snd_demo_messages snd_demo_text snd_demo_decoded snd_demo_decode
  rtc_demo_generate rtc_demo_verifies
lemmas snd_demo_step_defs = snd_data_message_def snd_dispatch_def snd_json_def snd_chunked_def Let_def

text \<open>The states: waiting for the nonce, for the token response, and the two ways on.\<close>

definition snd_demo_0 :: "rtc_sender \<Rightarrow> rtc_sender" where
  "snd_demo_0 s = s\<lparr>ss_files := [snd_demo_file], ss_peer := True, ss_local_nonce := rtc_demo_remote,
     ss_sent := [SndNonce (encode_nonce rtc_demo_remote)], ss_state := SndWaitNonce\<rparr>"

definition snd_demo_1 :: "rtc_sender \<Rightarrow> rtc_sender" where
  "snd_demo_1 s = (snd_demo_0 s)\<lparr>ss_remote_nonce := rtc_demo_local, ss_final_nonce := rtc_demo_nonces,
     ss_sent := [SndNonce (encode_nonce rtc_demo_remote), SndToken rtc_demo_token], ss_state := SndWaitToken\<rparr>"

lemma snd_demo_start:
  "ss_sent s = [] \<Longrightarrow> start_nonce_exchange snd_demo_env (begin_send [snd_demo_file] s) = Some (snd_demo_0 s)"
  by (simp add: start_nonce_exchange_def begin_send_def snd_demo_0_def snd_demo_simps snd_demo_step_defs)

lemma snd_demo_01: "snd_step (SndMessage snd_demo_env ''N'' True) (snd_demo_0 s) = Some (snd_demo_1 s)"
  by (simp add: snd_demo_0_def snd_demo_1_def snd_demo_simps snd_demo_step_defs handle_nonce_response_def rtc_demo_nonces_def [symmetric])

definition snd_demo_2 :: "rtc_sender \<Rightarrow> rtc_sender" where
  "snd_demo_2 s = (snd_demo_1 s)\<lparr>ss_receiver_token := rtc_demo_token,
     ss_sent := ss_sent (snd_demo_1 s) @ [SndFileList status_pin_required [], SndDelimiter], ss_state := SndWaitRequiredPin\<rparr>"

definition snd_demo_3 :: "rtc_sender \<Rightarrow> rtc_sender" where
  "snd_demo_3 s = s\<lparr>ss_sent := ss_sent s @ [SndFileList status_ok [file_dto snd_demo_env snd_demo_file], SndDelimiter],
     ss_state := SndWaitFileAccept\<rparr>"

lemmas snd_demo_state_defs = snd_demo_0_def snd_demo_1_def snd_demo_2_def snd_demo_3_def

lemma snd_demo_12:
  "ss_require_pin s \<Longrightarrow> ss_receiver_key s = None \<Longrightarrow>
     snd_step (SndMessage snd_demo_env ''O'' True) (snd_demo_1 s) = Some (snd_demo_2 s)"
  by (simp add: snd_demo_state_defs snd_demo_simps snd_demo_step_defs handle_token_response_def begin_file_list_phase_def
      send_pin_sending_status_def)

lemma snd_demo_23:
  "ss_required_pin s = ''1234'' \<Longrightarrow> snd_step (SndMessage snd_demo_env ''P'' True) (snd_demo_2 s) = Some (snd_demo_3 (snd_demo_2 s))"
  by (simp add: snd_demo_state_defs snd_demo_simps snd_demo_step_defs handle_required_pin_def send_file_list_def)

lemma snd_demo_13:
  "\<not> ss_require_pin s \<Longrightarrow> ss_receiver_key s = None \<Longrightarrow>
     snd_step (SndMessage snd_demo_env ''O'' True) (snd_demo_1 s) = Some (snd_demo_3 ((snd_demo_1 s)\<lparr>ss_receiver_token := rtc_demo_token\<rparr>))"
  by (simp add: snd_demo_state_defs snd_demo_simps snd_demo_step_defs handle_token_response_def begin_file_list_phase_def
      send_file_list_def)

definition snd_demo_paired :: "rtc_sender \<Rightarrow> rtc_sender" where
  "snd_demo_paired s = s\<lparr>ss_receiver_key := Some (to_verifying_key toy_key), ss_sent := ss_sent s @ [SndPair status_ok ''pem'']\<rparr>"

lemma snd_demo_pair:
  assumes "ss_state s = SndWaitFileAccept" "ss_peer s" "ss_trusted s = None"
    and "ss_receiver_token s = [] \<or> ss_receiver_token s = rtc_demo_token \<and> ss_final_nonce s = rtc_demo_nonces"
  shows "snd_step (SndMessage snd_demo_env ''K'' True) s = Some (snd_demo_paired s)"
  using assms
  by (auto simp: snd_demo_paired_def snd_demo_simps snd_demo_step_defs handle_file_acceptance_def
      handle_pair_request_def answer_pairing_def)

subsection \<open>Who sees the files\<close>

text \<open>
  C30: With a PIN of its own the sender does not name its files before the receiver has given exactly this
  PIN, in answer to the sender's challenge, whatever the receiver sends otherwise.
\<close>

theorem sender_pin_protects_list:
  assumes "snd_session E files (set_required_pin pin s0) evs = Some s" "ss_state s0 = SndInit" "ss_sent s0 = []"
    and "SndFileList status_ok l \<in> set (ss_sent s)"
  shows "\<exists>xs e ys s1. evs = xs @ e # ys \<and> snd_session E files (set_required_pin pin s0) xs = Some s1 \<and>
    ss_state s1 = SndWaitRequiredPin \<and> shows_pin pin e s1"
proof -
  let ?s = "begin_send files (set_required_pin pin s0)"
  obtain s1 where s1: "start_nonce_exchange E ?s = Some s1" "snd_run evs s1 = Some s"
    using assms(1) by (auto simp: snd_session_def split: option.splits)
  have i: "ss_state ?s = SndInit" "\<not> offers ?s" "ss_require_pin ?s" "ss_required_pin ?s = pin"
    using assms(2,3) by (simp_all add: begin_send_def set_required_pin_def offers_def)
  with start_shape [OF s1(1) i(1)] have "\<not> offers s1" "ss_require_pin s1" "ss_required_pin s1 = pin"
    by (simp_all add: no_offer_def fixed_def)
  moreover have "offers s" using assms(4) by (auto simp: offers_def)
  ultimately obtain xs e ys s2 where "evs = xs @ e # ys" "snd_run xs s1 = Some s2" "ss_state s2 = SndWaitRequiredPin" "shows_pin pin e s2"
    using run_offer [OF s1(2)] by blast
  with s1(1) show ?thesis by (intro exI [of _ xs] exI [of _ e] exI [of _ ys] exI [of _ s2]) (simp add: snd_session_def)
qed

lemma snd_demo_pin_session:
  "snd_session snd_demo_env [snd_demo_file] (set_required_pin ''1234'' (new_rtc_sender [] (\<lambda>p. None)))
     [SndMessage snd_demo_env ''N'' True, SndMessage snd_demo_env ''O'' True, SndMessage snd_demo_env ''P'' True] =
   Some (snd_demo_3 (snd_demo_2 (set_required_pin ''1234'' (new_rtc_sender [] (\<lambda>p. None)))))"
proof -
  let ?s = "set_required_pin ''1234'' (new_rtc_sender [] (\<lambda>p. None))"
  have s: "ss_sent ?s = []" "ss_require_pin ?s" "ss_receiver_key ?s = None" "ss_required_pin ?s = ''1234''"
    by (simp_all add: set_required_pin_def new_rtc_sender_def)
  show ?thesis
    unfolding snd_session_def snd_demo_start [OF s(1)] option.case
    by (simp only: snd_run.simps snd_demo_01 snd_demo_12 [OF s(2,3)] snd_demo_23 [OF s(4)] option.case)
qed

theorem sender_pin_protects_list_witness:
  "\<exists>xs e ys s1. [SndMessage snd_demo_env ''N'' True, SndMessage snd_demo_env ''O'' True, SndMessage snd_demo_env ''P'' True] = xs @ e # ys \<and>
    snd_session snd_demo_env [snd_demo_file] (set_required_pin ''1234'' (new_rtc_sender [] (\<lambda>p. None))) xs = Some s1 \<and>
    ss_state s1 = SndWaitRequiredPin \<and> shows_pin ''1234'' e s1"
  by (rule sender_pin_protects_list [OF snd_demo_pin_session, of "[file_dto snd_demo_env snd_demo_file]"])
    (simp_all add: new_rtc_sender_def snd_demo_3_def)

text \<open>
  In every session the sender's own PIN is compared at most three times, the third wrong one ends the
  session; and while the session lasts, whenever the sender holds both a token and a key of the receiver,
  given beforehand or by pairing, the token verifies under the key for the nonce of this connection.
\<close>

theorem sender_session_invariant:
  assumes "snd_session E files s0 evs = Some s" "list_all (snd_uses ops) evs"
    and "ss_state s0 = SndInit" "ss_receiver_token s0 = []" "ss_required_attempts s0 = 0"
  shows "ss_required_attempts s \<le> max_pin_attempts \<and> (ss_required_attempts s = max_pin_attempts \<longrightarrow> ss_state s = SndDone) \<and>
    (ss_state s \<noteq> SndDone \<and> ss_receiver_token s \<noteq> [] \<and> ss_receiver_key s = Some k \<longrightarrow>
       verify_token_nonce ops k (ss_receiver_token s) (ss_final_nonce s) = None)"
proof -
  have "snd_ok ops s"
    by (rule session_ok [OF assms(1,2,3,4)]) (simp add: assms(5) max_pin_attempts_def)
  then show ?thesis by (auto simp: snd_ok_def proves_def)
qed

lemma snd_demo_pair_session:
  "snd_session snd_demo_env [snd_demo_file] (new_rtc_sender [] (\<lambda>p. None))
     [SndMessage snd_demo_env ''N'' True, SndMessage snd_demo_env ''O'' True, SndMessage snd_demo_env ''K'' True] =
   Some (snd_demo_paired (snd_demo_3 ((snd_demo_1 (new_rtc_sender [] (\<lambda>p. None)))\<lparr>ss_receiver_token := rtc_demo_token\<rparr>)))"
proof -
  let ?s = "new_rtc_sender [] (\<lambda>p. None)"
  have s: "ss_sent ?s = []" "\<not> ss_require_pin ?s" "ss_receiver_key ?s = None"
    by (simp_all add: new_rtc_sender_def)
  have p: "snd_step (SndMessage snd_demo_env ''K'' True) (snd_demo_3 ((snd_demo_1 ?s)\<lparr>ss_receiver_token := rtc_demo_token\<rparr>)) =
      Some (snd_demo_paired (snd_demo_3 ((snd_demo_1 ?s)\<lparr>ss_receiver_token := rtc_demo_token\<rparr>)))"
    by (rule snd_demo_pair) (simp_all add: snd_demo_state_defs new_rtc_sender_def)
  show ?thesis
    unfolding snd_session_def snd_demo_start [OF s(1)] option.case
    by (simp only: snd_run.simps snd_demo_01 snd_demo_13 [OF s(2,3)] p option.case)
qed

theorem sender_session_invariant_witness:
  "ss_required_attempts (snd_demo_paired (snd_demo_3 ((snd_demo_1 (new_rtc_sender [] (\<lambda>p. None)))\<lparr>ss_receiver_token := rtc_demo_token\<rparr>)))
      \<le> max_pin_attempts \<and>
    verify_token_nonce toy_ops (to_verifying_key toy_key) rtc_demo_token rtc_demo_nonces = None"
  using sender_session_invariant [OF snd_demo_pair_session, of toy_ops "to_verifying_key toy_key"] rtc_demo_token_text
  by (simp add: new_rtc_sender_def snd_demo_env_simps snd_demo_paired_def snd_demo_state_defs)

subsection \<open>Where the proof is lost\<close>

text \<open>
  C31: A PIN of the receiver erases its identity. The answer to a correct PIN carries no token, and the
  sender stores the empty one; a PAIR request that follows is then accepted with any key that parses,
  though the receiver had identified itself, under another key, before the PIN.
\<close>

theorem pin_erases_identity:
  assumes "ss_state s = SndWaitPin" "ss_peer s" "\<not> ss_require_pin s" "ss_receiver_key s = None" "ss_trusted s = None"
    and "re_parse E ok = Some (encode_token_response ''OK'' [])" "ok \<noteq> ''0''"
    and "re_parse E ask = Some (encode_pair_response ''PAIR'' pem)" "ask \<noteq> ''0''" "pem \<noteq> []" "re_parse_pem E pem = Some key"
    and "\<not> re_send_fails E" "\<not> re_delimiter_fails E" "se_confirm E = None"
  shows "\<exists>s'. snd_run [SndMessage E ok True, SndMessage E ask True] s = Some s' \<and> ss_state s' = SndWaitFileAccept \<and>
    ss_receiver_token s' = [] \<and> ss_receiver_key s' = Some key"
proof -
  have m: "parse_rtc_message (re_parse E) ok = Some (MStatus ''OK'' [(''status'', JText ''OK'')])"
    "parse_rtc_message (re_parse E) ask = Some (MStatus ''PAIR'' [(''status'', JText ''PAIR''), (''publicKey'', JText pem)])"
    using assms(6,8,10)
    by (simp_all add: parse_rtc_message_def wire_defs encode_token_response_def parse_status_def status_pair_def Let_def)
  have d: "decode_list_response (encode_pair_response ''PAIR'' pem) = Some (''PAIR'', [], pem)"
    using assms(10) by (simp add: decode_list_response_def encode_pair_response_def opt_text_def)
  obtain s1 where s1: "snd_step (SndMessage E ok True) s = Some s1" "ss_state s1 = SndWaitFileAccept" "ss_receiver_token s1 = []"
    "ss_peer s1" "ss_trusted s1 = None"
    using assms m(1) by (simp add: snd_demo_decoded snd_demo_step_defs handle_token_response_def begin_file_list_phase_def send_file_list_def)
  have "\<exists>s2. snd_step (SndMessage E ask True) s1 = Some s2 \<and> ss_state s2 = SndWaitFileAccept \<and>
      ss_receiver_token s2 = [] \<and> ss_receiver_key s2 = Some key"
    using s1(2-5) assms(8-14) m(2) d
    by (auto simp: snd_demo_step_defs handle_file_acceptance_def handle_pair_request_def answer_pairing_def)
  with s1(1) show ?thesis by auto
qed

theorem pin_erases_identity_witness:
  "\<exists>s'. snd_run [SndMessage snd_demo_env ''S'' True, SndMessage snd_demo_env ''K'' True]
      ((snd_demo_1 (new_rtc_sender [] (\<lambda>p. None)))\<lparr>ss_state := SndWaitPin, ss_receiver_token := ''another''\<rparr>) = Some s' \<and>
    ss_state s' = SndWaitFileAccept \<and> ss_receiver_token s' = [] \<and> ss_receiver_key s' = Some (to_verifying_key toy_key)"
  by (rule pin_erases_identity [where pem = "''pem''"])
    (simp_all add: snd_demo_simps snd_demo_state_defs new_rtc_sender_def)

end
