(* ===== verification/Local_Files.thy ===== *)
theory Local_Files
  imports Models Paths
begin

text \<open>
  What a sender knows of its own files: \<open>internal/models/filemeta.go\<close>, the base sender of
  \<open>internal/localsend/send/send.go\<close>, and \<^verbatim>\<open>filepath.Rel\<close>, which names the files of a folder. The
  operating system, SHA-256, the MIME table and the time format are the fields of \<open>file_env\<close>.
\<close>

subsection \<open>File metadata\<close>

text \<open>\<open>FileMeta\<close> with its two fields that are not sent.\<close>

record local_meta = file_meta +
  fm_full_path :: string
  fm_content :: "bytes option"

record stat_info =
  st_name :: string
  st_size :: int
  st_modified :: time
  st_accessed :: time

record file_env =
  fe_stat :: "string \<Rightarrow> stat_info option"
  fe_sha_file :: "string \<Rightarrow> string option"
  fe_sha :: "bytes \<Rightarrow> string"
  fe_mime :: "string \<Rightarrow> string"
  fe_format :: "time \<Rightarrow> string"

definition max_message_bytes :: nat where
  "max_message_bytes = 64000"

definition gen_text_file_meta :: "file_env \<Rightarrow> string \<Rightarrow> bytes \<Rightarrow> local_meta" where
  "gen_text_file_meta E uuid body =
     \<lparr>fm_id = uuid, fm_name = uuid @ ''.txt'', fm_size = int (length body), fm_type = ''text/plain'',
      fm_checksum = fe_sha E body, fm_preview = (if length body \<le> max_message_bytes then body else []),
      fm_metadata = None, fm_full_path = [], fm_content = Some body\<rparr>"

definition file_type :: "file_env \<Rightarrow> string \<Rightarrow> string" where
  "file_type E p = (let t = fe_mime E (path_ext p) in if t = [] then ''text/plain'' else t)"

definition gen_file_meta :: "file_env \<Rightarrow> string \<Rightarrow> string \<Rightarrow> local_meta option" where
  "gen_file_meta E uuid p =
     (case fe_stat E p of
        None \<Rightarrow> None
      | Some st \<Rightarrow>
          (case fe_sha_file E p of
             None \<Rightarrow> None
           | Some checksum \<Rightarrow>
               Some \<lparr>fm_id = uuid, fm_name = st_name st, fm_size = st_size st, fm_type = file_type E p,
                     fm_checksum = checksum, fm_preview = [],
                     fm_metadata = Some \<lparr>md_modified = fe_format E (st_modified st), md_accessed = fe_format E (st_accessed st)\<rparr>,
                     fm_full_path = p, fm_content = None\<rparr>))"

text \<open>\<^verbatim>\<open>filepath.Rel\<close> on Unix, by components; the target is a file, not the directory \<^verbatim>\<open>.\<close> itself.\<close>

fun strip_common :: "string list \<Rightarrow> string list \<Rightarrow> string list \<times> string list" where
  "strip_common (b # bs) (t # ts) = (if b = t then strip_common bs ts else (b # bs, t # ts))"
| "strip_common bs ts = (bs, ts)"

definition path_rel :: "string \<Rightarrow> string \<Rightarrow> string option" where
  "path_rel base targ =
     (if path_clean base = path_clean targ then Some ''.''
      else if is_abs base \<noteq> is_abs targ then None
      else
        (case strip_common (path_comps base) (path_comps targ) of
           (bs, ts) \<Rightarrow>
             if bs \<noteq> [] \<and> hd bs = ''..'' then None
             else Some (join_with sep (replicate (length bs) ''..'' @ ts))))"

definition gen_file_meta_with_base :: "file_env \<Rightarrow> string \<Rightarrow> string \<Rightarrow> string \<Rightarrow> local_meta option" where
  "gen_file_meta_with_base E uuid p base =
     (case fe_stat E p of
        None \<Rightarrow> None
      | Some st \<Rightarrow>
          (case fe_sha_file E p of
             None \<Rightarrow> None
           | Some checksum \<Rightarrow>
               (case path_rel base p of
                  None \<Rightarrow> None
                | Some rel \<Rightarrow>
                    Some \<lparr>fm_id = uuid, fm_name = rel, fm_size = st_size st, fm_type = file_type E p,
                          fm_checksum = checksum, fm_preview = [],
                          fm_metadata = Some \<lparr>md_modified = fe_format E (st_modified st), md_accessed = fe_format E (st_accessed st)\<rparr>,
                          fm_full_path = p, fm_content = None\<rparr>)))"

subsection \<open>The base sender\<close>

record base_sender =
  bs_tokens :: file_tokens
  bs_files :: "(string, local_meta) gomap"
  bs_session :: string
  bs_pin :: string
  bs_alias :: string

definition set_pin :: "string \<Rightarrow> 'a base_sender_scheme \<Rightarrow> 'a base_sender_scheme" where
  "set_pin pin b = b\<lparr>bs_pin := pin\<rparr>"

definition set_alias :: "string \<Rightarrow> 'a base_sender_scheme \<Rightarrow> 'a base_sender_scheme" where
  "set_alias alias b = b\<lparr>bs_alias := alias\<rparr>"

definition put_meta :: "local_meta option \<Rightarrow> 'a base_sender_scheme \<Rightarrow> bool \<times> 'a base_sender_scheme" where
  "put_meta m b =
     (case m of None \<Rightarrow> (False, b) | Some meta \<Rightarrow> (True, b\<lparr>bs_files := AList.update (fm_id meta) meta (bs_files b)\<rparr>))"

definition add_file :: "file_env \<Rightarrow> string \<Rightarrow> string \<Rightarrow> 'a base_sender_scheme \<Rightarrow> bool \<times> 'a base_sender_scheme" where
  "add_file E uuid p b = put_meta (gen_file_meta E uuid p) b"

definition add_file_with_base ::
    "file_env \<Rightarrow> string \<Rightarrow> string \<Rightarrow> string \<Rightarrow> 'a base_sender_scheme \<Rightarrow> bool \<times> 'a base_sender_scheme" where
  "add_file_with_base E base uuid p b = put_meta (gen_file_meta_with_base E uuid p base) b"

definition add_text :: "file_env \<Rightarrow> string \<Rightarrow> bytes \<Rightarrow> 'a base_sender_scheme \<Rightarrow> 'a base_sender_scheme" where
  "add_text E uuid body b = snd (put_meta (Some (gen_text_file_meta E uuid body)) b)"

text \<open>What \<^verbatim>\<open>filepath.Walk\<close> calls its function with, in order; an error ends the walk. The \<open>n\<close>-th file
  gets the \<open>n\<close>-th id.\<close>

datatype walk_entry = WalkError | WalkDir string | WalkFile string

fun add_walk ::
    "(string \<Rightarrow> string \<Rightarrow> 'a base_sender_scheme \<Rightarrow> bool \<times> 'a base_sender_scheme) \<Rightarrow> (nat \<Rightarrow> string) \<Rightarrow> nat \<Rightarrow>
     walk_entry list \<Rightarrow> 'a base_sender_scheme \<Rightarrow> bool \<times> 'a base_sender_scheme" where
  "add_walk add ids n [] b = (True, b)"
| "add_walk add ids n (WalkError # es) b = (False, b)"
| "add_walk add ids n (WalkDir d # es) b = add_walk add ids n es b"
| "add_walk add ids n (WalkFile p # es) b =
     (case add (ids n) p b of (False, b1) \<Rightarrow> (False, b1) | (True, b1) \<Rightarrow> add_walk add ids (Suc n) es b1)"

definition add_dir :: "file_env \<Rightarrow> (nat \<Rightarrow> string) \<Rightarrow> walk_entry list \<Rightarrow> 'a base_sender_scheme \<Rightarrow> bool \<times> 'a base_sender_scheme" where
  "add_dir E ids es b = add_walk (add_file E) ids 0 es b"

definition add_dir_with_structure ::
    "file_env \<Rightarrow> (nat \<Rightarrow> string) \<Rightarrow> string \<Rightarrow> walk_entry list \<Rightarrow> 'a base_sender_scheme \<Rightarrow> bool \<times> 'a base_sender_scheme" where
  "add_dir_with_structure E ids dir es b = add_walk (add_file_with_base E (path_dir dir)) ids 0 es b"

text \<open>The files as they are announced: the path and the content stay here.\<close>

definition file_metas_of :: "(string, local_meta) gomap \<Rightarrow> file_metas" where
  "file_metas_of fs = map (map_prod id file_meta.truncate) fs"

definition reset_files :: "'a base_sender_scheme \<Rightarrow> 'a base_sender_scheme" where
  "reset_files b = b\<lparr>bs_tokens := [], bs_files := []\<rparr>"

definition file_count :: "'a base_sender_scheme \<Rightarrow> nat" where
  "file_count b = length (bs_files b)"

subsection \<open>Names of folder files\<close>

lemma strip_prefix: "strip_common cs (cs @ ts) = ([], ts)"
  by (induction cs) (cases ts, simp_all)

text \<open>Without a slash at its end, a path is its directory and its last component.\<close>

lemma dir_comps:
  assumes "split_on sep d = cs @ [b]" "plain_comp b"
  shows "path_comps d = path_comps (path_dir d) @ [b] \<and> is_abs (path_dir d) = is_abs d"
proof (cases "cs = []")
  case True
  then have "d = b" using assms(1) join_split [of sep d] by simp
  moreover have "path_dir d = ''.''" using True assms(1) by (simp add: path_dir_def path_clean_def sep_def)
  ultimately show ?thesis
    using assms safe_rel_single [OF assms(2)] safe_rel_comps [of d] safe_rel_not_abs [of d] True
    by (simp add: path_comps_def sep_def plain_comp_def)
next
  case False
  let ?a = "join_with sep cs"
  have d: "d = ?a @ sep # b" using assms(1) False join_split [of sep d] join_append [of cs "[b]" sep] by simp
  have dir: "path_dir d = path_clean (?a @ [sep])" using assms(1) False by (simp add: path_dir_def)
  have b: "b \<noteq> []" "b \<noteq> ''.''" "b \<noteq> ''..''" "split_on sep b = [b]"
    using assms(2) by (simp_all add: plain_comp_def split_plain)
  have "path_comps d = path_comps (?a @ [sep]) @ [b]"
  proof (cases "?a = []")
    case True
    then show ?thesis unfolding d using b by (simp add: path_comps_def sep_def)
  next
    case False
    from path_comps_append [OF False] b show ?thesis unfolding d by simp
  qed
  moreover have "is_abs d = is_abs (?a @ [sep])" unfolding d by (cases ?a) simp_all
  ultimately show ?thesis unfolding dir by (simp add: path_simps is_abs_clean)
qed

text \<open>
  A folder added with its structure keeps its name as the root: for a folder path that does not end in
  a slash every file inside is announced under a relative path that starts with the folder's name,
  leads from the folder's parent to the file, and is accepted unchanged by the receiver's sanitiser.
\<close>

theorem folder_names_keep_the_root:
  assumes "split_on sep d = cs @ [b]" "plain_comp b" "below d p" "gen_file_meta_with_base E uuid p (path_dir d) = Some m"
  shows "sanitize_relative_path (fm_name m) = Inr (fm_name m) \<and> hd (split_on sep (fm_name m)) = b \<and>
    path_comps p = path_comps (path_dir d) @ split_on sep (fm_name m)"
proof -
  note dir = dir_comps [OF assms(1,2)]
  from assms(3) obtain rest where rest: "is_abs p = is_abs d" "\<forall>c\<in>set rest. plain_comp c" "path_comps p = path_comps d @ rest"
    by (auto simp: below_def)
  let ?n = "join_with sep (b # rest)"
  have p: "path_comps p = path_comps (path_dir d) @ b # rest" using dir rest(3) by simp
  have "path_clean (path_dir d) \<noteq> path_clean p"
  proof
    assume "path_clean (path_dir d) = path_clean p"
    then have "path_comps (path_dir d) = path_comps p" by (metis path_comps_clean)
    with p show False by simp
  qed
  then have "path_rel (path_dir d) p = Some ?n"
    using dir rest(1) p by (simp add: path_rel_def strip_prefix)
  then have n: "fm_name m = ?n" using assms(4) by (auto simp: gen_file_meta_with_base_def split: option.splits)
  have plain: "\<forall>c\<in>set (b # rest). plain_comp c" using assms(2) rest(2) by simp
  have "safe_rel ?n" by (rule safe_rel_join [OF _ plain]) simp
  moreover have "split_on sep ?n = b # rest"
    using plain by (intro split_join) (auto simp: plain_comp_def)
  ultimately show ?thesis using n p sanitize_safe_id by simp
qed

definition demo_file_env :: file_env where
  "demo_file_env = \<lparr>fe_stat = (\<lambda>p. Some \<lparr>st_name = path_base p, st_size = 3, st_modified = 0, st_accessed = 0\<rparr>),
     fe_sha_file = (\<lambda>p. Some ''h''), fe_sha = (\<lambda>b. ''h''), fe_mime = (\<lambda>e. ''image/jpeg''), fe_format = (\<lambda>t. ''1970'')\<rparr>"

theorem folder_names_keep_the_root_witness:
  "map_option fm_name (gen_file_meta_with_base demo_file_env ''u'' ''/tmp/Photos/Summer/b.jpg'' (path_dir ''/tmp/Photos'')) =
     Some ''Photos/Summer/b.jpg'' \<and>
   sanitize_relative_path ''Photos/Summer/b.jpg'' = Inr ''Photos/Summer/b.jpg''"
proof -
  obtain m where m: "gen_file_meta_with_base demo_file_env ''u'' ''/tmp/Photos/Summer/b.jpg'' (path_dir ''/tmp/Photos'') = Some m"
    "fm_name m = ''Photos/Summer/b.jpg''"
  proof -
    have "map_option fm_name (gen_file_meta_with_base demo_file_env ''u'' ''/tmp/Photos/Summer/b.jpg'' (path_dir ''/tmp/Photos'')) =
       Some ''Photos/Summer/b.jpg''" by code_simp
    then show thesis using that by (auto simp: map_option_case split: option.splits)
  qed
  have c: "path_comps ''/tmp/Photos'' = [''tmp'', ''Photos'']" "path_comps ''/tmp/Photos/Summer/b.jpg'' = [''tmp'', ''Photos'', ''Summer'', ''b.jpg'']"
    "split_on sep ''/tmp/Photos'' = [[], ''tmp''] @ [''Photos'']" "is_abs ''/tmp/Photos'' = is_abs ''/tmp/Photos/Summer/b.jpg''"
    by code_simp+
  have "below ''/tmp/Photos'' ''/tmp/Photos/Summer/b.jpg''"
    unfolding below_def c by (intro conjI exI [of _ "[''Summer'', ''b.jpg'']"]) (simp_all add: plain_comp_def sep_def)
  from folder_names_keep_the_root [OF c(3) _ this m(1)] m show ?thesis by (simp add: plain_comp_def sep_def)
qed

text \<open>
  A slash at the end of the folder path loses the folder: its directory is then the folder itself, and
  the files are announced loose, although the folder's name is meant to be the root.
\<close>

theorem trailing_slash_drops_folder:
  "map_option fm_name (gen_file_meta_with_base demo_file_env ''u'' ''Photos/b.jpg'' (path_dir ''Photos'')) = Some ''Photos/b.jpg'' \<and>
   map_option fm_name (gen_file_meta_with_base demo_file_env ''u'' ''Photos/b.jpg'' (path_dir ''Photos/'')) = Some ''b.jpg''"
  by code_simp

end
