(* ===== verification/Fwd_Sender.thy ===== *)
theory Fwd_Sender
  imports Local_Files LS_Errors
begin

text \<open>
  The HTTP sender: \<open>ForwardSender\<close> of \<open>internal/localsend/send/fwdsend.go\<close>. What fasthttp does with
  a request is a function of the request and the world outside that gives the status and body of the answer
  or a transport error; the JSON decoder, the operating system's \<^verbatim>\<open>open\<close>, the certificate files and the
  IPv6 parser of \<^verbatim>\<open>netip\<close> are parameters. Errors made by \<^verbatim>\<open>fmt.Errorf\<close> from something other
  than a sentinel are \<open>ErrOther\<close>; \<open>slog\<close> is left out.
\<close>

subsection \<open>The sender\<close>

record fwd_sender = base_sender +
  fw_local :: "device_info option"
  fw_remote :: "device_info option"
  fw_port :: string
  fw_https :: bool
  fw_abort :: bool
  fw_cert :: "string option"
  fw_conns :: "nat list"

definition default_port :: int where
  "default_port = 53317"

definition default_port_str :: string where
  "default_port_str = ''53317''"

definition upload_path :: string where
  "upload_path = ''/api/localsend/v2/upload''"

definition preupload_path :: string where
  "preupload_path = ''/api/localsend/v2/prepare-upload''"

definition cancel_path :: string where
  "cancel_path = ''/api/localsend/v2/cancel''"

definition max_upload_attempts :: nat where
  "max_upload_attempts = 3"

definition upload_concurrency :: nat where
  "upload_concurrency = 2"

definition new_forward_sender :: fwd_sender where
  "new_forward_sender =
     \<lparr>bs_tokens = [], bs_files = [], bs_session = [], bs_pin = [], bs_alias = [],
      fw_local = None, fw_remote = None, fw_port = default_port_str, fw_https = False, fw_abort = False,
      fw_cert = None, fw_conns = []\<rparr>"

text \<open>
  The tracked upload connections: a dialled connection is registered unless the sender has been
  cancelled meanwhile, and a closed one is forgotten.
\<close>

definition track_upload_dial :: "nat option \<Rightarrow> fwd_sender \<Rightarrow> nat option \<times> fwd_sender" where
  "track_upload_dial dialled f =
     (case dialled of
        None \<Rightarrow> (None, f)
      | Some c \<Rightarrow> if fw_abort f then (None, f) else (Some c, f\<lparr>fw_conns := List.insert c (fw_conns f)\<rparr>))"

definition close_upload_conn :: "nat \<Rightarrow> fwd_sender \<Rightarrow> fwd_sender" where
  "close_upload_conn c f = f\<lparr>fw_conns := removeAll c (fw_conns f)\<rparr>"

definition close_active_uploads :: "fwd_sender \<Rightarrow> fwd_sender" where
  "close_active_uploads f = fold close_upload_conn (fw_conns f) f"

text \<open>
  \<open>gen\<close> and \<open>fp\<close> are the generated alias and fingerprint, \<open>cert\<close> the fingerprint of the sender's
  certificate, absent when there is none to load.
\<close>

definition fwd_init :: "string \<Rightarrow> string \<Rightarrow> string option \<Rightarrow> device_info \<Rightarrow> bool \<Rightarrow> fwd_sender \<Rightarrow> bool \<times> fwd_sender" where
  "fwd_init gen fp cert target https f =
     (let f1 = (close_active_uploads f)\<lparr>fw_abort := False, bs_session := [], fw_conns := [],
                  fw_remote := Some target, fw_https := https\<rparr>;
          alias = (if bs_alias f = [] then gen else bs_alias f)
      in if https then
           (case cert of
              None \<Rightarrow> (False, f1)
            | Some c \<Rightarrow> (True, reset_files (f1\<lparr>fw_local := Some (new_device_info alias c),
                                             fw_cert := Some (dv_fingerprint target)\<rparr>)))
         else (True, reset_files (f1\<lparr>fw_local := Some (new_device_info alias fp), fw_cert := None\<rparr>)))"

definition set_remote_port :: "string \<Rightarrow> fwd_sender \<Rightarrow> fwd_sender" where
  "set_remote_port port f = f\<lparr>fw_port := port\<rparr>"

subsection \<open>Requests\<close>

datatype fwd_body = NoBody | JsonBody pre_upload_req | RawBody bytes | StreamBody bytes int

record fwd_request =
  fq_path :: string
  fq_query :: "(string, string) gomap"
  fq_body :: fwd_body
  fq_scheme :: string
  fq_host :: string
  fq_host_header :: "string option"

text \<open>\<^verbatim>\<open>net.JoinHostPort\<close>, and the zone \<open>netip.ParseAddr\<close> finds; \<open>ip6\<close> gives the canonical text of
  an IPv6 address.\<close>

definition join_host_port :: "string \<Rightarrow> string \<Rightarrow> string" where
  "join_host_port host port =
     (if CHR '':'' \<in> set host then ''['' @ host @ '']:'' @ port else host @ '':'' @ port)"

definition without_zone :: "(string \<Rightarrow> string option) \<Rightarrow> string \<Rightarrow> string option" where
  "without_zone ip6 ip =
     (case split_first (CHR ''%'') ip of
        (a, Some z) \<Rightarrow> if z = [] then None else ip6 a
      | (a, None) \<Rightarrow> None)"

definition prepare_uri ::
    "(string \<Rightarrow> string option) \<Rightarrow> fwd_sender \<Rightarrow> string \<Rightarrow> (string, string) gomap \<Rightarrow> fwd_body \<Rightarrow> fwd_request" where
  "prepare_uri ip6 f path q body =
     (let ip = (case fw_remote f of None \<Rightarrow> [] | Some d \<Rightarrow> dv_ip d)
      in \<lparr>fq_path = path, fq_query = q, fq_body = body,
          fq_scheme = (if fw_https f then ''https'' else ''http''),
          fq_host = join_host_port ip (fw_port f),
          fq_host_header = map_option (\<lambda>a. join_host_port a (fw_port f)) (without_zone ip6 ip)\<rparr>)"

type_synonym 'w transport = "fwd_request \<Rightarrow> 'w \<Rightarrow> (string + int \<times> bytes) \<times> 'w"

record fwd_env =
  fv_open :: "string \<Rightarrow> bytes option"
  fv_max_int :: int
  fv_ip6 :: "string \<Rightarrow> string option"
  fv_decode :: "bytes \<Rightarrow> pre_upload_resp option"

definition pre_upload_body :: "fwd_sender \<Rightarrow> pre_upload_req" where
  "pre_upload_body f =
     \<lparr>pu_info = map_option (\<lambda>d. device_info.extend d
         \<lparr>si_port = default_port, si_protocol = (if fw_https f then ''https'' else ''http'')\<rparr>) (fw_local f),
      pu_files = file_metas_of (bs_files f)\<rparr>"

definition pre_upload_req_do ::
    "fwd_env \<Rightarrow> 'w transport \<Rightarrow> fwd_sender \<Rightarrow> 'w \<Rightarrow> ls_error option \<times> fwd_sender \<times> 'w" where
  "pre_upload_req_do E T f w =
     (case T (prepare_uri (fv_ip6 E) f preupload_path (if bs_pin f = [] then [] else [(''pin'', bs_pin f)])
               (JsonBody (pre_upload_body f))) w of
        (Inl e, w') \<Rightarrow> (Some (ErrOther (''pre-upload request failed: '' @ e)), f, w')
      | (Inr (status, body), w') \<Rightarrow>
          (case parse_error status of
             Some e \<Rightarrow> (Some e, f, w')
           | None \<Rightarrow>
               (case fv_decode E body of
                  None \<Rightarrow> (Some (ErrOther ''failed to decode pre-upload response''), f, w')
                | Some resp \<Rightarrow> (None, f\<lparr>bs_session := pr_session resp, bs_tokens := pr_tokens resp\<rparr>, w'))))"

subsection \<open>One file\<close>

datatype prepared = SkipAborted | PrepareFailed ls_error | Prepared fwd_request

text \<open>\<open>sendFile\<close> up to the request.\<close>

definition prepare_upload :: "fwd_env \<Rightarrow> string \<Rightarrow> string \<Rightarrow> fwd_sender \<Rightarrow> prepared" where
  "prepare_upload E fid ftoken f =
     (if fw_abort f then SkipAborted
      else
        (case map_of (bs_files f) fid of
           None \<Rightarrow> PrepareFailed ErrUnknown
         | Some meta \<Rightarrow>
             let request = prepare_uri (fv_ip6 E) f upload_path
                   [(''token'', ftoken), (''sessionId'', bs_session f), (''fileId'', fid)]
             in (case fm_content meta of
                   Some content \<Rightarrow> Prepared (request (RawBody content))
                 | None \<Rightarrow>
                     (case fv_open E (fm_full_path meta) of
                        None \<Rightarrow> PrepareFailed (ErrOther (''failed to open file '' @ fm_name meta))
                      | Some content \<Rightarrow>
                          if fv_max_int E < fm_size meta
                          then PrepareFailed (ErrOther (''file too large for transfer on this system: '' @ fm_name meta))
                          else Prepared (request (StreamBody content (fm_size meta)))))))"

text \<open>\<open>sendFile\<close> after the request.\<close>

definition upload_result :: "string + int \<times> bytes \<Rightarrow> ls_error option" where
  "upload_result r =
     (case r of Inl e \<Rightarrow> Some (ErrOther (''failed to upload file: '' @ e)) | Inr (status, b) \<Rightarrow> parse_error status)"

definition send_file ::
    "fwd_env \<Rightarrow> 'w transport \<Rightarrow> string \<Rightarrow> string \<Rightarrow> fwd_sender \<Rightarrow> 'w \<Rightarrow> ls_error option \<times> 'w" where
  "send_file E T fid ftoken f w =
     (case prepare_upload E fid ftoken f of
        SkipAborted \<Rightarrow> (None, w)
      | PrepareFailed e \<Rightarrow> (Some e, w)
      | Prepared q \<Rightarrow> (case T q w of (r, w') \<Rightarrow> (upload_result r, w')))"

text \<open>\<open>sendFileWithRetry\<close>: another attempt only after a checksum failure; \<open>n\<close> attempts are left after this one.\<close>

fun send_attempts ::
    "fwd_env \<Rightarrow> 'w transport \<Rightarrow> string \<Rightarrow> string \<Rightarrow> fwd_sender \<Rightarrow> nat \<Rightarrow> 'w \<Rightarrow> ls_error option \<times> 'w" where
  "send_attempts E T fid ftoken f n w =
     (case send_file E T fid ftoken f w of
        (err, w') \<Rightarrow>
          if err \<noteq> Some ErrChecksum then (err, w')
          else (case n of 0 \<Rightarrow> (err, w') | Suc m \<Rightarrow> send_attempts E T fid ftoken f m w'))"

definition send_file_with_retry ::
    "fwd_env \<Rightarrow> 'w transport \<Rightarrow> string \<Rightarrow> string \<Rightarrow> fwd_sender \<Rightarrow> 'w \<Rightarrow> ls_error option \<times> 'w" where
  "send_file_with_retry E T fid ftoken f w = send_attempts E T fid ftoken f (max_upload_attempts - 1) w"

subsection \<open>Cancel\<close>

definition abort_uploads :: "fwd_sender \<Rightarrow> fwd_sender" where
  "abort_uploads f = close_active_uploads (f\<lparr>fw_abort := True\<rparr>)"

definition fwd_cancel :: "fwd_env \<Rightarrow> 'w transport \<Rightarrow> fwd_sender \<Rightarrow> 'w \<Rightarrow> ls_error option \<times> fwd_sender \<times> 'w" where
  "fwd_cancel E T f w =
     (let f1 = abort_uploads f
      in if bs_session f = [] then (None, f1, w)
         else
           (case T (prepare_uri (fv_ip6 E) f1 cancel_path [(''sessionId'', bs_session f)] NoBody) w of
              (Inl e, w') \<Rightarrow> (Some (ErrOther e), f1, w')
            | (Inr (status, b), w') \<Rightarrow> (parse_error status, f1, w')))"

subsection \<open>The upload scheduler\<close>

type_synonym upload_job = "string \<times> string"

text \<open>
  A worker waits for a job, holds one whose \<open>n\<close> earlier attempts failed, waits for the answer to a request, or
  has found the channel closed.
\<close>

datatype worker = Waiting | Holding upload_job nat | Uploading upload_job nat fwd_request | WorkerDone

text \<open>
  The state of \<open>Start\<close> while the workers run; \<open>fu_log\<close> records the answered requests and is not read.
\<close>

record upload_run =
  fu_sender :: fwd_sender
  fu_jobs :: "upload_job list"
  fu_workers :: "worker list"
  fu_errs :: "(string \<times> ls_error) list"
  fu_log :: "(string \<times> fwd_request \<times> (string + int \<times> bytes)) list"

text \<open>The jobs are the tokens in the order the map iteration visits them.\<close>

definition start_uploads :: "upload_job list \<Rightarrow> fwd_sender \<Rightarrow> upload_run" where
  "start_uploads jobs f =
     \<lparr>fu_sender = f, fu_jobs = jobs,
      fu_workers = replicate (min (length (bs_tokens f)) upload_concurrency) Waiting, fu_errs = [], fu_log = []\<rparr>"

definition conclude :: "nat \<Rightarrow> upload_job \<Rightarrow> nat \<Rightarrow> ls_error option \<Rightarrow> upload_run \<Rightarrow> upload_run" where
  "conclude i j n err s =
     (if err = Some ErrChecksum \<and> Suc n < max_upload_attempts
      then s\<lparr>fu_workers := (fu_workers s)[i := Holding j (Suc n)]\<rparr>
      else
        (case err of
           None \<Rightarrow> s\<lparr>fu_workers := (fu_workers s)[i := Waiting]\<rparr>
         | Some e \<Rightarrow> s\<lparr>fu_workers := (fu_workers s)[i := Waiting], fu_errs := fu_errs s @ [(fst j, e)]\<rparr>))"

inductive upload_step :: "fwd_env \<Rightarrow> upload_run \<Rightarrow> upload_run \<Rightarrow> bool" for E where
  up_take:
    "i < length (fu_workers s) \<Longrightarrow> fu_workers s ! i = Waiting \<Longrightarrow> fu_jobs s = j # js \<Longrightarrow>
     upload_step E s (s\<lparr>fu_jobs := js, fu_workers := (fu_workers s)[i := Holding j 0]\<rparr>)"
| up_quit:
    "i < length (fu_workers s) \<Longrightarrow> fu_workers s ! i = Waiting \<Longrightarrow> fu_jobs s = [] \<Longrightarrow>
     upload_step E s (s\<lparr>fu_workers := (fu_workers s)[i := WorkerDone]\<rparr>)"
| up_skip:
    "i < length (fu_workers s) \<Longrightarrow> fu_workers s ! i = Holding j n \<Longrightarrow>
     prepare_upload E (fst j) (snd j) (fu_sender s) = SkipAborted \<Longrightarrow>
     upload_step E s (conclude i j n None s)"
| up_fail:
    "i < length (fu_workers s) \<Longrightarrow> fu_workers s ! i = Holding j n \<Longrightarrow>
     prepare_upload E (fst j) (snd j) (fu_sender s) = PrepareFailed e \<Longrightarrow>
     upload_step E s (conclude i j n (Some e) s)"
| up_request:
    "i < length (fu_workers s) \<Longrightarrow> fu_workers s ! i = Holding j n \<Longrightarrow>
     prepare_upload E (fst j) (snd j) (fu_sender s) = Prepared q \<Longrightarrow>
     upload_step E s (s\<lparr>fu_workers := (fu_workers s)[i := Uploading j n q]\<rparr>)"
| up_answer:
    "i < length (fu_workers s) \<Longrightarrow> fu_workers s ! i = Uploading j n q \<Longrightarrow>
     upload_step E s (conclude i j n (upload_result r) (s\<lparr>fu_log := fu_log s @ [(fst j, q, r)]\<rparr>))"
| up_cancel:
    "\<not> fw_abort (fu_sender s) \<Longrightarrow> upload_step E s (s\<lparr>fu_sender := abort_uploads (fu_sender s)\<rparr>)"

definition workers_done :: "upload_run \<Rightarrow> bool" where
  "workers_done s \<longleftrightarrow> fu_workers s = replicate (length (fu_workers s)) WorkerDone"

datatype start_result = StartSent | PreUploadFailed ls_error | FilesFailed nat "string \<times> ls_error"

text \<open>\<open>Start\<close> before the workers: it is over, or they run with the new session. And after them.\<close>

definition fwd_begin ::
    "fwd_env \<Rightarrow> 'w transport \<Rightarrow> fwd_sender \<Rightarrow> 'w \<Rightarrow> (start_result + fwd_sender) \<times> 'w" where
  "fwd_begin E T f w =
     (case pre_upload_req_do E T f w of
        (err, f1, w') \<Rightarrow>
          if err = Some ErrFinished \<and> is_message (file_metas_of (bs_files f1)) then (Inl StartSent, w')
          else (case err of Some e \<Rightarrow> (Inl (PreUploadFailed e), w') | None \<Rightarrow> (Inr f1, w')))"

definition fwd_finish :: "fwd_env \<Rightarrow> 'w transport \<Rightarrow> upload_run \<Rightarrow> 'w \<Rightarrow> start_result \<times> fwd_sender \<times> 'w" where
  "fwd_finish E T s w =
     (case fu_errs s of
        [] \<Rightarrow> (StartSent, fu_sender s, w)
      | e # es \<Rightarrow>
          (case fwd_cancel E T (fu_sender s) w of
             (_, f, w') \<Rightarrow> (FilesFailed (length (fu_errs s)) e, f, w')))"

end
