(* ===== verification/Fwd_Props.thy ===== *)
theory Fwd_Props
  imports Fwd_Sender
begin

text \<open>
  What the upload workers of \<open>ForwardSender.Start\<close> do, whatever the order in which they and a
  cancelling user move and whatever the receiver answers.
\<close>

inductive_cases upload_stepE: "upload_step E s s'"

subsection \<open>Runs of a given length\<close>

fun upload_steps :: "fwd_env \<Rightarrow> nat \<Rightarrow> upload_run \<Rightarrow> upload_run \<Rightarrow> bool" where
  "upload_steps E 0 s s' \<longleftrightarrow> s' = s"
| "upload_steps E (Suc n) s s'' \<longleftrightarrow> (\<exists>s'. upload_step E s s' \<and> upload_steps E n s' s'')"

lemma upload_steps_invariant:
  assumes "upload_steps E n s s'" "P s" "\<And>s s'. upload_step E s s' \<Longrightarrow> P s \<Longrightarrow> P s'"
  shows "P s'"
  using assms(1,2) by (induction n arbitrary: s) (auto dest: assms(3))

text \<open>The steps by what they do to one worker.\<close>

lemma conclude_cases:
  obtains (again) "err = Some ErrChecksum" "Suc n < max_upload_attempts"
      "conclude i j n err s = s\<lparr>fu_workers := (fu_workers s)[i := Holding j (Suc n)]\<rparr>"
  | (sent) "err = None" "conclude i j n err s = s\<lparr>fu_workers := (fu_workers s)[i := Waiting]\<rparr>"
  | (failed) e where "err = Some e"
      "conclude i j n err s = s\<lparr>fu_workers := (fu_workers s)[i := Waiting], fu_errs := fu_errs s @ [(fst j, e)]\<rparr>"
proof (cases "err = Some ErrChecksum \<and> Suc n < max_upload_attempts")
  case True
  then show thesis by (intro again) (simp_all add: conclude_def)
next
  case False
  then show thesis by (cases err) (auto intro: sent failed simp: conclude_def)
qed

subsection \<open>Every run ends\<close>

text \<open>What a worker has left to do: two steps for each attempt that may follow, and finding the channel closed.\<close>

fun worker_work :: "worker \<Rightarrow> nat" where
  "worker_work Waiting = 1"
| "worker_work (Holding j n) = 1 + 2 * (max_upload_attempts - n)"
| "worker_work (Uploading j n q) = 2 * (max_upload_attempts - n)"
| "worker_work WorkerDone = 0"

fun worker_ok :: "worker \<Rightarrow> bool" where
  "worker_ok (Holding j n) \<longleftrightarrow> n < max_upload_attempts"
| "worker_ok (Uploading j n q) \<longleftrightarrow> n < max_upload_attempts"
| "worker_ok _ \<longleftrightarrow> True"

definition job_work :: nat where
  "job_work = 1 + 2 * max_upload_attempts"

definition work_left :: "upload_run \<Rightarrow> nat" where
  "work_left s = job_work * length (fu_jobs s) + sum_list (map worker_work (fu_workers s)) +
     (if fw_abort (fu_sender s) then 0 else 1)"

definition run_ok :: "upload_run \<Rightarrow> bool" where
  "run_ok s \<longleftrightarrow> list_all worker_ok (fu_workers s)"

lemma sum_list_set:
  fixes f :: "'a \<Rightarrow> nat"
  assumes "i < length ws"
  shows "sum_list (map f (ws[i := w])) + f (ws ! i) = sum_list (map f ws) + f w"
proof -
  have "f (ws ! i) \<le> sum_list (map f ws)" using assms by (simp add: member_le_sum_list)
  with assms show ?thesis by (simp add: map_update sum_list_update)
qed

lemma worker_at: "run_ok s \<Longrightarrow> i < length (fu_workers s) \<Longrightarrow> worker_ok (fu_workers s ! i)"
  by (simp add: run_ok_def list_all_length)

lemma run_ok_set: "run_ok s \<Longrightarrow> worker_ok w \<Longrightarrow> fu_workers s' = (fu_workers s)[i := w] \<Longrightarrow> run_ok s'"
  unfolding run_ok_def list_all_iff by (metis insert_iff set_update_subset_insert subsetD)

lemma abort_close [simp]: "fw_abort (close_active_uploads f) = fw_abort f"
proof -
  have "fw_abort (fold close_upload_conn cs g) = fw_abort g" for cs g
    by (induction cs arbitrary: g) (simp_all add: close_upload_conn_def)
  then show ?thesis by (simp add: close_active_uploads_def)
qed

lemma abort_abort [simp]: "fw_abort (abort_uploads f)"
  by (simp add: abort_uploads_def)

text \<open>A step that leaves one worker less to do, and nothing else more, leaves less to do.\<close>

lemma less_work:
  assumes "run_ok s" "i < length (fu_workers s)" "worker_ok w" "worker_work w < worker_work (fu_workers s ! i)"
    and "fu_workers s' = (fu_workers s)[i := w]" "fu_jobs s' = fu_jobs s" "fu_sender s' = fu_sender s"
  shows "work_left s' < work_left s \<and> run_ok s'"
  using sum_list_set [OF assms(2), of worker_work w] run_ok_set [OF assms(1,3,5)] assms(4-7)
  by (simp add: work_left_def)

lemma conclude_work:
  assumes "run_ok s" "i < length (fu_workers s)" "n < max_upload_attempts"
    and "2 * (max_upload_attempts - n) \<le> worker_work (fu_workers s ! i)"
  shows "work_left (conclude i j n err s) < work_left s \<and> run_ok (conclude i j n err s)"
proof (cases rule: conclude_cases [of err n i j s])
  case again
  show ?thesis
    by (rule less_work [OF assms(1,2), of "Holding j (Suc n)"]) (use again assms(4) in simp_all)
next
  case sent
  show ?thesis by (rule less_work [OF assms(1,2), of Waiting]) (use sent assms(3,4) in simp_all)
next
  case failed
  show ?thesis by (rule less_work [OF assms(1,2), of Waiting]) (use failed assms(3,4) in simp_all)
qed

lemma step_works:
  assumes "upload_step E s s'" "run_ok s"
  shows "work_left s' < work_left s \<and> run_ok s'"
  using assms(1)
proof (cases rule: upload_step.cases)
  case (up_take i j js)
  then show ?thesis
    using run_ok_set [OF assms(2), of "Holding j 0" s' i] sum_list_set [OF up_take(2), of worker_work "Holding j 0"]
    by (simp add: work_left_def job_work_def max_upload_attempts_def)
next
  case (up_quit i)
  show ?thesis by (rule less_work [OF assms(2) up_quit(2), of WorkerDone]) (use up_quit in simp_all)
next
  case (up_skip i j n)
  show ?thesis
    unfolding up_skip(1) using worker_at [OF assms(2) up_skip(2)] up_skip(3)
    by (intro conclude_work [OF assms(2) up_skip(2)]) simp_all
next
  case (up_fail i j n e)
  show ?thesis
    unfolding up_fail(1) using worker_at [OF assms(2) up_fail(2)] up_fail(3)
    by (intro conclude_work [OF assms(2) up_fail(2)]) simp_all
next
  case (up_request i j n q)
  have n: "n < max_upload_attempts" using worker_at [OF assms(2) up_request(2)] up_request(3) by simp
  show ?thesis
    by (rule less_work [OF assms(2) up_request(2), of "Uploading j n q"]) (use up_request n in simp_all)
next
  case (up_answer i j n q r)
  let ?s = "s\<lparr>fu_log := fu_log s @ [(fst j, q, r)]\<rparr>"
  have ok: "run_ok ?s" "work_left ?s = work_left s" using assms(2) by (simp_all add: run_ok_def work_left_def)
  have n: "n < max_upload_attempts" using worker_at [OF assms(2) up_answer(2)] up_answer(3) by simp
  show ?thesis
    unfolding up_answer(1) using conclude_work [OF ok(1), of i n j "upload_result r"] n up_answer(2,3) ok(2) by simp
next
  case up_cancel
  then show ?thesis using assms(2) by (simp add: work_left_def run_ok_def)
qed

lemma steps_work: "upload_steps E n s s' \<Longrightarrow> run_ok s \<Longrightarrow> n + work_left s' \<le> work_left s \<and> run_ok s'"
proof (induction n arbitrary: s)
  case (Suc n)
  then obtain t where t: "upload_step E s t" "upload_steps E n t s'" by auto
  from step_works [OF t(1) Suc.prems(2)] Suc.IH [OF t(2)] show ?case by simp
qed simp

lemma step_enabled:
  assumes "\<not> workers_done s"
  shows "\<exists>s'. upload_step E s s'"
proof -
  from assms obtain i where i: "i < length (fu_workers s)" "fu_workers s ! i \<noteq> WorkerDone"
    unfolding workers_done_def list_eq_iff_nth_eq by auto
  show ?thesis
  proof (cases "fu_workers s ! i")
    case Waiting
    then show ?thesis using i up_take [OF i(1)] up_quit [OF i(1)] by (cases "fu_jobs s") blast+
  next
    case (Holding j n)
    then show ?thesis
      using up_skip [OF i(1) Holding] up_fail [OF i(1) Holding] up_request [OF i(1) Holding]
      by (cases "prepare_upload E (fst j) (snd j) (fu_sender s)") blast+
  next
    case (Uploading j n q)
    then show ?thesis using up_answer [OF i(1) Uploading] by blast
  qed (use i in simp)
qed

lemma start_run_ok: "run_ok (start_uploads jobs f)"
  by (simp add: run_ok_def start_uploads_def list_all_iff)

lemma start_work:
  "work_left (start_uploads jobs f) \<le> job_work * length jobs + upload_concurrency + 1"
  using min.cobounded2 [of "length (bs_tokens f)" upload_concurrency]
  by (simp add: work_left_def start_uploads_def sum_list_replicate del: min.cobounded2)

subsection \<open>No file is forgotten\<close>

fun busy :: "worker \<Rightarrow> upload_job option" where
  "busy (Holding j n) = Some j"
| "busy (Uploading j n q) = Some j"
| "busy _ = None"

definition is_busy_with :: "upload_job \<Rightarrow> upload_run \<Rightarrow> bool" where
  "is_busy_with j s \<longleftrightarrow> (\<exists>w\<in>set (fu_workers s). busy w = Some j)"

text \<open>The receiver has answered 200 to the upload request of a job.\<close>

definition delivered :: "fwd_env \<Rightarrow> fwd_sender \<Rightarrow> upload_run \<Rightarrow> upload_job \<Rightarrow> bool" where
  "delivered E f s j \<longleftrightarrow>
     (\<exists>q b. prepare_upload E (fst j) (snd j) f = Prepared q \<and> (fst j, q, Inr (200, b)) \<in> set (fu_log s))"

text \<open>What is known of a job while nobody has cancelled.\<close>

definition accounted :: "fwd_env \<Rightarrow> fwd_sender \<Rightarrow> upload_run \<Rightarrow> upload_job \<Rightarrow> bool" where
  "accounted E f s j \<longleftrightarrow>
     j \<in> set (fu_jobs s) \<or> is_busy_with j s \<or> fst j \<in> fst ` set (fu_errs s) \<or> delivered E f s j"

definition asks_for :: "fwd_env \<Rightarrow> fwd_sender \<Rightarrow> worker \<Rightarrow> bool" where
  "asks_for E f w \<longleftrightarrow> (case w of Uploading j n q \<Rightarrow> prepare_upload E (fst j) (snd j) f = Prepared q | _ \<Rightarrow> True)"

definition books_ok :: "fwd_env \<Rightarrow> fwd_sender \<Rightarrow> upload_job list \<Rightarrow> upload_run \<Rightarrow> bool" where
  "books_ok E f jobs s \<longleftrightarrow>
     (WorkerDone \<in> set (fu_workers s) \<longrightarrow> fu_jobs s = []) \<and> (jobs \<noteq> [] \<longrightarrow> fu_workers s \<noteq> []) \<and>
     (fw_abort (fu_sender s) \<or>
        fu_sender s = f \<and> (\<forall>w\<in>set (fu_workers s). asks_for E f w) \<and> (\<forall>j\<in>set jobs. accounted E f s j))"

lemma busy_elsewhere:
  assumes "is_busy_with k s" "i < length (fu_workers s)" "fu_workers s' = (fu_workers s)[i := w]"
  shows "busy (fu_workers s ! i) = Some k \<or> is_busy_with k s'"
proof -
  from assms(1) obtain m where m: "m < length (fu_workers s)" "busy (fu_workers s ! m) = Some k"
    by (auto simp: is_busy_with_def in_set_conv_nth)
  show ?thesis
  proof (cases "m = i")
    case False
    with m assms(3) have "fu_workers s' ! m = fu_workers s ! m" "m < length (fu_workers s')" by simp_all
    with m show ?thesis unfolding is_busy_with_def by (metis nth_mem)
  qed (use m in simp)
qed

lemma now_busy:
  "i < length (fu_workers s) \<Longrightarrow> fu_workers s' = (fu_workers s)[i := w] \<Longrightarrow> busy w = Some k \<Longrightarrow> is_busy_with k s'"
  unfolding is_busy_with_def by (metis set_update_memI)

text \<open>A step of worker \<open>i\<close> keeps the books if it accounts for the job it had.\<close>

lemma books_step:
  assumes "books_ok E f jobs s" "i < length (fu_workers s)" "fu_workers s' = (fu_workers s)[i := w]"
    and "fu_sender s' = fu_sender s" "set (fu_errs s) \<subseteq> set (fu_errs s')" "set (fu_log s) \<subseteq> set (fu_log s')"
    and "\<And>k. busy (fu_workers s ! i) = Some k \<Longrightarrow> fw_abort (fu_sender s) \<or> accounted E f s' k"
    and "\<And>k. k \<in> set (fu_jobs s) \<Longrightarrow> k \<in> set (fu_jobs s') \<or> busy w = Some k"
    and "fw_abort (fu_sender s) \<or> asks_for E f w" "w = WorkerDone \<longrightarrow> fu_jobs s' = []" "fu_jobs s = [] \<longrightarrow> fu_jobs s' = []"
  shows "books_ok E f jobs s'"
proof -
  have d: "WorkerDone \<in> set (fu_workers s') \<longrightarrow> fu_jobs s' = []"
    using assms(1,3,10,11) set_update_subset_insert [of "fu_workers s" i w] by (auto simp: books_ok_def)
  have l: "jobs \<noteq> [] \<longrightarrow> fu_workers s' \<noteq> []" using assms(1,3) by (simp add: books_ok_def)
  show ?thesis
  proof (cases "fw_abort (fu_sender s)")
    case True
    then show ?thesis using d l assms(4) by (simp add: books_ok_def)
  next
    case False
    then have b: "fu_sender s = f" "\<forall>w\<in>set (fu_workers s). asks_for E f w" "\<forall>j\<in>set jobs. accounted E f s j"
      using assms(1) by (auto simp: books_ok_def)
    have "accounted E f s' k" if "accounted E f s k" for k
    proof -
      from that consider "k \<in> set (fu_jobs s)" | "is_busy_with k s" | "fst k \<in> fst ` set (fu_errs s)" | "delivered E f s k"
        unfolding accounted_def by blast
      then show ?thesis
      proof cases
        case 1
        then show ?thesis using assms(8) [OF 1] now_busy [OF assms(2,3), of k] unfolding accounted_def by blast
      next
        case 2
        then show ?thesis using busy_elsewhere [OF 2 assms(2,3)] assms(7) [of k] False by (auto simp: accounted_def)
      next
        case 3
        then show ?thesis using assms(5) by (auto simp: accounted_def)
      next
        case 4
        then show ?thesis using assms(6) by (auto simp: accounted_def delivered_def)
      qed
    qed
    moreover have "\<forall>v\<in>set (fu_workers s'). asks_for E f v"
      using b(2) assms(3,9) False set_update_subset_insert [of "fu_workers s" i w] by auto
    ultimately show ?thesis using b d l assms(4) by (simp add: books_ok_def)
  qed
qed

text \<open>Concluding an attempt keeps the books if an attempt without error is a delivery or follows a cancellation.\<close>

lemma books_conclude:
  assumes "books_ok E f jobs s" "i < length (fu_workers s)" "busy (fu_workers s ! i) = Some j"
    and "err = None \<Longrightarrow> fw_abort (fu_sender s) \<or> delivered E f s j"
  shows "books_ok E f jobs (conclude i j n err s)"
proof (cases rule: conclude_cases [of err n i j s])
  case again
  then show ?thesis
    using now_busy [OF assms(2), of "conclude i j n err s" "Holding j (Suc n)" j] assms(3)
    by (intro books_step [OF assms(1,2), of _ "Holding j (Suc n)"]) (auto simp: asks_for_def accounted_def)
next
  case sent
  then show ?thesis
    using assms(3) assms(4) [OF sent(1)]
    by (intro books_step [OF assms(1,2), of _ Waiting]) (auto simp: asks_for_def accounted_def delivered_def)
next
  case failed
  then show ?thesis
    using assms(3) by (intro books_step [OF assms(1,2), of _ Waiting]) (auto simp: asks_for_def accounted_def)
qed

lemma result_none: "upload_result r = None \<longleftrightarrow> (\<exists>b. r = Inr (200, b))"
  by (auto simp: upload_result_def parse_error_ok split: sum.splits)

lemma books_kept:
  assumes "upload_step E s s'" "books_ok E f jobs s"
  shows "books_ok E f jobs s'"
  using assms(1)
proof (cases rule: upload_step.cases)
  case (up_take i j js)
  show ?thesis
    by (rule books_step [OF assms(2) up_take(2), of _ "Holding j 0"]) (use up_take in \<open>auto simp: asks_for_def\<close>)
next
  case (up_quit i)
  show ?thesis
    by (rule books_step [OF assms(2) up_quit(2), of _ WorkerDone]) (use up_quit in \<open>auto simp: asks_for_def\<close>)
next
  case (up_skip i j n)
  have "fw_abort (fu_sender s)"
    using up_skip(4) by (auto simp: prepare_upload_def Let_def split: if_splits option.splits)
  then show ?thesis unfolding up_skip(1) using up_skip(3) by (intro books_conclude [OF assms(2) up_skip(2)]) simp_all
next
  case (up_fail i j n e)
  show ?thesis unfolding up_fail(1) using up_fail(3) by (intro books_conclude [OF assms(2) up_fail(2)]) simp_all
next
  case (up_request i j n q)
  have "accounted E f s' j"
    using now_busy [OF up_request(2), of s' "Uploading j n q" j] up_request(1) by (simp add: accounted_def)
  moreover have "fw_abort (fu_sender s) \<or> asks_for E f (Uploading j n q)"
    using assms(2) up_request(4) by (auto simp: books_ok_def asks_for_def)
  ultimately show ?thesis
    using up_request by (intro books_step [OF assms(2) up_request(2), of _ "Uploading j n q"]) auto
next
  case (up_answer i j n q r)
  let ?s = "s\<lparr>fu_log := fu_log s @ [(fst j, q, r)]\<rparr>"
  have ok: "books_ok E f jobs ?s"
    using assms(2) by (auto simp: books_ok_def accounted_def is_busy_with_def delivered_def)
  have "fw_abort (fu_sender ?s) \<or> delivered E f ?s j" if "upload_result r = None"
    using that assms(2) nth_mem [OF up_answer(2)] up_answer(3)
    by (fastforce simp: result_none books_ok_def asks_for_def delivered_def)
  then show ?thesis unfolding up_answer(1) using up_answer(2,3) by (intro books_conclude [OF ok]) simp_all
next
  case up_cancel
  then show ?thesis using assms(2) by (simp add: books_ok_def)
qed

lemma books_start:
  assumes "visits jobs (bs_tokens f)"
  shows "books_ok E f jobs (start_uploads jobs f)"
proof -
  have "length jobs = length (bs_tokens f)" using assms unfolding visits_def by (rule mset_eq_length)
  then show ?thesis
    by (auto simp: books_ok_def start_uploads_def accounted_def asks_for_def upload_concurrency_def)
qed

subsection \<open>How often a file is asked for\<close>

definition tries :: "string \<Rightarrow> upload_run \<Rightarrow> (string \<times> fwd_request \<times> (string + int \<times> bytes)) list" where
  "tries k s = filter (\<lambda>e. fst e = k) (fu_log s)"

definition bad_checksum :: "string \<times> fwd_request \<times> (string + int \<times> bytes) \<Rightarrow> bool" where
  "bad_checksum e \<longleftrightarrow> upload_result (snd (snd e)) = Some ErrChecksum"

definition holds :: "string \<Rightarrow> worker \<Rightarrow> nat" where
  "holds k w = (case busy w of Some j \<Rightarrow> if fst j = k then 1 else 0 | None \<Rightarrow> 0)"

fun attempt_of :: "worker \<Rightarrow> nat" where
  "attempt_of (Holding j n) = n"
| "attempt_of (Uploading j n q) = n"
| "attempt_of _ = 0"

definition queued :: "string \<Rightarrow> upload_run \<Rightarrow> nat" where
  "queued k s = count_list (map fst (fu_jobs s)) k"

text \<open>One place for each file, and as many failed attempts as the worker that has it counts.\<close>

definition tries_ok :: "string \<Rightarrow> upload_run \<Rightarrow> bool" where
  "tries_ok k s \<longleftrightarrow>
     queued k s + sum_list (map (holds k) (fu_workers s)) \<le> 1 \<and>
     (0 < queued k s \<longrightarrow> tries k s = []) \<and>
     (\<forall>w\<in>set (fu_workers s). 0 < holds k w \<longrightarrow> length (tries k s) = attempt_of w \<and> list_all bad_checksum (tries k s)) \<and>
     length (tries k s) \<le> max_upload_attempts \<and> list_all bad_checksum (butlast (tries k s))"

lemma tries_step:
  assumes "tries_ok k s" "i < length (fu_workers s)" "fu_workers s' = (fu_workers s)[i := w]"
    and "queued k s' + holds k w \<le> queued k s + holds k (fu_workers s ! i)" "queued k s' \<le> queued k s"
    and "0 < holds k w \<Longrightarrow> length (tries k s') = attempt_of w \<and> list_all bad_checksum (tries k s')"
    and "tries k s' = tries k s \<or> 0 < holds k (fu_workers s ! i) \<and>
         length (tries k s') \<le> max_upload_attempts \<and> list_all bad_checksum (butlast (tries k s'))"
  shows "tries_ok k s'"
proof -
  let ?sum = "\<lambda>s. sum_list (map (holds k) (fu_workers s))"
  note sum = sum_list_set [OF assms(2), of "holds k" w, folded assms(3)]
  have one: "queued k s + ?sum s \<le> 1" using assms(1) by (simp add: tries_ok_def)
  with sum assms(4) have le: "queued k s' + ?sum s' \<le> 1" by simp
  have tried: "length (tries k s') \<le> max_upload_attempts \<and> list_all bad_checksum (butlast (tries k s'))"
    using assms(1,7) by (auto simp: tries_ok_def)
  have other: "tries k s' = tries k s" if "0 < holds k v" "v \<in> set (fu_workers s')" "v \<noteq> w" for v
  proof (rule ccontr)
    assume "tries k s' \<noteq> tries k s"
    then have h: "0 < holds k (fu_workers s ! i)" using assms(7) by blast
    from that(2,3) obtain m where m: "m < length (fu_workers s)" "m \<noteq> i" "fu_workers s ! m = v"
      unfolding assms(3) by (metis in_set_conv_nth length_list_update nth_list_update_eq nth_list_update_neq)
    have "v \<in> set ((fu_workers s)[i := WorkerDone])"
      using m by (metis length_list_update nth_list_update_neq nth_mem)
    then have "holds k v \<le> sum_list (map (holds k) ((fu_workers s)[i := WorkerDone]))"
      by (intro member_le_sum_list) simp_all
    with sum_list_set [OF assms(2), of "holds k" WorkerDone] h that(1) one show False by (simp add: holds_def)
  qed
  have "tries k s' = []" if "0 < queued k s'"
  proof -
    from that assms(5) have "0 < queued k s" by simp
    moreover from this one have "holds k (fu_workers s ! i) = 0"
      using assms(2) member_le_sum_list [of "holds k (fu_workers s ! i)" "map (holds k) (fu_workers s)"] by simp
    ultimately show ?thesis using assms(1,7) by (auto simp: tries_ok_def)
  qed
  moreover have "length (tries k s') = attempt_of v \<and> list_all bad_checksum (tries k s')"
    if "v \<in> set (fu_workers s')" "0 < holds k v" for v
  proof (cases "v = w")
    case False
    then have "v \<in> set (fu_workers s)"
      using that(1) set_update_subset_insert [of "fu_workers s" i w] unfolding assms(3) by blast
    with other [OF that(2,1) False] that(2) assms(1) show ?thesis by (simp add: tries_ok_def)
  qed (use that(2) assms(6) in simp)
  ultimately show ?thesis using le tried by (simp add: tries_ok_def)
qed

lemma tries_conclude:
  assumes "tries_ok k s" "i < length (fu_workers s)" "busy (fu_workers s ! i) = Some j"
    and "fu_workers t = fu_workers s" "fu_jobs t = fu_jobs s"
    and "tries k t = tries k s \<or> fst j = k \<and> length (tries k t) \<le> max_upload_attempts \<and> list_all bad_checksum (butlast (tries k t))"
    and "fst j = k \<Longrightarrow> err = Some ErrChecksum \<Longrightarrow> length (tries k t) = Suc n \<and> list_all bad_checksum (tries k t)"
  shows "tries_ok k (conclude i j n err t)"
proof -
  let ?t = "conclude i j n err t"
  have same: "tries k ?t = tries k t" "queued k ?t = queued k s"
    using assms(5) by (simp_all add: conclude_def tries_def queued_def split: option.split)
  have logged: "tries k ?t = tries k s \<or> 0 < holds k (fu_workers s ! i) \<and>
      length (tries k ?t) \<le> max_upload_attempts \<and> list_all bad_checksum (butlast (tries k ?t))"
    unfolding same using assms(3,6) by (auto simp: holds_def)
  show ?thesis
  proof (cases rule: conclude_cases [of err n i j t])
    case again
    then have "fu_workers ?t = (fu_workers s)[i := Holding j (Suc n)]" using assms(4) by simp
    then show ?thesis
      by (rule tries_step [OF assms(1,2) _ _ _ _ logged])
        (use again(1) assms(3,7) same in \<open>simp_all add: holds_def split: if_splits\<close>)
  next
    case sent
    then have "fu_workers ?t = (fu_workers s)[i := Waiting]" using assms(4) by simp
    then show ?thesis
      by (rule tries_step [OF assms(1,2) _ _ _ _ logged]) (use same in \<open>simp_all add: holds_def\<close>)
  next
    case failed
    then have "fu_workers ?t = (fu_workers s)[i := Waiting]" using assms(4) by simp
    then show ?thesis
      by (rule tries_step [OF assms(1,2) _ _ _ _ logged]) (use same in \<open>simp_all add: holds_def\<close>)
  qed
qed

lemma skip_or_open_error: "prepare_upload E fid tok f = PrepareFailed e \<Longrightarrow> e \<noteq> ErrChecksum"
  by (auto simp: prepare_upload_def Let_def split: if_splits option.splits)

lemma tries_kept:
  assumes "upload_step E s s'" "tries_ok k s \<and> run_ok s"
  shows "tries_ok k s' \<and> run_ok s'"
proof -
  have t: "tries_ok k s" and r: "run_ok s" using assms(2) by simp_all
  have "tries_ok k s'"
    using assms(1)
  proof (cases rule: upload_step.cases)
    case (up_take i j js)
    have "fst j = k \<Longrightarrow> tries k s = []" using t up_take(4) by (auto simp: tries_ok_def queued_def)
    moreover have "tries k s' = tries k s" using up_take(1) by (simp add: tries_def)
    ultimately show ?thesis
      using up_take by (intro tries_step [OF t up_take(2), of _ "Holding j 0"])
        (simp_all add: holds_def queued_def split: if_splits)
  next
    case (up_quit i)
    then show ?thesis
      by (intro tries_step [OF t up_quit(2), of _ WorkerDone]) (simp_all add: holds_def queued_def tries_def)
  next
    case (up_skip i j n)
    then show ?thesis by (auto intro: tries_conclude [OF t up_skip(2)])
  next
    case (up_fail i j n e)
    then show ?thesis using skip_or_open_error [OF up_fail(4)] by (auto intro: tries_conclude [OF t up_fail(2)])
  next
    case (up_request i j n q)
    have "fst j = k \<Longrightarrow> length (tries k s) = n \<and> list_all bad_checksum (tries k s)"
      using t nth_mem [OF up_request(2)] up_request(3) by (fastforce simp: tries_ok_def holds_def)
    moreover have "tries k s' = tries k s" using up_request(1) by (simp add: tries_def)
    ultimately show ?thesis
      using up_request by (intro tries_step [OF t up_request(2), of _ "Uploading j n q"])
        (simp_all add: holds_def queued_def split: if_splits)
  next
    case (up_answer i j n q r)
    let ?t = "s\<lparr>fu_log := fu_log s @ [(fst j, q, r)]\<rparr>"
    have n: "n < max_upload_attempts" using worker_at [OF r up_answer(2)] up_answer(3) by simp
    have own: "fst j = k \<Longrightarrow> length (tries k s) = n \<and> list_all bad_checksum (tries k s)"
      using t nth_mem [OF up_answer(2)] up_answer(3) by (fastforce simp: tries_ok_def holds_def)
    have log: "tries k ?t = tries k s @ (if fst j = k then [(fst j, q, r)] else [])" by (simp add: tries_def)
    show ?thesis
      unfolding up_answer(1)
      by (rule tries_conclude [OF t up_answer(2), of j]) (use up_answer(3) own n log in \<open>auto simp: bad_checksum_def\<close>)
  next
    case up_cancel
    then show ?thesis using t by (simp add: tries_ok_def queued_def tries_def)
  qed
  with step_works [OF assms(1) r] show ?thesis by simp
qed

lemma tries_start:
  assumes "distinct (map fst jobs)"
  shows "tries_ok k (start_uploads jobs f)"
proof -
  have "count_list (map fst jobs) k \<le> 1" using assms unfolding count_mset [symmetric] by (simp add: distinct_count_atmost_1)
  then show ?thesis
    by (simp add: tries_ok_def queued_def tries_def start_uploads_def holds_def sum_list_replicate)
qed

subsection \<open>A run to try the properties on\<close>

definition demo_fwd_env :: fwd_env where
  "demo_fwd_env = \<lparr>fv_open = (\<lambda>p. Some ''hi''), fv_max_int = 2147483647, fv_ip6 = (\<lambda>a. None), fv_decode = (\<lambda>b. None)\<rparr>"

definition demo_local :: local_meta where
  "demo_local = \<lparr>fm_id = ''f'', fm_name = ''a.txt'', fm_size = 2, fm_type = ''text/plain'', fm_checksum = ''ab'',
     fm_preview = [], fm_metadata = None, fm_full_path = ''/home/a.txt'', fm_content = None\<rparr>"

definition demo_fwd :: fwd_sender where
  "demo_fwd = new_forward_sender\<lparr>bs_files := [(''f'', demo_local)], bs_tokens := [(''f'', ''tok'')], bs_session := ''s1'',
     fw_remote := Some ((new_device_info ''kobo'' ''x'')\<lparr>dv_ip := ''10.0.0.1''\<rparr>)\<rparr>"

definition demo_upload_request :: fwd_request where
  "demo_upload_request = \<lparr>fq_path = upload_path, fq_query = [(''token'', ''tok''), (''sessionId'', ''s1''), (''fileId'', ''f'')],
     fq_body = StreamBody ''hi'' 2, fq_scheme = ''http'', fq_host = ''10.0.0.1:53317'', fq_host_header = None\<rparr>"

lemma demo_prepared_upload: "prepare_upload demo_fwd_env ''f'' ''tok'' demo_fwd = Prepared demo_upload_request"
  by code_simp

text \<open>One worker takes the file, asks, is answered and finds the channel closed.\<close>

definition demo_run_end :: "int \<Rightarrow> upload_run" where
  "demo_run_end st = \<lparr>fu_sender = demo_fwd, fu_jobs = [], fu_workers = [WorkerDone], fu_errs = [],
     fu_log = [(''f'', demo_upload_request, Inr (st, []))]\<rparr>"

lemma demo_start: "start_uploads [(''f'', ''tok'')] demo_fwd =
   \<lparr>fu_sender = demo_fwd, fu_jobs = [(''f'', ''tok'')], fu_workers = [Waiting], fu_errs = [], fu_log = []\<rparr>"
  by (simp add: start_uploads_def demo_fwd_def upload_concurrency_def)

lemma demo_uploads: "upload_steps demo_fwd_env 4 (start_uploads [(''f'', ''tok'')] demo_fwd) (demo_run_end 200)"
proof -
  let ?s = "\<lambda>jobs w log. \<lparr>fu_sender = demo_fwd, fu_jobs = jobs, fu_workers = [w], fu_errs = [], fu_log = log\<rparr>"
  let ?j = "(''f'', ''tok'')" and ?log = "[(''f'', demo_upload_request, Inr (200, []))]"
  have 1: "upload_step demo_fwd_env (?s [?j] Waiting []) (?s [] (Holding ?j 0) [])"
    using up_take [of 0 "?s [?j] Waiting []" ?j "[]"] by simp
  have 2: "upload_step demo_fwd_env (?s [] (Holding ?j 0) []) (?s [] (Uploading ?j 0 demo_upload_request) [])"
    using up_request [of 0 "?s [] (Holding ?j 0) []" ?j 0 demo_fwd_env demo_upload_request] demo_prepared_upload by simp
  have 3: "upload_step demo_fwd_env (?s [] (Uploading ?j 0 demo_upload_request) []) (?s [] Waiting ?log)"
    using up_answer [of 0 "?s [] (Uploading ?j 0 demo_upload_request) []" ?j 0 demo_upload_request demo_fwd_env "Inr (200, [])"]
    by (simp add: upload_result_def parse_error_def conclude_def)
  have 4: "upload_step demo_fwd_env (?s [] Waiting ?log) (demo_run_end 200)"
    using up_quit [of 0 "?s [] Waiting ?log"] by (simp add: demo_run_end_def)
  have n: "(4::nat) = Suc (Suc (Suc (Suc 0)))" by simp
  show ?thesis unfolding n upload_steps.simps demo_start using 1 2 3 4 by blast
qed

subsection \<open>Properties\<close>

text \<open>
  C32: The upload workers always come to an end: however they interleave, whatever the receiver answers and
  whenever the user cancels, a run has at most seven steps for each file and three more, and as long as a
  worker has not found the channel closed there is a step to take.
\<close>

theorem uploads_terminate:
  assumes "upload_steps E n (start_uploads jobs f) s"
  shows "n \<le> 7 * length jobs + 3 \<and> (workers_done s \<or> (\<exists>s'. upload_step E s s'))"
  using steps_work [OF assms start_run_ok] start_work [of jobs f] step_enabled [of s E]
  by (auto simp: job_work_def max_upload_attempts_def upload_concurrency_def)

theorem uploads_terminate_witness: "(4::nat) \<le> 7 * length [(''f'', ''tok'')] + 3 \<and>
   (workers_done (demo_run_end 200) \<or> (\<exists>s'. upload_step demo_fwd_env (demo_run_end 200) s'))"
  by (rule uploads_terminate [OF demo_uploads])

text \<open>
  C5: When \<open>Start\<close> reports success and nobody has cancelled, no file was forgotten: for each file the
  receiver gave a token for, the upload request with this token, the session and the file's content was
  sent and answered with 200, in whatever order the two workers took the files.
\<close>

theorem success_means_all_uploaded:
  assumes "upload_steps E n (start_uploads jobs f) s" "visits jobs (bs_tokens f)" "workers_done s"
    and "fwd_finish E T s w = (StartSent, f', w')" "\<not> fw_abort f'"
  shows "\<forall>j\<in>set jobs. \<exists>q b. prepare_upload E (fst j) (snd j) f = Prepared q \<and> (fst j, q, Inr (200, b)) \<in> set (fu_log s)"
proof
  fix j assume j: "j \<in> set jobs"
  have "books_ok E f jobs s"
    using upload_steps_invariant [OF assms(1), of "books_ok E f jobs"] books_start [OF assms(2)] books_kept by blast
  moreover have e: "fu_errs s = []" "\<not> fw_abort (fu_sender s)"
    using assms(4,5) by (auto simp: fwd_finish_def split: list.splits prod.splits)
  moreover have w: "\<forall>w\<in>set (fu_workers s). w = WorkerDone"
    using assms(3) unfolding workers_done_def by (metis in_set_replicate)
  moreover have "jobs \<noteq> []" using j by auto
  ultimately have b: "accounted E f s j" "fu_workers s \<noteq> []" "WorkerDone \<in> set (fu_workers s) \<longrightarrow> fu_jobs s = []"
    using j by (auto simp: books_ok_def)
  from b(2) w have "WorkerDone \<in> set (fu_workers s)" by (metis last_in_set)
  with b have "accounted E f s j" "fu_jobs s = []" by simp_all
  with e w show "\<exists>q b. prepare_upload E (fst j) (snd j) f = Prepared q \<and> (fst j, q, Inr (200, b)) \<in> set (fu_log s)"
    by (auto simp: accounted_def is_busy_with_def delivered_def)
qed

theorem success_means_all_uploaded_witness:
  "\<exists>q b. prepare_upload demo_fwd_env ''f'' ''tok'' demo_fwd = Prepared q \<and> (''f'', q, Inr (200, b)) \<in> set (fu_log (demo_run_end 200))"
proof -
  have "visits [(''f'', ''tok'')] (bs_tokens demo_fwd)" by (simp add: demo_fwd_def visits_refl)
  from success_means_all_uploaded [OF demo_uploads this, of "\<lambda>q w. (Inl [], w)" "()" demo_fwd "()"]
  show ?thesis by (simp add: workers_done_def demo_run_end_def fwd_finish_def demo_fwd_def new_forward_sender_def)
qed

text \<open>
  A cancelled transfer may be reported as sent: if the user cancels before the workers ask for
  their files, every file is skipped without an error, nothing is uploaded and \<open>Start\<close> returns \<^verbatim>\<open>nil\<close>.
\<close>

theorem cancelled_send_reports_success:
  "\<exists>s. upload_steps demo_fwd_env 4 (start_uploads [(''f'', ''tok'')] demo_fwd) s \<and> workers_done s \<and> fu_log s = [] \<and>
     fst (fwd_finish demo_fwd_env T s w) = StartSent"
proof -
  let ?s = "\<lambda>f jobs w. \<lparr>fu_sender = f, fu_jobs = jobs, fu_workers = [w], fu_errs = [], fu_log = []\<rparr>"
  let ?j = "(''f'', ''tok'')" and ?f = "abort_uploads demo_fwd"
  have 1: "upload_step demo_fwd_env (?s demo_fwd [?j] Waiting) (?s ?f [?j] Waiting)"
    using up_cancel [of "?s demo_fwd [?j] Waiting"] by (simp add: demo_fwd_def new_forward_sender_def)
  have 2: "upload_step demo_fwd_env (?s ?f [?j] Waiting) (?s ?f [] (Holding ?j 0))"
    using up_take [of 0 "?s ?f [?j] Waiting" ?j "[]"] by simp
  have 3: "upload_step demo_fwd_env (?s ?f [] (Holding ?j 0)) (?s ?f [] Waiting)"
    using up_skip [of 0 "?s ?f [] (Holding ?j 0)" ?j 0 demo_fwd_env] by (simp add: prepare_upload_def conclude_def)
  have 4: "upload_step demo_fwd_env (?s ?f [] Waiting) (?s ?f [] WorkerDone)"
    using up_quit [of 0 "?s ?f [] Waiting"] by simp
  have n: "(4::nat) = Suc (Suc (Suc (Suc 0)))" by simp
  have "upload_steps demo_fwd_env 4 (start_uploads [?j] demo_fwd) (?s ?f [] WorkerDone)"
    unfolding n upload_steps.simps demo_start using 1 2 3 4 by blast
  then show ?thesis
    by (intro exI [of _ "?s ?f [] WorkerDone"]) (simp add: workers_done_def fwd_finish_def)
qed

text \<open>
  A file is asked for at most three times, and again only when the receiver found its checksum wrong:
  in the answered requests for one file every answer but the last is a checksum failure.
\<close>

theorem uploads_retried_on_checksum:
  assumes "upload_steps E n (start_uploads jobs f) s" "distinct (map fst jobs)"
  shows "length (tries k s) \<le> max_upload_attempts \<and> list_all bad_checksum (butlast (tries k s))"
proof -
  have "tries_ok k s \<and> run_ok s"
    using upload_steps_invariant [OF assms(1), of "\<lambda>s. tries_ok k s \<and> run_ok s"]
      tries_start [OF assms(2)] start_run_ok tries_kept by blast
  then show ?thesis by (simp add: tries_ok_def)
qed

theorem uploads_retried_on_checksum_witness:
  "length (tries ''f'' (demo_run_end 200)) \<le> max_upload_attempts \<and>
   list_all bad_checksum (butlast (tries ''f'' (demo_run_end 200)))"
  by (rule uploads_retried_on_checksum [OF demo_uploads]) simp

end
