(* ===== verification/Fwd_Delivery.thy ===== *)
theory Fwd_Delivery
  imports Fwd_Props Http_Server
begin

text \<open>
  The HTTP sender against the HTTP receiver: \<open>ForwardSender\<close> whose requests are served by the
  handlers of \<open>FileReceiver\<close>. The network may change, cut or stop the body of a request;
  clocks, random values and the JSON codec are fields of \<open>network\<close>.
\<close>

record network =
  nt_env :: io_env
  nt_sha :: "bytes \<Rightarrow> string"
  nt_parse_time :: "string \<Rightarrow> time option"
  nt_lower :: "string \<Rightarrow> string"
  nt_now :: time
  nt_ip :: string
  nt_carry :: "fwd_body \<Rightarrow> upload_body"
  nt_decode :: "bytes \<Rightarrow> pre_upload_req option"
  nt_encode :: "pre_upload_resp \<Rightarrow> bytes"
  nt_sid :: string
  nt_tok :: "nat \<Rightarrow> string"

definition to_http :: "network \<Rightarrow> fwd_request \<Rightarrow> http_request" where
  "to_http N q = \<lparr>rq_ip = nt_ip N, rq_query = fq_query q, rq_content_length = 0,
     rq_body = nt_carry N (fq_body q), rq_peer_fingerprint = None\<rparr>"

definition reply_of :: "network \<Rightarrow> http_reply \<Rightarrow> string + int \<times> bytes" where
  "reply_of N r = (case r of RStatus st \<Rightarrow> Inr (st, []) | RTokens resp \<Rightarrow> Inr (200, nt_encode N resp) | _ \<Rightarrow> Inr (200, []))"

definition serve :: "network \<Rightarrow> (filesys \<times> http_receiver) transport" where
  "serve N q w =
     (case w of
        (fs, fr) \<Rightarrow>
          if fq_path q = upload_path then
            (case upload_handler (nt_env N) (nt_sha N) (nt_parse_time N) (nt_lower N) (nt_now N) (to_http N q) fs fr of
               (r, fs', fr') \<Rightarrow> (reply_of N r, fs', fr'))
          else if fq_path q = preupload_path then
            (case pre_upload_handler (nt_lower N) (nt_decode N) (nt_now N) (nt_now N) (nt_now N) (nt_sid N) (nt_tok N)
                    (to_http N q) fr of
               (r, fr') \<Rightarrow> (reply_of N r, fs, fr'))
          else if fq_path q = cancel_path then
            (case cancel_handler (to_http N q) fr of (r, fr') \<Rightarrow> (reply_of N r, fs, fr'))
          else (Inr (404, []), fs, fr))"

lemma prepared_request:
  assumes "prepare_upload E fid tok f = Prepared q"
  shows "\<exists>body. q = prepare_uri (fv_ip6 E) f upload_path [(''token'', tok), (''sessionId'', bs_session f), (''fileId'', fid)] body"
proof -
  have a: "\<not> fw_abort f" using assms unfolding prepare_upload_def by (rule contrapos_pn) simp
  obtain meta where m: "map_of (bs_files f) fid = Some meta"
    using assms a by (cases "map_of (bs_files f) fid") (simp_all add: prepare_upload_def)
  show ?thesis
  proof (cases "fm_content meta")
    case (Some c)
    then show ?thesis using assms a m by (auto simp only: prepare_upload_def Let_def if_False option.case prepared.inject)
  next
    case None
    then show ?thesis
      using assms a m
      by (cases "fv_open E (fm_full_path meta)"; cases "fv_max_int E < fm_size meta")
        (auto simp only: prepare_upload_def Let_def if_True if_False option.case prepared.inject prepared.distinct)
  qed
qed

lemma prepared_query:
  assumes "prepare_upload E fid tok f = Prepared q"
  shows "fq_path q = upload_path" "query ''token'' (to_http N q) = tok"
    "query ''sessionId'' (to_http N q) = bs_session f" "query ''fileId'' (to_http N q) = fid"
  using prepared_request [OF assms] by (auto simp: prepare_uri_def Let_def to_http_def query_def)

lemma chosen_same:
  assumes "get_save_dir_for_session lower fr s name = (dir, s1)"
  shows "file_tokens s1 = file_tokens s \<and> dir_for lower fr s1 = dir_for lower fr s"
proof -
  have "file_tokens s1 = file_tokens s \<and> file_metas s1 = file_metas s"
    using assms by (auto simp: get_save_dir_for_session_def sess_folder_transfer_def Let_def split: option.splits prod.splits bool.splits)
  with dir_for_cong [OF same_config_refl] show ?thesis by blast
qed

text \<open>An upload the receiver answers with 200 was stored by the session it names.\<close>

lemma upload_answered:
  assumes "upload_handler env sha pt lower now rq fs fr = (reply, fs', fr')" "config_ok fr" "server_ok lower fr"
    and "reply_of N reply = Inr (200, b)"
  shows "\<exists>s meta p t. map_of (hr_sessions fr) (query ''sessionId'' rq) = Some s \<and>
    map_of (file_metas s) (query ''fileId'' rq) = Some meta \<and>
    map_of (file_tokens s) (query ''fileId'' rq) = Some (query ''token'' rq) \<and>
    fs p = None \<and> below (dir_for lower fr s (query ''fileId'' rq)) p \<and>
    fs' p = Some (File (received (body_chunks (rq_body rq))) t) \<and>
    int (length (received (body_chunks (rq_body rq)))) = fm_size meta \<and>
    (fm_checksum meta = [] \<or> hex_equal_fold (sha (received (body_chunks (rq_body rq)))) (fm_checksum meta))"
proof -
  let ?sid = "query ''sessionId'' rq" and ?fid = "query ''fileId'' rq"
  have "\<not> hr_discovery_only fr \<and> ?sid \<noteq> [] \<and> ?fid \<noteq> [] \<and> query ''token'' rq \<noteq> [] \<and>
      (\<exists>s meta. map_of (hr_sessions fr) ?sid = Some s \<and> map_of (file_metas s) ?fid = Some meta)"
    using assms(1,4)
    by (auto simp: upload_handler_def Let_def get_session_def get_file_meta_def reply_of_def split: if_splits option.splits)
  then obtain s meta where s: "\<not> hr_discovery_only fr" "?sid \<noteq> []" "?fid \<noteq> []" "query ''token'' rq \<noteq> []"
    "map_of (hr_sessions fr) ?sid = Some s" "map_of (file_metas s) ?fid = Some meta"
    by blast
  have ok: "session_ok lower fr s" "sess_inv s"
    using assms(3) s(5) unfolding server_ok_def table_ok_def by blast+
  obtain dir s1 where d: "get_save_dir_for_session lower fr s (fm_name meta) = (dir, s1)" by fastforce
  note c = chosen_dir [OF d ok s(6)]
  note same = chosen_same [OF d]
  obtain out fs2 s2 where sf: "save_file env sha pt dir ?fid (query ''token'' rq) (rq_ip rq) (rq_body rq) fs s1 = (out, fs2, s2)"
    by (metis prod_cases3)
  obtain name p where out: "out = Inr (name, p)" "fs' = fs2"
  proof (cases out)
    case (Inl e)
    then show ?thesis
      using assms(1,4) s d sf http_status_ok [of "Some e"]
      by (auto simp: upload_handler_def Let_def get_session_def get_file_meta_def reply_of_def)
  next
    case (Inr x)
    then show ?thesis
      using assms(1) s d sf that by (cases x) (auto simp: upload_handler_def Let_def get_session_def get_file_meta_def)
  qed
  have ne: "dir_for lower fr s1 ?fid \<noteq> []"
    using assms(2) dir_for_in [of lower fr s1 ?fid] unfolding config_ok_def by metis
  have "store_ok (dir_for lower fr s1) s1" using c by (simp add: session_ok_def)
  moreover have "save_file env sha pt (dir_for lower fr s1 ?fid) ?fid (query ''token'' rq) (rq_ip rq) (rq_body rq) fs s1 =
      (Inr (name, p), fs2, s2)"
    using sf c out by simp
  ultimately show ?thesis
    using save_file_stored [where D = "dir_for lower fr s1", OF _ _ ne] s(5,6) c same out(2) by fastforce
qed

text \<open>
  C4: The two HTTP ends fit together. If the sender regards a file as uploaded without having been
  cancelled, the receiver has stored it: in the session the sender was given, under a new path below the
  directory chosen for the file, the bytes that arrived, of the size and the checksum the session was
  opened with, whatever the network did to the body.
\<close>

theorem uploaded_file_is_stored:
  assumes "send_file E (serve N) fid tok f (fs, fr) = (None, fs', fr')" "\<not> fw_abort f"
    and "config_ok fr" "server_ok (nt_lower N) fr"
  shows "\<exists>q s meta p t data. prepare_upload E fid tok f = Prepared q \<and>
    map_of (hr_sessions fr) (bs_session f) = Some s \<and> map_of (file_metas s) fid = Some meta \<and>
    map_of (file_tokens s) fid = Some tok \<and> data = received (body_chunks (nt_carry N (fq_body q))) \<and>
    fs p = None \<and> below (dir_for (nt_lower N) fr s fid) p \<and> fs' p = Some (File data t) \<and>
    int (length data) = fm_size meta \<and>
    (fm_checksum meta = [] \<or> hex_equal_fold (nt_sha N data) (fm_checksum meta))"
proof -
  obtain q where q: "prepare_upload E fid tok f = Prepared q"
    using assms(1,2) by (cases "prepare_upload E fid tok f")
      (auto simp: send_file_def prepare_upload_def Let_def split: if_splits option.splits)
  note k = prepared_query [OF q]
  obtain r where r: "upload_handler (nt_env N) (nt_sha N) (nt_parse_time N) (nt_lower N) (nt_now N) (to_http N q) fs fr = (r, fs', fr')"
    "upload_result (reply_of N r) = None"
    using assms(1) q k by (auto simp: send_file_def serve_def split: prod.splits)
  from r(2) obtain b where b: "reply_of N r = Inr (200, b)"
    by (auto simp: upload_result_def parse_error_ok split: sum.splits)
  have body: "rq_body (to_http N q) = nt_carry N (fq_body q)" by (simp add: to_http_def)
  let ?data = "received (body_chunks (nt_carry N (fq_body q)))"
  from upload_answered [OF r(1) assms(3,4) b] obtain s meta p t where h:
    "map_of (hr_sessions fr) (bs_session f) = Some s \<and> map_of (file_metas s) fid = Some meta \<and>
     map_of (file_tokens s) fid = Some tok \<and> fs p = None \<and> below (dir_for (nt_lower N) fr s fid) p \<and>
     fs' p = Some (File ?data t) \<and> int (length ?data) = fm_size meta \<and>
     (fm_checksum meta = [] \<or> hex_equal_fold (nt_sha N ?data) (fm_checksum meta))"
    unfolding k(2-4) body by (elim exE) (rule that)
  with q show ?thesis
    by (intro exI [of _ q] exI [of _ s] exI [of _ meta] exI [of _ p] exI [of _ t] exI [of _ ?data]) simp
qed

text \<open>The demonstration session of \<open>Http_Server\<close>, uploaded to by the sender.\<close>

definition demo_network :: network where
  "demo_network = \<lparr>nt_env = no_faults, nt_sha = demo_sha, nt_parse_time = (\<lambda>_. None), nt_lower = ascii_lower, nt_now = 0,
     nt_ip = ''10.0.0.2'',
     nt_carry = (\<lambda>b. case b of StreamBody c n \<Rightarrow> demo_body c | RawBody c \<Rightarrow> demo_body c | JsonBody _ \<Rightarrow> demo_body ''{}'' | NoBody \<Rightarrow> demo_body []),
     nt_decode = demo_decoder, nt_encode = (\<lambda>_. []), nt_sid = ''s1'', nt_tok = (\<lambda>i. ''tok'')\<rparr>"

definition demo_sender_run :: "ls_error option \<times> filesys \<times> http_receiver" where
  "demo_sender_run = send_file demo_fwd_env (serve demo_network) ''f'' ''tok'' demo_fwd (demo_fs, snd demo_prepared)"

lemma demo_send_ok: "fst demo_sender_run = None"
  unfolding demo_sender_run_def demo_prepared_eq snd_conv by code_simp

theorem uploaded_file_is_stored_witness:
  "\<exists>p t. fst (snd demo_sender_run) p = Some (File ''hi'' t) \<and> demo_fs p = None"
proof -
  have run: "send_file demo_fwd_env (serve demo_network) ''f'' ''tok'' demo_fwd (demo_fs, snd demo_prepared) =
      (None, fst (snd demo_sender_run), snd (snd demo_sender_run))"
    using demo_send_ok unfolding demo_sender_run_def by (metis prod.collapse)
  have c: "config_ok demo_receiver" "server_ok ascii_lower demo_receiver"
    by (simp_all add: config_ok_def save_dirs_def demo_receiver_def new_file_receiver_def server_ok_def new_sess_manager_def table_ok_def)
  have "pre_upload_handler ascii_lower demo_decoder 0 0 0 ''s1'' (\<lambda>i. ''tok'')
      (demo_request [(''pin'', ''1234'')] ''{}'') demo_receiver = (fst demo_prepared, snd demo_prepared)"
    by (simp add: demo_prepared_def)
  note k = prepare_keeps [OF this demo_decoder_ok _ c(2)]
  have ok: "config_ok (snd demo_prepared)" "server_ok ascii_lower (snd demo_prepared)"
  proof -
    have "map_of (hr_sessions demo_receiver) ''s1'' = None"
      by (simp add: demo_receiver_def new_file_receiver_def new_sess_manager_def)
    from k [OF this] show "server_ok ascii_lower (snd demo_prepared)" by simp
    show "config_ok (snd demo_prepared)"
      using c(1) by (simp add: demo_prepared_eq config_ok_def save_dirs_def)
  qed
  have a: "\<not> fw_abort demo_fwd" by (simp add: demo_fwd_def new_forward_sender_def)
  have l: "nt_lower demo_network = ascii_lower" by (simp add: demo_network_def)
  have b: "received (body_chunks (nt_carry demo_network (fq_body demo_upload_request))) = ''hi''"
    by (simp add: demo_network_def demo_upload_request_def demo_body_def)
  from uploaded_file_is_stored [OF run a ok(1)] ok(2) l demo_prepared_upload b show ?thesis by auto
qed

end
