(* ===== verification/Upload_Conn.thy ===== *)
theory Upload_Conn
  imports Fwd_Sender Idle_Reader
begin

text \<open>
  The upload connections of \<open>ForwardSender\<close> (\<open>trackedUploadConn\<close> of \<open>send/fwdsend.go\<close>): the idle
  deadline each of them keeps for itself, and the race of a cancellation with a dial.
\<close>

subsection \<open>The idle deadline of a connection\<close>

definition upload_deadline_refresh :: duration where
  "upload_deadline_refresh = 10 * second"

text \<open>The two deadlines of the socket (\<open>zero_time\<close>: none), and when the sender moved them last (0: never).\<close>

record upload_conn =
  uc_read_deadline :: time
  uc_write_deadline :: time
  uc_last_read :: int
  uc_last_write :: int
  uc_external_read :: bool
  uc_external_write :: bool

definition new_upload_conn :: upload_conn where
  "new_upload_conn = \<lparr>uc_read_deadline = zero_time, uc_write_deadline = zero_time, uc_last_read = 0, uc_last_write = 0,
     uc_external_read = False, uc_external_write = False\<rparr>"

text \<open>The result tells whether the operation may go on; \<open>sets\<close> whether the socket takes the deadline.\<close>

definition refresh_read_deadline :: "time \<Rightarrow> bool \<Rightarrow> upload_conn \<Rightarrow> bool \<times> upload_conn" where
  "refresh_read_deadline now sets c =
     (if uc_external_read c then (True, c)
      else if uc_last_read c \<noteq> 0 \<and> wrap64 (now - uc_last_read c) < upload_deadline_refresh then (True, c)
      else if \<not> sets then (False, c)
      else (True, c\<lparr>uc_read_deadline := now + upload_idle_timeout, uc_last_read := now\<rparr>))"

definition refresh_write_deadline :: "time \<Rightarrow> bool \<Rightarrow> upload_conn \<Rightarrow> bool \<times> upload_conn" where
  "refresh_write_deadline now sets c =
     (if uc_external_write c then (True, c)
      else if uc_last_write c \<noteq> 0 \<and> wrap64 (now - uc_last_write c) < upload_deadline_refresh then (True, c)
      else if \<not> sets then (False, c)
      else (True, c\<lparr>uc_write_deadline := now + upload_idle_timeout, uc_last_write := now\<rparr>))"

definition set_read_deadline :: "time \<Rightarrow> upload_conn \<Rightarrow> upload_conn" where
  "set_read_deadline d c =
     (let c1 = c\<lparr>uc_external_read := (d \<noteq> zero_time), uc_read_deadline := d\<rparr>
      in if d = zero_time then c1\<lparr>uc_last_read := 0\<rparr> else c1)"

definition set_write_deadline :: "time \<Rightarrow> upload_conn \<Rightarrow> upload_conn" where
  "set_write_deadline d c =
     (let c1 = c\<lparr>uc_external_write := (d \<noteq> zero_time), uc_write_deadline := d\<rparr>
      in if d = zero_time then c1\<lparr>uc_last_write := 0\<rparr> else c1)"

definition set_deadline :: "time \<Rightarrow> upload_conn \<Rightarrow> upload_conn" where
  "set_deadline d c =
     (let c1 = c\<lparr>uc_external_read := (d \<noteq> zero_time), uc_external_write := (d \<noteq> zero_time),
                 uc_read_deadline := d, uc_write_deadline := d\<rparr>
      in if d = zero_time then c1\<lparr>uc_last_read := 0, uc_last_write := 0\<rparr> else c1)"

text \<open>What fasthttp does with a connection: reads and writes at given times, and clearing or setting deadlines.\<close>

datatype conn_op = ConnRead time | ConnWrite time | SetBoth time | SetRead time | SetWrite time

fun do_conn_op :: "conn_op \<Rightarrow> upload_conn \<Rightarrow> upload_conn" where
  "do_conn_op (ConnRead now) c = snd (refresh_read_deadline now True c)"
| "do_conn_op (ConnWrite now) c = snd (refresh_write_deadline now True c)"
| "do_conn_op (SetBoth d) c = set_deadline d c"
| "do_conn_op (SetRead d) c = set_read_deadline d c"
| "do_conn_op (SetWrite d) c = set_write_deadline d c"

fun conn_ops :: "conn_op list \<Rightarrow> upload_conn \<Rightarrow> upload_conn" where
  "conn_ops [] c = c"
| "conn_ops (e # es) c = conn_ops es (do_conn_op e c)"

text \<open>The reads and writes of a run happen after 1970, before 2262 and in order of time.\<close>

fun op_time :: "conn_op \<Rightarrow> time option" where
  "op_time (ConnRead t) = Some t"
| "op_time (ConnWrite t) = Some t"
| "op_time _ = None"

fun in_order :: "time \<Rightarrow> conn_op list \<Rightarrow> bool" where
  "in_order t [] \<longleftrightarrow> True"
| "in_order t (e # es) \<longleftrightarrow>
     (case op_time e of None \<Rightarrow> in_order t es | Some u \<Rightarrow> t \<le> u \<and> u < 2 ^ 63 \<and> in_order u es)"

definition conn_armed :: "time \<Rightarrow> upload_conn \<Rightarrow> bool" where
  "conn_armed t c \<longleftrightarrow>
     uc_last_read c \<in> {0..t} \<and> uc_last_write c \<in> {0..t} \<and>
     (uc_external_read c \<or> uc_last_read c = 0 \<or> uc_read_deadline c = uc_last_read c + upload_idle_timeout) \<and>
     (uc_external_write c \<or> uc_last_write c = 0 \<or> uc_write_deadline c = uc_last_write c + upload_idle_timeout)"

lemma wrap_diff: "0 \<le> a \<Longrightarrow> a \<le> t \<Longrightarrow> t < 2 ^ 63 \<Longrightarrow> wrap64 (t - a) = t - a"
  by (rule wrap64_id) (simp add: int64_range_def)

lemma armed_op:
  assumes "conn_armed t c" "0 < t" "in_order t (e # es)"
  shows "\<exists>u. t \<le> u \<and> conn_armed u (do_conn_op e c) \<and> in_order u es \<and> (op_time e = None \<or> op_time e = Some u)"
proof (cases e)
  case (ConnRead u)
  then have "t \<le> u" "u < 2 ^ 63" "in_order u es" using assms(3) by simp_all
  then show ?thesis
    using assms(1,2) ConnRead by (intro exI [of _ u]) (auto simp: conn_armed_def refresh_read_deadline_def)
next
  case (ConnWrite u)
  then have "t \<le> u" "u < 2 ^ 63" "in_order u es" using assms(3) by simp_all
  then show ?thesis
    using assms(1,2) ConnWrite by (intro exI [of _ u]) (auto simp: conn_armed_def refresh_write_deadline_def)
qed (use assms in \<open>auto simp: conn_armed_def set_deadline_def set_read_deadline_def set_write_deadline_def Let_def\<close>)

lemma armed_ops:
  "conn_armed t c \<Longrightarrow> 0 < t \<Longrightarrow> in_order t (es @ es') \<Longrightarrow>
   \<exists>u. t \<le> u \<and> conn_armed u (conn_ops es c) \<and> in_order u es'"
proof (induction es arbitrary: t c)
  case (Cons e es)
  obtain u where u: "t \<le> u" "conn_armed u (do_conn_op e c)" "in_order u (es @ es')"
    using armed_op [OF Cons.prems(1,2), of e "es @ es'"] Cons.prems(3) by auto
  from Cons.IH [OF u(2) _ u(3)] Cons.prems(2) u(1) obtain v where
    "u \<le> v" "conn_armed v (conn_ops es (do_conn_op e c))" "in_order v es'" by auto
  with u(1) show ?case by (intro exI [of _ v]) simp
qed auto

lemma new_conn_armed: "0 < t \<Longrightarrow> conn_armed t new_upload_conn"
  by (simp add: conn_armed_def new_upload_conn_def)

text \<open>
  An upload connection never hangs for more than two minutes and is never cut within 110 seconds:
  whenever the sender starts to read or to write, whatever reads, writes and deadline changes of
  the HTTP client came before, the deadline it then has lies between 110 and 120 seconds ahead, unless
  the client has set a deadline of its own for this direction.
\<close>

theorem upload_deadline_slides:
  assumes "in_order t0 (es @ [e])" "0 < t0" "op_time e = Some t" "c = conn_ops (es @ [e]) new_upload_conn"
  shows "case e of
      ConnRead u \<Rightarrow> uc_external_read c \<or> uc_read_deadline c - t \<in> {110 * second<..120 * second}
    | _ \<Rightarrow> uc_external_write c \<or> uc_write_deadline c - t \<in> {110 * second<..120 * second}"
proof -
  let ?c = "conn_ops es new_upload_conn"
  obtain u where u: "t0 \<le> u" "conn_armed u ?c" "in_order u [e]"
    using armed_ops [OF new_conn_armed [OF assms(2)] assms(2,1)] by blast
  have t: "u \<le> t" "t < 2 ^ 63" using u(3) assms(3) by auto
  have ops: "conn_ops (as @ bs) d = conn_ops bs (conn_ops as d)" for as bs d
    by (induction as arbitrary: d) simp_all
  have c: "c = do_conn_op e ?c" using assms(4) ops by simp
  show ?thesis
  proof (cases e)
    case (ConnRead v)
    then have v: "v = t" using assms(3) by simp
    have "wrap64 (t - uc_last_read ?c) = t - uc_last_read ?c"
      using u(2) t by (intro wrap_diff) (auto simp: conn_armed_def)
    then show ?thesis
      using u(2) t unfolding c ConnRead v
      by (auto simp: conn_armed_def refresh_read_deadline_def upload_deadline_refresh_def upload_idle_timeout_def second_def)
  next
    case (ConnWrite v)
    then have v: "v = t" using assms(3) by simp
    have "wrap64 (t - uc_last_write ?c) = t - uc_last_write ?c"
      using u(2) t by (intro wrap_diff) (auto simp: conn_armed_def)
    then show ?thesis
      using u(2) t unfolding c ConnWrite v
      by (auto simp: conn_armed_def refresh_write_deadline_def upload_deadline_refresh_def upload_idle_timeout_def second_def)
  qed (use assms(3) in simp_all)
qed

theorem upload_deadline_slides_witness:
  "uc_write_deadline (conn_ops [ConnWrite second, SetBoth zero_time, ConnWrite (5 * second), ConnWrite (14 * second)] new_upload_conn) - 14 * second
     \<in> {110 * second<..120 * second}"
proof -
  have "in_order second ([ConnWrite second, SetBoth zero_time, ConnWrite (5 * second)] @ [ConnWrite (14 * second)])"
    by (simp add: second_def)
  note slides = upload_deadline_slides [OF this _ _ refl, of "14 * second"]
  have "\<not> uc_external_write (conn_ops [ConnWrite second, SetBoth zero_time, ConnWrite (5 * second), ConnWrite (14 * second)] new_upload_conn)"
    by code_simp
  with slides show ?thesis by (simp add: second_def)
qed

subsection \<open>Cancelling against dialling\<close>

text \<open>
  \<open>Cancel\<close> stores the abort flag, copies the set of connections under the lock and closes them one by one;
  meanwhile the workers dial and close. \<open>cr_phase\<close> says how far \<open>Cancel\<close> is.
\<close>

datatype cancel_phase = Running | Aborted | Closing "nat list"

record conn_race =
  cr_sender :: fwd_sender
  cr_phase :: cancel_phase

inductive race_step :: "conn_race \<Rightarrow> conn_race \<Rightarrow> bool" where
  race_dial: "track_upload_dial dialled (cr_sender s) = (c, f) \<Longrightarrow> race_step s (s\<lparr>cr_sender := f\<rparr>)"
| race_close: "race_step s (s\<lparr>cr_sender := close_upload_conn c (cr_sender s)\<rparr>)"
| race_abort:
    "cr_phase s = Running \<Longrightarrow>
     race_step s (s\<lparr>cr_sender := (cr_sender s)\<lparr>fw_abort := True\<rparr>, cr_phase := Aborted\<rparr>)"
| race_copy: "cr_phase s = Aborted \<Longrightarrow> race_step s (s\<lparr>cr_phase := Closing (fw_conns (cr_sender s))\<rparr>)"
| race_sweep:
    "cr_phase s = Closing (c # cs) \<Longrightarrow>
     race_step s (s\<lparr>cr_sender := close_upload_conn c (cr_sender s), cr_phase := Closing cs\<rparr>)"

inductive race_run :: "conn_race \<Rightarrow> conn_race \<Rightarrow> bool" where
  race_refl: "race_run s s"
| race_more: "race_run s s' \<Longrightarrow> race_step s' s'' \<Longrightarrow> race_run s s''"

definition race_ok :: "conn_race \<Rightarrow> bool" where
  "race_ok s \<longleftrightarrow>
     (case cr_phase s of
        Running \<Rightarrow> True
      | Aborted \<Rightarrow> fw_abort (cr_sender s)
      | Closing cs \<Rightarrow> fw_abort (cr_sender s) \<and> set (fw_conns (cr_sender s)) \<subseteq> set cs)"

lemma race_kept: "race_step s s' \<Longrightarrow> race_ok s \<Longrightarrow> race_ok s'"
  by (induction rule: race_step.induct)
    (auto simp: race_ok_def track_upload_dial_def close_upload_conn_def split: cancel_phase.splits option.splits if_splits)

lemma race_run_ok: "race_run s s' \<Longrightarrow> race_ok s \<Longrightarrow> race_ok s'"
  by (induction rule: race_run.induct) (auto intro: race_kept)

text \<open>
  A cancelled sender keeps no upload connection: however dials and closes of the workers interleave
  with \<open>Cancel\<close>, once it has closed the connections it found none is registered, and none is from then on.
\<close>

theorem cancel_closes_all:
  assumes "race_run s s'" "cr_phase s = Running" "cr_phase s' = Closing []" "race_run s' s''"
  shows "fw_conns (cr_sender s') = [] \<and> fw_conns (cr_sender s'') = []"
proof -
  have "race_ok s'" using race_run_ok [OF assms(1)] assms(2) by (simp add: race_ok_def)
  then have closed: "cr_phase s' = Closing [] \<and> fw_abort (cr_sender s') \<and> fw_conns (cr_sender s') = []"
    using assms(3) by (simp add: race_ok_def)
  have "cr_phase s'' = Closing [] \<and> fw_abort (cr_sender s'') \<and> fw_conns (cr_sender s'') = []"
    using assms(4) closed
    by (induction rule: race_run.induct)
      (auto elim!: race_step.cases simp: track_upload_dial_def close_upload_conn_def split: option.splits)
  with closed show ?thesis by simp
qed

theorem cancel_closes_all_witness:
  "fw_conns (cr_sender (\<lparr>cr_sender = new_forward_sender\<lparr>fw_abort := True\<rparr>, cr_phase = Closing []\<rparr>)) = []"
proof -
  let ?s = "\<lambda>f p. \<lparr>cr_sender = f, cr_phase = p\<rparr>" and ?n = new_forward_sender
  have n: "fw_conns ?n = []" "\<not> fw_abort ?n" by (simp_all add: new_forward_sender_def)
  have 1: "race_step (?s ?n Running) (?s (?n\<lparr>fw_conns := [7]\<rparr>) Running)"
    using race_dial [of "Some 7" "?s ?n Running" "Some 7"] n by (simp add: track_upload_dial_def)
  have 2: "race_step (?s (?n\<lparr>fw_conns := [7]\<rparr>) Running) (?s (?n\<lparr>fw_conns := [7], fw_abort := True\<rparr>) Aborted)"
    using race_abort [of "?s (?n\<lparr>fw_conns := [7]\<rparr>) Running"] by simp
  have 3: "race_step (?s (?n\<lparr>fw_conns := [7], fw_abort := True\<rparr>) Aborted) (?s (?n\<lparr>fw_conns := [7], fw_abort := True\<rparr>) (Closing [7]))"
    using race_copy [of "?s (?n\<lparr>fw_conns := [7], fw_abort := True\<rparr>) Aborted"] by simp
  have e: "?n\<lparr>fw_abort := True, fw_conns := []\<rparr> = ?n\<lparr>fw_abort := True\<rparr>" by (simp add: new_forward_sender_def)
  have 4: "race_step (?s (?n\<lparr>fw_conns := [7], fw_abort := True\<rparr>) (Closing [7])) (?s (?n\<lparr>fw_abort := True\<rparr>) (Closing []))"
    using race_sweep [of "?s (?n\<lparr>fw_conns := [7], fw_abort := True\<rparr>) (Closing [7])" 7 "[]"] e
    by (simp add: close_upload_conn_def new_forward_sender_def)
  have "race_run (?s ?n Running) (?s (?n\<lparr>fw_abort := True\<rparr>) (Closing []))"
    using race_more [OF race_more [OF race_more [OF race_more [OF race_refl 1] 2] 3] 4] .
  from cancel_closes_all [OF this _ _ race_refl] show ?thesis by simp
qed

end
