(* ===== verification/Rev_Sender.thy ===== *)
theory Rev_Sender
  imports Local_Files Http_Receiver
begin

text \<open>
  Sending by download: \<open>ReverseSender\<close> of \<open>internal/localsend/send/rvsend.go\<close>, a web server that
  offers the files of the base sender. A client gets a session bound to its address for the PIN and downloads
  with it. Requests are those of \<open>Http_Receiver\<close>; the web framework, the page template, the
  certificate files and the MIME header formatter are parameters.
\<close>

subsection \<open>The server\<close>

record download_entry =
  de_name :: string
  de_url :: string

record rev_sender = base_sender +
  rv_local :: device_info
  rv_downloads :: "download_entry list"
  rv_https :: bool
  rv_limiter :: rate_limiter
  rv_sessions :: "(string, string) gomap"
  rv_by_ip :: "(string, string) gomap"
  rv_stopped :: bool

definition new_reverse_sender :: "device_info \<Rightarrow> rev_sender" where
  "new_reverse_sender unset =
     \<lparr>bs_tokens = [], bs_files = [], bs_session = [], bs_pin = [], bs_alias = [],
      rv_local = unset, rv_downloads = [], rv_https = False,
      rv_limiter = new_rate_limiter max_pin_attempts pin_block_duration,
      rv_sessions = [], rv_by_ip = [], rv_stopped = False\<rparr>"

text \<open>\<open>cert\<close> is the fingerprint of the certificate, absent when it can be neither loaded nor generated.\<close>

definition rev_init :: "string option \<Rightarrow> device_info \<Rightarrow> bool \<Rightarrow> rev_sender \<Rightarrow> bool \<times> rev_sender" where
  "rev_init cert target https r =
     (let r1 = r\<lparr>rv_https := https, rv_limiter := new_rate_limiter max_pin_attempts pin_block_duration,
                 rv_sessions := [], rv_by_ip := [], rv_local := target\<lparr>dv_download := True\<rparr>\<rparr>
      in if https then
           (case cert of
              None \<Rightarrow> (False, r1)
            | Some fp \<Rightarrow> (True, reset_files (r1\<lparr>rv_local := (rv_local r1)\<lparr>dv_fingerprint := fp\<rparr>\<rparr>)))
         else (True, reset_files r1))"

text \<open>A missing key of a Go map of strings reads as the empty string.\<close>

definition str_at :: "string \<Rightarrow> (string, string) gomap \<Rightarrow> string" where
  "str_at k m = (case map_of m k of None \<Rightarrow> [] | Some v \<Rightarrow> v)"

definition rev_create_session :: "string \<Rightarrow> string \<Rightarrow> rev_sender \<Rightarrow> rev_sender" where
  "rev_create_session uuid ip r =
     (let old = str_at ip (rv_by_ip r);
          sessions = (if old = [] then rv_sessions r else AList.delete old (rv_sessions r))
      in r\<lparr>rv_sessions := AList.update uuid ip sessions, rv_by_ip := AList.update ip uuid (rv_by_ip r)\<rparr>)"

definition rev_valid_session :: "string \<Rightarrow> string \<Rightarrow> rev_sender \<Rightarrow> bool" where
  "rev_valid_session sid ip r \<longleftrightarrow> str_at sid (rv_sessions r) = ip"

definition rev_validate_pin :: "time \<Rightarrow> time \<Rightarrow> http_request \<Rightarrow> rev_sender \<Rightarrow> int \<times> rev_sender" where
  "rev_validate_pin t1 t2 rq r =
     (case validate_pin (bs_pin r) t1 t2 (rq_ip rq) (map_of (rq_query rq) ''pin'') (rv_limiter r) of
        (status, rl) \<Rightarrow> (status, r\<lparr>rv_limiter := rl\<rparr>))"

subsection \<open>Handlers\<close>

record pre_download_resp =
  pd_info :: device_info
  pd_session :: string
  pd_files :: file_metas

datatype rev_reply =
    RevStatus int
  | RevListing pre_download_resp
  | RevPage "download_entry list"
  | RevInfo device_info
  | RevContent string string bytes
  | RevFile string string

definition pre_download_resp_of :: "string \<Rightarrow> rev_sender \<Rightarrow> pre_download_resp" where
  "pre_download_resp_of sid r =
     \<lparr>pd_info = rv_local r, pd_session = sid, pd_files = file_metas_of (bs_files r)\<rparr>"

definition predownload_handler ::
    "time \<Rightarrow> time \<Rightarrow> string \<Rightarrow> http_request \<Rightarrow> rev_sender \<Rightarrow> rev_reply \<times> rev_sender" where
  "predownload_handler t1 t2 uuid rq r =
     (let ip = rq_ip rq; sid = query ''sessionId'' rq
      in if sid \<noteq> [] \<and> rev_valid_session sid ip r then (RevListing (pre_download_resp_of sid r), r)
         else
           (case rev_validate_pin t1 t2 rq r of
              (status, r1) \<Rightarrow>
                if status \<noteq> 0 then (RevStatus status, r1)
                else (let r2 = rev_create_session uuid ip r1 in (RevListing (pre_download_resp_of uuid r2), r2))))"

text \<open>\<open>disposition\<close> formats the header, \<open>readable\<close> tells whether \<^verbatim>\<open>SendFile\<close> finds the file.\<close>

definition download_handler ::
    "(string \<Rightarrow> string) \<Rightarrow> (string \<Rightarrow> bool) \<Rightarrow> http_request \<Rightarrow> rev_sender \<Rightarrow> rev_reply" where
  "download_handler disposition readable rq r =
     (let sid = query ''sessionId'' rq; fid = query ''fileId'' rq
      in if sid = [] \<or> fid = [] then RevStatus 400
         else if \<not> rev_valid_session sid (rq_ip rq) r then RevStatus 403
         else
           (case map_of (bs_files r) fid of
              None \<Rightarrow> RevStatus 403
            | Some meta \<Rightarrow>
                (case fm_content meta of
                   Some content \<Rightarrow> RevContent (disposition (fm_name meta)) (fm_type meta) content
                 | None \<Rightarrow>
                     if readable (fm_full_path meta) then RevFile (disposition (fm_name meta)) (fm_full_path meta)
                     else RevStatus 500)))"

text \<open>\<^verbatim>\<open>url.QueryEscape\<close>.\<close>

definition hex_upper :: "nat \<Rightarrow> char" where
  "hex_upper n = (if n < 10 then digit_char n else char_of (n + 55))"

definition url_plain :: "char \<Rightarrow> bool" where
  "url_plain c \<longleftrightarrow>
     (let n = (of_char c :: nat)
      in (97 \<le> n \<and> n \<le> 122) \<or> (65 \<le> n \<and> n \<le> 90) \<or> (48 \<le> n \<and> n \<le> 57) \<or> c \<in> set ''-_.~'')"

fun query_escape :: "string \<Rightarrow> string" where
  "query_escape [] = []"
| "query_escape (c # s) =
     (if url_plain c then [c]
      else if c = CHR '' '' then ''+''
      else [CHR ''%'', hex_upper (of_char c div 16), hex_upper (of_char c mod 16)]) @ query_escape s"

definition download_list_handler ::
    "time \<Rightarrow> time \<Rightarrow> string \<Rightarrow> http_request \<Rightarrow> rev_sender \<Rightarrow> rev_reply \<times> rev_sender" where
  "download_list_handler t1 t2 uuid rq r =
     (case rev_validate_pin t1 t2 rq r of
        (status, r1) \<Rightarrow>
          if status \<noteq> 0 then (RevStatus status, r1)
          else
            (let r2 = rev_create_session uuid (rq_ip rq) r1
             in (RevPage (map (\<lambda>e. e\<lparr>de_url := de_url e @ ''&sessionId='' @ query_escape uuid\<rparr>) (rv_downloads r2)), r2)))"

definition rev_info_handler :: "rev_sender \<Rightarrow> rev_reply" where
  "rev_info_handler r = RevInfo (rv_local r)"

definition download_path :: string where
  "download_path = ''/api/localsend/v2/download''"

text \<open>The part of \<open>Start\<close> before the server listens; \<open>vis\<close> is the order in which the map iteration visits the files.\<close>

definition rev_start :: "(string \<times> local_meta) list \<Rightarrow> rev_sender \<Rightarrow> rev_sender" where
  "rev_start vis r =
     r\<lparr>rv_downloads := rv_downloads r @
         map (\<lambda>(fid, meta). \<lparr>de_name = fm_name meta, de_url = download_path @ ''?fileId='' @ query_escape fid\<rparr>) vis\<rparr>"

definition rev_cancel :: "rev_sender \<Rightarrow> rev_sender" where
  "rev_cancel r = r\<lparr>rv_stopped := True\<rparr>"

subsection \<open>The running server\<close>

text \<open>
  What can happen to it, with the answers given so far, oldest first. A session id is fresh: \<^verbatim>\<open>uuid\<close> does
  not repeat one of the map.
\<close>

type_synonym rev_trace = "(http_request \<times> rev_reply) list"

inductive rev_step :: "rev_sender \<times> rev_trace \<Rightarrow> rev_sender \<times> rev_trace \<Rightarrow> bool" where
  rev_predownload:
    "uuid \<noteq> [] \<Longrightarrow> map_of (rv_sessions r) uuid = None \<Longrightarrow> predownload_handler t1 t2 uuid rq r = (reply, r') \<Longrightarrow>
     rev_step (r, tr) (r', tr @ [(rq, reply)])"
| rev_list:
    "uuid \<noteq> [] \<Longrightarrow> map_of (rv_sessions r) uuid = None \<Longrightarrow> download_list_handler t1 t2 uuid rq r = (reply, r') \<Longrightarrow>
     rev_step (r, tr) (r', tr @ [(rq, reply)])"
| rev_download: "rev_step (r, tr) (r, tr @ [(rq, download_handler disposition readable rq r)])"
| rev_info: "rev_step (r, tr) (r, tr @ [(rq, rev_info_handler r)])"
| rev_sweep: "rev_step (r, tr) (r\<lparr>rv_limiter := snd (cleanup_expired now (rv_limiter r))\<rparr>, tr)"

inductive_cases rev_stepE: "rev_step (r, tr) (r', tr')"

inductive rev_run :: "rev_sender \<times> rev_trace \<Rightarrow> rev_sender \<times> rev_trace \<Rightarrow> bool" where
  rev_refl: "rev_run s s"
| rev_more: "rev_run s s' \<Longrightarrow> rev_step s' s'' \<Longrightarrow> rev_run s s''"

subsection \<open>The session tables\<close>

text \<open>The two tables are inverse to each other, so that a client has one session.\<close>

definition tables_ok :: "rev_sender \<Rightarrow> bool" where
  "tables_ok r \<longleftrightarrow> gm_wf (rv_sessions r) \<and> gm_wf (rv_by_ip r) \<and>
     (\<forall>sid ip. map_of (rv_sessions r) sid = Some ip \<longleftrightarrow> map_of (rv_by_ip r) ip = Some sid) \<and>
     map_of (rv_sessions r) [] = None"

lemma create_session_tables:
  assumes "tables_ok r" "map_of (rv_sessions r) uuid = None" "uuid \<noteq> []"
  shows "tables_ok (rev_create_session uuid ip r)"
proof -
  let ?old = "str_at ip (rv_by_ip r)"
  have wf: "gm_wf (rv_sessions r)" "gm_wf (rv_by_ip r)"
    and inv: "\<And>sid j. map_of (rv_sessions r) sid = Some j \<longleftrightarrow> map_of (rv_by_ip r) j = Some sid"
    and none: "map_of (rv_sessions r) [] = None"
    using assms(1) by (auto simp: tables_ok_def)
  have sessions: "map_of (rv_sessions (rev_create_session uuid ip r)) =
      (map_of (rv_sessions r))(?old := None, uuid := Some ip)"
    using none by (auto simp: rev_create_session_def Let_def update_conv' delete_conv' fun_eq_iff)
  have by_ip: "map_of (rv_by_ip (rev_create_session uuid ip r)) = (map_of (rv_by_ip r))(ip := Some uuid)"
    by (simp add: rev_create_session_def Let_def update_conv')
  have "map_of (rv_sessions (rev_create_session uuid ip r)) sid = Some j \<longleftrightarrow>
      map_of (rv_by_ip (rev_create_session uuid ip r)) j = Some sid" for sid j
    unfolding sessions by_ip using inv [of sid j] inv [of uuid j] inv [of sid ip] none assms(2)
    by (auto simp: str_at_def split: option.splits)
  moreover have "map_of (rv_sessions (rev_create_session uuid ip r)) [] = None"
    unfolding sessions using none assms(3) by simp
  ultimately show ?thesis
    using wf by (simp add: tables_ok_def rev_create_session_def Let_def distinct_update distinct_delete)
qed

lemma limiter_tables [simp]: "tables_ok (r\<lparr>rv_limiter := rl\<rparr>) = tables_ok r"
  by (simp add: tables_ok_def)

subsection \<open>Who has given the PIN\<close>

definition gave_pin :: "string \<Rightarrow> string \<Rightarrow> rev_trace \<Rightarrow> bool" where
  "gave_pin pin ip tr \<longleftrightarrow> (\<exists>(rq, reply)\<in>set tr. rq_ip rq = ip \<and> map_of (rq_query rq) ''pin'' = Some pin)"

fun shows_files :: "rev_reply \<Rightarrow> bool" where
  "shows_files (RevListing resp) \<longleftrightarrow> True"
| "shows_files (RevPage es) \<longleftrightarrow> True"
| "shows_files (RevContent d t c) \<longleftrightarrow> True"
| "shows_files (RevFile d p) \<longleftrightarrow> True"
| "shows_files _ \<longleftrightarrow> False"

text \<open>Every session belongs to an address that gave the PIN, and every answer that shows files went to one.\<close>

definition pin_guards :: "string \<Rightarrow> rev_sender \<times> rev_trace \<Rightarrow> bool" where
  "pin_guards pin s \<longleftrightarrow>
     (case s of
        (r, tr) \<Rightarrow>
          bs_pin r = pin \<and>
          (\<forall>sid ip. map_of (rv_sessions r) sid = Some ip \<longrightarrow> gave_pin pin ip tr) \<and>
          (\<forall>xs rq reply ys. tr = xs @ (rq, reply) # ys \<and> shows_files reply \<and> rq_ip rq \<noteq> [] \<longrightarrow>
             gave_pin pin (rq_ip rq) (xs @ [(rq, reply)])))"

lemma gave_pin_more: "gave_pin pin ip tr \<Longrightarrow> gave_pin pin ip (tr @ tr')"
  by (auto simp: gave_pin_def)

lemma validated:
  assumes "rev_validate_pin t1 t2 rq r = (0, r')" "bs_pin r \<noteq> []"
  shows "map_of (rq_query rq) ''pin'' = Some (bs_pin r)"
proof -
  have "validate_pin (bs_pin r) t1 t2 (rq_ip rq) (map_of (rq_query rq) ''pin'') (rv_limiter r) = (0, rv_limiter r')"
    using assms(1) by (auto simp: rev_validate_pin_def split: prod.splits)
  with assms(2) show ?thesis
    by (auto simp: validate_pin_def split: prod.splits bool.splits option.splits if_splits)
qed

lemma validate_same:
  assumes "rev_validate_pin t1 t2 rq r = (st, r')"
  shows "bs_pin r' = bs_pin r" "rv_sessions r' = rv_sessions r" "rv_by_ip r' = rv_by_ip r" "bs_files r' = bs_files r"
  using assms by (auto simp: rev_validate_pin_def split: prod.splits)

lemma created_sessions:
  "map_of (rv_sessions (rev_create_session uuid ip r)) sid = Some j \<Longrightarrow>
   (sid = uuid \<and> j = ip) \<or> map_of (rv_sessions r) sid = Some j"
  by (auto simp: rev_create_session_def Let_def update_conv' delete_conv' split: if_splits)

lemma create_same [simp]: "bs_pin (rev_create_session uuid ip r) = bs_pin r"
  by (simp add: rev_create_session_def Let_def)

lemma valid_session_owner: "rev_valid_session sid ip r \<Longrightarrow> ip \<noteq> [] \<Longrightarrow> map_of (rv_sessions r) sid = Some ip"
  by (auto simp: rev_valid_session_def str_at_def split: option.splits)

text \<open>A handler's answer shows files to a session's owner, or to a request that carries the PIN and gets the session.\<close>

definition answered :: "string \<Rightarrow> http_request \<Rightarrow> rev_reply \<Rightarrow> rev_sender \<Rightarrow> rev_sender \<Rightarrow> bool" where
  "answered uuid rq reply r r' \<longleftrightarrow> bs_pin r' = bs_pin r \<and>
     (rv_sessions r' = rv_sessions r \<and> rv_by_ip r' = rv_by_ip r \<and>
        (shows_files reply \<and> rq_ip rq \<noteq> [] \<longrightarrow> (\<exists>sid. map_of (rv_sessions r) sid = Some (rq_ip rq)))
      \<or> (bs_pin r \<noteq> [] \<longrightarrow> map_of (rq_query rq) ''pin'' = Some (bs_pin r)) \<and>
        (\<exists>r1. rv_sessions r1 = rv_sessions r \<and> rv_by_ip r1 = rv_by_ip r \<and> r' = rev_create_session uuid (rq_ip rq) r1))"

lemma predownload_answered:
  assumes "predownload_handler t1 t2 uuid rq r = (reply, r')"
  shows "answered uuid rq reply r r'"
proof (cases "query ''sessionId'' rq \<noteq> [] \<and> rev_valid_session (query ''sessionId'' rq) (rq_ip rq) r")
  case True
  then have "r' = r" using assms by (simp add: predownload_handler_def Let_def)
  with True valid_session_owner [of "query ''sessionId'' rq" "rq_ip rq" r] show ?thesis
    unfolding answered_def by blast
next
  case False
  obtain st r1 where v: "rev_validate_pin t1 t2 rq r = (st, r1)" by fastforce
  note same = validate_same [OF v]
  show ?thesis
  proof (cases "st = 0")
    case True
    then have "r' = rev_create_session uuid (rq_ip rq) r1"
      using assms False v by (simp add: predownload_handler_def Let_def)
    then show ?thesis unfolding answered_def using same validated [OF v [unfolded True]] create_same by metis
  next
    case nz: False
    then have "r' = r1" "reply = RevStatus st"
      using assms False v by (simp_all add: predownload_handler_def Let_def)
    then show ?thesis using same by (simp add: answered_def)
  qed
qed

lemma list_answered:
  assumes "download_list_handler t1 t2 uuid rq r = (reply, r')"
  shows "answered uuid rq reply r r'"
proof -
  obtain st r1 where v: "rev_validate_pin t1 t2 rq r = (st, r1)" by fastforce
  note same = validate_same [OF v]
  show ?thesis
  proof (cases "st = 0")
    case True
    then have "r' = rev_create_session uuid (rq_ip rq) r1"
      using assms v by (simp add: download_list_handler_def Let_def)
    then show ?thesis unfolding answered_def using same validated [OF v [unfolded True]] create_same by metis
  next
    case nz: False
    then have "r' = r1" "reply = RevStatus st"
      using assms v by (simp_all add: download_list_handler_def Let_def)
    then show ?thesis using same by (simp add: answered_def)
  qed
qed

lemma download_answered: "answered uuid rq (download_handler disposition readable rq r) r r"
  using valid_session_owner [of "query ''sessionId'' rq" "rq_ip rq" r]
  by (auto simp: answered_def download_handler_def Let_def split: option.splits)

lemma answered_tables:
  assumes "answered uuid rq reply r r'" "tables_ok r" "map_of (rv_sessions r) uuid = None" "uuid \<noteq> []"
  shows "tables_ok r'"
proof -
  have cong: "tables_ok r1 = tables_ok r" if "rv_sessions r1 = rv_sessions r" "rv_by_ip r1 = rv_by_ip r" for r1
    using that by (simp add: tables_ok_def)
  from assms(1) consider "rv_sessions r' = rv_sessions r" "rv_by_ip r' = rv_by_ip r"
    | r1 where "rv_sessions r1 = rv_sessions r" "rv_by_ip r1 = rv_by_ip r" "r' = rev_create_session uuid (rq_ip rq) r1"
    unfolding answered_def by blast
  then show ?thesis
    using cong assms(2-4) create_session_tables by cases (metis, metis)
qed

lemma answered_guards:
  assumes "answered uuid rq reply r r'" "pin_guards pin (r, tr)" "pin \<noteq> []"
  shows "pin_guards pin (r', tr @ [(rq, reply)])"
proof -
  let ?tr = "tr @ [(rq, reply)]"
  have pin: "bs_pin r = pin" "bs_pin r' = pin"
    and old: "\<And>sid ip. map_of (rv_sessions r) sid = Some ip \<Longrightarrow> gave_pin pin ip tr"
    and past: "\<And>xs q a ys. tr = xs @ (q, a) # ys \<Longrightarrow> shows_files a \<Longrightarrow> rq_ip q \<noteq> [] \<Longrightarrow> gave_pin pin (rq_ip q) (xs @ [(q, a)])"
    using assms(1,2) by (auto simp: pin_guards_def answered_def)
  have here: "gave_pin pin (rq_ip rq) ?tr" if "map_of (rq_query rq) ''pin'' = Some pin"
    using that by (auto simp: gave_pin_def)
  have sessions: "gave_pin pin ip ?tr" if "map_of (rv_sessions r') sid = Some ip" for sid ip
    using assms(1) that unfolding answered_def pin(1)
  proof (elim conjE disjE exE)
    fix r1
    assume a: "pin \<noteq> [] \<longrightarrow> map_of (rq_query rq) ''pin'' = Some pin" "rv_sessions r1 = rv_sessions r"
      "r' = rev_create_session uuid (rq_ip rq) r1"
    from created_sessions [of uuid "rq_ip rq" r1 sid ip] that a old here assms(3) show ?thesis
      using gave_pin_more by fastforce
  qed (use old gave_pin_more in fastforce)
  have last: "gave_pin pin (rq_ip rq) ?tr" if "shows_files reply" "rq_ip rq \<noteq> []"
    using assms(1,3) that old here gave_pin_more unfolding answered_def pin(1) by blast
  have "gave_pin pin (rq_ip q) (xs @ [(q, a)])" if "?tr = xs @ (q, a) # ys" "shows_files a" "rq_ip q \<noteq> []" for xs q a ys
  proof (cases ys rule: rev_cases)
    case Nil
    with that last show ?thesis by simp
  next
    case (snoc zs z)
    with that(1) have "tr = xs @ (q, a) # zs" by simp
    from past [OF this that(2,3)] show ?thesis .
  qed
  with sessions pin show ?thesis by (auto simp: pin_guards_def)
qed

lemma rev_step_kept:
  assumes "rev_step s s'" "tables_ok (fst s) \<and> (pin \<noteq> [] \<longrightarrow> pin_guards pin s)"
  shows "tables_ok (fst s') \<and> (pin \<noteq> [] \<longrightarrow> pin_guards pin s')"
  using assms
proof (cases rule: rev_step.cases)
  case (rev_predownload uuid r t1 t2 rq reply r' tr)
  from predownload_answered [OF rev_predownload(5)] assms(2) rev_predownload(1-4) show ?thesis
    using answered_tables answered_guards by auto
next
  case (rev_list uuid r t1 t2 rq reply r' tr)
  from list_answered [OF rev_list(5)] assms(2) rev_list(1-4) show ?thesis
    using answered_tables answered_guards by auto
next
  case (rev_download r tr rq disposition readable)
  from answered_guards [OF download_answered] assms(2) rev_download show ?thesis by simp
next
  case (rev_info r tr rq)
  have "answered [] rq (rev_info_handler r) r r" by (simp add: answered_def rev_info_handler_def)
  from answered_guards [OF this] assms(2) rev_info show ?thesis by simp
next
  case (rev_sweep r tr now)
  then show ?thesis using assms(2) by (simp add: pin_guards_def)
qed

lemma rev_run_kept:
  "rev_run s s' \<Longrightarrow> tables_ok (fst s) \<and> (pin \<noteq> [] \<longrightarrow> pin_guards pin s) \<Longrightarrow> tables_ok (fst s') \<and> (pin \<noteq> [] \<longrightarrow> pin_guards pin s')"
  by (induction rule: rev_run.induct) (use rev_step_kept in blast)+

lemma rev_run_init:
  assumes "rev_init cert target https r = (True, r0)" "rev_run (rev_start vis r0, []) s"
  shows "tables_ok (fst s) \<and> (bs_pin r0 \<noteq> [] \<longrightarrow> pin_guards (bs_pin r0) s)"
proof -
  have "rv_sessions r0 = [] \<and> rv_by_ip r0 = []"
    using assms(1) by (auto simp: rev_init_def Let_def reset_files_def split: if_splits option.splits)
  then have "tables_ok (rev_start vis r0) \<and> pin_guards (bs_pin r0) (rev_start vis r0, [])"
    by (simp add: tables_ok_def pin_guards_def rev_start_def)
  with rev_run_kept [OF assms(2), of "bs_pin r0"] show ?thesis by simp
qed

lemma tables_distinct:
  assumes "tables_ok r"
  shows "distinct (map snd (rv_sessions r))"
proof -
  have wf: "distinct (map fst (rv_sessions r))" and inv: "\<And>sid ip. map_of (rv_sessions r) sid = Some ip \<Longrightarrow> map_of (rv_by_ip r) ip = Some sid"
    using assms by (auto simp: tables_ok_def)
  have "inj_on snd (set (rv_sessions r))"
  proof (rule inj_onI)
    fix p q assume pq: "p \<in> set (rv_sessions r)" "q \<in> set (rv_sessions r)" "snd p = snd q"
    then have "map_of (rv_sessions r) (fst p) = Some (snd p)" "map_of (rv_sessions r) (fst q) = Some (snd p)"
      using wf by (metis map_of_is_SomeI prod.collapse)+
    from inv [OF this(1)] inv [OF this(2)] have "fst p = fst q" by simp
    with pq(3) show "p = q" by (simp add: prod_eq_iff)
  qed
  with wf show ?thesis by (simp add: distinct_map)
qed

subsection \<open>A server to try the properties on\<close>

definition demo_text :: local_meta where
  "demo_text = \<lparr>fm_id = ''f'', fm_name = ''f.txt'', fm_size = 2, fm_type = ''text/plain'', fm_checksum = ''ab'',
     fm_preview = [], fm_metadata = None, fm_full_path = [], fm_content = Some ''hi''\<rparr>"

definition demo_rev_config :: rev_sender where
  "demo_rev_config = set_pin ''42'' (new_reverse_sender (new_device_info [] []))"

definition demo_rev :: rev_sender where
  "demo_rev = snd (rev_init None (new_device_info ''pc'' ''fp'') False demo_rev_config)"

definition demo_rev_request :: "(string, string) gomap \<Rightarrow> http_request" where
  "demo_rev_request q = \<lparr>rq_ip = ''10.0.0.2'', rq_query = q, rq_content_length = 0,
     rq_body = \<lparr>body_chunks = [], body_err = False\<rparr>, rq_peer_fingerprint = None\<rparr>"

definition demo_rev_listed :: "rev_reply \<times> rev_sender" where
  "demo_rev_listed = predownload_handler 0 0 ''s1'' (demo_rev_request [(''pin'', ''42'')]) (rev_start [] demo_rev)"

lemma demo_rev_shows: "shows_files (fst demo_rev_listed)"
  unfolding demo_rev_listed_def by code_simp

lemma demo_rev_init: "rev_init None (new_device_info ''pc'' ''fp'') False demo_rev_config = (True, demo_rev)"
  by (simp add: demo_rev_def rev_init_def Let_def)

lemma demo_rev_pin: "bs_pin demo_rev = ''42''" "rv_sessions (rev_start [] demo_rev) = []"
  by (simp_all add: demo_rev_def demo_rev_config_def rev_init_def Let_def reset_files_def set_pin_def rev_start_def)

lemma demo_rev_run:
  "rev_run (rev_start [] demo_rev, []) (snd demo_rev_listed, [] @ (demo_rev_request [(''pin'', ''42'')], fst demo_rev_listed) # [])"
proof -
  have "rev_step (rev_start [] demo_rev, []) (snd demo_rev_listed, [] @ [(demo_rev_request [(''pin'', ''42'')], fst demo_rev_listed)])"
    by (rule rev_predownload [of "''s1''" _ 0 0]) (simp_all add: demo_rev_pin demo_rev_listed_def)
  from rev_more [OF rev_refl this] show ?thesis .
qed

subsection \<open>Properties\<close>

text \<open>
  C6: With a PIN set, the reverse sender shows its files to nobody who has not given the PIN: every answer with
  a file list, a download page or a file's content goes to an address from which, by then, a request with
  the configured PIN had come.
\<close>

theorem downloads_need_pin:
  assumes "rev_init cert target https r = (True, r0)" "bs_pin r0 \<noteq> []"
    and "rev_run (rev_start vis r0, []) (r', xs @ (rq, reply) # ys)" "shows_files reply" "rq_ip rq \<noteq> []"
  shows "\<exists>(rq', reply')\<in>set (xs @ [(rq, reply)]). rq_ip rq' = rq_ip rq \<and> map_of (rq_query rq') ''pin'' = Some (bs_pin r0)"
  using rev_run_init [OF assms(1,3)] assms(2,4,5) by (auto simp: pin_guards_def gave_pin_def)

theorem downloads_need_pin_witness:
  "\<exists>(rq', reply')\<in>set [(demo_rev_request [(''pin'', ''42'')], fst demo_rev_listed)].
     rq_ip rq' = ''10.0.0.2'' \<and> map_of (rq_query rq') ''pin'' = Some ''42''"
proof -
  have "bs_pin demo_rev \<noteq> []" "rq_ip (demo_rev_request [(''pin'', ''42'')]) = ''10.0.0.2''"
    by (simp_all add: demo_rev_pin demo_rev_request_def)
  with downloads_need_pin [OF demo_rev_init _ demo_rev_run demo_rev_shows] show ?thesis
    by (simp add: demo_rev_pin)
qed

text \<open>
  A client of the reverse sender has one session, the last it was given: the two session tables stay
  inverse to each other, and no two session ids belong to one address.
\<close>

theorem one_download_session:
  assumes "rev_init cert target https r = (True, r0)" "rev_run (rev_start vis r0, []) (r', tr)"
  shows "(\<forall>sid ip. map_of (rv_sessions r') sid = Some ip \<longleftrightarrow> map_of (rv_by_ip r') ip = Some sid) \<and>
    distinct (map snd (rv_sessions r'))"
  using rev_run_init [OF assms] tables_distinct [of r'] by (simp add: tables_ok_def)

theorem one_download_session_witness: "distinct (map snd (rv_sessions (snd demo_rev_listed)))"
  using one_download_session [OF demo_rev_init demo_rev_run] by blast

end
