(* ===== verification/Discovery.thy ===== *)
theory Discovery
  imports Models "HOL-Library.Char_ord" "HOL-Library.List_Lexorder"
begin

text \<open>
  The devices found on the network: the store of \<open>Discoverer\<close> in \<open>internal/localsend/scan.go\<close> and
  \<open>discovery_scan.go\<close>. A device is kept under its fingerprint with every channel (host, protocol, port) it was
  confirmed on. The order of a map iteration is an argument wherever the result might depend on it;
  \<open>v6\<close> tells whether \<^verbatim>\<open>net.ParseIP\<close> takes a string for an IPv6 address.
\<close>

subsection \<open>The store\<close>

definition discovery_ttl :: duration where
  "discovery_ttl = 300 * second"

definition max_discovered_devices :: nat where
  "max_discovered_devices = 512"

definition discovery_port :: int where
  "discovery_port = 53317"

record disc_channel =
  dc_host :: string
  dc_protocol :: string
  dc_port :: int
  dc_seen :: time

record disc_entry =
  ds_anno :: announcement
  ds_channels :: "(string, disc_channel) gomap"
  ds_seen :: time

type_synonym disc_store = "(string, disc_entry) gomap"

definition itoa :: "int \<Rightarrow> string" where
  "itoa n = (if n < 0 then CHR ''-'' # nat_dec (nat (- n)) else nat_dec (nat n))"

definition discovery_channel_key :: "string \<Rightarrow> string \<Rightarrow> int \<Rightarrow> string" where
  "discovery_channel_key host protocol port = host @ ''|'' @ protocol @ ''|'' @ itoa port"

definition valid_device_types :: "string list" where
  "valid_device_types = [''mobile'', ''desktop'', ''web'', ''headless'', ''server'']"

definition normalize_device_type :: "string \<Rightarrow> string" where
  "normalize_device_type t = (if t \<in> set valid_device_types then t else ''desktop'')"

text \<open>The first entry in visiting order that is older than all before it.\<close>

fun oldest_device :: "(string \<times> disc_entry) list \<Rightarrow> (string \<times> time) option \<Rightarrow> (string \<times> time) option" where
  "oldest_device [] best = best"
| "oldest_device ((k, e) # es) best =
     oldest_device es
       (case best of
          None \<Rightarrow> Some (k, ds_seen e)
        | Some (j, t) \<Rightarrow> if j = [] \<or> ds_seen e < t then Some (k, ds_seen e) else Some (j, t))"

definition evict_oldest_device :: "(string \<times> disc_entry) list \<Rightarrow> string \<Rightarrow> disc_store \<Rightarrow> disc_store" where
  "evict_oldest_device vis fingerprint m =
     (if map_of m fingerprint = None \<and> max_discovered_devices \<le> length m
      then AList.delete (case oldest_device vis None of None \<Rightarrow> [] | Some (k, t) \<Rightarrow> k) m
      else m)"

text \<open>Adding a confirmed channel to a device drops the older ones of the same host.\<close>

definition confirm_channel :: "time \<Rightarrow> string \<Rightarrow> announcement \<Rightarrow> disc_entry option \<Rightarrow> disc_entry" where
  "confirm_channel now ip anno old =
     (let channels = (case old of None \<Rightarrow> [] | Some e \<Rightarrow> ds_channels e);
          kept = gm_keep (\<lambda>k c. dc_host c \<noteq> ip) channels;
          c = \<lparr>dc_host = ip, dc_protocol = an_protocol anno, dc_port = an_port anno, dc_seen = now\<rparr>
      in \<lparr>ds_anno = anno,
          ds_channels = AList.update (discovery_channel_key ip (an_protocol anno) (an_port anno)) c kept,
          ds_seen = now\<rparr>)"

definition filled_announcement :: "announcement \<Rightarrow> announcement" where
  "filled_announcement a =
     (let a1 = (if an_port a = 0 then a\<lparr>an_port := discovery_port\<rparr> else a);
          a2 = (if an_protocol a1 = [] then a1\<lparr>an_protocol := ''http''\<rparr> else a1)
      in a2\<lparr>dv_type := normalize_device_type (dv_type a2)\<rparr>)"

definition device_key :: "string \<Rightarrow> announcement \<Rightarrow> string" where
  "device_key ip a = (if dv_fingerprint a = [] then ''host:'' @ ip else dv_fingerprint a)"

text \<open>\<open>PutDiscovered\<close>: \<open>self\<close> is the sender's own announcement, \<open>vis\<close> the order in which a full map is searched.\<close>

definition put_discovered ::
    "announcement option \<Rightarrow> time \<Rightarrow> (string \<times> disc_entry) list \<Rightarrow> string \<Rightarrow> announcement \<Rightarrow> disc_store \<Rightarrow> disc_store" where
  "put_discovered self now vis ip anno m =
     (if (case self of None \<Rightarrow> False
           | Some me \<Rightarrow> dv_fingerprint anno \<noteq> [] \<and> hex_equal_fold (dv_fingerprint anno) (dv_fingerprint me)) then m
      else
        (let a = filled_announcement anno;
             fingerprint = device_key ip a;
             m1 = evict_oldest_device vis fingerprint m
         in AList.update fingerprint (confirm_channel now ip a (map_of m1 fingerprint)) m1))"

definition register_device ::
    "announcement option \<Rightarrow> time \<Rightarrow> (string \<times> disc_entry) list \<Rightarrow> announcement \<Rightarrow> disc_store \<Rightarrow> disc_store" where
  "register_device self now vis anno m =
     (if dv_ip anno \<noteq> [] then put_discovered self now vis (dv_ip anno) anno m else m)"

definition fresh_channels :: "time \<Rightarrow> disc_entry \<Rightarrow> disc_entry" where
  "fresh_channels now e = e\<lparr>ds_channels := gm_keep (\<lambda>k c. \<not> discovery_ttl < time_sub now (dc_seen c)) (ds_channels e)\<rparr>"

definition cleanup_stale_at :: "time \<Rightarrow> disc_store \<Rightarrow> disc_store" where
  "cleanup_stale_at now m =
     gm_keep (\<lambda>k e. ds_channels e \<noteq> [] \<and> \<not> discovery_ttl < time_sub now (ds_seen e)) (map (map_prod id (fresh_channels now)) m)"

subsection \<open>Choosing a channel\<close>

definition host_is_v6 :: "(string \<Rightarrow> bool) \<Rightarrow> string \<Rightarrow> bool" where
  "host_is_v6 v6 host = v6 (hd (split_on (CHR ''%'') host))"

text \<open>Whether a channel replaces the best one so far; strings are compared bytewise.\<close>

definition better_channel :: "(string \<Rightarrow> bool) \<Rightarrow> disc_channel \<Rightarrow> disc_channel \<Rightarrow> bool" where
  "better_channel v6 c best \<longleftrightarrow>
     (if host_is_v6 v6 (dc_host c) \<noteq> host_is_v6 v6 (dc_host best) then host_is_v6 v6 (dc_host c)
      else dc_seen best < dc_seen c \<or> dc_seen c = dc_seen best \<and> dc_host c < dc_host best)"

fun best_channel_loop :: "(string \<Rightarrow> bool) \<Rightarrow> time \<Rightarrow> disc_channel list \<Rightarrow> disc_channel option \<Rightarrow> disc_channel option" where
  "best_channel_loop v6 since [] best = best"
| "best_channel_loop v6 since (c # cs) best =
     (if dc_seen c < since then best_channel_loop v6 since cs best
      else
        (case best of
           None \<Rightarrow> best_channel_loop v6 since cs (Some c)
         | Some b \<Rightarrow> best_channel_loop v6 since cs (Some (if better_channel v6 c b then c else b))))"

definition best_discovery_channel :: "(string \<Rightarrow> bool) \<Rightarrow> (string \<times> disc_channel) list \<Rightarrow> time \<Rightarrow> disc_channel option" where
  "best_discovery_channel v6 vis since = best_channel_loop v6 since (map snd vis) None"

text \<open>\<open>DiscoveredSince\<close>: the devices in visiting order, each with its channels in visiting order.\<close>

fun discovered_since ::
    "(string \<Rightarrow> bool) \<Rightarrow> time \<Rightarrow> (disc_entry \<times> (string \<times> disc_channel) list) list \<Rightarrow> (string, announcement) gomap \<Rightarrow>
     (string, announcement) gomap" where
  "discovered_since v6 since [] result = result"
| "discovered_since v6 since ((e, vis) # es) result =
     discovered_since v6 since es
       (case best_discovery_channel v6 vis since of
          None \<Rightarrow> result
        | Some c \<Rightarrow> AList.update (dc_host c) ((ds_anno e)\<lparr>an_protocol := dc_protocol c, an_port := dc_port c\<rparr>) result)"

subsection \<open>What the store keeps\<close>

text \<open>A device has at least one channel, no two for one host, each under its key, and none newer than itself.\<close>

definition channels_ok :: "disc_entry \<Rightarrow> bool" where
  "channels_ok e \<longleftrightarrow>
     gm_wf (ds_channels e) \<and> ds_channels e \<noteq> [] \<and> distinct (map (dc_host \<circ> snd) (ds_channels e)) \<and>
     (\<forall>(k, c)\<in>set (ds_channels e). k = discovery_channel_key (dc_host c) (dc_protocol c) (dc_port c))"

definition discovery_ok :: "disc_store \<Rightarrow> bool" where
  "discovery_ok m \<longleftrightarrow> gm_wf m \<and> length m \<le> max_discovered_devices \<and> (\<forall>(k, e)\<in>set m. k \<noteq> [] \<and> channels_ok e)"

lemma in_keep: "p \<in> set (gm_keep P m) \<longleftrightarrow> p \<in> set m \<and> P (fst p) (snd p)"
  by (auto simp: gm_keep_def)

lemma distinct_keep: "distinct (map f m) \<Longrightarrow> distinct (map f (gm_keep P m))"
  unfolding gm_keep_def by (rule distinct_map_filter)

lemma update_new: "k \<notin> fst ` set m \<Longrightarrow> AList.update k v m = m @ [(k, v)]"
  by (induction m) auto

lemma in_update: "p \<in> set (AList.update k v m) \<Longrightarrow> p = (k, v) \<or> p \<in> set m"
  by (induction m) (auto split: if_splits)

lemma confirm_ok:
  assumes "old = None \<or> (\<exists>e. old = Some e \<and> channels_ok e)"
  shows "channels_ok (confirm_channel now ip anno old)"
proof -
  let ?key = "discovery_channel_key ip (an_protocol anno) (an_port anno)"
  let ?chs = "case old of None \<Rightarrow> [] | Some e \<Rightarrow> ds_channels e"
  let ?kept = "gm_keep (\<lambda>k c. dc_host c \<noteq> ip) ?chs"
  let ?c = "\<lparr>dc_host = ip, dc_protocol = an_protocol anno, dc_port = an_port anno, dc_seen = now\<rparr>"
  have old: "gm_wf ?chs" "distinct (map (dc_host \<circ> snd) ?chs)"
    "\<forall>(k, c)\<in>set ?chs. k = discovery_channel_key (dc_host c) (dc_protocol c) (dc_port c)"
    using assms by (auto simp: channels_ok_def)
  have other: "dc_host (snd p) \<noteq> ip" if "p \<in> set ?kept" for p using that by (simp add: in_keep)
  have "distinct (map (dc_host \<circ> snd) (AList.update ?key ?c ?kept))"
  proof (cases "?key \<in> fst ` set ?kept")
    case False
    then show ?thesis
      using update_new [OF False] distinct_keep [OF old(2)] other by (auto simp: in_keep)
  next
    case True
    have "distinct (map (dc_host \<circ> snd) (AList.update k v m))"
      if "distinct (map (dc_host \<circ> snd) m)" "\<forall>p\<in>set m. dc_host (snd p) \<noteq> dc_host v"
      for k :: string and v :: disc_channel and m
      using that by (induction m) (auto dest!: in_update)
    from this [OF distinct_keep [OF old(2)], of _ ?c] other show ?thesis by simp
  qed
  moreover have "\<forall>(k, c)\<in>set (AList.update ?key ?c ?kept). k = discovery_channel_key (dc_host c) (dc_protocol c) (dc_port c)"
    using old(3) by (auto dest!: in_update simp: in_keep)
  moreover have "AList.update ?key ?c ?kept \<noteq> []" by (cases ?kept) auto
  ultimately show ?thesis
    using old(1) by (simp add: channels_ok_def confirm_channel_def Let_def distinct_update wf_keep)
qed

lemma oldest_known:
  "oldest_device vis best = Some (k, t) \<Longrightarrow> k \<in> fst ` set vis \<or> best = Some (k, t)"
proof (induction vis arbitrary: best)
  case (Cons p vis)
  obtain j e where p: "p = (j, e)" by fastforce
  from Cons.prems p Cons.IH show ?case by (auto split: option.splits prod.splits if_splits)
qed simp

lemma oldest_some: "vis \<noteq> [] \<or> best \<noteq> None \<Longrightarrow> oldest_device vis best \<noteq> None"
  by (induction vis arbitrary: best) (auto split: option.splits prod.splits if_splits)

lemma evict_room:
  assumes "discovery_ok m" "visits vis m"
  shows "discovery_ok (evict_oldest_device vis fp m) \<and>
    (map_of (evict_oldest_device vis fp m) fp = None \<longrightarrow> length (evict_oldest_device vis fp m) < max_discovered_devices)"
proof (cases "map_of m fp = None \<and> max_discovered_devices \<le> length m")
  case True
  have wf: "gm_wf m" and len: "length m = max_discovered_devices" using assms(1) True by (auto simp: discovery_ok_def)
  then have "vis \<noteq> []" using assms(2) by (auto simp: visits_def max_discovered_devices_def)
  then obtain k t where k: "oldest_device vis None = Some (k, t)" using oldest_some by fastforce
  then have "k \<in> fst ` set m" using oldest_known [OF k] visits_set [OF assms(2)] by simp
  then have "length (AList.delete k m) < max_discovered_devices"
    using wf len by (auto simp: length_alist_delete map_of_eq_None_iff max_discovered_devices_def)
  moreover have "set (AList.delete k m) \<subseteq> set m" by (auto simp: AList.delete_eq)
  ultimately show ?thesis
    using assms(1) True k by (auto simp: evict_oldest_device_def discovery_ok_def distinct_delete)
next
  case False
  then show ?thesis using assms(1) by (auto simp: evict_oldest_device_def discovery_ok_def)
qed

lemma put_ok:
  assumes "discovery_ok m" "visits vis m"
  shows "discovery_ok (put_discovered self now vis ip anno m)"
proof -
  let ?a = "filled_announcement anno"
  let ?fp = "device_key ip ?a"
  let ?m = "evict_oldest_device vis ?fp m"
  note room = evict_room [OF assms, of ?fp]
  have fp: "?fp \<noteq> []" by (simp add: device_key_def)
  have "map_of ?m ?fp = None \<or> (\<exists>e. map_of ?m ?fp = Some e \<and> channels_ok e)"
    using room by (cases "map_of ?m ?fp") (auto simp: discovery_ok_def dest!: map_of_SomeD)
  from confirm_ok [OF this] have "channels_ok (confirm_channel now ip ?a (map_of ?m ?fp))" .
  then have "discovery_ok (AList.update ?fp (confirm_channel now ip ?a (map_of ?m ?fp)) ?m)"
    using room fp by (auto simp: discovery_ok_def distinct_update length_alist_update dest!: in_update)
  with assms(1) show ?thesis by (simp add: put_discovered_def Let_def)
qed

lemma cleanup_ok: "discovery_ok m \<Longrightarrow> discovery_ok (cleanup_stale_at now m)"
proof -
  assume ok: "discovery_ok m"
  have e: "channels_ok (fresh_channels now e)" if "channels_ok e" "ds_channels (fresh_channels now e) \<noteq> []" for e
    using that by (auto simp: channels_ok_def fresh_channels_def wf_keep distinct_keep in_keep)
  have "map fst (map (map_prod id (fresh_channels now)) m) = map fst m" by simp
  then have "gm_wf (cleanup_stale_at now m)"
    unfolding cleanup_stale_at_def using ok by (intro wf_keep) (simp add: discovery_ok_def)
  moreover have "length (cleanup_stale_at now m) \<le> length m"
    unfolding cleanup_stale_at_def using len_keep [of _ "map (map_prod id (fresh_channels now)) m"] by simp
  moreover have "\<forall>(k, e)\<in>set (cleanup_stale_at now m). k \<noteq> [] \<and> channels_ok e"
    using ok e by (fastforce simp: cleanup_stale_at_def in_keep discovery_ok_def)
  ultimately show ?thesis using ok by (auto simp: discovery_ok_def)
qed

subsection \<open>The best channel\<close>

lemma better_trans: "better_channel v6 a b \<Longrightarrow> better_channel v6 b c \<Longrightarrow> better_channel v6 a c"
  unfolding better_channel_def by (auto split: if_splits)

lemma better_asym: "better_channel v6 a b \<Longrightarrow> \<not> better_channel v6 b a"
  unfolding better_channel_def by (auto split: if_splits)

lemma better_total: "dc_host a \<noteq> dc_host b \<Longrightarrow> better_channel v6 a b \<or> better_channel v6 b a"
  unfolding better_channel_def by (auto split: if_splits)

text \<open>The loop finds the one channel that is better than all others it may choose.\<close>

definition is_best :: "(string \<Rightarrow> bool) \<Rightarrow> disc_channel set \<Rightarrow> disc_channel option \<Rightarrow> bool" where
  "is_best v6 C r \<longleftrightarrow>
     (case r of None \<Rightarrow> C = {} | Some c \<Rightarrow> c \<in> C \<and> (\<forall>d\<in>C. d \<noteq> c \<longrightarrow> better_channel v6 c d))"

lemma is_best_unique: "is_best v6 C r \<Longrightarrow> is_best v6 C r' \<Longrightarrow> r = r'"
  unfolding is_best_def using better_asym by (fastforce split: option.splits)

lemma is_best_insert:
  assumes "is_best v6 C (Some b)" "dc_host c \<noteq> dc_host b"
  shows "is_best v6 (insert c C) (Some (if better_channel v6 c b then c else b))"
proof -
  have b: "b \<in> C" "\<And>d. d \<in> C \<Longrightarrow> d \<noteq> b \<Longrightarrow> better_channel v6 b d" using assms(1) by (auto simp: is_best_def)
  show ?thesis
  proof (cases "better_channel v6 c b")
    case True
    then have "better_channel v6 c d" if "d \<in> C" for d using b that better_trans by blast
    with True show ?thesis by (simp add: is_best_def)
  next
    case False
    then have "better_channel v6 b c" using better_total [OF assms(2)] by blast
    with False b show ?thesis by (simp add: is_best_def)
  qed
qed

lemma best_loop:
  assumes "is_best v6 C best" "distinct (map dc_host cs)" "\<forall>c\<in>set cs. \<forall>d\<in>C. dc_host c \<noteq> dc_host d"
  shows "is_best v6 (C \<union> {c \<in> set cs. since \<le> dc_seen c}) (best_channel_loop v6 since cs best)"
  using assms
proof (induction cs arbitrary: C best)
  case (Cons c cs)
  show ?case
  proof (cases "dc_seen c < since")
    case True
    then have "{d \<in> set (c # cs). since \<le> dc_seen d} = {d \<in> set cs. since \<le> dc_seen d}" by auto
    with Cons True show ?thesis by simp
  next
    case False
    let ?best = "case best of None \<Rightarrow> Some c | Some b \<Rightarrow> Some (if better_channel v6 c b then c else b)"
    have "is_best v6 (insert c C) ?best"
    proof (cases best)
      case None
      with Cons.prems(1) show ?thesis by (simp add: is_best_def)
    next
      case (Some b)
      then have "b \<in> C" using Cons.prems(1) by (simp add: is_best_def)
      with Cons.prems Some is_best_insert show ?thesis by auto
    qed
    moreover have "\<forall>d\<in>set cs. \<forall>d'\<in>insert c C. dc_host d \<noteq> dc_host d'"
      using Cons.prems(2,3) by (auto simp: image_iff)
    ultimately have "is_best v6 (insert c C \<union> {d \<in> set cs. since \<le> dc_seen d}) (best_channel_loop v6 since cs ?best)"
      by (intro Cons.IH) (use Cons.prems(2) in simp_all)
    moreover have "insert c C \<union> {d \<in> set cs. since \<le> dc_seen d} = C \<union> {d \<in> set (c # cs). since \<le> dc_seen d}"
      using False by auto
    moreover have "best_channel_loop v6 since (c # cs) best = best_channel_loop v6 since cs ?best"
      using False by (simp split: option.split)
    ultimately show ?thesis by simp
  qed
qed simp

lemma best_channel_is_best:
  assumes "distinct (map (dc_host \<circ> snd) chs)" "visits vis chs"
  shows "is_best v6 {c \<in> snd ` set chs. since \<le> dc_seen c} (best_discovery_channel v6 vis since)"
proof -
  have "mset (map (dc_host \<circ> snd) vis) = mset (map (dc_host \<circ> snd) chs)" using assms(2) by (simp add: visits_def)
  with assms(1) have "distinct (map dc_host (map snd vis))" using mset_eq_imp_distinct_iff by (metis map_map)
  from best_loop [OF _ this, of v6 "{}" None since] visits_set [OF assms(2)] show ?thesis
    by (simp add: is_best_def best_discovery_channel_def)
qed

subsection \<open>Runs of the store\<close>

inductive disc_run :: "announcement option \<Rightarrow> disc_store \<Rightarrow> bool" for self where
  disc_empty: "disc_run self []"
| disc_put: "disc_run self m \<Longrightarrow> visits vis m \<Longrightarrow> disc_run self (put_discovered self now vis ip anno m)"
| disc_register: "disc_run self m \<Longrightarrow> visits vis m \<Longrightarrow> disc_run self (register_device self now vis anno m)"
| disc_cleanup: "disc_run self m \<Longrightarrow> disc_run self (cleanup_stale_at now m)"

lemma disc_run_ok: "disc_run self m \<Longrightarrow> discovery_ok m"
proof (induction rule: disc_run.induct)
  case disc_empty
  then show ?case by (simp add: discovery_ok_def)
next
  case (disc_register m vis now anno)
  then show ?case using put_ok by (simp add: register_device_def)
qed (auto intro: put_ok cleanup_ok)

text \<open>One device with three channels, found over IPv4 twice and over IPv6.\<close>

definition demo_announcement :: "int \<Rightarrow> announcement" where
  "demo_announcement port = device_info.extend (new_device_info ''phone'' ''AB'') \<lparr>an_protocol = ''https'', an_port = port, an_announce = True\<rparr>"

definition demo_confirm :: "time \<Rightarrow> string \<Rightarrow> int \<Rightarrow> disc_store \<Rightarrow> disc_store" where
  "demo_confirm now ip port m = put_discovered None now m ip (demo_announcement port) m"

definition demo_discovered :: disc_store where
  "demo_discovered = demo_confirm 30 ''10.0.0.9'' 1 (demo_confirm 20 ''fe80::1%eth0'' 1 (demo_confirm 10 ''10.0.0.9'' 2 []))"

lemma demo_disc_run: "disc_run None demo_discovered"
  unfolding demo_discovered_def demo_confirm_def by (intro disc_put visits_refl disc_empty)

definition demo_entry :: disc_entry where
  "demo_entry = the (map_of demo_discovered ''AB'')"

lemma demo_entry: "map_of demo_discovered ''AB'' = Some demo_entry"
proof -
  have "map_of demo_discovered ''AB'' \<noteq> None" by code_simp
  then show ?thesis by (auto simp: demo_entry_def)
qed

end
