(* ===== verification/Discovery_Net.thy ===== *)
theory Discovery_Net
  imports Discovery
begin

text \<open>
  How devices are found: the answers to announcements, the probing of a subnet, the listener's error handling and
  the IP cache of \<open>internal/localsend/scan.go\<close>, and \<open>Discoverer.Scan\<close> of \<open>discovery_scan.go\<close>. Sockets,
  the HTTP clients with their TLS handshakes and the JSON codec are parameters.
\<close>

subsection \<open>Subnet targets\<close>

datatype ip_addr = Ip4 "8 word" "8 word" "8 word" "8 word" | Ip6 string

type_synonym subnet = "8 word \<times> 8 word \<times> 8 word"

definition dotted :: "subnet \<Rightarrow> 8 word \<Rightarrow> string" where
  "dotted p d = (case p of (a, b, c) \<Rightarrow> join_with (CHR ''.'') (map (nat_dec \<circ> unat) [a, b, c, d]))"

fun subnets_of :: "ip_addr list \<Rightarrow> subnet list \<Rightarrow> subnet list" where
  "subnets_of [] subnets = subnets"
| "subnets_of (Ip6 s # ips) subnets = subnets_of ips subnets"
| "subnets_of (Ip4 a b c d # ips) subnets =
     subnets_of ips (if (a, b, c) \<in> set subnets then subnets else subnets @ [(a, b, c)])"

fun local_addresses :: "ip_addr list \<Rightarrow> string list" where
  "local_addresses [] = []"
| "local_addresses (Ip6 s # ips) = local_addresses ips"
| "local_addresses (Ip4 a b c d # ips) = dotted (a, b, c) d # local_addresses ips"

definition build_subnet_targets :: "ip_addr list \<Rightarrow> string list" where
  "build_subnet_targets ips =
     (let subnets = subnets_of ips []; locals = local_addresses ips
      in concat (map (\<lambda>host. filter (\<lambda>t. t \<notin> set locals) (map (\<lambda>p. dotted p (of_nat host)) subnets)) [1..<255]))"

text \<open>The jobs of \<open>scanSubnet\<close>: every target over both schemes, up to the cancellation after \<open>n\<close> of them.\<close>

definition scan_jobs :: "nat \<Rightarrow> ip_addr list \<Rightarrow> (string \<times> string) list" where
  "scan_jobs n ips = take n (concat (map (\<lambda>t. [(t, ''https''), (t, ''http'')]) (build_subnet_targets ips)))"

lemma dotted_inj: "dotted p d = dotted q e \<Longrightarrow> p = q \<and> d = e"
proof -
  assume eq: "dotted p d = dotted q e"
  have no: "CHR ''.'' \<notin> set (nat_dec n)" for n using nat_dec_digits [of "CHR ''.''" n] by auto
  obtain a b c where p: "p = (a, b, c)" by (metis prod_cases3)
  obtain a' b' c' where q: "q = (a', b', c')" by (metis prod_cases3)
  have "split_on (CHR ''.'') (join_with (CHR ''.'') (map (nat_dec \<circ> unat) [a, b, c, d])) = map (nat_dec \<circ> unat) [a, b, c, d]" for a b c d :: "8 word"
    by (rule split_join) (use no in auto)
  with eq have "map (nat_dec \<circ> unat) [a, b, c, d] = map (nat_dec \<circ> unat) [a', b', c', e]"
    unfolding dotted_def p q prod.case by metis
  then show ?thesis using p q by (simp add: word_unat_eq_iff)
qed

lemma subnets_distinct: "distinct acc \<Longrightarrow> distinct (subnets_of ips acc)"
  by (induction ips acc rule: subnets_of.induct) auto

lemma subnets_set: "set (subnets_of ips acc) = set acc \<union> {(a, b, c) | a b c d. Ip4 a b c d \<in> set ips}"
  by (induction ips acc rule: subnets_of.induct) auto

lemma locals_set: "set (local_addresses ips) = {dotted (a, b, c) d | a b c d. Ip4 a b c d \<in> set ips}"
  by (induction ips rule: local_addresses.induct) auto

lemma host_inj:
  assumes "i < 255" "j < 255" "(of_nat i :: 8 word) = of_nat j"
  shows "i = j"
proof -
  have "unat (of_nat n :: 8 word) = n" if "n < 255" for n using that by (simp add: unat_of_nat)
  with assms show ?thesis by metis
qed

text \<open>The nested loop as one list: hosts before networks, so that no network is probed to its end first.\<close>

lemma targets_product:
  "build_subnet_targets ips =
     filter (\<lambda>t. t \<notin> set (local_addresses ips))
       (map (\<lambda>(host, p). dotted p (of_nat host)) (List.product [1..<255] (subnets_of ips [])))"
proof -
  have "concat (map (\<lambda>h. filter P (map (\<lambda>p. f p h) ss)) hs) = filter P (map (\<lambda>(h, p). f p h) (List.product hs ss))"
    for P :: "string \<Rightarrow> bool" and f :: "subnet \<Rightarrow> nat \<Rightarrow> string" and ss hs
    by (induction hs) (simp_all add: comp_def)
  then show ?thesis unfolding build_subnet_targets_def Let_def .
qed

subsection \<open>Answering announcements\<close>

datatype discovery_reply = NoReply | HttpReply int bytes

text \<open>
  \<open>sendHTTPResponse\<close>: \<open>T\<close> is the HTTP client; for HTTPS it is given the fingerprint the peer's certificate must have.
  The result is the confirmed announcement, if any.
\<close>

definition response_scheme :: "announcement \<Rightarrow> string" where
  "response_scheme anno = (if an_protocol anno = [] then ''http'' else an_protocol anno)"

definition response_port :: "announcement \<Rightarrow> int" where
  "response_port anno = (if an_port anno = 0 then discovery_port else an_port anno)"

definition send_http_response ::
    "(string \<Rightarrow> string \<Rightarrow> int \<Rightarrow> string option \<Rightarrow> discovery_reply) \<Rightarrow> (bytes \<Rightarrow> announcement option) \<Rightarrow> string \<Rightarrow>
     announcement \<Rightarrow> announcement option" where
  "send_http_response T decode host anno =
     (let scheme = response_scheme anno; port = response_port anno
      in case T scheme host port (if scheme = ''https'' then Some (dv_fingerprint anno) else None) of
           NoReply \<Rightarrow> None
         | HttpReply status body \<Rightarrow>
             if status \<noteq> 200 then None
             else
               (case decode body of
                  None \<Rightarrow> None
                | Some confirmed \<Rightarrow>
                    if dv_alias confirmed = [] \<or> dv_version confirmed = [] then None
                    else if scheme = ''https'' then
                      Some (confirmed\<lparr>dv_fingerprint := dv_fingerprint anno, an_protocol := scheme, an_port := port\<rparr>)
                    else if dv_fingerprint confirmed = [] then None
                    else Some (confirmed\<lparr>an_protocol := scheme, an_port := port\<rparr>)))"

text \<open>\<open>readAndRegisterFrom\<close>: the announcement to answer, if the datagram holds one of another device.\<close>

definition read_announcement :: "(bytes \<Rightarrow> announcement option) \<Rightarrow> announcement \<Rightarrow> bytes \<Rightarrow> announcement option" where
  "read_announcement decode self datagram =
     (case decode datagram of
        None \<Rightarrow> None
      | Some anno \<Rightarrow>
          if dv_fingerprint anno = dv_fingerprint self then None
          else if an_announce anno then Some anno else None)"

text \<open>
  \<open>tryScanIP\<close>: the device an address answers with; \<open>peer\<close> is the fingerprint of the certificate it
  presented, absent when it presented none.
\<close>

definition try_scan_ip ::
    "announcement \<Rightarrow> (bytes \<Rightarrow> device_info option) \<Rightarrow> string \<Rightarrow> string \<Rightarrow> discovery_reply \<Rightarrow> string option \<Rightarrow> announcement option" where
  "try_scan_ip self decode ip scheme reply peer =
     (let port = (if an_port self = 0 then discovery_port else an_port self)
      in case reply of
           NoReply \<Rightarrow> None
         | HttpReply status body \<Rightarrow>
             if status \<noteq> 200 then None
             else
               (case decode body of
                  None \<Rightarrow> None
                | Some d \<Rightarrow>
                    (case (if scheme = ''https'' then map_option (\<lambda>f. d\<lparr>dv_fingerprint := f\<rparr>) peer else Some d) of
                       None \<Rightarrow> None
                     | Some d1 \<Rightarrow>
                         Some (device_info.extend (d1\<lparr>dv_ip := ip\<rparr>) \<lparr>an_protocol = scheme, an_port = port, an_announce = False\<rparr>))))"

subsection \<open>Responses in flight\<close>

definition max_announcement_responses :: nat where
  "max_announcement_responses = 8"

definition response_key :: "string \<Rightarrow> announcement \<Rightarrow> string" where
  "response_key host anno =
     dv_fingerprint anno @ ''|'' @ host @ ''|'' @ an_protocol anno @ ''|'' @ itoa (an_port anno)"

text \<open>
  The state of \<open>respondToAnnouncement\<close> over all its callers (one listener for each address family): the claimed keys,
  the slots of the semaphore in use, and which responses are about to take a slot, have one, or have given it back.
\<close>

record flights =
  fl_keys :: "string list"
  fl_slots :: nat
  fl_claimed :: "string list"
  fl_running :: "string list"
  fl_released :: "string list"

definition no_flights :: flights where
  "no_flights = \<lparr>fl_keys = [], fl_slots = 0, fl_claimed = [], fl_running = [], fl_released = []\<rparr>"

inductive flight_step :: "flights \<Rightarrow> flights \<Rightarrow> bool" where
  fl_coalesce: "key \<in> set (fl_keys s) \<Longrightarrow> flight_step s s"
| fl_claim:
    "key \<notin> set (fl_keys s) \<Longrightarrow>
     flight_step s (s\<lparr>fl_keys := key # fl_keys s, fl_claimed := key # fl_claimed s\<rparr>)"
| fl_start:
    "key \<in> set (fl_claimed s) \<Longrightarrow> fl_slots s < max_announcement_responses \<Longrightarrow>
     flight_step s (s\<lparr>fl_slots := Suc (fl_slots s), fl_claimed := remove1 key (fl_claimed s), fl_running := key # fl_running s\<rparr>)"
| fl_drop:
    "key \<in> set (fl_claimed s) \<Longrightarrow> max_announcement_responses \<le> fl_slots s \<Longrightarrow>
     flight_step s (s\<lparr>fl_keys := remove1 key (fl_keys s), fl_claimed := remove1 key (fl_claimed s)\<rparr>)"
| fl_release:
    "key \<in> set (fl_running s) \<Longrightarrow>
     flight_step s (s\<lparr>fl_slots := fl_slots s - 1, fl_running := remove1 key (fl_running s), fl_released := key # fl_released s\<rparr>)"
| fl_forget:
    "key \<in> set (fl_released s) \<Longrightarrow>
     flight_step s (s\<lparr>fl_keys := remove1 key (fl_keys s), fl_released := remove1 key (fl_released s)\<rparr>)"

inductive flights_reached :: "flights \<Rightarrow> bool" where
  fl_none: "flights_reached no_flights"
| fl_more: "flights_reached s \<Longrightarrow> flight_step s s' \<Longrightarrow> flights_reached s'"

definition flights_ok :: "flights \<Rightarrow> bool" where
  "flights_ok s \<longleftrightarrow>
     distinct (fl_keys s) \<and> mset (fl_keys s) = mset (fl_claimed s) + mset (fl_running s) + mset (fl_released s) \<and>
     fl_slots s = length (fl_running s) \<and> fl_slots s \<le> max_announcement_responses"

lemma flights_kept:
  assumes "flight_step s s'" "flights_ok s"
  shows "flights_ok s'"
proof -
  have split: "\<exists>M. mset xs = add_mset k M" if "k \<in> set xs" for k and xs :: "string list"
    using that multi_member_split [of k "mset xs"] by simp
  have known: "k \<in> set (fl_keys s)" if "k \<in> set (fl_claimed s) \<or> k \<in> set (fl_released s)" for k
    using that assms(2) by (metis flights_ok_def set_mset_mset union_iff)
  show ?thesis
    using assms(1)
  proof (cases rule: flight_step.cases)
    case (fl_start key)
    obtain M where "mset (fl_claimed s) = add_mset key M" using split [OF fl_start(2)] by blast
    then show ?thesis using assms(2) fl_start by (simp add: flights_ok_def)
  next
    case (fl_drop key)
    obtain M where "mset (fl_claimed s) = add_mset key M" using split [OF fl_drop(2)] by blast
    then show ?thesis using assms(2) fl_drop by (simp add: flights_ok_def distinct_remove1)
  next
    case (fl_release key)
    obtain M where "mset (fl_running s) = add_mset key M" using split [OF fl_release(2)] by blast
    then show ?thesis using assms(2) fl_release by (auto simp: flights_ok_def length_remove1)
  next
    case (fl_forget key)
    obtain M where "mset (fl_released s) = add_mset key M" using split [OF fl_forget(2)] by blast
    then show ?thesis using assms(2) fl_forget by (simp add: flights_ok_def distinct_remove1)
  qed (use assms(2) in \<open>auto simp: flights_ok_def\<close>)
qed

lemma flights_reached_ok: "flights_reached s \<Longrightarrow> flights_ok s"
proof (induction rule: flights_reached.induct)
  case fl_none
  then show ?case by (simp add: flights_ok_def no_flights_def)
qed (rule flights_kept)

subsection \<open>The listener\<close>

definition backoff_min :: duration where
  "backoff_min = 25000000"

definition backoff_max :: duration where
  "backoff_max = 500000000"

definition max_receive_errors :: nat where
  "max_receive_errors = 10"

text \<open>
  What reading a datagram gives; with a failure, whether the discoverer was stopped before the pause and during it.
\<close>

datatype recv_result = RecvOk | RecvClosed | RecvFailed bool bool

datatype listen_end = Listening nat duration | ListenStopped | ListenFailed nat

text \<open>\<open>listenOn\<close>: the pauses it makes and how it ends.\<close>

fun listen_on :: "nat \<Rightarrow> duration \<Rightarrow> recv_result list \<Rightarrow> duration list \<times> listen_end" where
  "listen_on errs backoff [] = ([], Listening errs backoff)"
| "listen_on errs backoff (RecvOk # rs) = listen_on 0 backoff_min rs"
| "listen_on errs backoff (RecvClosed # rs) = ([], ListenStopped)"
| "listen_on errs backoff (RecvFailed before during # rs) =
     (if before then ([], ListenStopped)
      else if max_receive_errors \<le> Suc errs then ([], ListenFailed (Suc errs))
      else if during then ([backoff], ListenStopped)
      else (case listen_on (Suc errs) (min (2 * backoff) backoff_max) rs of (ps, r) \<Rightarrow> (backoff # ps, r)))"

text \<open>The delays of \<open>announcementTask\<close> between its announcements.\<close>

definition announcement_delay :: "nat \<Rightarrow> duration" where
  "announcement_delay n =
     (let delays = [100000000, 500000000, 2 * second] in if n < length delays then delays ! n else 3 * second)"

text \<open>An announcement over some interfaces: it is sent if one of them takes it, else the last error counts.\<close>

fun send_on_interfaces :: "string option list \<Rightarrow> bool \<Rightarrow> string option \<Rightarrow> string option" where
  "send_on_interfaces [] sent err = (if sent then None else err)"
| "send_on_interfaces (None # rs) sent err = send_on_interfaces rs True err"
| "send_on_interfaces (Some e # rs) sent err = send_on_interfaces rs sent (Some e)"

definition advertise_v4 :: "string option \<Rightarrow> string option list \<Rightarrow> string option" where
  "advertise_v4 direct rs = (if rs = [] then direct else send_on_interfaces rs False None)"

definition advertise_v6 :: "string option list \<Rightarrow> string option" where
  "advertise_v6 rs =
     (if rs = [] then Some ''localsend: no IPv6 multicast interface available'' else send_on_interfaces rs False None)"

definition advertise :: "string option \<Rightarrow> string option option \<Rightarrow> string option" where
  "advertise e4 e6 =
     (case e6 of
        None \<Rightarrow> e4
      | Some r6 \<Rightarrow> (case (e4, r6) of (Some a, Some b) \<Rightarrow> Some (a @ [CHR 0x0A] @ b) | _ \<Rightarrow> None))"

subsection \<open>The cache of local addresses\<close>

record ip_cache =
  ic_ips :: "ip_addr list option"
  ic_time :: time

definition ip_cache_ttl :: duration where
  "ip_cache_ttl = 30 * second"

text \<open>\<open>fetch\<close> is what the interfaces give, absent on an error; \<open>t1\<close> to \<open>t3\<close> are the clock readings.\<close>

definition ip_cache_valid :: "time \<Rightarrow> ip_cache \<Rightarrow> bool" where
  "ip_cache_valid now c \<longleftrightarrow> time_sub now (ic_time c) \<le> ip_cache_ttl \<and> ic_ips c \<noteq> None"

definition get_cached_ips ::
    "time \<Rightarrow> time \<Rightarrow> time \<Rightarrow> ip_addr list option \<Rightarrow> ip_cache \<Rightarrow> ip_addr list option \<times> ip_cache" where
  "get_cached_ips t1 t2 t3 fetch c =
     (if ip_cache_valid t1 c \<or> ip_cache_valid t2 c then (ic_ips c, c)
      else
        (case fetch of
           None \<Rightarrow> (None, c)
         | Some ips \<Rightarrow> (Some ips, c\<lparr>ic_ips := Some ips, ic_time := t3\<rparr>)))"

subsection \<open>A scan\<close>

record scan_options =
  so_timeout :: duration
  so_legacy_timeout :: duration
  so_lan :: bool
  so_legacy :: bool
  so_fallback :: bool

text \<open>Which of its three channels \<open>Scan\<close> still waits for, and whether it has started the subnet scan.\<close>

record scan_state =
  sn_collection :: bool
  sn_fallback :: bool
  sn_legacy_done :: bool
  sn_legacy_started :: bool

definition start_legacy :: "scan_state \<Rightarrow> scan_state" where
  "start_legacy s = s\<lparr>sn_legacy_done := True, sn_legacy_started := True\<rparr>"

definition scan_begin :: "scan_options \<Rightarrow> scan_state" where
  "scan_begin opts =
     (let s0 = \<lparr>sn_collection = False, sn_fallback = False, sn_legacy_done = False, sn_legacy_started = False\<rparr>;
          s1 = (if so_legacy opts then start_legacy s0 else s0)
      in if so_lan opts then s1\<lparr>sn_collection := True, sn_fallback := so_fallback opts \<and> \<not> so_legacy opts\<rparr>
         else if so_fallback opts \<and> \<not> so_legacy opts then start_legacy s1
         else s1)"

text \<open>Go's division by two rounds towards zero.\<close>

definition half :: "int \<Rightarrow> int" where
  "half n = (if n < 0 then - ((- n) div 2) else n div 2)"

definition fallback_grace :: "scan_options \<Rightarrow> duration" where
  "fallback_grace opts = min 750000000 (min (half (so_timeout opts)) (half (so_legacy_timeout opts)))"

datatype scan_result = ScanComplete | ScanCancelled | ScanStopped

text \<open>\<open>idle\<close> is the condition of the fallback: time is left and no device has been found.\<close>

inductive scan_step :: "scan_state \<Rightarrow> scan_state + scan_result \<Rightarrow> bool" where
  sn_collected: "sn_collection s \<Longrightarrow> scan_step s (Inl (s\<lparr>sn_collection := False, sn_fallback := False\<rparr>))"
| sn_fall_back:
    "sn_fallback s \<Longrightarrow>
     scan_step s (Inl (if idle then start_legacy (s\<lparr>sn_fallback := False\<rparr>) else s\<lparr>sn_fallback := False\<rparr>))"
| sn_legacy_over: "sn_legacy_done s \<Longrightarrow> scan_step s (Inl (s\<lparr>sn_legacy_done := False\<rparr>))"
| sn_cancelled: "sn_collection s \<or> sn_fallback s \<or> sn_legacy_done s \<Longrightarrow> scan_step s (Inr ScanCancelled)"
| sn_stopped: "sn_collection s \<or> sn_fallback s \<or> sn_legacy_done s \<Longrightarrow> scan_step s (Inr ScanStopped)"
| sn_complete: "\<not> sn_collection s \<Longrightarrow> \<not> sn_fallback s \<Longrightarrow> \<not> sn_legacy_done s \<Longrightarrow> scan_step s (Inr ScanComplete)"

inductive_cases scan_stepE: "scan_step s (Inl s')"

text \<open>The states a scan runs through, newest first.\<close>

inductive scan_states :: "scan_options \<Rightarrow> scan_state list \<Rightarrow> bool" for opts where
  sn_first: "scan_states opts [scan_begin opts]"
| sn_next: "scan_states opts (s # ss) \<Longrightarrow> scan_step s (Inl s') \<Longrightarrow> scan_states opts (s' # s # ss)"

definition scan_work :: "scan_state \<Rightarrow> nat" where
  "scan_work s = (if sn_collection s then 1 else 0) + (if sn_fallback s then 2 else 0) + (if sn_legacy_done s then 1 else 0)"

definition scan_ok :: "scan_options \<Rightarrow> scan_state \<Rightarrow> bool" where
  "scan_ok opts s \<longleftrightarrow> (sn_fallback s \<longrightarrow> \<not> sn_legacy_started s \<and> \<not> sn_legacy_done s) \<and>
     (sn_legacy_started s \<longrightarrow> so_legacy opts \<or> so_fallback opts)"

lemma scan_begin_ok: "scan_ok opts (scan_begin opts) \<and> scan_work (scan_begin opts) \<le> 3"
  by (auto simp: scan_ok_def scan_begin_def start_legacy_def scan_work_def Let_def)

lemma scan_step_works:
  "scan_step s (Inl s') \<Longrightarrow> scan_ok opts s \<Longrightarrow> so_fallback opts \<or> \<not> sn_fallback s \<Longrightarrow>
   scan_ok opts s' \<and> scan_work s' < scan_work s \<and> (so_fallback opts \<or> \<not> sn_fallback s')"
  by (erule scan_stepE) (auto simp: scan_ok_def scan_work_def start_legacy_def split: if_splits)

lemma scan_states_ok:
  "scan_states opts ss \<Longrightarrow> ss \<noteq> [] \<and> scan_ok opts (hd ss) \<and> (so_fallback opts \<or> \<not> sn_fallback (hd ss)) \<and>
     length ss + scan_work (hd ss) \<le> 4"
proof (induction rule: scan_states.induct)
  case sn_first
  then show ?case using scan_begin_ok by (auto simp: scan_begin_def start_legacy_def Let_def)
next
  case (sn_next s ss s')
  from scan_step_works [OF sn_next.hyps(2)] sn_next.IH show ?case by fastforce
qed

end
