(* ===== verification/Discovery_Props.thy ===== *)
theory Discovery_Props
  imports Discovery_Net
begin

text \<open>
  The properties of device discovery: what the store holds, which channel a scan reports, who may answer, and
  which addresses are probed.
\<close>

text \<open>
  The subnet scan probes each address of the local /24 networks once, except this machine's own: the
  targets are exactly the hosts 1 to 254 of the networks of its IPv4 addresses, without repetition.
\<close>

theorem subnet_targets_exact:
  "distinct (build_subnet_targets ips) \<and>
   set (build_subnet_targets ips) =
     {dotted (a, b, c) (of_nat h) | a b c d h. Ip4 a b c d \<in> set ips \<and> h \<in> {1..<255}}
     - {dotted (a, b, c) d | a b c d. Ip4 a b c d \<in> set ips}"
proof -
  let ?pairs = "List.product [1..<255] (subnets_of ips [])"
  let ?f = "\<lambda>(host, p). dotted p (of_nat host)"
  have "inj_on ?f (set ?pairs)"
    by (intro inj_onI) (clarsimp, drule dotted_inj, auto intro: host_inj)
  then have "distinct (map ?f ?pairs)"
    by (simp add: distinct_map distinct_product subnets_distinct)
  moreover have "set (map ?f ?pairs) = {dotted (a, b, c) (of_nat h) | a b c d h. Ip4 a b c d \<in> set ips \<and> h \<in> {1..<255}}"
  proof -
    have "set (map ?f ?pairs) = (\<Union>h\<in>{1..<255}. (\<lambda>p. dotted p (of_nat h)) ` set (subnets_of ips []))"
      by auto
    also have "\<dots> = {dotted (a, b, c) (of_nat h) | a b c d h. Ip4 a b c d \<in> set ips \<and> h \<in> {1..<255}}" (is "?L = ?R")
    proof (intro equalityI subsetI)
      fix t assume "t \<in> ?L"
      then obtain h p where h: "h \<in> {1..<255}" "p \<in> set (subnets_of ips [])" "t = dotted p (of_nat h)" by blast
      from h(2) obtain a b c d where "p = (a, b, c)" "Ip4 a b c d \<in> set ips" by (auto simp: subnets_set)
      with h show "t \<in> ?R" by blast
    next
      fix t assume "t \<in> ?R"
      then obtain a b c d h where t: "t = dotted (a, b, c) (of_nat h)" "Ip4 a b c d \<in> set ips" "h \<in> {1..<255}" by blast
      then have "(a, b, c) \<in> set (subnets_of ips [])" by (auto simp: subnets_set)
      with t show "t \<in> ?L" by blast
    qed
    finally show ?thesis .
  qed
  ultimately show ?thesis
    unfolding locals_set [symmetric] targets_product
    by (intro conjI distinct_filter) (assumption, simp only: set_filter, blast)
qed

text \<open>
  C33: The store of discovered devices stays bounded and tidy whatever is announced, registered and
  cleaned up: at most 512 devices, and each of them has a channel, at most one for every host.
\<close>

theorem discovery_store_invariant:
  assumes "disc_run self m"
  shows "gm_wf m \<and> length m \<le> max_discovered_devices \<and>
    (\<forall>(k, e)\<in>set m. ds_channels e \<noteq> [] \<and> distinct (map (dc_host \<circ> snd) (ds_channels e)))"
  using disc_run_ok [OF assms] by (auto simp: discovery_ok_def channels_ok_def)

theorem discovery_store_invariant_witness: "length demo_discovered \<le> max_discovered_devices"
  using discovery_store_invariant [OF demo_disc_run] by blast

text \<open>
  The channel a scan reports does not depend on the order in which Go visits the map: for a device of the
  store any two visiting orders give the same channel; it was confirmed since the scan began, and it is
  better (IPv6 first, then the later confirmation, then the smaller host) than every other such channel.
\<close>

theorem best_channel_order_free:
  assumes "disc_run self m" "map_of m k = Some e" "visits vis (ds_channels e)" "visits vis' (ds_channels e)"
  shows "best_discovery_channel v6 vis since = best_discovery_channel v6 vis' since \<and>
    is_best v6 {c \<in> snd ` set (ds_channels e). since \<le> dc_seen c} (best_discovery_channel v6 vis since)"
proof -
  have "distinct (map (dc_host \<circ> snd) (ds_channels e))"
    using disc_run_ok [OF assms(1)] map_of_SomeD [OF assms(2)] by (auto simp: discovery_ok_def channels_ok_def)
  from best_channel_is_best [OF this assms(3)] best_channel_is_best [OF this assms(4)] show ?thesis
    using is_best_unique by blast
qed

theorem best_channel_order_free_witness:
  "best_discovery_channel (\<lambda>h. CHR '':'' \<in> set h) (rev (ds_channels demo_entry)) 0 =
   best_discovery_channel (\<lambda>h. CHR '':'' \<in> set h) (ds_channels demo_entry) 0"
  using best_channel_order_free [OF demo_disc_run demo_entry, of "rev (ds_channels demo_entry)" "ds_channels demo_entry"]
  by (simp add: visits_def)

text \<open>
  Over HTTPS a device is stored under the certificate it proved: the answer to an announcement keeps the
  announced fingerprint, to which the connection was pinned, and a scanned device gets the fingerprint of the
  certificate it presented, whatever fingerprint the answer's body claims.
\<close>

theorem https_identity_is_certificate:
  "(response_scheme anno = ''https'' \<and> send_http_response T decode host anno = Some a \<longrightarrow>
      dv_fingerprint a = dv_fingerprint anno \<and>
      (\<exists>body. T ''https'' host (response_port anno) (Some (dv_fingerprint anno)) = HttpReply 200 body)) \<and>
   (try_scan_ip self dec ip ''https'' reply peer = Some b \<longrightarrow> peer = Some (dv_fingerprint b))"
  by (auto simp: send_http_response_def try_scan_ip_def Let_def device_info.defs
      split: discovery_reply.splits option.splits if_splits)

theorem https_identity_is_certificate_witness:
  "map_option dv_fingerprint (send_http_response (\<lambda>s h p f. HttpReply 200 []) (\<lambda>b. Some ((demo_announcement 1)\<lparr>dv_fingerprint := ''FAKE''\<rparr>))
     ''10.0.0.9'' (demo_announcement 1)) = Some ''AB''"
proof -
  obtain a where a: "send_http_response (\<lambda>s h p f. HttpReply 200 []) (\<lambda>b. Some ((demo_announcement 1)\<lparr>dv_fingerprint := ''FAKE''\<rparr>))
     ''10.0.0.9'' (demo_announcement 1) = Some a"
    by (auto simp: send_http_response_def response_scheme_def response_port_def demo_announcement_def new_device_info_def device_info.defs)
  have "response_scheme (demo_announcement 1) = ''https''" "dv_fingerprint (demo_announcement 1) = ''AB''"
    by (simp_all add: response_scheme_def demo_announcement_def new_device_info_def device_info.defs)
  with https_identity_is_certificate [of "demo_announcement 1"] a show ?thesis by fastforce
qed

text \<open>
  Announcements from the network start at most eight answers at a time and never two for the
  same device, address and protocol, however the IPv4 and the IPv6 listener interleave.
\<close>

theorem responses_bounded:
  assumes "flights_reached s"
  shows "length (fl_running s) \<le> max_announcement_responses \<and> distinct (fl_claimed s @ fl_running s @ fl_released s)"
proof -
  have "flights_ok s" by (rule flights_reached_ok [OF assms])
  then have m: "mset (fl_claimed s @ fl_running s @ fl_released s) = mset (fl_keys s)" and d: "distinct (fl_keys s)"
    "length (fl_running s) \<le> max_announcement_responses"
    by (simp_all add: flights_ok_def)
  with mset_eq_imp_distinct_iff [OF m] show ?thesis by blast
qed

theorem responses_bounded_witness: "distinct ([] @ [''k''] @ ([] :: string list))"
proof -
  have "flight_step no_flights (no_flights\<lparr>fl_keys := [''k''], fl_claimed := [''k'']\<rparr>)"
    using fl_claim [of "''k''" no_flights] by (simp add: no_flights_def)
  moreover have "flight_step (no_flights\<lparr>fl_keys := [''k''], fl_claimed := [''k'']\<rparr>)
      (no_flights\<lparr>fl_keys := [''k''], fl_slots := 1, fl_running := [''k'']\<rparr>)"
    using fl_start [of "''k''" "no_flights\<lparr>fl_keys := [''k''], fl_claimed := [''k'']\<rparr>"]
    by (simp add: no_flights_def max_announcement_responses_def)
  ultimately have "flights_reached (no_flights\<lparr>fl_keys := [''k''], fl_slots := 1, fl_running := [''k'']\<rparr>)"
    using fl_more fl_none by blast
  from responses_bounded [OF this] show ?thesis by (simp add: no_flights_def)
qed

text \<open>
  A scan always ends: its three channels can wake it at most three times before it returns, and the slow
  subnet scan is started only when it was asked for, directly or as the fallback.
\<close>

theorem scans_end:
  assumes "scan_states opts ss"
  shows "length ss \<le> 4 \<and> (\<exists>r. scan_step (hd ss) r) \<and> (sn_legacy_started (hd ss) \<longrightarrow> so_legacy opts \<or> so_fallback opts)"
proof -
  note ok = scan_states_ok [OF assms]
  have "\<exists>r. scan_step (hd ss) r" using sn_cancelled sn_complete by blast
  with ok show ?thesis by (auto simp: scan_ok_def)
qed

theorem scans_end_witness:
  "length [scan_begin \<lparr>so_timeout = second, so_legacy_timeout = second, so_lan = True, so_legacy = False, so_fallback = True\<rparr>] \<le> 4"
  using scans_end [OF sn_first] by blast

end
