(* ===== verification/Certificates.thy ===== *)
theory Certificates
  imports Models
begin

text \<open>
  The certificates peers identify each other by: the fingerprint of a certificate (\<open>internal/utils/cert.go\<close>,
  \<open>internal/crypto/cert.go\<close>, \<open>CertificateFingerprint\<close> of \<open>internal/localsend/utils/utils.go\<close>), the checks of a TLS handshake
  there and in \<open>internal/localsend/scan.go\<close>, and the checksum of a file (\<open>internal/utils/checksum.go\<close>). Parsing X.509,
  its signatures and SHA-256 are parameters; a digest is its hexadecimal text in lower case.
\<close>

record certificate =
  ce_raw :: bytes
  ce_not_before :: time
  ce_not_after :: time

datatype key_usage = ServerAuth | ClientAuth

record tls_env =
  te_parse :: "bytes \<Rightarrow> certificate option"
  te_sha :: "bytes \<Rightarrow> string"
  te_self_signed :: "certificate \<Rightarrow> bool"
  te_verify :: "certificate \<Rightarrow> key_usage \<Rightarrow> bool"
  te_now :: time

text \<open>\<open>te_self_signed\<close> is \<^verbatim>\<open>CheckSignature\<close> with the certificate's own key, \<open>te_verify\<close> is \<^verbatim>\<open>Verify\<close> with it as the only root.\<close>

definition hex_upper_char :: "char \<Rightarrow> char" where
  "hex_upper_char c = (if 97 \<le> (of_char c :: nat) \<and> (of_char c :: nat) \<le> 122 then char_of ((of_char c :: nat) - 32) else c)"

definition sha256_of_cert :: "tls_env \<Rightarrow> certificate \<Rightarrow> string" where
  "sha256_of_cert T c = map hex_upper_char (te_sha T (ce_raw c))"

definition certificate_fingerprint :: "tls_env \<Rightarrow> bytes list \<Rightarrow> string option" where
  "certificate_fingerprint T chain = (case chain of [] \<Rightarrow> None | leaf # _ \<Rightarrow> map_option (sha256_of_cert T) (te_parse T leaf))"

definition fingerprint_from_cert_der :: "tls_env \<Rightarrow> bytes \<Rightarrow> string" where
  "fingerprint_from_cert_der T der =
     (case te_parse T der of None \<Rightarrow> [] | Some c \<Rightarrow> map hex_upper_char (te_sha T der))"

definition fingerprint_matches :: "tls_env \<Rightarrow> string \<Rightarrow> certificate \<Rightarrow> bool" where
  "fingerprint_matches T expected c \<longleftrightarrow> expected = [] \<or> hex_equal_fold (sha256_of_cert T c) expected"

text \<open>The check of \<open>utils.go\<close>, for uploads (servers) and the receiving server (clients, whose fingerprint is not known).\<close>

definition verify_peer_certificate :: "tls_env \<Rightarrow> string \<Rightarrow> key_usage \<Rightarrow> bytes list \<Rightarrow> bool" where
  "verify_peer_certificate T expected usage chain =
     (case chain of
        [] \<Rightarrow> False
      | raw # _ \<Rightarrow>
          (case te_parse T raw of
             None \<Rightarrow> False
           | Some c \<Rightarrow> if \<not> te_verify T c usage then False else fingerprint_matches T expected c))"

definition verify_server_certificate :: "tls_env \<Rightarrow> string \<Rightarrow> bytes list \<Rightarrow> bool" where
  "verify_server_certificate T expected chain = verify_peer_certificate T expected ServerAuth chain"

definition verify_client_certificate :: "tls_env \<Rightarrow> bytes list \<Rightarrow> bool" where
  "verify_client_certificate T chain = verify_peer_certificate T [] ClientAuth chain"

text \<open>The check of \<open>scan.go\<close>, for the answer to an announcement.\<close>

definition verify_announced_fingerprint :: "tls_env \<Rightarrow> string \<Rightarrow> bytes list \<Rightarrow> bool" where
  "verify_announced_fingerprint T expected chain =
     (case chain of
        [] \<Rightarrow> False
      | raw # _ \<Rightarrow>
          (case te_parse T raw of
             None \<Rightarrow> False
           | Some c \<Rightarrow>
               if te_now T < ce_not_before c \<or> ce_not_after c < te_now T then False
               else if \<not> te_self_signed T c then False
               else fingerprint_matches T expected c))"

definition verify_checksum :: "(bytes \<Rightarrow> string) \<Rightarrow> string \<Rightarrow> bytes \<Rightarrow> bool" where
  "verify_checksum sha expected content \<longleftrightarrow> expected = [] \<or> sha content = expected"

definition get_protocol_scheme :: "bool \<Rightarrow> string" where
  "get_protocol_scheme https = (if https then ''https'' else ''http'')"

subsection \<open>A peer is its certificate\<close>

lemma upper_lower [simp]: "ascii_lower_char (hex_upper_char c) = ascii_lower_char c"
proof -
  have "(of_char (char_of (n - 32) :: char) :: nat) = n - 32" if "n \<le> 122" for n :: nat using that by simp
  then show ?thesis by (auto simp: ascii_lower_char_def hex_upper_char_def)
qed

lemma ascii_lower_upper [simp]: "ascii_lower (map hex_upper_char s) = ascii_lower s"
  by (simp add: ascii_lower_def)

lemma matches_iff: "fingerprint_matches T expected c \<longleftrightarrow> expected = [] \<or> ascii_lower (te_sha T (ce_raw c)) = ascii_lower expected"
  by (simp add: fingerprint_matches_def hex_equal_fold_def sha256_of_cert_def)

text \<open>
  Both checks bind a peer to the announced fingerprint: whoever passes one holds, as its first certificate, one whose
  digest is the fingerprint up to the case of its letters; and the fingerprint a device announces for itself is always
  one that its own certificate matches.
\<close>

lemma pinned_peer_holds_certificate:
  assumes "expected \<noteq> []" "verify_server_certificate T expected chain \<or> verify_announced_fingerprint T expected chain"
  shows "\<exists>raw rest c. chain = raw # rest \<and> te_parse T raw = Some c \<and> ascii_lower (te_sha T (ce_raw c)) = ascii_lower expected"
  using assms
  by (auto simp: verify_server_certificate_def verify_peer_certificate_def verify_announced_fingerprint_def matches_iff
      split: list.splits option.splits if_splits)

lemma own_fingerprint_matches:
  assumes "certificate_fingerprint T chain = Some fp"
  shows "\<exists>raw rest c. chain = raw # rest \<and> te_parse T raw = Some c \<and> fingerprint_matches T fp c"
  using assms by (auto simp: certificate_fingerprint_def matches_iff sha256_of_cert_def split: list.splits)

text \<open>An announcement without a fingerprint pins nothing: any well-formed certificate passes.\<close>

lemma empty_fingerprint_pins_nothing:
  "te_parse T raw = Some c \<Longrightarrow> te_verify T c ServerAuth \<Longrightarrow> verify_server_certificate T [] (raw # rest)"
  by (simp add: verify_server_certificate_def verify_peer_certificate_def matches_iff)

end
