(* ===== verification/Rebind.thy ===== *)
theory Rebind
  imports Discovery_Net
begin

text \<open>
  The life of the discovery sockets of a receiver, \<open>startDiscoveryWithRetry\<close>, \<open>Stop\<close> and their helpers in
  \<open>internal/localsend/recv/recv.go\<close>, and the scan that survives their rebinds, \<open>recv/scan.go\<close>. The goroutine that owns
  discovery, the one that stops the receiver and the one that scans take turns at the points between their critical
  sections; scans are serialised by a mutex, so there is one.
\<close>

subsection \<open>The state\<close>

text \<open>Where the owner is: \<open>startDiscoveryWithRetry\<close> and the discoverer it holds.\<close>

datatype owner_point =
    OwTop
  | OwCreate
  | OwInstall nat
  | OwListen nat
  | OwListening nat
  | OwClear nat
  | OwShut nat
  | OwWait
  | OwGone

text \<open>\<open>Stop\<close>: it cancels, shuts down the current discoverer, and waits for the owner.\<close>

datatype stop_point = StNot | StClosed | StCancelled | StWaiting | StDone

text \<open>
  \<open>Scan\<close>: it looks at the current discoverer together with the channel \<open>discoveryChanged\<close>, scans with the one it found,
  and waits for that channel. A channel is the number of channels closed before it.
\<close>

datatype scan_point =
    ScIdle
  | ScLook
  | ScTry nat nat
  | ScWait "nat option" nat
  | ScStopped
  | ScReturned

text \<open>
  Discoverers are numbered in the order of their creation; \<open>rb_store\<close> tells which map of devices a discoverer uses.
\<close>

record rebind =
  rb_current :: "nat option"
  rb_previous :: "nat option"
  rb_changes :: nat
  rb_failed :: bool
  rb_made :: nat
  rb_shut :: "nat list"
  rb_store :: "nat \<Rightarrow> nat"
  rb_cancelled :: bool
  rb_done :: bool
  rb_owner :: owner_point
  rb_stop :: stop_point
  rb_scan :: scan_point

subsection \<open>The operations\<close>

text \<open>\<open>createDiscoverer\<close>: a new discoverer takes over the map of the previous one (\<open>ShareDiscoveries\<close>).\<close>

definition create_discoverer :: "bool \<Rightarrow> rebind \<Rightarrow> nat option \<times> rebind" where
  "create_discoverer ok s =
     (if \<not> ok then (None, s\<lparr>rb_failed := True\<rparr>)
      else
        let d = rb_made s;
            m = (case rb_previous s of None \<Rightarrow> d | Some p \<Rightarrow> rb_store s p)
        in (Some d, s\<lparr>rb_made := Suc d, rb_store := (rb_store s)(d := m), rb_previous := Some d\<rparr>))"

definition install_discoverer :: "nat \<Rightarrow> rebind \<Rightarrow> rebind" where
  "install_discoverer d s = s\<lparr>rb_current := Some d, rb_failed := False, rb_changes := Suc (rb_changes s)\<rparr>"

definition clear_discoverer :: "nat \<Rightarrow> rebind \<Rightarrow> rebind" where
  "clear_discoverer d s =
     (if rb_current s = Some d then s\<lparr>rb_current := None, rb_changes := Suc (rb_changes s)\<rparr> else s)"

definition shut_down :: "nat \<Rightarrow> rebind \<Rightarrow> rebind" where
  "shut_down d s = s\<lparr>rb_shut := d # rb_shut s\<rparr>"

text \<open>\<open>registerDiscoveredDevice\<close>: the discoverer that gets a device that registered over HTTP.\<close>

definition register_target :: "rebind \<Rightarrow> nat option" where
  "register_target s = (case rb_current s of None \<Rightarrow> rb_previous s | Some d \<Rightarrow> Some d)"

text \<open>\<open>Start\<close> makes the first attempt itself, before the owner runs.\<close>

definition start_discovery :: "bool \<Rightarrow> rebind" where
  "start_discovery ok =
     (let s0 = \<lparr>rb_current = None, rb_previous = None, rb_changes = 0, rb_failed = False, rb_made = 0, rb_shut = [],
                rb_store = (\<lambda>d. d), rb_cancelled = False, rb_done = False, rb_owner = OwTop, rb_stop = StNot,
                rb_scan = ScIdle\<rparr>
      in case create_discoverer ok s0 of (None, s) \<Rightarrow> s | (Some d, s) \<Rightarrow> install_discoverer d s)"

text \<open>What a scan hands to the discoverer: nothing is started whose deadline is over.\<close>

definition remaining_options :: "duration \<Rightarrow> duration \<Rightarrow> scan_options \<Rightarrow> scan_options" where
  "remaining_options native_left legacy_left opts =
     opts\<lparr>so_timeout := native_left, so_legacy_timeout := legacy_left, so_lan := so_lan opts \<and> 0 < native_left,
          so_legacy := so_legacy opts \<and> 0 < legacy_left, so_fallback := so_fallback opts \<and> 0 < legacy_left\<rparr>"

text \<open>
  \<open>finish\<close>: how a scan ends that ran into \<open>err\<close>; \<open>caller\<close> is the error of the caller's context and \<open>bound\<close> tells whether
  there is a current discoverer.
\<close>

datatype scan_failure = FailCancelled | FailDeadline | FailStopped | FailUnavailable | FailOther string

definition finish_scan ::
    "scan_failure option \<Rightarrow> bool \<Rightarrow> (string \<times> announcement) list \<Rightarrow> scan_failure option \<Rightarrow>
     (string \<times> announcement) list \<times> scan_failure option" where
  "finish_scan caller bound result err =
     (if caller \<noteq> None then (result, caller)
      else if err = Some FailDeadline then
        (if result = [] \<and> \<not> bound then (result, Some FailUnavailable) else (result, None))
      else (result, err))"

datatype rebind_event =
    OwLoop | OwMake bool | OwPut | OwBegin | OwReturn | OwDrop | OwFinish | OwRetry bool
  | RbCancel | RbAfter
  | StBegin | StCancel | StShut | StJoin
  | ScBegin | ScSee | ScTried bool | ScWake | ScGiveUp

text \<open>The owner. \<open>RbAfter\<close> is the function run by the cancellation while it listens.\<close>

fun owner_step :: "rebind_event \<Rightarrow> rebind \<Rightarrow> rebind option" where
  "owner_step OwLoop s =
     (if rb_owner s \<noteq> OwTop then None
      else if rb_cancelled s then Some (s\<lparr>rb_owner := OwGone\<rparr>)
      else Some (s\<lparr>rb_owner := (case rb_current s of None \<Rightarrow> OwCreate | Some d \<Rightarrow> OwListen d)\<rparr>))"
| "owner_step (OwMake ok) s =
     (if rb_owner s \<noteq> OwCreate then None
      else (case create_discoverer ok s of
              (None, s1) \<Rightarrow> Some (s1\<lparr>rb_owner := OwWait\<rparr>)
            | (Some d, s1) \<Rightarrow> Some (s1\<lparr>rb_owner := OwInstall d\<rparr>)))"
| "owner_step OwPut s =
     (case rb_owner s of OwInstall d \<Rightarrow> Some ((install_discoverer d s)\<lparr>rb_owner := OwListen d\<rparr>) | _ \<Rightarrow> None)"
| "owner_step OwBegin s = (case rb_owner s of OwListen d \<Rightarrow> Some (s\<lparr>rb_owner := OwListening d\<rparr>) | _ \<Rightarrow> None)"
| "owner_step OwReturn s = (case rb_owner s of OwListening d \<Rightarrow> Some (s\<lparr>rb_owner := OwClear d\<rparr>) | _ \<Rightarrow> None)"
| "owner_step OwDrop s =
     (case rb_owner s of OwClear d \<Rightarrow> Some ((clear_discoverer d s)\<lparr>rb_owner := OwShut d\<rparr>) | _ \<Rightarrow> None)"
| "owner_step OwFinish s =
     (case rb_owner s of
        OwShut d \<Rightarrow> Some ((shut_down d s)\<lparr>rb_owner := (if rb_cancelled s then OwGone else OwWait)\<rparr>)
      | _ \<Rightarrow> None)"
| "owner_step (OwRetry elapsed) s =
     (if rb_owner s \<noteq> OwWait then None
      else if elapsed then Some (s\<lparr>rb_owner := OwTop\<rparr>)
      else if rb_cancelled s then Some (s\<lparr>rb_owner := OwGone\<rparr>)
      else None)"
| "owner_step RbAfter s =
     (case rb_owner s of OwListening d \<Rightarrow> if rb_cancelled s then Some (shut_down d s) else None | _ \<Rightarrow> None)"
| "owner_step _ s = None"

fun stop_step :: "rebind_event \<Rightarrow> rebind \<Rightarrow> rebind option" where
  "stop_step StBegin s = (if rb_stop s \<noteq> StNot then None else Some (s\<lparr>rb_done := True, rb_stop := StClosed\<rparr>))"
| "stop_step StCancel s = (if rb_stop s \<noteq> StClosed then None else Some (s\<lparr>rb_cancelled := True, rb_stop := StCancelled\<rparr>))"
| "stop_step StShut s =
     (if rb_stop s \<noteq> StCancelled then None
      else Some ((case rb_current s of None \<Rightarrow> s | Some d \<Rightarrow> shut_down d s)\<lparr>rb_stop := StWaiting\<rparr>))"
| "stop_step StJoin s =
     (if rb_stop s = StWaiting \<and> rb_owner s = OwGone then Some (s\<lparr>rb_stop := StDone\<rparr>) else None)"
| "stop_step _ s = None"

text \<open>The scan. A discoverer gives the error that it was stopped only once it has been shut down.\<close>

fun scan_point_step :: "rebind_event \<Rightarrow> rebind \<Rightarrow> rebind option" where
  "scan_point_step ScBegin s = (if rb_scan s \<notin> {ScIdle, ScStopped, ScReturned} then None else Some (s\<lparr>rb_scan := ScLook\<rparr>))"
| "scan_point_step ScSee s =
     (if rb_scan s \<noteq> ScLook then None
      else Some (s\<lparr>rb_scan := (case rb_current s of None \<Rightarrow> ScWait None (rb_changes s) | Some d \<Rightarrow> ScTry d (rb_changes s))\<rparr>))"
| "scan_point_step (ScTried stopped) s =
     (case rb_scan s of
        ScTry d g \<Rightarrow>
          if \<not> stopped then Some (s\<lparr>rb_scan := ScReturned\<rparr>)
          else if d \<in> set (rb_shut s) then Some (s\<lparr>rb_scan := ScWait (Some d) g\<rparr>)
          else None
      | _ \<Rightarrow> None)"
| "scan_point_step ScWake s =
     (case rb_scan s of
        ScWait d g \<Rightarrow> if g < rb_changes s then Some (s\<lparr>rb_scan := ScLook\<rparr>) else None
      | _ \<Rightarrow> None)"
| "scan_point_step ScGiveUp s =
     (case rb_scan s of
        ScWait d g \<Rightarrow> Some (s\<lparr>rb_scan := (if rb_done s then ScStopped else ScReturned)\<rparr>)
      | _ \<Rightarrow> None)"
| "scan_point_step _ s = None"

text \<open>\<open>RbCancel\<close> is a cancellation of the context from outside.\<close>

definition rebind_step :: "rebind_event \<Rightarrow> rebind \<Rightarrow> rebind option" where
  "rebind_step e s =
     (if e = RbCancel then Some (s\<lparr>rb_cancelled := True\<rparr>)
      else (case owner_step e s of
              Some s' \<Rightarrow> Some s'
            | None \<Rightarrow> (case stop_step e s of Some s' \<Rightarrow> Some s' | None \<Rightarrow> scan_point_step e s)))"

fun rebind_run :: "rebind_event list \<Rightarrow> rebind \<Rightarrow> rebind option" where
  "rebind_run [] s = Some s"
| "rebind_run (e # es) s = (case rebind_step e s of None \<Rightarrow> None | Some s' \<Rightarrow> rebind_run es s')"

subsection \<open>What every interleaving keeps\<close>

fun held :: "owner_point \<Rightarrow> nat option" where
  "held (OwInstall d) = Some d"
| "held (OwListen d) = Some d"
| "held (OwListening d) = Some d"
| "held (OwClear d) = Some d"
| "held (OwShut d) = Some d"
| "held _ = None"

text \<open>The current discoverer, by where the owner is.\<close>

fun current_at :: "owner_point \<Rightarrow> nat option \<Rightarrow> bool" where
  "current_at OwTop c = True"
| "current_at OwGone c = True"
| "current_at (OwListen d) c = (c = Some d)"
| "current_at (OwListening d) c = (c = Some d)"
| "current_at (OwClear d) c = (c = Some d)"
| "current_at _ c = (c = None)"

definition discoverers_inv :: "rebind \<Rightarrow> bool" where
  "discoverers_inv s \<longleftrightarrow>
     current_at (rb_owner s) (rb_current s) \<and>
     (\<forall>d < rb_made s. d \<in> set (rb_shut s) \<or> rb_current s = Some d \<or> held (rb_owner s) = Some d) \<and>
     (\<forall>d. rb_current s = Some d \<or> held (rb_owner s) = Some d \<longrightarrow> d < rb_made s) \<and>
     rb_previous s = (if rb_made s = 0 then None else Some (rb_made s - 1)) \<and>
     (\<forall>d < rb_made s. rb_store s d = 0)"

definition stop_inv :: "rebind \<Rightarrow> bool" where
  "stop_inv s \<longleftrightarrow>
     (rb_stop s \<in> {StWaiting, StDone} \<and> rb_owner s \<in> {OwTop, OwGone} \<longrightarrow> (\<forall>d. rb_current s = Some d \<longrightarrow> d \<in> set (rb_shut s))) \<and>
     (rb_stop s = StDone \<longrightarrow> rb_owner s = OwGone) \<and> (rb_stop s \<noteq> StNot \<longleftrightarrow> rb_done s)"

definition scanner_inv :: "rebind \<Rightarrow> bool" where
  "scanner_inv s \<longleftrightarrow>
     (\<forall>seen g. rb_scan s = ScWait seen g \<longrightarrow>
        g \<le> rb_changes s \<and> (g = rb_changes s \<longrightarrow> rb_current s = seen) \<and> (\<forall>d. seen = Some d \<longrightarrow> d \<in> set (rb_shut s))) \<and>
     (\<forall>d g. rb_scan s = ScTry d g \<longrightarrow> g \<le> rb_changes s \<and> (g = rb_changes s \<longrightarrow> rb_current s = Some d)) \<and>
     (rb_scan s = ScStopped \<longrightarrow> rb_done s)"

definition rebind_inv :: "rebind \<Rightarrow> bool" where
  "rebind_inv s \<longleftrightarrow> discoverers_inv s \<and> stop_inv s \<and> scanner_inv s"

lemmas rebind_ops = rebind_step_def create_discoverer_def install_discoverer_def clear_discoverer_def shut_down_def

lemma owner_step_discoverers: "owner_step e s = Some s' \<Longrightarrow> discoverers_inv s \<Longrightarrow> discoverers_inv s'"
  by (cases e; cases "rb_owner s") (auto simp: discoverers_inv_def rebind_ops Let_def less_Suc_eq split: if_splits option.splits)

lemma owner_step_stop: "owner_step e s = Some s' \<Longrightarrow> discoverers_inv s \<Longrightarrow> stop_inv s \<Longrightarrow> stop_inv s'"
  by (cases e; cases "rb_owner s") (auto simp: discoverers_inv_def stop_inv_def rebind_ops Let_def split: if_splits option.splits)

lemma owner_step_scanner: "owner_step e s = Some s' \<Longrightarrow> scanner_inv s \<Longrightarrow> scanner_inv s'"
  by (cases e; cases "rb_owner s") (auto simp: scanner_inv_def rebind_ops Let_def split: if_splits option.splits)

lemma stop_step_keeps:
  assumes "stop_step e s = Some s'"
  shows "discoverers_inv s \<Longrightarrow> discoverers_inv s'" "stop_inv s \<Longrightarrow> stop_inv s'" "scanner_inv s \<Longrightarrow> scanner_inv s'"
  using assms by (cases e; auto simp: discoverers_inv_def stop_inv_def scanner_inv_def rebind_ops split: if_splits option.splits)+

lemma scan_point_step_only: "scan_point_step e s = Some s' \<Longrightarrow> \<exists>x. s' = s\<lparr>rb_scan := x\<rparr>"
  by (cases e; cases "rb_scan s") (auto split: if_splits)

lemma scan_point_only [simp]:
  "discoverers_inv (s\<lparr>rb_scan := x\<rparr>) = discoverers_inv s" "stop_inv (s\<lparr>rb_scan := x\<rparr>) = stop_inv s"
  by (simp_all add: discoverers_inv_def stop_inv_def)

lemma scan_point_step_scanner: "scan_point_step e s = Some s' \<Longrightarrow> scanner_inv s \<Longrightarrow> scanner_inv s'"
  by (cases e; cases "rb_scan s") (auto simp: scanner_inv_def split: if_splits option.splits)

lemma scan_point_step_keeps:
  assumes "scan_point_step e s = Some s'"
  shows "discoverers_inv s \<Longrightarrow> discoverers_inv s'" "stop_inv s \<Longrightarrow> stop_inv s'" "scanner_inv s \<Longrightarrow> scanner_inv s'"
  using scan_point_step_only [OF assms] scan_point_step_scanner [OF assms] by auto

lemma cancelled_only [simp]:
  "discoverers_inv (s\<lparr>rb_cancelled := x\<rparr>) = discoverers_inv s" "stop_inv (s\<lparr>rb_cancelled := x\<rparr>) = stop_inv s"
  "scanner_inv (s\<lparr>rb_cancelled := x\<rparr>) = scanner_inv s"
  by (simp_all add: discoverers_inv_def stop_inv_def scanner_inv_def)

lemma rebind_step_inv: "rebind_step e s = Some s' \<Longrightarrow> rebind_inv s \<Longrightarrow> rebind_inv s'"
proof (cases "e = RbCancel")
  case True
  then show "rebind_step e s = Some s' \<Longrightarrow> rebind_inv s \<Longrightarrow> rebind_inv s'"
    by (auto simp: rebind_inv_def rebind_step_def)
next
  case False
  assume s: "rebind_step e s = Some s'" and i: "rebind_inv s"
  from s False consider "owner_step e s = Some s'" | "stop_step e s = Some s'" | "scan_point_step e s = Some s'"
    by (auto simp: rebind_step_def split: option.splits)
  then show "rebind_inv s'"
    by cases (use i in \<open>auto simp: rebind_inv_def intro: owner_step_discoverers owner_step_stop owner_step_scanner
      stop_step_keeps scan_point_step_keeps\<close>)
qed

lemma rebind_run_inv: "rebind_run es s = Some s' \<Longrightarrow> rebind_inv s \<Longrightarrow> rebind_inv s'"
  by (induction es s rule: rebind_run.induct) (auto split: option.splits dest: rebind_step_inv)

lemma start_discovery_inv: "rebind_inv (start_discovery ok)"
  by (simp add: start_discovery_def rebind_ops rebind_inv_def discoverers_inv_def stop_inv_def scanner_inv_def Let_def)

lemma rebind_reachable: "rebind_run es (start_discovery ok) = Some s \<Longrightarrow> rebind_inv s"
  using rebind_run_inv start_discovery_inv by blast

lemma gone_step:
  assumes "rebind_step e s = Some s'" "rb_owner s = OwGone"
  shows "rb_owner s' = OwGone \<and> rb_made s' = rb_made s"
  using assms by (cases e; cases "rb_scan s") (auto simp: rebind_step_def shut_down_def split: if_splits option.splits)

lemma finished_scan_keeps_result: "fst (finish_scan caller bound result err) = result"
  by (simp add: finish_scan_def)

lemma deadline_is_no_failure:
  "snd (finish_scan None bound result (Some FailDeadline)) = (if result = [] \<and> \<not> bound then Some FailUnavailable else None)"
  by (simp add: finish_scan_def)

lemma nothing_left_to_scan:
  "native_left \<le> 0 \<Longrightarrow> legacy_left \<le> 0 \<Longrightarrow>
     scan_work (scan_begin (remaining_options native_left legacy_left opts)) = 0"
  by (simp add: remaining_options_def scan_begin_def scan_work_def)

subsection \<open>Properties\<close>

text \<open>
  C18: A scan that waits for discovery to come back is not left behind: whenever a discoverer is installed that has not been
  shut down, the channel the scan waits on has been closed, and its next two steps take it to that discoverer. A scan is
  told that discovery has stopped only after the receiver was stopped.
\<close>

theorem waiting_scan_finds_discoverer:
  assumes "rebind_run es (start_discovery ok) = Some s"
  shows "(\<forall>seen g d. rb_scan s = ScWait seen g \<and> rb_current s = Some d \<and> d \<notin> set (rb_shut s) \<longrightarrow>
      (\<exists>s'. rebind_run [ScWake, ScSee] s = Some s' \<and> rb_scan s' = ScTry d (rb_changes s))) \<and>
    (rb_scan s = ScStopped \<longrightarrow> rb_stop s \<noteq> StNot)"
proof -
  from rebind_reachable [OF assms] have i: "scanner_inv s" "stop_inv s" by (simp_all add: rebind_inv_def)
  have "\<exists>s'. rebind_run [ScWake, ScSee] s = Some s' \<and> rb_scan s' = ScTry d (rb_changes s)"
    if w: "rb_scan s = ScWait seen g" "rb_current s = Some d" "d \<notin> set (rb_shut s)" for seen g d
  proof -
    from i(1) w have "g \<le> rb_changes s" "g \<noteq> rb_changes s" by (auto simp: scanner_inv_def)
    with w show ?thesis by (simp add: rebind_step_def)
  qed
  with i show ?thesis by (auto simp: scanner_inv_def stop_inv_def)
qed

theorem waiting_scan_finds_discoverer_witness:
  "\<exists>s s'. rebind_run [ScBegin, ScSee, OwLoop, OwMake True, OwPut] (start_discovery False) = Some s \<and>
     rb_scan s = ScWait None 0 \<and> rb_current s = Some 0 \<and>
     rebind_run [ScWake, ScSee] s = Some s' \<and> rb_scan s' = ScTry 0 1"
proof -
  let ?es = "[ScBegin, ScSee, OwLoop, OwMake True, OwPut]"
  have "\<exists>s. rebind_run ?es (start_discovery False) = Some s \<and> rb_scan s = ScWait None 0 \<and> rb_current s = Some 0 \<and>
      rb_shut s = [] \<and> rb_changes s = 1"
    by (simp add: start_discovery_def rebind_ops Let_def)
  then obtain s where s: "rebind_run ?es (start_discovery False) = Some s" "rb_scan s = ScWait None 0"
      "rb_current s = Some 0" "rb_shut s = []" "rb_changes s = 1"
    by blast
  with waiting_scan_finds_discoverer [OF s(1)] show ?thesis by auto
qed

text \<open>
  C40: A receiver that was stopped leaves no discoverer behind: when \<open>Stop\<close> has waited for the owner of discovery, every
  discoverer that was ever made has been shut down, and none is made afterwards.
\<close>

theorem stopped_receiver_leaves_no_discoverer:
  assumes "rebind_run es (start_discovery ok) = Some s" "rb_stop s = StDone"
  shows "(\<forall>d < rb_made s. d \<in> set (rb_shut s)) \<and>
    (\<forall>es' s'. rebind_run es' s = Some s' \<longrightarrow> rb_made s' = rb_made s)"
proof -
  from rebind_reachable [OF assms(1)] have i: "discoverers_inv s" "stop_inv s" by (simp_all add: rebind_inv_def)
  from i(2) assms(2) have gone: "rb_owner s = OwGone" by (simp add: stop_inv_def)
  have "rb_made s' = rb_made s" if "rebind_run es' s = Some s'" for es' s'
    using that gone
  proof (induction es' s rule: rebind_run.induct)
    case (2 e es s)
    then obtain s1 where s1: "rebind_step e s = Some s1" "rebind_run es s1 = Some s'" by (auto split: option.splits)
    from gone_step [OF s1(1) "2.prems"(2)] have "rb_owner s1 = OwGone" "rb_made s1 = rb_made s" by simp_all
    with "2.IH" [OF s1(1) s1(2)] show ?case by simp
  qed simp
  moreover have "d \<in> set (rb_shut s)" if "d < rb_made s" for d
    using that i gone assms(2) by (auto simp: discoverers_inv_def stop_inv_def)
  ultimately show ?thesis by blast
qed

theorem stopped_receiver_leaves_no_discoverer_witness:
  "\<exists>s. rebind_run [OwLoop, OwBegin, StBegin, StCancel, StShut, OwReturn, OwDrop, OwFinish, StJoin] (start_discovery True) = Some s \<and>
     rb_made s = 1 \<and> 0 \<in> set (rb_shut s)"
proof -
  let ?es = "[OwLoop, OwBegin, StBegin, StCancel, StShut, OwReturn, OwDrop, OwFinish, StJoin]"
  have "\<exists>s. rebind_run ?es (start_discovery True) = Some s \<and> rb_stop s = StDone \<and> rb_made s = 1"
    by (simp add: start_discovery_def rebind_ops Let_def)
  then obtain s where s: "rebind_run ?es (start_discovery True) = Some s" "rb_stop s = StDone" "rb_made s = 1"
    by blast
  with stopped_receiver_leaves_no_discoverer [OF s(1,2)] show ?thesis by auto
qed

text \<open>
  All discoverers of a receiver use one map of devices, and once there has been one, a device that registers over HTTP
  gets into that map at any moment, also while no socket is bound: a rebind forgets nothing.
\<close>

lemma rebinds_share_one_store:
  assumes "rebind_run es (start_discovery ok) = Some s" "d < rb_made s"
  shows "rb_store s d = 0 \<and> (\<exists>t. register_target s = Some t \<and> rb_store s t = 0)"
proof -
  from rebind_reachable [OF assms(1)] have i: "discoverers_inv s" by (simp add: rebind_inv_def)
  from i assms(2) have p: "rb_previous s = Some (rb_made s - 1)" "rb_store s (rb_made s - 1) = 0"
    by (auto simp: discoverers_inv_def)
  have "rb_current s = Some t \<Longrightarrow> rb_store s t = 0" for t using i by (auto simp: discoverers_inv_def)
  with i p assms(2) show ?thesis by (auto simp: register_target_def discoverers_inv_def split: option.split)
qed

end
