(* ===== verification/Peer_Channel.thy ===== *)
theory Peer_Channel
  imports RTC_Sender
begin

text \<open>
  The wrapper of one peer connection, \<open>internal/webrtc/transfer/peer.go\<close>: its data channel and handlers, the flow
  control of its sends and the notification of its end. The connection of the WebRTC library is a parameter: whether
  it accepts a frame, and when it drains its buffer. A handler is a number that stands for it.
\<close>

subsection \<open>The connection\<close>

datatype frame = TextFrame bytes | BinFrame bytes

record peer =
  pc_conn :: bool
  pc_channel :: bool
  pc_closed :: bool
  pc_on_message :: "nat option"
  pc_on_data :: "nat option"
  pc_on_open :: "nat option"
  pc_out :: "frame list"

text \<open>
  \<open>pc_conn\<close> is the library's connection, \<open>pc_channel\<close> its data channel, \<open>pc_out\<close> the frames the channel has accepted.
\<close>

record peer_env =
  pe_refuses :: "frame list \<Rightarrow> frame \<Rightarrow> bool"
  pe_amount :: nat
  pe_close_fails :: bool
  pe_closed_after :: "nat \<Rightarrow> bool"

definition default_stun_servers :: "string list" where
  "default_stun_servers = [''stun:stun.l.google.com:19302'']"

definition stun_servers_of :: "string list \<Rightarrow> string list" where
  "stun_servers_of servers = (if servers = [] then default_stun_servers else servers)"

text \<open>\<open>NewPeerConnection\<close>: only the initiator creates the data channel, the other side waits for it.\<close>

definition setup_data_channel :: "peer \<Rightarrow> peer" where
  "setup_data_channel p = p\<lparr>pc_channel := True\<rparr>"

definition new_peer_connection :: "bool \<Rightarrow> bool \<Rightarrow> bool \<Rightarrow> peer option" where
  "new_peer_connection initiator conn_ok channel_ok =
     (let p = \<lparr>pc_conn = True, pc_channel = False, pc_closed = False, pc_on_message = None, pc_on_data = None,
               pc_on_open = None, pc_out = []\<rparr>
      in if \<not> conn_ok then None
         else if initiator then (if channel_ok then Some (setup_data_channel p) else None)
         else Some p)"

definition on_message :: "nat option \<Rightarrow> peer \<Rightarrow> peer" where
  "on_message h p = p\<lparr>pc_on_message := h\<rparr>"

definition on_data_message :: "nat option \<Rightarrow> peer \<Rightarrow> peer" where
  "on_data_message h p = p\<lparr>pc_on_data := h\<rparr>"

definition on_open :: "nat option \<Rightarrow> peer \<Rightarrow> peer" where
  "on_open h p = p\<lparr>pc_on_open := h\<rparr>"

text \<open>The handler that gets a received frame, and what it gets: the kind of the frame only for a typed handler.\<close>

datatype delivery = ToTyped nat bytes bool | ToPlain nat bytes | Undelivered

fun frame_bytes :: "frame \<Rightarrow> bytes" where
  "frame_bytes (TextFrame d) = d"
| "frame_bytes (BinFrame d) = d"

fun is_text :: "frame \<Rightarrow> bool" where
  "is_text (TextFrame d) = True"
| "is_text (BinFrame d) = False"

definition channel_message :: "frame \<Rightarrow> peer \<Rightarrow> delivery" where
  "channel_message f p =
     (case pc_on_data p of
        Some h \<Rightarrow> ToTyped h (frame_bytes f) (is_text f)
      | None \<Rightarrow> (case pc_on_message p of Some h \<Rightarrow> ToPlain h (frame_bytes f) | None \<Rightarrow> Undelivered))"

definition put_frame :: "peer_env \<Rightarrow> frame \<Rightarrow> peer \<Rightarrow> bool \<times> peer" where
  "put_frame E f p =
     (if pc_closed p \<or> \<not> pc_channel p \<or> pe_refuses E (pc_out p) f then (False, p)
      else (True, p\<lparr>pc_out := pc_out p @ [f]\<rparr>))"

definition peer_send :: "peer_env \<Rightarrow> bytes \<Rightarrow> peer \<Rightarrow> bool \<times> peer" where
  "peer_send E data p = put_frame E (BinFrame data) p"

definition peer_send_text :: "peer_env \<Rightarrow> bytes \<Rightarrow> peer \<Rightarrow> bool \<times> peer" where
  "peer_send_text E text p = put_frame E (TextFrame text) p"

text \<open>\<open>SendJSON\<close> on the marshalled value, absent when it cannot be marshalled.\<close>

definition peer_send_json :: "peer_env \<Rightarrow> bytes option \<Rightarrow> peer \<Rightarrow> bool \<times> peer" where
  "peer_send_json E j p = (case j of None \<Rightarrow> (False, p) | Some data \<Rightarrow> peer_send_text E data p)"

function send_pieces :: "peer_env \<Rightarrow> bytes \<Rightarrow> peer \<Rightarrow> bool \<times> peer" where
  "send_pieces E data p =
     (if data = [] then (True, p)
      else (case peer_send E (take chunk_size data) p of
              (False, p1) \<Rightarrow> (False, p1)
            | (True, p1) \<Rightarrow> send_pieces E (drop chunk_size data) p1))"
  by pat_completeness auto
termination
  by (relation "measure (\<lambda>(E, data, p). length data)") (auto simp: chunk_size_def)

declare send_pieces.simps [simp del]

definition send_json_binary :: "peer_env \<Rightarrow> bytes option \<Rightarrow> peer \<Rightarrow> bool \<times> peer" where
  "send_json_binary E j p = (case j of None \<Rightarrow> (False, p) | Some data \<Rightarrow> send_pieces E data p)"

definition send_delimiter :: "peer_env \<Rightarrow> peer \<Rightarrow> bool \<times> peer" where
  "send_delimiter E p = peer_send_text E ''0'' p"

definition buffered_amount :: "peer_env \<Rightarrow> peer \<Rightarrow> nat" where
  "buffered_amount E p = (if pc_channel p then pe_amount E else 0)"

text \<open>\<open>Close\<close>: the error of the library, and how often it waited for the state to become closed.\<close>

definition close_wait_iterations :: nat where
  "close_wait_iterations = 20"

fun close_wait :: "nat \<Rightarrow> (nat \<Rightarrow> bool) \<Rightarrow> nat \<Rightarrow> nat" where
  "close_wait 0 closed_after n = n"
| "close_wait (Suc k) closed_after n = (if closed_after n then n else close_wait k closed_after (Suc n))"

definition peer_close :: "peer_env \<Rightarrow> peer \<Rightarrow> bool \<times> nat \<times> peer" where
  "peer_close E p =
     (let p1 = p\<lparr>pc_closed := True\<rparr>
      in if \<not> pc_conn p1 then (True, 0, p1)
         else
           let p2 = p1\<lparr>pc_channel := False\<rparr>
           in if pe_close_fails E then (False, 0, p2)
              else (True, close_wait close_wait_iterations (pe_closed_after E) 0, p2))"

subsection \<open>A chunked message and its receiver\<close>

text \<open>The frames of a message reach the state machine of the other side one by one.\<close>

fun hear :: "snd_env \<Rightarrow> frame list \<Rightarrow> rtc_sender \<Rightarrow> rtc_sender option" where
  "hear E [] s = Some s"
| "hear E (f # fs) s =
     (case snd_data_message E (frame_bytes f) (is_text f) s of None \<Rightarrow> None | Some s' \<Rightarrow> hear E fs s')"

lemma hear_append: "hear E (fs @ gs) s = (case hear E fs s of None \<Rightarrow> None | Some s' \<Rightarrow> hear E gs s')"
  by (induction fs arbitrary: s) (auto split: option.splits)

lemma send_pieces_frames:
  "send_pieces E data p = (True, p') \<Longrightarrow>
     \<exists>fs. pc_out p' = pc_out p @ map BinFrame fs \<and> concat fs = data \<and> (\<forall>f \<in> set fs. f \<noteq> [] \<and> length f \<le> chunk_size) \<and>
          pc_closed p' = pc_closed p \<and> pc_channel p' = pc_channel p"
proof (induction E data p arbitrary: p' rule: send_pieces.induct)
  case (1 E data p)
  show ?case
  proof (cases "data = []")
    case True
    with "1.prems" show ?thesis by (intro exI [of _ "[]"]) (simp add: send_pieces.simps)
  next
    case False
    with "1.prems" obtain p1 where s: "peer_send E (take chunk_size data) p = (True, p1)"
      and r: "send_pieces E (drop chunk_size data) p1 = (True, p')"
      by (subst (asm) send_pieces.simps) (auto split: prod.splits bool.splits)
    from "1.IH" [OF False s [symmetric] refl r] obtain fs where
      fs: "pc_out p' = pc_out p1 @ map BinFrame fs" "concat fs = drop chunk_size data"
        "\<forall>f \<in> set fs. f \<noteq> [] \<and> length f \<le> chunk_size" "pc_closed p' = pc_closed p1" "pc_channel p' = pc_channel p1"
      by blast
    have p1: "p1 = p\<lparr>pc_out := pc_out p @ [BinFrame (take chunk_size data)]\<rparr>"
      using s by (auto simp: peer_send_def put_frame_def split: if_splits)
    have c: "take chunk_size data \<noteq> []" using False by (simp add: chunk_size_def)
    show ?thesis
      by (intro exI [of _ "take chunk_size data # fs"]) (use fs c in \<open>simp add: p1\<close>)
  qed
qed

lemma hear_pieces:
  assumes "length (ss_control s) + length (concat fs) \<le> max_control_message_bytes"
  shows "hear E (map BinFrame fs) s = Some (s\<lparr>ss_control := ss_control s @ concat fs\<rparr>)"
  using assms
proof (induction fs arbitrary: s)
  case Nil
  then show ?case by simp
next
  case (Cons f fs)
  have "hear E (map BinFrame (f # fs)) s = hear E (map BinFrame fs) (s\<lparr>ss_control := ss_control s @ f\<rparr>)"
    using Cons.prems by (simp add: snd_data_message_def)
  also have "\<dots> = Some (s\<lparr>ss_control := ss_control s @ concat (f # fs)\<rparr>)"
    using Cons.IH [of "s\<lparr>ss_control := ss_control s @ f\<rparr>"] Cons.prems by simp
  finally show ?case .
qed

text \<open>
  C37: A control message sent with \<open>SendJSONBinary\<close> and its delimiter, both without an error, is handled by the sender's
  state machine at the other end exactly as the whole message, however it was cut into frames, when nothing was pending
  there and the message is not empty and within the limit of control messages; no frame is longer than 16 KiB.
\<close>

theorem chunked_message_arrives_whole:
  assumes "send_json_binary E (Some data) p = (True, p1)" "send_delimiter E p1 = (True, p2)"
    and "data \<noteq> []" "length data \<le> max_control_message_bytes" "ss_control s = []"
  shows "\<exists>fs. pc_out p2 = pc_out p @ fs \<and> (\<forall>f \<in> set fs. length (frame_bytes f) \<le> 16384) \<and>
     hear D fs s = snd_dispatch D data s"
proof -
  from assms(1) have "send_pieces E data p = (True, p1)" by (simp add: send_json_binary_def)
  from send_pieces_frames [OF this] obtain fs where
    fs: "pc_out p1 = pc_out p @ map BinFrame fs" "concat fs = data" "\<forall>f \<in> set fs. f \<noteq> [] \<and> length f \<le> chunk_size"
    by blast
  have out: "pc_out p2 = pc_out p1 @ [TextFrame ''0'']"
    using assms(2) by (auto simp: send_delimiter_def peer_send_text_def put_frame_def split: if_splits)
  have "hear D (map BinFrame fs) s = Some (s\<lparr>ss_control := data\<rparr>)"
    using hear_pieces [of s fs D] assms(4,5) by (simp add: fs(2))
  moreover have "s\<lparr>ss_control := []\<rparr> = s" using assms(5) by simp
  ultimately have "hear D (map BinFrame fs @ [TextFrame ''0'']) s = snd_dispatch D data s"
    using assms(3) by (simp add: hear_append snd_data_message_def split: option.split)
  then show ?thesis
    by (intro exI [of _ "map BinFrame fs @ [TextFrame ''0'']"]) (use fs out in \<open>auto simp: chunk_size_def\<close>)
qed

definition demo_peer_env :: peer_env where
  "demo_peer_env = \<lparr>pe_refuses = (\<lambda>fs f. False), pe_amount = 0, pe_close_fails = False, pe_closed_after = (\<lambda>n. True)\<rparr>"

definition demo_channel :: peer where
  "demo_channel = the (new_peer_connection True True True)"

lemma demo_channel_simps [simp]: "pc_channel demo_channel" "\<not> pc_closed demo_channel" "pc_out demo_channel = []"
  by (simp_all add: demo_channel_def new_peer_connection_def setup_data_channel_def)

theorem chunked_message_arrives_whole_witness:
  "\<exists>p1 p2. send_json_binary demo_peer_env (Some ''{}'') demo_channel = (True, p1) \<and>
     send_delimiter demo_peer_env p1 = (True, p2) \<and>
     (\<forall>D. hear D (pc_out p2) (new_rtc_sender [] (\<lambda>p. None)) = snd_dispatch D ''{}'' (new_rtc_sender [] (\<lambda>p. None)))"
proof -
  let ?s = "new_rtc_sender [] (\<lambda>p. None)"
  obtain p1 where p1: "send_json_binary demo_peer_env (Some ''{}'') demo_channel = (True, p1)"
      "pc_channel p1" "\<not> pc_closed p1"
    by (simp add: send_json_binary_def send_pieces.simps peer_send_def put_frame_def demo_peer_env_def chunk_size_def)
  obtain p2 where p2: "send_delimiter demo_peer_env p1 = (True, p2)"
    using p1 by (simp add: send_delimiter_def peer_send_text_def put_frame_def demo_peer_env_def)
  have s: "ss_control ?s = []" by (simp add: new_rtc_sender_def)
  have "hear D (pc_out p2) ?s = snd_dispatch D ''{}'' ?s" for D
    using chunked_message_arrives_whole [OF p1(1) p2 _ _ s, of D] by (auto simp: max_control_message_bytes_def)
  with p1(1) p2 show ?thesis by blast
qed

subsection \<open>Flow control\<close>

text \<open>
  \<open>WaitBufferBelowWithTimeout\<close> (and its variants with a context or only a timer) runs concurrently with the library,
  which drains the buffer and calls back when its amount falls from above the threshold to the threshold or below. The
  callback fills the channel \<open>bufferedAmountLow\<close> of capacity one unless it is full. The points of the waiting function
  are those between which the amount can change. \<open>FlFrame\<close> is the data frame that \<open>sendFrames\<close> sends after a wait,
  \<open>FlControl\<close> any other frame; \<open>fl_extra\<close> adds up the latter and is not read.
\<close>

datatype flow_result = FlowBelow | FlowClosed | FlowTimeout

datatype flow_point =
    FpIdle
  | FpArm nat
  | FpRecheck nat
  | FpBlocked nat
  | FpWoken nat
  | FpDone nat flow_result

record flow =
  fl_amount :: nat
  fl_threshold :: nat
  fl_low :: bool
  fl_pending :: nat
  fl_closed :: bool
  fl_point :: flow_point
  fl_extra :: nat

definition new_flow :: flow where
  "new_flow = \<lparr>fl_amount = 0, fl_threshold = 0, fl_low = False, fl_pending = 0, fl_closed = False, fl_point = FpIdle, fl_extra = 0\<rparr>"

datatype flow_event =
    FlWait nat | FlArm | FlRecheck | FlLow | FlWoken | FlSeeClosed | FlSeeTimeout
  | FlFrame nat | FlGiveUp | FlControl nat | FlDrain nat | FlCallback | FlClose

text \<open>What the waiting function does at each of its points.\<close>

definition check_amount :: "nat \<Rightarrow> flow_point \<Rightarrow> flow \<Rightarrow> flow" where
  "check_amount limit otherwise s =
     s\<lparr>fl_point := if fl_amount s \<le> limit then FpDone limit FlowBelow else otherwise\<rparr>"

fun wait_step :: "flow_event \<Rightarrow> flow \<Rightarrow> flow option" where
  "wait_step (FlWait limit) s = (case fl_point s of FpIdle \<Rightarrow> Some (check_amount limit (FpArm limit) s) | _ \<Rightarrow> None)"
| "wait_step FlArm s =
     (case fl_point s of FpArm limit \<Rightarrow> Some (s\<lparr>fl_threshold := limit, fl_point := FpRecheck limit\<rparr>) | _ \<Rightarrow> None)"
| "wait_step FlRecheck s =
     (case fl_point s of FpRecheck limit \<Rightarrow> Some (check_amount limit (FpBlocked limit) s) | _ \<Rightarrow> None)"
| "wait_step FlLow s =
     (case fl_point s of
        FpBlocked limit \<Rightarrow> if fl_low s then Some (s\<lparr>fl_low := False, fl_point := FpWoken limit\<rparr>) else None
      | _ \<Rightarrow> None)"
| "wait_step FlWoken s =
     (case fl_point s of FpWoken limit \<Rightarrow> Some (check_amount limit (FpBlocked limit) s) | _ \<Rightarrow> None)"
| "wait_step FlSeeClosed s =
     (case fl_point s of
        FpBlocked limit \<Rightarrow> if fl_closed s then Some (s\<lparr>fl_point := FpDone limit FlowClosed\<rparr>) else None
      | _ \<Rightarrow> None)"
| "wait_step FlSeeTimeout s =
     (case fl_point s of FpBlocked limit \<Rightarrow> Some (s\<lparr>fl_point := FpDone limit FlowTimeout\<rparr>) | _ \<Rightarrow> None)"
| "wait_step _ s = None"

text \<open>
  \<open>WaitBufferEmpty\<close>, which polls: what its ticks find, the amount at each, until the context or the connection ends.
  \<^const>\<open>None\<close> while it still waits.
\<close>

datatype poll_event = PollTick nat | PollClosed | PollCancelled

fun wait_buffer_empty :: "poll_event list \<Rightarrow> flow_result option" where
  "wait_buffer_empty [] = None"
| "wait_buffer_empty (PollCancelled # es) = Some FlowTimeout"
| "wait_buffer_empty (PollClosed # es) = Some FlowClosed"
| "wait_buffer_empty (PollTick amount # es) = (if amount = 0 then Some FlowBelow else wait_buffer_empty es)"

lemma wait_buffer_empty_drained:
  "wait_buffer_empty es = Some FlowBelow \<longleftrightarrow>
     (\<exists>ticks rest. es = map PollTick ticks @ PollTick 0 # rest \<and> (\<forall>n \<in> set ticks. 0 < n))"
proof (induction es rule: wait_buffer_empty.induct)
  case (4 amount es)
  show ?case
  proof
    assume e: "wait_buffer_empty (PollTick amount # es) = Some FlowBelow"
    show "\<exists>ticks rest. PollTick amount # es = map PollTick ticks @ PollTick 0 # rest \<and> (\<forall>n \<in> set ticks. 0 < n)"
    proof (cases "amount = 0")
      case True
      then show ?thesis by (intro exI [of _ "[]"] exI [of _ es]) simp
    next
      case False
      with e 4 obtain ticks rest where "es = map PollTick ticks @ PollTick 0 # rest" "\<forall>n \<in> set ticks. 0 < n" by auto
      with False show ?thesis by (intro exI [of _ "amount # ticks"] exI [of _ rest]) simp
    qed
  next
    assume "\<exists>ticks rest. PollTick amount # es = map PollTick ticks @ PollTick 0 # rest \<and> (\<forall>n \<in> set ticks. 0 < n)"
    then obtain ticks rest where t: "PollTick amount # es = map PollTick ticks @ PollTick 0 # rest" "\<forall>n \<in> set ticks. 0 < n"
      by blast
    show "wait_buffer_empty (PollTick amount # es) = Some FlowBelow"
    proof (cases ticks)
      case Nil
      with t show ?thesis by simp
    next
      case (Cons n ns)
      with t have "amount \<noteq> 0" "es = map PollTick ns @ PollTick 0 # rest" "\<forall>n \<in> set ns. 0 < n" by auto
      with 4 show ?thesis by auto
    qed
  qed
qed (auto simp: Cons_eq_append_conv)

text \<open>The steps of the library and of the callers.\<close>

fun flow_step :: "flow_event \<Rightarrow> flow \<Rightarrow> flow option" where
  "flow_step (FlFrame n) s =
     (case fl_point s of
        FpDone limit FlowBelow \<Rightarrow> if n \<le> chunk_size then Some (s\<lparr>fl_amount := fl_amount s + n, fl_point := FpIdle\<rparr>) else None
      | _ \<Rightarrow> None)"
| "flow_step FlGiveUp s = (case fl_point s of FpDone limit r \<Rightarrow> Some (s\<lparr>fl_point := FpIdle\<rparr>) | _ \<Rightarrow> None)"
| "flow_step (FlControl n) s = Some (s\<lparr>fl_amount := fl_amount s + n, fl_extra := fl_extra s + n\<rparr>)"
| "flow_step (FlDrain n) s =
     (if n \<le> fl_amount s
      then Some (s\<lparr>fl_amount := fl_amount s - n,
                   fl_pending := fl_pending s +
                     (if fl_threshold s < fl_amount s \<and> fl_amount s - n \<le> fl_threshold s then 1 else 0)\<rparr>)
      else None)"
| "flow_step FlCallback s =
     (if 0 < fl_pending s then Some (s\<lparr>fl_pending := fl_pending s - 1, fl_low := True\<rparr>) else None)"
| "flow_step FlClose s = Some (s\<lparr>fl_closed := True\<rparr>)"
| "flow_step e s = wait_step e s"

fun flow_run :: "flow_event list \<Rightarrow> flow \<Rightarrow> flow option" where
  "flow_run [] s = Some s"
| "flow_run (e # es) s = (case flow_step e s of None \<Rightarrow> None | Some s' \<Rightarrow> flow_run es s')"

text \<open>A blocked wait that could return has a wake-up waiting for it or under way.\<close>

definition flow_inv :: "nat \<Rightarrow> flow \<Rightarrow> bool" where
  "flow_inv M s \<longleftrightarrow>
     fl_amount s \<le> M + chunk_size + fl_extra s \<and>
     (case fl_point s of
        FpIdle \<Rightarrow> True
      | FpArm l \<Rightarrow> True
      | FpRecheck l \<Rightarrow> fl_threshold s = l
      | FpBlocked l \<Rightarrow> fl_threshold s = l \<and> (fl_amount s \<le> l \<longrightarrow> fl_low s \<or> 0 < fl_pending s)
      | FpWoken l \<Rightarrow> fl_threshold s = l
      | FpDone l r \<Rightarrow> r = FlowBelow \<longrightarrow> fl_amount s \<le> l + fl_extra s) \<and>
     (case fl_point s of
        FpIdle \<Rightarrow> True | FpArm l \<Rightarrow> l \<le> M | FpRecheck l \<Rightarrow> l \<le> M | FpBlocked l \<Rightarrow> l \<le> M | FpWoken l \<Rightarrow> l \<le> M
      | FpDone l r \<Rightarrow> l \<le> M)"

lemma check_inv:
  "flow_inv M s \<Longrightarrow> l \<le> M \<Longrightarrow> p = FpArm l \<or> p = FpBlocked l \<and> fl_threshold s = l \<Longrightarrow> flow_inv M (check_amount l p s)"
  by (auto simp: flow_inv_def check_amount_def)

lemma wait_step_inv:
  assumes "wait_step e s = Some s'" "flow_inv M s" "\<And>l. e = FlWait l \<Longrightarrow> l \<le> M"
  shows "flow_inv M s'"
proof (cases e)
  case (FlWait l)
  with assms show ?thesis by (cases "fl_point s") (auto intro: check_inv)
next
  case FlRecheck
  with assms(1,2) show ?thesis by (cases "fl_point s") (auto simp: flow_inv_def check_amount_def)
next
  case FlWoken
  with assms(1,2) show ?thesis by (cases "fl_point s") (auto simp: flow_inv_def check_amount_def)
qed (use assms(1,2) in \<open>cases "fl_point s"; auto simp: flow_inv_def split: if_splits\<close>)+

lemma flow_step_inv:
  assumes "flow_step e s = Some s'" "flow_inv M s" "\<And>l. e = FlWait l \<Longrightarrow> l \<le> M"
  shows "flow_inv M s'"
proof (cases e)
  case (FlFrame n)
  with assms show ?thesis
    by (cases "fl_point s") (auto simp: flow_inv_def chunk_size_def split: flow_result.splits if_splits)
next
  case (FlDrain n)
  with assms(1,2) show ?thesis by (cases "fl_point s") (auto simp: flow_inv_def split: if_splits)
next
  case (FlControl n)
  with assms(1,2) show ?thesis by (cases "fl_point s") (auto simp: flow_inv_def)
next
  case FlGiveUp
  with assms(1,2) show ?thesis by (cases "fl_point s") (auto simp: flow_inv_def)
next
  case FlCallback
  with assms(1,2) show ?thesis by (cases "fl_point s") (auto simp: flow_inv_def split: if_splits)
next
  case FlClose
  with assms(1,2) show ?thesis by (cases "fl_point s") (auto simp: flow_inv_def)
qed (use assms(1,3) wait_step_inv [OF _ assms(2), of e s'] in simp_all)

lemma flow_run_inv:
  "flow_run es s = Some s' \<Longrightarrow> flow_inv M s \<Longrightarrow> (\<And>l. FlWait l \<in> set es \<Longrightarrow> l \<le> M) \<Longrightarrow> flow_inv M s'"
proof (induction es arbitrary: s)
  case Nil
  then show ?case by simp
next
  case (Cons e es)
  from Cons.prems(1) obtain s1 where s: "flow_step e s = Some s1" and r: "flow_run es s1 = Some s'"
    by (auto split: option.splits)
  from flow_step_inv [OF s Cons.prems(2)] Cons.prems(3) have "flow_inv M s1" by auto
  from Cons.IH [OF r this] Cons.prems(3) show ?case by auto
qed

lemma new_flow_inv: "flow_inv M new_flow"
  by (simp add: flow_inv_def new_flow_def)

text \<open>
  C36: The send buffer holds at most one megabyte, one frame of 16 KiB and the control frames that were sent, whatever
  the peer does and however draining, callbacks and waits interleave, as long as data frames are only sent after a wait
  for one megabyte that succeeded.
\<close>

theorem send_buffer_bounded:
  assumes "flow_run es new_flow = Some s" "\<forall>l. FlWait l \<in> set es \<longrightarrow> l \<le> 1048576"
  shows "fl_amount s \<le> 1048576 + 16384 + fl_extra s"
  using flow_run_inv [OF assms(1) new_flow_inv, of 1048576] assms(2)
  by (auto simp: flow_inv_def chunk_size_def)

theorem send_buffer_bounded_witness:
  "\<exists>s. flow_run [FlWait 1048576, FlFrame 16384, FlControl 5] new_flow = Some s \<and> fl_amount s \<le> 1048576 + 16384 + 5"
proof -
  obtain s where s: "flow_run [FlWait 1048576, FlFrame 16384, FlControl 5] new_flow = Some s" "fl_extra s = 5"
    by (simp add: new_flow_def check_amount_def chunk_size_def)
  from send_buffer_bounded [OF s(1)] s show ?thesis by auto
qed

text \<open>
  C16: No wake-up is lost: whenever a sender is blocked although the buffer has drained to its limit, it gets to its
  regular end without its timeout, by the pending callback at most, its receipt from the channel and its check.
\<close>

theorem drained_buffer_wakes_sender:
  assumes "flow_run es new_flow = Some s" "fl_point s = FpBlocked l" "fl_amount s \<le> l"
  shows "\<exists>fs s'. set fs \<subseteq> {FlCallback, FlLow, FlWoken} \<and> length fs \<le> 3 \<and> flow_run fs s = Some s' \<and>
     fl_point s' = FpDone l FlowBelow"
proof -
  have "flow_inv (Max (insert 0 {l. FlWait l \<in> set es})) s"
  proof (rule flow_run_inv [OF assms(1) new_flow_inv])
    fix l assume "FlWait l \<in> set es"
    moreover have "finite {l. FlWait l \<in> set es}"
      by (rule finite_imageD [where f = FlWait]) (auto intro: finite_subset [OF _ finite_set] inj_onI)
    ultimately show "l \<le> Max (insert 0 {l. FlWait l \<in> set es})" by simp
  qed
  with assms(2,3) consider "fl_low s" | "0 < fl_pending s" by (auto simp: flow_inv_def)
  then show ?thesis
  proof cases
    case 1
    with assms(2,3) show ?thesis by (intro exI [of _ "[FlLow, FlWoken]"]) (simp add: check_amount_def)
  next
    case 2
    with assms(2,3) show ?thesis by (intro exI [of _ "[FlCallback, FlLow, FlWoken]"]) (simp add: check_amount_def)
  qed
qed

theorem drained_buffer_wakes_sender_witness:
  "\<exists>s fs s'. flow_run [FlControl 9, FlWait 5, FlArm, FlRecheck, FlDrain 4] new_flow = Some s \<and>
     length fs \<le> 3 \<and> flow_run fs s = Some s' \<and> fl_point s' = FpDone 5 FlowBelow"
proof -
  obtain s where s: "flow_run [FlControl 9, FlWait 5, FlArm, FlRecheck, FlDrain 4] new_flow = Some s"
      "fl_point s = FpBlocked 5" "fl_amount s \<le> 5"
    by (simp add: new_flow_def check_amount_def)
  from drained_buffer_wakes_sender [OF s] s(1) show ?thesis by blast
qed

end
