(* ===== verification/Signaling.thy ===== *)
theory Signaling
  imports Models Token
begin

text \<open>
  The signaling client of \<open>internal/webrtc/signaling\<close>: its messages (\<open>messages.go\<close>), the compression of session
  descriptions (\<open>sdp.go\<close>), and the state of a connection (\<open>client.go\<close>): the peers, the channels between the
  read loop, the write loop and their users, and the callbacks for answers. The web socket, the JSON codec and zlib
  are parameters; an id is the text of its UUID. A send to a full channel blocks: the operation is then \<^const>\<open>None\<close>.
\<close>

subsection \<open>Messages\<close>

record client_base =
  cb_alias :: string
  cb_version :: string
  cb_model :: string
  cb_type :: string
  cb_token :: string

record client_info = client_base +
  ci_id :: string

record server_message =
  sm_type :: string
  sm_client :: "client_info option"
  sm_peers :: "client_info list option"
  sm_peer :: "client_info option"
  sm_peer_id :: "string option"
  sm_session :: string
  sm_sdp :: string
  sm_code :: int

record client_message =
  cm_type :: string
  cm_info :: "client_base option"
  cm_session :: string
  cm_target :: "string option"
  cm_sdp :: string

definition new_client_info :: "string \<Rightarrow> string \<Rightarrow> client_base" where
  "new_client_info alias token =
     \<lparr>cb_alias = alias, cb_version = ''2.3'', cb_model = ''LocalSend-CLI'', cb_type = ''HEADLESS'', cb_token = token\<rparr>"

definition to_announcement :: "client_info \<Rightarrow> announcement" where
  "to_announcement c =
     \<lparr>dv_ip = [], dv_alias = cb_alias c, dv_version = cb_version c, dv_model = cb_model c, dv_type = cb_type c,
      dv_fingerprint = cb_token c, dv_token = [], dv_download = False, dv_web = False,
      an_protocol = ''webrtc'', an_port = 0, an_announce = False\<rparr>"

definition new_update_message :: "client_base \<Rightarrow> client_message" where
  "new_update_message info = \<lparr>cm_type = ''UPDATE'', cm_info = Some info, cm_session = [], cm_target = None, cm_sdp = []\<rparr>"

definition new_offer_message :: "string \<Rightarrow> string \<Rightarrow> string \<Rightarrow> client_message" where
  "new_offer_message sid peer sdp = \<lparr>cm_type = ''OFFER'', cm_info = None, cm_session = sid, cm_target = Some peer, cm_sdp = sdp\<rparr>"

definition new_answer_message :: "string \<Rightarrow> string \<Rightarrow> string \<Rightarrow> client_message" where
  "new_answer_message sid peer sdp = \<lparr>cm_type = ''ANSWER'', cm_info = None, cm_session = sid, cm_target = Some peer, cm_sdp = sdp\<rparr>"

subsection \<open>Session descriptions\<close>

definition max_decompressed_sdp :: nat where
  "max_decompressed_sdp = 524288"

text \<open>\<open>deflate\<close> is the zlib writer; \<open>inflate\<close> the reader: what it gives before its end, and whether that is an error.\<close>

definition compress_sdp :: "(bytes \<Rightarrow> bytes) \<Rightarrow> string \<Rightarrow> string" where
  "compress_sdp deflate sdp = b64_encode (deflate sdp)"

definition decompress_sdp :: "(bytes \<Rightarrow> (bytes \<times> bool) option) \<Rightarrow> string \<Rightarrow> string option" where
  "decompress_sdp inflate text =
     (case b64_decode text of
        None \<Rightarrow> None
      | Some data \<Rightarrow>
          (case inflate data of
             None \<Rightarrow> None
           | Some (out, err) \<Rightarrow>
               let result = take (max_decompressed_sdp + 1) out
               in if err \<and> length out < max_decompressed_sdp + 1 then None
                  else if max_decompressed_sdp < length result then None
                  else Some result))"

subsection \<open>The client\<close>

definition max_peers :: nat where
  "max_peers = 500"

definition answer_callback_ttl :: duration where
  "answer_callback_ttl = 60 * second"

definition msg_capacity :: nat where
  "msg_capacity = 16"

definition offer_capacity :: nat where
  "offer_capacity = 32"

definition send_capacity :: nat where
  "send_capacity = 16"

text \<open>
  A callback, like a token generator, is a number that stands for it. \<open>sg_refreshers\<close> counts the refresh loops
  started and \<open>sg_called\<close> records the calls of callbacks; neither is read by the code. \<open>sg_reading\<close> holds until \<open>readLoop\<close>
  returns, which closes the channels of offers and notices: what is in them can still be taken.
\<close>

record signaling_client =
  sg_base :: client_base
  sg_generator :: "nat option"
  sg_refresh_started :: bool
  sg_refreshers :: nat
  sg_client :: "client_info option"
  sg_peers :: "(string, client_info) gomap"
  sg_msgs :: "server_message list"
  sg_offers :: "server_message list"
  sg_subscribed :: bool
  sg_send :: "client_message list"
  sg_done :: bool
  sg_reading :: bool
  sg_answers :: "(string, nat \<times> time) gomap"
  sg_called :: "(nat \<times> server_message) list"

definition new_signaling_client :: "client_base \<Rightarrow> signaling_client" where
  "new_signaling_client info =
     \<lparr>sg_base = info\<lparr>cb_token := []\<rparr>, sg_generator = None, sg_refresh_started = False, sg_refreshers = 0, sg_client = None, sg_peers = [], sg_msgs = [], sg_offers = [], sg_subscribed = False, sg_send = [],
      sg_done = False, sg_reading = True, sg_answers = [], sg_called = []\<rparr>"

definition put_peers :: "client_info list \<Rightarrow> (string, client_info) gomap \<Rightarrow> (string, client_info) gomap" where
  "put_peers ps m = fold (\<lambda>p. AList.update (ci_id p) p) ps m"

text \<open>\<open>waitForHello\<close> on the parsed first message, absent when nothing could be read or parsed.\<close>

definition wait_for_hello :: "server_message option \<Rightarrow> signaling_client \<Rightarrow> bool \<times> signaling_client" where
  "wait_for_hello first c =
     (case first of
        None \<Rightarrow> (False, c)
      | Some msg \<Rightarrow>
          if sm_type msg \<noteq> ''HELLO'' then (False, c)
          else
            (case sm_client msg of
               None \<Rightarrow> (False, c)
             | Some me \<Rightarrow>
                 let c1 = c\<lparr>sg_client := Some me\<rparr>
                 in (case sm_peers msg of
                       None \<Rightarrow> (True, c1)
                     | Some ps \<Rightarrow> (True, c1\<lparr>sg_peers := put_peers (take max_peers ps) (sg_peers c1)\<rparr>))))"

text \<open>\<open>ConnectWithContext\<close> once the socket is open: the client of a connection that said hello.\<close>

definition connect_signaling :: "client_base \<Rightarrow> server_message option \<Rightarrow> signaling_client option" where
  "connect_signaling info first =
     (let (ok, c) = wait_for_hello first (new_signaling_client info) in if ok then Some c else None)"

definition handle_peer_update :: "server_message \<Rightarrow> signaling_client \<Rightarrow> signaling_client" where
  "handle_peer_update msg c =
     (if sm_type msg = ''JOIN'' then
        (case sm_peer msg of
           None \<Rightarrow> c
         | Some p \<Rightarrow>
             if max_peers \<le> length (sg_peers c) then c
             else c\<lparr>sg_peers := AList.update (ci_id p) p (sg_peers c)\<rparr>)
      else if sm_type msg = ''UPDATE'' then
        (case sm_peer msg of
           None \<Rightarrow> c
         | Some p \<Rightarrow>
             if map_of (sg_peers c) (ci_id p) = None then c
             else c\<lparr>sg_peers := AList.update (ci_id p) p (sg_peers c)\<rparr>)
      else if sm_type msg = ''LEFT'' then
        (case sm_peer_id msg of None \<Rightarrow> c | Some i \<Rightarrow> c\<lparr>sg_peers := AList.delete i (sg_peers c)\<rparr>)
      else c)"

text \<open>
  One message in \<open>readLoop\<close>. An offer for a subscriber is sent in a \<open>select\<close> against \<open>done\<close>: \<open>stop\<close> tells that the
  \<open>select\<close> takes \<open>done\<close>, which it can once the connection is closed, even when there is room; then the offer is gone and
  the loop returns. \<^const>\<open>None\<close> while the chosen case is not ready.
\<close>

definition read_message :: "bool \<Rightarrow> server_message \<Rightarrow> signaling_client \<Rightarrow> signaling_client option" where
  "read_message stop msg c =
     (let c1 = handle_peer_update msg c
      in case (if sm_type msg = ''ANSWER'' \<and> sm_session msg \<noteq> [] then map_of (sg_answers c1) (sm_session msg) else None) of
           Some (cb, t) \<Rightarrow>
             Some (c1\<lparr>sg_answers := AList.delete (sm_session msg) (sg_answers c1), sg_called := sg_called c1 @ [(cb, msg)]\<rparr>)
         | None \<Rightarrow>
             if sm_type msg = ''OFFER'' then
               (if sg_subscribed c1 \<and> stop then (if sg_done c1 then Some (c1\<lparr>sg_reading := False\<rparr>) else None)
                else if length (sg_offers c1) < offer_capacity then Some (c1\<lparr>sg_offers := sg_offers c1 @ [msg]\<rparr>)
                else if sg_subscribed c1 then None
                else Some c1)
             else if length (sg_msgs c1) < msg_capacity then Some (c1\<lparr>sg_msgs := sg_msgs c1 @ [msg]\<rparr>)
             else Some c1)"

definition subscribe_offers :: "signaling_client \<Rightarrow> signaling_client" where
  "subscribe_offers c = c\<lparr>sg_subscribed := True\<rparr>"

definition on_answer :: "string \<Rightarrow> nat \<Rightarrow> time \<Rightarrow> signaling_client \<Rightarrow> signaling_client" where
  "on_answer sid cb now c = c\<lparr>sg_answers := AList.update sid (cb, now) (sg_answers c)\<rparr>"

definition cleanup_answers :: "time \<Rightarrow> signaling_client \<Rightarrow> signaling_client" where
  "cleanup_answers now c =
     c\<lparr>sg_answers := gm_keep (\<lambda>sid (cb, t). \<not> answer_callback_ttl < time_sub now t) (sg_answers c)\<rparr>"

definition close_signaling :: "signaling_client \<Rightarrow> signaling_client" where
  "close_signaling c = (if sg_done c then c else c\<lparr>sg_done := True, sg_answers := []\<rparr>)"

text \<open>A read from the socket that fails ends \<open>readLoop\<close> and closes the connection.\<close>

definition read_failed :: "signaling_client \<Rightarrow> signaling_client" where
  "read_failed c = (close_signaling c)\<lparr>sg_reading := False\<rparr>"

text \<open>\<open>enqueue\<close>: whether the message was queued; \<^const>\<open>None\<close> while the channel is full and the connection open.\<close>

definition enqueue_message :: "client_message \<Rightarrow> signaling_client \<Rightarrow> (bool \<times> signaling_client) option" where
  "enqueue_message msg c =
     (if sg_done c then Some (False, c)
      else if length (sg_send c) < send_capacity then Some (True, c\<lparr>sg_send := sg_send c @ [msg]\<rparr>)
      else None)"

definition send_offer :: "(bytes \<Rightarrow> bytes) \<Rightarrow> string \<Rightarrow> string \<Rightarrow> string \<Rightarrow> signaling_client \<Rightarrow> (bool \<times> signaling_client) option" where
  "send_offer deflate sid peer sdp c = enqueue_message (new_offer_message sid peer (compress_sdp deflate sdp)) c"

definition send_answer :: "(bytes \<Rightarrow> bytes) \<Rightarrow> string \<Rightarrow> string \<Rightarrow> string \<Rightarrow> signaling_client \<Rightarrow> (bool \<times> signaling_client) option" where
  "send_answer deflate sid peer sdp c = enqueue_message (new_answer_message sid peer (compress_sdp deflate sdp)) c"

definition send_update :: "client_base \<Rightarrow> signaling_client \<Rightarrow> (bool \<times> signaling_client) option" where
  "send_update info c = enqueue_message (new_update_message info) c"

definition set_token_generator :: "nat option \<Rightarrow> signaling_client \<Rightarrow> signaling_client" where
  "set_token_generator gen c =
     (case gen of
        None \<Rightarrow> c
      | Some g \<Rightarrow>
          let c1 = c\<lparr>sg_generator := Some g\<rparr>
          in if sg_refresh_started c1 then c1 else c1\<lparr>sg_refresh_started := True, sg_refreshers := sg_refreshers c1 + 1\<rparr>)"

definition get_peers :: "signaling_client \<Rightarrow> client_info list" where
  "get_peers c = map snd (sg_peers c)"

definition get_peer :: "string \<Rightarrow> signaling_client \<Rightarrow> client_info option" where
  "get_peer i c = map_of (sg_peers c) i"

text \<open>One tick of \<open>tokenRefreshLoop\<close>; \<open>gen\<close> gives what a generator returns.\<close>

definition refresh_token :: "(nat \<Rightarrow> string option) \<Rightarrow> signaling_client \<Rightarrow> signaling_client option" where
  "refresh_token gen c =
     (case sg_generator c of
        None \<Rightarrow> Some c
      | Some g \<Rightarrow>
          (case gen g of
             None \<Rightarrow> Some c
           | Some t \<Rightarrow> map_option snd (send_update ((sg_base c)\<lparr>cb_token := t\<rparr>) c)))"

text \<open>A tick of \<open>pingLoop\<close>: the message of empty type stands for a ping.\<close>

definition ping_message :: client_message where
  "ping_message = \<lparr>cm_type = [], cm_info = None, cm_session = [], cm_target = None, cm_sdp = []\<rparr>"

definition ping_tick :: "signaling_client \<Rightarrow> signaling_client option" where
  "ping_tick c = map_option snd (enqueue_message ping_message c)"

text \<open>One turn of \<open>writeLoop\<close>: a message of empty type asks for a ping. \<open>ok\<close> tells whether the socket takes it.\<close>

datatype wire_write = WritePing | WriteJson client_message

definition write_message :: "bool \<Rightarrow> signaling_client \<Rightarrow> (wire_write \<times> signaling_client) option" where
  "write_message ok c =
     (case sg_send c of
        [] \<Rightarrow> None
      | m # ms \<Rightarrow>
          let c1 = c\<lparr>sg_send := ms\<rparr>
          in Some (if cm_type m = [] then WritePing else WriteJson m, if ok then c1 else close_signaling c1))"

subsection \<open>Runs\<close>

text \<open>
  What happens on a connection: its loops and its users take turns, in any order. \<open>SigTake\<close> and \<open>SigDrain\<close> are
  the users' receipts of the given message from the two channels.
\<close>

datatype sig_event =
    SigRead bool server_message
  | SigReadFails
  | SigTake server_message
  | SigDrain server_message
  | SigSubscribe
  | SigRegister string nat time
  | SigCleanup time
  | SigSend client_message
  | SigGenerator "nat option"
  | SigRefresh "nat \<Rightarrow> string option"
  | SigPing
  | SigWrite bool
  | SigClose

fun sig_step :: "sig_event \<Rightarrow> signaling_client \<Rightarrow> signaling_client option" where
  "sig_step (SigRead stop msg) c = (if sg_reading c then read_message stop msg c else None)"
| "sig_step SigReadFails c = (if sg_reading c then Some (read_failed c) else None)"
| "sig_step (SigTake msg) c =
     (case sg_offers c of [] \<Rightarrow> None | m # ms \<Rightarrow> if m = msg then Some (c\<lparr>sg_offers := ms\<rparr>) else None)"
| "sig_step (SigDrain msg) c =
     (case sg_msgs c of [] \<Rightarrow> None | m # ms \<Rightarrow> if m = msg then Some (c\<lparr>sg_msgs := ms\<rparr>) else None)"
| "sig_step SigSubscribe c = Some (subscribe_offers c)"
| "sig_step (SigRegister sid cb now) c = Some (on_answer sid cb now c)"
| "sig_step (SigCleanup now) c = Some (cleanup_answers now c)"
| "sig_step (SigSend m) c = map_option snd (enqueue_message m c)"
| "sig_step (SigGenerator g) c = Some (set_token_generator g c)"
| "sig_step (SigRefresh gen) c = refresh_token gen c"
| "sig_step SigPing c = ping_tick c"
| "sig_step (SigWrite ok) c = map_option snd (write_message ok c)"
| "sig_step SigClose c = Some (close_signaling c)"

fun sig_run :: "sig_event list \<Rightarrow> signaling_client \<Rightarrow> signaling_client option" where
  "sig_run [] c = Some c"
| "sig_run (e # es) c = (case sig_step e c of None \<Rightarrow> None | Some c' \<Rightarrow> sig_run es c')"

definition queues_ok :: "signaling_client \<Rightarrow> bool" where
  "queues_ok c \<longleftrightarrow> gm_wf (sg_peers c) \<and> length (sg_peers c) \<le> max_peers \<and>
     length (sg_msgs c) \<le> msg_capacity \<and> length (sg_offers c) \<le> offer_capacity \<and> length (sg_send c) \<le> send_capacity"

lemma put_peers_ok:
  "gm_wf m \<Longrightarrow> gm_wf (put_peers ps m) \<and> length (put_peers ps m) \<le> length m + length ps"
proof (induction ps arbitrary: m)
  case Nil
  then show ?case by (simp add: put_peers_def)
next
  case (Cons p ps)
  have "gm_wf (AList.update (ci_id p) p m)" using Cons.prems by (simp add: distinct_update)
  from Cons.IH [OF this] show ?case by (auto simp: put_peers_def length_alist_update split: if_splits)
qed

lemma peer_update_keeps:
  "sg_offers (handle_peer_update msg c) = sg_offers c" "sg_msgs (handle_peer_update msg c) = sg_msgs c"
  "sg_send (handle_peer_update msg c) = sg_send c" "sg_subscribed (handle_peer_update msg c) = sg_subscribed c"
  "sg_answers (handle_peer_update msg c) = sg_answers c" "sg_called (handle_peer_update msg c) = sg_called c"
  "sg_refreshers (handle_peer_update msg c) = sg_refreshers c"
  "sg_refresh_started (handle_peer_update msg c) = sg_refresh_started c"
  "sg_reading (handle_peer_update msg c) = sg_reading c" "sg_done (handle_peer_update msg c) = sg_done c"
  by (simp_all add: handle_peer_update_def split: option.split)

lemma peer_update_ok: "queues_ok c \<Longrightarrow> queues_ok (handle_peer_update msg c)"
  by (auto simp: queues_ok_def handle_peer_update_def length_alist_update distinct_update distinct_delete
      length_alist_delete split: option.splits)

lemma read_message_cases:
  assumes "read_message stop msg c = Some c'"
  obtains (called) cb t where "sm_type msg = ''ANSWER''" "map_of (sg_answers c) (sm_session msg) = Some (cb, t)"
      "c' = (handle_peer_update msg c)\<lparr>sg_answers := AList.delete (sm_session msg) (sg_answers c), sg_called := sg_called c @ [(cb, msg)]\<rparr>"
  | (offer) "sm_type msg = ''OFFER''" "length (sg_offers c) < offer_capacity"
      "c' = (handle_peer_update msg c)\<lparr>sg_offers := sg_offers c @ [msg]\<rparr>"
  | (offer_dropped) "sm_type msg = ''OFFER''" "\<not> sg_subscribed c" "\<not> length (sg_offers c) < offer_capacity" "c' = handle_peer_update msg c"
  | (offer_given_up) "sm_type msg = ''OFFER''" "sg_done c" "c' = (handle_peer_update msg c)\<lparr>sg_reading := False\<rparr>"
  | (info) "sm_type msg \<noteq> ''OFFER''" "length (sg_msgs c) < msg_capacity"
      "c' = (handle_peer_update msg c)\<lparr>sg_msgs := sg_msgs c @ [msg]\<rparr>"
  | (info_dropped) "sm_type msg \<noteq> ''OFFER''" "c' = handle_peer_update msg c"
proof -
  let ?c = "handle_peer_update msg c"
  let ?cb = "if sm_type msg = ''ANSWER'' \<and> sm_session msg \<noteq> [] then map_of (sg_answers c) (sm_session msg) else None"
  show thesis
  proof (cases ?cb)
    case (Some p)
    then obtain cb t where "p = (cb, t)" by fastforce
    with Some assms show thesis
      by (intro called [of cb t]) (auto simp: read_message_def Let_def peer_update_keeps split: if_splits)
  next
    case None
    then have r: "Some c' = (if sm_type msg = ''OFFER'' then
        (if sg_subscribed c \<and> stop then (if sg_done c then Some (?c\<lparr>sg_reading := False\<rparr>) else None)
         else if length (sg_offers c) < offer_capacity then Some (?c\<lparr>sg_offers := sg_offers c @ [msg]\<rparr>)
         else if sg_subscribed c then None else Some ?c)
       else if length (sg_msgs c) < msg_capacity then Some (?c\<lparr>sg_msgs := sg_msgs c @ [msg]\<rparr>) else Some ?c)"
      using assms unfolding read_message_def Let_def peer_update_keeps by simp
    then show thesis
      by (auto split: if_splits intro: offer offer_dropped offer_given_up info info_dropped)
  qed
qed

subsection \<open>What the state keeps\<close>

definition signaling_inv :: "signaling_client \<Rightarrow> bool" where
  "signaling_inv c \<longleftrightarrow> queues_ok c \<and> gm_wf (sg_answers c) \<and> sg_refreshers c = (if sg_refresh_started c then 1 else 0)"

lemma enqueue_cases:
  assumes "enqueue_message m c = Some (b, c')"
  obtains (closed) "sg_done c" "\<not> b" "c' = c"
  | (queued) "\<not> sg_done c" "b" "length (sg_send c) < send_capacity" "c' = c\<lparr>sg_send := sg_send c @ [m]\<rparr>"
  using assms by (auto simp: enqueue_message_def split: if_splits)

lemma refresh_cases:
  assumes "refresh_token gen c = Some c'"
  obtains "c' = c" | g t b where "sg_generator c = Some g" "gen g = Some t"
      "enqueue_message (new_update_message ((sg_base c)\<lparr>cb_token := t\<rparr>)) c = Some (b, c')"
  using assms by (auto simp: refresh_token_def send_update_def split: option.splits)

lemma write_cases:
  assumes "write_message ok c = Some (x, c')"
  obtains m ms where "sg_send c = m # ms" "c' = (if ok then c\<lparr>sg_send := ms\<rparr> else close_signaling (c\<lparr>sg_send := ms\<rparr>))"
  using assms by (auto simp: write_message_def Let_def split: list.splits)

lemma read_inv: "read_message stop msg c = Some c' \<Longrightarrow> signaling_inv c \<Longrightarrow> signaling_inv c'"
proof -
  assume r: "read_message stop msg c = Some c'" and i: "signaling_inv c"
  have k: "signaling_inv (handle_peer_update msg c)"
    using i peer_update_ok [of c msg] by (simp add: signaling_inv_def peer_update_keeps)
  from r show ?thesis
    by (cases rule: read_message_cases)
       (use i k in \<open>auto simp: signaling_inv_def queues_ok_def peer_update_keeps distinct_delete offer_capacity_def msg_capacity_def\<close>)
qed

lemma close_inv: "signaling_inv c \<Longrightarrow> signaling_inv (close_signaling c)"
  by (simp add: close_signaling_def signaling_inv_def queues_ok_def)

lemma enqueue_inv: "enqueue_message m c = Some (b, c') \<Longrightarrow> signaling_inv c \<Longrightarrow> signaling_inv c'"
  by (erule enqueue_cases) (auto simp: signaling_inv_def queues_ok_def)

lemma sig_step_inv: "sig_step e c = Some c' \<Longrightarrow> signaling_inv c \<Longrightarrow> signaling_inv c'"
proof (cases e)
  case (SigRead stop msg)
  then show "sig_step e c = Some c' \<Longrightarrow> signaling_inv c \<Longrightarrow> signaling_inv c'" by (auto intro: read_inv split: if_splits)
next
  case SigReadFails
  have "signaling_inv (read_failed c) = signaling_inv (close_signaling c)"
    by (simp add: read_failed_def signaling_inv_def queues_ok_def)
  with SigReadFails show "sig_step e c = Some c' \<Longrightarrow> signaling_inv c \<Longrightarrow> signaling_inv c'" by (auto intro: close_inv split: if_splits)
next
  case (SigRefresh gen)
  then show "sig_step e c = Some c' \<Longrightarrow> signaling_inv c \<Longrightarrow> signaling_inv c'"
    by (auto elim!: refresh_cases intro: enqueue_inv)
next
  case SigClose
  then show "sig_step e c = Some c' \<Longrightarrow> signaling_inv c \<Longrightarrow> signaling_inv c'" by (auto intro: close_inv)
next
  case (SigSend m)
  then show "sig_step e c = Some c' \<Longrightarrow> signaling_inv c \<Longrightarrow> signaling_inv c'" by (auto intro: enqueue_inv)
next
  case SigPing
  then show "sig_step e c = Some c' \<Longrightarrow> signaling_inv c \<Longrightarrow> signaling_inv c'" by (auto simp: ping_tick_def intro: enqueue_inv)
next
  case (SigWrite ok)
  then show "sig_step e c = Some c' \<Longrightarrow> signaling_inv c \<Longrightarrow> signaling_inv c'"
    by (auto elim!: write_cases intro!: close_inv) (auto simp: signaling_inv_def queues_ok_def)
qed (auto simp: ping_tick_def subscribe_offers_def on_answer_def cleanup_answers_def set_token_generator_def Let_def
      distinct_update wf_keep signaling_inv_def queues_ok_def split: list.splits if_splits option.splits)

lemma sig_run_inv: "sig_run es c = Some c' \<Longrightarrow> signaling_inv c \<Longrightarrow> signaling_inv c'"
  by (induction es c rule: sig_run.induct) (auto split: option.splits dest: sig_step_inv)

lemma connect_inv: "connect_signaling info first = Some c \<Longrightarrow> signaling_inv c"
proof -
  assume a: "connect_signaling info first = Some c"
  have "gm_wf (put_peers (take max_peers ps) []) \<and> length (put_peers (take max_peers ps) []) \<le> max_peers" for ps
    using put_peers_ok [of "[]" "take max_peers ps"] by simp
  with a show ?thesis
    by (auto simp: connect_signaling_def wait_for_hello_def new_signaling_client_def signaling_inv_def queues_ok_def
        Let_def split: option.splits if_splits)
qed

subsection \<open>Offers\<close>

fun offers_read :: "sig_event list \<Rightarrow> server_message list" where
  "offers_read [] = []"
| "offers_read (SigRead stop m # es) = (if sm_type m = ''OFFER'' then m # offers_read es else offers_read es)"
| "offers_read (_ # es) = offers_read es"

fun offers_taken :: "sig_event list \<Rightarrow> server_message list" where
  "offers_taken [] = []"
| "offers_taken (SigTake m # es) = m # offers_taken es"
| "offers_taken (_ # es) = offers_taken es"

lemma enqueue_keeps:
  "enqueue_message m c = Some (b, c') \<Longrightarrow> sg_offers c' = sg_offers c \<and> sg_subscribed c' = sg_subscribed c \<and>
     sg_answers c' = sg_answers c \<and> sg_called c' = sg_called c \<and> sg_reading c' = sg_reading c \<and> sg_done c' = sg_done c"
  by (erule enqueue_cases) auto

lemma close_signaling_keeps [simp]:
  "sg_offers (close_signaling c) = sg_offers c" "sg_subscribed (close_signaling c) = sg_subscribed c"
  "sg_called (close_signaling c) = sg_called c" "sg_reading (close_signaling c) = sg_reading c" "sg_done (close_signaling c)"
  by (simp_all add: close_signaling_def)

abbreviation room_for :: "nat \<Rightarrow> signaling_client \<Rightarrow> bool" where
  "room_for n c \<equiv> sg_subscribed c \<or> length (sg_offers c) + n \<le> offer_capacity"

text \<open>
  What can be lost: at most one offer, the last that was read, and only by a loop that has returned because the
  connection is closed.
\<close>

definition given_up :: "server_message list \<Rightarrow> signaling_client \<Rightarrow> signaling_client \<Rightarrow> bool" where
  "given_up lost c c' \<longleftrightarrow> length lost \<le> 1 \<and> (lost \<noteq> [] \<longrightarrow> sg_reading c \<and> sg_done c' \<and> \<not> sg_reading c')"

lemma given_up_none [simp]: "given_up [] c c'"
  by (simp add: given_up_def)

lemma sig_step_offers:
  assumes "sig_step e c = Some c'" "room_for (length (offers_read [e])) c"
  shows "\<exists>lost. (sg_subscribed c \<longrightarrow> sg_subscribed c') \<and> (sg_done c \<longrightarrow> sg_done c') \<and> (sg_reading c' \<longrightarrow> sg_reading c) \<and>
    (\<not> sg_reading c \<longrightarrow> offers_read [e] = []) \<and> given_up lost c c' \<and>
    sg_offers c @ offers_read [e] = offers_taken [e] @ sg_offers c' @ lost"
proof (cases e)
  case (SigRead stop msg)
  with assms have r: "sg_reading c" "read_message stop msg c = Some c'" by (simp_all split: if_splits)
  from r(2) show ?thesis
  proof (cases rule: read_message_cases)
    case offer_given_up
    then show ?thesis using r(1) SigRead
      by (intro exI [of _ "[msg]"]) (simp add: peer_update_keeps given_up_def)
  qed (use assms(2) SigRead r(1) in \<open>intro exI [of _ "[]"]; auto simp: peer_update_keeps\<close>)+
next
  case (SigRefresh gen)
  with assms show ?thesis by (intro exI [of _ "[]"]) (auto elim!: refresh_cases dest: enqueue_keeps)
next
  case (SigWrite ok)
  with assms show ?thesis by (intro exI [of _ "[]"]) (auto elim!: write_cases split: if_splits)
qed (use assms in \<open>intro exI [of _ "[]"]; auto simp: ping_tick_def subscribe_offers_def on_answer_def cleanup_answers_def
      set_token_generator_def read_failed_def Let_def split: list.splits if_splits option.splits dest: enqueue_keeps\<close>)+

lemma offers_cons:
  "offers_read (e # es) = offers_read [e] @ offers_read es" "offers_taken (e # es) = offers_taken [e] @ offers_taken es"
  by (cases e; simp)+

lemma offers_conserved:
  "sig_run es c = Some c' \<Longrightarrow> room_for (length (offers_read es)) c \<Longrightarrow>
     \<exists>lost. (sg_done c \<longrightarrow> sg_done c') \<and> (sg_reading c' \<longrightarrow> sg_reading c) \<and> (\<not> sg_reading c \<longrightarrow> offers_read es = []) \<and>
       given_up lost c c' \<and> sg_offers c @ offers_read es = offers_taken es @ sg_offers c' @ lost"
proof (induction es arbitrary: c)
  case Nil
  then show ?case by (intro exI [of _ "[]"]) simp
next
  case (Cons e es)
  then obtain c1 where s: "sig_step e c = Some c1" and r: "sig_run es c1 = Some c'"
    by (auto split: option.splits)
  have room: "room_for (length (offers_read [e])) c" using Cons.prems(2) by (auto simp: offers_cons [of e es])
  from sig_step_offers [OF s room] obtain l1 where
    l1: "sg_subscribed c \<longrightarrow> sg_subscribed c1" "sg_done c \<longrightarrow> sg_done c1" "sg_reading c1 \<longrightarrow> sg_reading c"
      "\<not> sg_reading c \<longrightarrow> offers_read [e] = []" "given_up l1 c c1"
      "sg_offers c @ offers_read [e] = offers_taken [e] @ sg_offers c1 @ l1" by blast
  have "length (sg_offers c1) \<le> length (sg_offers c) + length (offers_read [e])"
    using arg_cong [OF l1(6), of length] by simp
  with l1(1) Cons.prems(2) have "room_for (length (offers_read es)) c1" by (auto simp: offers_cons [of e es])
  from Cons.IH [OF r this] obtain l2 where
    l2: "sg_done c1 \<longrightarrow> sg_done c'" "sg_reading c' \<longrightarrow> sg_reading c1" "\<not> sg_reading c1 \<longrightarrow> offers_read es = []"
      "given_up l2 c1 c'" "sg_offers c1 @ offers_read es = offers_taken es @ sg_offers c' @ l2" by blast
  show ?case
  proof (cases "l1 = []")
    case True
    have "sg_offers c @ offers_read (e # es) = offers_taken [e] @ (sg_offers c1 @ offers_read es)"
      unfolding offers_cons [of e es] using l1(6) True by simp
    also have "\<dots> = offers_taken (e # es) @ sg_offers c' @ l2"
      unfolding l2(5) offers_cons [of e es] by simp
    finally show ?thesis using l1 l2 by (intro exI [of _ l2]) (auto simp: given_up_def offers_cons [of e es])
  next
    case False
    with l1(5) have "\<not> sg_reading c1" "sg_done c1" by (simp_all add: given_up_def)
    with l2 have "l2 = []" "offers_read es = []" "sg_done c'" "\<not> sg_reading c'" by (auto simp: given_up_def)
    with l1 l2 show ?thesis by (intro exI [of _ l1]) (auto simp: given_up_def offers_cons [of e es])
  qed
qed

subsection \<open>Answers\<close>

fun registered :: "sig_event list \<Rightarrow> (string \<times> nat) list" where
  "registered [] = []"
| "registered (SigRegister sid cb now # es) = (sid, cb) # registered es"
| "registered (_ # es) = registered es"

definition waiting :: "signaling_client \<Rightarrow> (string \<times> nat) multiset" where
  "waiting c = image_mset (\<lambda>(sid, cb, t). (sid, cb)) (mset (sg_answers c))"

definition answered :: "signaling_client \<Rightarrow> (string \<times> nat) multiset" where
  "answered c = image_mset (\<lambda>(cb, msg). (sm_session msg, cb)) (mset (sg_called c))"

lemma update_submset: "mset (AList.update k v m) \<subseteq># add_mset (k, v) (mset m)"
  by (induction m) (auto simp: add_mset_commute intro: subset_mset.order_trans [OF _ mset_subset_eq_add_mset_cancel [THEN iffD2]])

lemma delete_taken: "map_of m k = Some v \<Longrightarrow> add_mset (k, v) (mset (AList.delete k m)) \<subseteq># mset m"
proof -
  assume "map_of m k = Some v"
  then have "(k, v) \<in># mset m" by (simp add: map_of_SomeD)
  then obtain M where M: "mset m = add_mset (k, v) M" by (meson multi_member_split)
  have "mset (AList.delete k m) = filter_mset (\<lambda>p. k \<noteq> fst p) (mset m)"
    by (simp add: AList.delete_eq case_prod_beta' eq_commute [of k] flip: mset_filter)
  also have "\<dots> = filter_mset (\<lambda>p. k \<noteq> fst p) M" by (simp add: M)
  finally show ?thesis by (simp add: M)
qed

lemma sub_image: "A \<subseteq># B \<Longrightarrow> image_mset f A \<subseteq># image_mset f B"
  by (rule image_mset_subseteq_mono)

lemma waiting_register: "waiting (on_answer sid cb now c) \<subseteq># waiting c + {#(sid, cb)#}"
  using sub_image [OF update_submset [of sid "(cb, now)" "sg_answers c"], of "\<lambda>(sid, cb, t). (sid, cb)"]
  by (simp add: waiting_def on_answer_def)

lemma on_answer_called [simp]: "sg_called (on_answer sid cb now c) = sg_called c"
  by (simp add: on_answer_def)

lemma waiting_cleanup: "waiting (cleanup_answers now c) \<subseteq># waiting c"
proof -
  have "mset (gm_keep P m) \<subseteq># mset m" for P :: "string \<Rightarrow> nat \<times> time \<Rightarrow> bool" and m
    by (simp add: gm_keep_def multiset_filter_subset)
  from sub_image [OF this] show ?thesis by (simp add: waiting_def cleanup_answers_def)
qed

lemma waiting_close: "waiting (close_signaling c) \<subseteq># waiting c"
  by (simp add: waiting_def close_signaling_def)

lemma answer_keeps:
  "sg_answers c' = sg_answers c \<Longrightarrow> sg_called c' = sg_called c \<Longrightarrow> waiting c' = waiting c \<and> answered c' = answered c"
  by (simp add: waiting_def answered_def)

lemma read_answer:
  assumes "read_message stop msg c = Some c'"
  shows "answered c' + waiting c' \<subseteq># answered c + waiting c"
    and "set (sg_called c') \<subseteq> set (sg_called c) \<union> {(cb, m). m = msg \<and> sm_type m = ''ANSWER''}"
proof -
  have "answered c' + waiting c' \<subseteq># answered c + waiting c \<and>
    set (sg_called c') \<subseteq> set (sg_called c) \<union> {(cb, m). m = msg \<and> sm_type m = ''ANSWER''}"
    using assms
  proof (cases rule: read_message_cases)
    case (called cb t)
    have "add_mset (sm_session msg, cb) (waiting c') \<subseteq># waiting c"
      using sub_image [OF delete_taken [OF called(2)], of "\<lambda>(sid, cb, t). (sid, cb)"]
      by (simp add: waiting_def called(3))
    moreover have "answered c' = add_mset (sm_session msg, cb) (answered c)"
      by (simp add: answered_def called(3))
    ultimately show ?thesis
      by (simp add: called(1) called(3))
  qed (simp_all add: waiting_def answered_def peer_update_keeps)
  then show "answered c' + waiting c' \<subseteq># answered c + waiting c"
    "set (sg_called c') \<subseteq> set (sg_called c) \<union> {(cb, m). m = msg \<and> sm_type m = ''ANSWER''}" by simp_all
qed

fun keeps_answers :: "sig_event \<Rightarrow> bool" where
  "keeps_answers (SigRead stop m) = False"
| "keeps_answers SigReadFails = False"
| "keeps_answers (SigRegister sid cb t) = False"
| "keeps_answers (SigCleanup t) = False"
| "keeps_answers (SigWrite ok) = False"
| "keeps_answers SigClose = False"
| "keeps_answers _ = True"

lemma sig_step_quiet:
  assumes "sig_step e c = Some c'" "keeps_answers e"
  shows "sg_answers c' = sg_answers c \<and> sg_called c' = sg_called c \<and> registered [e] = []"
  using assms
  by (cases e) (auto simp: ping_tick_def subscribe_offers_def set_token_generator_def Let_def
      split: list.splits if_splits option.splits elim!: refresh_cases dest: enqueue_keeps)

lemma sig_step_answers:
  assumes "sig_step e c = Some c'"
  shows "answered c' + waiting c' \<subseteq># answered c + waiting c + mset (registered [e])"
    and "set (sg_called c') \<subseteq> set (sg_called c) \<union> {(cb, m). (\<exists>stop. e = SigRead stop m) \<and> sm_type m = ''ANSWER''}"
proof -
  have "answered c' + waiting c' \<subseteq># answered c + waiting c + mset (registered [e]) \<and>
    set (sg_called c') \<subseteq> set (sg_called c) \<union> {(cb, m). (\<exists>stop. e = SigRead stop m) \<and> sm_type m = ''ANSWER''}"
  proof (cases "keeps_answers e")
    case True
    note q = sig_step_quiet [OF assms True]
    then have "waiting c' = waiting c" "answered c' = answered c" using answer_keeps by blast+
    with q show ?thesis by simp
  next
    case False
    then show ?thesis
    proof (cases e)
      case (SigRead stop msg)
      with assms read_answer [of stop msg c c'] show ?thesis by (auto split: if_splits)
    next
      case SigReadFails
      with assms waiting_close [of c] show ?thesis by (auto simp: answered_def waiting_def read_failed_def split: if_splits)
    next
      case (SigRegister sid cb now)
      with assms have c': "c' = on_answer sid cb now c" by simp
      have "answered c' = answered c" by (simp add: answered_def c')
      with waiting_register [of sid cb now c] show ?thesis by (auto simp: SigRegister c')
    next
      case (SigCleanup now)
      with assms waiting_cleanup [of now c] show ?thesis by (auto simp: answered_def cleanup_answers_def)
    next
      case SigClose
      with assms waiting_close [of c] show ?thesis by (auto simp: answered_def)
    next
      case (SigWrite ok)
      with assms obtain m ms where "c' = (if ok then c\<lparr>sg_send := ms\<rparr> else close_signaling (c\<lparr>sg_send := ms\<rparr>))"
        by (auto elim: write_cases)
      then show ?thesis using SigWrite waiting_close [of "c\<lparr>sg_send := ms\<rparr>"]
        by (auto simp: answered_def) (auto simp: waiting_def)
    qed simp_all
  qed
  then show "answered c' + waiting c' \<subseteq># answered c + waiting c + mset (registered [e])"
    "set (sg_called c') \<subseteq> set (sg_called c) \<union> {(cb, m). (\<exists>stop. e = SigRead stop m) \<and> sm_type m = ''ANSWER''}" by simp_all
qed

lemma sig_run_answers:
  "sig_run es c = Some c' \<Longrightarrow> answered c' + waiting c' \<subseteq># answered c + waiting c + mset (registered es) \<and>
     set (sg_called c') \<subseteq> set (sg_called c) \<union> {(cb, m). (\<exists>stop. SigRead stop m \<in> set es) \<and> sm_type m = ''ANSWER''}"
proof (induction es arbitrary: c)
  case Nil
  then show ?case by simp
next
  case (Cons e es)
  then obtain c1 where s: "sig_step e c = Some c1" and r: "sig_run es c1 = Some c'"
    by (auto split: option.splits)
  have g: "mset (registered (e # es)) = mset (registered [e]) + mset (registered es)" by (cases e) simp_all
  from Cons.IH [OF r] have "answered c' + waiting c' \<subseteq># answered c1 + waiting c1 + mset (registered es)" by simp
  also have "\<dots> \<subseteq># answered c + waiting c + mset (registered [e]) + mset (registered es)"
    by (rule mset_subset_eq_mono_add) (use sig_step_answers(1) [OF s] in auto)
  finally show ?case using Cons.IH [OF r] sig_step_answers(2) [OF s] by (auto simp: g ac_simps)
qed

lemma connect_fresh:
  "connect_signaling info first = Some c \<Longrightarrow>
     sg_offers c = [] \<and> \<not> sg_subscribed c \<and> sg_answers c = [] \<and> sg_called c = [] \<and> sg_send c = [] \<and> \<not> sg_done c \<and> sg_reading c"
  by (auto simp: connect_signaling_def wait_for_hello_def new_signaling_client_def Let_def split: option.splits if_splits)

subsection \<open>Properties\<close>

definition demo_peer :: "string \<Rightarrow> client_info" where
  "demo_peer i = \<lparr>cb_alias = ''Kobo'', cb_version = ''2.3'', cb_model = [], cb_type = ''HEADLESS'', cb_token = [], ci_id = i\<rparr>"

definition demo_server_message :: "string \<Rightarrow> string \<Rightarrow> server_message" where
  "demo_server_message ty sid =
     \<lparr>sm_type = ty, sm_client = Some (demo_peer ''me''), sm_peers = None, sm_peer = Some (demo_peer sid), sm_peer_id = None,
      sm_session = sid, sm_sdp = ''v=0'', sm_code = 0\<rparr>"

definition demo_hello :: "server_message option" where
  "demo_hello = Some (demo_server_message ''HELLO'' [])"

definition demo_connected :: signaling_client where
  "demo_connected = the (connect_signaling (new_client_info ''Kobo'' ''t'') demo_hello)"

lemma demo_connects: "connect_signaling (new_client_info ''Kobo'' ''t'') demo_hello = Some demo_connected"
  by (simp add: demo_connected_def demo_hello_def demo_server_message_def connect_signaling_def wait_for_hello_def)

text \<open>
  C35: On a connection to the signaling server every queue and table is bounded, whatever the server sends and however
  the loops and their users interleave: at most 500 peers with distinct ids, 16 notices, 32 offers and 16 messages
  to be written, and at most one token refresh loop.
\<close>

theorem signaling_state_bounded:
  assumes "connect_signaling info first = Some c0" "sig_run es c0 = Some c"
  shows "distinct (map fst (sg_peers c)) \<and> length (sg_peers c) \<le> 500 \<and> length (sg_msgs c) \<le> 16 \<and>
     length (sg_offers c) \<le> 32 \<and> length (sg_send c) \<le> 16 \<and> sg_refreshers c \<le> 1"
  using sig_run_inv [OF assms(2) connect_inv [OF assms(1)]]
  by (simp add: signaling_inv_def queues_ok_def max_peers_def msg_capacity_def offer_capacity_def send_capacity_def)

theorem signaling_state_bounded_witness:
  "\<exists>c. sig_run [SigRead False (demo_server_message ''JOIN'' ''p''), SigGenerator (Some 0), SigGenerator (Some 1)] demo_connected = Some c \<and>
     length (sg_peers c) \<le> 500 \<and> sg_refreshers c \<le> 1"
proof -
  let ?es = "[SigRead False (demo_server_message ''JOIN'' ''p''), SigGenerator (Some 0), SigGenerator (Some 1)]"
  have "\<exists>c. sig_run ?es demo_connected = Some c"
    using connect_fresh [OF demo_connects]
    by (simp add: read_message_def demo_server_message_def Let_def msg_capacity_def split: option.split)
  then obtain c where "sig_run ?es demo_connected = Some c" ..
  with signaling_state_bounded [OF demo_connects this] show ?thesis by blast
qed

text \<open>
  C17: While the connection is open no offer is lost: when at most 32 offers were read before the receiver subscribed,
  then everything it takes from the channel, before and after, together with what still waits there is exactly the
  offers read from the socket, in their order and each once. After the subscription there is no limit on their number.
  Only the end of the connection costs an offer, the last one that was read, and no more than that one: \<open>readLoop\<close> gives
  it up when it finds the connection closed, and returns.
\<close>

theorem offers_are_not_lost:
  assumes "connect_signaling info first = Some c0" "sig_run es1 c0 = Some c1" "length (offers_read es1) \<le> 32"
    and "sig_run es2 (subscribe_offers c1) = Some c2"
  shows "\<exists>lost. offers_read es1 @ offers_read es2 = offers_taken es1 @ offers_taken es2 @ sg_offers c2 @ lost \<and>
    length lost \<le> 1 \<and> (\<not> sg_done c2 \<or> sg_reading c2 \<longrightarrow> lost = [])"
proof -
  obtain l1 where l1: "offers_read es1 = offers_taken es1 @ sg_offers c1 @ l1" "given_up l1 c0 c1"
    using offers_conserved [OF assms(2)] assms(3) connect_fresh [OF assms(1)] by (auto simp: offer_capacity_def)
  obtain l2 where l2: "sg_offers c1 @ offers_read es2 = offers_taken es2 @ sg_offers c2 @ l2" "given_up l2 c1 c2"
      "sg_done c1 \<longrightarrow> sg_done c2" "sg_reading c2 \<longrightarrow> sg_reading c1" "\<not> sg_reading c1 \<longrightarrow> offers_read es2 = []"
    using offers_conserved [OF assms(4)] by (auto simp: subscribe_offers_def given_up_def)
  show ?thesis
  proof (cases "l1 = []")
    case True
    with l1 l2 show ?thesis by (intro exI [of _ l2]) (auto simp: given_up_def)
  next
    case False
    with l1(2) l2 have "l2 = []" "offers_read es2 = []" "sg_done c2" "\<not> sg_reading c2" by (auto simp: given_up_def)
    with l1 l2 show ?thesis by (intro exI [of _ l1]) (auto simp: given_up_def)
  qed
qed

definition demo_offer :: server_message where
  "demo_offer = demo_server_message ''OFFER'' ''s1''"

theorem offers_are_not_lost_witness:
  "\<exists>c1 c2 lost. sig_run [SigRead False demo_offer] demo_connected = Some c1 \<and>
     sig_run [SigRead False demo_offer, SigTake demo_offer] (subscribe_offers c1) = Some c2 \<and>
     [demo_offer, demo_offer] = [demo_offer] @ sg_offers c2 @ lost \<and> lost = []"
proof -
  have fresh: "sg_offers demo_connected = []" "sg_answers demo_connected = []" "\<not> sg_subscribed demo_connected"
      "sg_reading demo_connected" "\<not> sg_done demo_connected"
    using connect_fresh [OF demo_connects] by simp_all
  have ty: "sm_type demo_offer = ''OFFER''" by (simp add: demo_offer_def demo_server_message_def)
  have "\<exists>c1. sig_run [SigRead False demo_offer] demo_connected = Some c1 \<and> sg_offers c1 = [demo_offer] \<and> sg_reading c1 \<and> \<not> sg_done c1"
    by (simp add: read_message_def ty Let_def fresh offer_capacity_def peer_update_keeps)
  then obtain c1 where c1: "sig_run [SigRead False demo_offer] demo_connected = Some c1" "sg_offers c1 = [demo_offer]"
      "sg_reading c1" "\<not> sg_done c1" by blast
  have "\<exists>c2. sig_run [SigRead False demo_offer, SigTake demo_offer] (subscribe_offers c1) = Some c2 \<and> sg_reading c2"
    by (simp add: read_message_def ty Let_def c1 offer_capacity_def peer_update_keeps subscribe_offers_def)
  then obtain c2 where c2: "sig_run [SigRead False demo_offer, SigTake demo_offer] (subscribe_offers c1) = Some c2" "sg_reading c2" by blast
  have "length (offers_read [SigRead False demo_offer]) \<le> 32" by (simp add: ty)
  from offers_are_not_lost [OF demo_connects c1(1) this c2(1)] c1(1) c2 show ?thesis by (auto simp: ty)
qed

text \<open>
  And the last offer can be lost: one that was read while the connection was closed, although there was room for it.
\<close>

lemma offer_lost_at_close:
  "\<exists>c. sig_run [SigSubscribe, SigClose, SigRead True demo_offer] demo_connected = Some c \<and> sg_offers c = [] \<and> \<not> sg_reading c"
proof -
  have fresh: "sg_offers demo_connected = []" "sg_reading demo_connected" using connect_fresh [OF demo_connects] by simp_all
  have ty: "sm_type demo_offer = ''OFFER''" by (simp add: demo_offer_def demo_server_message_def)
  show ?thesis
    by (simp add: read_message_def ty Let_def fresh peer_update_keeps subscribe_offers_def)
qed

text \<open>
  A callback for answers is called with an answer to its own session that was read from the server, and never more
  often than it was registered for this session, whatever the server repeats.
\<close>

theorem answers_reach_their_callback:
  assumes "connect_signaling info first = Some c0" "sig_run es c0 = Some c"
  shows "image_mset (\<lambda>(cb, msg). (sm_session msg, cb)) (mset (sg_called c)) \<subseteq># mset (registered es) \<and>
     (\<forall>(cb, msg) \<in> set (sg_called c). sm_type msg = ''ANSWER'' \<and> (\<exists>stop. SigRead stop msg \<in> set es))"
proof -
  note r = sig_run_answers [OF assms(2)]
  have "answered c0 = {#}" "waiting c0 = {#}" "sg_called c0 = []"
    using connect_fresh [OF assms(1)] by (simp_all add: answered_def waiting_def)
  with r have "answered c + waiting c \<subseteq># mset (registered es)" "\<forall>(cb, msg) \<in> set (sg_called c). sm_type msg = ''ANSWER'' \<and> (\<exists>stop. SigRead stop msg \<in> set es)"
    by auto
  then show ?thesis unfolding answered_def [symmetric]
    by (meson mset_subset_eq_add_left subset_mset.order_trans)
qed

definition demo_answer :: server_message where
  "demo_answer = demo_server_message ''ANSWER'' ''s1''"

theorem answers_reach_their_callback_witness:
  "\<exists>c. sig_run [SigRegister ''s1'' 7 0, SigRead False demo_answer, SigRead False demo_answer] demo_connected = Some c \<and>
     sg_called c = [(7, demo_answer)] \<and>
     image_mset (\<lambda>(cb, msg). (sm_session msg, cb)) (mset (sg_called c)) \<subseteq># {#(''s1'', 7)#}"
proof -
  let ?es = "[SigRegister ''s1'' 7 0, SigRead False demo_answer, SigRead False demo_answer]"
  have fresh: "sg_answers demo_connected = []" "sg_called demo_connected = []" "sg_reading demo_connected"
    using connect_fresh [OF demo_connects] by simp_all
  have ty: "sm_type demo_answer = ''ANSWER''" "sm_session demo_answer = ''s1''"
    by (simp_all add: demo_answer_def demo_server_message_def)
  have "\<exists>c. sig_run ?es demo_connected = Some c \<and> sg_called c = [(7, demo_answer)]"
    by (simp add: read_message_def ty Let_def fresh peer_update_keeps on_answer_def)
  then obtain c where c: "sig_run ?es demo_connected = Some c" "sg_called c = [(7, demo_answer)]" by blast
  from answers_reach_their_callback [OF demo_connects c(1)] c show ?thesis by auto
qed

text \<open>
  A session description survives its compression when it is not longer than 512 KiB, and is refused when it is;
  whatever was sent, nothing longer is ever returned. The inverse laws are those of zlib for the writer and the reader.
\<close>

lemma session_descriptions_survive:
  assumes "inflate (deflate sdp) = Some (sdp, False)"
  shows "decompress_sdp inflate (compress_sdp deflate sdp) = (if length sdp \<le> 524288 then Some sdp else None) \<and>
     (\<forall>text r. decompress_sdp inflate text = Some r \<longrightarrow> length r \<le> 524288)"
  using assms
  by (auto simp: decompress_sdp_def compress_sdp_def max_decompressed_sdp_def Let_def split: option.splits if_splits)

end
