(* ===== verification/RTC_Connect.thy ===== *)
theory RTC_Connect
  imports RTC_Files RTC_Demo Peer_Channel Signaling
begin

text \<open>
  How two peers get connected: \<open>Send\<close> of \<open>sender.go\<close> and \<open>AcceptOffer\<close> of \<open>receiver.go\<close> in \<open>internal/webrtc/transfer\<close>, with
  the exchange of session descriptions in \<open>peer.go\<close> that they drive over the signaling clients of both sides. The
  connection of the WebRTC library is a parameter.
\<close>

subsection \<open>Session descriptions of a connection\<close>

text \<open>
  What the library answers: the offer and the answer it makes, whether it takes a description, and the local description
  once the candidates are gathered or the time for it is over.
\<close>

record sdp_env =
  sd_offer :: "string option"
  sd_answer :: "string option"
  sd_set_local :: "string \<Rightarrow> bool"
  sd_set_remote :: "string \<Rightarrow> bool"
  sd_local :: string

definition create_offer :: "sdp_env \<Rightarrow> string option" where
  "create_offer D =
     (case sd_offer D of None \<Rightarrow> None | Some offer \<Rightarrow> if \<not> sd_set_local D offer then None else Some (sd_local D))"

definition accept_sdp_offer :: "sdp_env \<Rightarrow> string \<Rightarrow> string option" where
  "accept_sdp_offer D sdp =
     (if \<not> sd_set_remote D sdp then None
      else (case sd_answer D of
              None \<Rightarrow> None
            | Some answer \<Rightarrow> if \<not> sd_set_local D answer then None else Some (sd_local D)))"

definition set_answer :: "sdp_env \<Rightarrow> string \<Rightarrow> bool" where
  "set_answer D sdp = sd_set_remote D sdp"

subsection \<open>The receiver\<close>

datatype offer_result = OfferInvalid | OfferBlocked | OfferBusy | OfferFailed | OfferAccepted

text \<open>
  \<open>AcceptOffer\<close> without interruption; \<open>p\<close> is the number of the new connection, which \<open>conn_ok\<close> lets be made. Closing it
  runs its handler. \<^const>\<open>None\<close> while the answer waits for room in the send channel.
\<close>

definition refused_as :: "rtc_env \<Rightarrow> string \<Rightarrow> rtc_receiver \<Rightarrow> offer_result" where
  "refused_as E peer_id r = (if fst (is_peer_blocked (re_now E) peer_id (rr_blocked r)) then OfferBlocked else OfferBusy)"

definition accept_offer ::
    "rtc_env \<Rightarrow> sdp_env \<Rightarrow> (bytes \<Rightarrow> bytes) \<Rightarrow> (bytes \<Rightarrow> (bytes \<times> bool) option) \<Rightarrow> bool \<Rightarrow> nat \<Rightarrow> server_message \<Rightarrow>
     rtc_receiver \<Rightarrow> signaling_client \<Rightarrow> (offer_result \<times> rtc_receiver \<times> signaling_client) option" where
  "accept_offer E D deflate inflate conn_ok p msg r c =
     (case sm_peer msg of
        None \<Rightarrow> Some (OfferInvalid, r, c)
      | Some peer \<Rightarrow>
          (case reserve_offer E (ci_id peer) (cb_alias peer) r of
             (False, r1) \<Rightarrow> Some (refused_as E (ci_id peer) r, r1, c)
           | (True, r1) \<Rightarrow>
               (case decompress_sdp inflate (sm_sdp msg) of
                  None \<Rightarrow> Some (OfferFailed, fail_accept r1, c)
                | Some sdp \<Rightarrow>
                    if new_peer_connection False conn_ok True = None then Some (OfferFailed, fail_accept r1, c)
                    else
                      (case install_peer p r1 of
                         (False, r2) \<Rightarrow> Some (OfferBusy, r2, c)
                       | (True, r2) \<Rightarrow>
                           (case accept_sdp_offer D sdp of
                              None \<Rightarrow> Some (OfferFailed, handle_peer_closed E p r2, c)
                            | Some answer \<Rightarrow>
                                (case send_answer deflate (sm_session msg) (ci_id peer) answer c of
                                   None \<Rightarrow> None
                                 | Some (False, c1) \<Rightarrow> Some (OfferFailed, handle_peer_closed E p r2, c1)
                                 | Some (True, c1) \<Rightarrow> Some (OfferAccepted, r2, c1)))))))"

subsection \<open>The sender\<close>

text \<open>
  \<open>Send\<close> up to the offer: the connection with its handlers, the callback \<open>cb\<close> for the answer, the offer. \<^const>\<open>None\<close> while
  the offer waits for room in the send channel.
\<close>

definition send_begin ::
    "sdp_env \<Rightarrow> (bytes \<Rightarrow> bytes) \<Rightarrow> bool \<Rightarrow> string \<Rightarrow> string \<Rightarrow> snd_file list \<Rightarrow> nat \<Rightarrow> time \<Rightarrow>
     rtc_sender \<Rightarrow> signaling_client \<Rightarrow> (bool \<times> rtc_sender \<times> signaling_client) option" where
  "send_begin D deflate conn_ok sid target files cb now s c =
     (let s1 = s\<lparr>ss_files := files\<rparr>
      in if new_peer_connection True conn_ok True = None then Some (False, s1, c)
         else
           let s2 = s1\<lparr>ss_peer := True\<rparr>
           in (case create_offer D of
                 None \<Rightarrow> Some (False, snd_peer_closed s2, c)
               | Some sdp \<Rightarrow>
                   (case send_offer deflate sid target sdp (on_answer sid cb now c) of
                      None \<Rightarrow> None
                    | Some (False, c1) \<Rightarrow> Some (False, snd_peer_closed s2, c1)
                    | Some (True, c1) \<Rightarrow> Some (True, s2, c1))))"

text \<open>What ends the wait for the answer; the callback passes on an answer that can be decompressed.\<close>

datatype answer_wait = AnswerCame string | AnswerPeerClosed | AnswerTimeout

definition answer_of :: "(bytes \<Rightarrow> (bytes \<times> bool) option) \<Rightarrow> server_message \<Rightarrow> string option" where
  "answer_of inflate msg = decompress_sdp inflate (sm_sdp msg)"

definition send_answered :: "sdp_env \<Rightarrow> answer_wait \<Rightarrow> rtc_sender \<Rightarrow> bool \<times> rtc_sender" where
  "send_answered D w s =
     (case w of
        AnswerCame answer \<Rightarrow> if set_answer D answer then (True, s) else (False, snd_peer_closed s)
      | AnswerPeerClosed \<Rightarrow> (False, s)
      | AnswerTimeout \<Rightarrow> (False, snd_peer_closed s))"

text \<open>
  What ends the wait for the acceptance: one of the channels that is ready, the end of the connection, or the timeout. A
  channel that gives nothing is closed. \<open>ids\<close> is the order in which the tokens are visited; \<^const>\<open>None\<close> when the channel is
  not ready.
\<close>

datatype accept_wait = AcceptedCame "string list" | DeclinedCame | ErrorCame | SenderClosed | AcceptPeerClosed | AcceptTimeout

definition send_accepted :: "accept_wait \<Rightarrow> rtc_sender \<Rightarrow> (string option \<times> rtc_sender) option" where
  "send_accepted w s =
     (case w of
        AcceptedCame ids \<Rightarrow> map_option (\<lambda>s1. (None, s1)) (take_acceptance ids s)
      | DeclinedCame \<Rightarrow> if ss_declined s then Some (Some ''transfer declined by receiver'', snd_peer_closed s) else None
      | ErrorCame \<Rightarrow> map_option (\<lambda>e. (Some e, snd_peer_closed s)) (ss_errors s)
      | SenderClosed \<Rightarrow> if ss_closed s then Some (Some ''sender closed'', snd_peer_closed s) else None
      | AcceptPeerClosed \<Rightarrow> Some (Some ''peer connection closed while waiting for file acceptance'', s)
      | AcceptTimeout \<Rightarrow> Some (Some ''timeout waiting for file acceptance'', snd_peer_closed s))"

subsection \<open>A failed offer leaves the receiver free\<close>

definition receiver_free :: "rtc_receiver \<Rightarrow> bool" where
  "receiver_free r \<longleftrightarrow> \<not> rr_accepting r \<and> (rr_peer r = None \<or> rr_state r = RtcDone)"

definition transfer_kept :: "rtc_receiver \<Rightarrow> rtc_receiver \<Rightarrow> bool" where
  "transfer_kept r r' \<longleftrightarrow> (\<exists>b. r' = r\<lparr>rr_blocked := b\<rparr>)"

lemma transfer_kept_refl: "transfer_kept r r"
  unfolding transfer_kept_def by (rule exI [of _ "rr_blocked r"]) simp

lemma transfer_kept_free: "transfer_kept r r' \<Longrightarrow> receiver_free r' = receiver_free r"
  by (auto simp: transfer_kept_def receiver_free_def)

lemma refused_only: "reserve_offer E i a r = (False, r1) \<Longrightarrow> transfer_kept r r1"
  by (auto simp: transfer_kept_def reserve_offer_def split: prod.splits bool.splits if_splits)

lemma reserved:
  assumes "reserve_offer E i a r = (True, r1)"
  shows "receiver_free r \<and> rr_accepting r1 \<and> rr_peer r1 = None \<and> rr_state r1 = WaitNonce \<and> rr_sender_id r1 = i"
  using assms by (auto simp: receiver_free_def reserve_offer_def cleanup_partial_files_def mark_transfer_done_def Let_def
      split: prod.splits bool.splits if_splits)

lemma free_after_failure:
  "reserve_offer E i a r = (True, r1) \<Longrightarrow> receiver_free (fail_accept r1)"
  "install_peer p r1 = (True, r2) \<Longrightarrow> receiver_free (handle_peer_closed E p r2)"
  by (auto simp: receiver_free_def fail_accept_def install_peer_def handle_peer_closed_def split: if_splits)

lemma reserve_when_free:
  "receiver_free r \<Longrightarrow> \<not> fst (is_peer_blocked (re_now E) i (rr_blocked r)) \<Longrightarrow> fst (reserve_offer E i a r)"
  by (auto simp: receiver_free_def reserve_offer_def split: prod.splits bool.splits)

lemma refused_answer: "send_answer deflate sid peer sdp c = Some (False, c') \<longleftrightarrow> c' = c \<and> sg_done c"
  by (auto simp: send_answer_def enqueue_message_def)

lemma accept_offer_cases:
  assumes "accept_offer E D deflate inflate conn_ok p msg r c = Some (res, r', c')"
  obtains (refused) "res \<in> {OfferInvalid, OfferBlocked, OfferBusy}" "transfer_kept r r'" "c' = c"
  | (failed) "res = OfferFailed" "receiver_free r" "receiver_free r'" "sg_send c' = sg_send c"
  | (accepted) peer sdp answer where "res = OfferAccepted" "sm_peer msg = Some peer"
      "decompress_sdp inflate (sm_sdp msg) = Some sdp" "accept_sdp_offer D sdp = Some answer" "receiver_free r"
      "rr_peer r' = Some p" "rr_state r' = WaitNonce" "rr_sender_id r' = ci_id peer"
      "sg_send c' = sg_send c @ [new_answer_message (sm_session msg) (ci_id peer) (compress_sdp deflate answer)]"
proof (cases "sm_peer msg")
  case None
  with assms have "res = OfferInvalid" "r' = r" "c' = c" by (simp_all add: accept_offer_def)
  with refused transfer_kept_refl show thesis by simp
next
  case (Some peer)
  obtain ok r1 where r1: "reserve_offer E (ci_id peer) (cb_alias peer) r = (ok, r1)" by fastforce
  note o = assms [unfolded accept_offer_def Some option.case r1 prod.case]
  show thesis
  proof (cases ok)
    case False
    with o have "r' = r1" "c' = c" "res = refused_as E (ci_id peer) r" by simp_all
    with refused refused_only [of E _ _ r r1] r1 False show thesis by (auto simp: refused_as_def)
  next
    case True
    with r1 have a: "reserve_offer E (ci_id peer) (cb_alias peer) r = (True, r1)" by simp
    from reserved [OF a] have free: "receiver_free r" "rr_accepting r1" "rr_peer r1 = None" "rr_state r1 = WaitNonce"
      "rr_sender_id r1 = ci_id peer" by simp_all
    have i: "install_peer p r1 = (True, r1\<lparr>rr_peer := Some p, rr_accepting := False\<rparr>)" (is "_ = (True, ?r2)")
      using free(2) by (simp add: install_peer_def)
    note after = free_after_failure(1) [OF a] free_after_failure(2) [OF i, of E]
    from o True consider "res = OfferFailed" "r' = fail_accept r1" "c' = c"
      | "res = OfferFailed" "r' = handle_peer_closed E p ?r2" "sg_send c' = sg_send c"
      | sdp answer where "decompress_sdp inflate (sm_sdp msg) = Some sdp" "accept_sdp_offer D sdp = Some answer"
          "res = OfferAccepted" "r' = ?r2" "send_answer deflate (sm_session msg) (ci_id peer) answer c = Some (True, c')"
      by (auto simp: i refused_answer split: option.splits bool.splits if_splits)
    then show thesis
    proof cases
      case 3
      then have "sg_send c' = sg_send c @ [new_answer_message (sm_session msg) (ci_id peer) (compress_sdp deflate answer)]"
        by (auto simp: send_answer_def elim!: enqueue_cases)
      with 3 show thesis by (intro accepted [of peer sdp answer]) (simp_all add: Some free)
    qed (use failed free after in auto)
  qed
qed

text \<open>
  C39: An offer that is not accepted never locks the receiver up: whatever fails on the way, the receiver stays free for the
  next offer when it was free before, or it was busy and nothing of its transfer changed. An accepted offer is answered
  once, to the peer it came from and for its session, with the description the connection made from the offer.
\<close>

theorem offer_is_answered_or_dropped:
  assumes "accept_offer E D deflate inflate conn_ok p msg r c = Some (res, r', c')"
  shows "(res \<noteq> OfferAccepted \<longrightarrow>
      (if receiver_free r then receiver_free r' else transfer_kept r r') \<and> sg_send c' = sg_send c) \<and>
    (res = OfferAccepted \<longrightarrow>
      (\<exists>peer sdp answer. sm_peer msg = Some peer \<and> decompress_sdp inflate (sm_sdp msg) = Some sdp \<and>
         accept_sdp_offer D sdp = Some answer \<and> receiver_free r \<and> rr_peer r' = Some p \<and> rr_state r' = WaitNonce \<and>
         rr_sender_id r' = ci_id peer \<and>
         sg_send c' = sg_send c @ [new_answer_message (sm_session msg) (ci_id peer) (compress_sdp deflate answer)]))"
  using assms by (cases rule: accept_offer_cases) (auto simp: transfer_kept_free)

subsection \<open>The two ends together\<close>

text \<open>What the signaling server does with a message: it passes it on with its sender, and its session as they are.\<close>

definition relayed :: "client_info \<Rightarrow> client_message \<Rightarrow> server_message \<Rightarrow> bool" where
  "relayed from m msg \<longleftrightarrow>
     sm_type msg = cm_type m \<and> sm_session msg = cm_session m \<and> sm_sdp msg = cm_sdp m \<and> sm_peer msg = Some from"

lemma sent_offer:
  assumes "send_begin D deflate conn_ok sid target files cb now s c = Some (True, s1, c1)"
  shows "sg_send c1 = sg_send c @ [new_offer_message sid target (compress_sdp deflate (sd_local D))] \<and>
    map_of (sg_answers c1) sid = Some (cb, now) \<and> ss_peer s1 \<and> ss_files s1 = files"
  using assms
  by (auto simp: send_begin_def Let_def create_offer_def send_offer_def on_answer_def update_conv
      split: option.splits if_splits bool.splits elim!: enqueue_cases)

lemma accepted_answer: "accept_sdp_offer D sdp = Some answer \<Longrightarrow> answer = sd_local D \<and> sd_set_remote D sdp"
  by (auto simp: accept_sdp_offer_def split: if_splits option.splits)

text \<open>
  C14: Offer and answer cross unharmed. When the sender has sent its offer and the receiver has accepted the offer that the
  server relayed, the receiver's connection has been given exactly the description of the sender's, the answer goes back
  to the peer the offer came from, and reading the relayed answer calls the sender's callback with an answer that
  decompresses to the description of the receiver's connection. The law assumed of zlib is that its reader undoes its
  writer, and descriptions fit the limit of 512 KiB.
\<close>

theorem offer_and_answer_cross:
  assumes zlib: "\<And>x. inflate (deflate x) = Some (x, False)"
    and fits: "length (sd_local DS) \<le> 524288" "length (sd_local DR) \<le> 524288"
    and begun: "send_begin DS deflate ok1 sid target files cb now s cs = Some (True, s1, cs1)" "sid \<noteq> []"
    and offer: "relayed me (last (sg_send cs1)) offer"
    and accepted: "accept_offer E DR deflate inflate ok2 p offer r cr = Some (OfferAccepted, r1, cr1)"
    and answer: "relayed you (last (sg_send cr1)) answer"
    and waiting: "map_of (sg_answers cs2) sid = Some (cb, t)"
  shows "cm_target (last (sg_send cs1)) = Some target \<and> sd_set_remote DR (sd_local DS) \<and>
    cm_target (last (sg_send cr1)) = Some (ci_id me) \<and>
    (\<exists>cs3. read_message stop answer cs2 = Some cs3 \<and> last (sg_called cs3) = (cb, answer)) \<and>
    answer_of inflate answer = Some (sd_local DR)"
proof -
  let ?o = "new_offer_message sid target (compress_sdp deflate (sd_local DS))"
  have o: "last (sg_send cs1) = ?o" using sent_offer [OF begun(1)] by simp
  with offer have m: "sm_peer offer = Some me" "sm_session offer = sid" "sm_sdp offer = compress_sdp deflate (sd_local DS)"
    by (simp_all add: relayed_def new_offer_message_def)
  from accepted obtain sdp a where
    a: "decompress_sdp inflate (sm_sdp offer) = Some sdp" "accept_sdp_offer DR sdp = Some a"
      "sg_send cr1 = sg_send cr @ [new_answer_message (sm_session offer) (ci_id me) (compress_sdp deflate a)]"
    by (cases rule: accept_offer_cases) (use m(1) in auto)
  note survive = session_descriptions_survive [of inflate deflate, OF zlib]
  have "sdp = sd_local DS" using a(1) m(3) survive [of "sd_local DS"] fits(1) by simp
  with accepted_answer [OF a(2)] have r: "a = sd_local DR" "sd_set_remote DR (sd_local DS)" by simp_all
  have w: "last (sg_send cr1) = new_answer_message sid (ci_id me) (compress_sdp deflate (sd_local DR))"
    using a(3) m(2) r(1) by simp
  with answer have n: "sm_type answer = ''ANSWER''" "sm_session answer = sid" "sm_sdp answer = compress_sdp deflate (sd_local DR)"
    by (simp_all add: relayed_def new_answer_message_def)
  have "\<exists>cs3. read_message stop answer cs2 = Some cs3 \<and> last (sg_called cs3) = (cb, answer)"
    using waiting n(1,2) begun(2) by (simp add: read_message_def Let_def peer_update_keeps)
  moreover have "answer_of inflate answer = Some (sd_local DR)"
    using n(3) survive [of "sd_local DR"] fits(2) by (simp add: answer_of_def)
  ultimately show ?thesis using o w r(2) by (simp add: new_offer_message_def new_answer_message_def)
qed

subsection \<open>A connection made\<close>

definition demo_sdp :: "string \<Rightarrow> sdp_env" where
  "demo_sdp text =
     \<lparr>sd_offer = Some ''o'', sd_answer = Some ''a'', sd_set_local = (\<lambda>d. True), sd_set_remote = (\<lambda>d. True), sd_local = text\<rparr>"

definition relay :: "client_info \<Rightarrow> client_message \<Rightarrow> server_message" where
  "relay from m =
     \<lparr>sm_type = cm_type m, sm_client = None, sm_peers = None, sm_peer = Some from, sm_peer_id = None,
      sm_session = cm_session m, sm_sdp = cm_sdp m, sm_code = 0\<rparr>"

lemma relay_relays: "relayed from m (relay from m)"
  by (simp add: relayed_def relay_def)

definition demo_receiver :: rtc_receiver where
  "demo_receiver = new_rtc_receiver [] ''/b'' (\<lambda>p. None) (\<lambda>p. None)"

lemma demo_zlib: "(\<lambda>z. Some (rev z, False)) (rev x) = Some (x, False)" for x :: bytes
  by simp

lemma demo_begins:
  "\<exists>s1 cs1. send_begin (demo_sdp ''S'') rev True ''s1'' ''p'' [] 7 0 s demo_connected = Some (True, s1, cs1)"
  using connect_fresh [OF demo_connects]
  by (simp add: send_begin_def new_peer_connection_def create_offer_def demo_sdp_def send_offer_def enqueue_message_def
      on_answer_def send_capacity_def Let_def)

lemma demo_reserves: "\<exists>r1. reserve_offer E i a demo_receiver = (True, r1)"
  by (simp add: reserve_offer_def is_peer_blocked_def demo_receiver_def new_rtc_receiver_def Let_def gm_keep_def)

lemma demo_accepts:
  assumes "sm_peer msg = Some from" "sm_sdp msg = compress_sdp rev ''S''"
  shows "\<exists>r1 cr1. accept_offer E (demo_sdp ''R'') rev (\<lambda>z. Some (rev z, False)) True 1 msg demo_receiver demo_connected =
     Some (OfferAccepted, r1, cr1)"
proof -
  obtain r1 where r1: "reserve_offer E (ci_id from) (cb_alias from) demo_receiver = (True, r1)" using demo_reserves by blast
  from reserved [OF r1] have "install_peer 1 r1 = (True, r1\<lparr>rr_peer := Some 1, rr_accepting := False\<rparr>)"
    by (simp add: install_peer_def)
  moreover have "decompress_sdp (\<lambda>z. Some (rev z, False)) (compress_sdp rev ''S'') = Some ''S''"
    using session_descriptions_survive [of "\<lambda>z. Some (rev z, False)" rev "''S''"] by simp
  moreover note connect_fresh [OF demo_connects]
  ultimately show ?thesis
    using assms r1
    by (simp add: accept_offer_def new_peer_connection_def accept_sdp_offer_def demo_sdp_def send_answer_def
        enqueue_message_def send_capacity_def Let_def)
qed

theorem offer_is_answered_or_dropped_witness:
  "\<exists>r1 cr1. accept_offer rtc_demo_env (demo_sdp ''R'') rev (\<lambda>z. Some (rev z, False)) True 1
       (relay (demo_peer ''q'') (new_offer_message ''s1'' ''p'' (compress_sdp rev ''S''))) demo_receiver demo_connected =
     Some (OfferAccepted, r1, cr1) \<and> length (sg_send cr1) = length (sg_send demo_connected) + 1"
proof -
  let ?msg = "relay (demo_peer ''q'') (new_offer_message ''s1'' ''p'' (compress_sdp rev ''S''))"
  obtain r1 cr1 where
    a: "accept_offer rtc_demo_env (demo_sdp ''R'') rev (\<lambda>z. Some (rev z, False)) True 1 ?msg demo_receiver demo_connected =
      Some (OfferAccepted, r1, cr1)"
    using demo_accepts [of ?msg "demo_peer ''q''" rtc_demo_env] by (auto simp: relay_def new_offer_message_def)
  with offer_is_answered_or_dropped [OF a] show ?thesis by auto
qed

theorem offer_and_answer_cross_witness:
  "\<exists>s1 cs1 r1 cr1 cs3.
     send_begin (demo_sdp ''S'') rev True ''s1'' ''p'' [] 7 0 (new_rtc_sender [] (\<lambda>p. None)) demo_connected = Some (True, s1, cs1) \<and>
     accept_offer rtc_demo_env (demo_sdp ''R'') rev (\<lambda>z. Some (rev z, False)) True 1
       (relay (demo_peer ''q'') (last (sg_send cs1))) demo_receiver demo_connected = Some (OfferAccepted, r1, cr1) \<and>
     read_message False (relay (demo_peer ''p'') (last (sg_send cr1))) cs1 = Some cs3 \<and>
     answer_of (\<lambda>z. Some (rev z, False)) (snd (last (sg_called cs3))) = Some ''R''"
proof -
  let ?s = "new_rtc_sender [] (\<lambda>p. None)"
  obtain s1 cs1 where b: "send_begin (demo_sdp ''S'') rev True ''s1'' ''p'' [] 7 0 ?s demo_connected = Some (True, s1, cs1)"
    using demo_begins by blast
  note o = sent_offer [OF b]
  let ?offer = "relay (demo_peer ''q'') (last (sg_send cs1))"
  have "sm_sdp ?offer = compress_sdp rev ''S''" using o by (simp add: relay_def new_offer_message_def demo_sdp_def)
  then obtain r1 cr1 where
    a: "accept_offer rtc_demo_env (demo_sdp ''R'') rev (\<lambda>z. Some (rev z, False)) True 1 ?offer demo_receiver demo_connected =
      Some (OfferAccepted, r1, cr1)"
    using demo_accepts [of ?offer "demo_peer ''q''" rtc_demo_env] by (auto simp: relay_def)
  let ?answer = "relay (demo_peer ''p'') (last (sg_send cr1))"
  have l: "length (sd_local (demo_sdp ''S'')) \<le> 524288" "length (sd_local (demo_sdp ''R'')) \<le> 524288"
    by (simp_all add: demo_sdp_def)
  have w: "map_of (sg_answers cs1) ''s1'' = Some (7, 0)" using o by simp
  have z: "(\<lambda>z. Some (rev z, False)) (rev x) = Some (x, False)" for x :: bytes by simp
  from offer_and_answer_cross [of "\<lambda>z. Some (rev z, False)" rev, OF z l b _ relay_relays a relay_relays w]
  obtain cs3 where "read_message False ?answer cs1 = Some cs3" "last (sg_called cs3) = (7, ?answer)"
      "answer_of (\<lambda>z. Some (rev z, False)) ?answer = Some (sd_local (demo_sdp ''R''))"
    by auto
  with b a show ?thesis by (simp add: demo_sdp_def)
qed

end
