(* ===== verification/Recv_Command.thy ===== *)
theory Recv_Command
  imports RTC_Run Signaling
begin

text \<open>
  What the command \<open>cmd/recv\<close> adds to the receivers: the choice of the offered files (\<open>recv.go\<close>), the reconnects to the
  signaling server with the file that names the own identity, and the marker of transfer activity (\<open>activity.go\<close>).
\<close>

subsection \<open>Choosing files\<close>

definition select_allowed :: "(string \<Rightarrow> string) \<Rightarrow> string list \<Rightarrow> rtc_file list \<Rightarrow> string list" where
  "select_allowed lower exts files = map rf_id (filter (\<lambda>f. is_extension_allowed lower (rf_name f) exts) files)"

subsection \<open>Reconnecting\<close>

definition reconnect_initial :: duration where
  "reconnect_initial = second"

definition reconnect_max :: duration where
  "reconnect_max = 30 * second"

definition stable_session :: duration where
  "stable_session = 30 * second"

text \<open>\<open>rnd\<close> is what \<open>rand.Int64N\<close> gives for the bound it is called with.\<close>

definition jitter_reconnect_delay :: "(int \<Rightarrow> int) \<Rightarrow> duration \<Rightarrow> duration" where
  "jitter_reconnect_delay rnd base =
     (if base \<le> 0 then 0
      else let spread = base div 5 in if spread \<le> 0 then base else base - spread + rnd (2 * spread + 1))"

definition next_reconnect_backoff :: "duration \<Rightarrow> duration" where
  "next_reconnect_backoff current =
     (if current \<le> 0 then reconnect_initial
      else let next' = wrap64 (current * 2) in if reconnect_max < next' then reconnect_max else next')"

definition backoff_after_session :: "duration \<Rightarrow> duration \<Rightarrow> duration" where
  "backoff_after_session current session = (if stable_session \<le> session then reconnect_initial else current)"

text \<open>
  The loop of \<open>startWebRTCReceiver\<close>: \<open>rl_client\<close> is the connected identity, \<open>rl_file\<close> the content of the identity file,
  \<open>rl_delays\<close> what it waited for so far. \<open>RlUp\<close> tells whether the file could be written.
\<close>

record reconnect_loop =
  rl_backoff :: duration
  rl_client :: "string option"
  rl_file :: "string option"
  rl_delays :: "duration list"

datatype reconnect_event =
    RlRefused "int \<Rightarrow> int"
  | RlUp string bool
  | RlDown duration "int \<Rightarrow> int"

definition start_reconnect_loop :: reconnect_loop where
  "start_reconnect_loop = \<lparr>rl_backoff = reconnect_initial, rl_client = None, rl_file = None, rl_delays = []\<rparr>"

definition wait_reconnect :: "(int \<Rightarrow> int) \<Rightarrow> reconnect_loop \<Rightarrow> reconnect_loop" where
  "wait_reconnect rnd l = l\<lparr>rl_delays := rl_delays l @ [jitter_reconnect_delay rnd (rl_backoff l)]\<rparr>"

fun reconnect_step :: "reconnect_event \<Rightarrow> reconnect_loop \<Rightarrow> reconnect_loop option" where
  "reconnect_step (RlRefused rnd) l =
     (if rl_client l \<noteq> None then None
      else let l1 = wait_reconnect rnd (l\<lparr>rl_file := None\<rparr>)
           in Some (l1\<lparr>rl_backoff := next_reconnect_backoff (rl_backoff l1)\<rparr>))"
| "reconnect_step (RlUp i written) l =
     (if rl_client l \<noteq> None then None
      else Some (l\<lparr>rl_client := Some i, rl_file := (if written then Some i else rl_file l)\<rparr>))"
| "reconnect_step (RlDown session rnd) l =
     (if rl_client l = None then None
      else let l1 = l\<lparr>rl_file := None, rl_client := None, rl_backoff := backoff_after_session (rl_backoff l) session\<rparr>;
               l2 = wait_reconnect rnd l1
           in Some (l2\<lparr>rl_backoff := next_reconnect_backoff (rl_backoff l2)\<rparr>))"

fun reconnect_run :: "reconnect_event list \<Rightarrow> reconnect_loop \<Rightarrow> reconnect_loop option" where
  "reconnect_run [] l = Some l"
| "reconnect_run (e # es) l = (case reconnect_step e l of None \<Rightarrow> None | Some l' \<Rightarrow> reconnect_run es l')"

definition fair_random :: "(int \<Rightarrow> int) \<Rightarrow> bool" where
  "fair_random rnd \<longleftrightarrow> (\<forall>n>0. 0 \<le> rnd n \<and> rnd n < n)"

fun event_random :: "reconnect_event \<Rightarrow> (int \<Rightarrow> int) option" where
  "event_random (RlRefused rnd) = Some rnd"
| "event_random (RlDown d rnd) = Some rnd"
| "event_random (RlUp i w) = None"

definition reconnect_inv :: "reconnect_loop \<Rightarrow> bool" where
  "reconnect_inv l \<longleftrightarrow>
     second \<le> rl_backoff l \<and> rl_backoff l \<le> 30 * second \<and>
     (\<forall>i. rl_file l = Some i \<longrightarrow> rl_client l = Some i) \<and>
     (\<forall>d \<in> set (rl_delays l). 800000000 \<le> d \<and> d \<le> 36 * second)"

lemma backoff_bounds:
  "second \<le> b \<Longrightarrow> b \<le> 30 * second \<Longrightarrow>
     second \<le> next_reconnect_backoff b \<and> next_reconnect_backoff b \<le> 30 * second \<and> next_reconnect_backoff b = min (30 * second) (2 * b)"
  by (simp add: next_reconnect_backoff_def reconnect_max_def second_def wrap64_id int64_range_def Let_def)

lemma jitter_bounds:
  assumes "fair_random rnd" "second \<le> b" "b \<le> 30 * second"
  shows "800000000 \<le> jitter_reconnect_delay rnd b \<and> jitter_reconnect_delay rnd b \<le> 36 * second"
proof -
  let ?s = "b div 5"
  have s: "200000000 \<le> ?s" "?s \<le> 6 * second" "5 * ?s \<le> b" using assms(2,3) by (simp_all add: second_def)
  then have "0 < 2 * ?s + 1" by linarith
  then have "0 \<le> rnd (2 * ?s + 1) \<and> rnd (2 * ?s + 1) < 2 * ?s + 1" using assms(1) by (simp only: fair_random_def)
  with s assms(2,3) show ?thesis by (simp add: jitter_reconnect_delay_def Let_def second_def)
qed

lemma wait_inv:
  assumes "reconnect_inv l" "fair_random rnd"
  shows "reconnect_inv (wait_reconnect rnd l)"
  using assms jitter_bounds [OF assms(2), of "rl_backoff l"]
  by (auto simp: reconnect_inv_def wait_reconnect_def)

lemma reconnect_step_inv:
  assumes "reconnect_step e l = Some l'" "reconnect_inv l" "\<And>rnd. event_random e = Some rnd \<Longrightarrow> fair_random rnd"
  shows "reconnect_inv l'"
proof (cases e)
  case (RlRefused rnd)
  have "reconnect_inv (wait_reconnect rnd (l\<lparr>rl_file := None\<rparr>))"
    by (rule wait_inv) (use assms(2,3) RlRefused in \<open>auto simp: reconnect_inv_def\<close>)
  with assms(1) RlRefused backoff_bounds show ?thesis
    by (auto simp: reconnect_inv_def Let_def split: if_splits)
next
  case (RlUp i w)
  with assms(1,2) show ?thesis by (auto simp: reconnect_inv_def split: if_splits)
next
  case (RlDown d rnd)
  let ?l = "l\<lparr>rl_file := None, rl_client := None, rl_backoff := backoff_after_session (rl_backoff l) d\<rparr>"
  have "reconnect_inv (wait_reconnect rnd ?l)"
    by (rule wait_inv)
       (use assms(2,3) RlDown in \<open>auto simp: reconnect_inv_def backoff_after_session_def reconnect_initial_def second_def\<close>)
  with assms(1) RlDown backoff_bounds show ?thesis
    by (auto simp: reconnect_inv_def Let_def split: if_splits)
qed

lemma reconnect_run_inv:
  "reconnect_run es l = Some l' \<Longrightarrow> reconnect_inv l \<Longrightarrow>
     (\<And>e rnd. e \<in> set es \<Longrightarrow> event_random e = Some rnd \<Longrightarrow> fair_random rnd) \<Longrightarrow> reconnect_inv l'"
proof (induction es arbitrary: l)
  case Nil
  then show ?case by simp
next
  case (Cons e es)
  then obtain l1 where s: "reconnect_step e l = Some l1" and r: "reconnect_run es l1 = Some l'"
    by (auto split: option.splits)
  have "reconnect_inv l1" by (rule reconnect_step_inv [OF s Cons.prems(2)]) (use Cons.prems(3) in auto)
  with Cons.IH [OF r] Cons.prems(3) show ?case by auto
qed

text \<open>
  However often the signaling server refuses or drops the receiver, every wait before the next attempt is between
  0.8 and 36 seconds, and the identity file never names an identity that is not connected.
\<close>

theorem reconnects_are_paced:
  assumes "reconnect_run es start_reconnect_loop = Some l"
    and "\<forall>e \<in> set es. \<forall>rnd. event_random e = Some rnd \<longrightarrow> fair_random rnd"
  shows "(\<forall>d \<in> set (rl_delays l). 800000000 \<le> d \<and> d \<le> 36000000000) \<and>
     (\<forall>i. rl_file l = Some i \<longrightarrow> rl_client l = Some i)"
proof -
  have "reconnect_inv start_reconnect_loop"
    by (simp add: reconnect_inv_def start_reconnect_loop_def reconnect_initial_def second_def)
  from reconnect_run_inv [OF assms(1) this] assms(2) show ?thesis by (auto simp: reconnect_inv_def second_def)
qed

theorem reconnects_are_paced_witness:
  "\<exists>l. reconnect_run [RlRefused (\<lambda>n. 0), RlUp ''me'' True] start_reconnect_loop = Some l \<and>
     rl_delays l = [800000000] \<and> rl_file l = Some ''me'' \<and> rl_client l = Some ''me''"
proof -
  let ?es = "[RlRefused (\<lambda>n. 0), RlUp ''me'' True]"
  have "\<exists>l. reconnect_run ?es start_reconnect_loop = Some l \<and> rl_delays l = [800000000] \<and> rl_file l = Some ''me''"
    by (simp add: start_reconnect_loop_def wait_reconnect_def jitter_reconnect_delay_def reconnect_initial_def second_def Let_def)
  then obtain l where l: "reconnect_run ?es start_reconnect_loop = Some l" "rl_delays l = [800000000]" "rl_file l = Some ''me''"
    by blast
  have "\<forall>e \<in> set ?es. \<forall>rnd. event_random e = Some rnd \<longrightarrow> fair_random rnd"
    by (simp add: fair_random_def)
  from reconnects_are_paced [OF l(1) this] l show ?thesis by blast
qed

subsection \<open>The activity marker\<close>

text \<open>\<open>am_file\<close> tells whether the file exists; the flag of \<open>Begin\<close> whether it can be written.\<close>

record activity_marker =
  am_path :: string
  am_active :: nat
  am_file :: bool

definition new_activity_marker :: "string \<Rightarrow> bool \<Rightarrow> activity_marker" where
  "new_activity_marker path file = \<lparr>am_path = path, am_active = 0, am_file = (path = [] \<and> file)\<rparr>"

definition marker_begin :: "bool \<Rightarrow> activity_marker \<Rightarrow> activity_marker" where
  "marker_begin written m =
     (if am_path m = [] then m
      else let m1 = m\<lparr>am_active := am_active m + 1\<rparr>
           in if am_active m1 = 1 then m1\<lparr>am_file := written \<or> am_file m1\<rparr> else m1)"

definition marker_end :: "activity_marker \<Rightarrow> activity_marker" where
  "marker_end m =
     (if am_path m = [] \<or> am_active m = 0 then m
      else let m1 = m\<lparr>am_active := am_active m - 1\<rparr> in if am_active m1 = 0 then m1\<lparr>am_file := False\<rparr> else m1)"

definition marker_close :: "activity_marker \<Rightarrow> activity_marker" where
  "marker_close m = (if am_path m = [] then m else m\<lparr>am_active := 0, am_file := False\<rparr>)"

datatype marker_event = MkBegin bool | MkEnd | MkClose

fun marker_step :: "marker_event \<Rightarrow> activity_marker \<Rightarrow> activity_marker" where
  "marker_step (MkBegin ok) m = marker_begin ok m"
| "marker_step MkEnd m = marker_end m"
| "marker_step MkClose m = marker_close m"

text \<open>The transfers under way, counted without the marker.\<close>

fun running_transfers :: "marker_event list \<Rightarrow> nat \<Rightarrow> nat" where
  "running_transfers [] n = n"
| "running_transfers (MkBegin ok # es) n = running_transfers es (n + 1)"
| "running_transfers (MkEnd # es) n = running_transfers es (n - 1)"
| "running_transfers (MkClose # es) n = running_transfers es 0"

lemma marker_run:
  assumes "MkBegin False \<notin> set es" "am_path m \<noteq> []" "am_file m \<longleftrightarrow> 0 < am_active m"
  shows "am_active (fold marker_step es m) = running_transfers es (am_active m) \<and>
     am_file (fold marker_step es m) = (0 < running_transfers es (am_active m))"
  using assms
proof (induction es arbitrary: m)
  case Nil
  then show ?case by simp
next
  case (Cons e es)
  let ?m = "marker_step e m"
  have "am_path ?m \<noteq> [] \<and> (am_file ?m \<longleftrightarrow> 0 < am_active ?m) \<and> running_transfers (e # es) (am_active m) = running_transfers es (am_active ?m)"
    using Cons.prems by (cases e) (auto simp: marker_begin_def marker_end_def marker_close_def Let_def)
  with Cons.IH [of ?m] Cons.prems(1) show ?case by simp
qed

text \<open>
  Whatever HTTP uploads and WebRTC transfers begin and end concurrently, the busy file exists exactly while some
  transfer is under way, as long as it can be written.
\<close>

theorem busy_file_while_active:
  assumes "MkBegin False \<notin> set es" "path \<noteq> []"
  shows "am_file (fold marker_step es (new_activity_marker path stale)) \<longleftrightarrow> 0 < running_transfers es 0"
  using marker_run [OF assms(1), of "new_activity_marker path stale"] assms(2) by (simp add: new_activity_marker_def)

theorem busy_file_while_active_witness:
  "am_file (fold marker_step [MkBegin True, MkBegin True, MkEnd] (new_activity_marker ''busy'' True)) \<longleftrightarrow>
     0 < running_transfers [MkBegin True, MkBegin True, MkEnd] 0"
  by (rule busy_file_while_active) simp_all

end
