(* ===== verification/Recv_Demo.thy ===== *)
theory Recv_Demo
  imports Recv_Command RTC_Props
begin

text \<open>
  A transfer to the receiver of \<open>cmd/recv\<close> with its extension filter as the selection of files, run to its end: with an
  allowed file, and with a forbidden one listed before it under the same id.
\<close>

subsection \<open>A repeated id\<close>

text \<open>
  The transfer of \<^verbatim>\<open>RTC_Demo\<close> without a PIN and with the filter. With \<open>dup\<close> the list has another file before the allowed
  one, under the same id.
\<close>

definition sh_file :: "bool \<Rightarrow> rtc_file" where
  "sh_file dup = (if dup then rtc_demo_file\<lparr>rf_name := ''a.sh''\<rparr> else rtc_demo_file)"

definition sh_files :: "bool \<Rightarrow> rtc_file list" where
  "sh_files dup = (if dup then [sh_file True, rtc_demo_file] else [rtc_demo_file])"

definition sh_json :: "bool \<Rightarrow> (bytes, json) gomap" where
  "sh_json dup = (''L'', encode_file_list ''OK'' (sh_files dup)) # rtc_demo_json"

definition sh_env :: "bool \<Rightarrow> rtc_env" where
  "sh_env dup = rtc_demo_env\<lparr>re_select := Some (select_allowed (\<lambda>s. s) [''txt'']), re_parse := map_of (sh_json dup)\<rparr>"

definition sh_base :: "bool \<Rightarrow> string" where
  "sh_base dup = (if dup then ''a.sh'' else ''a.txt'')"

definition sh_target :: "bool \<Rightarrow> string" where
  "sh_target dup = (if dup then ''/b/a.sh'' else ''/b/a.txt'')"

lemma sh_env_simps:
  "re_now (sh_env dup) = 1000" "re_send_fails (sh_env dup) = False" "re_delimiter_fails (sh_env dup) = False"
  "re_nonce (sh_env dup) = Some rtc_demo_local" "re_tokens (sh_env dup) = (\<lambda>n. ''k0'')"
  "re_select (sh_env dup) = Some (select_allowed (\<lambda>s. s) [''txt''])" "re_parse (sh_env dup) = map_of (sh_json dup)"
  "re_sha (sh_env dup) = (\<lambda>c. ''h'')" "re_lower (sh_env dup) = (\<lambda>s. s)" "write_fails (sh_env dup) = False"
  "flush_fails (sh_env dup) = False" "close_fails (sh_env dup) = False" "env_io (sh_env dup) = no_faults"
  "re_ops (sh_env dup) = toy_ops" "re_key (sh_env dup) = toy_key" "re_key_pem (sh_env dup) = ''pem''"
  by (simp_all add: sh_env_def rtc_demo_env_def io_env.defs no_faults_def)

lemma sh_text: "d \<noteq> ''L'' \<Longrightarrow> map_of (sh_json dup) d = map_of rtc_demo_json d"
  "map_of (sh_json dup) ''L'' = Some (encode_file_list ''OK'' (sh_files dup))"
  by (simp_all add: sh_json_def)

lemma sh_message: "d \<noteq> ''L'' \<Longrightarrow> parse_rtc_message (map_of (sh_json dup)) d = parse_rtc_message (map_of rtc_demo_json) d"
  by (simp add: parse_rtc_message_def sh_text)

lemma sh_list:
  "parse_rtc_message (map_of (sh_json dup)) ''L'' = Some (MFileList ''OK'' (sh_files dup))"
  "decode_file_list (encode_file_list ''OK'' (sh_files dup)) = Some (''OK'', sh_files dup)"
  using decode_encode_file [of rtc_demo_file] decode_encode_file [of "sh_file True"]
  by (simp_all add: parse_rtc_message_def sh_text wire_defs parse_status_def decode_file_list_def
      rtc_demo_file_def sh_file_def sh_files_def int64_range_def Let_def)

lemmas sh_simps = sh_env_simps rtc_demo_messages rtc_demo_decode rtc_demo_generate rtc_demo_text sh_text sh_message

lemma sh_fields: "rf_id (sh_file dup) = ''f''" "rf_name (sh_file dup) = sh_base dup" "rf_sha (sh_file dup) = ''h''" "rf_size (sh_file dup) = 3"
  "rf_id rtc_demo_file = ''f''" "rf_name rtc_demo_file = ''a.txt''" "index_files (sh_files dup) [] = [(''f'', sh_file dup)]"
  by (simp_all add: rtc_demo_file_def sh_file_def sh_files_def sh_base_def)

definition sh_5 :: "bool \<Rightarrow> rtc_receiver" where
  "sh_5 dup = (rtc_demo_3 [] False)
     \<lparr>rr_state := WaitFiles, rr_files := sh_files dup, rr_file_by_id := [(''f'', sh_file dup)], rr_folder_known := True,
      rr_accepted := [''f''], rr_tokens := [(''f'', ''k0'')], rr_remapper := Some \<lparr>remap = [], remap_dir = ''/b''\<rparr>,
      rr_sent := rr_sent (rtc_demo_3 [] False) @ [OutFileList status_ok [(''f'', ''k0'')] [], OutDelimiter]\<rparr>"

definition sh_6 :: "bool \<Rightarrow> rtc_receiver" where
  "sh_6 dup = (sh_5 dup)
     \<lparr>rr_state := ReceivingFiles, rr_current := ''f'', rr_paths := [(''f'', sh_target dup)],
      rr_buffers := [(''f'', ([], False))], rr_hashers := [(''f'', [])], rr_ensured := [''/b''],
      rr_unique := snd (alloc_create no_faults ''/b'' (sh_base dup) [] books_disk),
      rr_active := True, rr_generation := 1, rr_last_id := ''f'',
      rr_last_progress := 1000, rr_starts := 1, rr_disk := books_disk(sh_target dup \<mapsto> File [] None)\<rparr>"

lemma sh_start: "rtc_run [EvOffer (sh_env dup) ''peer'' ''Phone'', EvPeer 1] (rtc_demo_receiver pin pairing) = Some (rtc_demo_1 pin pairing)"
  by (simp add: sh_simps rtc_demo_state_defs reserve_offer_def is_peer_blocked_def gm_keep_def cleanup_partial_files_def
      mark_transfer_done_def remove_paths_def alloc_reset_def install_peer_def)

lemma sh_12: "rtc_step (EvData (sh_env dup) ''N'' True) (rtc_demo_1 pin pairing) = Some (rtc_demo_2 pin pairing)"
  by (simp add: sh_simps rtc_demo_state_defs rtc_demo_step_defs handle_nonce_def rtc_demo_nonces_def)

lemma sh_23: "rtc_step (EvData (sh_env dup) ''T'' True) (rtc_demo_2 pin pairing) = Some (rtc_demo_3 pin pairing)"
  by (simp add: sh_simps rtc_demo_state_defs rtc_demo_step_defs handle_token_def)

lemma sh_names:
  "sanitize_path_with_fallback (sh_base dup) = Inr (sh_base dup)" "full_save_dir ''/b'' (sh_base dup) = ''/b''"
  "path_base (sh_base dup) = sh_base dup" "path_base (sh_target dup) = sh_base dup" "candidate ''/b'' (sh_base dup) 0 = sh_target dup"
  "path_dir (sh_target dup) = ''/b''"
  by (induct dup; code_simp)+

lemma sh_clean: "clean_names (sh_files dup) = (if dup then [''a.sh'', ''a.txt''] else [''a.txt''])"
  using sh_names(1) [of True] sh_names(1) [of False]
  by (simp add: clean_names_def sh_files_def sh_fields has_nul_def) (simp add: sh_base_def)

lemma sh_remap: "new_folder_remapper ''/b'' (clean_names (sh_files dup)) books_disk = Some \<lparr>remap = [], remap_dir = ''/b''\<rparr>"
  unfolding sh_clean books_disk_def by (induct dup; code_simp)

lemma sh_selected: "select_allowed (\<lambda>s. s) [''txt''] (sh_files dup) = [''f'']"
  unfolding sh_files_def sh_file_def rtc_demo_file_def by (induct dup; code_simp)

lemma sh_35: "rtc_step (EvData (sh_env dup) ''L'' True) (rtc_demo_3 [] False) = Some (sh_5 dup)"
proof -
  have small: "length (sh_files dup) < 3" "list_ex (\<lambda>f. contains_str ''/'' (rf_name f)) (sh_files dup) = False"
    by (simp_all add: sh_files_def sh_fields sh_base_def has_prefix_def)
  have "has_nul (sh_base dup) = False" by (simp add: has_nul_def sh_base_def)
  then show ?thesis
    using small sh_remap [of dup]
    by (simp add: sh_simps sh_list sh_selected sh_fields sh_names sh_5_def rtc_demo_state_defs rtc_demo_step_defs handle_file_list_eq
        max_files_per_session_def rtc_folder_transfer_def rebuild_file_index_def accept_files_now_def
        prepare_files_for_receive_def rtc_prepare_folder_remap_def file_meta_by_id_def send_chunked_def)
qed

lemma sh_alloc:
  "fst (alloc_create no_faults ''/b'' (sh_base dup) [] books_disk) = Some (sh_target dup, books_disk(sh_target dup \<mapsto> File [] None))"
proof -
  have "books_disk (sh_target dup) = None" "books_disk ''/b'' = Some Dir" by (simp_all add: books_disk_def sh_target_def)
  then show ?thesis
    using sh_names(5,6) [of dup]
    by (auto simp: alloc_create_from create_from_finds open_excl_def no_faults_def next_suffix_def intro!: exI [of _ 0])
qed

lemma sh_56: "rtc_step (EvData (sh_env dup) ''H'' True) (sh_5 dup) = Some (sh_6 dup)"
proof -
  obtain a where a: "alloc_create no_faults ''/b'' (sh_base dup) [] books_disk
      = (Some (sh_target dup, books_disk(sh_target dup \<mapsto> File [] None)), a)"
    using sh_alloc by (metis prod.collapse)
  have p: "rtc_apply_folder_remap r (sh_base dup) = sh_base dup" if "rr_remapper r = Some \<lparr>remap = [], remap_dir = ''/b''\<rparr>" for r
    using that by (simp add: rtc_apply_folder_remap_def remap_apply_def split: prod.split)
  show ?thesis
    using sh_names rtc_demo_dirs a
    by (simp add: sh_simps sh_fields p sh_5_def sh_6_def rtc_demo_state_defs rtc_demo_step_defs handle_file_header_def
        start_receiving_file_def validate_file_header_def file_meta_by_id_def rtc_save_dir_def rtc_folder_transfer_def
        rtc_ensure_save_dir_def mark_transfer_started_def)
qed

definition sh_events :: "bool \<Rightarrow> rtc_event list" where
  "sh_events dup = [EvOffer (sh_env dup) ''peer'' ''Phone'', EvPeer 1] @
     [EvData (sh_env dup) ''N'' True, EvData (sh_env dup) ''T'' True, EvData (sh_env dup) ''L'' True, EvData (sh_env dup) ''H'' True] @
     [EvData (sh_env dup) ''abc'' False, EvData (sh_env dup) ''0'' True]"

lemma sh_end:
  "\<exists>r. rtc_run [EvData (sh_env dup) ''abc'' False, EvData (sh_env dup) ''0'' True] (sh_6 dup) = Some r \<and>
     rr_disk r (sh_target dup) = Some (File ''abc'' None) \<and> rr_received r = [(sh_base dup, 3)]"
  using sh_names(4) [of dup]
  by (simp add: sh_simps sh_5_def sh_6_def sh_fields rtc_demo_state_defs rtc_demo_step_defs handle_binary_data_def
      finish_current_file_def file_meta_by_id_def mark_transfer_done_def write_file_def)

lemma sh_run:
  "\<exists>r. rtc_run (sh_events dup) (configured [] ''/b'' None False None books_disk (\<lambda>p. None)) = Some r \<and>
     rr_disk r (sh_target dup) = Some (File ''abc'' None) \<and> rr_received r = [(sh_base dup, 3)]"
proof -
  have "rtc_run [EvData (sh_env dup) ''N'' True, EvData (sh_env dup) ''T'' True, EvData (sh_env dup) ''L'' True,
      EvData (sh_env dup) ''H'' True] (rtc_demo_1 [] False) = Some (sh_6 dup)"
    by (simp only: rtc_run.simps sh_12 sh_23 sh_35 sh_56 option.case)
  then have "rtc_run (sh_events dup) (rtc_demo_receiver [] False) =
      rtc_run [EvData (sh_env dup) ''abc'' False, EvData (sh_env dup) ''0'' True] (sh_6 dup)"
    unfolding sh_events_def run_append sh_start option.case by (simp only: option.case)
  then show ?thesis using sh_end [of dup] by (simp flip: demo_configured)
qed

text \<open>
  C34: The extension filter of the WebRTC receiver can be passed: when a sender lists a forbidden file first and an allowed
  one after it under the same id, the filter accepts the id for the second and the receiver stores the first. Here
  only \<^verbatim>\<open>.txt\<close> is allowed and \<^verbatim>\<open>a.sh\<close> is received.
\<close>

theorem repeated_id_passes_filter:
  "\<exists>r. rtc_run (sh_events True) (configured [] ''/b'' None False None books_disk (\<lambda>p. None)) = Some r \<and>
     re_select (sh_env True) = Some (select_allowed (\<lambda>s. s) [''txt'']) \<and>
     rr_disk r ''/b/a.sh'' = Some (File ''abc'' None) \<and> rr_received r = [(''a.sh'', 3)] \<and>
     books_disk ''/b/a.sh'' = None \<and> \<not> is_extension_allowed (\<lambda>s. s) ''a.sh'' [''txt'']"
proof -
  have "\<not> is_extension_allowed (\<lambda>s. s) ''a.sh'' [''txt'']" by code_simp
  moreover have "books_disk ''/b/a.sh'' = None" by (simp add: books_disk_def)
  ultimately show ?thesis using sh_run [of True] by (simp add: sh_env_simps sh_target_def sh_base_def)
qed

end
