(* ===== verification/RTC_Net.thy ===== *)
theory RTC_Net
  imports Recv_Demo
begin

text \<open>
  The WebRTC receiver with its connections and with the handlers that wait for the user. \<open>handleFileList\<close> releases the
  mutex while a callback asks for a PIN or for the files to accept, and takes it again without looking at what has
  changed; a run here puts any other steps in between. Frames come from a channel of a connection: a peer may open
  several, and each delivers its frames one after the other, so that one handler of a channel runs at a time.

  What holds of every such run: the PIN comes before any file. What holds as long as no handler resumes while a file is
  open: the receiver is the file machine of \<open>RTC_Files\<close>. The last section has the runs that show what else can happen.
\<close>

subsection \<open>Connections and handlers that wait\<close>

type_synonym channel = "nat \<times> nat"

record rtc_net =
  rn_receiver :: rtc_receiver
  rn_peers :: "nat list"
  rn_asking :: "(channel, asking) gomap"

definition net_of :: "rtc_receiver \<Rightarrow> rtc_net" where
  "net_of r = \<lparr>rn_receiver = r, rn_peers = [], rn_asking = []\<rparr>"

text \<open>
  \<open>NetData\<close> delivers a frame on a channel of a connection made before, \<open>NetResume\<close> lets a callback return. Every
  connection is a new one.
\<close>

datatype rtc_net_event =
    NetStep rtc_event
  | NetData channel rtc_env bytes bool
  | NetResume channel rtc_env

fun net_step :: "rtc_net_event \<Rightarrow> rtc_net \<Rightarrow> rtc_net option" where
  "net_step (NetStep e) s =
     (case e of
        EvData E data is_string \<Rightarrow> None
      | EvPeer p \<Rightarrow>
          if p \<in> set (rn_peers s) then None
          else Some (s\<lparr>rn_receiver := snd (install_peer p (rn_receiver s)), rn_peers := p # rn_peers s\<rparr>)
      | _ \<Rightarrow> map_option (\<lambda>r. s\<lparr>rn_receiver := r\<rparr>) (rtc_step e (rn_receiver s)))"
| "net_step (NetData ch E data is_string) s =
     (if fst ch \<notin> set (rn_peers s) \<or> map_of (rn_asking s) ch \<noteq> None then None
      else
        (case begin_data_message E data is_string (rn_receiver s) of
           None \<Rightarrow> None
         | Some (r, None) \<Rightarrow> Some (s\<lparr>rn_receiver := r\<rparr>)
         | Some (r, Some k) \<Rightarrow> Some (s\<lparr>rn_receiver := r, rn_asking := AList.update ch k (rn_asking s)\<rparr>)))"
| "net_step (NetResume ch E) s =
     (case map_of (rn_asking s) ch of
        None \<Rightarrow> None
      | Some k \<Rightarrow>
          Some (s\<lparr>rn_receiver := resume_file_list E k (rn_receiver s), rn_asking := AList.delete ch (rn_asking s)\<rparr>))"

fun net_run :: "rtc_net_event list \<Rightarrow> rtc_net \<Rightarrow> rtc_net option" where
  "net_run [] s = Some s"
| "net_run (e # es) s = (case net_step e s of None \<Rightarrow> None | Some s' \<Rightarrow> net_run es s')"

lemma net_run_append:
  "net_run (xs @ ys) s = (case net_run xs s of None \<Rightarrow> None | Some s' \<Rightarrow> net_run ys s')"
  by (induction xs arbitrary: s) (simp_all split: option.split)

lemma net_run_snoc:
  "net_run (xs @ [e]) s = Some s' \<longleftrightarrow> (\<exists>s1. net_run xs s = Some s1 \<and> net_step e s1 = Some s')"
  by (auto simp: net_run_append split: option.splits)

text \<open>The steps on the receiver: an event of \<open>rtc_step\<close> whose question is not open, a question, or a resumption.\<close>

lemma net_step_cases:
  assumes "net_step e s = Some s'"
  obtains (receiver) e' where "rtc_step e' (rn_receiver s) = Some (rn_receiver s')" "rn_asking s' = rn_asking s"
      "e = NetStep e' \<and> (\<forall>E d t. e' \<noteq> EvData E d t) \<or> (\<exists>ch E d t. e = NetData ch E d t \<and> e' = EvData E d t)"
  | (asks) ch E d t k where "e = NetData ch E d t" "begin_data_message E d t (rn_receiver s) = Some (rn_receiver s', Some k)"
      "rn_asking s' = AList.update ch k (rn_asking s)"
  | (resumes) ch E k where "e = NetResume ch E" "map_of (rn_asking s) ch = Some k"
      "rn_receiver s' = resume_file_list E k (rn_receiver s)" "rn_asking s' = AList.delete ch (rn_asking s)"
proof (cases e)
  case (NetStep e')
  with assms have "rtc_step e' (rn_receiver s) = Some (rn_receiver s')" "rn_asking s' = rn_asking s" "\<forall>E d t. e' \<noteq> EvData E d t"
    by (auto split: rtc_event.splits if_splits)
  with NetStep receiver show thesis by blast
next
  case (NetData ch E d t)
  with assms obtain r k where b: "begin_data_message E d t (rn_receiver s) = Some (r, k)"
      "s' = (case k of None \<Rightarrow> s\<lparr>rn_receiver := r\<rparr> | Some k \<Rightarrow> s\<lparr>rn_receiver := r, rn_asking := AList.update ch k (rn_asking s)\<rparr>)"
    by (auto split: if_splits option.splits)
  show thesis
  proof (cases k)
    case None
    with b have "handle_data_message E d t (rn_receiver s) = Some (rn_receiver s')"
      by (simp add: handle_data_message_parts resume_asking_def)
    with NetData b(2) None show thesis by (intro receiver [of "EvData E d t"]) auto
  next
    case (Some x)
    with NetData b show thesis by (intro asks [of ch E d t x]) auto
  qed
next
  case (NetResume ch E)
  with assms obtain k where "map_of (rn_asking s) ch = Some k" by (auto split: option.splits)
  with NetResume assms show thesis by (intro resumes [of ch E k]) auto
qed

text \<open>
  The runs of \<open>rtc_run\<close> are those in which every question is answered at once.
\<close>

lemma answered_at_once:
  assumes "handle_data_message E d t (rn_receiver s) = Some r" "fst ch \<in> set (rn_peers s)" "map_of (rn_asking s) ch = None"
  shows "\<exists>es s'. es \<in> {[NetData ch E d t], [NetData ch E d t, NetResume ch E]} \<and> net_run es s = Some s' \<and>
    rn_receiver s' = r \<and> rn_peers s' = rn_peers s \<and> (\<forall>c. map_of (rn_asking s') c = map_of (rn_asking s) c)"
proof -
  obtain r1 k where b: "begin_data_message E d t (rn_receiver s) = Some (r1, k)" "resume_asking E (r1, k) = r"
    using assms(1) by (auto simp: handle_data_message_parts)
  show ?thesis
  proof (cases k)
    case None
    with b assms(2,3) show ?thesis
      by (intro exI [of _ "[NetData ch E d t]"] exI [of _ "s\<lparr>rn_receiver := r\<rparr>"]) (simp add: resume_asking_def)
  next
    case (Some x)
    with b assms(2,3) show ?thesis
      by (intro exI [of _ "[NetData ch E d t, NetResume ch E]"]
            exI [of _ "s\<lparr>rn_receiver := r, rn_asking := AList.delete ch (AList.update ch x (rn_asking s))\<rparr>"])
         (auto simp: resume_asking_def delete_conv' update_conv' fun_upd_def)
  qed
qed

subsection \<open>A question and its answer\<close>

lemma begin_asks:
  assumes "begin_data_message E d t r = Some (r', Some k)"
  obtains (pin) c f where "rr_state r = WaitFileList" "re_pin_answer E = Some f"
      "r' = r\<lparr>rr_control := c, rr_provided_pins := rr_provided_pins r + 1\<rparr>" "k = AskingPin f (rr_provided_pins r + 1)"
  | (files) c f x j st fs where "rr_state r = WaitFileList" "re_select E = Some f" "re_parse E x = Some j"
      "decode_file_list j = Some (st, fs)" "r' = offered (r\<lparr>rr_control := c\<rparr>) fs (rr_accepted r)" "k = SelectingFiles f fs"
proof -
  obtain x r1 msg where x: "completed_message d t r = Some (x, r1)" "rr_state r1 = WaitFileList"
      "parse_rtc_message (re_parse E) x = Some msg" "begin_file_list E msg (the (re_parse E x)) r1 = (r', Some k)"
    using assms by (auto simp: begin_data_message_def Let_def split: option.splits if_splits)
  have "\<exists>c. r1 = r\<lparr>rr_control := c\<rparr>"
  proof -
    have "r1 = r\<lparr>rr_control := rr_control r1\<rparr>" using x(1) by (auto simp: completed_message_def split: if_splits)
    then show ?thesis by blast
  qed
  then obtain c where r1: "r1 = r\<lparr>rr_control := c\<rparr>" ..
  have j: "re_parse E x = Some (the (re_parse E x))" using x(3) by (auto simp: parse_rtc_message_def split: option.splits)
  have o: "offered y fs (rr_accepted y) = snd (rtc_folder_transfer ((rebuild_file_index (y\<lparr>rr_files := fs\<rparr>))\<lparr>rr_folder_known := False\<rparr>))" for y fs
    by (simp add: offered_def rtc_folder_transfer_def rebuild_file_index_def Let_def)
  from x(4) consider f where "re_pin_answer E = Some f" "r' = r1\<lparr>rr_provided_pins := rr_provided_pins r1 + 1\<rparr>"
      "k = AskingPin f (rr_provided_pins r1 + 1)"
    | f st fs where "re_select E = Some f" "decode_file_list (the (re_parse E x)) = Some (st, fs)"
      "r' = offered r1 fs (rr_accepted r1)" "k = SelectingFiles f fs"
    by (auto simp: begin_file_list_def Let_def o split: if_splits option.splits)
  then show thesis
  proof cases
    case (1 f)
    with x(2) r1 show thesis by (intro pin [of f c]) auto
  next
    case (2 f st fs)
    with x(2) r1 j show thesis by (intro files [of f x "the (re_parse E x)" st fs c]) auto
  qed
qed

lemma answer_list_eq:
  "answer_file_list E ids r =
     (let r1 = r\<lparr>rr_accepted := ids\<rparr>;
          ask = (case send_chunked E (OutFileList status_pair [] (re_key_pem E)) r1 of
                   (True, r2) \<Rightarrow> r2\<lparr>rr_state := WaitPairResponse\<rparr> | (False, r2) \<Rightarrow> r2)
      in if rr_peer r1 = None then r1
         else if ids = [] then try_chunked E (OutFileList status_declined [] []) r1
         else if rr_require_pairing r1 \<and> rr_sender_key r1 = None then ask
         else accept_files_now E r1)"
  by (simp add: answer_file_list_def)

lemma chunked_shape:
  "\<exists>b s. send_chunked E m r = (b, r\<lparr>rr_sent := s\<rparr>) \<and> (b \<or> re_send_fails E \<or> re_delimiter_fails E \<or> rr_peer r = None)"
proof (cases "rr_peer r = None \<or> re_send_fails E")
  case True
  then show ?thesis by (intro exI [of _ False] exI [of _ "rr_sent r"]) (auto simp: send_chunked_def send_msg_def)
next
  case False
  then show ?thesis
    by (intro exI [of _ "\<not> re_delimiter_fails E"]
          exI [of _ "rr_sent r @ m # (if re_delimiter_fails E then [] else [OutDelimiter])"])
       (auto simp: send_chunked_def send_msg_def)
qed

lemma answer_list_cases:
  obtains (gone) "answer_file_list E ids r = r\<lparr>rr_accepted := ids\<rparr>" "rr_peer r = None"
  | (declined) m where "answer_file_list E ids r = try_chunked E m (r\<lparr>rr_accepted := ids\<rparr>)" "ids = []"
  | (pairing) s where "answer_file_list E ids r = r\<lparr>rr_accepted := ids, rr_sent := s, rr_state := WaitPairResponse\<rparr>"
  | (unsent) s where "answer_file_list E ids r = r\<lparr>rr_accepted := ids, rr_sent := s\<rparr>" "re_send_fails E \<or> re_delimiter_fails E"
  | (accepted) "answer_file_list E ids r = accept_files_now E (r\<lparr>rr_accepted := ids\<rparr>)" "rr_peer r \<noteq> None"
proof -
  let ?r1 = "r\<lparr>rr_accepted := ids\<rparr>"
  consider "rr_peer r = None" | "rr_peer r \<noteq> None" "ids = []"
    | "rr_peer r \<noteq> None" "ids \<noteq> []" "rr_require_pairing r \<and> rr_sender_key r = None"
    | "rr_peer r \<noteq> None" "ids \<noteq> []" "\<not> (rr_require_pairing r \<and> rr_sender_key r = None)" by blast
  then show thesis
  proof cases
    case 3
    obtain b s where c: "send_chunked E (OutFileList status_pair [] (re_key_pem E)) ?r1 = (b, ?r1\<lparr>rr_sent := s\<rparr>)"
        "b \<or> re_send_fails E \<or> re_delimiter_fails E"
      using chunked_shape [of E "OutFileList status_pair [] (re_key_pem E)" ?r1] 3(1) by auto
    have a: "answer_file_list E ids r = (if b then ?r1\<lparr>rr_sent := s, rr_state := WaitPairResponse\<rparr> else ?r1\<lparr>rr_sent := s\<rparr>)"
      unfolding answer_file_list_def Let_def c(1) using 3 by auto
    show thesis
    proof (cases b)
      case True
      with a pairing [of s] show thesis by simp
    next
      case False
      with a c(2) unsent [of s] show thesis by simp
    qed
  qed (use gone declined accepted in \<open>auto simp: answer_file_list_def\<close>)
qed

lemma answer_pin_cases:
  obtains m where "answer_pin E pin r = try_send E m r" | "answer_pin E pin r = terminate E r"
proof (cases "rr_peer r = None \<or> re_send_fails E")
  case True
  then show thesis by (intro that(2)) (auto simp: answer_pin_def send_msg_def)
next
  case False
  then show thesis by (intro that(1) [of "OutPin pin"]) (auto simp: answer_pin_def send_defs)
qed

subsection \<open>The file machine\<close>

text \<open>Every handler of a file list that resumes in a run finds a receiver that satisfies \<open>P\<close> for the files it asked about.\<close>

fun lists_resume_when :: "(rtc_file list \<Rightarrow> rtc_receiver \<Rightarrow> bool) \<Rightarrow> rtc_net_event list \<Rightarrow> rtc_net \<Rightarrow> bool" where
  "lists_resume_when P [] s \<longleftrightarrow> True"
| "lists_resume_when P (e # es) s \<longleftrightarrow>
     (case e of
        NetResume ch E \<Rightarrow>
          (case map_of (rn_asking s) ch of Some (SelectingFiles f files) \<Rightarrow> P files (rn_receiver s) | _ \<Rightarrow> True)
      | _ \<Rightarrow> True) \<and>
     (case net_step e s of None \<Rightarrow> True | Some s' \<Rightarrow> lists_resume_when P es s')"

lemma net_invariant:
  assumes "net_run evs s = Some s'" "lists_resume_when P evs s" "I s"
    and step: "\<And>e s s'. I s \<Longrightarrow> e \<in> set evs \<Longrightarrow> net_step e s = Some s' \<Longrightarrow> lists_resume_when P [e] s \<Longrightarrow> I s'"
  shows "I s'"
  using assms
proof (induction evs arbitrary: s)
  case Nil
  then show ?case by simp
next
  case (Cons e es)
  from Cons.prems(1) obtain s1 where s1: "net_step e s = Some s1" "net_run es s1 = Some s'"
    by (auto simp del: net_step.simps split: option.splits)
  have w: "lists_resume_when P es s1" "lists_resume_when P [e] s"
    using Cons.prems(2) by (simp_all only: lists_resume_when.simps s1(1) option.case simp_thms)
  note step = Cons.prems(4)
  have "I s1" using Cons.prems(3) list.set_intros(1) s1(1) w(2) by (rule step)
  then show ?case
  proof (rule Cons.IH [OF s1(2) w(1)])
    fix e' x x'
    assume "I x" "e' \<in> set es" "net_step e' x = Some x'" "lists_resume_when P [e'] x"
    then show "I x'" using step [of x e' x'] by simp
  qed
qed

lemma answer_list_quiet:
  "quiet r (answer_file_list E ids r) \<and> rr_state (answer_file_list E ids r) \<in> {rr_state r, WaitPairResponse, WaitFiles}"
proof (cases rule: answer_list_cases [of E ids r])
  case accepted
  have "quiet r (r\<lparr>rr_accepted := ids\<rparr>)" by (intro quiet_same_remapper) (simp_all add: same_defs)
  with accept_quiet [of "r\<lparr>rr_accepted := ids\<rparr>" E] accept_state [of E "r\<lparr>rr_accepted := ids\<rparr>"] quiet_trans
  show ?thesis unfolding accepted(1) by fastforce
next
  case (declined m)
  have "quiet r (r\<lparr>rr_accepted := ids\<rparr>)" by (intro quiet_same_remapper) (simp_all add: same_defs)
  then show ?thesis unfolding declined(1) by simp
qed (auto intro!: quiet_same_remapper simp: same_defs)

lemma pin_answer_good: "rtc_ok r \<Longrightarrow> good_step r (answer_pin E pin r)"
proof (cases rule: answer_pin_cases [of E pin r])
  case (1 m)
  assume ok: "rtc_ok r"
  have "lookup_file j (try_send E m r) = lookup_file j r" for j by (rule lookup_same) (simp_all add: send_defs)
  then show ?thesis unfolding 1 by (intro aside_good [OF ok]) (auto simp: send_defs intro!: quiet_same_remapper simp: same_defs)
next
  case 2
  assume ok: "rtc_ok r"
  show ?thesis unfolding 2 terminate_def by (rule cleaned_good [OF ok, of E]) simp_all
qed

lemma asks_good:
  assumes "rtc_ok r" "begin_data_message E d t r = Some (r', Some k)"
  shows "good_step r r'"
  using assms(2)
proof (cases rule: begin_asks)
  case (pin c f)
  then have "idle r" using assms(1) by (auto simp: rtc_ok_def)
  then show ?thesis unfolding pin(3) using pin(1)
    by (intro quiet_good [OF assms(1)]) (auto intro!: quiet_same_remapper simp: same_defs)
next
  case (files c f x j st fs)
  then have i: "idle r" using assms(1) by (auto simp: rtc_ok_def)
  have "quiet r (r\<lparr>rr_control := c\<rparr>)" by (intro quiet_same_remapper) (simp_all add: same_defs)
  from quiet_trans [OF this] offered_frame [of "r\<lparr>rr_control := c\<rparr>" fs "rr_accepted r"] files(1) show ?thesis
    unfolding files(5) by (intro quiet_good [OF assms(1) i]) simp_all
qed

text \<open>A step whose resumption, if it is one of a file list, meets no open file.\<close>

lemma net_step_good:
  assumes "rtc_ok (rn_receiver s)" "net_step e s = Some s'" "lists_resume_when (\<lambda>files r. rr_paths r = []) [e] s"
  shows "good_step (rn_receiver s) (rn_receiver s')"
  using assms(2)
proof (cases rule: net_step_cases)
  case (receiver e')
  show ?thesis by (rule step_good [OF assms(1) receiver(1)])
next
  case (asks ch E d t k)
  show ?thesis by (rule asks_good [OF assms(1) asks(2)])
next
  case (resumes ch E k)
  show ?thesis
  proof (cases k)
    case (AskingPin f n)
    then show ?thesis using pin_answer_good [OF assms(1)] by (simp add: resumes(3))
  next
    case (SelectingFiles f files)
    then have "rr_paths (rn_receiver s) = []" using assms(3) resumes(1,2) by simp
    then have i: "idle (rn_receiver s)" using assms(1) by (auto simp: rtc_ok_def busy_def open_at_def)
    have "rr_state (rn_receiver s) \<noteq> ReceivingFiles" using i assms(1) idle_not_busy by (auto simp: rtc_ok_def)
    with answer_list_quiet [of "rn_receiver s" E "f files"] show ?thesis
      unfolding resumes(3) SelectingFiles by (intro quiet_good [OF assms(1) i]) auto
  qed
qed

lemma net_run_sim:
  assumes "net_run evs s = Some s'" "rtc_ok (rn_receiver s)" "lists_resume_when (\<lambda>files r. rr_paths r = []) evs s"
  shows "sim (rn_receiver s) (rn_receiver s') \<and> rtc_ok (rn_receiver s')"
proof (rule net_invariant [OF assms(1,3), where I = "\<lambda>x. sim (rn_receiver s) (rn_receiver x) \<and> rtc_ok (rn_receiver x)"])
  show "sim (rn_receiver s) (rn_receiver s) \<and> rtc_ok (rn_receiver s)"
    using assms(2) by (auto simp: rtc_ok_def file_ok_def intro: sim_refl)
next
  fix e x x'
  assume a: "sim (rn_receiver s) (rn_receiver x) \<and> rtc_ok (rn_receiver x)" "net_step e x = Some x'"
    "lists_resume_when (\<lambda>files r. rr_paths r = []) [e] x"
  then have g: "good_step (rn_receiver x) (rn_receiver x')" by (intro net_step_good [OF _ a(2,3)]) simp
  then have "sim (rn_receiver x) (rn_receiver x')" by (simp add: good_step_def)
  with a(1) have "sim (rn_receiver s) (rn_receiver x')" using sim_trans by blast
  moreover have "rtc_ok (rn_receiver x')" using good_step_ok [OF g] a(1) by simp
  ultimately show "sim (rn_receiver s) (rn_receiver x') \<and> rtc_ok (rn_receiver x')" ..
qed

subsection \<open>The PIN\<close>

lemma pin_small [simp]:
  "rr_pin (try_send E m r) = rr_pin r" "rr_pin (try_chunked E m r) = rr_pin r"
  "rr_pin (mark_transfer_done r) = rr_pin r" "rr_pin (mark_transfer_started E r) = rr_pin r"
  "rr_pin (cleanup_partial_files E r) = rr_pin r" "rr_pin (terminate E r) = rr_pin r"
  "rr_pin (cleanup_current_file E r) = rr_pin r" "rr_pin (reject_file_transfer r) = rr_pin r"
  by (simp_all add: send_defs mark_transfer_done_def mark_transfer_started_def cleanup_partial_files_def
      terminate_def cleanup_current_file_def reject_file_transfer_def Let_def)

lemma pin_accept [simp]: "rr_pin (accept_files_now E r) = rr_pin r"
  using accept_quiet [of r E] by (simp add: quiet_defs)

lemma pin_start [simp]: "rr_pin (start_receiving_file E i t r) = rr_pin r"
  using refl [of "start_receiving_file E i t r"]
  by (cases rule: start_cases) (simp_all add: near_def same_defs)

lemma pin_binary [simp]: "rr_pin (handle_binary_data E d r) = rr_pin r"
proof -
  obtain f r1 where m: "file_meta_by_id (rr_current r) r = (f, r1)" by fastforce
  obtain x where r1: "r1 = r\<lparr>rr_file_by_id := x\<rparr>" using meta_shape [OF m] by blast
  show ?thesis unfolding handle_binary_data_def m by (simp add: r1 Let_def split: option.split)
qed

lemma pin_finish [simp]: "rr_pin (finish_current_file E r) = rr_pin r"
proof -
  obtain f r1 where m: "file_meta_by_id (rr_current r) r = (f, r1)" by fastforce
  obtain x where r1: "r1 = r\<lparr>rr_file_by_id := x\<rparr>" using meta_shape [OF m] by blast
  show ?thesis unfolding finish_current_file_def m by (simp add: r1 Let_def)
qed

lemma pin_token [simp]: "rr_pin (handle_token E msg r) = rr_pin r"
proof (cases msg)
  case (MTokenRequest t)
  have "rr_pin (answer_token E x) = rr_pin x" for x by (simp add: answer_token_def split: option.split)
  then show ?thesis unfolding MTokenRequest handle_token_eq Let_def
    by (simp add: trusted_key_frame(4) split: option.split)
qed (simp_all add: handle_token_def)

lemma pin_handle_pin [simp]: "rr_pin (handle_pin E msg r) = rr_pin r"
  by (cases msg) (simp_all add: handle_pin_def Let_def)

lemma pin_answers [simp]: "rr_pin (answer_file_list E ids r) = rr_pin r" "rr_pin (answer_pin E p r) = rr_pin r"
  using answer_list_quiet [of r E ids] by (simp add: quiet_defs) (cases rule: answer_pin_cases [of E p r]; simp)

lemma pin_list [simp]: "rr_pin (handle_file_list E msg j r) = rr_pin r"
proof -
  have "rr_pin (fst (begin_file_list E msg j r)) = rr_pin r"
    by (simp add: begin_file_list_def Let_def rtc_folder_transfer_def rebuild_file_index_def split: option.split)
  moreover have "rr_pin (resume_file_list E k x) = rr_pin x" for k x by (cases k) simp_all
  ultimately show ?thesis by (auto simp: handle_file_list_def split: prod.split option.split)
qed

lemma pin_data:
  assumes "handle_data_message E d t r = Some r'"
  shows "rr_pin r' = rr_pin r"
proof -
  have disp: "rr_pin x' = rr_pin x" if "dispatch_message E y x = Some x'" for y x x'
  proof (cases "parse_rtc_message (re_parse E) y")
    case None
    with that show ?thesis by (auto simp: dispatch_message_def split: if_splits list.splits)
  next
    case (Some msg)
    have "rr_pin (handle_nonce E msg x) = rr_pin x" using nonce_quiet [of x E msg] by (simp add: quiet_defs)
    moreover have "rr_pin x1 = rr_pin x" if "handle_pair_response E msg j x = Some x1" for j x1
      using that by (cases rule: pair_cases) simp_all
    moreover have "rr_pin (handle_file_header E msg x) = rr_pin x" by (cases msg) (simp_all add: handle_file_header_def)
    ultimately show ?thesis using that Some by (auto simp: dispatch_message_def Let_def split: rtc_state.splits)
  qed
  show ?thesis
  proof (cases "rr_state r = ReceivingFiles \<and> rr_current r \<noteq> []")
    case True
    with assms show ?thesis
      by (cases "re_parse E d"; cases "decode_header (the (re_parse E d))") (auto simp: handle_data_message_def Let_def split: if_splits)
  next
    case False
    with assms disp show ?thesis by (auto simp: handle_data_message_def split: if_splits)
  qed
qed

lemma pin_reserve [simp]: "rr_pin (snd (reserve_offer E i a r)) = rr_pin r"
  by (simp add: reserve_offer_def split: prod.split bool.split)

lemma pin_step: "rtc_step e r = Some r' \<Longrightarrow> rr_pin r' = rr_pin r"
  by (cases e) (auto simp: fail_accept_def install_peer_def handle_peer_closed_def check_transfer_watchdog_def rtc_close_def
      Let_def dest: pin_data)

lemma pin_net_step:
  assumes "net_step e s = Some s'"
  shows "rr_pin (rn_receiver s') = rr_pin (rn_receiver s)"
  using assms
proof (cases rule: net_step_cases)
  case (receiver e')
  then show ?thesis by (auto dest: pin_step)
next
  case (asks ch E d t k)
  from asks(2) show ?thesis
    by (cases rule: begin_asks) (simp_all add: offered_def rtc_folder_transfer_def rebuild_file_index_def Let_def)
next
  case (resumes ch E k)
  then show ?thesis by (cases k) simp_all
qed

text \<open>
  Nothing of a transfer is there: no list has been read, nothing accepted, no file opened, and none of it is awaited.
\<close>

definition unopened :: "rtc_receiver \<Rightarrow> bool" where
  "unopened r \<longleftrightarrow> rr_state r \<notin> {WaitFileList, ReceivingFiles} \<and> rr_files r = [] \<and> rr_file_by_id r = [] \<and>
     rr_tokens r = [] \<and> rr_paths r = []"

lemma unopened_same:
  "unopened r \<Longrightarrow> rr_state r' \<notin> {WaitFileList, ReceivingFiles} \<Longrightarrow> rr_files r' = rr_files r \<Longrightarrow>
     rr_file_by_id r' = rr_file_by_id r \<Longrightarrow> rr_tokens r' = rr_tokens r \<Longrightarrow> rr_paths r' \<in> {rr_paths r, []} \<Longrightarrow> unopened r'"
  by (auto simp: unopened_def)

lemma unopened_meta: "unopened r \<Longrightarrow> file_meta_by_id i r = (None, r)"
  by (simp add: unopened_def file_meta_by_id_def)

lemma unopened_small [simp]:
  "unopened r \<Longrightarrow> unopened (try_send E m r)" "unopened r \<Longrightarrow> unopened (try_chunked E m r)"
  "unopened r \<Longrightarrow> unopened (terminate E r)" "unopened r \<Longrightarrow> unopened (reject_file_transfer r)"
  "unopened r \<Longrightarrow> unopened (cleanup_current_file E r)"
  by (auto simp: unopened_def send_defs terminate_def cleanup_partial_files_def mark_transfer_done_def
      reject_file_transfer_def cleanup_current_file_def Let_def)

lemma unopened_prepare: "unopened r \<Longrightarrow> prepare_ids E n ids r acc = (acc, r)"
  by (induction ids arbitrary: n) (simp_all add: unopened_meta)

lemma unopened_accept: "unopened r \<Longrightarrow> unopened (accept_files_now E r)"
proof -
  assume u: "unopened r"
  have p: "unopened (rtc_prepare_folder_remap r)"
    using u by (auto simp: rtc_prepare_folder_remap_def unopened_def split: option.split)
  then show ?thesis
    unfolding accept_files_now_def prepare_files_for_receive_def unopened_prepare [OF p]
    by (auto simp: send_defs unopened_def)
qed

lemma unopened_list: "unopened r \<Longrightarrow> unopened (answer_file_list E ids r)"
proof (cases rule: answer_list_cases [of E ids r])
  case accepted
  assume "unopened r"
  then have "unopened (r\<lparr>rr_accepted := ids\<rparr>)" by (simp add: unopened_def)
  then show ?thesis unfolding accepted by (rule unopened_accept)
next
  case (declined m)
  assume "unopened r"
  then show ?thesis unfolding declined(1) by (intro unopened_small) (simp add: unopened_def)
qed (simp_all add: unopened_def)

lemma unopened_binary: "unopened r \<Longrightarrow> rr_state r = WaitFiles \<Longrightarrow> unopened (handle_binary_data E d r)"
  by (simp add: handle_binary_data_def unopened_meta)

lemma unopened_header: "unopened r \<Longrightarrow> unopened (handle_file_header E msg r)"
  by (cases msg) (simp_all add: handle_file_header_def start_receiving_file_def validate_file_header_def unopened_def reject_file_transfer_def)

lemma unopened_nonce: "unopened r \<Longrightarrow> unopened (handle_nonce E msg r)"
  by (cases msg) (auto simp: handle_nonce_def unopened_def send_defs Let_def split: option.split)

lemma unopened_token: "unopened r \<Longrightarrow> rr_pin r \<noteq> [] \<Longrightarrow> unopened (handle_token E msg r)"
proof (cases msg)
  case (MTokenRequest t)
  assume u: "unopened r" and p: "rr_pin r \<noteq> []"
  let ?x = "with_trusted_key E t r"
  have x: "unopened ?x" "rr_pin ?x \<noteq> []"
    using u p by (auto simp: with_trusted_key_def unopened_def Let_def split: option.split prod.split)
  then have "unopened (answer_token E ?x)"
    by (auto simp: answer_token_def unopened_def send_defs split: option.split)
  with x show ?thesis unfolding MTokenRequest handle_token_eq Let_def by (simp split: option.split)
qed (simp_all add: handle_token_def)

lemma unopened_pin: "unopened r \<Longrightarrow> msg \<noteq> MPin (rr_pin r) \<Longrightarrow> unopened (handle_pin E msg r)"
proof (cases msg)
  case (MPin p)
  assume u: "unopened r" and m: "msg \<noteq> MPin (rr_pin r)"
  have "unopened (r\<lparr>rr_pin_attempts := n\<rparr>)" "unopened (r\<lparr>rr_pin_attempts := n, rr_blocked := b\<rparr>)" for n b
    using u by (simp_all add: unopened_def)
  with m MPin show ?thesis by (simp add: handle_pin_def Let_def)
qed (simp_all add: handle_pin_def)

lemma unopened_pair: "handle_pair_response E msg j r = Some r' \<Longrightarrow> unopened r \<Longrightarrow> unopened r'"
proof (elim pair_cases)
  fix key pem s d
  assume "unopened r"
  then have "unopened (r\<lparr>rr_sender_key := Some key, rr_sender_pem := pem, rr_trusted := s, rr_config_disk := d\<rparr>)"
    by (simp add: unopened_def)
  then show "unopened r'" if "r' = accept_files_now E (r\<lparr>rr_sender_key := Some key, rr_sender_pem := pem, rr_trusted := s, rr_config_disk := d\<rparr>)"
    using that unopened_accept by simp
qed (simp_all add: unopened_accept)

lemma unopened_dispatch:
  assumes "unopened r" "dispatch_message E d r = Some r'" "rr_pin r \<noteq> []"
    and "\<not> (rr_state r = WaitPin \<and> parse_rtc_message (re_parse E) d = Some (MPin (rr_pin r)))"
  shows "unopened r'"
proof (cases "parse_rtc_message (re_parse E) d")
  case None
  with assms(1,2) show ?thesis by (auto simp: dispatch_message_def intro: unopened_binary split: if_splits list.splits)
next
  case (Some msg)
  have "rr_state r \<noteq> WaitFileList" using assms(1) by (simp add: unopened_def)
  with assms Some show ?thesis
    by (cases "rr_state r")
       (auto simp: dispatch_message_def Let_def intro: unopened_nonce unopened_token unopened_pin unopened_pair unopened_header)
qed

lemma unopened_data:
  assumes "unopened r" "handle_data_message E d t r = Some r'" "rr_pin r \<noteq> []" "\<not> (rr_state r = WaitPin \<and> presents_pin (EvData E d t) r)"
  shows "unopened r'"
proof -
  have n: "rr_state r \<noteq> ReceivingFiles" using assms(1) by (simp add: unopened_def)
  have c: "unopened (r\<lparr>rr_control := x\<rparr>)" for x using assms(1) by (simp add: unopened_def)
  consider "t" "d = ''0''" "rr_control r \<noteq> []" | "t" "d = ''0''" "rr_control r = []" | "t" "d \<noteq> ''0''" | "\<not> t" by blast
  then show ?thesis
  proof cases
    case 1
    then have "dispatch_message E (rr_control r) (r\<lparr>rr_control := []\<rparr>) = Some r'"
      using assms(2) n by (simp add: handle_data_message_def)
    from unopened_dispatch [OF c this] assms(3,4) 1 show ?thesis by (simp add: message_of_def)
  next
    case 2
    then show ?thesis using assms(1,2) n by (simp add: handle_data_message_def)
  next
    case 3
    then have "dispatch_message E d r = Some r'" using assms(2) n by (simp add: handle_data_message_def)
    from unopened_dispatch [OF assms(1) this] assms(3,4) 3 show ?thesis by (simp add: message_of_def)
  next
    case 4
    then show ?thesis using assms(2) n c by (auto simp: handle_data_message_def split: if_splits)
  qed
qed

lemma accepted_unopened: "fst (reserve_offer E i a r) \<Longrightarrow> unopened (snd (reserve_offer E i a r))"
  by (auto simp: reserve_offer_def unopened_def cleanup_partial_files_def mark_transfer_done_def split: prod.splits bool.splits if_splits)

lemma unopened_step:
  assumes "unopened r" "rtc_step e r = Some r'" "rr_pin r \<noteq> []" "\<not> (rr_state r = WaitPin \<and> presents_pin e r)"
  shows "unopened r'"
proof (cases e)
  case (EvOffer E i a)
  have "unopened (snd (reserve_offer E i a r))"
  proof (cases "fst (reserve_offer E i a r)")
    case False
    with assms(1) show ?thesis by (auto simp: reserve_offer_def unopened_def split: prod.splits bool.splits if_splits)
  qed (rule accepted_unopened)
  with EvOffer assms(2) show ?thesis by simp
next
  case (EvData E d t)
  with assms unopened_data show ?thesis by simp
next
  case (EvWatchdog E g)
  have "unopened (r\<lparr>rr_last_id := x, rr_last_bytes := y, rr_last_progress := z\<rparr>)" for x y z using assms(1) by (simp add: unopened_def)
  with EvWatchdog assms(1,2) show ?thesis by (auto simp: check_transfer_watchdog_def Let_def split: if_splits)
qed (use assms(1,2) in \<open>auto simp: fail_accept_def install_peer_def handle_peer_closed_def rtc_close_def unopened_def
      cleanup_partial_files_def mark_transfer_done_def split: if_splits\<close>)

fun gives_pin :: "rtc_net_event \<Rightarrow> rtc_net \<Rightarrow> bool" where
  "gives_pin (NetData ch E d is_string) s \<longleftrightarrow> presents_pin (EvData E d is_string) (rn_receiver s)"
| "gives_pin _ s \<longleftrightarrow> False"

fun starts_over :: "rtc_net_event \<Rightarrow> rtc_net \<Rightarrow> bool" where
  "starts_over (NetStep e) s \<longleftrightarrow> accepts_offer e (rn_receiver s)"
| "starts_over _ s \<longleftrightarrow> False"

lemma unopened_net_step:
  assumes "unopened (rn_receiver s)" "net_step e s = Some s'" "rr_pin (rn_receiver s) \<noteq> []"
    and "\<not> (rr_state (rn_receiver s) = WaitPin \<and> gives_pin e s)"
  shows "unopened (rn_receiver s')"
  using assms(2)
proof (cases rule: net_step_cases)
  case (receiver e')
  have "\<not> (rr_state (rn_receiver s) = WaitPin \<and> presents_pin e' (rn_receiver s))"
  proof (cases e')
    case (EvData E d t)
    with receiver(3) obtain ch where "e = NetData ch E d t" by blast
    with assms(4) EvData show ?thesis by simp
  qed simp_all
  then show ?thesis by (rule unopened_step [OF assms(1) receiver(1) assms(3)])
next
  case (asks ch E d t k)
  from asks(2) show ?thesis
    by (cases rule: begin_asks) (use assms(1) in \<open>simp_all add: unopened_def\<close>)
next
  case (resumes ch E k)
  show ?thesis
  proof (cases k)
    case (AskingPin f n)
    have "unopened (answer_pin E (f n) (rn_receiver s))"
      using assms(1) by (cases rule: answer_pin_cases [of E "f n" "rn_receiver s"]) simp_all
    then show ?thesis by (simp add: resumes(3) AskingPin)
  next
    case (SelectingFiles f files)
    with unopened_list [OF assms(1)] show ?thesis by (simp add: resumes(3))
  qed
qed

definition pin_shown :: "rtc_net_event list \<Rightarrow> rtc_net \<Rightarrow> bool" where
  "pin_shown evs s0 \<longleftrightarrow>
     (\<exists>xs e ys s1. evs = xs @ e # ys \<and> net_run xs s0 = Some s1 \<and> rr_state (rn_receiver s1) = WaitPin \<and> gives_pin e s1 \<and>
        (\<forall>zs e' ws s2. ys = zs @ e' # ws \<longrightarrow> net_run (xs @ e # zs) s0 = Some s2 \<longrightarrow> \<not> starts_over e' s2))"

lemma pin_shown_now:
  "net_run evs s0 = Some s \<Longrightarrow> rr_state (rn_receiver s) = WaitPin \<Longrightarrow> gives_pin e s \<Longrightarrow> pin_shown (evs @ [e]) s0"
  unfolding pin_shown_def by blast

lemma pin_shown_still:
  assumes "pin_shown evs s0" "net_run evs s0 = Some s" "\<not> starts_over e s"
  shows "pin_shown (evs @ [e]) s0"
proof -
  from assms(1) obtain xs e0 ys s1 where
    *: "evs = xs @ e0 # ys" "net_run xs s0 = Some s1" "rr_state (rn_receiver s1) = WaitPin" "gives_pin e0 s1"
      "\<forall>zs e' ws s2. ys = zs @ e' # ws \<longrightarrow> net_run (xs @ e0 # zs) s0 = Some s2 \<longrightarrow> \<not> starts_over e' s2"
    unfolding pin_shown_def by blast
  have "\<not> starts_over e' s2" if "ys @ [e] = zs @ e' # ws" "net_run (xs @ e0 # zs) s0 = Some s2" for zs e' ws s2
  proof (cases ws rule: rev_cases)
    case Nil
    with that *(1) assms(2,3) show ?thesis by simp
  next
    case (snoc ws' w)
    with that *(5) show ?thesis by auto
  qed
  with * show ?thesis unfolding pin_shown_def by (metis append.assoc append_Cons)
qed

lemma pin_before_anything:
  assumes "net_run evs s0 = Some s" "unopened (rn_receiver s0)" "rr_pin (rn_receiver s0) \<noteq> []"
  shows "rr_pin (rn_receiver s) = rr_pin (rn_receiver s0) \<and> (unopened (rn_receiver s) \<or> pin_shown evs s0)"
  using assms(1)
proof (induction evs arbitrary: s rule: rev_induct)
  case Nil
  with assms(2) show ?case by simp
next
  case (snoc e evs)
  obtain s1 where s1: "net_run evs s0 = Some s1" "net_step e s1 = Some s"
    using snoc.prems unfolding net_run_snoc by blast
  note IH = snoc.IH [OF s1(1)]
  have pin: "rr_pin (rn_receiver s1) \<noteq> []" using IH assms(3) by simp
  have "unopened (rn_receiver s) \<or> pin_shown (evs @ [e]) s0"
  proof (cases "unopened (rn_receiver s1)")
    case True
    show ?thesis
      using unopened_net_step [OF True s1(2) pin] pin_shown_now [OF s1(1)] by blast
  next
    case False
    with IH have "pin_shown evs s0" by blast
    show ?thesis
    proof (cases "starts_over e s1")
      case True
      then obtain E i a where e: "e = NetStep (EvOffer E i a)" "fst (reserve_offer E i a (rn_receiver s1))"
        by (auto elim!: starts_over.elims accepts_offer.elims)
      with s1(2) accepted_unopened [OF e(2)] show ?thesis by auto
    qed (use \<open>pin_shown evs s0\<close> pin_shown_still s1(1) in blast)
  qed
  with pin_net_step [OF s1(2)] IH show ?case by simp
qed

subsection \<open>What every run keeps\<close>

lemma net_of_fields [simp]:
  "rn_receiver (net_of r) = r" "rn_peers (net_of r) = []" "rn_asking (net_of r) = []"
  by (simp_all add: net_of_def)

text \<open>
  C7: The receiver refines the abstract file machine: whatever offers, connections, channels, messages, timeouts and
  failures there are, and whatever happens while a callback asks the user, its view (the open file and its content, the
  disk, the files reported) moves by the machine's steps only: directories are made, one new file at a time is opened
  below a configured directory, grows, and is committed with its whole content or removed. The one thing that must not
  happen is that the handler of a file list gets its answer while a file is open
  (\<open>late_answer_leaves_file_open\<close> shows that it can).
\<close>

theorem receiver_refines_file_machine:
  assumes "net_run evs (net_of (configured pin dir exts pairing trusted disk cfg)) = Some s" "set_up dir exts"
    and "lists_resume_when (\<lambda>files r. rr_paths r = []) evs (net_of (configured pin dir exts pairing trusted disk cfg))"
  shows "tv_steps (save_dirs dir exts) \<lparr>tv_open = None, tv_disk = disk, tv_done = []\<rparr> (view_of (rn_receiver s))"
  using net_run_sim [OF assms(1) _ assms(3)] configured_ok [OF assms(2)]
  by (simp add: sim_def configured_dests configured_view)

text \<open>
  C9: With a PIN nothing of a transfer comes before it, however the handlers and the connections interleave: whenever a
  file list is awaited or known, a token given or a file open, a message with exactly this PIN arrived while the
  receiver waited for it, and no offer has been accepted since.
\<close>

theorem pin_comes_before_files:
  assumes "net_run evs (net_of (configured pin dir exts pairing trusted disk cfg)) = Some s" "pin \<noteq> []"
    and "rr_state (rn_receiver s) \<in> {WaitFileList, ReceivingFiles} \<or> rr_files (rn_receiver s) \<noteq> [] \<or>
      rr_tokens (rn_receiver s) \<noteq> [] \<or> rr_paths (rn_receiver s) \<noteq> []"
  shows "\<exists>xs e ys s1. evs = xs @ e # ys \<and> net_run xs (net_of (configured pin dir exts pairing trusted disk cfg)) = Some s1 \<and>
    rr_state (rn_receiver s1) = WaitPin \<and> gives_pin e s1 \<and>
    (\<forall>zs e' ws s2. ys = zs @ e' # ws \<longrightarrow>
       net_run (xs @ e # zs) (net_of (configured pin dir exts pairing trusted disk cfg)) = Some s2 \<longrightarrow> \<not> starts_over e' s2)"
proof -
  have "unopened (configured pin dir exts pairing trusted disk cfg)" "rr_pin (configured pin dir exts pairing trusted disk cfg) = pin"
    by (simp_all add: configured_defs unopened_def)
  with pin_before_anything [OF assms(1)] assms(2)
  have "unopened (rn_receiver s) \<or> pin_shown evs (net_of (configured pin dir exts pairing trusted disk cfg))" by simp
  with assms(3) show ?thesis by (auto simp: unopened_def pin_shown_def)
qed

subsection \<open>Runs of it\<close>

text \<open>Frames that raise no question, on one channel.\<close>

fun on_channel :: "channel \<Rightarrow> rtc_event \<Rightarrow> rtc_net_event" where
  "on_channel ch (EvData E d t) = NetData ch E d t"
| "on_channel ch e = NetStep e"

fun unasked :: "rtc_event \<Rightarrow> bool" where
  "unasked (EvData E d t) \<longleftrightarrow> re_select E = None \<and> re_pin_answer E = None"
| "unasked e \<longleftrightarrow> False"

lemma begin_without_question:
  assumes "\<And>r1 q. begin_data_message E d t r \<noteq> Some (r1, Some q)"
  shows "begin_data_message E d t r = map_option (\<lambda>r1. (r1, None)) (handle_data_message E d t r)"
proof (cases "begin_data_message E d t r")
  case (Some x)
  obtain r1 k where "x = (r1, k)" by fastforce
  with Some assms show ?thesis by (cases k) (simp_all add: handle_data_message_parts resume_asking_def)
qed (simp add: handle_data_message_parts)

lemma begin_unasked:
  assumes "re_select E = None" "re_pin_answer E = None"
  shows "begin_data_message E d t r = map_option (\<lambda>r1. (r1, None)) (handle_data_message E d t r)"
proof (rule begin_without_question)
  show "begin_data_message E d t r \<noteq> Some (r1, Some q)" for r1 q
    using assms by (auto elim: begin_asks)
qed

lemma begin_elsewhere:
  assumes "rr_state r \<noteq> WaitFileList"
  shows "begin_data_message E d t r = map_option (\<lambda>r1. (r1, None)) (handle_data_message E d t r)"
proof (rule begin_without_question)
  show "begin_data_message E d t r \<noteq> Some (r1, Some q)" for r1 q
    using assms by (auto elim: begin_asks)
qed

lemma lift_run:
  "rtc_run evs (rn_receiver s) = Some r \<Longrightarrow> list_all unasked evs \<Longrightarrow> fst ch \<in> set (rn_peers s) \<Longrightarrow>
     map_of (rn_asking s) ch = None \<Longrightarrow> net_run (map (on_channel ch) evs) s = Some (s\<lparr>rn_receiver := r\<rparr>)"
proof (induction evs arbitrary: s)
  case Nil
  then show ?case by simp
next
  case (Cons e es)
  from Cons.prems(2) obtain E d t where e: "e = EvData E d t" "re_select E = None" "re_pin_answer E = None"
    by (cases e) auto
  from Cons.prems(1) obtain r1 where r1: "handle_data_message E d t (rn_receiver s) = Some r1" "rtc_run es r1 = Some r"
    by (auto simp: e split: option.splits)
  have "net_run (map (on_channel ch) es) (s\<lparr>rn_receiver := r1\<rparr>) = Some (s\<lparr>rn_receiver := r1\<rparr>\<lparr>rn_receiver := r\<rparr>)"
    by (rule Cons.IH) (use Cons.prems r1 in simp_all)
  then show ?case using Cons.prems(3,4) by (simp add: e begin_unasked r1)
qed

text \<open>A transfer with a PIN; nobody is asked.\<close>

lemma demo_net_start:
  "net_run [NetStep (EvOffer rtc_demo_env ''peer'' ''Phone''), NetStep (EvPeer 1)] (net_of (rtc_demo_receiver pin pairing)) =
     Some \<lparr>rn_receiver = rtc_demo_1 pin pairing, rn_peers = [1], rn_asking = []\<rparr>"
  using rtc_demo_start [of pin pairing] by (simp add: net_of_def split: option.splits)

definition net_demo_events :: "rtc_net_event list" where
  "net_demo_events = [NetStep (EvOffer rtc_demo_env ''peer'' ''Phone''), NetStep (EvPeer 1)] @
     map (on_channel (1, 0)) [EvData rtc_demo_env ''N'' True, EvData rtc_demo_env ''T'' True, EvData rtc_demo_env ''P'' True,
        EvData rtc_demo_env ''L'' True, EvData rtc_demo_env ''H'' True]"

lemma net_demo_run:
  "net_run net_demo_events (net_of (configured ''1234'' ''/b'' None False None books_disk (\<lambda>p. None))) =
     Some \<lparr>rn_receiver = rtc_demo_6, rn_peers = [1], rn_asking = []\<rparr>"
proof -
  let ?es = "[EvData rtc_demo_env ''N'' True, EvData rtc_demo_env ''T'' True, EvData rtc_demo_env ''P'' True,
        EvData rtc_demo_env ''L'' True, EvData rtc_demo_env ''H'' True]"
  have "rtc_run ?es (rtc_demo_1 ''1234'' False) = Some rtc_demo_6"
    by (simp only: rtc_run.simps rtc_demo_12 rtc_demo_23 rtc_demo_34 rtc_demo_45 rtc_demo_56 option.case)
  then have "net_run (map (on_channel (1, 0)) ?es) \<lparr>rn_receiver = rtc_demo_1 ''1234'' False, rn_peers = [1], rn_asking = []\<rparr> =
      Some \<lparr>rn_receiver = rtc_demo_6, rn_peers = [1], rn_asking = []\<rparr>"
    using lift_run [of ?es "\<lparr>rn_receiver = rtc_demo_1 ''1234'' False, rn_peers = [1], rn_asking = []\<rparr>" rtc_demo_6 "(1, 0)"]
    by (simp add: rtc_demo_env_simps)
  then show ?thesis
    unfolding net_demo_events_def net_run_append demo_configured [symmetric] demo_net_start option.case .
qed

theorem pin_comes_before_files_witness:
  "\<exists>xs e ys s1. net_demo_events = xs @ e # ys \<and>
    net_run xs (net_of (configured ''1234'' ''/b'' None False None books_disk (\<lambda>p. None))) = Some s1 \<and>
    rr_state (rn_receiver s1) = WaitPin \<and> gives_pin e s1 \<and>
    (\<forall>zs e' ws s2. ys = zs @ e' # ws \<longrightarrow>
       net_run (xs @ e # zs) (net_of (configured ''1234'' ''/b'' None False None books_disk (\<lambda>p. None))) = Some s2 \<longrightarrow>
       \<not> starts_over e' s2)"
  by (rule pin_comes_before_files [OF net_demo_run]) (simp_all add: rtc_demo_6_def)

text \<open>The same without a PIN where the user is asked, on the first channel, and the answer comes at once.\<close>

definition asked_once :: "rtc_net_event list" where
  "asked_once = [NetStep (EvOffer (sh_env False) ''peer'' ''Phone''), NetStep (EvPeer 1),
     NetData (1, 0) (sh_env False) ''N'' True, NetData (1, 0) (sh_env False) ''T'' True,
     NetData (1, 0) (sh_env False) ''L'' True, NetResume (1, 0) (sh_env False), NetData (1, 0) (sh_env False) ''H'' True]"

definition sh_asked :: "rtc_receiver \<Rightarrow> rtc_receiver" where
  "sh_asked r = offered r [rtc_demo_file] (rr_accepted r)"

lemma sh_begin:
  assumes "rr_state r = WaitFileList" "rr_control r = []"
  shows "begin_data_message (sh_env False) ''L'' True r =
    Some (sh_asked r, Some (SelectingFiles (select_allowed (\<lambda>s. s) [''txt'']) [rtc_demo_file]))"
proof -
  have o: "offered r fs (rr_accepted r) = snd (rtc_folder_transfer ((rebuild_file_index (r\<lparr>rr_files := fs\<rparr>))\<lparr>rr_folder_known := False\<rparr>))" for fs
    by (simp add: offered_def rtc_folder_transfer_def rebuild_file_index_def Let_def)
  show ?thesis
    using assms sh_list [of False]
    by (simp add: begin_data_message_def completed_message_def begin_file_list_def Let_def sh_env_simps sh_text
        sh_files_def max_files_per_session_def sh_asked_def o)
qed

lemma sh_resumed: "resume_file_list (sh_env False) (SelectingFiles (select_allowed (\<lambda>s. s) [''txt'']) [rtc_demo_file])
    (sh_asked (rtc_demo_3 [] False)) = sh_5 False"
proof -
  have "rr_state (rtc_demo_3 [] False) = WaitFileList" "rr_control (rtc_demo_3 [] False) = []"
    by (simp_all add: rtc_demo_state_defs)
  from sh_begin [OF this] sh_35 [of False] show ?thesis
    by (simp add: handle_data_message_parts resume_asking_def)
qed

lemma sh_net_start:
  "net_run [NetStep (EvOffer (sh_env False) ''peer'' ''Phone''), NetStep (EvPeer 1),
     NetData (1, 0) (sh_env False) ''N'' True, NetData (1, 0) (sh_env False) ''T'' True]
     (net_of (configured [] ''/b'' None False None books_disk (\<lambda>p. None))) =
   Some \<lparr>rn_receiver = rtc_demo_3 [] False, rn_peers = [1], rn_asking = []\<rparr>"
proof -
  have st: "rr_state (rtc_demo_1 [] False) \<noteq> WaitFileList" "rr_state (rtc_demo_2 [] False) \<noteq> WaitFileList"
    by (simp_all add: rtc_demo_state_defs)
  have 1: "net_run [NetStep (EvOffer (sh_env False) ''peer'' ''Phone''), NetStep (EvPeer 1)] (net_of (rtc_demo_receiver [] False)) =
     Some \<lparr>rn_receiver = rtc_demo_1 [] False, rn_peers = [1], rn_asking = []\<rparr>"
    using sh_start [of False "[]" False] by (simp add: net_of_def split: option.splits)
  have 2: "net_run [NetData (1, 0) (sh_env False) ''N'' True, NetData (1, 0) (sh_env False) ''T'' True]
     \<lparr>rn_receiver = rtc_demo_1 [] False, rn_peers = [1], rn_asking = []\<rparr> =
     Some \<lparr>rn_receiver = rtc_demo_3 [] False, rn_peers = [1], rn_asking = []\<rparr>"
    using sh_12 [of False "[]" False] sh_23 [of False "[]" False] by (simp add: begin_elsewhere [OF st(1)] begin_elsewhere [OF st(2)])
  have "net_run ([NetStep (EvOffer (sh_env False) ''peer'' ''Phone''), NetStep (EvPeer 1)] @
      [NetData (1, 0) (sh_env False) ''N'' True, NetData (1, 0) (sh_env False) ''T'' True]) (net_of (rtc_demo_receiver [] False)) =
     Some \<lparr>rn_receiver = rtc_demo_3 [] False, rn_peers = [1], rn_asking = []\<rparr>"
    unfolding net_run_append 1 option.case 2 ..
  then show ?thesis unfolding demo_configured append.simps .
qed

lemma sh_asked_fields:
  "rr_state (sh_asked r) = rr_state r" "rr_control (sh_asked r) = rr_control r" "rr_paths (sh_asked r) = rr_paths r"
  "rr_peer (sh_asked r) = rr_peer r" "rr_accepting (sh_asked r) = rr_accepting r" "rr_blocked (sh_asked r) = rr_blocked r"
  "rr_require_pairing (sh_asked r) = rr_require_pairing r" "sh_asked (sh_asked r) = sh_asked r"
  by (simp_all add: sh_asked_def offered_def rtc_folder_transfer_def rebuild_file_index_def Let_def)

lemma resume_when_append:
  "lists_resume_when P (xs @ ys) s \<longleftrightarrow> lists_resume_when P xs s \<and>
     (case net_run xs s of None \<Rightarrow> True | Some s' \<Rightarrow> lists_resume_when P ys s')"
  by (induction xs arbitrary: s) (auto simp del: net_step.simps split: option.split)

definition sh_question :: asking where
  "sh_question = SelectingFiles (select_allowed (\<lambda>s. s) [''txt'']) [rtc_demo_file]"

lemma sh_asking_run:
  assumes "rr_state r = WaitFileList" "rr_control r = []" "ch \<in> {(1, 0), (1, 1)}" "map_of as ch = None"
  shows "net_step (NetData ch (sh_env False) ''L'' True) \<lparr>rn_receiver = r, rn_peers = [1], rn_asking = as\<rparr> =
    Some \<lparr>rn_receiver = sh_asked r, rn_peers = [1], rn_asking = AList.update ch sh_question as\<rparr>"
  using assms(3,4) sh_begin [OF assms(1,2)] by (auto simp: sh_question_def)

lemma sh_opened:
  assumes "ch \<in> {(1, 0), (1, 1)}" "map_of as ch = None"
  shows "net_step (NetData ch (sh_env False) ''H'' True) \<lparr>rn_receiver = sh_5 False, rn_peers = [1], rn_asking = as\<rparr> =
    Some \<lparr>rn_receiver = sh_6 False, rn_peers = [1], rn_asking = as\<rparr>"
proof -
  have "rr_state (sh_5 False) \<noteq> WaitFileList" by (simp add: sh_5_def)
  with assms sh_56 [of False] show ?thesis by (auto simp: begin_elsewhere)
qed

lemma sh_3_waits: "rr_state (rtc_demo_3 [] False) = WaitFileList" "rr_control (rtc_demo_3 [] False) = []"
  by (simp_all add: rtc_demo_state_defs)

lemma asked_once_run:
  "net_run asked_once (net_of (configured [] ''/b'' None False None books_disk (\<lambda>p. None))) =
     Some \<lparr>rn_receiver = sh_6 False, rn_peers = [1], rn_asking = []\<rparr> \<and>
   (lists_resume_when P asked_once (net_of (configured [] ''/b'' None False None books_disk (\<lambda>p. None))) \<longleftrightarrow>
      P [rtc_demo_file] (sh_asked (rtc_demo_3 [] False)))"
proof -
  let ?s = "\<lparr>rn_receiver = rtc_demo_3 [] False, rn_peers = [1], rn_asking = []\<rparr>"
  let ?start = "[NetStep (EvOffer (sh_env False) ''peer'' ''Phone''), NetStep (EvPeer 1),
     NetData (1, 0) (sh_env False) ''N'' True, NetData (1, 0) (sh_env False) ''T'' True]"
  let ?rest = "[NetData (1, 0) (sh_env False) ''L'' True, NetResume (1, 0) (sh_env False), NetData (1, 0) (sh_env False) ''H'' True]"
  have L: "net_step (NetData (1, 0) (sh_env False) ''L'' True) ?s =
      Some \<lparr>rn_receiver = sh_asked (rtc_demo_3 [] False), rn_peers = [1], rn_asking = [((1, 0), sh_question)]\<rparr>"
    using sh_asking_run [OF sh_3_waits, of "(1, 0)" "[]"] by simp
  have R: "net_step (NetResume (1, 0) (sh_env False)) \<lparr>rn_receiver = sh_asked (rtc_demo_3 [] False), rn_peers = [1], rn_asking = [((1, 0), sh_question)]\<rparr> =
      Some \<lparr>rn_receiver = sh_5 False, rn_peers = [1], rn_asking = []\<rparr>"
    using sh_resumed by (simp add: sh_question_def)
  have H: "net_step (NetData (1, 0) (sh_env False) ''H'' True) \<lparr>rn_receiver = sh_5 False, rn_peers = [1], rn_asking = []\<rparr> =
      Some \<lparr>rn_receiver = sh_6 False, rn_peers = [1], rn_asking = []\<rparr>"
    using sh_opened [of "(1, 0)" "[]"] by simp
  have run: "net_run ?rest ?s = Some \<lparr>rn_receiver = sh_6 False, rn_peers = [1], rn_asking = []\<rparr>"
    by (simp only: net_run.simps L R H option.case)
  have ok: "lists_resume_when P ?rest ?s \<longleftrightarrow> P [rtc_demo_file] (sh_asked (rtc_demo_3 [] False))"
    unfolding lists_resume_when.simps L R H option.case by (simp add: sh_question_def)
  have st: "lists_resume_when P ?start x" for P x
    by (simp del: net_step.simps split: option.split)
  have "asked_once = ?start @ ?rest" by (simp add: asked_once_def)
  then show ?thesis
    unfolding \<open>asked_once = ?start @ ?rest\<close> net_run_append resume_when_append sh_net_start option.case
    using run ok st by (intro conjI) (simp_all only: simp_thms)
qed

theorem receiver_refines_file_machine_witness:
  "tv_steps (save_dirs ''/b'' None) \<lparr>tv_open = None, tv_disk = books_disk, tv_done = []\<rparr> (view_of (sh_6 False)) \<and>
     tv_open (view_of (sh_6 False)) = Some (''/b/a.txt'', [])"
proof -
  have "tv_open (view_of (sh_6 False)) = Some (''/b/a.txt'', [])" by (simp add: view_of_def sh_6_def sh_target_def)
  moreover have "rr_paths (sh_asked (rtc_demo_3 [] False)) = []" by (simp add: sh_asked_fields rtc_demo_state_defs)
  ultimately show ?thesis
    using receiver_refines_file_machine [OF conjunct1 [OF asked_once_run] demo_set_up iffD2 [OF conjunct2 [OF asked_once_run]]] by simp
qed

subsection \<open>When the answer comes late\<close>

lemma answer_list_accepts:
  assumes "rr_peer r = Some p" "ids \<noteq> []" "\<not> rr_require_pairing r" "\<not> re_send_fails E" "\<not> re_delimiter_fails E"
  shows "rr_state (answer_file_list E ids r) = WaitFiles \<and> rr_peer (answer_file_list E ids r) = Some p"
proof -
  let ?r = "r\<lparr>rr_accepted := ids\<rparr>"
  obtain tok r1 where q: "prepare_files_for_receive E ids ?r = (tok, r1)" by fastforce
  then obtain t m where r1: "r1 = (rtc_prepare_folder_remap ?r)\<lparr>rr_tokens := t, rr_file_by_id := m\<rparr>"
    using prepare_ids_shape unfolding prepare_files_for_receive_def by blast
  have "rr_peer r1 = Some p" unfolding r1 rtc_prepare_folder_remap_def using assms(1) by (auto split: option.split)
  with assms q show ?thesis by (simp add: answer_file_list_def accept_files_now_def send_chunked_def send_msg_def)
qed

text \<open>
  A peer that sends its list on two channels of its connection gets two questions asked; when the second is answered
  after a file has been opened, the receiver awaits the header of another one while that file is open.
\<close>

definition late_answer :: "rtc_net_event list" where
  "late_answer = [NetStep (EvOffer (sh_env False) ''peer'' ''Phone''), NetStep (EvPeer 1),
     NetData (1, 0) (sh_env False) ''N'' True, NetData (1, 0) (sh_env False) ''T'' True] @
     [NetData (1, 0) (sh_env False) ''L'' True, NetData (1, 1) (sh_env False) ''L'' True, NetResume (1, 1) (sh_env False),
      NetData (1, 1) (sh_env False) ''H'' True, NetResume (1, 0) (sh_env False)]"

theorem late_answer_leaves_file_open:
  "\<exists>s. net_run late_answer (net_of (configured [] ''/b'' None False None books_disk (\<lambda>p. None))) = Some s \<and>
     rr_state (rn_receiver s) = WaitFiles \<and> rr_paths (rn_receiver s) = [(''f'', ''/b/a.txt'')]"
proof -
  let ?q = "[((1, 0), sh_question)]"
  let ?r = "sh_asked (rtc_demo_3 [] False)"
  let ?late = "resume_file_list (sh_env False) sh_question (sh_6 False)"
  have L: "net_step (NetData (1, 0) (sh_env False) ''L'' True) \<lparr>rn_receiver = rtc_demo_3 [] False, rn_peers = [1], rn_asking = []\<rparr> =
      Some \<lparr>rn_receiver = ?r, rn_peers = [1], rn_asking = ?q\<rparr>"
    using sh_asking_run [OF sh_3_waits, of "(1, 0)" "[]"] by simp
  have L2: "net_step (NetData (1, 1) (sh_env False) ''L'' True) \<lparr>rn_receiver = ?r, rn_peers = [1], rn_asking = ?q\<rparr> =
      Some \<lparr>rn_receiver = ?r, rn_peers = [1], rn_asking = ?q @ [((1, 1), sh_question)]\<rparr>"
    using sh_asking_run [of ?r "(1, 1)" ?q] sh_3_waits by (simp add: sh_asked_fields)
  have R: "net_step (NetResume (1, 1) (sh_env False)) \<lparr>rn_receiver = ?r, rn_peers = [1], rn_asking = ?q @ [((1, 1), sh_question)]\<rparr> =
      Some \<lparr>rn_receiver = sh_5 False, rn_peers = [1], rn_asking = ?q\<rparr>"
    using sh_resumed by (simp add: sh_question_def)
  have H: "net_step (NetData (1, 1) (sh_env False) ''H'' True) \<lparr>rn_receiver = sh_5 False, rn_peers = [1], rn_asking = ?q\<rparr> =
      Some \<lparr>rn_receiver = sh_6 False, rn_peers = [1], rn_asking = ?q\<rparr>"
    using sh_opened [of "(1, 1)" ?q] by simp
  have R2: "net_step (NetResume (1, 0) (sh_env False)) \<lparr>rn_receiver = sh_6 False, rn_peers = [1], rn_asking = ?q\<rparr> =
      Some \<lparr>rn_receiver = ?late, rn_peers = [1], rn_asking = []\<rparr>" by simp
  have "net_run [NetData (1, 0) (sh_env False) ''L'' True, NetData (1, 1) (sh_env False) ''L'' True, NetResume (1, 1) (sh_env False),
      NetData (1, 1) (sh_env False) ''H'' True, NetResume (1, 0) (sh_env False)]
      \<lparr>rn_receiver = rtc_demo_3 [] False, rn_peers = [1], rn_asking = []\<rparr> = Some \<lparr>rn_receiver = ?late, rn_peers = [1], rn_asking = []\<rparr>"
    by (simp only: net_run.simps L L2 R H R2 option.case)
  then have run: "net_run late_answer (net_of (configured [] ''/b'' None False None books_disk (\<lambda>p. None))) =
      Some \<lparr>rn_receiver = ?late, rn_peers = [1], rn_asking = []\<rparr>"
    unfolding late_answer_def net_run_append sh_net_start option.case .
  have f: "rr_peer (sh_6 False) = Some 1" "\<not> rr_require_pairing (sh_6 False)" "rr_paths (sh_6 False) = [(''f'', ''/b/a.txt'')]"
    by (simp_all add: sh_6_def sh_5_def rtc_demo_state_defs sh_target_def)
  have sel: "select_allowed (\<lambda>s. s) [''txt''] [rtc_demo_file] = [''f'']" using sh_selected [of False] by (simp add: sh_files_def)
  have "rr_state ?late = WaitFiles"
    using answer_list_accepts [OF f(1) _ f(2), of "[''f'']" "sh_env False"] by (simp add: sh_question_def sel sh_env_simps)
  moreover have "rr_paths ?late = [(''f'', ''/b/a.txt'')]"
    using answer_list_quiet [of "sh_6 False" "sh_env False" "[''f'']"] f(3) by (simp add: sh_question_def sel quiet_defs)
  ultimately show ?thesis using run by simp
qed

text \<open>
  With a PIN: the peer that gave it leaves while the user is asked for its files, another one is accepted, and the
  answer then takes that one to the reception of files without a PIN. No file comes of it, as \<open>pin_comes_before_files\<close>
  says: the second peer has no token.
\<close>

definition answer_to_the_next :: "rtc_net_event list" where
  "answer_to_the_next = [NetStep (EvOffer rtc_demo_env ''peer'' ''Phone''), NetStep (EvPeer 1)] @
     map (on_channel (1, 0)) [EvData rtc_demo_env ''N'' True, EvData rtc_demo_env ''T'' True, EvData rtc_demo_env ''P'' True] @
     [NetData (1, 0) (sh_env False) ''L'' True, NetStep (EvClosed rtc_demo_env 1),
      NetStep (EvOffer rtc_demo_env ''other'' ''Tablet''), NetStep (EvPeer 2), NetResume (1, 0) (sh_env False)]"

theorem resumed_handler_skips_pin:
  "\<exists>s. net_run answer_to_the_next (net_of (configured ''1234'' ''/b'' None False None books_disk (\<lambda>p. None))) = Some s \<and>
     rr_peer (rn_receiver s) = Some 2 \<and> rr_state (rn_receiver s) = WaitFiles"
proof -
  let ?es = "[EvData rtc_demo_env ''N'' True, EvData rtc_demo_env ''T'' True, EvData rtc_demo_env ''P'' True]"
  let ?q = "[((1, 0), sh_question)]"
  have "rtc_run ?es (rtc_demo_1 ''1234'' False) = Some rtc_demo_4"
    by (simp only: rtc_run.simps rtc_demo_12 rtc_demo_23 rtc_demo_34 option.case)
  then have es: "net_run (map (on_channel (1, 0)) ?es) \<lparr>rn_receiver = rtc_demo_1 ''1234'' False, rn_peers = [1], rn_asking = []\<rparr> =
      Some \<lparr>rn_receiver = rtc_demo_4, rn_peers = [1], rn_asking = []\<rparr>"
    using lift_run [of ?es "\<lparr>rn_receiver = rtc_demo_1 ''1234'' False, rn_peers = [1], rn_asking = []\<rparr>" rtc_demo_4 "(1, 0)"]
    by (simp add: rtc_demo_env_simps)
  have w: "rr_state rtc_demo_4 = WaitFileList" "rr_control rtc_demo_4 = []" "rr_peer rtc_demo_4 = Some 1"
      "\<not> rr_accepting rtc_demo_4" "rr_blocked rtc_demo_4 = []" "\<not> rr_require_pairing rtc_demo_4"
    by (simp_all add: rtc_demo_state_defs)
  let ?r = "handle_peer_closed rtc_demo_env 1 (sh_asked rtc_demo_4)"
  let ?o = "reserve_offer rtc_demo_env ''other'' ''Tablet'' ?r"
  let ?p = "snd (install_peer 2 (snd ?o))"
  let ?a = "resume_file_list (sh_env False) sh_question ?p"
  have L: "net_step (NetData (1, 0) (sh_env False) ''L'' True) \<lparr>rn_receiver = rtc_demo_4, rn_peers = [1], rn_asking = []\<rparr> =
      Some \<lparr>rn_receiver = sh_asked rtc_demo_4, rn_peers = [1], rn_asking = ?q\<rparr>"
    using sh_asking_run [OF w(1,2), of "(1, 0)" "[]"] by simp
  have N: "net_run [NetStep (EvClosed rtc_demo_env 1), NetStep (EvOffer rtc_demo_env ''other'' ''Tablet''), NetStep (EvPeer 2),
      NetResume (1, 0) (sh_env False)] \<lparr>rn_receiver = sh_asked rtc_demo_4, rn_peers = [1], rn_asking = ?q\<rparr> =
      Some \<lparr>rn_receiver = ?a, rn_peers = [2, 1], rn_asking = []\<rparr>"
    by (simp del: resume_file_list.simps)
  have "net_run (NetData (1, 0) (sh_env False) ''L'' True # [NetStep (EvClosed rtc_demo_env 1),
      NetStep (EvOffer rtc_demo_env ''other'' ''Tablet''), NetStep (EvPeer 2), NetResume (1, 0) (sh_env False)])
      \<lparr>rn_receiver = rtc_demo_4, rn_peers = [1], rn_asking = []\<rparr> = Some \<lparr>rn_receiver = ?a, rn_peers = [2, 1], rn_asking = []\<rparr>"
    unfolding net_run.simps(2) [of "NetData (1, 0) (sh_env False) ''L'' True"] L option.case N ..
  then have run: "net_run answer_to_the_next (net_of (rtc_demo_receiver ''1234'' False)) =
      Some \<lparr>rn_receiver = ?a, rn_peers = [2, 1], rn_asking = []\<rparr>"
    unfolding answer_to_the_next_def net_run_append demo_net_start option.case es .
  have r: "\<not> rr_accepting ?r" "rr_peer ?r = None" "rr_blocked ?r = []" "\<not> rr_require_pairing ?r"
    using w by (simp_all add: handle_peer_closed_def sh_asked_fields cleanup_partial_files_def mark_transfer_done_def)
  then have o: "rr_accepting (snd ?o)" "\<not> rr_require_pairing (snd ?o)"
    by (simp_all add: reserve_offer_def is_peer_blocked_def gm_keep_def cleanup_partial_files_def mark_transfer_done_def)
  then have p: "rr_peer ?p = Some 2" "\<not> rr_require_pairing ?p" by (simp_all add: install_peer_def)
  have sel: "select_allowed (\<lambda>s. s) [''txt''] [rtc_demo_file] = [''f'']" using sh_selected [of False] by (simp add: sh_files_def)
  have a: "?a = answer_file_list (sh_env False) [''f''] ?p" by (simp add: sh_question_def sel)
  have "rr_state ?a = WaitFiles"
    unfolding a using answer_list_accepts [OF p(1) _ p(2), of "[''f'']" "sh_env False"] by (simp add: sh_env_simps)
  moreover have "rr_peer ?a = Some 2"
    unfolding a using answer_list_accepts [OF p(1) _ p(2), of "[''f'']" "sh_env False"] by (simp add: sh_env_simps)
  ultimately show ?thesis using run unfolding demo_configured by simp
qed

end
