(* ===== verification/Recv_Filter.thy ===== *)
theory Recv_Filter
  imports RTC_Net Stored_Names
begin

text \<open>
  The extension filter of \<open>cmd/recv\<close> over WebRTC: without repeated ids it holds for every file that is written. The
  filter is the callback that selects files; from its answer to the file on the disk the id of the file is what links
  them, through the tokens, the pairing and the remapping of folders.
\<close>

subsection \<open>Without repeated ids\<close>

text \<open>What the filter can rely on: the ids of every list are distinct, and an accepted list is sent without an error.\<close>

definition filters_with :: "(string \<Rightarrow> string) \<Rightarrow> string list \<Rightarrow> rtc_env \<Rightarrow> bool" where
  "filters_with lower exts E \<longleftrightarrow>
     re_select E = Some (select_allowed lower exts) \<and> \<not> re_send_fails E \<and> \<not> re_delimiter_fails E \<and>
     (\<forall>d j st fs. re_parse E d = Some j \<longrightarrow> decode_file_list j = Some (st, fs) \<longrightarrow> distinct (map rf_id fs))"

text \<open>The disk: what is new is a directory or has an allowed name; so have the open files.\<close>

definition disk_filtered :: "(string \<Rightarrow> bool) \<Rightarrow> filesys \<Rightarrow> rtc_receiver \<Rightarrow> bool" where
  "disk_filtered ok disk0 r \<longleftrightarrow>
     (\<forall>q. rr_disk r q = disk0 q \<or> disk0 q = None \<and> (rr_disk r q = Some Dir \<or> ok q)) \<and>
     (\<forall>p \<in> snd ` set (rr_paths r). ok p \<and> disk0 p = None)"

text \<open>The files on offer: a token is only for a file with an allowed name.\<close>

definition early_states :: "rtc_state set" where
  "early_states = {WaitNonce, WaitToken, WaitPin, WaitFileList}"

definition list_filtered :: "(string \<Rightarrow> bool) \<Rightarrow> rtc_receiver \<Rightarrow> bool" where
  "list_filtered ok r \<longleftrightarrow>
     (rr_state r \<in> early_states \<longrightarrow> rr_tokens r = []) \<and>
     (rr_state r = WaitPairResponse \<longrightarrow> (\<forall>i \<in> set (rr_accepted r). \<forall>f. lookup_file i r = Some f \<longrightarrow> ok (rf_name f))) \<and>
     (\<forall>i t f. map_of (rr_tokens r) i = Some t \<longrightarrow> lookup_file i r = Some f \<longrightarrow> ok (rf_name f))"

definition books :: "rtc_receiver \<Rightarrow> (string, string) gomap \<times> string list \<times> (string \<Rightarrow> rtc_file option)" where
  "books r = (rr_tokens r, rr_accepted r, \<lambda>i. lookup_file i r)"

lemma booksI:
  "rr_tokens r' = rr_tokens r \<Longrightarrow> rr_accepted r' = rr_accepted r \<Longrightarrow> rr_files r' = rr_files r \<Longrightarrow>
     rr_file_by_id r' = rr_file_by_id r \<Longrightarrow> books r' = books r"
  using lookup_same [of r' r] by (simp add: books_def)

lemma list_filtered_books:
  assumes "list_filtered ok r" "books r' = books r" "rr_state r' \<in> early_states \<Longrightarrow> rr_state r \<in> early_states"
    and "rr_state r' = WaitPairResponse \<Longrightarrow> rr_state r = WaitPairResponse"
  shows "list_filtered ok r'"
proof -
  have "rr_tokens r' = rr_tokens r" "rr_accepted r' = rr_accepted r" "\<And>i. lookup_file i r' = lookup_file i r"
    using assms(2) by (auto simp: books_def fun_eq_iff)
  with assms(1,3,4) show ?thesis by (auto simp: list_filtered_def)
qed

lemma books_updates [simp]:
  "books (r\<lparr>rr_state := st\<rparr>) = books r" "books (r\<lparr>rr_peer := p\<rparr>) = books r" "books (r\<lparr>rr_sent := l\<rparr>) = books r"
  "books (r\<lparr>rr_control := c\<rparr>) = books r" "books (r\<lparr>rr_current := i\<rparr>) = books r" "books (r\<lparr>rr_bytes := n\<rparr>) = books r"
  "books (r\<lparr>rr_unique := a\<rparr>) = books r" "books (r\<lparr>rr_pin_attempts := n\<rparr>) = books r"
  "books (r\<lparr>rr_provided_pins := k\<rparr>) = books r" "books (r\<lparr>rr_blocked := b\<rparr>) = books r"
  "books (r\<lparr>rr_trusted := s\<rparr>) = books r" "books (r\<lparr>rr_config_disk := d\<rparr>) = books r" "books (r\<lparr>rr_disk := d'\<rparr>) = books r"
  "books (r\<lparr>rr_buffers := bs\<rparr>) = books r" "books (r\<lparr>rr_paths := ps\<rparr>) = books r" "books (r\<lparr>rr_hashers := hs\<rparr>) = books r"
  "books (r\<lparr>rr_received := xs\<rparr>) = books r" "books (r\<lparr>rr_remapper := x\<rparr>) = books r" "books (r\<lparr>rr_accepting := f\<rparr>) = books r"
  "books (r\<lparr>rr_sender_key := y\<rparr>) = books r" "books (r\<lparr>rr_sender_pem := z\<rparr>) = books r" "books (r\<lparr>rr_sender_token := w\<rparr>) = books r"
  "books (r\<lparr>rr_ensured := es\<rparr>) = books r" "books (r\<lparr>rr_folder := g\<rparr>) = books r" "books (r\<lparr>rr_folder_known := h\<rparr>) = books r"
  "books (r\<lparr>rr_remote_nonce := n1\<rparr>) = books r" "books (r\<lparr>rr_local_nonce := n1\<rparr>) = books r" "books (r\<lparr>rr_final_nonce := n1\<rparr>) = books r"
  "books (r\<lparr>rr_last_id := i\<rparr>) = books r" "books (r\<lparr>rr_last_bytes := n\<rparr>) = books r" "books (r\<lparr>rr_last_progress := tt\<rparr>) = books r"
  by (rule booksI; simp)+

lemma books_small [simp]:
  "books (try_send E m r) = books r" "books (try_chunked E m r) = books r"
  "books (mark_transfer_done r) = books r" "books (mark_transfer_started E r) = books r"
  "books (cleanup_partial_files E r) = books r" "books (terminate E r) = books r"
  "books (cleanup_current_file E r) = books r" "books (reject_file_transfer r) = books r"
  "books (with_trusted_key E tok r) = books r"
  by (rule booksI; simp add: send_defs mark_transfer_done_def mark_transfer_started_def cleanup_partial_files_def
      terminate_def cleanup_current_file_def reject_file_transfer_def with_trusted_key_def Let_def split: option.split prod.split)+

lemma books_send: "send_msg E m r = (b, r1) \<Longrightarrow> books r1 = books r" "send_chunked E m r = (b, r1) \<Longrightarrow> books r1 = books r"
  by (auto simp: send_defs split: if_splits)

lemma books_meta: "file_meta_by_id i r = (f, r1) \<Longrightarrow> books r1 = books r"
  using meta_shape [of i r f r1] lookup_cached [of i r f r1] by (auto simp: books_def)

lemma books_folder: "books (snd (rtc_folder_transfer r)) = books r"
  by (simp add: rtc_folder_transfer_def Let_def)

lemma books_save_dir: "rtc_save_dir E n r = (d, r1) \<Longrightarrow> books r1 = books r"
  using books_folder [of r] by (auto simp: rtc_save_dir_def Let_def split: prod.splits bool.splits option.splits if_splits)

lemma books_ensure: "rtc_ensure_save_dir E d r = (b, r1) \<Longrightarrow> books r1 = books r"
  by (auto simp: rtc_ensure_save_dir_def split: if_splits prod.splits bool.splits)

lemma books_binary [simp]: "books (handle_binary_data E d r) = books r"
proof -
  obtain f r1 where m: "file_meta_by_id (rr_current r) r = (f, r1)" by fastforce
  show ?thesis
    unfolding handle_binary_data_def m using books_meta [OF m] by (auto simp: Let_def split: option.split)
qed

lemma books_finish [simp]: "books (finish_current_file E r) = books r"
proof -
  obtain f r1 where m: "file_meta_by_id (rr_current r) r = (f, r1)" by fastforce
  show ?thesis
    unfolding finish_current_file_def m using books_meta [OF m] by (simp add: Let_def)
qed

lemma list_books_start [simp]: "books (start_receiving_file E i t r) = books r"
proof -
  obtain f r1 where m: "file_meta_by_id i r = (f, r1)" by fastforce
  note b1 = books_meta [OF m]
  show ?thesis
  proof (cases f)
    case None
    with m b1 show ?thesis by (simp add: start_receiving_file_def)
  next
    case (Some meta)
    show ?thesis
    proof (cases "sanitize_path_with_fallback (rf_name meta)")
      case (Inl e)
      with m b1 Some show ?thesis by (simp add: start_receiving_file_def)
    next
      case (Inr p0)
      obtain dir r2 where sd: "rtc_save_dir E (rf_name meta) r1 = (dir, r2)" by fastforce
      let ?full = "full_save_dir dir (rtc_apply_folder_remap r1 p0)"
      obtain ok r3 where en: "rtc_ensure_save_dir E ?full r2 = (ok, r3)" by fastforce
      have b3: "books r3 = books r" using b1 books_save_dir [OF sd] books_ensure [OF en] by simp
      obtain x a where al: "alloc_create (env_io E) ?full (path_base (rtc_apply_folder_remap r1 p0)) (rr_unique r3) (rr_disk r3) = (x, a)"
        by fastforce
      show ?thesis
        unfolding start_receiving_file_def m
        by (simp add: Some Inr sd Let_def en al b3 split: option.split bool.split)
    qed
  qed
qed

lemma books_header [simp]: "books (handle_file_header E msg r) = books r"
  by (cases msg) (simp_all add: handle_file_header_def)

lemma books_nonce [simp]: "books (handle_nonce E msg r) = books r"
  by (cases msg) (auto simp: handle_nonce_def send_msg_def Let_def split: option.split)

lemma books_token [simp]: "books (handle_token E msg r) = books r"
proof (cases msg)
  case (MTokenRequest tok)
  have "books (answer_token E x) = books x" for x
    by (simp add: answer_token_def split: option.split)
  then show ?thesis unfolding MTokenRequest handle_token_eq Let_def by (simp split: option.split)
qed (simp_all add: handle_token_def)

lemma books_pin [simp]: "books (handle_pin E msg r) = books r"
  by (cases msg) (simp_all add: handle_pin_def Let_def)

subsection \<open>The files on offer\<close>

lemma prepare_ids_books:
  "prepare_ids E n ids r acc = (acc', r') \<Longrightarrow>
     rr_accepted r' = rr_accepted r \<and> rr_peer r' = rr_peer r \<and> (\<forall>j. lookup_file j r' = lookup_file j r) \<and>
     dom (map_of (rr_tokens r')) \<subseteq> dom (map_of (rr_tokens r)) \<union> set ids"
proof (induction E n ids r acc arbitrary: acc' r' rule: prepare_ids.induct)
  case (1 E n r acc)
  then show ?case by simp
next
  case (2 E n i ids r acc)
  obtain f r1 where m: "file_meta_by_id i r = (f, r1)" by fastforce
  obtain x where r1: "r1 = r\<lparr>rr_file_by_id := x\<rparr>" using meta_shape [OF m] by blast
  note look = lookup_cached [OF m]
  show ?case
  proof (cases f)
    case None
    with "2.prems" m have "prepare_ids E n ids r1 acc = (acc', r')" by simp
    from "2.IH"(1) [OF m [symmetric] None this] look show ?thesis by (auto simp: r1)
  next
    case (Some g)
    show ?thesis
    proof (cases "has_nul (rf_name g) \<or> isl (sanitize_path_with_fallback (rf_name g))")
      case True
      with "2.prems" m Some have "prepare_ids E n ids r1 acc = (acc', r')" by auto
      from "2.IH"(2) [OF m [symmetric] Some True this] look show ?thesis by (auto simp: r1)
    next
      case False
      let ?r = "r1\<lparr>rr_tokens := AList.update i (re_tokens E n) (rr_tokens r1)\<rparr>"
      have "lookup_file j ?r = lookup_file j r1" for j by (rule lookup_same) simp_all
      moreover have "prepare_ids E (Suc n) ids ?r (AList.update i (re_tokens E n) acc) = (acc', r')"
        using "2.prems" m Some False by auto
      from "2.IH"(3) [OF m [symmetric] Some False this]
      have "rr_accepted r' = rr_accepted r1 \<and> rr_peer r' = rr_peer r1 \<and> (\<forall>j. lookup_file j r' = lookup_file j ?r) \<and>
        dom (map_of (rr_tokens r')) \<subseteq> insert i (dom (map_of (rr_tokens r1))) \<union> set ids"
        by (auto simp: update_conv' split: if_splits)
      ultimately show ?thesis using look by (auto simp: r1)
    qed
  qed
qed

definition offer_allowed :: "(string \<Rightarrow> bool) \<Rightarrow> rtc_receiver \<Rightarrow> bool" where
  "offer_allowed ok r \<longleftrightarrow>
     (\<forall>i \<in> set (rr_accepted r) \<union> dom (map_of (rr_tokens r)). \<forall>f. lookup_file i r = Some f \<longrightarrow> ok (rf_name f))"

lemma accept_allowed:
  assumes "offer_allowed ok r" "rr_state r = WaitPairResponse \<or> rr_peer r \<noteq> None \<and> \<not> re_send_fails E \<and> \<not> re_delimiter_fails E"
  shows "list_filtered ok (accept_files_now E r)"
proof -
  obtain tok r1 where p: "prepare_files_for_receive E (rr_accepted r) r = (tok, r1)" by fastforce
  let ?r0 = "rtc_prepare_folder_remap r"
  have r0: "books ?r0 = books r" "rr_peer ?r0 = rr_peer r" by (simp_all add: rtc_prepare_folder_remap_def split: option.split)
  have "prepare_ids E 0 (rr_accepted r) ?r0 [] = (tok, r1)" using p by (simp add: prepare_files_for_receive_def)
  from prepare_ids_books [OF this] r0
  have r1: "rr_accepted r1 = rr_accepted r" "rr_peer r1 = rr_peer r" "\<And>j. lookup_file j r1 = lookup_file j r"
    "dom (map_of (rr_tokens r1)) \<subseteq> dom (map_of (rr_tokens r)) \<union> set (rr_accepted r)"
    by (auto simp: books_def fun_eq_iff)
  have books: "books (accept_files_now E r) = books r1"
    unfolding accept_files_now_def p by (auto dest: books_send split: prod.split bool.split)
  then have same: "rr_accepted (accept_files_now E r) = rr_accepted r1" "rr_tokens (accept_files_now E r) = rr_tokens r1"
    "\<And>j. lookup_file j (accept_files_now E r) = lookup_file j r1"
    by (auto simp: books_def fun_eq_iff)
  have tok: "ok (rf_name f)" if "map_of (rr_tokens (accept_files_now E r)) i = Some t" "lookup_file i (accept_files_now E r) = Some f" for i t f
  proof -
    have "i \<in> dom (map_of (rr_tokens r)) \<union> set (rr_accepted r)" using that(1) r1(4) same(2) by auto
    with assms(1) that(2) r1(3) same(3) show ?thesis unfolding offer_allowed_def by auto
  qed
  have st: "rr_state (accept_files_now E r) \<notin> early_states"
  proof (cases "rr_state r = WaitPairResponse")
    case True
    with accept_state [of E r] show ?thesis by (auto simp: early_states_def)
  next
    case False
    with assms(2) obtain q where "rr_peer r1 = Some q" "\<not> re_send_fails E" "\<not> re_delimiter_fails E" using r1(2) by auto
    then have "rr_state (accept_files_now E r) = WaitFiles"
      unfolding accept_files_now_def p by (simp add: send_chunked_def send_msg_def)
    then show ?thesis by (simp add: early_states_def)
  qed
  have acc: "ok (rf_name f)" if "i \<in> set (rr_accepted (accept_files_now E r))" "lookup_file i (accept_files_now E r) = Some f" for i f
    using assms(1) that r1 same unfolding offer_allowed_def by auto
  from tok st acc show ?thesis unfolding list_filtered_def by blast
qed

lemma find_distinct:
  "distinct (map rf_id fs) \<Longrightarrow> f \<in> set fs \<Longrightarrow> rf_id f = i \<Longrightarrow> find (\<lambda>g. rf_id g = i) fs = Some f"
proof (induction fs)
  case Nil
  then show ?case by simp
next
  case (Cons g fs)
  then show ?case by (cases "f = g") force+
qed

lemma index_files_find: "map_of (index_files fs m) i = (case map_of m i of Some f \<Rightarrow> Some f | None \<Rightarrow> find (\<lambda>f. rf_id f = i) fs)"
  by (induction fs arbitrary: m) (auto simp: update_conv' split: option.splits)

lemma offered_lookup: "lookup_file i (offered r fs ids) = find (\<lambda>f. rf_id f = i) fs"
proof -
  have "rr_files (offered r fs ids) = fs" "rr_file_by_id (offered r fs ids) = index_files fs []"
    by (simp_all add: offered_def rtc_folder_transfer_def rebuild_file_index_def Let_def)
  then show ?thesis by (simp add: lookup_eq index_files_find split: option.split)
qed

lemma offered_tokens: "rr_tokens (offered r fs ids) = rr_tokens r" "rr_accepted (offered r fs ids) = ids"
  by (simp_all add: offered_def rtc_folder_transfer_def rebuild_file_index_def Let_def)

lemma selected_allowed:
  assumes "distinct (map rf_id fs)" "i \<in> set (select_allowed lower exts fs)" "find (\<lambda>f. rf_id f = i) fs = Some f"
  shows "is_extension_allowed lower (rf_name f) exts"
proof -
  obtain g where g: "g \<in> set fs" "rf_id g = i" "is_extension_allowed lower (rf_name g) exts"
    using assms(2) by (auto simp: select_allowed_def)
  from find_distinct [OF assms(1) g(1,2)] assms(3) g(3) show ?thesis by simp
qed

lemma list_allowed:
  assumes "filters_with lower exts E" "rr_state r = WaitFileList" "rr_tokens r = []" "re_parse E d = Some j"
  shows "list_filtered (\<lambda>q. is_extension_allowed lower q exts) (handle_file_list E msg j r)" (is "list_filtered ?ok _")
proof -
  have lf: "list_filtered ?ok x" if "rr_state x \<in> {WaitFileList, RtcDone}" "rr_tokens x = []" for x
    using that by (auto simp: list_filtered_def)
  have bk: "rr_tokens x = []" if "books x = books r" for x using that assms(3) by (simp add: books_def)
  consider (pin) "msg_type msg = ''status_PIN_REQUIRED''"
    | (refused) "msg_type msg = ''status_TOO_MANY_ATTEMPTS''"
    | (other) "msg_type msg \<notin> {''status_PIN_REQUIRED'', ''status_TOO_MANY_ATTEMPTS'', ''file_list'', ''status_OK''}"
    | (list) "msg_type msg \<in> {''file_list'', ''status_OK''}" by blast
  then show ?thesis
  proof cases
    case pin
    have "books (handle_file_list E msg j r) = books r \<and> rr_state (handle_file_list E msg j r) \<in> {WaitFileList, RtcDone}"
      using pin assms(2) by (simp add: handle_file_list_eq Let_def send_msg_def terminate_def)
    then show ?thesis using lf bk by blast
  next
    case refused
    have "books (handle_file_list E msg j r) = books r \<and> rr_state (handle_file_list E msg j r) = RtcDone"
      using refused by (simp add: handle_file_list_eq terminate_def)
    then show ?thesis using lf bk by blast
  next
    case other
    then show ?thesis using assms(2,3) lf by (simp add: handle_file_list_eq)
  next
    case list
    show ?thesis
    proof (cases "decode_file_list j")
      case None
      with list assms(2,3) lf show ?thesis by (auto simp: handle_file_list_eq)
    next
      case (Some x)
      obtain st files where x: "x = (st, files)" by fastforce
      let ?ids = "select_allowed lower exts files"
      let ?r2 = "offered r files ?ids"
      have sel: "re_select E = Some (select_allowed lower exts)" "\<not> re_send_fails E" "\<not> re_delimiter_fails E"
        "distinct (map rf_id files)"
        using assms(1,4) Some unfolding filters_with_def x by blast+
      define ask where "ask = (case send_chunked E (OutFileList status_pair [] (re_key_pem E)) ?r2 of
               (True, r3) \<Rightarrow> r3\<lparr>rr_state := WaitPairResponse\<rparr>
             | (False, r3) \<Rightarrow> r3)"
      have n: "(msg_type msg = ''status_PIN_REQUIRED'') = False" "(msg_type msg = ''status_TOO_MANY_ATTEMPTS'') = False"
          "(msg_type msg \<noteq> ''file_list'' \<and> msg_type msg \<noteq> ''status_OK'') = False"
          using list by auto
      have h: "handle_file_list E msg j r =
         (if max_files_per_session < length files then try_chunked E (OutFileList status_declined [] []) r
          else if rr_peer ?r2 = None then ?r2
          else if ?ids = [] then try_chunked E (OutFileList status_declined [] []) ?r2
          else if rr_require_pairing ?r2 \<and> rr_sender_key ?r2 = None then ask
          else accept_files_now E ?r2)"
        unfolding handle_file_list_eq n Some x ask_def offered_def sel(1)
        by (simp only: if_False option.case prod.case Let_def)
      note o = offered_frame [of r files ?ids]
      have tok: "rr_tokens (try_chunked E m y) = rr_tokens y" for m y
        using books_small(2) [of E m y] by (simp add: books_def)
      have oa: "offer_allowed ?ok ?r2"
        using selected_allowed [OF sel(4)] by (auto simp: offer_allowed_def offered_tokens offered_lookup assms(3))
      have "list_filtered ?ok (accept_files_now E ?r2)" if "rr_peer ?r2 \<noteq> None"
        using accept_allowed [OF oa, of E] that o assms(2) sel by simp
      moreover have "list_filtered ?ok ask"
      proof -
        have b: "books ask = books ?r2" unfolding ask_def by (auto dest: books_send split: prod.split bool.split)
        have "rr_state ask \<in> {WaitFileList, WaitPairResponse}" unfolding ask_def using o assms(2) by (auto simp: send_defs)
        with b oa show ?thesis
          by (auto simp: list_filtered_def books_def offer_allowed_def offered_tokens assms(3) early_states_def fun_eq_iff)
      qed
      moreover have "list_filtered ?ok (try_chunked E m r)" "list_filtered ?ok ?r2" "list_filtered ?ok (try_chunked E m ?r2)" for m
        by (rule lf; simp add: o assms(2,3) offered_tokens tok)+
      ultimately show ?thesis unfolding h by (simp only: split: if_split) blast
    qed
  qed
qed

subsection \<open>The disk\<close>

lemma disk_filteredI:
  "(\<And>q. rr_disk r q = d0 q \<or> d0 q = None \<and> (rr_disk r q = Some Dir \<or> ok q)) \<Longrightarrow>
   (\<And>x. x \<in> snd ` set (rr_paths r) \<Longrightarrow> ok x \<and> d0 x = None) \<Longrightarrow> disk_filtered ok d0 r"
  unfolding disk_filtered_def by simp

lemma disk_filteredD:
  "disk_filtered ok d0 r \<Longrightarrow> rr_disk r q = d0 q \<or> d0 q = None \<and> (rr_disk r q = Some Dir \<or> ok q)"
  unfolding disk_filtered_def by simp

lemma disk_filtered_pathD:
  assumes "disk_filtered ok d0 r" "x \<in> snd ` set (rr_paths r)"
  shows "ok x \<and> d0 x = None"
proof -
  have "\<forall>p \<in> snd ` set (rr_paths r). ok p \<and> d0 p = None"
    using assms(1) unfolding disk_filtered_def by (rule conjunct2)
  then show ?thesis using assms(2) by (rule bspec)
qed

lemma disk_quiet: "disk_filtered ok d0 r \<Longrightarrow> same_files r r' \<Longrightarrow> disk_filtered ok d0 r'"
  by (simp add: disk_filtered_def same_files_def)

lemma disk_dirs:
  assumes "disk_filtered ok d0 r" "only_dirs_added (rr_disk r) (rr_disk r')" "set (rr_paths r') \<subseteq> set (rr_paths r)"
  shows "disk_filtered ok d0 r'"
proof (rule disk_filteredI)
  fix q
  have "rr_disk r' q = rr_disk r q \<or> rr_disk r q = None \<and> rr_disk r' q = Some Dir"
    using assms(2) unfolding only_dirs_added_def by metis
  with disk_filteredD [OF assms(1), of q]
  show "rr_disk r' q = d0 q \<or> d0 q = None \<and> (rr_disk r' q = Some Dir \<or> ok q)" by auto
next
  fix x
  assume "x \<in> snd ` set (rr_paths r')"
  with assms(3) have "x \<in> snd ` set (rr_paths r)" by auto
  with assms(1) show "ok x \<and> d0 x = None" by (rule disk_filtered_pathD)
qed

text \<open>A change of the disk at one allowed path that was free at first.\<close>

lemma disk_change:
  assumes "disk_filtered ok d0 r" "ok p" "d0 p = None" "\<And>q. q \<noteq> p \<Longrightarrow> rr_disk r' q = rr_disk r q"
    and "\<And>x. x \<in> snd ` set (rr_paths r') \<Longrightarrow> x = p \<or> x \<in> snd ` set (rr_paths r)"
  shows "disk_filtered ok d0 r'"
proof (rule disk_filteredI)
  fix q
  show "rr_disk r' q = d0 q \<or> d0 q = None \<and> (rr_disk r' q = Some Dir \<or> ok q)"
    using disk_filteredD [OF assms(1), of q] assms(2-4) by (cases "q = p") auto
next
  fix x
  assume "x \<in> snd ` set (rr_paths r')"
  from assms(5) [OF this] disk_filtered_pathD [OF assms(1)] assms(2,3) show "ok x \<and> d0 x = None" by auto
qed

lemma remove_elsewhere: "q \<noteq> p \<Longrightarrow> remove_file env p fs q = fs q"
  by (simp add: remove_file_def)

lemma remove_paths_elsewhere: "q \<notin> set ps \<Longrightarrow> remove_paths env ps fs q = fs q"
  unfolding remove_paths_def by (induction ps arbitrary: fs) (simp_all add: remove_elsewhere)

lemma disk_cleanup: "disk_filtered ok d0 r \<Longrightarrow> disk_filtered ok d0 (cleanup_partial_files E r)"
proof -
  assume d: "disk_filtered ok d0 r"
  let ?r = "cleanup_partial_files E r"
  have disk: "rr_disk ?r = remove_paths (env_io E) (map snd (rr_paths r)) (rr_disk r)" "rr_paths ?r = []"
    by (simp_all add: cleanup_partial_files_def mark_transfer_done_def)
  show ?thesis
  proof (rule disk_filteredI)
    fix q
    show "rr_disk ?r q = d0 q \<or> d0 q = None \<and> (rr_disk ?r q = Some Dir \<or> ok q)"
    proof (cases "q \<in> snd ` set (rr_paths r)")
      case True
      from disk_filtered_pathD [OF d this] show ?thesis by simp
    next
      case False
      with remove_paths_elsewhere [of q "map snd (rr_paths r)"] disk_filteredD [OF d, of q] show ?thesis
        unfolding disk(1) by simp
    qed
  qed (simp add: disk(2))
qed

lemma path_of_current: "disk_filtered ok d0 r \<Longrightarrow> map_of (rr_paths r) i = Some p \<Longrightarrow> ok p \<and> d0 p = None"
  by (rule disk_filtered_pathD) (auto dest: map_of_SomeD intro: rev_image_eqI)

lemma disk_cleanup_current: "disk_filtered ok d0 r \<Longrightarrow> disk_filtered ok d0 (cleanup_current_file E r)"
proof -
  assume d: "disk_filtered ok d0 r"
  let ?r = "cleanup_current_file E r"
  have paths: "rr_paths ?r = AList.delete (rr_current r) (rr_paths r)"
    by (simp add: cleanup_current_file_def mark_transfer_done_def Let_def)
  then have sub: "set (rr_paths ?r) \<subseteq> set (rr_paths r)" by (auto simp: AList.delete_eq)
  show ?thesis
  proof (cases "map_of (rr_paths r) (rr_current r)")
    case None
    then have "rr_disk ?r = rr_disk r" by (simp add: cleanup_current_file_def mark_transfer_done_def Let_def)
    then have "only_dirs_added (rr_disk r) (rr_disk ?r)" by (simp add: only_dirs_added_def)
    then show ?thesis using sub by (rule disk_dirs [OF d])
  next
    case (Some p)
    show ?thesis
    proof (rule disk_change [OF d])
      show "ok p" "d0 p = None" using path_of_current [OF d Some] by simp_all
      show "q \<noteq> p \<Longrightarrow> rr_disk ?r q = rr_disk r q" for q
        using Some by (simp add: cleanup_current_file_def mark_transfer_done_def Let_def remove_elsewhere)
      show "x \<in> snd ` set (rr_paths ?r) \<Longrightarrow> x = p \<or> x \<in> snd ` set (rr_paths r)" for x using sub by auto
    qed
  qed
qed

lemma disk_reject [simp]: "disk_filtered ok d0 (reject_file_transfer r) = disk_filtered ok d0 r"
  by (simp add: disk_filtered_def reject_file_transfer_def)

lemma disk_binary: "disk_filtered ok d0 r \<Longrightarrow> disk_filtered ok d0 (handle_binary_data E d r)"
proof -
  assume i: "disk_filtered ok d0 r"
  obtain f r1 where m: "file_meta_by_id (rr_current r) r = (f, r1)" by fastforce
  obtain x where r1: "r1 = r\<lparr>rr_file_by_id := x\<rparr>" using meta_shape [OF m] by blast
  have i1: "disk_filtered ok d0 r1" using i by (simp add: r1 disk_filtered_def)
  then have "disk_filtered ok d0 (r1\<lparr>rr_buffers := a\<rparr>)" "disk_filtered ok d0 (r1\<lparr>rr_buffers := a, rr_bytes := b, rr_hashers := c\<rparr>)" for a b c
    by (simp_all add: disk_filtered_def)
  with i1 show ?thesis
    unfolding handle_binary_data_def m by (auto simp: Let_def disk_cleanup_current split: option.split)
qed

lemma disk_finish: "disk_filtered ok d0 r \<Longrightarrow> disk_filtered ok d0 (finish_current_file E r)"
proof -
  assume i: "disk_filtered ok d0 r"
  obtain f r1 where m: "file_meta_by_id (rr_current r) r = (f, r1)" by fastforce
  obtain x where r1: "r1 = r\<lparr>rr_file_by_id := x\<rparr>" using meta_shape [OF m] by blast
  have i1: "disk_filtered ok d0 r1" using i by (simp add: r1 disk_filtered_def)
  let ?r = "finish_current_file E r"
  show ?thesis
  proof (cases "rr_current r = []")
    case True
    with i show ?thesis by (simp add: finish_current_file_def)
  next
    case False
    have paths: "rr_paths ?r = AList.delete (rr_current r) (rr_paths r1)"
      using False by (simp add: finish_current_file_def m r1 Let_def mark_transfer_done_def send_defs)
    then have sub: "set (rr_paths ?r) \<subseteq> set (rr_paths r1)" by (auto simp: AList.delete_eq)
    show ?thesis
    proof (cases "map_of (rr_paths r1) (rr_current r)")
      case None
      then have "rr_disk ?r = rr_disk r1"
        using False by (simp add: finish_current_file_def m r1 Let_def mark_transfer_done_def send_defs split: option.split prod.split)
      then have "only_dirs_added (rr_disk r1) (rr_disk ?r)" by (simp add: only_dirs_added_def)
      then show ?thesis using sub by (rule disk_dirs [OF i1])
    next
      case (Some p)
      show ?thesis
      proof (rule disk_change [OF i1])
        show "ok p" "d0 p = None" using path_of_current [OF i1 Some] by simp_all
        show "q \<noteq> p \<Longrightarrow> rr_disk ?r q = rr_disk r1 q" for q
          using False Some
          by (simp add: finish_current_file_def m r1 Let_def mark_transfer_done_def send_defs remove_elsewhere write_file_def
              split: option.split prod.split)
        show "x \<in> snd ` set (rr_paths ?r) \<Longrightarrow> x = p \<or> x \<in> snd ` set (rr_paths r1)" for x using sub by auto
      qed
    qed
  qed
qed

lemma disk_start:
  assumes d: "disk_filtered (\<lambda>q. is_extension_allowed lower q exts) d0 r" (is "disk_filtered ?ok d0 r")
    and ok: "\<forall>i t f. map_of (rr_tokens r) i = Some t \<longrightarrow> lookup_file i r = Some f \<longrightarrow> is_extension_allowed lower (rf_name f) exts"
    and r: "remapper_ok r" "good_dests r"
  shows "disk_filtered (\<lambda>q. is_extension_allowed lower q exts) d0 (start_receiving_file E i token r)"
  using refl [of "start_receiving_file E i token r"]
proof (cases rule: start_cases)
  case (rejected r1 a)
  from rejected(2) have "disk_filtered ?ok d0 r1" by (intro disk_dirs [OF d]) (simp_all add: near_def same_defs)
  then have "disk_filtered ?ok d0 (r1\<lparr>rr_unique := a\<rparr>)" by (simp add: disk_filtered_def)
  then show ?thesis unfolding rejected(1) by simp
next
  case (opened r1 meta p dir path fs a)
  let ?q = "rtc_apply_folder_remap r p"
  let ?full = "full_save_dir dir ?q"
  have d1: "disk_filtered ?ok d0 r1" "rr_paths r1 = rr_paths r"
    using opened(1) by (auto intro: disk_dirs [OF d] simp: near_def same_defs)
  have safe: "safe_rel ?q" using r(1) fallback_ok_safe [OF opened(4)] by (rule remapped_safe)
  have dir: "dir \<noteq> []" using opened(5) r(2) by (auto simp: good_dests_def)
  have full: "?full \<noteq> []" using full_save_dir_below [OF safe dir] by simp
  have al: "fst (alloc_create (env_io E) ?full (path_base ?q) (rr_unique r) (rr_disk r1)) = Some (path, fs)"
    using opened(6) by simp
  have named: "named_ext x path" if "named_ext x (rf_name meta)" for x
  proof -
    from named_ext_sanitize [OF that opened(4)] have "named_ext x ?q"
      by (auto simp: rtc_apply_folder_remap_def remap_apply_named split: option.split)
    then have "named_ext x (path_base ?q)" using named_ext_last by metis
    then show ?thesis by (rule alloc_create_named [OF al full path_base_safe(2) [OF safe]])
  qed
  have "?ok (rf_name meta)" using ok opened(2,3) by blast
  then have path: "?ok path" using named by (rule extension_kept)
  note fresh = hinted.fresh [OF al]
  have "d0 path = None"
    using disk_filteredD [OF d1(1), of path] fresh by auto
  let ?r = "start_receiving_file E i token r"
  have p: "rr_paths ?r = AList.update i path (rr_paths r)" "rr_disk ?r = fs"
    unfolding opened(7) by (simp_all add: mark_transfer_started_def)
  show ?thesis
  proof (rule disk_change [OF d1(1) path \<open>d0 path = None\<close>])
    show "q \<noteq> path \<Longrightarrow> rr_disk ?r q = rr_disk r1 q" for q using fresh by (simp add: p)
    show "x \<in> snd ` set (rr_paths ?r) \<Longrightarrow> x = path \<or> x \<in> snd ` set (rr_paths r1)" for x
      using alist_update_values [of i path "rr_paths r"] d1(2) by (auto simp: p)
  qed
qed

subsection \<open>Every step\<close>

definition filter_inv :: "(string \<Rightarrow> string) \<Rightarrow> string list \<Rightarrow> filesys \<Rightarrow> rtc_receiver \<Rightarrow> bool" where
  "filter_inv lower exts d0 r \<longleftrightarrow>
     rtc_ok r \<and> disk_filtered (\<lambda>q. is_extension_allowed lower q exts) d0 r \<and>
     list_filtered (\<lambda>q. is_extension_allowed lower q exts) r"

lemma list_tokens:
  "list_filtered ok r \<Longrightarrow> \<forall>i t f. map_of (rr_tokens r) i = Some t \<longrightarrow> lookup_file i r = Some f \<longrightarrow> ok (rf_name f)"
  by (simp add: list_filtered_def)

lemma list_filtered_late:
  "list_filtered ok r \<Longrightarrow> books r' = books r \<Longrightarrow> rr_state r' \<notin> insert WaitPairResponse early_states \<Longrightarrow> list_filtered ok r'"
  by (rule list_filtered_books) auto

lemma start_state: "rr_state (start_receiving_file E i t r) \<in> {WaitFiles, ReceivingFiles}"
  using refl [of "start_receiving_file E i t r"]
  by (cases rule: start_cases) (auto simp: reject_file_transfer_def mark_transfer_started_def)

lemma start_list: "list_filtered ok r \<Longrightarrow> list_filtered ok (start_receiving_file E i t r)"
  using start_state [of E i t r] by (elim list_filtered_late) (auto simp: early_states_def)

lemma binary_state: "rr_state (handle_binary_data E d r) \<in> {rr_state r, WaitFiles}"
proof -
  obtain f r1 where m: "file_meta_by_id (rr_current r) r = (f, r1)" by fastforce
  obtain x where r1: "r1 = r\<lparr>rr_file_by_id := x\<rparr>" using meta_shape [OF m] by blast
  have "rr_state (reject_file_transfer y) = WaitFiles" for y by (simp add: reject_file_transfer_def)
  then show ?thesis unfolding handle_binary_data_def m by (simp add: r1 Let_def split: option.split)
qed

lemma binary_list: "list_filtered ok r \<Longrightarrow> list_filtered ok (handle_binary_data E d r)"
  using binary_state [of E d r] by (elim list_filtered_books) (auto simp: early_states_def)

lemma terminate_inv:
  assumes "disk_filtered ok d0 r" "list_filtered ok r"
  shows "disk_filtered ok d0 (terminate E r) \<and> list_filtered ok (terminate E r)"
proof
  have "same_files (cleanup_partial_files E r) (terminate E r)" by (simp add: terminate_def same_files_def)
  then show "disk_filtered ok d0 (terminate E r)" using disk_cleanup [OF assms(1)] by (rule disk_quiet [rotated])
  show "list_filtered ok (terminate E r)"
    by (rule list_filtered_late [OF assms(2)]) (simp_all, simp add: terminate_def early_states_def)
qed

lemma dispatch_filtered:
  assumes i: "filter_inv lower exts d0 r" and E: "filters_with lower exts E" and h: "dispatch_message E d r = Some r'"
  shows "disk_filtered (\<lambda>q. is_extension_allowed lower q exts) d0 r' \<and> list_filtered (\<lambda>q. is_extension_allowed lower q exts) r'"
    (is "disk_filtered ?ok d0 r' \<and> list_filtered ?ok r'")
proof -
  have ok: "rtc_ok r" "disk_filtered ?ok d0 r" "list_filtered ?ok r" using i by (simp_all add: filter_inv_def)
  show ?thesis
  proof (cases "idle r")
    case False
    then have "rr_state r \<in> {ReceivingFiles, RtcDone}" using ok(1) by (auto simp: rtc_ok_def)
    with h have "r' = r" by (auto simp: dispatch_message_def Let_def split: option.splits rtc_state.splits)
    with ok show ?thesis by simp
  next
    case idle: True
    have q: ?thesis if "quiet r r'" "list_filtered ?ok r'"
      using that disk_quiet [OF ok(2), of r'] by (simp add: quiet_def)
    show ?thesis
    proof (cases "parse_rtc_message (re_parse E) d")
      case None
      with h ok disk_binary [OF ok(2), of E d] binary_list [OF ok(3), of E d] show ?thesis
        by (auto simp: dispatch_message_def split: if_splits list.splits)
    next
      case (Some msg)
      let ?j = "the (re_parse E d)"
      have j: "re_parse E d = Some ?j" using Some by (auto simp: parse_rtc_message_def split: option.splits)
      show ?thesis
      proof (cases "rr_state r")
        case WaitNonce
        then have r': "r' = handle_nonce E msg r" using Some h by (simp add: dispatch_message_def Let_def)
        with nonce_quiet [of r E msg] WaitNonce show ?thesis
          by (intro q list_filtered_books [OF ok(3)]) (auto simp: early_states_def)
      next
        case WaitToken
        then have r': "r' = handle_token E msg r" using Some h by (simp add: dispatch_message_def Let_def)
        with token_quiet [OF idle, of E msg] WaitToken show ?thesis
          by (intro q list_filtered_books [OF ok(3)]) (auto simp: early_states_def)
      next
        case WaitPin
        then have r': "r' = handle_pin E msg r" using Some h by (simp add: dispatch_message_def Let_def)
        with pin_quiet [OF idle, of E msg] WaitPin show ?thesis
          by (intro q list_filtered_books [OF ok(3)]) (auto simp: early_states_def)
      next
        case WaitFileList
        then have r': "r' = handle_file_list E msg ?j r" using Some h by (simp add: dispatch_message_def Let_def)
        have "rr_tokens r = []" using ok(3) WaitFileList by (simp add: list_filtered_def early_states_def)
        from list_allowed [OF E WaitFileList this j, of msg] list_quiet [OF idle, of E msg ?j] show ?thesis
          unfolding r' [symmetric] by (intro q) simp_all
      next
        case WaitPairResponse
        then have p: "handle_pair_response E msg ?j r = Some r'" using Some h by (simp add: dispatch_message_def Let_def)
        have oa: "offer_allowed ?ok r"
          using ok(3) WaitPairResponse unfolding list_filtered_def offer_allowed_def by blast
        have quiet: "quiet r r'" using pair_quiet [OF p idle] by simp
        from p show ?thesis
        proof (cases rule: pair_cases)
          case (paired key pem s c)
          let ?x = "r\<lparr>rr_sender_key := Some key, rr_sender_pem := pem, rr_trusted := s, rr_config_disk := c\<rparr>"
          have "books ?x = books r" by simp
          then have "rr_accepted ?x = rr_accepted r" "rr_tokens ?x = rr_tokens r" "\<And>i. lookup_file i ?x = lookup_file i r"
            by (auto simp: books_def fun_eq_iff)
          then have "offer_allowed ?ok ?x" using oa by (simp add: offer_allowed_def)
          from accept_allowed [OF this, of E] WaitPairResponse quiet show ?thesis unfolding paired(1) [symmetric] by (intro q) simp_all
        next
          case accepted
          from accept_allowed [OF oa, of E] WaitPairResponse quiet show ?thesis unfolding accepted [symmetric] by (intro q) simp_all
        next
          case ended
          with terminate_inv [OF ok(2,3)] show ?thesis by simp
        qed (use ok in simp)
      next
        case WaitFiles
        then have r': "r' = handle_file_header E msg r" using Some h by (simp add: dispatch_message_def Let_def)
        have "disk_filtered ?ok d0 (start_receiving_file E k t r)" "list_filtered ?ok (start_receiving_file E k t r)" for k t
          using disk_start [OF ok(2) list_tokens [OF ok(3)]] start_list [OF ok(3)] ok(1) by (auto simp: rtc_ok_def file_ok_def)
        with ok show ?thesis unfolding r' by (cases msg) (simp_all add: handle_file_header_def)
      qed (use Some h ok in \<open>simp_all add: dispatch_message_def Let_def\<close>)
    qed
  qed
qed

lemma finish_state: "rr_state (finish_current_file E r) = rr_state r"
proof -
  obtain f r1 where m: "file_meta_by_id (rr_current r) r = (f, r1)" by fastforce
  obtain x where r1: "r1 = r\<lparr>rr_file_by_id := x\<rparr>" using meta_shape [OF m] by blast
  show ?thesis
    unfolding finish_current_file_def m by (simp add: r1 Let_def mark_transfer_done_def)
qed

lemma control_filtered: "filter_inv lower exts d0 r \<Longrightarrow> filter_inv lower exts d0 (r\<lparr>rr_control := c\<rparr>)"
proof -
  assume i: "filter_inv lower exts d0 r"
  then have "rtc_ok (r\<lparr>rr_control := c\<rparr>)" using good_step_ok [OF control_ok] by (simp add: filter_inv_def)
  moreover have "disk_filtered ok d0 (r\<lparr>rr_control := c\<rparr>) = disk_filtered ok d0 r" for ok by (simp add: disk_filtered_def)
  moreover have "list_filtered ok (r\<lparr>rr_control := c\<rparr>) = list_filtered ok r" for ok by (simp add: list_filtered_def)
  ultimately show ?thesis using i by (simp add: filter_inv_def)
qed

lemma data_filtered:
  assumes i: "filter_inv lower exts d0 r" and E: "filters_with lower exts E" and h: "handle_data_message E d istext r = Some r'"
  shows "disk_filtered (\<lambda>q. is_extension_allowed lower q exts) d0 r' \<and> list_filtered (\<lambda>q. is_extension_allowed lower q exts) r'"
    (is "disk_filtered ?ok d0 r' \<and> list_filtered ?ok r'")
proof -
  have ok: "rtc_ok r" "disk_filtered ?ok d0 r" "list_filtered ?ok r" using i by (simp_all add: filter_inv_def)
  show ?thesis
  proof (cases "rr_state r = ReceivingFiles \<and> rr_current r \<noteq> []")
    case rec: True
    show ?thesis
    proof (cases istext)
      case False
      with rec h have "r' = handle_binary_data E d r" by (simp add: handle_data_message_def)
      with disk_binary [OF ok(2)] binary_list [OF ok(3)] show ?thesis by simp
    next
      case text_frame: True
      let ?f = "finish_current_file E r"
      have f: "disk_filtered ?ok d0 ?f" "list_filtered ?ok ?f"
        using disk_finish [OF ok(2)] list_filtered_books [OF ok(3), of ?f] by (simp_all add: finish_state)
      have "busy r" "file_ok r" using ok(1) rec by (auto simp: rtc_ok_def)
      with sim_finish [of r E] rec have sim: "sim r ?f" by auto
      have start: "disk_filtered ?ok d0 (start_receiving_file E k t ?f) \<and> list_filtered ?ok (start_receiving_file E k t ?f)" for k t
        using disk_start [OF f(1) list_tokens [OF f(2)]] start_list [OF f(2)] sim good_dests_sim [OF sim] ok(1)
        by (auto simp: rtc_ok_def sim_def)
      have close: "disk_filtered ?ok d0 (?f\<lparr>rr_state := RtcDone, rr_peer := None\<rparr>) \<and> list_filtered ?ok (?f\<lparr>rr_state := RtcDone, rr_peer := None\<rparr>)"
        using f(1) list_filtered_late [OF f(2), of "?f\<lparr>rr_state := RtcDone, rr_peer := None\<rparr>"]
        by (simp add: disk_filtered_def early_states_def)
      have "(if d = ''0'' then Some (?f\<lparr>rr_state := RtcDone, rr_peer := None\<rparr>)
          else (case re_parse E d of
                  None \<Rightarrow> Some (terminate E ?f)
                | Some j \<Rightarrow>
                    (case decode_header j of
                       None \<Rightarrow> Some (terminate E ?f)
                     | Some (i, token) \<Rightarrow>
                         if i = [] then Some (terminate E ?f) else Some (start_receiving_file E i token ?f)))) = Some r'"
        using h rec text_frame by (simp add: handle_data_message_def Let_def)
      then consider "r' = ?f\<lparr>rr_state := RtcDone, rr_peer := None\<rparr>" | "r' = terminate E ?f" | k t where "r' = start_receiving_file E k t ?f"
        by (cases "re_parse E d"; cases "decode_header (the (re_parse E d))") (auto split: if_splits)
      then show ?thesis using close start terminate_inv [OF f] by cases simp_all
    qed
  next
    case False
    have disp: ?thesis if "dispatch_message E x (r\<lparr>rr_control := c\<rparr>) = Some r'" for x c
      by (rule dispatch_filtered [OF control_filtered [OF i] E that])
    have same: ?thesis if "r' = r\<lparr>rr_control := c\<rparr>" for c
      using control_filtered [OF i, of c] that by (simp add: filter_inv_def)
    have self: "r\<lparr>rr_control := rr_control r\<rparr> = r" by simp
    have h: "(if istext \<and> d = ''0'' then
          (if rr_control r \<noteq> [] then dispatch_message E (rr_control r) (r\<lparr>rr_control := []\<rparr>) else Some r)
        else if \<not> istext then
          (if max_control_message_bytes < length (rr_control r) + length d then Some (r\<lparr>rr_control := []\<rparr>)
           else Some (r\<lparr>rr_control := rr_control r @ d\<rparr>))
        else dispatch_message E d r) = Some r'"
      using False h by (simp only: handle_data_message_def if_False)
    consider (empty) "r' = r" | (all) "dispatch_message E (rr_control r) (r\<lparr>rr_control := []\<rparr>) = Some r'"
      | (dropped) "r' = r\<lparr>rr_control := []\<rparr>" | (more) "r' = r\<lparr>rr_control := rr_control r @ d\<rparr>"
      | (direct) "dispatch_message E d r = Some r'"
    proof (cases istext)
      case False
      with h show thesis using dropped more by (simp split: if_splits)
    next
      case True
      show thesis
      proof (cases "d = ''0''")
        case True
        with h \<open>istext\<close> show thesis using empty all by (cases "rr_control r = []") simp_all
      next
        case False
        with h \<open>istext\<close> show thesis using direct by simp
      qed
    qed
    then show ?thesis
    proof cases
      case empty
      with same [of "rr_control r"] self show ?thesis by simp
    next
      case direct
      with disp [of d "rr_control r"] self show ?thesis by simp
    next
      case all
      then show ?thesis by (rule disp)
    next
      case dropped
      then show ?thesis by (rule same)
    next
      case more
      then show ?thesis by (rule same)
    qed
  qed
qed

lemma cleaned_filtered:
  assumes "disk_filtered ok d0 r" "list_filtered ok r" "same_files (cleanup_partial_files E r) r'"
    and "rr_state r' = RtcDone \<and> books r' = books r \<or> rr_tokens r' = [] \<and> rr_accepted r' = []"
  shows "disk_filtered ok d0 r' \<and> list_filtered ok r'"
proof
  show "disk_filtered ok d0 r'" using disk_cleanup [OF assms(1)] assms(3) by (rule disk_quiet)
  from assms(4) show "list_filtered ok r'"
  proof
    assume "rr_state r' = RtcDone \<and> books r' = books r"
    then show ?thesis using list_filtered_late [OF assms(2), of r'] by (simp add: early_states_def)
  qed (simp add: list_filtered_def)
qed

lemma aside_filtered:
  assumes "disk_filtered ok d0 r" "list_filtered ok r" "same_files r r'" "books r' = books r" "rr_state r' \<in> {rr_state r, RtcDone}"
  shows "disk_filtered ok d0 r' \<and> list_filtered ok r'"
  using disk_quiet [OF assms(1,3)] list_filtered_books [OF assms(2,4)] assms(5) by (auto simp: early_states_def)

text \<open>The environment of an event, for the events that have one, filters.\<close>

definition event_filters :: "(string \<Rightarrow> string) \<Rightarrow> string list \<Rightarrow> rtc_event \<Rightarrow> bool" where
  "event_filters lower exts e \<longleftrightarrow> (case event_env e of None \<Rightarrow> True | Some E \<Rightarrow> filters_with lower exts E)"

lemma offer_filtered:
  assumes "disk_filtered ok d0 r" "list_filtered ok r"
  shows "disk_filtered ok d0 (snd (reserve_offer E i a r)) \<and> list_filtered ok (snd (reserve_offer E i a r))"
proof -
  obtain bl b where b: "is_peer_blocked (re_now E) i (rr_blocked r) = (bl, b)" by fastforce
  have 1: "disk_filtered ok d0 (r\<lparr>rr_blocked := b\<rparr>) \<and> list_filtered ok (r\<lparr>rr_blocked := b\<rparr>)"
    by (rule aside_filtered [OF assms]) (simp_all add: same_defs)
  let ?r1 = "r\<lparr>rr_blocked := b, rr_peer := None, rr_accepting := True\<rparr>"
  have 2: "disk_filtered ok d0 ?r1" "list_filtered ok ?r1"
    using aside_filtered [OF assms, of ?r1] by (simp_all add: same_defs)
  let ?r2 = "(cleanup_partial_files E ?r1)
               \<lparr>rr_tokens := [], rr_files := [], rr_file_by_id := [], rr_accepted := [],
                rr_folder_known := False, rr_folder := False, rr_ensured := [], rr_unique := alloc_reset (rr_unique r),
                rr_control := [], rr_remote_nonce := [], rr_local_nonce := [], rr_final_nonce := [],
                rr_pin_attempts := 0, rr_provided_pins := 0, rr_sender_key := None, rr_sender_pem := [],
                rr_sender_token := [], rr_sender_alias := a, rr_sender_id := i,
                rr_state := WaitNonce\<rparr>"
  have 3: "disk_filtered ok d0 ?r2 \<and> list_filtered ok ?r2"
    by (rule cleaned_filtered [OF 2, of E]) (simp_all add: same_defs)
  show ?thesis
    unfolding reserve_offer_def b using 1 3 by (simp split: bool.split)
qed

lemma step_filtered:
  assumes i: "filter_inv lower exts d0 r" and e: "event_filters lower exts e" and st: "rtc_step e r = Some r'"
  shows "filter_inv lower exts d0 r'"
proof -
  let ?ok = "\<lambda>q. is_extension_allowed lower q exts"
  have ok: "rtc_ok r" "disk_filtered ?ok d0 r" "list_filtered ?ok r" using i by (simp_all add: filter_inv_def)
  have cleaned: "disk_filtered ?ok d0 x \<and> list_filtered ?ok x"
    if "same_files (cleanup_partial_files E r) x" "rr_state x = RtcDone" "books x = books r" for E x
    using cleaned_filtered [OF ok(2,3) that(1)] that by simp
  have "disk_filtered ?ok d0 r' \<and> list_filtered ?ok r'"
  proof (cases e)
    case (EvOffer E k a)
    with st offer_filtered [OF ok(2,3), of E k a] show ?thesis by simp
  next
    case EvAcceptFailed
    with st show ?thesis by (intro aside_filtered [OF ok(2,3)]) (auto simp: fail_accept_def same_defs)
  next
    case (EvPeer p)
    with st show ?thesis by (intro aside_filtered [OF ok(2,3)]) (auto simp: install_peer_def same_defs split: if_splits)
  next
    case (EvData E d istext)
    with e have "filters_with lower exts E" by (simp add: event_filters_def)
    from data_filtered [OF i this] EvData st show ?thesis by simp
  next
    case (EvClosed E p)
    show ?thesis
    proof (cases "rr_peer r = Some p")
      case True
      with EvClosed st show ?thesis by (intro cleaned [of E]) (auto simp: handle_peer_closed_def same_defs)
    next
      case False
      with EvClosed st ok show ?thesis by (simp add: handle_peer_closed_def)
    qed
  next
    case (EvWatchdog E g)
    define r1 where "r1 = (if rr_current r \<noteq> rr_last_id r \<or> rr_bytes r \<noteq> rr_last_bytes r
         then r\<lparr>rr_last_id := rr_current r, rr_last_bytes := rr_bytes r, rr_last_progress := re_now E\<rparr> else r)"
    have 1: "disk_filtered ?ok d0 r1" "list_filtered ?ok r1"
      using aside_filtered [OF ok(2,3), of r1] by (simp_all add: r1_def same_defs)
    from EvWatchdog st have "r' = check_transfer_watchdog E g r" by simp
    then show ?thesis
      unfolding check_transfer_watchdog_def Let_def r1_def [symmetric]
      using ok 1 terminate_inv [OF 1, of E] by simp
  next
    case (EvClose E)
    with st show ?thesis by (intro cleaned [of E]) (auto simp: rtc_close_def same_defs)
  qed
  with step_ok [OF ok(1) st] show ?thesis by (simp add: filter_inv_def)
qed

lemma configured_filtered:
  assumes "set_up dir by_ext"
  shows "filter_inv lower exts disk (configured pin dir by_ext pairing trusted disk cfg)"
proof -
  have "disk_filtered ok disk (configured pin dir by_ext pairing trusted disk cfg)" for ok
    by (simp add: disk_filtered_def configured_defs)
  moreover have "list_filtered ok (configured pin dir by_ext pairing trusted disk cfg)" for ok
    by (simp add: list_filtered_def configured_defs)
  ultimately show ?thesis using configured_ok [OF assms] by (simp add: filter_inv_def)
qed

subsection \<open>Questions that are open\<close>

text \<open>
  The answer of a handler is for the list it asked about: the receiver has no file open, and under the ids of that list
  it knows no other files.
\<close>

definition not_overtaken :: "rtc_file list \<Rightarrow> rtc_receiver \<Rightarrow> bool" where
  "not_overtaken files r \<longleftrightarrow> rr_paths r = [] \<and> (\<forall>f \<in> set files. lookup_file (rf_id f) r \<in> {None, Some f})"

fun asks_filter :: "(string \<Rightarrow> string) \<Rightarrow> string list \<Rightarrow> asking \<Rightarrow> bool" where
  "asks_filter lower exts (SelectingFiles f files) \<longleftrightarrow> f = select_allowed lower exts \<and> distinct (map rf_id files)"
| "asks_filter lower exts (AskingPin f n) \<longleftrightarrow> True"

fun net_filters :: "(string \<Rightarrow> string) \<Rightarrow> string list \<Rightarrow> rtc_net_event \<Rightarrow> bool" where
  "net_filters lower exts (NetStep e) \<longleftrightarrow> event_filters lower exts e"
| "net_filters lower exts (NetData ch E d is_string) \<longleftrightarrow> filters_with lower exts E"
| "net_filters lower exts (NetResume ch E) \<longleftrightarrow> filters_with lower exts E"

definition net_filtered :: "(string \<Rightarrow> string) \<Rightarrow> string list \<Rightarrow> filesys \<Rightarrow> rtc_net \<Rightarrow> bool" where
  "net_filtered lower exts d0 s \<longleftrightarrow>
     filter_inv lower exts d0 (rn_receiver s) \<and> (\<forall>ch k. map_of (rn_asking s) ch = Some k \<longrightarrow> asks_filter lower exts k)"

lemma asked_filtered:
  assumes "filter_inv lower exts d0 r" "filters_with lower exts E" "begin_data_message E d t r = Some (r', Some k)"
  shows "filter_inv lower exts d0 r' \<and> asks_filter lower exts k"
proof -
  let ?ok = "\<lambda>q. is_extension_allowed lower q exts"
  have ok: "rtc_ok r" "disk_filtered ?ok d0 r" "list_filtered ?ok r" using assms(1) by (simp_all add: filter_inv_def)
  have "rtc_ok r'" using good_step_ok [OF asks_good [OF ok(1) assms(3)]] ok(1) by simp
  moreover have "disk_filtered ?ok d0 r' \<and> list_filtered ?ok r' \<and> asks_filter lower exts k"
    using assms(3)
  proof (cases rule: begin_asks)
    case (pin c f)
    have "disk_filtered ?ok d0 r' \<and> list_filtered ?ok r'"
      by (rule aside_filtered [OF ok(2,3)]) (simp_all add: pin(3) same_defs)
    with pin(4) show ?thesis by simp
  next
    case (files c f x j st fs)
    have "rr_tokens r = []" using ok(3) files(1) by (simp add: list_filtered_def early_states_def)
    with files(1) have "list_filtered ?ok r'"
      using offered_frame [of "r\<lparr>rr_control := c\<rparr>" fs "rr_accepted r"] by (simp add: files(5) list_filtered_def offered_tokens)
    moreover have "disk_filtered ?ok d0 r'"
      unfolding files(5) using offered_frame [of "r\<lparr>rr_control := c\<rparr>" fs "rr_accepted r"]
      by (intro disk_quiet [OF ok(2)]) (auto simp: quiet_defs same_files_def)
    moreover have "f = select_allowed lower exts" "distinct (map rf_id fs)"
      using assms(2) files(2-4) unfolding filters_with_def by auto
    ultimately show ?thesis by (simp add: files(6))
  qed
  ultimately show ?thesis by (simp add: filter_inv_def)
qed

lemma answered_filtered:
  assumes "list_filtered (\<lambda>q. is_extension_allowed lower q exts) r" "filters_with lower exts E"
    and "distinct (map rf_id files)" "not_overtaken files r"
  shows "list_filtered (\<lambda>q. is_extension_allowed lower q exts) (answer_file_list E (select_allowed lower exts files) r)"
    (is "list_filtered ?ok (answer_file_list E ?ids r)")
proof -
  let ?r = "r\<lparr>rr_accepted := ?ids\<rparr>"
  have look: "lookup_file i ?r = lookup_file i r" for i by (rule lookup_same) simp_all
  have ids: "?ok (rf_name g)" if "i \<in> set ?ids" "lookup_file i r = Some g" for i g
  proof -
    from that(1) obtain f where f: "f \<in> set files" "rf_id f = i" "?ok (rf_name f)" by (auto simp: select_allowed_def)
    with assms(4) that(2) have "g = f" by (auto simp: not_overtaken_def)
    with f show ?thesis by simp
  qed
  have tok: "?ok (rf_name g)" if "map_of (rr_tokens r) i = Some t" "lookup_file i r = Some g" for i t g
    using assms(1) that unfolding list_filtered_def by blast
  have r: "list_filtered ?ok ?r" using assms(1) ids tok by (auto simp: list_filtered_def look)
  have oa: "offer_allowed ?ok ?r" using ids tok by (auto simp: offer_allowed_def look)
  show ?thesis
  proof (cases rule: answer_list_cases [of E ?ids r])
    case gone
    with r show ?thesis by simp
  next
    case (declined m)
    have "rr_state (try_chunked E m ?r) = rr_state ?r" by (simp add: send_defs Let_def)
    with list_filtered_books [OF r books_small(2) [of E m ?r]] declined show ?thesis by simp
  next
    case (pairing s)
    have "lookup_file i (?r\<lparr>rr_sent := s, rr_state := WaitPairResponse\<rparr>) = lookup_file i r" for i by (rule lookup_same) simp_all
    then show ?thesis unfolding pairing using ids tok by (auto simp: list_filtered_def early_states_def)
  next
    case (unsent s)
    with assms(2) show ?thesis by (simp add: filters_with_def)
  next
    case accepted
    with accept_allowed [OF oa, of E] assms(2) show ?thesis by (simp add: filters_with_def)
  qed
qed

lemma resumed_filtered:
  assumes "filter_inv lower exts d0 r" "filters_with lower exts E" "asks_filter lower exts k"
    and "\<And>f files. k = SelectingFiles f files \<Longrightarrow> not_overtaken files r"
  shows "disk_filtered (\<lambda>q. is_extension_allowed lower q exts) d0 (resume_file_list E k r) \<and>
    list_filtered (\<lambda>q. is_extension_allowed lower q exts) (resume_file_list E k r)"
    (is "disk_filtered ?ok d0 _ \<and> _")
proof -
  have ok: "disk_filtered ?ok d0 r" "list_filtered ?ok r" using assms(1) by (simp_all add: filter_inv_def)
  show ?thesis
  proof (cases k)
    case (AskingPin f n)
    have "disk_filtered ?ok d0 (try_send E m r) \<and> list_filtered ?ok (try_send E m r)" for m
      by (rule aside_filtered [OF ok]) (simp_all add: send_defs same_defs)
    with terminate_inv [OF ok, of E] show ?thesis
      unfolding AskingPin resume_file_list.simps by (cases rule: answer_pin_cases [of E "f n" r]) simp_all
  next
    case (SelectingFiles f files)
    with assms(3) have f: "f = select_allowed lower exts" "distinct (map rf_id files)" by simp_all
    have "same_files r (answer_file_list E (f files) r)"
      using answer_list_quiet [of r E "f files"] by (simp add: quiet_defs same_files_def)
    with disk_quiet [OF ok(1)] answered_filtered [OF ok(2) assms(2) f(2) assms(4) [OF SelectingFiles]] show ?thesis
      by (simp add: SelectingFiles f(1))
  qed
qed

lemma net_step_filtered:
  assumes "net_filtered lower exts d0 s" "net_filters lower exts e" "net_step e s = Some s'" "lists_resume_when not_overtaken [e] s"
  shows "net_filtered lower exts d0 s'"
proof -
  have i: "filter_inv lower exts d0 (rn_receiver s)" and
    q: "\<And>ch k. map_of (rn_asking s) ch = Some k \<Longrightarrow> asks_filter lower exts k" using assms(1) by (auto simp: net_filtered_def)
  show ?thesis
    using assms(3)
  proof (cases rule: net_step_cases)
    case (receiver e')
    have "event_filters lower exts e'" using receiver(3) assms(2) by (auto simp: event_filters_def)
    from step_filtered [OF i this receiver(1)] q show ?thesis by (simp add: net_filtered_def receiver(2))
  next
    case (asks ch E d t k)
    with assms(2) have "filters_with lower exts E" by simp
    from asked_filtered [OF i this asks(2)] q show ?thesis by (auto simp: net_filtered_def asks(3) update_conv' split: if_splits)
  next
    case (resumes ch E k)
    have E: "filters_with lower exts E" using assms(2) resumes(1) by simp
    have o: "not_overtaken files (rn_receiver s)" if "k = SelectingFiles f files" for f files
      using assms(4) resumes(1,2) that by simp
    have "lists_resume_when (\<lambda>files r. rr_paths r = []) [e] s"
      using o resumes(1,2) by (simp add: not_overtaken_def split: asking.split)
    then have "rtc_ok (rn_receiver s')"
      using net_step_good [OF _ assms(3)] good_step_ok i by (auto simp: filter_inv_def)
    with resumed_filtered [OF i E q [OF resumes(2)] o] have "filter_inv lower exts d0 (rn_receiver s')"
      by (simp add: filter_inv_def resumes(3))
    moreover have "asks_filter lower exts x" if "map_of (rn_asking s') c = Some x" for c x
      using that q by (simp add: resumes(4) delete_conv' split: if_splits)
    ultimately show ?thesis by (simp add: net_filtered_def)
  qed
qed

text \<open>
  C13: The extension filter of the WebRTC receiver holds: whatever peers send over whatever channels, everything that is
  new on the disk is a directory or has an extension of the configured list, and no file that was there changes. Three
  things are needed. The ids of every list are distinct (otherwise \<open>repeated_id_passes_filter\<close>). No message and no
  delimiter of the receiver fails to be sent: a token stays after the delimiter of its list was not sent, and the next
  list may use its id for another file. And when the user's answer comes, no file is open and the ids of the list asked
  about do not belong to the files of a later list (otherwise \<open>answer_for_a_later_list\<close>).
\<close>

theorem filter_holds_for_distinct_ids:
  assumes "net_run evs (net_of (configured pin dir by_ext pairing trusted disk cfg)) = Some s" "set_up dir by_ext"
    and "list_all (net_filters lower exts) evs"
    and "lists_resume_when not_overtaken evs (net_of (configured pin dir by_ext pairing trusted disk cfg))"
  shows "rr_disk (rn_receiver s) q = disk q \<or>
    disk q = None \<and> (rr_disk (rn_receiver s) q = Some Dir \<or> is_extension_allowed lower q exts)"
proof -
  have "net_filtered lower exts disk (net_of (configured pin dir by_ext pairing trusted disk cfg))"
    using configured_filtered [OF assms(2)] by (simp add: net_filtered_def)
  then have "net_filtered lower exts disk s"
  proof (rule net_invariant [OF assms(1,4)])
    fix e x x'
    assume "net_filtered lower exts disk x" "e \<in> set evs" "net_step e x = Some x'" "lists_resume_when not_overtaken [e] x"
    with assms(3) show "net_filtered lower exts disk x'" by (auto simp: list_all_iff intro: net_step_filtered)
  qed
  then have "disk_filtered (\<lambda>q. is_extension_allowed lower q exts) disk (rn_receiver s)" by (simp add: net_filtered_def filter_inv_def)
  then show ?thesis by (rule disk_filteredD)
qed

lemma demo_lists_distinct:
  "map_of (sh_json False) d = Some j \<Longrightarrow> decode_file_list j = Some (st, fs) \<Longrightarrow> distinct (map rf_id fs)"
  using rtc_demo_list(2)
  by (auto simp: sh_json_def sh_files_def rtc_demo_json_def wire_defs decode_file_list_def split: if_splits option.splits)

lemma sh_filters: "filters_with (\<lambda>s. s) [''txt''] (sh_env False)"
  using demo_lists_distinct by (auto simp: filters_with_def sh_env_simps)

definition filtered_events :: "rtc_net_event list" where
  "filtered_events = asked_once @ [NetData (1, 0) (sh_env False) ''abc'' False, NetData (1, 0) (sh_env False) ''0'' True]"

lemma filtered_run:
  "\<exists>s. net_run filtered_events (net_of (configured [] ''/b'' None False None books_disk (\<lambda>p. None))) = Some s \<and>
     lists_resume_when not_overtaken filtered_events (net_of (configured [] ''/b'' None False None books_disk (\<lambda>p. None))) \<and>
     rr_disk (rn_receiver s) ''/b/a.txt'' = Some (File ''abc'' None)"
proof -
  let ?s = "\<lparr>rn_receiver = sh_6 False, rn_peers = [1], rn_asking = []\<rparr>"
  let ?last = "[NetData (1, 0) (sh_env False) ''abc'' False, NetData (1, 0) (sh_env False) ''0'' True]"
  obtain r where r: "rtc_run [EvData (sh_env False) ''abc'' False, EvData (sh_env False) ''0'' True] (sh_6 False) = Some r"
      "rr_disk r ''/b/a.txt'' = Some (File ''abc'' None)"
    using sh_end [of False] by (auto simp: sh_target_def)
  then obtain r7 where r7: "handle_data_message (sh_env False) ''abc'' False (sh_6 False) = Some r7"
      "handle_data_message (sh_env False) ''0'' True r7 = Some r"
    by (auto split: option.splits)
  have st: "rr_state (sh_6 False) \<noteq> WaitFileList" by (simp add: sh_6_def)
  have st7: "rr_state r7 \<noteq> WaitFileList"
    using r7(1) by (auto simp: sh_simps sh_5_def sh_6_def sh_fields rtc_demo_state_defs handle_data_message_def handle_binary_data_def
        file_meta_by_id_def write_file_def)
  have run: "net_run ?last ?s = Some (?s\<lparr>rn_receiver := r\<rparr>)"
    by (simp add: begin_elsewhere [OF st] begin_elsewhere [OF st7] r7)
  have quiet: "lists_resume_when P ?last ?s" for P by (simp del: net_step.simps split: option.split)
  have o: "not_overtaken [rtc_demo_file] (sh_asked (rtc_demo_3 [] False))"
    unfolding not_overtaken_def sh_asked_fields(3) by (simp add: sh_asked_def offered_lookup) (simp add: rtc_demo_state_defs)
  note start = conjunct1 [OF asked_once_run] iffD2 [OF conjunct2 [OF asked_once_run [of not_overtaken]] o]
  show ?thesis
    unfolding filtered_events_def net_run_append resume_when_append start(1) option.case run
    using start(2) quiet r(2) by (intro exI [of _ "?s\<lparr>rn_receiver := r\<rparr>"]) simp
qed

theorem filter_holds_for_distinct_ids_witness:
  "\<exists>s. net_run filtered_events (net_of (configured [] ''/b'' None False None books_disk (\<lambda>p. None))) = Some s \<and>
     rr_disk (rn_receiver s) ''/b/a.txt'' = Some (File ''abc'' None) \<and>
     (rr_disk (rn_receiver s) ''/b/a.txt'' = books_disk ''/b/a.txt'' \<or> books_disk ''/b/a.txt'' = None \<and>
        (rr_disk (rn_receiver s) ''/b/a.txt'' = Some Dir \<or> is_extension_allowed (\<lambda>s. s) ''/b/a.txt'' [''txt'']))"
proof -
  obtain s where s: "net_run filtered_events (net_of (configured [] ''/b'' None False None books_disk (\<lambda>p. None))) = Some s"
      "lists_resume_when not_overtaken filtered_events (net_of (configured [] ''/b'' None False None books_disk (\<lambda>p. None)))"
      "rr_disk (rn_receiver s) ''/b/a.txt'' = Some (File ''abc'' None)"
    using filtered_run by blast
  have "list_all (net_filters (\<lambda>s. s) [''txt'']) filtered_events"
    using sh_filters by (simp add: filtered_events_def asked_once_def event_filters_def)
  from filter_holds_for_distinct_ids [OF s(1) demo_set_up this s(2), of "''/b/a.txt''"] s show ?thesis by blast
qed

text \<open>
  A peer that sends two lists on two channels, the same id for a book in the first and for a script in the second: the
  answer about the first list gives a token for the id, which is now the script's. All ids are distinct within their
  list, and nothing fails.
\<close>

definition later_env :: rtc_env where
  "later_env = (sh_env False)\<lparr>re_parse := map_of [(''M'', encode_file_list ''OK'' [sh_file True])]\<rparr>"

lemma later_list:
  "parse_rtc_message (re_parse later_env) ''M'' = Some (MFileList ''OK'' [sh_file True])"
  "decode_file_list (encode_file_list ''OK'' [sh_file True]) = Some (''OK'', [sh_file True])"
  using decode_encode_file [of "sh_file True"]
  by (simp_all add: later_env_def parse_rtc_message_def wire_defs parse_status_def decode_file_list_def
      rtc_demo_file_def sh_file_def int64_range_def Let_def)

lemma later_filters: "filters_with (\<lambda>s. s) [''txt''] later_env"
  using later_list(2) by (auto simp: filters_with_def later_env_def sh_env_simps split: if_splits)

lemma later_begin:
  assumes "rr_state r = WaitFileList" "rr_control r = []"
  shows "begin_data_message later_env ''M'' True r =
    Some (offered r [sh_file True] (rr_accepted r), Some (SelectingFiles (select_allowed (\<lambda>s. s) [''txt'']) [sh_file True]))"
proof -
  have o: "offered r fs (rr_accepted r) = snd (rtc_folder_transfer ((rebuild_file_index (r\<lparr>rr_files := fs\<rparr>))\<lparr>rr_folder_known := False\<rparr>))" for fs
    by (simp add: offered_def rtc_folder_transfer_def rebuild_file_index_def Let_def)
  show ?thesis
    using assms later_list
    by (simp add: begin_data_message_def completed_message_def begin_file_list_def Let_def later_env_def sh_env_simps
        max_files_per_session_def o)
qed

definition two_lists :: "rtc_net_event list" where
  "two_lists = [NetStep (EvOffer (sh_env False) ''peer'' ''Phone''), NetStep (EvPeer 1),
     NetData (1, 0) (sh_env False) ''N'' True, NetData (1, 0) (sh_env False) ''T'' True] @
     [NetData (1, 0) (sh_env False) ''L'' True, NetData (1, 1) later_env ''M'' True, NetResume (1, 0) (sh_env False)]"

lemma given_token:
  assumes "rr_peer r = Some p" "\<not> rr_require_pairing r" "rr_tokens r = []" "rr_files r = [sh_file True]" "rr_file_by_id r = [(''f'', sh_file True)]"
  shows "map_of (rr_tokens (answer_file_list (sh_env False) [''f''] r)) ''f'' = Some ''k0'' \<and>
    lookup_file ''f'' (answer_file_list (sh_env False) [''f''] r) = Some (sh_file True)"
proof -
  have "has_nul ''a.sh'' = False" by (simp add: has_nul_def)
  then show ?thesis
    using assms sh_names(1) [of True]
    by (cases "new_folder_remapper (rr_save_dir r) (clean_names [sh_file True]) (rr_disk r)")
      (simp_all add: Let_def answer_file_list_def accept_files_now_def prepare_files_for_receive_def rtc_prepare_folder_remap_def
        file_meta_by_id_def send_chunked_def send_msg_def sh_env_simps sh_fields sh_base_def lookup_eq)
qed

theorem answer_for_a_later_list:
  "\<exists>s. net_run two_lists (net_of (configured [] ''/b'' None False None books_disk (\<lambda>p. None))) = Some s \<and>
     list_all (net_filters (\<lambda>s. s) [''txt'']) two_lists \<and>
     map_of (rr_tokens (rn_receiver s)) ''f'' = Some ''k0'' \<and> lookup_file ''f'' (rn_receiver s) = Some (sh_file True) \<and>
     \<not> is_extension_allowed (\<lambda>s. s) (rf_name (sh_file True)) [''txt'']"
proof -
  let ?q = "[((1, 0), sh_question)]"
  let ?k = "SelectingFiles (select_allowed (\<lambda>s. s) [''txt'']) [sh_file True]"
  let ?r = "sh_asked (rtc_demo_3 [] False)"
  let ?m = "offered ?r [sh_file True] (rr_accepted ?r)"
  let ?a = "resume_file_list (sh_env False) sh_question ?m"
  have L: "net_step (NetData (1, 0) (sh_env False) ''L'' True) \<lparr>rn_receiver = rtc_demo_3 [] False, rn_peers = [1], rn_asking = []\<rparr> =
      Some \<lparr>rn_receiver = ?r, rn_peers = [1], rn_asking = ?q\<rparr>"
    using sh_asking_run [OF sh_3_waits, of "(1, 0)" "[]"] by simp
  have w: "rr_state ?r = WaitFileList" "rr_control ?r = []" by (simp_all only: sh_asked_fields sh_3_waits)
  have M: "net_step (NetData (1, 1) later_env ''M'' True) \<lparr>rn_receiver = ?r, rn_peers = [1], rn_asking = ?q\<rparr> =
      Some \<lparr>rn_receiver = ?m, rn_peers = [1], rn_asking = ?q @ [((1, 1), ?k)]\<rparr>"
    by (simp add: later_begin [OF w])
  have R: "net_step (NetResume (1, 0) (sh_env False)) \<lparr>rn_receiver = ?m, rn_peers = [1], rn_asking = ?q @ [((1, 1), ?k)]\<rparr> =
      Some \<lparr>rn_receiver = ?a, rn_peers = [1], rn_asking = [((1, 1), ?k)]\<rparr>"
    by (simp del: resume_file_list.simps)
  have "net_run [NetData (1, 0) (sh_env False) ''L'' True, NetData (1, 1) later_env ''M'' True, NetResume (1, 0) (sh_env False)]
      \<lparr>rn_receiver = rtc_demo_3 [] False, rn_peers = [1], rn_asking = []\<rparr> =
      Some \<lparr>rn_receiver = ?a, rn_peers = [1], rn_asking = [((1, 1), ?k)]\<rparr>"
    by (simp only: net_run.simps L M R option.case)
  then have run: "net_run two_lists (net_of (configured [] ''/b'' None False None books_disk (\<lambda>p. None))) =
      Some \<lparr>rn_receiver = ?a, rn_peers = [1], rn_asking = [((1, 1), ?k)]\<rparr>"
    unfolding two_lists_def net_run_append sh_net_start option.case .
  have sel: "select_allowed (\<lambda>s. s) [''txt''] [rtc_demo_file] = [''f'']" using sh_selected [of False] by (simp add: sh_files_def)
  have m: "rr_peer ?m = Some 1" "\<not> rr_require_pairing ?m" "rr_tokens ?m = []" "rr_files ?m = [sh_file True]"
      "rr_file_by_id ?m = [(''f'', sh_file True)]"
    by (simp_all add: sh_asked_def offered_def rtc_folder_transfer_def rebuild_file_index_def Let_def rtc_demo_state_defs sh_fields)
  have "\<not> is_extension_allowed (\<lambda>s. s) ''a.sh'' [''txt'']" by code_simp
  moreover have "list_all (net_filters (\<lambda>s. s) [''txt'']) two_lists"
    using sh_filters later_filters by (simp add: two_lists_def event_filters_def)
  ultimately show ?thesis
    using run given_token [OF m] by (simp add: sh_question_def sel sh_fields sh_base_def)
qed

end
