(* ===== verification/Peer_Notify.thy ===== *)
theory Peer_Notify
  imports LS_Prelude "HOL-Library.Multiset"
begin

text \<open>
  The notification of a connection's end, \<open>OnClose\<close> and \<open>notifyClose\<close> of \<open>internal/webrtc/transfer/peer.go\<close>, which run
  concurrently: the library's callbacks and \<open>Close\<close> notify, the state machines install and remove their handler. The
  points are those between which another goroutine can act; a handler is a number that stands for it.
\<close>

subsection \<open>The steps\<close>

text \<open>\<open>notifyClose\<close> runs its body once: it closes the channel, then reads the handler under the lock, then calls it.\<close>

datatype notify_point = NotNotified | ChannelClosed | CallHandler "nat option" | Notified

text \<open>
  \<open>nt_checking\<close> are the calls of \<open>OnClose\<close> that have stored their handler and not yet looked at the channel.
  \<open>nt_ran\<close> are the runs of handlers.
\<close>

record notifier =
  nt_point :: notify_point
  nt_handler :: "nat option"
  nt_checking :: "nat list"
  nt_ran :: "nat list"

definition new_notifier :: notifier where
  "new_notifier = \<lparr>nt_point = NotNotified, nt_handler = None, nt_checking = [], nt_ran = []\<rparr>"

definition channel_closed :: "notifier \<Rightarrow> bool" where
  "channel_closed s = (nt_point s \<noteq> NotNotified)"

datatype notify_event = NtNotify | NtRead | NtCall | NtOnClose "nat option" | NtCheck nat

fun notify_step :: "notify_event \<Rightarrow> notifier \<Rightarrow> notifier option" where
  "notify_step NtNotify s =
     (case nt_point s of NotNotified \<Rightarrow> Some (s\<lparr>nt_point := ChannelClosed\<rparr>) | _ \<Rightarrow> Some s)"
| "notify_step NtRead s =
     (case nt_point s of ChannelClosed \<Rightarrow> Some (s\<lparr>nt_point := CallHandler (nt_handler s)\<rparr>) | _ \<Rightarrow> None)"
| "notify_step NtCall s =
     (case nt_point s of
        CallHandler None \<Rightarrow> Some (s\<lparr>nt_point := Notified\<rparr>)
      | CallHandler (Some h) \<Rightarrow> Some (s\<lparr>nt_point := Notified, nt_ran := nt_ran s @ [h]\<rparr>)
      | _ \<Rightarrow> None)"
| "notify_step (NtOnClose h) s =
     (let s1 = s\<lparr>nt_handler := h\<rparr>
      in case h of None \<Rightarrow> Some s1 | Some k \<Rightarrow> Some (s1\<lparr>nt_checking := nt_checking s1 @ [k]\<rparr>))"
| "notify_step (NtCheck k) s =
     (if k \<in> set (nt_checking s)
      then (let s1 = s\<lparr>nt_checking := remove1 k (nt_checking s)\<rparr>
            in Some (if channel_closed s1 then s1\<lparr>nt_ran := nt_ran s1 @ [k]\<rparr> else s1))
      else None)"

fun notify_run :: "notify_event list \<Rightarrow> notifier \<Rightarrow> notifier option" where
  "notify_run [] s = Some s"
| "notify_run (e # es) s = (case notify_step e s of None \<Rightarrow> None | Some s' \<Rightarrow> notify_run es s')"

subsection \<open>The current handler is not missed\<close>

definition handler_due :: "notifier \<Rightarrow> bool" where
  "handler_due s \<longleftrightarrow>
     (case nt_handler s of
        None \<Rightarrow> True
      | Some h \<Rightarrow> h \<in> set (nt_checking s) \<or> h \<in> set (nt_ran s) \<or> nt_point s = NotNotified \<or> nt_point s = ChannelClosed \<or>
                  nt_point s = CallHandler (Some h))"

lemma notify_step_due: "notify_step e s = Some s' \<Longrightarrow> handler_due s \<Longrightarrow> handler_due s'"
proof (cases e)
  case (NtCheck k)
  assume "notify_step e s = Some s'" "handler_due s"
  with NtCheck have k: "k \<in> set (nt_checking s)"
    and s': "s' = (if channel_closed s then s\<lparr>nt_checking := remove1 k (nt_checking s), nt_ran := nt_ran s @ [k]\<rparr>
                   else s\<lparr>nt_checking := remove1 k (nt_checking s)\<rparr>)"
    by (auto simp: Let_def channel_closed_def split: if_splits)
  have m: "h \<in> set (nt_checking s) \<Longrightarrow> h = k \<or> h \<in> set (remove1 k (nt_checking s))" for h
    by (metis in_set_remove1)
  show ?thesis
    using \<open>handler_due s\<close> m
    by (auto simp: handler_due_def s' channel_closed_def split: option.splits)
qed (auto simp: handler_due_def Let_def split: option.splits notify_point.splits)

lemma notify_run_due: "notify_run es s = Some s' \<Longrightarrow> handler_due s \<Longrightarrow> handler_due s'"
  by (induction es s rule: notify_run.induct) (auto split: option.splits dest: notify_step_due)

subsection \<open>No handler runs without a reason\<close>

fun installed :: "notify_event list \<Rightarrow> nat multiset" where
  "installed [] = {#}"
| "installed (NtOnClose (Some h) # es) = add_mset h (installed es)"
| "installed (_ # es) = installed es"

text \<open>What may still run a handler: the checks under way, and the one notification with the handler it finds.\<close>

definition runs_ahead :: "notifier \<Rightarrow> nat multiset" where
  "runs_ahead s = mset (nt_ran s) + mset (nt_checking s)"

definition spare :: "notifier \<Rightarrow> nat \<Rightarrow> nat" where
  "spare s h = (case nt_point s of Notified \<Rightarrow> 0 | CallHandler k \<Rightarrow> if k = Some h then 1 else 0 | _ \<Rightarrow> 1)"

lemma installed_cons: "installed (e # es) = installed [e] + installed es"
proof (cases e)
  case (NtOnClose k)
  then show ?thesis by (cases k) simp_all
qed simp_all

lemma notify_step_count:
  assumes "notify_step e s = Some s'"
  shows "count (runs_ahead s') h + spare s' h \<le> count (runs_ahead s) h + spare s h + count (installed [e]) h"
proof (cases e)
  case (NtCheck k)
  with assms have k: "k \<in> set (nt_checking s)"
    and s': "s' = (if channel_closed s then s\<lparr>nt_checking := remove1 k (nt_checking s), nt_ran := nt_ran s @ [k]\<rparr>
                   else s\<lparr>nt_checking := remove1 k (nt_checking s)\<rparr>)"
    by (auto simp: Let_def channel_closed_def split: if_splits)
  from k obtain A where A: "mset (nt_checking s) = add_mset k A" by (metis in_multiset_in_set multi_member_split)
  show ?thesis by (simp add: s' runs_ahead_def spare_def A NtCheck)
next
  case (NtOnClose k)
  with assms show ?thesis by (cases k) (auto simp: runs_ahead_def spare_def Let_def)
qed (use assms in \<open>auto simp: runs_ahead_def spare_def split: notify_point.splits option.splits if_splits\<close>)

lemma notify_run_count:
  "notify_run es s = Some s' \<Longrightarrow>
     count (runs_ahead s') h + spare s' h \<le> count (runs_ahead s) h + spare s h + count (installed es) h"
proof (induction es arbitrary: s)
  case Nil
  then show ?case by simp
next
  case (Cons e es)
  then obtain s1 where s: "notify_step e s = Some s1" and r: "notify_run es s1 = Some s'"
    by (auto split: option.splits)
  from notify_step_count [OF s, of h] Cons.IH [OF r] show ?case
    by (simp only: installed_cons [of e es] count_union)
qed

text \<open>
  C38: The end of a connection is never missed: once the notification has run and every call of \<open>OnClose\<close> has returned,
  the handler then installed has run, in whatever order they raced; and no handler runs more often than it was
  installed plus once.
\<close>

theorem close_handler_not_missed:
  assumes "notify_run es new_notifier = Some s"
  shows "(nt_point s = Notified \<and> nt_checking s = [] \<longrightarrow> (\<forall>h. nt_handler s = Some h \<longrightarrow> h \<in> set (nt_ran s))) \<and>
     count (mset (nt_ran s)) h \<le> count (installed es) h + 1"
proof -
  have "handler_due s" using notify_run_due [OF assms] by (simp add: handler_due_def new_notifier_def)
  moreover have "count (mset (nt_ran s)) h \<le> count (installed es) h + 1"
    using notify_run_count [OF assms, of h] by (simp add: runs_ahead_def spare_def new_notifier_def)
  ultimately show ?thesis by (auto simp: handler_due_def)
qed

theorem close_handler_not_missed_witness:
  "\<exists>s. notify_run [NtOnClose (Some 3), NtNotify, NtCheck 3, NtRead, NtCall] new_notifier = Some s \<and>
     nt_ran s = [3, 3] \<and> 3 \<in> set (nt_ran s) \<and> count (mset (nt_ran s)) 3 \<le> 2"
proof -
  let ?es = "[NtOnClose (Some 3), NtNotify, NtCheck 3, NtRead, NtCall]"
  have "\<exists>s. notify_run ?es new_notifier = Some s \<and> nt_ran s = [3, 3] \<and> nt_point s = Notified \<and> nt_checking s = [] \<and>
    nt_handler s = Some 3"
    by (simp add: new_notifier_def channel_closed_def)
  then obtain s where s: "notify_run ?es new_notifier = Some s" "nt_ran s = [3, 3]" "nt_point s = Notified" "nt_checking s = []"
      "nt_handler s = Some 3" by blast
  from close_handler_not_missed [OF s(1), of 3] s show ?thesis by (intro exI [of _ s]) auto
qed

end
