(* ===== verification/Send_Command.thy ===== *)
theory Send_Command
  imports Local_Files RTC_Sender Http_Receiver
begin

text \<open>
  What the command \<open>cmd/send/send.go\<close> prepares: the text of a message, the metadata of files sent over WebRTC, and the
  files handed to an HTTP sender. Standard input is what it gives before its end, and whether the end is an error; a
  walk of a folder is the list of its callbacks, and the ids drawn are a sequence.
\<close>

subsection \<open>Text\<close>

definition max_stdin_text_bytes :: nat where
  "max_stdin_text_bytes = 16000000"

function valid_utf8 :: "bytes \<Rightarrow> bool" where
  "valid_utf8 [] = True"
| "valid_utf8 (a # s) = (if rune_len (a # s) = 0 then False else valid_utf8 (drop (rune_len (a # s)) (a # s)))"
  by pat_completeness auto
termination
proof (relation "measure length", rule wf_measure)
  fix a :: char and s :: bytes
  assume "rune_len (a # s) \<noteq> 0"
  then show "(drop (rune_len (a # s)) (a # s), a # s) \<in> measure length"
    by (simp del: rune_len.simps)
qed

datatype text_error = TextUnreadable | TextTooLong | TextEmpty | TextNotUtf8

definition cut_suffix :: "bytes \<Rightarrow> bytes \<Rightarrow> bytes \<times> bool" where
  "cut_suffix s x = (if has_suffix x s then (take (length s - length x) s, True) else (s, False))"

definition read_text :: "string \<Rightarrow> bytes \<times> bool \<Rightarrow> text_error + bytes" where
  "read_text arg stdin =
     (let message =
            (if arg = ''-'' then
               (let m = take (max_stdin_text_bytes + 1) (fst stdin)
                in if snd stdin \<and> length (fst stdin) < max_stdin_text_bytes + 1 then Inl TextUnreadable
                   else if max_stdin_text_bytes < length m then Inl TextTooLong
                   else (case cut_suffix m [CHR 0x0A] of
                           (trimmed, True) \<Rightarrow> Inr (fst (cut_suffix trimmed [CHR 0x0D]))
                         | (_, False) \<Rightarrow> Inr m))
             else Inr arg)
      in case message of
           Inl e \<Rightarrow> Inl e
         | Inr m \<Rightarrow> if m = [] then Inl TextEmpty else if \<not> valid_utf8 m then Inl TextNotUtf8 else Inr m)"

subsection \<open>Files over WebRTC\<close>

definition text_file_meta :: "file_env \<Rightarrow> string \<Rightarrow> bytes \<Rightarrow> snd_file" where
  "text_file_meta E uuid message =
     (let m = gen_text_file_meta E uuid message
      in \<lparr>sf_id = fm_id m, sf_name = fm_name m, sf_path = [], sf_size = fm_size m, sf_type = fm_type m,
          sf_sha = fm_checksum m, sf_preview = fm_preview m, sf_modified = zero_time, sf_accessed = zero_time,
          sf_content = fm_content m\<rparr>)"

definition rtc_file_type :: "file_env \<Rightarrow> string \<Rightarrow> string" where
  "rtc_file_type E p = (let t = fe_mime E (path_ext p) in if t = [] then ''application/octet-stream'' else t)"

text \<open>\<open>parse\<close> is \<^verbatim>\<open>time.Parse\<close>.\<close>

definition file_integrity_metadata :: "file_env \<Rightarrow> (string \<Rightarrow> time option) \<Rightarrow> string \<Rightarrow> string \<times> time" where
  "file_integrity_metadata E parse p =
     (case gen_file_meta E [] p of
        None \<Rightarrow> ([], zero_time)
      | Some m \<Rightarrow>
          (case fm_metadata m of
             None \<Rightarrow> ([], zero_time)
           | Some md \<Rightarrow> (case parse (md_accessed md) of None \<Rightarrow> (fm_checksum m, zero_time) | Some t \<Rightarrow> (fm_checksum m, t))))"

definition make_file_meta :: "file_env \<Rightarrow> (string \<Rightarrow> time option) \<Rightarrow> string \<Rightarrow> string \<Rightarrow> stat_info \<Rightarrow> snd_file" where
  "make_file_meta E parse uuid p st =
     (let (checksum, accessed) = file_integrity_metadata E parse p
      in \<lparr>sf_id = uuid, sf_name = st_name st, sf_path = p, sf_size = st_size st, sf_type = rtc_file_type E p,
          sf_sha = checksum, sf_preview = [], sf_modified = st_modified st, sf_accessed = accessed, sf_content = None\<rparr>)"

definition make_file_meta_with_base ::
    "file_env \<Rightarrow> (string \<Rightarrow> time option) \<Rightarrow> string \<Rightarrow> string \<Rightarrow> stat_info \<Rightarrow> string \<Rightarrow> snd_file" where
  "make_file_meta_with_base E parse uuid p st base =
     (let rel = (case path_rel base p of None \<Rightarrow> st_name st | Some rel \<Rightarrow> rel)
      in (make_file_meta E parse uuid p st)\<lparr>sf_name := rel\<rparr>)"

text \<open>An argument: a path that cannot be read, a file, or a folder with what a walk of it gives.\<close>

datatype file_arg = ArgMissing string | ArgFile string stat_info | ArgFolder string "(string \<times> stat_info) option list"

text \<open>A walk skips what it cannot read, the \<^const>\<open>None\<close> entries, and the folders, which are left out of the list.\<close>

fun gather_walk ::
    "file_env \<Rightarrow> (string \<Rightarrow> time option) \<Rightarrow> bool \<Rightarrow> string \<Rightarrow> (nat \<Rightarrow> string) \<Rightarrow> nat \<Rightarrow> (string \<times> stat_info) option list \<Rightarrow> snd_file list" where
  "gather_walk E parse keep base ids n [] = []"
| "gather_walk E parse keep base ids n (None # es) = gather_walk E parse keep base ids n es"
| "gather_walk E parse keep base ids n (Some (p, st) # es) =
     (if keep then make_file_meta_with_base E parse (ids n) p st base else make_file_meta E parse (ids n) p st)
       # gather_walk E parse keep base ids (Suc n) es"

fun gather_files ::
    "file_env \<Rightarrow> (string \<Rightarrow> time option) \<Rightarrow> bool \<Rightarrow> (nat \<Rightarrow> string) \<Rightarrow> nat \<Rightarrow> file_arg list \<Rightarrow> snd_file list" where
  "gather_files E parse keep ids n [] = []"
| "gather_files E parse keep ids n (ArgMissing p # as) = gather_files E parse keep ids n as"
| "gather_files E parse keep ids n (ArgFile p st # as) = make_file_meta E parse (ids n) p st # gather_files E parse keep ids (Suc n) as"
| "gather_files E parse keep ids n (ArgFolder d es # as) =
     (let fs = gather_walk E parse keep (path_dir d) ids n es in fs @ gather_files E parse keep ids (n + length fs) as)"

definition webrtc_files ::
    "file_env \<Rightarrow> (string \<Rightarrow> time option) \<Rightarrow> bool \<Rightarrow> (nat \<Rightarrow> string) \<Rightarrow> bytes option \<Rightarrow> file_arg list \<Rightarrow> snd_file list option" where
  "webrtc_files E parse keep ids message as =
     (let fs = (case message of
                  None \<Rightarrow> gather_files E parse keep ids 0 as
                | Some m \<Rightarrow> text_file_meta E (ids 0) m # gather_files E parse keep ids 1 as)
      in if fs = [] then None else Some fs)"

text \<open>The answer to a pairing request that is typed at the prompt: \<^const>\<open>None\<close> when it cannot be read.\<close>

definition confirm_pairing :: "(string \<Rightarrow> string) \<Rightarrow> (string \<Rightarrow> string) \<Rightarrow> string option \<Rightarrow> bool" where
  "confirm_pairing lower trim response =
     (case response of
        None \<Rightarrow> False
      | Some line \<Rightarrow> (let response = trim (lower line) in response = ''y'' \<or> response = ''yes''))"

subsection \<open>Files over HTTP\<close>

text \<open>
  An argument is logged and skipped when it or its folder fails; what the base sender has of it by then stays. The
  ids of the \<open>i\<close>-th argument are \<open>ids i\<close>.
\<close>

datatype http_arg = HttpMissing string | HttpFile string | HttpFolder string "walk_entry list"

fun add_args ::
    "file_env \<Rightarrow> bool \<Rightarrow> (nat \<Rightarrow> nat \<Rightarrow> string) \<Rightarrow> nat \<Rightarrow> http_arg list \<Rightarrow> 'a base_sender_scheme \<Rightarrow> 'a base_sender_scheme" where
  "add_args E keep ids i [] b = b"
| "add_args E keep ids i (HttpMissing p # as) b = add_args E keep ids (Suc i) as b"
| "add_args E keep ids i (HttpFile p # as) b = add_args E keep ids (Suc i) as (snd (add_file E (ids i 0) p b))"
| "add_args E keep ids i (HttpFolder d es # as) b =
     add_args E keep ids (Suc i) as
       (snd (if keep then add_dir_with_structure E (ids i) d es b else add_dir E (ids i) es b))"

definition http_sender ::
    "file_env \<Rightarrow> bool \<Rightarrow> string \<Rightarrow> (nat \<Rightarrow> nat \<Rightarrow> string) \<Rightarrow> bytes option \<Rightarrow> http_arg list \<Rightarrow> 'a base_sender_scheme \<Rightarrow> 'a base_sender_scheme" where
  "http_sender E keep uuid ids message as b =
     add_args E keep ids 0 as (case message of None \<Rightarrow> b | Some m \<Rightarrow> add_text E uuid m b)"

subsection \<open>Properties\<close>

lemma cut_suffix_cases:
  obtains "cut_suffix s x = (s, False)" | r where "s = r @ x" "cut_suffix s x = (r, True)"
proof (cases "has_suffix x s")
  case True
  then obtain r where "s = r @ x" by (auto simp: has_suffix_iff)
  with True that(2) [of r] show thesis by (simp add: cut_suffix_def)
next
  case False
  with that(1) show thesis by (simp add: cut_suffix_def)
qed

lemma cut_line_break:
  assumes "cut_suffix m [CHR 0x0A] = (a, True)" "fst (cut_suffix a [CHR 0x0D]) = t"
  shows "m = t @ [CHR 0x0A] \<or> m = t @ [CHR 0x0D, CHR 0x0A]"
proof -
  have m: "m = a @ [CHR 0x0A]"
    using assms(1) by (cases rule: cut_suffix_cases [of m "[CHR 0x0A]"]) auto
  show ?thesis
    using assms(2) m by (cases rule: cut_suffix_cases [of a "[CHR 0x0D]"]) auto
qed

lemma read_text_stdin:
  assumes "read_text ''-'' stdin = Inr m"
  shows "length (fst stdin) \<le> max_stdin_text_bytes \<and> \<not> snd stdin
    \<and> (fst stdin = m \<or> fst stdin = m @ [CHR 0x0A] \<or> fst stdin = m @ [CHR 0x0D, CHR 0x0A])"
proof -
  let ?m = "take (max_stdin_text_bytes + 1) (fst stdin)"
  have n: "\<not> (snd stdin \<and> length (fst stdin) < max_stdin_text_bytes + 1)" "\<not> max_stdin_text_bytes < length ?m"
    using assms by (auto simp: read_text_def Let_def split: if_splits)
  then have len: "length (fst stdin) \<le> max_stdin_text_bytes" by (simp add: min_def split: if_splits)
  then have all: "?m = fst stdin" by simp
  obtain a b where c: "cut_suffix (fst stdin) [CHR 0x0A] = (a, b)" by fastforce
  show ?thesis
  proof (cases b)
    case True
    with assms n c all have "fst (cut_suffix a [CHR 0x0D]) = m"
      by (simp add: read_text_def Let_def split: if_splits)
    with cut_line_break [of "fst stdin" a m] c True n len show ?thesis by auto
  next
    case False
    with assms n c all have "fst stdin = m"
      by (simp add: read_text_def Let_def split: if_splits)
    with n len show ?thesis by auto
  qed
qed

lemma read_text_arg: "arg \<noteq> ''-'' \<Longrightarrow> read_text arg stdin = Inr m \<Longrightarrow> m = arg"
  by (simp add: read_text_def split: if_splits)

lemma read_text_sendable: "read_text arg stdin = Inr m \<Longrightarrow> m \<noteq> [] \<and> valid_utf8 m"
  by (auto simp: read_text_def Let_def split: if_splits sum.splits)

text \<open>
  A text that is sent is never empty and is UTF-8, so the receiver can show it. Given as an argument it is sent as it
  is; from the standard input at most 16 MB are accepted, and all of it is sent but for one line break at its end.
\<close>

theorem text_is_sent_whole:
  assumes "read_text arg stdin = Inr m"
  shows "m \<noteq> [] \<and> valid_utf8 m \<and>
    (if arg = ''-'' then length (fst stdin) \<le> max_stdin_text_bytes \<and> \<not> snd stdin \<and>
         (\<exists>e \<in> {[], [CHR 0x0A], [CHR 0x0D, CHR 0x0A]}. fst stdin = m @ e)
     else m = arg)"
  using read_text_sendable [OF assms] read_text_stdin [of stdin m] read_text_arg [of arg stdin m] assms by auto

theorem text_is_sent_whole_witness:
  "read_text ''-'' (''hi'' @ [CHR 0x0D, CHR 0x0A], False) = Inr ''hi'' \<and> valid_utf8 ''hi''"
proof -
  have r: "read_text ''-'' (''hi'' @ [CHR 0x0D, CHR 0x0A], False) = Inr ''hi''"
    by (simp add: read_text_def cut_suffix_def has_suffix_def max_stdin_text_bytes_def)
  with text_is_sent_whole [OF r] show ?thesis by simp
qed

text \<open>
  A folder whose walk fails is logged as skipped, but the files before the failure have been added and are sent.
\<close>

lemma failed_folder_is_not_skipped:
  assumes "add_file E (ids 0 0) p b = (True, b1)"
  shows "add_args E False ids 0 [HttpFolder d [WalkFile p, WalkError]] b = b1"
  using assms by (simp add: add_dir_def)

text \<open>Over WebRTC a file of a folder has the name that HTTP gives it.\<close>

lemma webrtc_name_is_http_name:
  assumes "gen_file_meta_with_base E uuid p base = Some m" "fe_stat E p = Some st"
  shows "sf_name (make_file_meta_with_base E parse uuid' p st base) = fm_name m \<and>
    sf_size (make_file_meta_with_base E parse uuid' p st base) = fm_size m \<and>
    sf_sha (make_file_meta_with_base E parse uuid' p st base) = fm_checksum m"
  using assms
  by (auto simp: gen_file_meta_with_base_def make_file_meta_with_base_def make_file_meta_def file_integrity_metadata_def
      gen_file_meta_def split: option.splits prod.splits)

end
