(* ===== verification/Control.thy ===== *)
theory Control
  imports Discovery_Net "HOL-Library.Word"
begin

unbundle bit_operations_syntax

text \<open>
  The private control socket of \<open>internal/control/control.go\<close> by which a scan command asks the process that owns the
  listener. Several processes of one user race for ownership: every point of \<open>Listen\<close> and \<open>Close\<close> between two system
  calls is a state of a process. The kernel drops the lock of a process that dies and keeps its socket file; nobody
  else writes to the private directory.
\<close>

subsection \<open>The directory and the requests\<close>

record dir_info =
  di_is_dir :: bool
  di_perm :: "32 word"
  di_uid :: "32 word"

definition check_directory :: "32 word \<Rightarrow> dir_info \<Rightarrow> bool" where
  "check_directory uid d \<longleftrightarrow> di_is_dir d \<and> di_perm d AND 0x3F = 0 \<and> di_uid d = uid"

definition default_control_path :: "string \<Rightarrow> nat \<Rightarrow> int \<Rightarrow> string" where
  "default_control_path tmp uid port =
     path_join (path_join tmp (''localsend-'' @ nat_dec uid @ ''-'' @ itoa port)) ''control.sock''"

definition minute :: duration where
  "minute = 60 * second"

definition scan_request_ok :: "scan_options \<Rightarrow> bool" where
  "scan_request_ok opts \<longleftrightarrow>
     \<not> (so_timeout opts \<le> 0 \<or> 2 * minute < so_timeout opts \<or> so_legacy_timeout opts < 0 \<or> 2 * minute < so_legacy_timeout opts)"

text \<open>The answer to a client: its error, when there is one, without devices.\<close>

type_synonym devices = "(string, announcement) gomap"

definition request_error :: string where
  "request_error = ''scan durations must be between zero and two minutes, with a positive collection window''"

definition serve_connection ::
    "(scan_options \<Rightarrow> (string + devices)) \<Rightarrow> scan_options option \<Rightarrow> (string \<times> devices) option" where
  "serve_connection scan request =
     (case request of
        None \<Rightarrow> None
      | Some opts \<Rightarrow>
          if \<not> scan_request_ok opts then Some (request_error, [])
          else (case scan opts of Inl e \<Rightarrow> Some (e, []) | Inr ds \<Rightarrow> Some ([], ds)))"

subsection \<open>Ownership\<close>

datatype control_file = NoPath | SocketOf nat | OtherPath

datatype control_point =
    CpOut
  | CpFailed
  | CpBusy
  | CpDirectory
  | CpLocked
  | CpCleared
  | CpBound
  | CpServing
  | CpUnlinked

record control =
  ct_dir :: "dir_info option"
  ct_lock :: "nat option"
  ct_path :: control_file
  ct_point :: "nat \<Rightarrow> control_point"

definition goes_to :: "nat \<Rightarrow> control_point \<Rightarrow> control \<Rightarrow> control" where
  "goes_to p x s = s\<lparr>ct_point := (ct_point s)(p := x)\<rparr>"

text \<open>Closing the lock file releases the lock of the process.\<close>

definition unlock :: "nat \<Rightarrow> control \<Rightarrow> control" where
  "unlock p s = (if ct_lock s = Some p then s\<lparr>ct_lock := None\<rparr> else s)"

definition fail_locked_listen :: "nat \<Rightarrow> control \<Rightarrow> control" where
  "fail_locked_listen p s = goes_to p CpFailed (unlock p s)"

text \<open>Closing the listener of a Unix socket removes its path.\<close>

definition close_listener :: "control \<Rightarrow> control" where
  "close_listener s = s\<lparr>ct_path := (case ct_path s of OtherPath \<Rightarrow> OtherPath | _ \<Rightarrow> NoPath)\<rparr>"

datatype control_event =
    CtMkdir bool
  | CtFlock bool
  | CtClear bool
  | CtBind bool
  | CtChmod bool
  | CtCloseListener
  | CtCloseLock
  | CtDie
  | CtLeave

text \<open>
  One system call of process \<open>p\<close> with user \<open>uid\<close>; the flag of an event tells whether a call without a modelled cause of
  failure succeeds. \<^const>\<open>None\<close> when the process is not at this point.
\<close>

fun control_step :: "32 word \<Rightarrow> nat \<Rightarrow> control_event \<Rightarrow> control \<Rightarrow> control option" where
  "control_step uid p (CtMkdir ok) s =
     (if ct_point s p \<noteq> CpOut then None
      else
        (case ct_dir s of
           None \<Rightarrow>
             if ok then Some (goes_to p CpDirectory (s\<lparr>ct_dir := Some \<lparr>di_is_dir = True, di_perm = 0x1C0, di_uid = uid\<rparr>\<rparr>))
             else Some (goes_to p CpFailed s)
         | Some d \<Rightarrow> Some (goes_to p (if check_directory uid d then CpDirectory else CpFailed) s)))"
| "control_step uid p (CtFlock ok) s =
     (if ct_point s p \<noteq> CpDirectory then None
      else if \<not> ok then Some (goes_to p CpFailed s)
      else if ct_lock s \<noteq> None then Some (goes_to p CpBusy s)
      else Some (goes_to p CpLocked (s\<lparr>ct_lock := Some p\<rparr>)))"
| "control_step uid p (CtClear ok) s =
     (if ct_point s p \<noteq> CpLocked then None
      else
        (case ct_path s of
           OtherPath \<Rightarrow> Some (fail_locked_listen p s)
         | NoPath \<Rightarrow> Some (if ok then goes_to p CpCleared s else fail_locked_listen p s)
         | SocketOf q \<Rightarrow> Some (if ok then goes_to p CpCleared (s\<lparr>ct_path := NoPath\<rparr>) else fail_locked_listen p s)))"
| "control_step uid p (CtBind ok) s =
     (if ct_point s p \<noteq> CpCleared then None
      else if ct_path s \<noteq> NoPath \<or> \<not> ok then Some (fail_locked_listen p s)
      else Some (goes_to p CpBound (s\<lparr>ct_path := SocketOf p\<rparr>)))"
| "control_step uid p (CtChmod ok) s =
     (if ct_point s p \<noteq> CpBound then None
      else if ok then Some (goes_to p CpServing s)
      else Some (fail_locked_listen p (close_listener s)))"
| "control_step uid p CtCloseListener s =
     (if ct_point s p \<noteq> CpServing then None else Some (goes_to p CpUnlinked (close_listener s)))"
| "control_step uid p CtCloseLock s =
     (if ct_point s p \<noteq> CpUnlinked then None else Some (goes_to p CpOut (unlock p s)))"
| "control_step uid p CtDie s = Some (goes_to p CpOut (unlock p s))"
| "control_step uid p CtLeave s =
     (if ct_point s p \<noteq> CpFailed \<and> ct_point s p \<noteq> CpBusy then None else Some (goes_to p CpOut s))"

fun control_run :: "32 word \<Rightarrow> (nat \<times> control_event) list \<Rightarrow> control \<Rightarrow> control option" where
  "control_run uid [] s = Some s"
| "control_run uid ((p, e) # es) s = (case control_step uid p e s of None \<Rightarrow> None | Some s' \<Rightarrow> control_run uid es s')"

text \<open>At the start no process runs; a socket may have been left behind.\<close>

definition fresh_control :: "dir_info option \<Rightarrow> control_file \<Rightarrow> control" where
  "fresh_control d f = \<lparr>ct_dir = d, ct_lock = None, ct_path = f, ct_point = (\<lambda>p. CpOut)\<rparr>"

subsection \<open>The client\<close>

datatype scan_error = ScanUnavailable | ScanFailed string

text \<open>
  \<open>Scan\<close>: \<open>dial\<close> is the process that accepts the connection, \<^const>\<open>None\<close> when there is no socket or nobody listens on
  it; \<open>reply\<close> is what can be read from it.
\<close>

definition dial :: "control \<Rightarrow> nat option" where
  "dial s =
     (case ct_path s of SocketOf p \<Rightarrow> if ct_point s p = CpBound \<or> ct_point s p = CpServing then Some p else None | _ \<Rightarrow> None)"

definition scan_client ::
    "32 word \<Rightarrow> (nat \<Rightarrow> (string \<times> devices) option) \<Rightarrow> control \<Rightarrow> scan_error + devices" where
  "scan_client uid reply s =
     (case ct_dir s of
        None \<Rightarrow> Inl ScanUnavailable
      | Some d \<Rightarrow>
          if \<not> check_directory uid d then Inl (ScanFailed ''control directory must be private and owned by the current user'')
          else
            (case dial s of
               None \<Rightarrow> Inl ScanUnavailable
             | Some p \<Rightarrow>
                 (case reply p of
                    None \<Rightarrow> Inl (ScanFailed ''read backend discovery result'')
                  | Some (e, ds) \<Rightarrow> if e \<noteq> [] then Inl (ScanFailed e) else Inr ds)))"

subsection \<open>One owner\<close>

definition owns :: "control_point \<Rightarrow> bool" where
  "owns x \<longleftrightarrow> x \<in> {CpLocked, CpCleared, CpBound, CpServing, CpUnlinked}"

definition control_inv :: "control \<Rightarrow> bool" where
  "control_inv s \<longleftrightarrow>
     (\<forall>p. owns (ct_point s p) \<longleftrightarrow> ct_lock s = Some p) \<and>
     (\<forall>p. ct_point s p = CpBound \<or> ct_point s p = CpServing \<longrightarrow> ct_path s = SocketOf p)"

lemma owns_simps [simp]:
  "owns CpLocked" "owns CpCleared" "owns CpBound" "owns CpServing" "owns CpUnlinked"
  "\<not> owns CpOut" "\<not> owns CpFailed" "\<not> owns CpBusy" "\<not> owns CpDirectory"
  by (simp_all add: owns_def)

lemma invD: "control_inv s \<Longrightarrow> owns (ct_point s p) \<longleftrightarrow> ct_lock s = Some p"
  by (simp add: control_inv_def)

lemma inv_dir [simp]: "control_inv (s\<lparr>ct_dir := d\<rparr>) = control_inv s"
  by (simp add: control_inv_def)

lemma others_not_listening:
  "control_inv s \<Longrightarrow> ct_lock s = Some p \<Longrightarrow> q \<noteq> p \<Longrightarrow> ct_point s q \<noteq> CpBound \<and> ct_point s q \<noteq> CpServing"
  using invD [of s q] by auto

lemma inv_outside: "control_inv s \<Longrightarrow> \<not> owns x \<Longrightarrow> \<not> owns (ct_point s p) \<Longrightarrow> control_inv (goes_to p x s)"
  unfolding control_inv_def goes_to_def by (auto simp: owns_def)

lemma inv_owner:
  assumes "control_inv s" "ct_lock s = Some p" "owns x" "x = CpBound \<or> x = CpServing \<Longrightarrow> f = SocketOf p"
  shows "control_inv (goes_to p x (s\<lparr>ct_path := f\<rparr>))"
proof -
  have "owns (((ct_point s)(p := x)) q) \<longleftrightarrow> ct_lock s = Some q" for q
    using invD [OF assms(1), of q] assms(2,3) by simp
  moreover have "((ct_point s)(p := x)) q = CpBound \<or> ((ct_point s)(p := x)) q = CpServing \<Longrightarrow> f = SocketOf q" for q
    using others_not_listening [OF assms(1,2), of q] assms(4) by (cases "q = p") simp_all
  ultimately show ?thesis by (simp add: control_inv_def goes_to_def)
qed

lemma inv_owner_stays:
  "control_inv s \<Longrightarrow> ct_lock s = Some p \<Longrightarrow> owns x \<Longrightarrow> (x = CpBound \<or> x = CpServing \<Longrightarrow> ct_path s = SocketOf p) \<Longrightarrow>
     control_inv (goes_to p x s)"
  using inv_owner [of s p x "ct_path s"] by simp

lemma inv_release:
  assumes "control_inv s" "ct_lock s = Some p" "\<not> owns x"
  shows "control_inv (goes_to p x (unlock p (s\<lparr>ct_path := f\<rparr>)))"
proof -
  have "\<not> owns (ct_point s q)" if "q \<noteq> p" for q using invD [OF assms(1), of q] assms(2) that by simp
  then have "\<not> owns (((ct_point s)(p := x)) q)" for q using assms(3) by simp
  then show ?thesis unfolding control_inv_def goes_to_def unlock_def using assms(2) by (auto simp: owns_def)
qed

lemma inv_leave: "control_inv s \<Longrightarrow> \<not> owns x \<Longrightarrow> control_inv (goes_to p x (unlock p s))"
proof (cases "ct_lock s = Some p")
  case True
  then show "control_inv s \<Longrightarrow> \<not> owns x \<Longrightarrow> control_inv (goes_to p x (unlock p s))"
    using inv_release [of s p x "ct_path s"] by simp
next
  case False
  then show "control_inv s \<Longrightarrow> \<not> owns x \<Longrightarrow> control_inv (goes_to p x (unlock p s))"
    using invD [of s p] by (simp add: unlock_def inv_outside)
qed

lemma inv_lock:
  assumes "control_inv s" "ct_lock s = None"
  shows "control_inv (goes_to p CpLocked (s\<lparr>ct_lock := Some p\<rparr>))"
proof -
  have "\<not> owns (ct_point s q)" for q using invD [OF assms(1), of q] assms(2) by simp
  then show ?thesis unfolding control_inv_def goes_to_def by (auto simp: owns_def)
qed

lemma control_step_inv:
  assumes st: "control_step uid p e s = Some s'" and i: "control_inv s"
  shows "control_inv s'"
proof (cases e)
  case (CtMkdir ok)
  with st show ?thesis by (auto intro!: inv_outside simp: i split: option.splits if_splits)
next
  case (CtFlock ok)
  with st show ?thesis by (auto intro!: inv_outside inv_lock simp: i split: if_splits)
next
  case (CtClear ok)
  with st have "ct_lock s = Some p" using invD [OF i, of p] by (auto split: if_splits)
  with CtClear st i show ?thesis
    by (cases "ct_path s") (auto intro: inv_owner inv_owner_stays inv_leave simp: fail_locked_listen_def split: if_splits)
next
  case (CtBind ok)
  with st have "ct_lock s = Some p" using invD [OF i, of p] by (auto split: if_splits)
  with CtBind st show ?thesis
    by (auto intro!: inv_owner inv_leave simp: i fail_locked_listen_def split: if_splits)
next
  case (CtChmod ok)
  with st have l: "ct_lock s = Some p" and b: "ct_point s p = CpBound" using invD [OF i, of p] by (auto split: if_splits)
  from b i have "ct_path s = SocketOf p" by (simp add: control_inv_def)
  with CtChmod st l i show ?thesis
    by (auto intro!: inv_owner_stays inv_release simp: fail_locked_listen_def close_listener_def split: if_splits)
next
  case CtCloseListener
  with st have l: "ct_lock s = Some p" using invD [OF i, of p] by (auto split: if_splits)
  with CtCloseListener st i show ?thesis by (auto intro!: inv_owner simp: close_listener_def split: if_splits)
qed (use st i in \<open>auto intro!: inv_leave inv_outside split: if_splits\<close>)

lemma control_run_inv: "control_run uid es s = Some s' \<Longrightarrow> control_inv s \<Longrightarrow> control_inv s'"
  by (induction uid es s rule: control_run.induct) (auto split: option.splits dest: control_step_inv)

lemma fresh_control_inv: "control_inv (fresh_control d f)"
  by (simp add: control_inv_def fresh_control_def owns_def)

text \<open>
  C15: However the processes of a user race to start, stop and die, at most one of them listens on the control socket,
  and while it serves the socket at the path is its own: nobody removes or replaces it. A client that is told the
  backend is unavailable, so that it may start its own listener, is told so only when no process serves, unless the
  directory is missing; and devices it gets are the answer of the serving process.
\<close>

theorem control_socket_has_one_owner:
  assumes "control_run uid es (fresh_control d f) = Some s"
  shows "(owns (ct_point s p) \<and> owns (ct_point s q) \<longrightarrow> p = q) \<and>
     (ct_point s p = CpServing \<longrightarrow> ct_path s = SocketOf p \<and> ct_lock s = Some p) \<and>
     (scan_client uid reply s = Inl ScanUnavailable \<longrightarrow> ct_dir s = None \<or> ct_point s p \<noteq> CpServing) \<and>
     (scan_client uid reply s = Inr ds \<longrightarrow> (\<exists>o'. dial s = Some o' \<and> owns (ct_point s o') \<and> reply o' = Some ([], ds)))"
proof -
  have i: "control_inv s" by (rule control_run_inv [OF assms fresh_control_inv])
  then have "owns (ct_point s p) \<and> owns (ct_point s q) \<longrightarrow> p = q" by (auto simp: control_inv_def)
  moreover have serving: "ct_path s = SocketOf p \<and> ct_lock s = Some p" if "ct_point s p = CpServing"
  proof -
    have "owns (ct_point s p)" by (simp add: that owns_def)
    with i that show ?thesis by (auto simp: control_inv_def)
  qed
  moreover have "ct_dir s = None \<or> ct_point s p \<noteq> CpServing" if "scan_client uid reply s = Inl ScanUnavailable"
    using that serving by (auto simp: scan_client_def dial_def split: option.splits if_splits)
  moreover have "\<exists>o'. dial s = Some o' \<and> owns (ct_point s o') \<and> reply o' = Some ([], ds)" if "scan_client uid reply s = Inr ds"
    using that by (auto simp: scan_client_def dial_def owns_def split: option.splits if_splits control_file.splits)
  ultimately show ?thesis by blast
qed

definition demo_race :: "(nat \<times> control_event) list" where
  "demo_race = [(1, CtMkdir True), (2, CtMkdir True), (1, CtFlock True), (2, CtFlock True), (1, CtClear True), (1, CtBind True),
     (1, CtChmod True)]"

theorem control_socket_has_one_owner_witness:
  "\<exists>s. control_run 7 demo_race (fresh_control None (SocketOf 9)) = Some s \<and> ct_point s 1 = CpServing \<and>
     ct_point s 2 = CpBusy \<and> ct_path s = SocketOf 1"
proof -
  have "\<exists>s. control_run 7 demo_race (fresh_control None (SocketOf 9)) = Some s \<and> ct_point s 1 = CpServing \<and> ct_point s 2 = CpBusy"
    by (simp add: demo_race_def fresh_control_def goes_to_def check_directory_def)
  then obtain s where s: "control_run 7 demo_race (fresh_control None (SocketOf 9)) = Some s" "ct_point s 1 = CpServing"
      "ct_point s 2 = CpBusy" by blast
  from control_socket_has_one_owner [OF s(1), of 1] s show ?thesis by blast
qed

end
