(* ===== verification/Scan_Command.thy ===== *)
theory Scan_Command
  imports Control Recv_Command
begin

text \<open>
  The command \<open>cmd/scan/scan.go\<close>: its flags, the search for a running backend or the start of a temporary one, and the
  devices it reports. The control socket is that of \<^verbatim>\<open>Control\<close>, the identity file that of \<^verbatim>\<open>Recv_Command\<close>.
\<close>

subsection \<open>Flags\<close>

record scan_flags =
  cf_timeout :: int
  cf_legacy_timeout :: int
  cf_lan :: bool
  cf_legacy :: bool
  cf_webrtc :: bool
  cf_chosen :: bool
  cf_port :: int

text \<open>\<open>cf_chosen\<close> tells whether one of the three kinds of scan was asked for.\<close>

definition check_scan_flags :: "scan_flags \<Rightarrow> string option" where
  "check_scan_flags f =
     (if cf_timeout f \<le> 0 \<or> 120 < cf_timeout f \<or> cf_legacy_timeout f < 0 \<or> 120 < cf_legacy_timeout f
      then Some ''scan durations must be between zero and 120 seconds, with a positive timeout''
      else if cf_port f < 1 \<or> 65535 < cf_port f then Some ''port must be between 1 and 65535''
      else None)"

definition scan_plan :: "scan_flags \<Rightarrow> scan_options \<times> bool" where
  "scan_plan f =
     (let (lan, legacy, webrtc, fallback) =
            (if cf_chosen f then (cf_lan f, cf_legacy f, cf_webrtc f, False) else (True, cf_legacy f, True, True));
          legacy_time = (if cf_legacy_timeout f = 0 then cf_timeout f else cf_legacy_timeout f)
      in (\<lparr>so_timeout = cf_timeout f * second, so_legacy_timeout = legacy_time * second, so_lan = lan, so_legacy = legacy,
           so_fallback = fallback\<rparr>, webrtc))"

definition scan_guard :: "scan_options \<Rightarrow> duration" where
  "scan_guard opts = max (so_timeout opts) (so_legacy_timeout opts) + 5 * second"

definition scans_native :: "scan_options \<Rightarrow> bool" where
  "scans_native opts \<longleftrightarrow> so_lan opts \<or> so_legacy opts \<or> so_fallback opts"

text \<open>What the command asks for is what the backend accepts.\<close>

lemma planned_request_ok: "check_scan_flags f = None \<Longrightarrow> scan_request_ok (fst (scan_plan f))"
  by (auto simp: check_scan_flags_def scan_plan_def scan_request_ok_def minute_def second_def Let_def split: if_splits)

lemma planned_guard:
  "check_scan_flags f = None \<Longrightarrow>
     so_timeout (fst (scan_plan f)) < scan_guard (fst (scan_plan f)) \<and>
     so_legacy_timeout (fst (scan_plan f)) < scan_guard (fst (scan_plan f)) \<and> scan_guard (fst (scan_plan f)) \<le> 125 * second"
  by (auto simp: check_scan_flags_def scan_plan_def scan_guard_def second_def Let_def split: if_splits)

subsection \<open>The backend\<close>

text \<open>
  One round of \<open>scanNative\<close>: what the client of the control socket got, what \<open>Listen\<close> answered, and whether the context
  was cancelled while it waited.
\<close>

datatype listen_result = ListenOwner | ListenBusy | ListenError string

record native_round =
  nv_scan :: "scan_error + devices"
  nv_listen :: listen_result
  nv_cancelled :: bool

datatype native_result = NativeDevices devices | NativeBackend | NativeFailed string | NativeCancelled

fun scan_native :: "native_round list \<Rightarrow> native_result option" where
  "scan_native [] = None"
| "scan_native (n # ns) =
     (case nv_scan n of
        Inr ds \<Rightarrow> Some (NativeDevices ds)
      | Inl (ScanFailed e) \<Rightarrow> Some (NativeFailed e)
      | Inl ScanUnavailable \<Rightarrow>
          (case nv_listen n of
             ListenOwner \<Rightarrow> Some NativeBackend
           | ListenError e \<Rightarrow> Some (NativeFailed e)
           | ListenBusy \<Rightarrow> if nv_cancelled n then Some NativeCancelled else scan_native ns))"

text \<open>A temporary backend runs only after the lock was got, and no backend had answered before.\<close>

lemma backend_only_as_owner:
  "scan_native ns = Some NativeBackend \<Longrightarrow>
     \<exists>before n rest. ns = before @ n # rest \<and> nv_listen n = ListenOwner \<and>
       (\<forall>m \<in> set (before @ [n]). nv_scan m = Inl ScanUnavailable) \<and> (\<forall>m \<in> set before. nv_listen m = ListenBusy)"
proof (induction ns rule: scan_native.induct)
  case (2 n ns)
  then have u: "nv_scan n = Inl ScanUnavailable" by (auto split: sum.splits scan_error.splits)
  show ?case
  proof (cases "nv_listen n = ListenOwner")
    case True
    with u show ?thesis by (intro exI [of _ "[]"] exI [of _ n] exI [of _ ns]) simp
  next
    case False
    with "2.prems" u have b: "nv_listen n = ListenBusy" "\<not> nv_cancelled n" "scan_native ns = Some NativeBackend"
      by (auto split: listen_result.splits if_splits)
    with "2.IH" u obtain before m rest where
      "ns = before @ m # rest" "nv_listen m = ListenOwner"
        "\<forall>k \<in> set (before @ [m]). nv_scan k = Inl ScanUnavailable" "\<forall>k \<in> set before. nv_listen k = ListenBusy"
      by blast
    with u b(1) show ?thesis by (intro exI [of _ "n # before"] exI [of _ m] exI [of _ rest]) simp
  qed
qed simp

subsection \<open>The report\<close>

record lan_device =
  ld_ip :: string
  ld_port :: int
  ld_alias :: string
  ld_version :: string
  ld_protocol :: string

record webrtc_device =
  wd_id :: string
  wd_alias :: string
  wd_version :: string

definition report_lan :: "devices \<Rightarrow> lan_device list" where
  "report_lan ds =
     map (\<lambda>(ip, a). \<lparr>ld_ip = ip, ld_port = an_port a, ld_alias = dv_alias a, ld_version = dv_version a,
                       ld_protocol = an_protocol a\<rparr>) ds"

text \<open>The identity to leave out: \<open>file\<close> is the content of the file, absent when there is none.\<close>

definition exclude_id :: "(string \<Rightarrow> string) \<Rightarrow> bytes option \<Rightarrow> string" where
  "exclude_id trim file = (case file of None \<Rightarrow> [] | Some data \<Rightarrow> trim data)"

definition report_webrtc :: "string \<Rightarrow> client_info list \<Rightarrow> webrtc_device list" where
  "report_webrtc excluded peers =
     map (\<lambda>p. \<lparr>wd_id = ci_id p, wd_alias = cb_alias p, wd_version = cb_version p\<rparr>)
       (filter (\<lambda>p. excluded = [] \<or> ci_id p \<noteq> excluded) peers)"

text \<open>\<open>discoverViaSignaling\<close>: the peers known after what the server sent during the wait.\<close>

definition discover_via_signaling :: "string \<Rightarrow> string option \<Rightarrow> server_message option \<Rightarrow> sig_event list \<Rightarrow> client_info list" where
  "discover_via_signaling alias token first es =
     (case token of
        None \<Rightarrow> []
      | Some t \<Rightarrow>
          (case connect_signaling (new_client_info alias t) first of
             None \<Rightarrow> []
           | Some c \<Rightarrow> (case sig_run es c of None \<Rightarrow> [] | Some c' \<Rightarrow> get_peers c')))"

lemma file_names_client: "reconnect_step e l = Some l' \<Longrightarrow> rl_file l = Some i \<longrightarrow> rl_client l = Some i \<Longrightarrow>
  rl_file l' = Some i \<Longrightarrow> rl_client l' = Some i"
  by (cases e) (auto simp: wait_reconnect_def Let_def split: if_splits)

lemma run_file_names_client:
  "reconnect_run es l = Some l' \<Longrightarrow> rl_file l = Some i \<longrightarrow> rl_client l = Some i \<Longrightarrow> rl_file l' = Some i \<Longrightarrow>
     rl_client l' = Some i"
proof (induction es l rule: reconnect_run.induct)
  case (2 e es l)
  then obtain l1 where l1: "reconnect_step e l = Some l1" "reconnect_run es l1 = Some l'" by (auto split: option.splits)
  with "2.IH" [OF l1(1) l1(2)] "2.prems" file_names_client [OF l1(1)] show ?case by blast
qed simp

text \<open>
  A scan that is given the identity file of the receiver leaves out exactly the receiver: while the receiver is
  connected and could write its file, this is the one peer that is missing from the report, and at no time does a file
  left from an earlier connection hide another device.
\<close>

theorem scan_hides_only_the_receiver:
  assumes "reconnect_run es start_reconnect_loop = Some l"
    and "\<And>i. rl_file l = Some i \<Longrightarrow> trim i = i \<and> i \<noteq> []"
  shows "map wd_id (report_webrtc (exclude_id trim (rl_file l)) peers) =
    (case rl_file l of None \<Rightarrow> map ci_id peers | Some i \<Rightarrow> filter (\<lambda>j. j \<noteq> i) (map ci_id peers)) \<and>
    (\<forall>i. rl_file l = Some i \<longrightarrow> rl_client l = Some i)"
proof (cases "rl_file l")
  case None
  then show ?thesis by (simp add: exclude_id_def report_webrtc_def comp_def)
next
  case (Some i)
  have "rl_client l = Some i"
    using run_file_names_client [OF assms(1) _ Some] by (simp add: start_reconnect_loop_def)
  with Some assms(2) [OF Some] show ?thesis
    by (simp add: exclude_id_def report_webrtc_def comp_def filter_map)
qed

theorem scan_hides_only_the_receiver_witness:
  "\<exists>l. reconnect_run [RlUp ''a'' True, RlDown 0 (\<lambda>n. 0), RlUp ''b'' True] start_reconnect_loop = Some l \<and>
     map wd_id (report_webrtc (exclude_id ascii_trim (rl_file l)) [demo_peer ''a'', demo_peer ''b'']) = [''a'']"
proof -
  let ?es = "[RlUp ''a'' True, RlDown 0 (\<lambda>n. 0), RlUp ''b'' True]"
  have "\<exists>l. reconnect_run ?es start_reconnect_loop = Some l \<and> rl_file l = Some ''b''"
    by (simp add: start_reconnect_loop_def wait_reconnect_def Let_def)
  then obtain l where l: "reconnect_run ?es start_reconnect_loop = Some l" "rl_file l = Some ''b''" by blast
  have t: "ascii_trim ''b'' = ''b''" by code_simp
  have "\<And>i. rl_file l = Some i \<Longrightarrow> ascii_trim i = i \<and> i \<noteq> []" using l(2) t by auto
  from scan_hides_only_the_receiver [OF l(1) this, of "[demo_peer ''a'', demo_peer ''b'']"] l show ?thesis
    by (auto simp: demo_peer_def)
qed

end
