(* ===== verification/Net_Test.thy ===== *)
theory Net_Test
  imports Discovery_Net
begin

text \<open>
  The diagnosis of discovery, \<open>cmd/nettest/nettest.go\<close>: which answers count as another device, the two ways they come in,
  and the result. Sockets and the JSON codec are parameters; the two listeners run concurrently under one mutex, so what
  arrives is one sequence of events. The order in which Go visits a map is a parameter.
\<close>

subsection \<open>Counting devices\<close>

text \<open>\<open>loopback\<close> tells whether an address parses as a loopback address.\<close>

definition should_count_peer :: "(string \<Rightarrow> bool) \<Rightarrow> string \<Rightarrow> string \<Rightarrow> string \<Rightarrow> string list \<Rightarrow> bool" where
  "should_count_peer loopback fingerprint remote self locals =
     (if fingerprint = [] \<or> fingerprint = self then False
      else if remote \<noteq> [] \<and> (loopback remote \<or> remote \<in> set locals) then False
      else True)"

text \<open>What stays the same during a test.\<close>

record nettest_env =
  ne_decode :: "bytes \<Rightarrow> announcement option"
  ne_loopback :: "string \<Rightarrow> bool"
  ne_self :: string
  ne_locals :: "string list"
  ne_probe :: bytes

type_synonym seen_peers = "(string, string) gomap"

definition unknown_alias :: string where
  "unknown_alias = ''(unknown)''"

definition record_peer :: "nettest_env \<Rightarrow> announcement \<Rightarrow> string \<Rightarrow> seen_peers \<Rightarrow> seen_peers" where
  "record_peer E a remote seen =
     (let fp = dv_fingerprint a
      in if \<not> should_count_peer (ne_loopback E) fp remote (ne_self E) (ne_locals E) then seen
         else if map_of seen fp \<noteq> None then seen
         else AList.update fp (if dv_alias a = [] then unknown_alias else dv_alias a) seen)"

record nettest =
  nx_loopback :: bool
  nx_udp :: seen_peers
  nx_register :: seen_peers

definition start_nettest :: nettest where
  "start_nettest = \<lparr>nx_loopback = False, nx_udp = [], nx_register = []\<rparr>"

text \<open>A datagram with the address it came from (empty when there is none).\<close>

definition read_packet :: "nettest_env \<Rightarrow> bytes \<Rightarrow> string \<Rightarrow> nettest \<Rightarrow> nettest" where
  "read_packet E pkt remote s =
     (if contains_str (ne_probe E) pkt then s\<lparr>nx_loopback := True\<rparr>
      else (case ne_decode E pkt of None \<Rightarrow> s | Some a \<Rightarrow> s\<lparr>nx_udp := record_peer E a remote (nx_udp s)\<rparr>))"

definition max_register_bytes :: nat where
  "max_register_bytes = 8192"

text \<open>A request to the register listener: the status of the answer.\<close>

definition register_request :: "nettest_env \<Rightarrow> string \<Rightarrow> string \<Rightarrow> bytes \<Rightarrow> string \<Rightarrow> nettest \<Rightarrow> int \<times> nettest" where
  "register_request E meth path body remote s =
     (if meth \<noteq> ''POST'' \<or> \<not> has_suffix ''/register'' path then (404, s)
      else (case ne_decode E (take max_register_bytes body) of
              None \<Rightarrow> (200, s)
            | Some a \<Rightarrow> (200, s\<lparr>nx_register := record_peer E a remote (nx_register s)\<rparr>)))"

datatype net_event = NetPacket bytes string | NetRegister string string bytes string

fun nettest_step :: "nettest_env \<Rightarrow> net_event \<Rightarrow> nettest \<Rightarrow> nettest" where
  "nettest_step E (NetPacket pkt remote) s = read_packet E pkt remote s"
| "nettest_step E (NetRegister meth path body remote) s = snd (register_request E meth path body remote s)"

definition nettest_run :: "nettest_env \<Rightarrow> net_event list \<Rightarrow> nettest \<Rightarrow> nettest" where
  "nettest_run E es s = fold (nettest_step E) es s"

subsection \<open>The result\<close>

text \<open>\<open>aliasesFrom\<close> on the aliases in the order in which the map is visited; \<open>out\<close> is also the set of those seen.\<close>

fun aliases_from :: "nat \<Rightarrow> string list \<Rightarrow> string list \<Rightarrow> string list" where
  "aliases_from limit [] out = out"
| "aliases_from limit (alias # as) out =
     (let a = (if alias = [] then unknown_alias else alias)
      in if a \<in> set out then aliases_from limit as out
         else if limit \<le> length (out @ [a]) then out @ [a]
         else aliases_from limit as (out @ [a]))"

fun union_peers :: "seen_peers \<Rightarrow> seen_peers \<Rightarrow> seen_peers" where
  "union_peers u [] = u"
| "union_peers u ((fp, alias) # ps) =
     union_peers (if map_of u fp = None then AList.update fp alias u else u) ps"

record nettest_result =
  nr_loopback :: bool
  nr_peers :: nat
  nr_udp :: nat
  nr_register :: nat
  nr_aliases :: "string list"

text \<open>\<open>vis\<close> are the entries of the union in the order in which they are visited.\<close>

definition nettest_result_of :: "(string \<times> string) list \<Rightarrow> nettest \<Rightarrow> nettest_result" where
  "nettest_result_of vis s =
     \<lparr>nr_loopback = nx_loopback s, nr_peers = length (union_peers (nx_udp s) (nx_register s)),
      nr_udp = length (nx_udp s), nr_register = length (nx_register s), nr_aliases = aliases_from 10 (map snd vis) []\<rparr>"

text \<open>\<open>unhealthy\<close>: the exit code; the first argument is the error of the multicast socket.\<close>

definition unhealthy :: "string \<Rightarrow> nettest_result \<Rightarrow> bool" where
  "unhealthy bind_error r \<longleftrightarrow> bind_error \<noteq> [] \<or> \<not> nr_loopback r \<and> nr_peers r = 0"

fun join_or :: "string list \<Rightarrow> string \<Rightarrow> string" where
  "join_or [] def = def"
| "join_or [s] def = s"
| "join_or (s # t # ss) def = s @ '', '' @ join_or (t # ss) def"

subsection \<open>What is counted\<close>

text \<open>The fingerprints that an event brings in, over either way.\<close>

fun udp_device :: "nettest_env \<Rightarrow> net_event \<Rightarrow> (announcement \<times> string) option" where
  "udp_device E (NetPacket pkt remote) =
     (if contains_str (ne_probe E) pkt then None else map_option (\<lambda>a. (a, remote)) (ne_decode E pkt))"
| "udp_device E (NetRegister meth path body remote) = None"

fun http_device :: "nettest_env \<Rightarrow> net_event \<Rightarrow> (announcement \<times> string) option" where
  "http_device E (NetPacket pkt remote) = None"
| "http_device E (NetRegister meth path body remote) =
     (if meth \<noteq> ''POST'' \<or> \<not> has_suffix ''/register'' path then None
      else map_option (\<lambda>a. (a, remote)) (ne_decode E (take max_register_bytes body)))"

definition other_device :: "nettest_env \<Rightarrow> (announcement \<times> string) option \<Rightarrow> string set" where
  "other_device E d =
     (case d of
        None \<Rightarrow> {}
      | Some (a, remote) \<Rightarrow>
          if dv_fingerprint a \<noteq> [] \<and> dv_fingerprint a \<noteq> ne_self E \<and>
             (remote = [] \<or> \<not> ne_loopback E remote \<and> remote \<notin> set (ne_locals E))
          then {dv_fingerprint a} else {})"

definition devices_in :: "nettest_env \<Rightarrow> (net_event \<Rightarrow> (announcement \<times> string) option) \<Rightarrow> net_event list \<Rightarrow> string set" where
  "devices_in E way es = (\<Union>e \<in> set es. other_device E (way e))"

definition peers_ok :: "seen_peers \<Rightarrow> bool" where
  "peers_ok m \<longleftrightarrow> gm_wf m \<and> [] \<notin> snd ` set m"

lemma recorded_keys:
  "fst ` set (record_peer E a remote m) = other_device E (Some (a, remote)) \<union> fst ` set m"
proof -
  have "map_of m fp \<noteq> None \<longleftrightarrow> fp \<in> fst ` set m" for fp by (simp add: map_of_eq_None_iff)
  then show ?thesis
    by (auto simp: record_peer_def other_device_def should_count_peer_def Let_def alist_update_keys)
qed

lemma recorded_ok: "peers_ok m \<Longrightarrow> peers_ok (record_peer E a remote m)"
  using alist_update_values [of "dv_fingerprint a" "if dv_alias a = [] then unknown_alias else dv_alias a" m]
  by (auto simp: peers_ok_def record_peer_def Let_def distinct_update unknown_alias_def split: if_splits)

lemma nettest_step_udp:
  "fst ` set (nx_udp (nettest_step E e s)) = other_device E (udp_device E e) \<union> fst ` set (nx_udp s)"
  "peers_ok (nx_udp s) \<Longrightarrow> peers_ok (nx_udp (nettest_step E e s))"
  by (cases e; simp add: read_packet_def register_request_def recorded_keys recorded_ok other_device_def split: option.split)+

lemma nettest_step_register:
  "fst ` set (nx_register (nettest_step E e s)) = other_device E (http_device E e) \<union> fst ` set (nx_register s)"
  "peers_ok (nx_register s) \<Longrightarrow> peers_ok (nx_register (nettest_step E e s))"
  by (cases e; simp add: read_packet_def register_request_def recorded_keys recorded_ok other_device_def split: option.split)+

lemma nettest_run_peers:
  assumes "peers_ok (nx_udp s)" "peers_ok (nx_register s)"
  shows "peers_ok (nx_udp (nettest_run E es s)) \<and> peers_ok (nx_register (nettest_run E es s)) \<and>
    fst ` set (nx_udp (nettest_run E es s)) = devices_in E (udp_device E) es \<union> fst ` set (nx_udp s) \<and>
    fst ` set (nx_register (nettest_run E es s)) = devices_in E (http_device E) es \<union> fst ` set (nx_register s)"
  using assms
proof (induction es arbitrary: s)
  case Nil
  then show ?case by (simp add: nettest_run_def devices_in_def)
next
  case (Cons e es)
  have r: "nettest_run E (e # es) s = nettest_run E es (nettest_step E e s)" by (simp add: nettest_run_def)
  show ?case
    using Cons.IH [of "nettest_step E e s"] Cons.prems nettest_step_udp nettest_step_register
    unfolding r by (auto simp: devices_in_def)
qed

lemma keys_card: "peers_ok m \<Longrightarrow> length m = card (fst ` set m)"
  by (metis distinct_card length_map list.set_map peers_ok_def)

lemma union_ok:
  "peers_ok u \<Longrightarrow> peers_ok m \<Longrightarrow>
     peers_ok (union_peers u m) \<and> fst ` set (union_peers u m) = fst ` set u \<union> fst ` set m"
proof (induction u m rule: union_peers.induct)
  case (2 u fp x ps)
  let ?u = "if map_of u fp = None then AList.update fp x u else u"
  have "peers_ok ?u \<and> fst ` set ?u = insert fp (fst ` set u)"
    using "2.prems" alist_update_values [of fp x u]
    by (auto simp: peers_ok_def distinct_update alist_update_keys map_of_eq_None_iff)
  moreover have "peers_ok ps" using "2.prems"(2) by (simp add: peers_ok_def)
  ultimately show ?case using "2.IH" by simp
qed simp

lemma aliases_ok:
  assumes "distinct out" "[] \<notin> set out" "length out < limit"
  shows "distinct (aliases_from limit as out) \<and> [] \<notin> set (aliases_from limit as out) \<and>
    length (aliases_from limit as out) \<le> limit \<and> set out \<subseteq> set (aliases_from limit as out) \<and>
    (as \<noteq> [] \<longrightarrow> aliases_from limit as out \<noteq> [])"
  using assms
proof (induction limit as out rule: aliases_from.induct)
  case (2 limit x xs out)
  let ?a = "if x = [] then unknown_alias else x"
  have a: "?a \<noteq> []" by (simp add: unknown_alias_def)
  consider "?a \<in> set out" | "?a \<notin> set out" "limit \<le> length (out @ [?a])" | "?a \<notin> set out" "\<not> limit \<le> length (out @ [?a])"
    by blast
  then show ?case
  proof cases
    case 1
    with "2.IH"(1) [OF refl 1] "2.prems" show ?thesis by (auto simp: Let_def)
  next
    case 2
    with "2.prems" a show ?thesis by (auto simp: Let_def)
  next
    case 3
    with "2.IH"(2) [OF refl 3] "2.prems" a show ?thesis by (auto simp: Let_def)
  qed
qed simp

text \<open>
  The diagnosis counts other devices: the number it reports is that of the distinct fingerprints, other than its own,
  that came in over either way from addresses that are not this machine's; no packet of its own and no repetition adds
  to it. It names at most ten of them, without repetition, and some as soon as there is one.
\<close>

theorem nettest_counts_other_devices:
  assumes "s = nettest_run E es start_nettest" "visits vis (union_peers (nx_udp s) (nx_register s))"
    and "r = nettest_result_of vis s"
  shows "nr_udp r = card (devices_in E (udp_device E) es) \<and> nr_register r = card (devices_in E (http_device E) es) \<and>
    nr_peers r = card (devices_in E (udp_device E) es \<union> devices_in E (http_device E) es) \<and>
    length (nr_aliases r) \<le> 10 \<and> distinct (nr_aliases r) \<and> (nr_aliases r = [] \<longleftrightarrow> nr_peers r = 0)"
proof -
  let ?u = "union_peers (nx_udp s) (nx_register s)"
  have p: "peers_ok (nx_udp s)" "peers_ok (nx_register s)"
    "fst ` set (nx_udp s) = devices_in E (udp_device E) es" "fst ` set (nx_register s) = devices_in E (http_device E) es"
    using nettest_run_peers [of start_nettest E es] by (simp_all add: assms(1) start_nettest_def peers_ok_def)
  note u = union_ok [OF p(1,2)]
  have v: "vis = [] \<longleftrightarrow> ?u = []" using visits_set [OF assms(2)] by (metis set_empty)
  have "aliases_from 10 (map snd vis) [] = [] \<longleftrightarrow> vis = []"
    using aliases_ok [of "[]" 10 "map snd vis"] by (cases vis) auto
  with v have "aliases_from 10 (map snd vis) [] = [] \<longleftrightarrow> length ?u = 0" by simp
  then show ?thesis
    using aliases_ok [of "[]" 10 "map snd vis"] keys_card [OF p(1)] keys_card [OF p(2)] keys_card [of ?u] u p(3,4)
    by (simp add: assms(3) nettest_result_of_def del: length_0_conv)
qed

definition demo_net_env :: nettest_env where
  "demo_net_env =
     \<lparr>ne_decode = (\<lambda>b. Some (demo_announcement 1\<lparr>dv_fingerprint := b\<rparr>)), ne_loopback = (\<lambda>a. False), ne_self = ''me'',
      ne_locals = [], ne_probe = ''P''\<rparr>"

theorem nettest_counts_other_devices_witness:
  "nr_peers (nettest_result_of (union_peers [(''f'', ''x'')] [(''f'', ''x'')]) (nettest_run demo_net_env
       [NetPacket ''P'' [], NetPacket ''f'' [], NetPacket ''me'' [], NetRegister ''POST'' ''/register'' ''f'' []] start_nettest)) = 1"
proof -
  let ?es = "[NetPacket ''P'' [], NetPacket ''f'' [], NetPacket ''me'' [], NetRegister ''POST'' ''/register'' ''f'' []]"
  let ?s = "nettest_run demo_net_env ?es start_nettest"
  have c: "\<not> contains_str ''P'' ''f''" "\<not> contains_str ''P'' ''me''" "contains_str ''P'' ''P''"
    "has_suffix ''/register'' ''/register''" by code_simp+
  note contains_str.simps [simp del]
  have d: "devices_in demo_net_env (udp_device demo_net_env) ?es = {''f''}"
    "devices_in demo_net_env (http_device demo_net_env) ?es = {''f''}"
    by (auto simp: devices_in_def other_device_def demo_net_env_def c max_register_bytes_def)
  obtain vis where "vis = union_peers (nx_udp ?s) (nx_register ?s)" by blast
  with nettest_counts_other_devices [OF refl _ refl, of vis demo_net_env ?es]
  have "nr_peers (nettest_result_of vis ?s) = 1" by (simp add: d)
  then show ?thesis by (simp add: nettest_result_of_def)
qed

end
