(* ===== verification/Spec2Isabelle.thy ===== *)
theory Spec2Isabelle
  imports Conn_Limit Http_Server Idle_Reader Trusted_Store RTC_Transfer RTC_Sender_Props Fwd_Delivery Upload_Conn
    Rev_Sender Discovery_Props Certificates Rebind RTC_Connect RTC_Net Recv_Filter Peer_Notify Send_Command Scan_Command Net_Test
begin

text \<open>
  A verification development for the Go program behind the LocalSend plugin for KOReader (\<open>internal/\<close> and \<open>cmd/\<close>).

  \<^bold>\<open>The program.\<close> A device receives files in two ways. The HTTP receiver (\<open>internal/localsend/recv\<close>) is announced by
  multicast; a sender posts the list of its files, gets a token for each behind a PIN, and uploads them. The WebRTC
  receiver (\<open>internal/webrtc/transfer\<close>) is found through a signaling server; the two peers exchange session descriptions
  over it, then shake hands, check PINs, pair and stream files over one data channel. A device sends in three ways: over
  HTTP (\<open>send/fwdsend.go\<close>), by offering a download page (\<open>send/rvsend.go\<close>), and over WebRTC. Both receivers share the
  sanitiser of names, the routing by extension, the allocation of unique names, and the remapping of folders. The commands
  under \<open>cmd/\<close> start these parts; a private control socket lets a scan use the process that owns the listener.

  \<^bold>\<open>Conventions.\<close> A Go struct is a record, a set of constants or results a datatype, a Go map an association list with
  distinct keys (the locale \<open>go_map\<close> of \<open>LS_Prelude\<close> states what the components use of it); where the order of a map
  iteration could matter, the visited entries are an argument (\<open>visits\<close>). Strings and bytes are lists of 8-bit characters.
  An \<open>int\<close> is kept in the range of its Go type with \<open>wrap64\<close> where it can overflow; time is in nanoseconds. A fallible
  operation returns an option or a sum. What is not in the repository (SHA-256, signatures, X.509, the JSON text codec,
  zlib, the operating system, fasthttp, the WebRTC library, the clock, random ids) is an argument of the definitions that
  use it, most often a field of an environment record; where a theorem needs a law of it, the law is a hypothesis.
  A critical section is one step. Code whose critical sections interleave is a step function on a shared state with one
  event for each section, run on arbitrary sequences of events; \<open>None\<close> is an event that cannot happen at this point. Code
  that runs under one mutex is a function. Where such code releases the mutex to ask the user, the WebRTC receiver is in
  two parts with any other events between them (\<open>RTC_Net\<close>); the runs of \<open>RTC_Run\<close> and those of the WebRTC sender are the
  ones in which the user answers before the next event. No definition needs fuel: loops are recursive on the data they consume, or on
  the sequence of what happens (reads, writes, acknowledgements, ticks), so that an unbounded wait is an unbounded sequence.

  \<^bold>\<open>Shared parts.\<close> \<open>LS_Prelude\<close>: types, Go maps, time, the locales \<open>go_map\<close> and \<open>bounded_store\<close>. \<open>Go_Strings\<close>: the functions of
  \<open>strings\<close> and \<open>path/filepath\<close>. \<open>Json\<close>: decoding a parsed value into a struct. \<open>LS_Errors\<close>: \<open>constants/errors.go\<close> and \<open>security.go\<close>.
  \<open>Models\<close>: \<open>internal/models\<close>. \<open>File_System\<close>: exclusive creation, removal, renaming, with injected failures.

  \<^bold>\<open>Names and files.\<close> \<open>Paths\<close> (\<open>utils/paths.go\<close>): the sanitiser accepts exactly the relative paths that never leave the
  directory, and what it accepts lies strictly below it. \<open>Unique_Files\<close> (\<open>utils/files.go\<close>, \<open>folderremap.go\<close>): a name is created
  only where there was none; the locale \<open>fresh_creator\<close> states this once for the three ways of creating a file. \<open>Routing\<close>
  (\<open>utils/misc.go\<close>, \<open>recv/routing.go\<close>): the extension filter and the directories by extension. \<open>Stored_Names\<close>: a stored file keeps
  the extension of the announced name.

  \<^bold>\<open>HTTP receiver.\<close> \<open>Conn_Limit\<close> (\<open>utils/connlimit.go\<close>, locale \<open>slot_limiter\<close>), \<open>Rate_Limiter\<close> (\<open>utils/ratelimit.go\<close>, the PIN gate and
  its races, locale \<open>attempt_guard\<close>), \<open>Recv_Session\<close> and \<open>Upload_Props\<close> (\<open>session/recv.go\<close>: one upload from the claim of its
  token to the file on disk, or without a trace), \<open>Session_Manager\<close> (\<open>session/recvsessman.go\<close>), \<open>Nonce_Cache\<close>
  (\<open>nonce_cache.go\<close>, refined to an LRU list), \<open>Idle_Reader\<close> (the idle deadline of an upload), \<open>Http_Receiver\<close> (\<open>recv/handlers.go\<close> and
  \<open>recv.go\<close>: every handler) and \<open>Http_Server\<close>, which runs any sequence of requests: nothing existing is changed, what is new is
  an allowed file below a configured directory, and tokens are given only behind all checks. \<open>Rebind\<close> (\<open>recv.go\<close>,
  \<open>recv/scan.go\<close>): the discovery sockets are rebound, shut down and scanned by three goroutines; no scan misses a new
  discoverer and no discoverer survives \<open>Stop\<close>.

  \<^bold>\<open>Senders over HTTP.\<close> \<open>Local_Files\<close> (\<open>models/filemeta.go\<close>, \<open>send/send.go\<close>), \<open>Fwd_Sender\<close> with its upload workers as
  interleaved steps and \<open>Fwd_Props\<close> (they terminate; success means all files were uploaded), \<open>Fwd_Delivery\<close> (sender and
  receiver together), \<open>Upload_Conn\<close> (the deadlines of an upload connection), \<open>Rev_Sender\<close>.

  \<^bold>\<open>WebRTC.\<close> \<open>Signaling\<close> (\<open>webrtc/signaling\<close>): the loops of the client and its users as interleaved steps over bounded
  channels. \<open>Peer_Channel\<close> and \<open>Peer_Notify\<close> (\<open>transfer/peer.go\<close>): frames, flow control against the draining of the library,
  and the notification of the end. \<open>RTC_Connect\<close>: \<open>Send\<close> and \<open>AcceptOffer\<close> over the clients of both sides; the descriptions
  cross unharmed and a failed offer leaves the receiver free. \<open>RTC_Protocol\<close> (\<open>rtc_protocol.go\<close>), \<open>Token\<close> (\<open>crypto/token.go\<close>),
  \<open>Trusted_Store\<close> (\<open>storage/trusted_devices.go\<close>). \<open>RTC_Receiver\<close> and \<open>RTC_Handlers\<close> (\<open>receiver.go\<close>) with the runs of \<open>RTC_Run\<close>;
  \<open>RTC_Files\<close> refines them to an abstract machine with one open file; \<open>RTC_Auth\<close> follows the key through a connection;
  \<open>RTC_Props\<close> states the results, \<open>RTC_Demo\<close> holds a complete transfer for their witnesses. \<open>RTC_Net\<close> adds the connections,
  their channels and the handlers that wait for an answer: whatever interleaves, no list is awaited or known, no token
  given and no file opened before the PIN; and the receiver stays the file machine as long as no answer to a file list
  comes while a file is open. \<open>RTC_Sender\<close> (\<open>sender.go\<close>) with the runs
  of \<open>RTC_Sender_Run\<close> and \<open>RTC_Sender_Props\<close>. \<open>RTC_Wire\<close>, \<open>RTC_Delivery\<close> and \<open>RTC_Transfer\<close> put the ends together: success on the
  receiver's own acknowledgements means that every file is there, byte for byte.

  \<^bold>\<open>Discovery and commands.\<close> \<open>Discovery\<close>, \<open>Discovery_Net\<close>, \<open>Discovery_Props\<close> (\<open>localsend/scan.go\<close>, \<open>discovery_scan.go\<close>): the store of
  devices, answers, targets, the stages of a scan. \<open>Certificates\<close>: what pins a peer to its fingerprint. \<open>Control\<close>
  (\<open>internal/control\<close>): processes that race for the control socket, system call by system call. \<open>Recv_Command\<close>, \<open>Send_Command\<close>,
  \<open>Scan_Command\<close>, \<open>Net_Test\<close> (\<open>cmd/\<close>): the choice of files, the reconnect loop, the busy file, the text of a message, the files
  of an argument list, the report of a scan, the counting of devices. \<open>Recv_Demo\<close> and \<open>Recv_Filter\<close>: the extension filter
  of \<open>cmd/recv\<close> over WebRTC can be passed with a repeated id or a late answer, and holds without these and failed sends.

  \<^bold>\<open>Bounds.\<close> They are those of the code: 64 connections and 8 for each address, 3 PINs, 500 peers, 512 devices, 16 and 32 messages in
  a channel, frames of 16 KiB, control messages of 2 MiB, descriptions of 512 KiB, three attempts for an upload.

  \<^bold>\<open>Where the code falls short.\<close> These are theorems too: two requests in flight get one wrong PIN more compared
  (\<open>racing_pins_exceed_limit\<close>), a timed-out session revives beside a new one (\<open>two_sessions_active\<close>), leaving early resets the PIN
  count over WebRTC (\<open>reconnecting_resets_pin_limit\<close>), pairing is skipped by a peer that gives no key
  (\<open>pairing_skipped_without_key\<close>), an empty text frame panics (\<open>empty_text_is_the_only_panic\<close>), a PIN makes the sender forget the
  identity of the receiver (\<open>pin_erases_identity\<close>), an answer of the user is applied to whatever the WebRTC receiver has become
  (a file is left open in \<open>late_answer_leaves_file_open\<close>, the next peer gets past the PIN in \<open>resumed_handler_skips_pin\<close>, the ids
  of one list are accepted for another in \<open>answer_for_a_later_list\<close>), a cancelled send reports success (\<open>cancelled_send_reports_success\<close>), a repeated id
  passes the extension filter (\<open>repeated_id_passes_filter\<close>), a folder that fails half way is sent as far as it was read
  (\<open>failed_folder_is_not_skipped\<close>).

  \<^bold>\<open>Not modelled.\<close> The Lua plugin, the templates and the interoperability tests. Of the Go code: the socket calls, the
  enumeration of interfaces, multicast membership, the workers of the subnet scan and the client that asks a device for its
  information (\<open>localsend.go\<close>), since they only call the system; the generation and loading of keys and certificates, which are
  calls into the standard library; the configuration of the WebRTC library; the start and the flags of the commands, log
  messages and printing; the list of random aliases; the messages of \<open>transfer/protocol.go\<close>, which nothing uses; the
  build tools under \<open>tools/\<close>, which patch the sources of the Go runtime. Within modelled parts, plain setters of a
  configuration field are left out where the field is an argument of the model.
\<close>

end
